(* ===== verification/Semu_Prelude.thy ===== *)
theory Semu_Prelude
  imports Main "HOL-Library.Word"
begin

text \<open>
  Shared vocabulary of the semu development: the machine integer types of the C++ sources
  (\<open>std::uint8_t\<close> and its kin) as words, decimal rendering (\<open>std::to_string\<close>), byte
  buffers with the effect of \<open>memcpy\<close> in both directions, and the generic word and list
  facts the component theories share.
\<close>

unbundle bit_operations_syntax

named_theorems buf_simps \<open>byte buffer read/write rules\<close>
named_theorems omap_simps \<open>ordered map lookup rules\<close>
named_theorems inv_intros \<open>operations that keep a component invariant\<close>

subsection \<open>Machine integers\<close>

type_synonym u8 = "8 word"
type_synonym u16 = "16 word"
type_synonym u32 = "32 word"
type_synonym u64 = "64 word"

type_synonym bytes = "u8 list"

abbreviation UINT64_MAX :: u64 where
  "UINT64_MAX \<equiv> - 1"

abbreviation UINT32_MAX :: u32 where
  "UINT32_MAX \<equiv> - 1"

lemma unat_UINT64_MAX [simp]: "unat UINT64_MAX = 2 ^ 64 - 1"
  by (simp add: unsigned_minus_1_eq_mask mask_eq_exp_minus_1)

lemma le_UINT64_MAX_minus:
  fixes a b :: u64
  shows "a \<le> UINT64_MAX - b \<longleftrightarrow> unat a + unat b < 2 ^ 64"
proof -
  have "unat (UINT64_MAX - b) = 2 ^ 64 - 1 - unat b"
    by (simp add: unat_sub word_order.extremum)
  moreover have "unat b < 2 ^ 64"
    using unsigned_less [of b, where ?'a = nat] by simp
  ultimately show ?thesis
    by (simp add: word_le_nat_alt) linarith
qed

lemma unat_add_no_wrap:
  fixes a b :: u64
  assumes "unat a + unat b < 2 ^ 64"
  shows "unat (a + b) = unat a + unat b"
  using assms by (simp add: unat_add_lem [THEN iffD1])

lemma unat_of_nat_u64: "n < 2 ^ 64 \<Longrightarrow> unat (word_of_nat n :: u64) = n"
  by (simp add: unat_of_nat)

lemma unat_of_nat_u32: "n < 2 ^ 32 \<Longrightarrow> unat (word_of_nat n :: u32) = n"
  by (simp add: unat_of_nat)

lemma unat_lt_u64 [simp]: "unat (w :: u64) < 2 ^ 64"
  using unsigned_less [of w, where ?'a = nat] by simp

lemma unat_sub_le:
  fixes a b :: u64
  assumes "b \<le> a"
  shows "unat (a - b) = unat a - unat b"
  using assms by (rule unat_sub)

subsection \<open>Decimal rendering: \<open>std::to_string\<close> of an unsigned integer\<close>

fun show_nat :: "nat \<Rightarrow> string" where
  "show_nat n = (if n < 10 then [char_of (48 + n)] else show_nat (n div 10) @ [char_of (48 + n mod 10)])"

declare show_nat.simps [simp del]

definition show_u64 :: "u64 \<Rightarrow> string" where
  "show_u64 w = show_nat (unat w)"

definition show_u32 :: "u32 \<Rightarrow> string" where
  "show_u32 w = show_nat (unat w)"

text \<open>The inverse reading, used only to state that rendering loses nothing.\<close>

definition read_dec :: "string \<Rightarrow> nat" where
  "read_dec s = foldl (\<lambda>acc c. 10 * acc + (of_char c - 48)) 0 s"

lemma read_dec_snoc: "read_dec (s @ [c]) = 10 * read_dec s + (of_char c - 48)"
  by (simp add: read_dec_def)

lemma of_char_digit: "d < 10 \<Longrightarrow> of_char (char_of (48 + d :: nat)) - 48 = (d :: nat)"
  by (simp add: of_char_of)

lemma read_dec_show_nat: "read_dec (show_nat n) = n"
proof (induction n rule: show_nat.induct)
  case (1 n)
  show ?case
  proof (cases "n < 10")
    case True
    then show ?thesis
      by (subst show_nat.simps) (simp add: read_dec_def of_char_digit del: char_of_nat)
  next
    case False
    with 1 have IH: "read_dec (show_nat (n div 10)) = n div 10" by simp
    from False have "read_dec (show_nat n) = 10 * (n div 10) + (of_char (char_of (48 + n mod 10)) - 48)"
      by (subst show_nat.simps) (simp add: read_dec_snoc IH)
    then show ?thesis by (simp add: of_char_digit)
  qed
qed

lemma show_nat_inject [simp]: "show_nat m = show_nat n \<longleftrightarrow> m = n"
  by (metis read_dec_show_nat)

lemma show_u64_inject [simp]: "show_u64 a = show_u64 b \<longleftrightarrow> a = b"
  by (simp add: show_u64_def word_unat_eq_iff)

lemma show_u32_inject [simp]: "show_u32 a = show_u32 b \<longleftrightarrow> a = b"
  by (simp add: show_u32_def word_unat_eq_iff)

subsection \<open>Byte buffers\<close>

text \<open>
  \<open>memcpy(dst, buf + off, len)\<close> reads \<open>read_range off len buf\<close>; \<open>memcpy(buf + off, src,
  len)\<close> leaves \<open>write_range off src buf\<close>. Both are used under the bounds check the source
  makes first.
\<close>

definition read_range :: "nat \<Rightarrow> nat \<Rightarrow> 'a list \<Rightarrow> 'a list" where
  "read_range off len xs = take len (drop off xs)"

definition write_range :: "nat \<Rightarrow> 'a list \<Rightarrow> 'a list \<Rightarrow> 'a list" where
  "write_range off ys xs = take off xs @ ys @ drop (off + length ys) xs"

lemma length_read_range [buf_simps, simp]:
  "off + len \<le> length xs \<Longrightarrow> length (read_range off len xs) = len"
  by (simp add: read_range_def)

lemma length_write_range [buf_simps, simp]:
  "off + length ys \<le> length xs \<Longrightarrow> length (write_range off ys xs) = length xs"
  by (simp add: write_range_def)

lemma nth_read_range [buf_simps]:
  "off + len \<le> length xs \<Longrightarrow> i < len \<Longrightarrow> read_range off len xs ! i = xs ! (off + i)"
  by (simp add: read_range_def)

lemma nth_write_range [buf_simps]:
  assumes "off + length ys \<le> length xs" and "i < length xs"
  shows "write_range off ys xs ! i =
           (if off \<le> i \<and> i < off + length ys then ys ! (i - off) else xs ! i)"
  using assms by (auto simp: write_range_def nth_append min_def)

lemma read_write_same [buf_simps]:
  "off + length ys \<le> length xs \<Longrightarrow> read_range off (length ys) (write_range off ys xs) = ys"
  by (simp add: read_range_def write_range_def)

lemma read_write_same_len [buf_simps]:
  "length ys = n \<Longrightarrow> off + n \<le> length xs \<Longrightarrow> read_range off n (write_range off ys xs) = ys"
  by (auto simp: read_write_same)

lemma read_write_disjoint [buf_simps]:
  assumes "off + length ys \<le> length xs" and "off' + len \<le> length xs"
    and "off' + len \<le> off \<or> off + length ys \<le> off'"
  shows "read_range off' len (write_range off ys xs) = read_range off' len xs"
  using assms by (intro nth_equalityI) (auto simp: buf_simps)

lemma write_range_read_same [buf_simps]:
  "off + len \<le> length xs \<Longrightarrow> write_range off (read_range off len xs) xs = xs"
  by (intro nth_equalityI) (auto simp: buf_simps)

subsection \<open>Searching a vector: \<open>std::find_if\<close> as an index\<close>

primrec find_idx :: "('a \<Rightarrow> bool) \<Rightarrow> 'a list \<Rightarrow> nat option" where
  "find_idx P [] = None"
| "find_idx P (x # xs) = (if P x then Some 0 else map_option Suc (find_idx P xs))"

lemma find_idx_None: "find_idx P xs = None \<longleftrightarrow> (\<forall>x \<in> set xs. \<not> P x)"
  by (induction xs) auto

lemma find_idx_SomeD: "find_idx P xs = Some i \<Longrightarrow> i < length xs \<and> P (xs ! i)"
  by (induction xs arbitrary: i) (auto split: if_splits)

lemma find_idx_first: "find_idx P xs = Some i \<Longrightarrow> j < i \<Longrightarrow> \<not> P (xs ! j)"
proof (induction xs arbitrary: i j)
  case Nil
  then show ?case by simp
next
  case (Cons x xs)
  then show ?case by (cases j) (auto split: if_splits)
qed

lemma find_idx_unique:
  assumes "i < length xs" "P (xs ! i)" "\<And>j. j < length xs \<Longrightarrow> P (xs ! j) \<Longrightarrow> j = i"
  shows "find_idx P xs = Some i"
proof (cases "find_idx P xs")
  case None
  then show ?thesis using assms(1,2) nth_mem by (fastforce simp: find_idx_None)
next
  case (Some j)
  then show ?thesis using find_idx_SomeD [OF Some] assms(3) by auto
qed

lemma find_idx_list_update:
  "P y = P (xs ! k) \<Longrightarrow> find_idx P (xs[k := y]) = find_idx P xs"
proof (induction xs arbitrary: k)
  case Nil
  then show ?case by simp
next
  case (Cons x xs)
  then show ?case by (cases k) auto
qed

subsection \<open>Little-endian byte strings\<close>

text \<open>
  \<open>memcpy\<close> between a byte buffer and an integer on a little-endian host: the low
  \<open>n\<close> bytes of a 64-bit value, and the value of at most eight bytes.
\<close>

definition u64_bytes :: "nat \<Rightarrow> u64 \<Rightarrow> bytes" where
  "u64_bytes n v = map (\<lambda>i. ucast (drop_bit (8 * i) v)) [0..<n]"

primrec bytes_u64 :: "bytes \<Rightarrow> u64" where
  "bytes_u64 [] = 0"
| "bytes_u64 (b # bs) = ucast b OR push_bit 8 (bytes_u64 bs)"

lemma length_u64_bytes [simp]: "length (u64_bytes n v) = n"
  by (simp add: u64_bytes_def)

lemma bit_bytes_u64:
  "bit (bytes_u64 bs) n \<longleftrightarrow> n < 64 \<and> n < 8 * length bs \<and> bit (bs ! (n div 8)) (n mod 8)"
proof (induction bs arbitrary: n)
  case Nil
  then show ?case by simp
next
  case (Cons b bs)
  show ?case
  proof (cases "n < 8")
    case True
    then show ?thesis by (auto simp: bit_simps Cons.IH)
  next
    case False
    then have "\<not> bit b n" using bit_imp_le_length [of b n] by auto
    moreover have "n div 8 = Suc ((n - 8) div 8)" "n mod 8 = (n - 8) mod 8"
      using False by (simp_all add: div_if mod_if le_div_geq le_mod_geq)
    ultimately show ?thesis
      using False by (auto simp: bit_simps Cons.IH)
  qed
qed

lemma bytes_u64_bytes: "n \<le> 8 \<Longrightarrow> bytes_u64 (u64_bytes n v) = take_bit (8 * n) v"
  by (rule bit_word_eqI) (auto simp: bit_bytes_u64 u64_bytes_def bit_simps mult.commute [of 8 "_ div 8"])

lemma u64_bytes_u64: "length bs \<le> 8 \<Longrightarrow> u64_bytes (length bs) (bytes_u64 bs) = bs"
proof (rule nth_equalityI)
  fix i assume len: "length bs \<le> 8" and "i < length (u64_bytes (length bs) (bytes_u64 bs))"
  then have i: "i < length bs" by simp
  show "u64_bytes (length bs) (bytes_u64 bs) ! i = bs ! i"
  proof (rule bit_word_eqI)
    fix n assume n: "n < LENGTH(8)"
    then have "(8 * i + n) div 8 = i" "(8 * i + n) mod 8 = n" "8 * i + n < 8 * length bs"
      using i by auto
    then show "bit (u64_bytes (length bs) (bytes_u64 bs) ! i) n = bit (bs ! i) n"
      using n i len by (auto simp: u64_bytes_def bit_simps bit_bytes_u64)
  qed
qed simp

lemma unat_bytes_u64_lt: "length bs \<le> 8 \<Longrightarrow> unat (bytes_u64 bs) < 2 ^ (8 * length bs)"
proof -
  assume "length bs \<le> 8"
  then have "bytes_u64 bs = take_bit (8 * length bs) (bytes_u64 bs)"
    using bytes_u64_bytes [of "length bs" "bytes_u64 bs"] u64_bytes_u64 [of bs] by simp
  then have "unat (bytes_u64 bs) = take_bit (8 * length bs) (unat (bytes_u64 bs))"
    by (metis unsigned_take_bit_eq)
  then show ?thesis by (metis take_bit_nat_less_exp)
qed

end
