(* ===== verification/Word128.thy ===== *)
theory Word128
  imports Semu_Prelude
begin

text \<open>
  Raw 128-bit instruction words and the bit-field helpers shared by the decoder and the
  fault reports (\<open>semu/core/word.hpp\<close>, \<open>src/core/word.cpp\<close>). A word is split into
  \<open>lo\<close> (bits 63..0) and \<open>hi\<close> (bits 127..64). Bit positions are natural numbers: the
  callers pass ranges with \<open>0 \<le> l \<le> h \<le> 127\<close> of at most 64 bits, outside of which the
  C++ shifts are undefined.
\<close>

record Word128 =
  w_lo :: u64
  w_hi :: u64

type_synonym BitRange = "nat \<times> nat" \<comment> \<open>(high bit, low bit), inclusive\<close>

definition range_ok :: "BitRange \<Rightarrow> bool" where
  "range_ok r \<longleftrightarrow> (case r of (h, l) \<Rightarrow> l \<le> h \<and> h \<le> 127 \<and> h - l + 1 \<le> 64)"

abbreviation range_width :: "BitRange \<Rightarrow> nat" where
  "range_width r \<equiv> fst r - snd r + 1"

subsection \<open>Field extraction\<close>

definition low_mask :: "nat \<Rightarrow> u64" where
  "low_mask w = (if w = 64 then NOT 0 else push_bit w 1 - 1)"

definition extract_part :: "u64 \<Rightarrow> u64 \<Rightarrow> nat \<Rightarrow> nat \<Rightarrow> u64" where
  "extract_part lo hi h l =
     (let w = h - l + 1;
          msk = low_mask w
      in if l \<ge> 64 then drop_bit (l - 64) hi AND msk
         else if h < 64 then drop_bit l lo AND msk
         else let lo_w = 64 - l;
                  lo_mask = low_mask lo_w;
                  hi_part = (if w > lo_w \<and> w - lo_w < 64 then hi AND (push_bit (w - lo_w) 1 - 1)
                             else if w \<ge> lo_w + 64 then hi else 0);
                  part = drop_bit l lo AND lo_mask
              in if lo_w < 64 then part OR push_bit lo_w hi_part else part)"

fun extract_loop :: "u64 \<Rightarrow> u64 \<Rightarrow> BitRange list \<Rightarrow> u64 \<Rightarrow> u64" where
  "extract_loop lo hi [] val = val"
| "extract_loop lo hi ((h, l) # rs) val =
     (let w = h - l + 1; part = extract_part lo hi h l
      in extract_loop lo hi rs (if w \<ge> 64 then part else push_bit w val OR part))"

definition extract_bits :: "u64 \<Rightarrow> u64 \<Rightarrow> BitRange list \<Rightarrow> u64" where
  "extract_bits lo hi ranges = extract_loop lo hi ranges 0"

definition extract_bits1 :: "u64 \<Rightarrow> u64 \<Rightarrow> nat \<Rightarrow> nat \<Rightarrow> u64" where
  "extract_bits1 lo hi hi_bit lo_bit = extract_bits lo hi [(hi_bit, lo_bit)]"

definition opcode_of :: "u64 \<Rightarrow> u64 \<Rightarrow> u16" where
  "opcode_of lo hi = ucast (extract_bits lo hi [(91, 91), (11, 0)])"

definition sign_extend :: "u64 \<Rightarrow> nat \<Rightarrow> u64" where
  "sign_extend val width =
     (if width \<ge> 64 then val
      else if val AND push_bit (width - 1) 1 \<noteq> 0 then val OR push_bit width (NOT 0)
      else val)"

subsection \<open>The 128-bit word as one number\<close>

definition joined :: "u64 \<Rightarrow> u64 \<Rightarrow> 128 word" where
  "joined lo hi = push_bit 64 (ucast hi) OR ucast lo"

lemma bit_joined:
  "bit (joined lo hi) n \<longleftrightarrow> (if n < 64 then bit lo n else n < 128 \<and> bit hi (n - 64))"
  by (auto simp: joined_def bit_simps dest: bit_imp_le_length)

lemma bit_low_mask: "w \<le> 64 \<Longrightarrow> bit (low_mask w) n \<longleftrightarrow> n < w"
  by (auto simp: low_mask_def bit_simps push_bit_eq_mult mask_eq_exp_minus_1 [symmetric])

lemma bit_extract_part:
  assumes "l \<le> h" "h \<le> 127" "h - l + 1 \<le> 64"
  shows "bit (extract_part lo hi h l) n \<longleftrightarrow> n < h - l + 1 \<and> bit (joined lo hi) (l + n)"
proof -
  have msk: "push_bit k (1 :: u64) - 1 = mask k" for k
    by (simp add: push_bit_eq_mult mask_eq_exp_minus_1)
  consider "l \<ge> 64" | "l < 64" "h < 64" | "l < 64" "h \<ge> 64" by linarith
  then show ?thesis
  proof cases
    case 1
    with assms show ?thesis
      by (auto simp: extract_part_def Let_def bit_joined bit_low_mask bit_simps)
  next
    case 2
    with assms show ?thesis
      by (auto simp: extract_part_def Let_def bit_joined bit_low_mask bit_simps)
  next
    case 3
    have "l \<noteq> 0" "64 - l < h - l + 1" "h - l + 1 - (64 - l) = h - 63" "h - 63 < 64"
        "\<not> 64 - l + 64 \<le> h - l + 1"
      using 3 assms by auto
    with 3 have eq: "extract_part lo hi h l =
        (drop_bit l lo AND mask (64 - l)) OR push_bit (64 - l) (hi AND mask (h - 63))"
      by (simp add: extract_part_def Let_def low_mask_def mask_eq_exp_minus_1 del: diff_diff_left)
    have "n - (64 - l) < h - 63 \<longleftrightarrow> n < h - l + 1" "n - (64 - l) = l + n - 64" if "64 - l \<le> n"
      using 3 that by auto
    with 3 assms show ?thesis
      by (auto simp: eq bit_joined bit_simps)
  qed
qed

lemma take_bit_unat_self: "take_bit LENGTH('a) (unat w) = unat (w :: 'a::len word)"
  by (simp add: take_bit_nat_eq_self)

lemma extract_part_unat:
  assumes "range_ok (h, l)"
  shows "unat (extract_part lo hi h l) = unat (joined lo hi) div 2 ^ l mod 2 ^ (h - l + 1)"
proof -
  have "extract_part lo hi h l = ucast (take_bit (h - l + 1) (drop_bit l (joined lo hi)))"
    using assms
    by (intro bit_word_eqI) (auto simp: bit_extract_part range_ok_def bit_simps)
  then have "unat (extract_part lo hi h l) =
               take_bit 64 (take_bit (h - l + 1) (unat (drop_bit l (joined lo hi))))"
    by (simp add: unsigned_ucast_eq unsigned_take_bit_eq min.commute)
  also have "\<dots> = take_bit (h - l + 1) (drop_bit l (unat (joined lo hi)))"
    using assms take_bit_unat_self [of "joined lo hi"]
    by (simp add: range_ok_def min.absorb1 min.absorb2 unsigned_drop_bit_eq)
  finally show ?thesis
    by (simp add: take_bit_eq_mod drop_bit_eq_div)
qed

text \<open>The mathematical value of a field list: ranges are listed most significant first.\<close>

definition field_value :: "u64 \<Rightarrow> u64 \<Rightarrow> BitRange \<Rightarrow> nat" where
  "field_value lo hi r = unat (joined lo hi) div 2 ^ snd r mod 2 ^ range_width r"

definition concat_fields :: "u64 \<Rightarrow> u64 \<Rightarrow> BitRange list \<Rightarrow> nat \<Rightarrow> nat" where
  "concat_fields lo hi rs acc = foldl (\<lambda>acc r. acc * 2 ^ range_width r + field_value lo hi r) acc rs"

lemma unat_shift_or:
  fixes val part :: u64
  assumes "unat part < 2 ^ w" and "unat val * 2 ^ w < 2 ^ 64"
  shows "unat (push_bit w val OR part) = unat val * 2 ^ w + unat part"
proof -
  have disj: "push_bit w val AND part = 0"
  proof (rule bit_word_eqI)
    fix n
    have "take_bit w part = part"
      using assms(1) by (simp add: word_unat_eq_iff unsigned_take_bit_eq take_bit_nat_eq_self)
    then have "bit part n \<Longrightarrow> n < w" by (metis bit_take_bit_iff)
    then show "bit (push_bit w val AND part) n \<longleftrightarrow> bit (0 :: u64) n"
      by (auto simp: bit_simps)
  qed
  have shl: "unat (push_bit w val) = unat val * 2 ^ w"
    using assms(2) by (subst unsigned_push_bit_eq) (simp add: take_bit_nat_eq_self push_bit_eq_mult)
  have "unat val * 2 ^ w + unat part < 2 ^ 64"
  proof (cases "w < 64")
    case True
    then have e: "(2 :: nat) ^ 64 = 2 ^ (64 - w) * 2 ^ w" by (simp flip: power_add)
    with assms(2) have "unat val < 2 ^ (64 - w)" by (metis mult_less_cancel2)
    then have "Suc (unat val) * 2 ^ w \<le> 2 ^ (64 - w) * 2 ^ w" by (intro mult_le_mono1) simp
    with assms(1) e show ?thesis by simp
  next
    case False
    then have "(2 :: nat) ^ 64 \<le> 2 ^ w" by (intro power_increasing) auto
    with assms(2) have "unat val = 0" by (cases "unat val") auto
    then show ?thesis using unsigned_less [of part, where ?'a = nat] by simp
  qed
  moreover have "push_bit w val OR part = push_bit w val + part"
    using disj by (simp add: disjunctive_add_eq_or)
  ultimately show ?thesis
    by (simp add: shl unat_add_no_wrap)
qed

lemma extract_loop_value:
  assumes "list_all range_ok rs" and "unat val < 2 ^ k" and "k + sum_list (map range_width rs) \<le> 64"
  shows "unat (extract_loop lo hi rs val) = concat_fields lo hi rs (unat val)"
  using assms
proof (induction rs arbitrary: val k)
  case Nil
  then show ?case by (simp add: concat_fields_def)
next
  case (Cons r rs)
  obtain h l where r: "r = (h, l)" by (cases r)
  define w where "w = h - l + 1"
  have ok: "range_ok (h, l)" and kw: "k + w + sum_list (map range_width rs) \<le> 64"
    using Cons.prems by (simp_all add: r w_def)
  have part: "unat (extract_part lo hi h l) = field_value lo hi (h, l)"
    using extract_part_unat [OF ok] by (simp add: field_value_def)
  have part_lt: "field_value lo hi (h, l) < 2 ^ w"
    by (simp add: field_value_def w_def)
  define val' where "val' = (if w \<ge> 64 then extract_part lo hi h l
                             else push_bit w val OR extract_part lo hi h l)"
  have bound: "unat val * 2 ^ w < 2 ^ (k + w)"
    using Cons.prems(2) by (simp add: power_add)
  have small: "(2 :: nat) ^ (k + w) \<le> 2 ^ 64"
    using kw by (intro power_increasing) auto
  have val': "unat val' = unat val * 2 ^ w + field_value lo hi (h, l)"
  proof (cases "w \<ge> 64")
    case True
    with kw have "k = 0" by simp
    with Cons.prems(2) have "unat val = 0" by simp
    with True part show ?thesis by (simp add: val'_def)
  next
    case False
    then show ?thesis
      using unat_shift_or [of "extract_part lo hi h l" w val] part part_lt bound small
      by (simp add: val'_def)
  qed
  have "unat val' < 2 ^ (k + w)"
  proof -
    have "Suc (unat val) * 2 ^ w \<le> 2 ^ k * 2 ^ w"
      using Cons.prems(2) by (intro mult_le_mono1) simp
    with part_lt val' show ?thesis by (simp add: power_add)
  qed
  then have "unat (extract_loop lo hi rs val') = concat_fields lo hi rs (unat val')"
    using Cons.IH [of val' "k + w"] Cons.prems(1) kw by simp
  moreover have "extract_loop lo hi (r # rs) val = extract_loop lo hi rs val'"
    by (simp only: r extract_loop.simps Let_def val'_def w_def)
  moreover have "concat_fields lo hi (r # rs) (unat val) = concat_fields lo hi rs (unat val')"
    by (simp add: concat_fields_def val' r w_def)
  ultimately show ?case by simp
qed

lemma unat_and_low_mask:
  "w \<le> 64 \<Longrightarrow> unat (x AND low_mask w) = unat x mod 2 ^ w"
proof -
  assume w: "w \<le> 64"
  then have "x AND low_mask w = take_bit w x"
    by (intro bit_word_eqI) (auto simp: bit_simps bit_low_mask)
  moreover have "unat (take_bit w x) = unat x mod 2 ^ w"
    by (subst unsigned_take_bit_eq) (simp add: take_bit_eq_mod)
  ultimately show ?thesis by simp
qed

lemma unat_drop_u64: "unat (drop_bit n (x :: u64)) = unat x div 2 ^ n"
  using take_bit_unat_self [of x] by (subst unsigned_drop_bit_eq) (simp add: drop_bit_eq_div)

lemma field_value_hi:
  assumes "range_ok (h, l)" and "64 \<le> l"
  shows "field_value lo hi (h, l) = unat hi div 2 ^ (l - 64) mod 2 ^ (h - l + 1)"
proof -
  have "field_value lo hi (h, l) = unat (extract_part lo hi h l)"
    using extract_part_unat [OF assms(1)] by (simp add: field_value_def)
  also have "\<dots> = unat (drop_bit (l - 64) hi AND low_mask (h - l + 1))"
    using assms(2) by (simp add: extract_part_def Let_def)
  finally show ?thesis
    using assms by (simp only: unat_and_low_mask range_ok_def prod.case unat_drop_u64)
qed

lemma field_value_lo:
  assumes "range_ok (h, l)" and "h < 64"
  shows "field_value lo hi (h, l) = unat lo div 2 ^ l mod 2 ^ (h - l + 1)"
proof -
  have l: "l \<le> h" using assms(1) by (simp add: range_ok_def)
  have "field_value lo hi (h, l) = unat (extract_part lo hi h l)"
    using extract_part_unat [OF assms(1)] by (simp add: field_value_def)
  also have "\<dots> = unat (drop_bit l lo AND low_mask (h - l + 1))"
    using assms(2) l by (simp add: extract_part_def Let_def)
  finally show ?thesis
    using assms by (simp only: unat_and_low_mask range_ok_def prod.case unat_drop_u64)
qed

subsection \<open>Correctness of the extraction helpers\<close>

lemma extract_bits_value:
  assumes "list_all range_ok rs" and "sum_list (map range_width rs) \<le> 64"
  shows "unat (extract_bits lo hi rs) = concat_fields lo hi rs 0"
  using extract_loop_value [of rs 0 0 lo hi] assms by (simp add: extract_bits_def)

text \<open>The opcode of an instruction word is bit 91 placed above bits 11 to 0.\<close>

theorem opcode_of_value:
  "unat (opcode_of lo hi) = 4096 * (unat hi div 2 ^ 27 mod 2) + unat lo mod 4096"
proof -
  have "unat (extract_bits lo hi [(91, 91), (11, 0)]) =
          concat_fields lo hi [(91, 91), (11, 0)] 0"
    by (rule extract_bits_value) (simp_all add: range_ok_def)
  also have "\<dots> = field_value lo hi (91, 91) * 2 ^ 12 + field_value lo hi (11, 0)"
    by (simp add: concat_fields_def)
  also have "\<dots> = 4096 * (unat hi div 2 ^ 27 mod 2) + unat lo mod 4096"
    by (simp add: field_value_hi field_value_lo range_ok_def)
  finally have v: "unat (extract_bits lo hi [(91, 91), (11, 0)]) = \<dots>" .
  moreover have "\<dots> < 2 ^ 16"
  proof -
    have "4096 * x + y < 2 ^ 16" if "x < 2" "y < 4096" for x y :: nat using that by simp
    then show ?thesis by simp
  qed
  ultimately show ?thesis
    by (simp add: opcode_of_def unsigned_ucast_eq take_bit_nat_eq_self)
qed

text \<open>Sign extension of a field is the two's complement value of the field, for every width.\<close>

theorem sint_sign_extend:
  assumes "0 < width" "width \<le> 64" and "unat val < 2 ^ width"
  shows "sint (sign_extend val width) = signed_take_bit (width - 1) (int (unat val))"
proof (cases "width = 64")
  case True
  then show ?thesis by (simp add: sign_extend_def sint_uint)
next
  case False
  with assms have w: "width < 64" by simp
  have tb: "take_bit width val = val"
    using assms(3) by (simp add: word_unat_eq_iff unsigned_take_bit_eq take_bit_nat_eq_self)
  then have high: "bit val n \<Longrightarrow> n < width" for n by (metis bit_take_bit_iff)
  have tst: "val AND push_bit (width - 1) 1 \<noteq> 0 \<longleftrightarrow> bit val (width - 1)"
    using w by (auto simp: bit_iff_and_push_bit_not_eq_0)
  have se: "sign_extend val width =
              (if bit val (width - 1) then val OR push_bit width (NOT 0) else val)"
    unfolding sign_extend_def using w tst by simp
  have "sign_extend val width = word_of_int (signed_take_bit (width - 1) (uint val))"
  proof (rule bit_word_eqI)
    fix n assume n: "n < LENGTH(64)"
    consider "n < width - 1" | "n = width - 1" | "width \<le> n" by linarith
    then show "bit (sign_extend val width) n =
        bit (word_of_int (signed_take_bit (width - 1) (uint val)) :: u64) n"
      using n w assms(1) high [of n] by cases (auto simp: se bit_simps min_def not_less)
  qed
  moreover have "signed_take_bit 63 (signed_take_bit (width - 1) (uint val)) =
                   signed_take_bit (width - 1) (uint val)"
    using w by (simp add: min.absorb2)
  ultimately show ?thesis
    by (simp add: sint_sbintrunc' flip: uint_nat)
qed

theorem sint_sign_extend_witness: "sint (sign_extend 0xF8 8) = - 8"
  using sint_sign_extend [of 8 "0xF8"] by (simp add: signed_take_bit_eq_take_bit_minus take_bit_eq_mod)

end
