(* ===== verification/Sim_Status.thy ===== *)
theory Sim_Status
  imports Semu_Prelude
begin

text \<open>
  The error model of the simulator: error codes, the \<open>Error\<close> value with its cause chain
  and context frames, \<open>Status\<close> / \<open>StatusOr\<close>, and the \<open>Fault\<close> that localises an
  error to a dynamic warp instruction (\<open>semu/core/status.hpp\<close>, \<open>fault.hpp\<close> and
  their implementations). The shared pointer to the cause of an error is the recursive
  occurrence of the datatype: a cause is immutable once attached.
\<close>

subsection \<open>Error codes\<close>

datatype ErrorCode =
    kNone | kInvalidArgument | kNotFound | kNotSupported | kUnimplemented | kIllegalState
  | kOutOfRange | kOutOfMemory | kIoError | kInternal | kBadCubin | kUnknownMetadata
  | kUnsupportedMetadata | kBadAddress | kAlignmentViolation | kOob | kLifecycle
  | kDecodeIllegal | kDecodeAmbiguous | kDecodeUnsupported | kInstructionLimit | kNoProgress
  | kBarrierDeadlock | kFault

fun error_code_to_string :: "ErrorCode \<Rightarrow> string" where
  "error_code_to_string kNone = ''kNone''"
| "error_code_to_string kInvalidArgument = ''kInvalidArgument''"
| "error_code_to_string kNotFound = ''kNotFound''"
| "error_code_to_string kNotSupported = ''kNotSupported''"
| "error_code_to_string kUnimplemented = ''kUnimplemented''"
| "error_code_to_string kIllegalState = ''kIllegalState''"
| "error_code_to_string kOutOfRange = ''kOutOfRange''"
| "error_code_to_string kOutOfMemory = ''kOutOfMemory''"
| "error_code_to_string kIoError = ''kIoError''"
| "error_code_to_string kInternal = ''kInternal''"
| "error_code_to_string kBadCubin = ''kBadCubin''"
| "error_code_to_string kUnknownMetadata = ''kUnknownMetadata''"
| "error_code_to_string kUnsupportedMetadata = ''kUnsupportedMetadata''"
| "error_code_to_string kBadAddress = ''kBadAddress''"
| "error_code_to_string kAlignmentViolation = ''kAlignmentViolation''"
| "error_code_to_string kOob = ''kOob''"
| "error_code_to_string kLifecycle = ''kLifecycle''"
| "error_code_to_string kDecodeIllegal = ''kDecodeIllegal''"
| "error_code_to_string kDecodeAmbiguous = ''kDecodeAmbiguous''"
| "error_code_to_string kDecodeUnsupported = ''kDecodeUnsupported''"
| "error_code_to_string kInstructionLimit = ''kInstructionLimit''"
| "error_code_to_string kNoProgress = ''kNoProgress''"
| "error_code_to_string kBarrierDeadlock = ''kBarrierDeadlock''"
| "error_code_to_string kFault = ''kFault''"

fun error_code_describe :: "ErrorCode \<Rightarrow> string" where
  "error_code_describe kNone = ''no error''"
| "error_code_describe kInvalidArgument = ''invalid argument''"
| "error_code_describe kNotFound = ''not found''"
| "error_code_describe kNotSupported = ''not supported''"
| "error_code_describe kUnimplemented = ''unimplemented''"
| "error_code_describe kIllegalState = ''illegal state''"
| "error_code_describe kOutOfRange = ''out of range''"
| "error_code_describe kOutOfMemory = ''out of memory''"
| "error_code_describe kIoError = ''i/o error''"
| "error_code_describe kInternal = ''internal error''"
| "error_code_describe kBadCubin = ''malformed cubin''"
| "error_code_describe kUnknownMetadata = ''unknown cubin metadata''"
| "error_code_describe kUnsupportedMetadata = ''unsupported execution-affecting metadata''"
| "error_code_describe kBadAddress = ''bad device address''"
| "error_code_describe kAlignmentViolation = ''misaligned device access''"
| "error_code_describe kOob = ''out-of-bounds device access''"
| "error_code_describe kLifecycle = ''device allocation lifecycle error''"
| "error_code_describe kDecodeIllegal = ''illegal instruction encoding''"
| "error_code_describe kDecodeAmbiguous = ''ambiguous instruction decode''"
| "error_code_describe kDecodeUnsupported = ''unsupported instruction''"
| "error_code_describe kInstructionLimit = ''dynamic instruction limit''"
| "error_code_describe kNoProgress = ''no scheduler progress''"
| "error_code_describe kBarrierDeadlock = ''barrier deadlock''"
| "error_code_describe kFault = ''simulator fault''"

subsection \<open>Errors with causes and context\<close>

datatype Error = Error (code: ErrorCode) (message: string) (cause: "Error option") (err_context: "string list")

definition mk_error :: "ErrorCode \<Rightarrow> string \<Rightarrow> Error" where
  "mk_error c m = Error c m None []"

definition mk_error_cause :: "ErrorCode \<Rightarrow> string \<Rightarrow> Error \<Rightarrow> Error" where
  "mk_error_cause c m e = Error c m (Some e) []"

definition has_cause :: "Error \<Rightarrow> bool" where
  "has_cause e \<longleftrightarrow> cause e \<noteq> None"

fun cause_chain :: "Error \<Rightarrow> Error list" where
  "cause_chain (Error c m None cs) = [Error c m None cs]"
| "cause_chain (Error c m (Some e) cs) = Error c m (Some e) cs # cause_chain e"

definition push_context :: "string \<Rightarrow> Error \<Rightarrow> Error" where
  "push_context frame e = (case e of Error c m ca cs \<Rightarrow> Error c m ca (cs @ [frame]))"

definition error_to_string :: "Error \<Rightarrow> string" where
  "error_to_string e = foldl (\<lambda>out frame. out @ ''; '' @ frame) (message e) (err_context e)"

text \<open>The cause list of \<open>describe\<close> and \<open>to_report\<close>, joined with arrows.\<close>

fun join_arrow :: "string list \<Rightarrow> string" where
  "join_arrow [] = []"
| "join_arrow [m] = m"
| "join_arrow (m # ms) = m @ '' -> '' @ join_arrow ms"

definition error_describe :: "Error \<Rightarrow> string" where
  "error_describe e =
     (let chain = cause_chain e
      in error_to_string e @
         (if length chain > 1
          then ''  (caused by: '' @ join_arrow (map message (tl chain)) @ '')'' else []))"

definition invalid_argument :: "string \<Rightarrow> Error" where
  "invalid_argument m = mk_error kInvalidArgument m"
definition not_found :: "string \<Rightarrow> Error" where
  "not_found m = mk_error kNotFound m"
definition not_supported :: "string \<Rightarrow> Error" where
  "not_supported m = mk_error kNotSupported m"
definition unimplemented :: "string \<Rightarrow> Error" where
  "unimplemented m = mk_error kUnimplemented m"
definition illegal_state :: "string \<Rightarrow> Error" where
  "illegal_state m = mk_error kIllegalState m"
definition out_of_range :: "string \<Rightarrow> Error" where
  "out_of_range m = mk_error kOutOfRange m"
definition out_of_memory :: "string \<Rightarrow> Error" where
  "out_of_memory m = mk_error kOutOfMemory m"
definition io_error :: "string \<Rightarrow> Error" where
  "io_error m = mk_error kIoError m"
definition internal_error :: "string \<Rightarrow> Error" where
  "internal_error m = mk_error kInternal m"

lemmas error_factories = invalid_argument_def not_found_def not_supported_def unimplemented_def
  illegal_state_def out_of_range_def out_of_memory_def io_error_def internal_error_def

lemma code_mk [simp]: "code (mk_error c m) = c" "code (mk_error_cause c m e) = c"
  by (simp_all add: mk_error_def mk_error_cause_def)

lemma code_factories [simp]:
  "code (invalid_argument m) = kInvalidArgument" "code (not_found m) = kNotFound"
  "code (not_supported m) = kNotSupported" "code (unimplemented m) = kUnimplemented"
  "code (illegal_state m) = kIllegalState" "code (out_of_range m) = kOutOfRange"
  "code (out_of_memory m) = kOutOfMemory" "code (io_error m) = kIoError"
  "code (internal_error m) = kInternal"
  by (simp_all add: error_factories)

subsection \<open>Status and StatusOr\<close>

type_synonym 'a StatusOr = "Error + 'a"
type_synonym Status = "unit StatusOr"

abbreviation success :: "'a \<Rightarrow> 'a StatusOr" where
  "success v \<equiv> Inr v"

abbreviation failure :: "Error \<Rightarrow> 'a StatusOr" where
  "failure e \<equiv> Inl e"

definition status_of :: "'a StatusOr \<Rightarrow> Status" where
  "status_of r = (case r of Inl e \<Rightarrow> Inl e | Inr _ \<Rightarrow> Inr ())"

definition with_context :: "string \<Rightarrow> Status \<Rightarrow> Status" where
  "with_context frame s = (case s of Inl e \<Rightarrow> Inl (push_context frame e) | Inr u \<Rightarrow> Inr u)"

text \<open>Sequencing of fallible operations: \<open>if (r.failed()) return r.status();\<close>\<close>

definition bind_status :: "'a StatusOr \<Rightarrow> ('a \<Rightarrow> 'b StatusOr) \<Rightarrow> 'b StatusOr" where
  "bind_status r f = (case r of Inl e \<Rightarrow> Inl e | Inr v \<Rightarrow> f v)"

lemma bind_status_simps [simp]:
  "bind_status (Inl e) f = Inl e" "bind_status (Inr v) f = f v"
  by (simp_all add: bind_status_def)

lemma bind_status_eq_Inr:
  "bind_status r f = Inr w \<longleftrightarrow> (\<exists>v. r = Inr v \<and> f v = Inr w)"
  by (auto simp: bind_status_def split: sum.splits)

definition fails_with :: "'a StatusOr \<Rightarrow> ErrorCode \<Rightarrow> bool" where
  "fails_with r c \<longleftrightarrow> (case r of Inl e \<Rightarrow> code e = c | Inr _ \<Rightarrow> False)"

lemma fails_with_simps [simp]:
  "fails_with (Inl e) c \<longleftrightarrow> code e = c" "\<not> fails_with (Inr v) c"
  by (simp_all add: fails_with_def)

subsection \<open>Faults\<close>

datatype FaultKind =
    kInvalidInstruction | kUnsupportedInstruction | kAmbiguousInstruction | kIllegalMemoryAccess
  | kAlignmentFault | kLifecycleFault | kInstructionLimitFault | kNoProgressFault
  | kBarrierDeadlockFault | kIllegalStateFault | kInternalFault

fun fault_kind_to_string :: "FaultKind \<Rightarrow> string" where
  "fault_kind_to_string kInvalidInstruction = ''InvalidInstruction''"
| "fault_kind_to_string kUnsupportedInstruction = ''UnsupportedInstruction''"
| "fault_kind_to_string kAmbiguousInstruction = ''AmbiguousInstruction''"
| "fault_kind_to_string kIllegalMemoryAccess = ''IllegalMemoryAccess''"
| "fault_kind_to_string kAlignmentFault = ''AlignmentFault''"
| "fault_kind_to_string kLifecycleFault = ''LifecycleFault''"
| "fault_kind_to_string kInstructionLimitFault = ''InstructionLimit''"
| "fault_kind_to_string kNoProgressFault = ''NoProgress''"
| "fault_kind_to_string kBarrierDeadlockFault = ''BarrierDeadlock''"
| "fault_kind_to_string kIllegalStateFault = ''IllegalState''"
| "fault_kind_to_string kInternalFault = ''Internal''"

fun fault_kind_describe :: "FaultKind \<Rightarrow> string" where
  "fault_kind_describe kInvalidInstruction = ''illegal instruction encoding''"
| "fault_kind_describe kUnsupportedInstruction = ''instruction is decode-only (not yet implemented)''"
| "fault_kind_describe kAmbiguousInstruction = ''instruction encoding is not uniquely decodable''"
| "fault_kind_describe kIllegalMemoryAccess = ''illegal memory access''"
| "fault_kind_describe kAlignmentFault = ''misaligned memory access''"
| "fault_kind_describe kLifecycleFault = ''device allocation lifecycle fault''"
| "fault_kind_describe kInstructionLimitFault = ''dynamic instruction limit reached''"
| "fault_kind_describe kNoProgressFault = ''scheduler made no progress''"
| "fault_kind_describe kBarrierDeadlockFault = ''barrier deadlock''"
| "fault_kind_describe kIllegalStateFault = ''illegal simulator state''"
| "fault_kind_describe kInternalFault = ''internal simulator fault''"

record Fault =
  f_error :: Error
  f_kind :: FaultKind
  f_kernel :: "string option"
  f_pc :: "u64 option"
  f_cta :: "u32 option"
  f_warp :: "u32 option"
  f_active_mask :: "u32 option"
  f_instr :: "(u64 \<times> u64) option"
  f_mnemonic :: "string option"
  f_variant :: "string option"

definition mk_fault :: "FaultKind \<Rightarrow> string \<Rightarrow> Fault" where
  "mk_fault k m = \<lparr>f_error = mk_error kFault m, f_kind = k, f_kernel = None, f_pc = None,
     f_cta = None, f_warp = None, f_active_mask = None, f_instr = None, f_mnemonic = None,
     f_variant = None\<rparr>"

definition mk_fault_cause :: "FaultKind \<Rightarrow> string \<Rightarrow> Error \<Rightarrow> Fault" where
  "mk_fault_cause k m c = (mk_fault k m)\<lparr>f_error := mk_error_cause kFault m c\<rparr>"

definition set_kernel :: "string \<Rightarrow> Fault \<Rightarrow> Fault" where
  "set_kernel n f = f\<lparr>f_kernel := Some n\<rparr>"
definition set_pc :: "u64 \<Rightarrow> Fault \<Rightarrow> Fault" where
  "set_pc n f = f\<lparr>f_pc := Some n\<rparr>"
definition set_cta :: "u32 \<Rightarrow> Fault \<Rightarrow> Fault" where
  "set_cta n f = f\<lparr>f_cta := Some n\<rparr>"
definition set_warp :: "u32 \<Rightarrow> Fault \<Rightarrow> Fault" where
  "set_warp n f = f\<lparr>f_warp := Some n\<rparr>"
definition set_active_mask :: "u32 \<Rightarrow> Fault \<Rightarrow> Fault" where
  "set_active_mask n f = f\<lparr>f_active_mask := Some n\<rparr>"
definition set_instruction :: "u64 \<times> u64 \<Rightarrow> Fault \<Rightarrow> Fault" where
  "set_instruction w f = f\<lparr>f_instr := Some w\<rparr>"
definition set_mnemonic :: "string \<Rightarrow> Fault \<Rightarrow> Fault" where
  "set_mnemonic n f = f\<lparr>f_mnemonic := Some n\<rparr>"
definition set_variant :: "string \<Rightarrow> Fault \<Rightarrow> Fault" where
  "set_variant n f = f\<lparr>f_variant := Some n\<rparr>"

lemmas fault_setters = set_kernel_def set_pc_def set_cta_def set_warp_def set_active_mask_def
  set_instruction_def set_mnemonic_def set_variant_def

text \<open>The \<open>%0nX\<close> conversions of the report: \<open>n\<close> upper-case hexadecimal digits.\<close>

definition hex_digit :: "nat \<Rightarrow> char" where
  "hex_digit d = (if d < 10 then char_of (48 + d) else char_of (55 + d))"

primrec show_hex :: "nat \<Rightarrow> nat \<Rightarrow> string" where
  "show_hex 0 v = []"
| "show_hex (Suc n) v = show_hex n (v div 16) @ [hex_digit (v mod 16)]"

definition opt_line :: "('a \<Rightarrow> string) \<Rightarrow> 'a option \<Rightarrow> string" where
  "opt_line f x = (case x of None \<Rightarrow> [] | Some v \<Rightarrow> f v)"

definition newline :: string where
  "newline = [char_of (10 :: nat)]"

definition to_report :: "Fault \<Rightarrow> string" where
  "to_report f =
     ''Fault '' @ fault_kind_to_string (f_kind f) @ '': '' @ fault_kind_describe (f_kind f) @
     '' -- '' @ message (f_error f) @
     opt_line (\<lambda>k. newline @ ''  kernel: '' @ k) (f_kernel f) @
     opt_line (\<lambda>p. newline @ ''  pc: 0x'' @ show_hex 16 (unat p)) (f_pc f) @
     opt_line (\<lambda>c. newline @ ''  cta: '' @ show_u32 c) (f_cta f) @
     opt_line (\<lambda>w. newline @ ''  warp: '' @ show_u32 w) (f_warp f) @
     opt_line (\<lambda>m. newline @ ''  active_mask: 0x'' @ show_hex 8 (unat m)) (f_active_mask f) @
     opt_line (\<lambda>(lo, hi). newline @ ''  instruction: 0x'' @ show_hex 16 (unat hi) @ ''_'' @
                 show_hex 16 (unat lo)) (f_instr f) @
     opt_line (\<lambda>m. newline @ ''  mnemonic: '' @ m) (f_mnemonic f) @
     opt_line (\<lambda>v. newline @ ''  variant: '' @ v) (f_variant f) @
     (let chain = cause_chain (f_error f)
      in if length chain > 1
         then newline @ ''  caused by: '' @ join_arrow (map message (tl chain)) else [])"

subsection \<open>Facts about the error model\<close>

lemma cause_chain_not_Nil [simp]: "cause_chain e \<noteq> []"
  by (cases e rule: cause_chain.cases) auto

lemma hd_cause_chain [simp]: "hd (cause_chain e) = e"
  by (cases e rule: cause_chain.cases) auto

lemma last_cause_chain_root: "cause (last (cause_chain e)) = None"
  by (induction e rule: cause_chain.induct) auto

lemma cause_chain_push_context:
  "map message (cause_chain (push_context fr e)) = map message (cause_chain e)"
  by (cases e rule: cause_chain.cases) (auto simp: push_context_def)

lemma error_to_string_push:
  "error_to_string (push_context fr e) = error_to_string e @ ''; '' @ fr"
  by (cases e) (simp add: error_to_string_def push_context_def)

text \<open>A hexadecimal field of \<open>n\<close> digits identifies every value below \<open>16 ^ n\<close>.\<close>

lemma hex_digit_inject: "a < 16 \<Longrightarrow> b < 16 \<Longrightarrow> hex_digit a = hex_digit b \<longleftrightarrow> a = b"
  by (auto simp: hex_digit_def char_of_eq_iff take_bit_eq_mod split: if_splits)

lemma length_show_hex [simp]: "length (show_hex n v) = n"
  by (induction n arbitrary: v) auto

lemma show_hex_inject:
  "a < 16 ^ n \<Longrightarrow> b < 16 ^ n \<Longrightarrow> show_hex n a = show_hex n b \<longleftrightarrow> a = b"
proof (induction n arbitrary: a b)
  case 0
  then show ?case by simp
next
  case (Suc n)
  then have "a div 16 < 16 ^ n" "b div 16 < 16 ^ n"
    by (simp_all add: less_mult_imp_div_less mult.commute)
  then have "show_hex (Suc n) a = show_hex (Suc n) b \<longleftrightarrow> a div 16 = b div 16 \<and> a mod 16 = b mod 16"
    using Suc.IH by (simp add: hex_digit_inject)
  also have "\<dots> \<longleftrightarrow> a = b"
    by (metis div_mult_mod_eq)
  finally show ?case .
qed

end
