(* ===== verification/Device_Memory.thy ===== *)
theory Device_Memory
  imports Sim_Status
begin

text \<open>
  Virtual device memory (\<open>semu/memory/memory.hpp\<close>, \<open>src/memory/memory.cpp\<close>): the
  deterministic bump allocator with never-reused allocation identifiers, the host accesses,
  the atomic read-modify-write and the typed device accesses with their alignment, address
  space and owner-domain checks. A pointer into the vector of allocations is its index; an
  operation that changes the allocator returns the new one next to its status. Device
  addresses and sizes are 64-bit words, so every sum wraps as it does in the code.
\<close>

subsection \<open>Data\<close>

datatype AddressSpace = kGlobal | kConstant | kShared | kLocal

fun address_space_to_string :: "AddressSpace \<Rightarrow> string" where
  "address_space_to_string kGlobal = ''global''"
| "address_space_to_string kConstant = ''constant''"
| "address_space_to_string kShared = ''shared''"
| "address_space_to_string kLocal = ''local''"

type_synonym AllocationId = u64
type_synonym DevicePtr = u64

definition is_null :: "DevicePtr \<Rightarrow> bool" where
  "is_null p \<longleftrightarrow> p = 0"

definition device_ptr_add :: "DevicePtr \<Rightarrow> u64 \<Rightarrow> DevicePtr StatusOr" where
  "device_ptr_add va delta =
     (if sint delta \<ge> 0 then
        (if va > UINT64_MAX - delta
         then failure (out_of_range ''device pointer arithmetic overflow'')
         else success (va + delta))
      else let mag = - (delta + 1) + 1
           in if va < mag
              then failure (out_of_range ''device pointer arithmetic underflow'')
              else success (va - mag))"

record Allocation =
  al_id :: AllocationId
  al_space :: AddressSpace
  al_base :: DevicePtr
  al_size :: u64
  al_align :: u64
  al_alive :: bool
  al_label :: string
  al_owner :: string
  al_data :: bytes

definition contains :: "Allocation \<Rightarrow> u64 \<Rightarrow> u64 \<Rightarrow> bool" where
  "contains a off len \<longleftrightarrow> off \<le> al_size a \<and> len \<le> al_size a - off"

datatype AccessKind = kLoad | kStore | kAtomic | kText

datatype AtomicOp =
    kAdd | kMin | kMax | kAnd | kOr | kXor | kExch | kInc | kDec | kCas | kMinSigned | kMaxSigned
  | kCount

fun atomic_op_code :: "AtomicOp \<Rightarrow> nat" where
  "atomic_op_code kAdd = 0" | "atomic_op_code kMin = 1" | "atomic_op_code kMax = 2"
| "atomic_op_code kAnd = 3" | "atomic_op_code kOr = 4" | "atomic_op_code kXor = 5"
| "atomic_op_code kExch = 6" | "atomic_op_code kInc = 7" | "atomic_op_code kDec = 8"
| "atomic_op_code kCas = 9" | "atomic_op_code kMinSigned = 10" | "atomic_op_code kMaxSigned = 11"
| "atomic_op_code kCount = 12"

record DeviceAccess =
  da_width :: u64
  da_alignment :: u64
  da_space :: AddressSpace
  da_kind :: AccessKind
  da_domain :: string

record MemoryAllocator =
  ma_allocs :: "Allocation list"
  ma_next_id :: u64
  ma_cursor :: u64

definition kDefaultBase :: u64 where
  "kDefaultBase = 0x10000"

definition new_allocator :: "u64 \<Rightarrow> MemoryAllocator" where
  "new_allocator base = \<lparr>ma_allocs = [], ma_next_id = 1, ma_cursor = base\<rparr>"

subsection \<open>Alignment and lookup helpers\<close>

definition is_pow2 :: "u64 \<Rightarrow> bool" where
  "is_pow2 v \<longleftrightarrow> v \<noteq> 0 \<and> v AND (v - 1) = 0"

definition align_up :: "u64 \<Rightarrow> u64 \<Rightarrow> u64" where
  "align_up value align = (if align \<le> 1 then value else (value + align - 1) AND NOT (align - 1))"

function upper_bound :: "Allocation list \<Rightarrow> u64 \<Rightarrow> nat \<Rightarrow> nat \<Rightarrow> nat" where
  "upper_bound allocs va lo hi =
     (if lo < hi
      then let mid = (lo + hi) div 2
           in if al_base (allocs ! mid) \<le> va then upper_bound allocs va (mid + 1) hi
              else upper_bound allocs va lo mid
      else lo)"
  by pat_completeness auto
termination
  by (relation "measure (\<lambda>(_, _, lo, hi). hi - lo)") (auto simp: Let_def)

declare upper_bound.simps [simp del]

definition find_containing :: "Allocation list \<Rightarrow> u64 \<Rightarrow> nat option" where
  "find_containing allocs va =
     (let lo = upper_bound allocs va 0 (length allocs)
      in if lo = 0 then None
         else let a = allocs ! (lo - 1)
              in if al_alive a \<and> va < al_base a + al_size a then Some (lo - 1) else None)"

definition update_alloc :: "nat \<Rightarrow> (Allocation \<Rightarrow> Allocation) \<Rightarrow> MemoryAllocator \<Rightarrow> MemoryAllocator" where
  "update_alloc i f m = m\<lparr>ma_allocs := (ma_allocs m)[i := f (ma_allocs m ! i)]\<rparr>"

definition set_data :: "nat \<Rightarrow> bytes \<Rightarrow> Allocation \<Rightarrow> Allocation" where
  "set_data off bs a = a\<lparr>al_data := write_range off bs (al_data a)\<rparr>"

subsection \<open>Allocation and release\<close>

definition allocate :: "AddressSpace \<Rightarrow> u64 \<Rightarrow> u64 \<Rightarrow> string \<Rightarrow> MemoryAllocator \<Rightarrow>
    DevicePtr StatusOr \<times> MemoryAllocator" where
  "allocate space sz align owner m =
     (if sz = 0 then (failure (invalid_argument ''allocation of zero bytes''), m)
      else if align \<noteq> 0 \<and> \<not> is_pow2 align then
        (failure (invalid_argument (''allocation alignment '' @ show_u64 align @ '' is not a power of two'')), m)
      else
        let eff_align = max align 16;
            start = align_up (ma_cursor m) eff_align
        in if start < ma_cursor m \<or> sz > UINT64_MAX - start then
             (failure (out_of_memory ''virtual address space exhausted''), m)
           else
             (success start,
              m\<lparr>ma_allocs := ma_allocs m @
                   [\<lparr>al_id = ma_next_id m, al_space = space, al_base = start, al_size = sz,
                     al_align = eff_align, al_alive = True, al_label = [], al_owner = owner,
                     al_data = replicate (unat sz) 0\<rparr>],
                ma_next_id := ma_next_id m + 1,
                ma_cursor := start + sz\<rparr>))"

definition allocate_context :: "AddressSpace \<Rightarrow> u64 \<Rightarrow> u64 \<Rightarrow> MemoryAllocator \<Rightarrow>
    DevicePtr StatusOr \<times> MemoryAllocator" where
  "allocate_context space sz align m = allocate space sz align ''context'' m"

definition free_ptr :: "DevicePtr \<Rightarrow> MemoryAllocator \<Rightarrow> Status \<times> MemoryAllocator" where
  "free_ptr ptr m =
     (case find_idx (\<lambda>a. al_base a = ptr) (ma_allocs m) of
        None \<Rightarrow> (failure (mk_error_cause kLifecycle (''free of unknown device pointer 0x'' @ show_u64 ptr)
                   (invalid_argument [])), m)
      | Some i \<Rightarrow>
          if \<not> al_alive (ma_allocs m ! i) then
            (failure (mk_error_cause kLifecycle
               (''double free of device allocation '' @ show_u64 (al_id (ma_allocs m ! i)))
               (invalid_argument [])), m)
          else (success (), update_alloc i (\<lambda>a. a\<lparr>al_alive := False\<rparr>) m))"

definition free_id :: "AllocationId \<Rightarrow> MemoryAllocator \<Rightarrow> Status \<times> MemoryAllocator" where
  "free_id i m =
     (case find_idx (\<lambda>a. al_id a = i) (ma_allocs m) of
        None \<Rightarrow> (failure (mk_error_cause kLifecycle (''free of unknown allocation id '' @ show_u64 i)
                   (invalid_argument [])), m)
      | Some k \<Rightarrow> free_ptr (al_base (ma_allocs m ! k)) m)"

definition free_domain :: "string \<Rightarrow> MemoryAllocator \<Rightarrow> Status \<times> MemoryAllocator" where
  "free_domain owner m =
     (let hit = (\<lambda>a. al_alive a \<and> al_owner a = owner);
          m' = m\<lparr>ma_allocs := map (\<lambda>a. if hit a then a\<lparr>al_alive := False\<rparr> else a) (ma_allocs m)\<rparr>
      in (if list_ex hit (ma_allocs m) then success ()
          else failure (not_found (''no live allocations in domain '' @ [CHR 0x27] @ owner @ [CHR 0x27])), m'))"

subsection \<open>Lookup\<close>

definition resolve :: "DevicePtr \<Rightarrow> MemoryAllocator \<Rightarrow> Allocation StatusOr" where
  "resolve ptr m =
     (case find_containing (ma_allocs m) ptr of
        None \<Rightarrow> failure (mk_error_cause kBadAddress
                  (''device pointer 0x'' @ show_u64 ptr @ '' is not an allocation base'') (invalid_argument []))
      | Some i \<Rightarrow>
          if al_base (ma_allocs m ! i) \<noteq> ptr then
            failure (mk_error_cause kBadAddress
              (''device pointer 0x'' @ show_u64 ptr @ '' is not an allocation base'') (invalid_argument []))
          else success (ma_allocs m ! i))"

definition oob_message :: "string \<Rightarrow> u64 \<Rightarrow> u64 \<Rightarrow> Allocation \<Rightarrow> string" where
  "oob_message what va len a =
     what @ show_u64 va @ '' len '' @ show_u64 len @ '' out of bounds of allocation '' @
     show_u64 (al_id a) @ '' ('' @ address_space_to_string (al_space a) @ '', size '' @
     show_u64 (al_size a) @ '')''"

definition resolve_range :: "DevicePtr \<Rightarrow> u64 \<Rightarrow> MemoryAllocator \<Rightarrow> (Allocation \<times> u64) StatusOr" where
  "resolve_range ptr len m =
     (case find_containing (ma_allocs m) ptr of
        None \<Rightarrow> failure (mk_error_cause kBadAddress
                  (''device pointer 0x'' @ show_u64 ptr @ '' does not fall inside any allocation'')
                  (invalid_argument []))
      | Some i \<Rightarrow>
          let a = ma_allocs m ! i
          in if \<not> contains a (ptr - al_base a) len then
               failure (mk_error_cause kOob (oob_message ''access at 0x'' ptr len a) (out_of_range []))
             else success (a, ptr - al_base a))"

definition allocation_by_base :: "DevicePtr \<Rightarrow> MemoryAllocator \<Rightarrow> Allocation StatusOr" where
  "allocation_by_base base m =
     (case find_idx (\<lambda>a. al_base a = base \<and> al_alive a) (ma_allocs m) of
        None \<Rightarrow> failure (not_found (''no live allocation at base 0x'' @ show_u64 base))
      | Some i \<Rightarrow> success (ma_allocs m ! i))"

definition allocation_by_id :: "AllocationId \<Rightarrow> MemoryAllocator \<Rightarrow> Allocation StatusOr" where
  "allocation_by_id i m =
     (case find_idx (\<lambda>a. al_id a = i) (ma_allocs m) of
        None \<Rightarrow> failure (not_found (''allocation id '' @ show_u64 i))
      | Some k \<Rightarrow> success (ma_allocs m ! k))"

definition live_by_id :: "AllocationId \<Rightarrow> MemoryAllocator \<Rightarrow> nat option" where
  "live_by_id i m = find_idx (\<lambda>a. al_id a = i \<and> al_alive a) (ma_allocs m)"

definition not_live_error :: "AllocationId \<Rightarrow> Error" where
  "not_live_error i = mk_error_cause kLifecycle (''allocation '' @ show_u64 i @ '' not live'') (invalid_argument [])"

definition at_oob_error :: "string \<Rightarrow> string \<Rightarrow> u64 \<Rightarrow> u64 \<Rightarrow> AllocationId \<Rightarrow> u64 \<Rightarrow> Error" where
  "at_oob_error what unit off len i sz =
     mk_error_cause kOob
       (what @ '' at offset 0x'' @ show_u64 off @ unit @ show_u64 len @ '' out of bounds of allocation '' @
        show_u64 i @ '' (size '' @ show_u64 sz @ '')'') (out_of_range [])"

definition read_at :: "AllocationId \<Rightarrow> u64 \<Rightarrow> u64 \<Rightarrow> MemoryAllocator \<Rightarrow> bytes StatusOr" where
  "read_at i off len m =
     (case live_by_id i m of
        None \<Rightarrow> failure (not_live_error i)
      | Some k \<Rightarrow>
          let a = ma_allocs m ! k
          in if \<not> contains a off len then failure (at_oob_error ''read'' '' len '' off len i (al_size a))
             else success (read_range (unat off) (unat len) (al_data a)))"

definition write_at :: "AllocationId \<Rightarrow> u64 \<Rightarrow> bytes \<Rightarrow> u64 \<Rightarrow> MemoryAllocator \<Rightarrow> Status \<times> MemoryAllocator" where
  "write_at i off src len m =
     (case live_by_id i m of
        None \<Rightarrow> (failure (not_live_error i), m)
      | Some k \<Rightarrow>
          let a = ma_allocs m ! k
          in if \<not> contains a off len then
               (failure (at_oob_error ''write'' '' len '' off len i (al_size a)), m)
             else (success (), update_alloc k (set_data (unat off) (take (unat len) src)) m))"

subsection \<open>Atomic read-modify-write\<close>

definition atomic_width_ok :: "u64 \<Rightarrow> bool" where
  "atomic_width_ok width \<longleftrightarrow> width = 1 \<or> width = 2 \<or> width = 4 \<or> width = 8"

definition signed_cast :: "u64 \<Rightarrow> u64 \<Rightarrow> int" where
  "signed_cast width v =
     (if width = 1 then sint (ucast v :: u8)
      else if width = 2 then sint (ucast v :: u16)
      else if width = 4 then sint (ucast v :: u32)
      else sint v)"

text \<open>The value written back, \<open>None\<close> for the operations the allocator path rejects.\<close>

definition rmw_next :: "AtomicOp \<Rightarrow> u64 \<Rightarrow> u64 \<Rightarrow> u64 \<Rightarrow> u64 option" where
  "rmw_next op width oldv val =
     (case op of
        kInc \<Rightarrow> (let a = ucast oldv :: u32; b = ucast val :: u32
                in Some (ucast (if a \<ge> b then 0 else a + 1)))
      | kDec \<Rightarrow> (let a = ucast oldv :: u32; b = ucast val :: u32
                in Some (ucast (if a = 0 \<or> a > b then b else a - 1)))
      | kMinSigned \<Rightarrow> Some (word_of_int (min (signed_cast width oldv) (signed_cast width val)))
      | kMaxSigned \<Rightarrow> Some (word_of_int (max (signed_cast width oldv) (signed_cast width val)))
      | kAdd \<Rightarrow> Some (oldv + val)
      | kMin \<Rightarrow> Some (if oldv < val then oldv else val)
      | kMax \<Rightarrow> Some (if oldv > val then oldv else val)
      | kAnd \<Rightarrow> Some (oldv AND val)
      | kOr \<Rightarrow> Some (oldv OR val)
      | kXor \<Rightarrow> Some (oldv XOR val)
      | kExch \<Rightarrow> Some val
      | kCas \<Rightarrow> None
      | kCount \<Rightarrow> None)"

definition atomic_rmw :: "AllocationId \<Rightarrow> u64 \<Rightarrow> u64 \<Rightarrow> AtomicOp \<Rightarrow> bytes \<Rightarrow> MemoryAllocator \<Rightarrow>
    bytes StatusOr \<times> MemoryAllocator" where
  "atomic_rmw i off width op operand m =
     (if \<not> atomic_width_ok width then
        (failure (mk_error_cause kInvalidArgument
           (''atomic width '' @ show_u64 width @ '' not in {1,2,4,8}'') (invalid_argument [])), m)
      else if atomic_op_code op \<ge> atomic_op_code kCount then
        (failure (mk_error_cause kInvalidArgument
           (''undefined atomic op '' @ show_nat (atomic_op_code op)) (invalid_argument [])), m)
      else
        case live_by_id i m of
          None \<Rightarrow> (failure (not_live_error i), m)
        | Some k \<Rightarrow>
            let a = ma_allocs m ! k
            in if \<not> contains a off width then
                 (failure (at_oob_error ''atomic'' '' width '' off width i (al_size a)), m)
               else
                 let old = read_range (unat off) (unat width) (al_data a);
                     oldv = bytes_u64 old;
                     val = bytes_u64 (take (unat width) operand)
                 in if op = kCas then
                      (failure (mk_error_cause kNotSupported
                         ''CAS atomic on the allocator path requires a compare operand''
                         (unimplemented [])), m)
                    else if (op = kInc \<or> op = kDec) \<and> width \<noteq> 4 then
                      (failure (mk_error_cause kNotSupported
                         ''atomic INC/DEC is only defined for U32'' (unimplemented [])), m)
                    else
                      case rmw_next op width oldv val of
                        None \<Rightarrow> (failure (mk_error_cause kNotSupported
                                   (''atomic op '' @ show_nat (atomic_op_code op) @
                                    '' not supported on this path'') (unimplemented [])), m)
                      | Some nxt \<Rightarrow>
                          (success old,
                           update_alloc k (set_data (unat off) (u64_bytes (unat width) nxt)) m))"

subsection \<open>Host access\<close>

definition vanished :: Error where
  "vanished = internal_error ''allocation vanished''"

definition mem_write :: "DevicePtr \<Rightarrow> bytes \<Rightarrow> u64 \<Rightarrow> MemoryAllocator \<Rightarrow> Status \<times> MemoryAllocator" where
  "mem_write ptr src len m =
     (case resolve_range ptr len m of
        Inl e \<Rightarrow> (failure e, m)
      | Inr (_, off) \<Rightarrow>
          (case find_containing (ma_allocs m) ptr of
             None \<Rightarrow> (failure vanished, m)
           | Some i \<Rightarrow> (success (), update_alloc i (set_data (unat off) (take (unat len) src)) m)))"

definition mem_read :: "DevicePtr \<Rightarrow> u64 \<Rightarrow> MemoryAllocator \<Rightarrow> bytes StatusOr" where
  "mem_read ptr len m =
     (case resolve_range ptr len m of
        Inl e \<Rightarrow> failure e
      | Inr (_, off) \<Rightarrow>
          (case find_containing (ma_allocs m) ptr of
             None \<Rightarrow> failure vanished
           | Some i \<Rightarrow> success (read_range (unat off) (unat len) (al_data (ma_allocs m ! i)))))"

definition mem_memset :: "DevicePtr \<Rightarrow> u32 \<Rightarrow> u64 \<Rightarrow> MemoryAllocator \<Rightarrow> Status \<times> MemoryAllocator" where
  "mem_memset ptr value len m =
     (case resolve_range ptr len m of
        Inl e \<Rightarrow> (failure e, m)
      | Inr (_, off) \<Rightarrow>
          (case find_containing (ma_allocs m) ptr of
             None \<Rightarrow> (failure vanished, m)
           | Some i \<Rightarrow>
               (success (), update_alloc i (set_data (unat off) (replicate (unat len) (ucast value))) m)))"

definition mem_copy :: "DevicePtr \<Rightarrow> DevicePtr \<Rightarrow> u64 \<Rightarrow> MemoryAllocator \<Rightarrow> Status \<times> MemoryAllocator" where
  "mem_copy dst src len m =
     (case resolve_range dst len m of
        Inl e \<Rightarrow> (failure e, m)
      | Inr (_, doff) \<Rightarrow>
          (case resolve_range src len m of
             Inl e \<Rightarrow> (failure e, m)
           | Inr (_, soff) \<Rightarrow>
               (case (find_containing (ma_allocs m) dst, find_containing (ma_allocs m) src) of
                  (Some d, Some s) \<Rightarrow>
                    (success (),
                     update_alloc d
                       (set_data (unat doff) (read_range (unat soff) (unat len) (al_data (ma_allocs m ! s)))) m)
                | _ \<Rightarrow> (failure vanished, m))))"

subsection \<open>Typed device access\<close>

definition resolve_typed :: "Allocation list \<Rightarrow> DevicePtr \<Rightarrow> u64 \<Rightarrow> DeviceAccess \<Rightarrow> (nat \<times> u64) StatusOr" where
  "resolve_typed allocs ptr len access =
     (if len \<noteq> da_width access then
        failure (mk_error_cause kInvalidArgument
          (''typed access length '' @ show_u64 len @ '' != access width '' @ show_u64 (da_width access))
          (invalid_argument []))
      else if da_alignment access = 0 \<or> da_alignment access AND (da_alignment access - 1) \<noteq> 0 then
        failure (mk_error_cause kInvalidArgument
          (''access alignment '' @ show_u64 (da_alignment access) @ '' is not a power of two'')
          (invalid_argument []))
      else if ptr mod da_alignment access \<noteq> 0 then
        failure (mk_error_cause kAlignmentViolation
          (''access at 0x'' @ show_u64 ptr @ '' misaligned for '' @ show_u64 (da_alignment access) @
           ''-byte alignment'') (invalid_argument []))
      else
        case find_containing allocs ptr of
          None \<Rightarrow> failure (mk_error_cause kBadAddress
            (''access at 0x'' @ show_u64 ptr @ '' does not fall inside any allocation'') (invalid_argument []))
        | Some i \<Rightarrow>
            let a = allocs ! i
            in if al_space a \<noteq> da_space access then
                 failure (mk_error_cause kBadAddress
                   (''access at 0x'' @ show_u64 ptr @ '' targets '' @ address_space_to_string (al_space a) @
                    '' allocation but access requested '' @ address_space_to_string (da_space access))
                   (invalid_argument []))
               else if (al_space a = kShared \<or> al_space a = kLocal) \<and> da_domain access = [] then
                 failure (mk_error_cause kBadAddress
                   (''access to '' @ address_space_to_string (al_space a) @ '' allocation at 0x'' @
                    show_u64 ptr @ '' (owner '' @ [CHR 0x27] @ al_owner a @ [CHR 0x27] @
                    '') requires a caller domain'') (invalid_argument []))
               else if (al_space a = kShared \<or> al_space a = kLocal) \<and> da_domain access \<noteq> al_owner a then
                 failure (mk_error_cause kBadAddress
                   (''access at 0x'' @ show_u64 ptr @ '' by domain '' @ [CHR 0x27] @ da_domain access @
                    [CHR 0x27] @ '' rejected: allocation owned by '' @ [CHR 0x27] @ al_owner a @ [CHR 0x27])
                   (invalid_argument []))
               else if \<not> contains a (ptr - al_base a) len then
                 failure (mk_error_cause kOob (oob_message ''access at 0x'' ptr len a) (out_of_range []))
               else success (i, ptr - al_base a))"

definition check_kind_consistency :: "bool \<Rightarrow> DeviceAccess \<Rightarrow> Status" where
  "check_kind_consistency is_write access =
     (case da_kind access of
        kAtomic \<Rightarrow>
          (if \<not> atomic_width_ok (da_width access) then
             failure (mk_error_cause kInvalidArgument
               (''atomic access width '' @ show_u64 (da_width access) @ '' not in {1,2,4,8}'') (invalid_argument []))
           else if da_space access \<noteq> kGlobal \<and> da_space access \<noteq> kShared then
             failure (mk_error_cause kBadAddress ''atomic access only valid in global/shared'' (invalid_argument []))
           else success ())
      | kText \<Rightarrow>
          (if is_write then
             failure (mk_error_cause kBadAddress ''text (instruction fetch) access is read-only'' (invalid_argument []))
           else if da_space access \<noteq> kGlobal then
             failure (mk_error_cause kBadAddress ''text access must target the global address space'' (invalid_argument []))
           else success ())
      | kLoad \<Rightarrow>
          (if is_write then
             failure (mk_error_cause kInvalidArgument ''write through a kLoad access is rejected'' (invalid_argument []))
           else success ())
      | kStore \<Rightarrow>
          (if \<not> is_write then
             failure (mk_error_cause kInvalidArgument ''read through a kStore access is rejected'' (invalid_argument []))
           else success ()))"

definition read_typed :: "DevicePtr \<Rightarrow> u64 \<Rightarrow> DeviceAccess \<Rightarrow> MemoryAllocator \<Rightarrow> bytes StatusOr" where
  "read_typed ptr len access m =
     (case check_kind_consistency False access of
        Inl e \<Rightarrow> failure e
      | Inr _ \<Rightarrow>
          (case resolve_typed (ma_allocs m) ptr len access of
             Inl e \<Rightarrow> failure e
           | Inr (i, off) \<Rightarrow> success (read_range (unat off) (unat len) (al_data (ma_allocs m ! i)))))"

definition write_typed :: "DevicePtr \<Rightarrow> bytes \<Rightarrow> u64 \<Rightarrow> DeviceAccess \<Rightarrow> MemoryAllocator \<Rightarrow>
    Status \<times> MemoryAllocator" where
  "write_typed ptr src len access m =
     (case check_kind_consistency True access of
        Inl e \<Rightarrow> (failure e, m)
      | Inr _ \<Rightarrow>
          (case resolve_typed (ma_allocs m) ptr len access of
             Inl e \<Rightarrow> (failure e, m)
           | Inr (i, off) \<Rightarrow>
               (success (), update_alloc i (set_data (unat off) (take (unat len) src)) m)))"

end
