(* ===== verification/Byte_Store.thy ===== *)
theory Byte_Store
  imports Sim_Status
begin

text \<open>
  The contract of a bounds-checked byte store: what a client of the device allocator, of the
  constant bank and of the memory service's host windows may rely on. A store either fails
  and changes nothing, or it makes exactly the written range read back as written and leaves
  every disjoint range as it was.
\<close>

definition ranges_disjoint :: "u64 \<Rightarrow> u64 \<Rightarrow> u64 \<Rightarrow> u64 \<Rightarrow> bool" where
  "ranges_disjoint a n b k \<longleftrightarrow> unat a + unat n \<le> unat b \<or> unat b + unat k \<le> unat a"

lemma ranges_disjoint_sym: "ranges_disjoint a n b k \<longleftrightarrow> ranges_disjoint b k a n"
  by (auto simp: ranges_disjoint_def)

text \<open>The bounds check \<open>off <= size && len <= size - off\<close> of the sources, without wrap-around.\<close>

lemma window_check:
  fixes off len sz :: u64
  shows "off \<le> sz \<and> len \<le> sz - off \<longleftrightarrow> unat off + unat len \<le> unat sz"
  by (auto simp: word_le_nat_alt unat_sub)

locale byte_store =
  fixes inv :: "'m \<Rightarrow> bool"
    and load :: "u64 \<Rightarrow> u64 \<Rightarrow> 'm \<Rightarrow> bytes StatusOr"
    and store :: "u64 \<Rightarrow> bytes \<Rightarrow> u64 \<Rightarrow> 'm \<Rightarrow> Status \<times> 'm"
  assumes store_inv: "inv m \<Longrightarrow> length src = unat n \<Longrightarrow> inv (snd (store a src n m))"
    and load_length: "inv m \<Longrightarrow> load a n m = Inr bs \<Longrightarrow> length bs = unat n"
    and store_fails_as_load:
      "inv m \<Longrightarrow> (\<exists>e. fst (store a src n m) = Inl e) \<longleftrightarrow> (\<exists>e. load a n m = Inl e)"
    and store_fail_frame: "inv m \<Longrightarrow> fst (store a src n m) = Inl e \<Longrightarrow> snd (store a src n m) = m"
    and load_after_store:
      "inv m \<Longrightarrow> length src = unat n \<Longrightarrow> fst (store a src n m) = Inr () \<Longrightarrow>
       load a n (snd (store a src n m)) = Inr src"
    and load_disjoint:
      "inv m \<Longrightarrow> length src = unat n \<Longrightarrow> ranges_disjoint a n b k \<Longrightarrow>
       load b k (snd (store a src n m)) = load b k m"
    and bounds_stable:
      "inv m \<Longrightarrow> length src = unat n \<Longrightarrow>
       (\<exists>bs. load b k (snd (store a src n m)) = Inr bs) \<longleftrightarrow> (\<exists>bs. load b k m = Inr bs)"
begin

text \<open>Running a list of stores in order; the statuses are ignored as a batch copy would.\<close>

fun store_seq :: "(u64 \<times> bytes) list \<Rightarrow> 'm \<Rightarrow> 'm" where
  "store_seq [] m = m"
| "store_seq ((a, src) # ws) m = store_seq ws (snd (store a src (word_of_nat (length src)) m))"

abbreviation fits :: "u64 \<times> bytes \<Rightarrow> bool" where
  "fits w \<equiv> length (snd w) < 2 ^ 64"

abbreviation wlen :: "u64 \<times> bytes \<Rightarrow> u64" where
  "wlen w \<equiv> word_of_nat (length (snd w))"

lemma store_succeeds_iff:
  assumes "inv m"
  shows "fst (store a src n m) = Inr () \<longleftrightarrow> (\<exists>bs. load a n m = Inr bs)"
  using store_fails_as_load [OF assms, of a src n]
  by (cases "fst (store a src n m)"; cases "load a n m") auto

lemma last_store_wins:
  assumes "inv m" "length x = unat n" "length y = unat n" "fst (store a x n m) = Inr ()"
  shows "load a n (snd (store a y n (snd (store a x n m)))) = Inr y"
proof -
  have inv': "inv (snd (store a x n m))" using assms by (simp add: store_inv)
  moreover have "load a n (snd (store a x n m)) = Inr x" using assms by (simp add: load_after_store)
  ultimately show ?thesis using assms(3) by (simp add: load_after_store store_succeeds_iff)
qed

lemma store_seq_inv: "inv m \<Longrightarrow> list_all fits ws \<Longrightarrow> inv (store_seq ws m)"
  by (induction ws m rule: store_seq.induct) (auto simp: store_inv unat_of_nat_u64)

lemma store_seq_frame:
  assumes "inv m" "list_all fits ws" "\<forall>w \<in> set ws. ranges_disjoint (fst w) (wlen w) b k"
  shows "load b k (store_seq ws m) = load b k m"
  using assms
  by (induction ws m rule: store_seq.induct) (auto simp: store_inv unat_of_nat_u64 load_disjoint)

lemma store_seq_reads_back:
  assumes "inv m" "list_all fits ws" "(a, src) \<in> set ws" "\<exists>bs. load a (word_of_nat (length src)) m = Inr bs"
    and "sorted_wrt (\<lambda>v w. ranges_disjoint (fst v) (wlen v) (fst w) (wlen w)) ws"
  shows "load a (word_of_nat (length src)) (store_seq ws m) = Inr src"
  using assms
proof (induction ws m rule: store_seq.induct)
  case (1 m)
  then show ?case by simp
next
  case (2 b x ws m)
  let ?m = "snd (store b x (word_of_nat (length x)) m)"
  have inv': "inv ?m" using 2 by (simp add: store_inv unat_of_nat_u64)
  show ?case
  proof (cases "(a, src) \<in> set ws")
    case True
    moreover have "\<exists>bs. load a (word_of_nat (length src)) ?m = Inr bs"
      using 2 by (simp add: bounds_stable unat_of_nat_u64)
    ultimately show ?thesis using 2 inv' by simp
  next
    case False
    then have eq: "a = b" "src = x" using "2.prems"(3) by auto
    have "load a (word_of_nat (length src)) ?m = Inr src"
      using 2 eq by (simp add: load_after_store unat_of_nat_u64 store_succeeds_iff)
    moreover have "\<forall>w \<in> set ws. ranges_disjoint (fst w) (wlen w) a (word_of_nat (length src))"
      using "2.prems"(5) eq by (auto simp: ranges_disjoint_sym)
    ultimately show ?thesis
      using store_seq_frame [OF inv', of ws a "word_of_nat (length src)"] "2.prems"(2) by simp
  qed
qed

end

end
