(* ===== verification/Device_Memory_Facts.thy ===== *)
theory Device_Memory_Facts
  imports Device_Memory Byte_Store Word128
begin

text \<open>
  Correctness of the device allocator: alignment arithmetic on 64-bit words, the binary
  search over allocations, the allocator invariant (ordered, disjoint, aligned allocations
  with dense identifiers) and its preservation by every operation, and the byte-level view
  of host accesses. The read/write contract is the locale \<open>byte_store\<close>.
\<close>

subsection \<open>Powers of two\<close>

lemma nat_and_pred_zero: "n \<noteq> 0 \<Longrightarrow> n AND (n - 1) = 0 \<Longrightarrow> \<exists>k. (n :: nat) = 2 ^ k"
proof (induction n rule: less_induct)
  case (less n)
  show ?case
  proof (cases "even n")
    case True
    then obtain m where m: "n = 2 * m" by (auto elim: evenE)
    with less.prems have m0: "m \<noteq> 0" by simp
    have "n - 1 = 2 * (m - 1) + 1" using m m0 by simp
    then have "n AND (n - 1) = 2 * (m AND (m - 1))"
      using m by (simp add: and_rec [of "2 * m"])
    with less.prems have "m AND (m - 1) = 0" by simp
    with less.IH [of m] m m0 obtain k where "m = 2 ^ k" by auto
    with m have "n = 2 ^ Suc k" by simp
    then show ?thesis ..
  next
    case False
    then obtain m where m: "n = 2 * m + 1" by (auto elim: oddE)
    then have "n AND (n - 1) = 2 * m"
      by (simp add: and_rec [of "Suc (2 * m)"])
    with less.prems m have "n = 2 ^ 0" by simp
    then show ?thesis ..
  qed
qed

lemma is_pow2_power: "is_pow2 v \<Longrightarrow> \<exists>k < 64. unat v = 2 ^ k"
proof -
  assume p: "is_pow2 v"
  then have v0: "v \<noteq> 0" and a: "unat (v AND (v - 1)) = 0"
    by (simp_all add: is_pow2_def)
  have "unat (v - 1) = unat v - 1"
    using v0 by (simp add: unat_minus_one)
  with a have "unat v AND (unat v - 1) = 0"
    by (simp add: unsigned_and_eq)
  moreover have "unat v \<noteq> 0" using v0 by (simp add: unat_eq_zero)
  ultimately obtain k where k: "unat v = 2 ^ k" using nat_and_pred_zero by blast
  have "(2 :: nat) ^ k < 2 ^ 64" using unsigned_less [of v, where ?'a = nat] k by simp
  then have "k < 64" by (rule power_less_imp_less_exp [rotated]) simp
  with k show ?thesis by blast
qed

lemma and_not_mask_nat:
  fixes x v :: u64
  assumes "unat v = 2 ^ k" and "k < 64"
  shows "unat (x AND NOT (v - 1)) = unat x div 2 ^ k * 2 ^ k"
proof -
  have v: "v = push_bit k 1"
  proof -
    have "unat (push_bit k 1 :: u64) = 2 ^ k"
      using assms(2) by (subst unsigned_push_bit_eq) (simp add: push_bit_eq_mult take_bit_nat_eq_self)
    with assms(1) show ?thesis by (simp only: word_unat_eq_iff)
  qed
  have v1: "v - 1 = mask k"
    by (simp add: v push_bit_eq_mult mask_eq_exp_minus_1)
  have "x AND NOT (v - 1) = push_bit k (drop_bit k x)"
    by (rule bit_word_eqI) (auto simp: v1 bit_simps)
  moreover have "unat (push_bit k (drop_bit k x)) = unat x div 2 ^ k * 2 ^ k"
  proof -
    have "unat x div 2 ^ k * 2 ^ k \<le> unat x" by (rule div_times_less_eq_dividend)
    then have "unat x div 2 ^ k * 2 ^ k < 2 ^ 64"
      by (rule order_le_less_trans) (rule unat_lt_u64)
    then show ?thesis
      by (subst unsigned_push_bit_eq) (simp add: unat_drop_u64 push_bit_eq_mult take_bit_nat_eq_self)
  qed
  ultimately show ?thesis by simp
qed

lemma align_up_value:
  assumes "is_pow2 al" and "16 \<le> al" and "unat c + unat al - 1 < 2 ^ 64"
  shows "unat (align_up c al) = (unat c + unat al - 1) div unat al * unat al"
proof -
  obtain k where k: "unat al = 2 ^ k" "k < 64" using is_pow2_power [OF assms(1)] by blast
  have al: "16 \<le> unat al" using assms(2) by (simp add: word_le_nat_alt)
  have eq: "align_up c al = (c + (al - 1)) AND NOT (al - 1)"
    using assms(2) al by (simp add: align_up_def word_le_nat_alt algebra_simps)
  have al1: "unat (al - 1) = unat al - 1"
    using al by (intro unat_minus_one) auto
  have "unat (c + (al - 1)) = unat c + unat al - 1"
    using assms(3) al1 al by (intro trans [OF unat_add_no_wrap]) auto
  then show ?thesis
    using and_not_mask_nat [OF k, of "c + (al - 1)"] by (simp only: eq k(1))
qed

lemma align_up_spec:
  assumes "is_pow2 al" and "16 \<le> al"
  shows "unat c + unat al - 1 < 2 ^ 64 \<Longrightarrow>
           unat c \<le> unat (align_up c al) \<and> unat (align_up c al) < unat c + unat al \<and>
           unat al dvd unat (align_up c al)"
    and "2 ^ 64 \<le> unat c + unat al - 1 \<Longrightarrow> align_up c al = 0"
proof -
  obtain k where k: "unat al = 2 ^ k" "k < 64" using is_pow2_power [OF assms(1)] by blast
  have al: "16 \<le> unat al" using assms(2) by (simp add: word_le_nat_alt)
  have eq: "align_up c al = (c + (al - 1)) AND NOT (al - 1)"
    using assms(2) al by (simp add: align_up_def word_le_nat_alt algebra_simps)
  have al1: "unat (al - 1) = unat al - 1"
    using al by (intro unat_minus_one) auto
  have av: "unat (align_up c al) = unat (c + (al - 1)) div unat al * unat al"
    using and_not_mask_nat [OF k] by (simp add: eq k(1))
  show "unat c \<le> unat (align_up c al) \<and> unat (align_up c al) < unat c + unat al \<and>
        unat al dvd unat (align_up c al)" if "unat c + unat al - 1 < 2 ^ 64"
  proof -
    have s: "unat (c + (al - 1)) = unat c + (unat al - 1)"
      using that al1 al by (intro trans [OF unat_add_no_wrap]) auto
    define q where "q = (unat c + (unat al - 1)) div unat al * unat al"
    have "unat c + (unat al - 1) = q + (unat c + (unat al - 1)) mod unat al"
      unfolding q_def by (rule div_mult_mod_eq [symmetric])
    moreover have "(unat c + (unat al - 1)) mod unat al < unat al" using al by simp
    ultimately have "unat c \<le> q \<and> q < unat c + unat al" using al by linarith
    moreover have "unat (align_up c al) = q" by (simp only: av s q_def)
    moreover have "unat al dvd q" by (simp add: q_def)
    ultimately show ?thesis by simp
  qed
  show "align_up c al = 0" if big: "2 ^ 64 \<le> unat c + unat al - 1"
  proof -
    have "unat (c + (al - 1)) = unat c + (unat al - 1) - 2 ^ 64"
      using big al1 al unsigned_less [of c, where ?'a = nat] unsigned_less [of al, where ?'a = nat]
      by (simp add: unat_plus_if')
    also have "\<dots> < unat al" using unsigned_less [of c, where ?'a = nat] al by simp
    finally have "unat (align_up c al) = 0" by (simp add: av)
    then show ?thesis by (simp add: unat_eq_zero)
  qed
qed

subsection \<open>The allocator invariant\<close>

definition alloc_ok :: "u64 \<Rightarrow> Allocation \<Rightarrow> bool" where
  "alloc_ok cur a \<longleftrightarrow>
     0 < al_size a \<and> unat (al_base a) + unat (al_size a) \<le> unat cur \<and>
     length (al_data a) = unat (al_size a) \<and>
     is_pow2 (al_align a) \<and> 16 \<le> al_align a \<and> unat (al_align a) dvd unat (al_base a)"

definition before :: "Allocation \<Rightarrow> Allocation \<Rightarrow> bool" where
  "before a b \<longleftrightarrow> unat (al_base a) + unat (al_size a) \<le> unat (al_base b)"

definition alloc_inv :: "MemoryAllocator \<Rightarrow> bool" where
  "alloc_inv m \<longleftrightarrow>
     sorted_wrt before (ma_allocs m) \<and>
     (\<forall>a \<in> set (ma_allocs m). alloc_ok (ma_cursor m) a) \<and>
     map al_id (ma_allocs m) = map word_of_nat [1..<Suc (length (ma_allocs m))] \<and>
     ma_next_id m = word_of_nat (Suc (length (ma_allocs m))) \<and>
     16 * length (ma_allocs m) \<le> unat (ma_cursor m) + 15"

lemma alloc_inv_new: "alloc_inv (new_allocator base)"
  by (simp add: alloc_inv_def new_allocator_def)

lemma alloc_inv_nth_ok: "alloc_inv m \<Longrightarrow> i < length (ma_allocs m) \<Longrightarrow> alloc_ok (ma_cursor m) (ma_allocs m ! i)"
  by (simp add: alloc_inv_def)

lemma alloc_inv_before:
  "alloc_inv m \<Longrightarrow> i < j \<Longrightarrow> j < length (ma_allocs m) \<Longrightarrow> before (ma_allocs m ! i) (ma_allocs m ! j)"
  by (simp add: alloc_inv_def sorted_wrt_nth_less)

lemma alloc_inv_base_mono:
  assumes "alloc_inv m" "i < j" "j < length (ma_allocs m)"
  shows "al_base (ma_allocs m ! i) < al_base (ma_allocs m ! j)"
  using alloc_inv_before [OF assms] alloc_inv_nth_ok [OF assms(1), of i] assms(2,3)
  by (simp add: before_def alloc_ok_def word_less_nat_alt)

lemma alloc_inv_length: "alloc_inv m \<Longrightarrow> length (ma_allocs m) \<le> 2 ^ 60"
  using unsigned_less [of "ma_cursor m", where ?'a = nat] by (simp add: alloc_inv_def)

lemma alloc_inv_id:
  assumes "alloc_inv m" "i < length (ma_allocs m)"
  shows "unat (al_id (ma_allocs m ! i)) = Suc i"
proof -
  have "map al_id (ma_allocs m) ! i = map word_of_nat [1..<Suc (length (ma_allocs m))] ! i"
    using assms(1) by (simp add: alloc_inv_def)
  then have "al_id (ma_allocs m ! i) = word_of_nat (Suc i)"
    using assms(2) by (simp del: upt_Suc)
  then show ?thesis
    using alloc_inv_length [OF assms(1)] assms(2) by (simp add: unat_of_nat_u64 del: of_nat_Suc)
qed

lemma alloc_inv_next_id: "alloc_inv m \<Longrightarrow> unat (ma_next_id m) = Suc (length (ma_allocs m))"
  using alloc_inv_length [of m] by (auto simp: alloc_inv_def unat_of_nat_u64 simp del: of_nat_Suc)

subsection \<open>The binary search\<close>

lemma upper_bound_spec:
  assumes "\<And>i j. i < j \<Longrightarrow> j < length xs \<Longrightarrow> al_base (xs ! i) < al_base (xs ! j)"
    and "lo \<le> hi" "hi \<le> length xs"
    and "\<And>i. i < lo \<Longrightarrow> al_base (xs ! i) \<le> va"
    and "\<And>i. hi \<le> i \<Longrightarrow> i < length xs \<Longrightarrow> va < al_base (xs ! i)"
  shows "upper_bound xs va lo hi \<le> length xs \<and>
         (\<forall>i < upper_bound xs va lo hi. al_base (xs ! i) \<le> va) \<and>
         (\<forall>i. upper_bound xs va lo hi \<le> i \<longrightarrow> i < length xs \<longrightarrow> va < al_base (xs ! i))"
  using assms
proof (induction xs va lo hi rule: upper_bound.induct)
  case (1 xs va lo hi)
  show ?case
  proof (cases "lo < hi")
    case False
    then have "upper_bound xs va lo hi = lo" by (subst upper_bound.simps) simp
    with False "1.prems" show ?thesis by auto
  next
    case True
    define mid where "mid = (lo + hi) div 2"
    have mid: "lo \<le> mid" "mid < hi" using True by (auto simp: mid_def)
    show ?thesis
    proof (cases "al_base (xs ! mid) \<le> va")
      case le: True
      have "al_base (xs ! i) \<le> va" if "i < mid + 1" for i
      proof (cases "i = mid")
        case False
        then have "al_base (xs ! i) < al_base (xs ! mid)"
          using "1.prems"(1) [of i mid] that mid "1.prems"(3) by simp
        with le show ?thesis by simp
      qed (simp add: le)
      note IH = "1.IH"(1) [OF True mid_def le "1.prems"(1) _ "1.prems"(3) this "1.prems"(5)]
      have "upper_bound xs va lo hi = upper_bound xs va (mid + 1) hi"
        by (subst upper_bound.simps) (simp add: True le Let_def mid_def [symmetric])
      with IH mid show ?thesis by simp
    next
      case gt: False
      have "va < al_base (xs ! i)" if "mid \<le> i" "i < length xs" for i
      proof (cases "i = mid")
        case False
        then have "al_base (xs ! mid) < al_base (xs ! i)" using "1.prems"(1) [of mid i] that by simp
        with gt show ?thesis by simp
      qed (use gt in simp)
      note IH = "1.IH"(2) [OF True mid_def gt "1.prems"(1) _ _ "1.prems"(4) this]
      have "upper_bound xs va lo hi = upper_bound xs va lo mid"
        by (subst upper_bound.simps) (simp add: True gt Let_def mid_def [symmetric])
      with IH mid "1.prems"(3) show ?thesis by simp
    qed
  qed
qed

text \<open>What \<open>find_containing\<close> means: the live allocation whose byte range holds the address.\<close>

definition holds_addr :: "Allocation \<Rightarrow> u64 \<Rightarrow> bool" where
  "holds_addr a va \<longleftrightarrow> al_alive a \<and> unat (al_base a) \<le> unat va \<and> unat va < unat (al_base a) + unat (al_size a)"

lemma find_containing_iff:
  assumes inv: "alloc_inv m"
  shows "find_containing (ma_allocs m) va = Some i \<longleftrightarrow>
           i < length (ma_allocs m) \<and> holds_addr (ma_allocs m ! i) va"
proof -
  let ?xs = "ma_allocs m"
  define r where "r = upper_bound ?xs va 0 (length ?xs)"
  have ub: "r \<le> length ?xs \<and> (\<forall>i < r. al_base (?xs ! i) \<le> va) \<and>
            (\<forall>i. r \<le> i \<longrightarrow> i < length ?xs \<longrightarrow> va < al_base (?xs ! i))"
    unfolding r_def by (rule upper_bound_spec) (auto intro: alloc_inv_base_mono [OF inv])
  have sum: "unat (al_base (?xs ! k) + al_size (?xs ! k)) =
               unat (al_base (?xs ! k)) + unat (al_size (?xs ! k))" if "k < length ?xs" for k
    using alloc_inv_nth_ok [OF inv that] unsigned_less [of "ma_cursor m", where ?'a = nat]
    by (intro unat_add_no_wrap) (simp add: alloc_ok_def)
  have uniq: "i = r - 1 \<and> 0 < r" if "i < length ?xs" "holds_addr (?xs ! i) va" for i
  proof -
    have "i < r" using ub that by (metis holds_addr_def linorder_not_le word_less_nat_alt)
    moreover have "\<not> i < r - 1"
    proof
      assume "i < r - 1"
      then have "before (?xs ! i) (?xs ! (r - 1))" "al_base (?xs ! (r - 1)) \<le> va"
        using ub by (auto intro: alloc_inv_before [OF inv])
      then show False using that(2) by (simp add: before_def holds_addr_def word_le_nat_alt)
    qed
    ultimately show ?thesis by linarith
  qed
  have step: "find_containing ?xs va = (if r = 0 then None
      else if holds_addr (?xs ! (r - 1)) va then Some (r - 1) else None)"
  proof (cases "r = 0")
    case False
    then have "r - 1 < length ?xs" "al_base (?xs ! (r - 1)) \<le> va" using ub by auto
    with sum [of "r - 1"] False show ?thesis
      by (simp add: find_containing_def r_def [symmetric] Let_def holds_addr_def word_less_nat_alt word_le_nat_alt)
  qed (simp add: find_containing_def r_def)
  show ?thesis
    unfolding step using ub uniq by (auto split: if_splits)
qed

lemma find_containing_None:
  assumes "alloc_inv m"
  shows "find_containing (ma_allocs m) va = None \<longleftrightarrow> (\<forall>a \<in> set (ma_allocs m). \<not> holds_addr a va)"
  using find_containing_iff [OF assms, of va]
  by (metis in_set_conv_nth not_Some_eq)

subsection \<open>Every operation keeps the invariant\<close>

lemma is_pow2_16 [simp]: "is_pow2 16"
  by (simp add: is_pow2_def)

lemma eff_align_ok:
  assumes "al = 0 \<or> is_pow2 al"
  shows "is_pow2 (max al 16)" and "16 \<le> max al 16" and "16 dvd unat (max al 16)"
proof -
  show p: "is_pow2 (max al 16)" using assms by (auto simp: max_def)
  show ge: "16 \<le> max al 16" by simp
  obtain k where k: "unat (max al 16) = 2 ^ k" using is_pow2_power [OF p] by blast
  have "(16 :: nat) \<le> 2 ^ k" using ge k by (simp only: word_le_nat_alt) simp
  then have "(2 :: nat) ^ 4 \<le> 2 ^ k" by simp
  then have "4 \<le> k" by (rule power_le_imp_le_exp [rotated]) simp
  then have "(2 :: nat) ^ 4 dvd 2 ^ k" by (rule le_imp_power_dvd)
  with k show "16 dvd unat (max al 16)" by simp
qed

lemma allocate_success:
  assumes "allocate sp sz al ow m = (Inr p, m')"
  shows "0 < sz" "unat (ma_cursor m) \<le> unat p" "unat (max al 16) dvd unat p"
    "unat p + unat sz < 2 ^ 64" "is_pow2 (max al 16)" "16 dvd unat p"
    "unat p < unat (ma_cursor m) + unat (max al 16)"
proof -
  have ok: "sz \<noteq> 0" "al = 0 \<or> is_pow2 al" and p: "p = align_up (ma_cursor m) (max al 16)"
    and ge: "ma_cursor m \<le> p" and room: "sz \<le> UINT64_MAX - p"
    using assms by (auto simp: allocate_def Let_def split: if_splits)
  note eff = eff_align_ok [OF ok(2)]
  show "0 < sz" using ok(1) by (simp add: word_neq_0_conv)
  show "unat p + unat sz < 2 ^ 64" using room by (simp add: le_UINT64_MAX_minus add.commute)
  show "is_pow2 (max al 16)" by (rule eff)
  have small: "unat (ma_cursor m) + unat (max al 16) - 1 < 2 ^ 64"
  proof (rule ccontr)
    assume "\<not> unat (ma_cursor m) + unat (max al 16) - 1 < 2 ^ 64"
    then have "p = 0" and "unat (ma_cursor m) \<noteq> 0"
      using align_up_spec(2) [OF eff(1,2), of "ma_cursor m"] p unat_lt_u64 [of "max al 16"]
      by (auto simp: not_less)
    with ge show False by (simp add: word_le_nat_alt)
  qed
  note sp = align_up_spec(1) [OF eff(1,2) small, folded p]
  show "unat (ma_cursor m) \<le> unat p" "unat (max al 16) dvd unat p"
    "unat p < unat (ma_cursor m) + unat (max al 16)" using sp by simp_all
  show "16 dvd unat p" using sp eff(3) dvd_trans by blast
qed

lemma allocate_result:
  assumes "allocate sp sz al ow m = (Inr p, m')"
  shows "m' = m\<lparr>ma_allocs := ma_allocs m @
            [\<lparr>al_id = ma_next_id m, al_space = sp, al_base = p, al_size = sz, al_align = max al 16,
              al_alive = True, al_label = [], al_owner = ow, al_data = replicate (unat sz) 0\<rparr>],
          ma_next_id := ma_next_id m + 1, ma_cursor := p + sz\<rparr>"
  using assms by (auto simp: allocate_def Let_def split: if_splits)

lemma allocate_failure: "allocate sp sz al ow m = (Inl e, m') \<Longrightarrow> m' = m"
  by (auto simp: allocate_def Let_def split: if_splits)

lemma alloc_ok_mono: "alloc_ok c a \<Longrightarrow> unat c \<le> unat c' \<Longrightarrow> alloc_ok c' a"
  by (simp add: alloc_ok_def)

lemma alloc_inv_allocate [inv_intros]: "alloc_inv m \<Longrightarrow> alloc_inv (snd (allocate sp sz al ow m))"
proof -
  assume inv: "alloc_inv m"
  obtain r m' where run: "allocate sp sz al ow m = (r, m')" by (cases "allocate sp sz al ow m")
  show ?thesis
  proof (cases r)
    case (Inl e)
    with run inv show ?thesis using allocate_failure by fastforce
  next
    case (Inr p)
    note S = allocate_success [OF run [unfolded Inr]] and R = allocate_result [OF run [unfolded Inr]]
    let ?n = "length (ma_allocs m)"
    have end': "unat (p + sz) = unat p + unat sz" using S(4) by (rule unat_add_no_wrap)
    have "\<forall>a \<in> set (ma_allocs m). alloc_ok (ma_cursor m) a" using inv by (simp add: alloc_inv_def)
    then have old: "alloc_ok (p + sz) a \<and> unat (al_base a) + unat (al_size a) \<le> unat p"
      if "a \<in> set (ma_allocs m)" for a
      using that S(2) end' by (auto simp: alloc_ok_def intro: order_trans)
    have "16 * ?n \<le> unat p + 15" using inv S(2) by (simp add: alloc_inv_def)
    moreover obtain q where "unat p = 16 * q" using S(6) by (auto elim: dvdE)
    ultimately have "?n \<le> q" "unat p = 16 * q" by presburger+
    then have "16 * Suc ?n \<le> unat p + unat sz + 15"
      using S(1) by (simp add: word_less_nat_alt)
    moreover have "[1..<Suc (Suc ?n)] = [1..<Suc ?n] @ [Suc ?n]" by simp
    ultimately show ?thesis
      using inv old S
      by (simp add: run R alloc_inv_def sorted_wrt_append before_def end' alloc_ok_def del: upt_Suc)
  qed
qed

lemma alloc_inv_update [inv_intros]:
  assumes inv: "alloc_inv m"
    and "\<And>a. al_base (f a) = al_base a" "\<And>a. al_size (f a) = al_size a"
    and "\<And>a. al_id (f a) = al_id a" "\<And>a. al_align (f a) = al_align a"
    and "i < length (ma_allocs m) \<Longrightarrow> length (al_data (f (ma_allocs m ! i))) = length (al_data (ma_allocs m ! i))"
  shows "alloc_inv (update_alloc i f m)"
proof (cases "i < length (ma_allocs m)")
  case True
  have "sorted_wrt before ((ma_allocs m)[i := f (ma_allocs m ! i)])"
  proof -
    have same: "al_base ((ma_allocs m)[i := f (ma_allocs m ! i)] ! k) = al_base (ma_allocs m ! k)"
      "al_size ((ma_allocs m)[i := f (ma_allocs m ! i)] ! k) = al_size (ma_allocs m ! k)" for k
      using assms(2,3) True by (cases "k = i"; simp)+
    have "sorted_wrt before (ma_allocs m)" using inv by (simp add: alloc_inv_def)
    then show ?thesis by (simp add: sorted_wrt_iff_nth_less before_def same)
  qed
  moreover have "\<forall>a \<in> set ((ma_allocs m)[i := f (ma_allocs m ! i)]). alloc_ok (ma_cursor m) a"
  proof
    fix a assume "a \<in> set ((ma_allocs m)[i := f (ma_allocs m ! i)])"
    then have "a \<in> set (ma_allocs m) \<or> a = f (ma_allocs m ! i)"
      using set_update_subset_insert by fastforce
    with inv assms True alloc_inv_nth_ok [OF inv True] show "alloc_ok (ma_cursor m) a"
      by (auto simp: alloc_inv_def alloc_ok_def)
  qed
  moreover have "map al_id ((ma_allocs m)[i := f (ma_allocs m ! i)]) = map al_id (ma_allocs m)"
    using assms(4) by (metis list_update_id map_update)
  ultimately show ?thesis
    using inv by (simp add: alloc_inv_def update_alloc_def del: upt_Suc)
next
  case False
  then show ?thesis using inv by (simp add: update_alloc_def list_update_beyond)
qed

lemma alloc_inv_free_ptr [inv_intros]: "alloc_inv m \<Longrightarrow> alloc_inv (snd (free_ptr p m))"
  by (auto simp: free_ptr_def split: option.splits intro!: alloc_inv_update)

lemma alloc_inv_free_id [inv_intros]: "alloc_inv m \<Longrightarrow> alloc_inv (snd (free_id i m))"
  by (auto simp: free_id_def split: option.splits intro: alloc_inv_free_ptr)

lemma alloc_inv_free_domain [inv_intros]: "alloc_inv m \<Longrightarrow> alloc_inv (snd (free_domain ow m))"
proof -
  assume inv: "alloc_inv m"
  define g where "g a = (if al_alive a \<and> al_owner a = ow then a\<lparr>al_alive := False\<rparr> else a)" for a :: Allocation
  have g: "al_base (g a) = al_base a" "al_size (g a) = al_size a" "al_id (g a) = al_id a"
    "al_align (g a) = al_align a" "al_data (g a) = al_data a" for a
    by (simp_all add: g_def)
  have "snd (free_domain ow m) = m\<lparr>ma_allocs := map g (ma_allocs m)\<rparr>"
    by (simp add: free_domain_def g_def [abs_def] Let_def)
  moreover have "map al_id (map g (ma_allocs m)) = map al_id (ma_allocs m)"
    by (simp add: g comp_def)
  moreover have "sorted_wrt before (map g (ma_allocs m)) = sorted_wrt before (ma_allocs m)"
    by (simp add: sorted_wrt_map before_def [abs_def] g)
  ultimately show ?thesis
    using inv by (simp add: alloc_inv_def alloc_ok_def g del: upt_Suc map_map)
qed

subsection \<open>Accessible ranges\<close>

text \<open>\<open>accessible m p len i\<close>: allocation \<open>i\<close> is live and holds all of \<open>[p, p + len)\<close>.\<close>

definition accessible :: "MemoryAllocator \<Rightarrow> u64 \<Rightarrow> u64 \<Rightarrow> nat \<Rightarrow> bool" where
  "accessible m p len i \<longleftrightarrow> i < length (ma_allocs m) \<and> holds_addr (ma_allocs m ! i) p \<and>
     unat p + unat len \<le> unat (al_base (ma_allocs m ! i)) + unat (al_size (ma_allocs m ! i))"

lemma contains_iff: "contains a off len \<longleftrightarrow> unat off + unat len \<le> unat (al_size a)"
  by (auto simp: contains_def word_le_nat_alt unat_sub_le)

lemma holds_addr_off:
  "holds_addr a p \<Longrightarrow> unat (p - al_base a) = unat p - unat (al_base a)"
  by (simp add: holds_addr_def unat_sub_le word_le_nat_alt)

lemma accessible_find:
  "alloc_inv m \<Longrightarrow> accessible m p len i \<Longrightarrow> find_containing (ma_allocs m) p = Some i"
  by (simp add: find_containing_iff accessible_def)

lemma accessible_unique:
  assumes "alloc_inv m" "accessible m p len i" "accessible m p len' j"
  shows "i = j"
  using accessible_find [OF assms(1,2)] accessible_find [OF assms(1,3)] by simp

abbreviation rel_off :: "MemoryAllocator \<Rightarrow> nat \<Rightarrow> u64 \<Rightarrow> nat" where
  "rel_off m i p \<equiv> unat p - unat (al_base (ma_allocs m ! i))"

text \<open>The three outcomes of \<open>resolve_range\<close>.\<close>

lemma resolve_range_cases:
  assumes inv: "alloc_inv m"
  obtains (bad) e where "\<And>i n. \<not> accessible m p n i" "resolve_range p len m = Inl e" "code e = kBadAddress"
  | (oob) i e where "accessible m p 0 i" "\<And>j. \<not> accessible m p len j" "resolve_range p len m = Inl e" "code e = kOob"
  | (ok) i where "accessible m p len i" "find_containing (ma_allocs m) p = Some i"
      "resolve_range p len m = Inr (ma_allocs m ! i, p - al_base (ma_allocs m ! i))"
      "unat (p - al_base (ma_allocs m ! i)) = rel_off m i p"
proof (cases "find_containing (ma_allocs m) p")
  case None
  then have "\<not> accessible m p n i" for i n using accessible_find [OF inv] by (metis option.distinct(1))
  with None show ?thesis using bad by (simp add: resolve_range_def)
next
  case (Some i)
  then have i: "i < length (ma_allocs m)" "holds_addr (ma_allocs m ! i) p"
    by (simp_all add: find_containing_iff [OF inv])
  note off = holds_addr_off [OF i(2)]
  have acc: "accessible m p n j \<longleftrightarrow> j = i \<and> contains (ma_allocs m ! i) (p - al_base (ma_allocs m ! i)) n" for n j
  proof
    assume a: "accessible m p n j"
    then have "j = i" using accessible_find [OF inv a] Some by simp
    with a show "j = i \<and> contains (ma_allocs m ! i) (p - al_base (ma_allocs m ! i)) n"
      by (auto simp: accessible_def contains_iff off holds_addr_def)
  next
    assume "j = i \<and> contains (ma_allocs m ! i) (p - al_base (ma_allocs m ! i)) n"
    with i show "accessible m p n j" by (auto simp: accessible_def contains_iff off holds_addr_def)
  qed
  show ?thesis
  proof (cases "contains (ma_allocs m ! i) (p - al_base (ma_allocs m ! i)) len")
    case True
    show ?thesis
      by (rule ok) (use True Some off in \<open>simp_all add: acc resolve_range_def Let_def\<close>)
  next
    case False
    have "accessible m p 0 i" using i by (simp add: accessible_def holds_addr_def)
    moreover obtain e where "resolve_range p len m = Inl e" "code e = kOob"
      using False Some by (simp add: resolve_range_def Let_def)
    ultimately show ?thesis
      by (intro oob) (use False in \<open>simp_all add: acc\<close>)
  qed
qed

lemma mem_read_accessible:
  assumes "alloc_inv m" "accessible m p len i"
  shows "mem_read p len m = Inr (read_range (rel_off m i p) (unat len) (al_data (ma_allocs m ! i)))"
  using assms(1)
proof (cases rule: resolve_range_cases [where p = p and len = len])
  case (ok j)
  then show ?thesis using accessible_unique [OF assms(1) ok(1) assms(2)] by (simp add: mem_read_def)
qed (use assms(2) in auto)

lemma mem_write_accessible:
  assumes "alloc_inv m" "accessible m p len i"
  shows "mem_write p src len m =
    (Inr (), update_alloc i (set_data (rel_off m i p) (take (unat len) src)) m)"
  using assms(1)
proof (cases rule: resolve_range_cases [where p = p and len = len])
  case (ok j)
  then show ?thesis using accessible_unique [OF assms(1) ok(1) assms(2)] by (simp add: mem_write_def)
qed (use assms(2) in auto)

lemma resolve_range_isl:
  assumes "alloc_inv m"
  shows "(\<exists>r. resolve_range p len m = Inr r) \<longleftrightarrow> (\<exists>i. accessible m p len i)"
  using assms by (cases rule: resolve_range_cases [where p = p and len = len]) auto

lemma mem_read_fail_iff: "alloc_inv m \<Longrightarrow> mem_read p len m = Inl e \<longleftrightarrow> resolve_range p len m = Inl e"
  by (cases rule: resolve_range_cases [where p = p and len = len]) (auto simp: mem_read_def)

lemma mem_write_fail_iff:
  "alloc_inv m \<Longrightarrow> fst (mem_write p src len m) = Inl e \<longleftrightarrow> resolve_range p len m = Inl e"
  by (cases rule: resolve_range_cases [where p = p and len = len]) (auto simp: mem_write_def)

lemma mem_read_Inr_iff:
  "alloc_inv m \<Longrightarrow> (\<exists>bs. mem_read p len m = Inr bs) \<longleftrightarrow> (\<exists>i. accessible m p len i)"
  by (cases rule: resolve_range_cases [where p = p and len = len]) (auto simp: mem_read_def)

lemma mem_write_Inr_iff:
  "alloc_inv m \<Longrightarrow> (\<exists>u. fst (mem_write p src len m) = Inr u) \<longleftrightarrow> (\<exists>i. accessible m p len i)"
  by (cases rule: resolve_range_cases [where p = p and len = len]) (auto simp: mem_write_def)

lemma mem_write_fail_same: "fst (mem_write p src len m) = Inl e \<Longrightarrow> snd (mem_write p src len m) = m"
  by (auto simp: mem_write_def split: sum.splits option.splits)

subsection \<open>Effect of a data update\<close>

lemma data_bounds:
  assumes "alloc_inv m" "accessible m p len i"
  shows "rel_off m i p + unat len \<le> length (al_data (ma_allocs m ! i))"
proof -
  have "length (al_data (ma_allocs m ! i)) = unat (al_size (ma_allocs m ! i))"
    using assms alloc_inv_nth_ok [OF assms(1), of i] by (simp add: accessible_def alloc_ok_def)
  with assms(2) show ?thesis by (auto simp: accessible_def holds_addr_def)
qed

lemma update_set_data_same:
  "al_base (ma_allocs (update_alloc i (set_data off bs) m) ! k) = al_base (ma_allocs m ! k)"
  "al_size (ma_allocs (update_alloc i (set_data off bs) m) ! k) = al_size (ma_allocs m ! k)"
  "al_alive (ma_allocs (update_alloc i (set_data off bs) m) ! k) = al_alive (ma_allocs m ! k)"
  "length (ma_allocs (update_alloc i (set_data off bs) m)) = length (ma_allocs m)"
  by (cases "i < length (ma_allocs m)"; cases "k = i"; simp add: update_alloc_def set_data_def list_update_beyond)+

lemma accessible_update_data [simp]:
  "accessible (update_alloc i (set_data off bs) m) p len k \<longleftrightarrow> accessible m p len k"
  by (simp add: accessible_def holds_addr_def update_set_data_same)

lemma alloc_inv_set_data [inv_intros]:
  assumes "alloc_inv m" "i < length (ma_allocs m)" "off + length bs \<le> length (al_data (ma_allocs m ! i))"
  shows "alloc_inv (update_alloc i (set_data off bs) m)"
  using assms by (intro alloc_inv_update) (auto simp: set_data_def)

lemma al_data_update:
  "i < length (ma_allocs m) \<Longrightarrow>
   al_data (ma_allocs (update_alloc i (set_data off bs) m) ! k) =
     (if k = i then write_range off bs (al_data (ma_allocs m ! i)) else al_data (ma_allocs m ! k))"
  by (simp add: update_alloc_def set_data_def)

lemma alloc_inv_mem_write [inv_intros]:
  assumes "alloc_inv m" "length src = unat len"
  shows "alloc_inv (snd (mem_write p src len m))"
proof (cases "\<exists>i. accessible m p len i")
  case True
  then obtain i where i: "accessible m p len i" ..
  then have "i < length (ma_allocs m)" by (simp add: accessible_def)
  then show ?thesis
    using assms data_bounds [OF assms(1) i]
    by (simp add: mem_write_accessible [OF assms(1) i] alloc_inv_set_data)
next
  case False
  then have "\<nexists>u. fst (mem_write p src len m) = Inr u"
    using mem_write_Inr_iff [OF assms(1), of p src len] by blast
  then obtain e where "fst (mem_write p src len m) = Inl e" by (cases "fst (mem_write p src len m)") auto
  with assms(1) show ?thesis by (simp add: mem_write_fail_same)
qed

subsection \<open>The host access path is a byte store\<close>

lemma accessible_cong:
  "unat p + unat n \<le> 2 ^ 64 \<Longrightarrow> accessible m p n i \<Longrightarrow> unat k \<le> unat n \<Longrightarrow> accessible m p k i"
  by (simp add: accessible_def)

lemma mem_read_after_write:
  assumes "alloc_inv m" "length src = unat len" "fst (mem_write p src len m) = Inr ()"
  shows "mem_read p len (snd (mem_write p src len m)) = Inr src"
proof -
  obtain i where i: "accessible m p len i"
    using mem_write_Inr_iff [OF assms(1)] assms(3) by blast
  let ?m = "update_alloc i (set_data (rel_off m i p) src) m"
  have w: "mem_write p src len m = (Inr (), ?m)"
    using mem_write_accessible [OF assms(1) i] assms(2) by simp
  have inv': "alloc_inv ?m" using alloc_inv_mem_write [OF assms(1,2), of p] w by simp
  have il: "i < length (ma_allocs m)" using i by (simp add: accessible_def)
  have "mem_read p len ?m =
          Inr (read_range (rel_off ?m i p) (unat len) (al_data (ma_allocs ?m ! i)))"
    using i by (intro mem_read_accessible [OF inv']) simp
  also have "\<dots> = Inr src"
    using read_write_same [OF data_bounds [OF assms(1) i, folded assms(2)]] il assms(2)
    by (simp add: al_data_update update_set_data_same)
  finally show ?thesis using w by simp
qed

lemma disjoint_rel_offs:
  assumes "accessible m p n i" "accessible m q k i" "ranges_disjoint p n q k"
  shows "rel_off m i q + unat k \<le> rel_off m i p \<or> rel_off m i p + unat n \<le> rel_off m i q"
proof -
  have "unat (al_base (ma_allocs m ! i)) \<le> unat p" "unat (al_base (ma_allocs m ! i)) \<le> unat q"
    using assms(1,2) by (simp_all add: accessible_def holds_addr_def)
  with assms(3) show ?thesis unfolding ranges_disjoint_def by linarith
qed

lemma mem_read_update_disjoint:
  assumes inv: "alloc_inv m" and p: "accessible m p len i" and src: "length src = unat len"
    and dis: "ranges_disjoint p len q k"
  shows "mem_read q k (update_alloc i (set_data (rel_off m i p) src) m) = mem_read q k m"
proof -
  let ?m = "update_alloc i (set_data (rel_off m i p) src) m"
  have il: "i < length (ma_allocs m)" using p by (simp add: accessible_def)
  have inv': "alloc_inv ?m"
    using data_bounds [OF inv p] src by (intro alloc_inv_set_data inv il) simp
  show ?thesis
  proof (cases "\<exists>j. accessible m q k j")
    case True
    then obtain j where j: "accessible m q k j" ..
    have "al_data (ma_allocs ?m ! j) = al_data (ma_allocs m ! j) \<or> j = i"
      using il by (simp add: al_data_update)
    moreover have "read_range (rel_off m i q) (unat k) (al_data (ma_allocs ?m ! i)) =
        read_range (rel_off m i q) (unat k) (al_data (ma_allocs m ! i))" if "j = i"
      using disjoint_rel_offs [OF p j [unfolded that] dis] data_bounds [OF inv p]
        data_bounds [OF inv j] src il that
      by (simp add: al_data_update read_write_disjoint)
    ultimately show ?thesis
      using j by (auto simp: mem_read_accessible [OF inv j] mem_read_accessible [OF inv', of q k j]
          update_set_data_same)
  next
    case False
    have same: "find_containing (ma_allocs ?m) q = find_containing (ma_allocs m) q"
      using find_containing_iff [OF inv, of q] find_containing_iff [OF inv', of q]
      by (metis (no_types, lifting) holds_addr_def option.exhaust update_set_data_same)
    have meta: "al_id (ma_allocs ?m ! j) = al_id (ma_allocs m ! j)"
      "al_space (ma_allocs ?m ! j) = al_space (ma_allocs m ! j)" for j
      using il by (cases "j = i"; simp add: update_alloc_def set_data_def)+
    obtain e where e: "resolve_range q k m = Inl e"
      using False resolve_range_isl [OF inv, of q k] by (cases "resolve_range q k m") auto
    then have "resolve_range q k ?m = Inl e"
      by (auto simp: resolve_range_def same Let_def contains_def update_set_data_same oob_message_def meta
          split: option.splits if_splits)
    with e show ?thesis by (simp add: mem_read_def)
  qed
qed

lemma mem_write_effect:
  assumes "alloc_inv m" "length src = unat n"
  obtains (written) i where "accessible m a n i"
      "mem_write a src n m = (Inr (), update_alloc i (set_data (rel_off m i a) src) m)"
  | (failed) e where "mem_write a src n m = (Inl e, m)"
proof (cases "\<exists>i. accessible m a n i")
  case True
  then obtain i where i: "accessible m a n i" ..
  with mem_write_accessible [OF assms(1) i, of src] assms(2) show ?thesis by (intro written) simp_all
next
  case False
  then obtain e where "resolve_range a n m = Inl e"
    using resolve_range_isl [OF assms(1), of a n] by (cases "resolve_range a n m") auto
  then show ?thesis by (intro failed) (simp add: mem_write_def)
qed

lemma mem_read_length:
  assumes "alloc_inv m" "mem_read a n m = Inr bs"
  shows "length bs = unat n"
proof -
  obtain i where i: "accessible m a n i" using mem_read_Inr_iff [OF assms(1)] assms(2) by blast
  show ?thesis
    using assms(2) mem_read_accessible [OF assms(1) i] data_bounds [OF assms(1) i] by auto
qed

lemma mem_read_write_frame:
  assumes "alloc_inv m" "length src = unat n" "ranges_disjoint a n b k"
  shows "mem_read b k (snd (mem_write a src n m)) = mem_read b k m"
  using assms(1,2)
proof (cases rule: mem_write_effect [where a = a])
  case (written i)
  then show ?thesis using mem_read_update_disjoint [OF assms(1) written(1) assms(2,3)] by simp
qed simp

lemma mem_read_write_bounds:
  assumes "alloc_inv m" "length src = unat n"
  shows "(\<exists>bs. mem_read b k (snd (mem_write a src n m)) = Inr bs) \<longleftrightarrow> (\<exists>bs. mem_read b k m = Inr bs)"
proof -
  have inv': "alloc_inv (snd (mem_write a src n m))" using assms by (rule alloc_inv_mem_write)
  have "accessible (snd (mem_write a src n m)) b k j \<longleftrightarrow> accessible m b k j" for j
    using assms by (cases rule: mem_write_effect [where a = a]) simp_all
  then show ?thesis by (simp only: mem_read_Inr_iff [OF inv'] mem_read_Inr_iff [OF assms(1)])
qed

interpretation host: byte_store alloc_inv mem_read mem_write
  by unfold_locales
    (auto intro: alloc_inv_mem_write mem_read_length mem_read_after_write mem_read_write_frame
      simp: mem_read_write_bounds mem_write_fail_iff mem_read_fail_iff mem_write_fail_same)

end
