(* ===== verification/Atomic_Spec.thy ===== *)
theory Atomic_Spec
  imports Device_Memory Word128
begin

text \<open>
  What an atomic read-modify-write computes, stated on plain numbers of \<open>bits\<close> bits. Both
  the allocator's atomic path and the memory service's atomics are shown against this one
  reference.
\<close>

definition signed_of :: "nat \<Rightarrow> nat \<Rightarrow> int" where
  "signed_of bits a = (if a < 2 ^ (bits - 1) then int a else int a - 2 ^ bits)"

definition atomic_spec :: "AtomicOp \<Rightarrow> nat \<Rightarrow> nat \<Rightarrow> nat \<Rightarrow> nat \<Rightarrow> nat" where
  "atomic_spec op bits a b c =
     (case op of
        kAdd \<Rightarrow> (a + b) mod 2 ^ bits
      | kMin \<Rightarrow> min a b
      | kMax \<Rightarrow> max a b
      | kAnd \<Rightarrow> a AND b
      | kOr \<Rightarrow> a OR b
      | kXor \<Rightarrow> a XOR b
      | kExch \<Rightarrow> b
      | kInc \<Rightarrow> if a \<ge> b then 0 else a + 1
      | kDec \<Rightarrow> if a = 0 \<or> a > b then b else a - 1
      | kCas \<Rightarrow> if a = c then b else a
      | kMinSigned \<Rightarrow> if signed_of bits a \<le> signed_of bits b then a else b
      | kMaxSigned \<Rightarrow> if signed_of bits a \<le> signed_of bits b then b else a
      | kCount \<Rightarrow> a)"

lemma atomic_width_cases:
  assumes "atomic_width_ok w"
  obtains "w = 1" | "w = 2" | "w = 4" | "w = 8"
  using assms by (auto simp: atomic_width_ok_def)

lemma atomic_width_unat: "atomic_width_ok w \<Longrightarrow> unat w \<in> {1, 2, 4, 8}"
  by (erule atomic_width_cases) simp_all

lemma signed_take_bit_nat:
  assumes "0 < n" "a < 2 ^ n"
  shows "signed_take_bit (n - 1) (int a) = signed_of n a"
proof -
  obtain k where n: "n = Suc k" using assms(1) by (cases n) auto
  have "bit (int a) k \<longleftrightarrow> \<not> a < 2 ^ k"
  proof -
    have "bit a k \<longleftrightarrow> odd (a div 2 ^ k)" by (simp add: bit_iff_odd)
    moreover have "a div 2 ^ k < 2" using assms(2) n by (simp add: less_mult_imp_div_less mult.commute)
    ultimately have "bit a k \<longleftrightarrow> a div 2 ^ k = 1" by (auto simp: less_2_cases_iff)
    also have "\<dots> \<longleftrightarrow> \<not> a < 2 ^ k"
      using \<open>a div 2 ^ k < 2\<close> by (auto simp: div_eq_0_iff less_2_cases_iff)
    finally show ?thesis by (simp add: bit_of_nat_iff_bit)
  qed
  moreover have "take_bit k (int a) = int (a mod 2 ^ k)"
    by (simp add: take_bit_eq_mod zmod_int)
  moreover have "a mod 2 ^ k = (if a < 2 ^ k then a else a - 2 ^ k)"
    using assms(2) n by (simp add: le_mod_geq)
  ultimately show ?thesis
    using assms(2) by (simp add: n signed_take_bit_eq_take_bit_minus signed_of_def take_bit_Suc_from_most
        of_bool_def algebra_simps)
qed

lemma sint_ucast_signed_of:
  assumes "unat v < 2 ^ LENGTH('a)" "LENGTH('a) \<le> 64"
  shows "sint (ucast (v :: u64) :: 'a::len word) = signed_of LENGTH('a) (unat v)"
proof -
  have "unat (ucast v :: 'a word) = unat v"
    using assms by (simp add: unsigned_ucast_eq take_bit_nat_eq_self)
  then have "sint (ucast v :: 'a word) = signed_take_bit (LENGTH('a) - 1) (int (unat v))"
    by (simp only: sint_uint uint_nat One_nat_def)
  then show ?thesis using signed_take_bit_nat [OF len_gt_0 assms(1)] by simp
qed

lemma signed_cast_signed_of:
  assumes "atomic_width_ok w" "unat v < 2 ^ (8 * unat w)"
  shows "signed_cast w v = signed_of (8 * unat w) (unat v)"
  using assms(1)
proof (cases rule: atomic_width_cases)
  case 1
  then show ?thesis using assms(2) sint_ucast_signed_of [of v, where 'a = 8] by (simp add: signed_cast_def)
next
  case 2
  then show ?thesis using assms(2) sint_ucast_signed_of [of v, where 'a = 16] by (simp add: signed_cast_def)
next
  case 3
  then show ?thesis using assms(2) sint_ucast_signed_of [of v, where 'a = 32] by (simp add: signed_cast_def)
next
  case 4
  then show ?thesis using assms(2) sint_ucast_signed_of [of v, where 'a = 64] by (simp add: signed_cast_def)
qed

lemma unat_of_signed_of:
  assumes "0 < n" "n \<le> 64" "a < 2 ^ n"
  shows "unat (word_of_int (signed_of n a) :: u64) mod 2 ^ n = a"
proof -
  have "uint (word_of_int (signed_of n a) :: u64) mod 2 ^ n = signed_of n a mod 2 ^ n"
  proof -
    have "(2 :: int) ^ n dvd 2 ^ 64" using assms(2) by (rule le_imp_power_dvd)
    moreover have "uint (word_of_int (signed_of n a) :: u64) = signed_of n a mod 2 ^ 64"
      by (simp add: uint_word_of_int)
    ultimately show ?thesis by (simp only: mod_mod_cancel)
  qed
  also have "\<dots> = int a"
    using assms(3) by (simp add: signed_of_def)
  finally have "int (unat (word_of_int (signed_of n a) :: u64) mod 2 ^ n) = int a"
    by (simp only: uint_nat zmod_int of_nat_power of_nat_numeral)
  then show ?thesis by (simp only: of_nat_eq_iff)
qed

lemma take_bit_add_nat:
  assumes "n \<le> 64"
  shows "unat (a + b :: u64) mod 2 ^ n = (unat a + unat b) mod 2 ^ n"
proof -
  have "(2 :: nat) ^ n dvd 2 ^ 64" using assms by (rule le_imp_power_dvd)
  moreover have "unat (a + b) = (unat a + unat b) mod 2 ^ 64" by (simp add: unat_word_ariths)
  ultimately show ?thesis by (simp only: mod_mod_cancel)
qed

lemma bitop_lt:
  fixes a b :: nat
  assumes "a < 2 ^ n" "b < 2 ^ n"
  shows "a AND b < 2 ^ n" "a OR b < 2 ^ n" "a XOR b < 2 ^ n"
  using assms by (simp_all flip: take_bit_nat_eq_self_iff)

lemma rmw_next_spec:
  assumes w: "atomic_width_ok w" and inc: "op \<in> {kInc, kDec} \<Longrightarrow> w = 4"
    and a: "unat a < 2 ^ (8 * unat w)" and b: "unat b < 2 ^ (8 * unat w)"
    and nxt: "rmw_next op w a b = Some nxt"
  shows "unat nxt mod 2 ^ (8 * unat w) = atomic_spec op (8 * unat w) (unat a) (unat b) c"
proof -
  let ?n = "8 * unat w"
  have n: "0 < ?n" "?n \<le> 64" using atomic_width_unat [OF w] by auto
  note sc = signed_cast_signed_of [OF w a] signed_cast_signed_of [OF w b]
  have small: "x < 2 ^ ?n \<Longrightarrow> x mod 2 ^ ?n = x" for x :: nat by simp
  have bits: "unat a AND unat b < 2 ^ ?n" "unat a OR unat b < 2 ^ ?n" "unat a XOR unat b < 2 ^ ?n"
    using bitop_lt [OF a b] by simp_all
  have u32: "unat (ucast a :: u32) = unat a" "unat (ucast b :: u32) = unat b" if "w = 4"
    using a b that by (simp_all add: unsigned_ucast_eq take_bit_nat_eq_self)
  show ?thesis
  proof (cases op)
    case kAdd
    then show ?thesis using nxt take_bit_add_nat [OF n(2), of a b] by (simp add: rmw_next_def atomic_spec_def)
  next
    case kInc
    with inc have w4: "w = 4" by simp
    have x: "(ucast b :: u32) \<le> ucast a \<longleftrightarrow> unat b \<le> unat a" by (simp add: word_le_nat_alt u32 [OF w4])
    have "unat (ucast a + 1 :: u32) = unat a + 1" if "unat a < unat b"
      using u32(1) [OF w4] that b w4 by (simp add: unat_word_ariths)
    then show ?thesis
      using nxt kInc b by (auto simp: rmw_next_def atomic_spec_def x w4 unsigned_ucast_eq take_bit_nat_eq_self Let_def)
  next
    case kDec
    with inc have w4: "w = 4" by simp
    have x: "(ucast a :: u32) > ucast b \<longleftrightarrow> unat a > unat b" "(ucast a :: u32) = 0 \<longleftrightarrow> unat a = 0"
      using u32 [OF w4] by (simp_all add: word_less_nat_alt word_unat_eq_iff)
    have "unat (ucast a - 1 :: u32) = unat a - 1" if "unat a \<noteq> 0"
      using u32(1) [OF w4] that by (simp add: unat_minus_one word_unat_eq_iff)
    then show ?thesis
      using nxt kDec a b u32 [OF w4]
      by (auto simp: rmw_next_def atomic_spec_def x w4 unsigned_ucast_eq unsigned_take_bit_eq take_bit_nat_eq_self Let_def)
  next
    case kMinSigned
    then show ?thesis
      using nxt unat_of_signed_of [OF n a] unat_of_signed_of [OF n b]
      by (auto simp: rmw_next_def atomic_spec_def sc min_def)
  next
    case kMaxSigned
    then show ?thesis
      using nxt unat_of_signed_of [OF n a] unat_of_signed_of [OF n b]
      by (auto simp: rmw_next_def atomic_spec_def sc max_def)
  qed (use nxt a b bits in \<open>auto simp: rmw_next_def atomic_spec_def small unsigned_and_eq unsigned_or_eq
        unsigned_xor_eq word_less_nat_alt min_def max_def\<close>)
qed

end
