(* ===== verification/Device_Memory_Safety.thy ===== *)
theory Device_Memory_Safety
  imports Device_Memory_Facts Atomic_Spec
begin

text \<open>
  The device allocator as a transition system: one rule per state-changing operation, with
  any arguments. Reachable allocators satisfy the invariant, allocations never change
  identity, address or size, and a released allocation stays released. On top of it: the
  exact effect of atomics, the isolation of typed accesses, and use-after-free detection.
\<close>

subsection \<open>Remaining operations keep the invariant\<close>

lemma live_by_id_Some:
  assumes "live_by_id i m = Some k"
  shows "k < length (ma_allocs m)" "al_id (ma_allocs m ! k) = i" "al_alive (ma_allocs m ! k)"
  using find_idx_SomeD [OF assms [unfolded live_by_id_def]] by simp_all

lemma contains_data:
  assumes "alloc_inv m" "k < length (ma_allocs m)" "contains (ma_allocs m ! k) off n"
  shows "unat off + unat n \<le> length (al_data (ma_allocs m ! k))"
  using alloc_inv_nth_ok [OF assms(1,2)] assms(3) by (simp add: alloc_ok_def contains_iff)

lemma alloc_inv_write_at [inv_intros]:
  assumes "alloc_inv m" "length src = unat n"
  shows "alloc_inv (snd (write_at i off src n m))"
  using assms contains_data [OF assms(1)] live_by_id_Some
  by (auto simp: write_at_def Let_def split: option.splits intro!: alloc_inv_set_data)

lemma atomic_rmw_outcome:
  obtains (rejected) e where "atomic_rmw i off w op opr m = (Inl e, m)"
  | (applied) k nxt where "live_by_id i m = Some k" "contains (ma_allocs m ! k) off w" "atomic_width_ok w"
      "op \<noteq> kCas" "op \<in> {kInc, kDec} \<Longrightarrow> w = 4"
      "rmw_next op w (bytes_u64 (read_range (unat off) (unat w) (al_data (ma_allocs m ! k))))
         (bytes_u64 (take (unat w) opr)) = Some nxt"
      "atomic_rmw i off w op opr m =
         (Inr (read_range (unat off) (unat w) (al_data (ma_allocs m ! k))),
          update_alloc k (set_data (unat off) (u64_bytes (unat w) nxt)) m)"
proof (cases "fst (atomic_rmw i off w op opr m)")
  case (Inl e)
  then have "atomic_rmw i off w op opr m = (Inl e, m)"
    by (auto simp: atomic_rmw_def Let_def split: if_splits option.splits)
  then show ?thesis by (rule rejected)
next
  case (Inr old)
  then have w: "atomic_width_ok w" "\<not> atomic_op_code kCount \<le> atomic_op_code op"
    and cas: "op \<noteq> kCas" and inc: "\<not> ((op = kInc \<or> op = kDec) \<and> w \<noteq> 4)"
    and ex: "\<exists>k. live_by_id i m = Some k \<and> contains (ma_allocs m ! k) off w \<and>
      (\<exists>nxt. rmw_next op w (bytes_u64 (read_range (unat off) (unat w) (al_data (ma_allocs m ! k))))
         (bytes_u64 (take (unat w) opr)) = Some nxt)"
    by (auto simp: atomic_rmw_def Let_def split: if_splits option.splits)
  from ex obtain k nxt where k: "live_by_id i m = Some k" "contains (ma_allocs m ! k) off w"
      "rmw_next op w (bytes_u64 (read_range (unat off) (unat w) (al_data (ma_allocs m ! k))))
         (bytes_u64 (take (unat w) opr)) = Some nxt"
    by blast
  show ?thesis
  proof (rule applied [OF k(1,2) w(1) cas _ k(3)])
    show "op \<in> {kInc, kDec} \<Longrightarrow> w = 4" using inc by auto
    show "atomic_rmw i off w op opr m =
         (Inr (read_range (unat off) (unat w) (al_data (ma_allocs m ! k))),
          update_alloc k (set_data (unat off) (u64_bytes (unat w) nxt)) m)"
      unfolding atomic_rmw_def Let_def using k w cas inc by simp
  qed
qed

lemma alloc_inv_atomic_rmw [inv_intros]:
  assumes "alloc_inv m"
  shows "alloc_inv (snd (atomic_rmw i off w op opr m))"
proof (cases rule: atomic_rmw_outcome [of i off w op opr m])
  case (applied k nxt)
  then show ?thesis
    using assms contains_data [OF assms, of k off w] live_by_id_Some [OF applied(1)]
    by (simp add: alloc_inv_set_data)
qed (simp add: assms)

lemma alloc_inv_memset [inv_intros]:
  assumes "alloc_inv m"
  shows "alloc_inv (snd (mem_memset p v n m))"
  using assms
proof (cases rule: resolve_range_cases [where p = p and len = n])
  case (ok i)
  then have "i < length (ma_allocs m)" by (simp add: accessible_def)
  with ok assms data_bounds [OF assms ok(1)] show ?thesis
    by (simp add: mem_memset_def alloc_inv_set_data)
qed (simp_all add: mem_memset_def assms)

lemma alloc_inv_copy [inv_intros]:
  assumes "alloc_inv m"
  shows "alloc_inv (snd (mem_copy d s n m))"
  using assms
proof (cases rule: resolve_range_cases [where p = d and len = n])
  case d: (ok i)
  from assms show ?thesis
  proof (cases rule: resolve_range_cases [where p = s and len = n])
    case s: (ok j)
    from d(1) have "i < length (ma_allocs m)" by (simp add: accessible_def)
    with d s assms data_bounds [OF assms d(1)] data_bounds [OF assms s(1)] show ?thesis
      by (simp add: mem_copy_def alloc_inv_set_data)
  qed (simp_all add: mem_copy_def d assms)
qed (simp_all add: mem_copy_def assms)

lemma resolve_typed_Inr:
  assumes inv: "alloc_inv m" and r: "resolve_typed (ma_allocs m) p n acc = Inr (i, off)"
  shows "accessible m p n i" "unat off = rel_off m i p" "al_space (ma_allocs m ! i) = da_space acc"
    "al_space (ma_allocs m ! i) \<in> {kShared, kLocal} \<Longrightarrow> da_domain acc = al_owner (ma_allocs m ! i)"
    "p mod da_alignment acc = 0" "is_pow2 (da_alignment acc)" "n = da_width acc"
proof -
  have f: "find_containing (ma_allocs m) p = Some i" and c: "contains (ma_allocs m ! i) (p - al_base (ma_allocs m ! i)) n"
    and off: "off = p - al_base (ma_allocs m ! i)"
    and rest: "al_space (ma_allocs m ! i) = da_space acc"
      "al_space (ma_allocs m ! i) \<in> {kShared, kLocal} \<Longrightarrow> da_domain acc = al_owner (ma_allocs m ! i)"
      "p mod da_alignment acc = 0" "is_pow2 (da_alignment acc)" "n = da_width acc"
    using r by (auto simp: resolve_typed_def Let_def is_pow2_def split: if_splits option.splits)
  have i: "i < length (ma_allocs m)" "holds_addr (ma_allocs m ! i) p"
    using f by (simp_all add: find_containing_iff [OF inv])
  show "accessible m p n i" "unat off = rel_off m i p"
    using i c by (auto simp: accessible_def contains_iff holds_addr_off off holds_addr_def)
  show "al_space (ma_allocs m ! i) = da_space acc"
    "al_space (ma_allocs m ! i) \<in> {kShared, kLocal} \<Longrightarrow> da_domain acc = al_owner (ma_allocs m ! i)"
    "p mod da_alignment acc = 0" "is_pow2 (da_alignment acc)" "n = da_width acc"
    by (fact rest)+
qed

lemma write_typed_success:
  assumes "alloc_inv m" "length src = unat n" "write_typed p src n acc m = (Inr (), m')"
  obtains i where "resolve_typed (ma_allocs m) p n acc = Inr (i, p - al_base (ma_allocs m ! i))"
    "accessible m p n i" "m' = update_alloc i (set_data (rel_off m i p) src) m"
    "check_kind_consistency True acc = Inr ()"
proof -
  obtain i off where r: "resolve_typed (ma_allocs m) p n acc = Inr (i, off)"
    and m': "m' = update_alloc i (set_data (unat off) (take (unat n) src)) m"
    and k: "check_kind_consistency True acc = Inr ()"
    using assms(3) by (auto simp: write_typed_def split: sum.splits)
  have "off = p - al_base (ma_allocs m ! i)"
    using r by (auto simp: resolve_typed_def Let_def split: if_splits option.splits)
  with r m' k resolve_typed_Inr(1,2) [OF assms(1) r] assms(2) show ?thesis by (intro that) simp_all
qed

lemma write_typed_fail: "write_typed p src n acc m = (Inl e, m') \<Longrightarrow> m' = m"
  by (auto simp: write_typed_def split: sum.splits)

lemma alloc_inv_write_typed [inv_intros]:
  assumes "alloc_inv m" "length src = unat n"
  shows "alloc_inv (snd (write_typed p src n acc m))"
proof (cases "write_typed p src n acc m")
  case (Pair r m')
  show ?thesis
  proof (cases r)
    case (Inl e)
    with Pair assms(1) show ?thesis using write_typed_fail by fastforce
  next
    case (Inr u)
    with Pair obtain i where i: "accessible m p n i" "m' = update_alloc i (set_data (rel_off m i p) src) m"
      using write_typed_success [OF assms, of p acc m'] by auto
    moreover have "i < length (ma_allocs m)" using i(1) by (simp add: accessible_def)
    ultimately show ?thesis
      using Pair assms data_bounds [OF assms(1) i(1)] by (simp add: alloc_inv_set_data)
  qed
qed

subsection \<open>The transition system\<close>

inductive mem_step :: "MemoryAllocator \<Rightarrow> MemoryAllocator \<Rightarrow> bool" where
  step_allocate: "mem_step m (snd (allocate sp sz al ow m))"
| step_free: "mem_step m (snd (free_ptr p m))"
| step_free_id: "mem_step m (snd (free_id i m))"
| step_free_domain: "mem_step m (snd (free_domain ow m))"
| step_write_at: "length src = unat n \<Longrightarrow> mem_step m (snd (write_at i off src n m))"
| step_atomic: "mem_step m (snd (atomic_rmw i off w op opr m))"
| step_write: "length src = unat n \<Longrightarrow> mem_step m (snd (mem_write p src n m))"
| step_memset: "mem_step m (snd (mem_memset p v n m))"
| step_copy: "mem_step m (snd (mem_copy d s n m))"
| step_write_typed: "length src = unat n \<Longrightarrow> mem_step m (snd (write_typed p src n acc m))"

inductive mem_reachable :: "u64 \<Rightarrow> MemoryAllocator \<Rightarrow> bool" for base where
  reach_new: "mem_reachable base (new_allocator base)"
| reach_step: "mem_reachable base m \<Longrightarrow> mem_step m m' \<Longrightarrow> mem_reachable base m'"

lemma mem_step_inv: "mem_step m m' \<Longrightarrow> alloc_inv m \<Longrightarrow> alloc_inv m'"
  by (induction rule: mem_step.induct)
    (auto intro: alloc_inv_allocate alloc_inv_free_ptr alloc_inv_free_id alloc_inv_free_domain
      alloc_inv_write_at alloc_inv_atomic_rmw alloc_inv_mem_write alloc_inv_memset alloc_inv_copy
      alloc_inv_write_typed)

lemma mem_reachable_inv: "mem_reachable base m \<Longrightarrow> alloc_inv m"
  by (induction rule: mem_reachable.induct) (auto simp: alloc_inv_new intro: mem_step_inv)

text \<open>What no step may change in an allocation that exists already.\<close>

definition keeps_identity :: "MemoryAllocator \<Rightarrow> MemoryAllocator \<Rightarrow> bool" where
  "keeps_identity m m' \<longleftrightarrow>
     length (ma_allocs m) \<le> length (ma_allocs m') \<and>
     (\<forall>i < length (ma_allocs m).
        al_id (ma_allocs m' ! i) = al_id (ma_allocs m ! i) \<and>
        al_base (ma_allocs m' ! i) = al_base (ma_allocs m ! i) \<and>
        al_size (ma_allocs m' ! i) = al_size (ma_allocs m ! i) \<and>
        al_space (ma_allocs m' ! i) = al_space (ma_allocs m ! i) \<and>
        al_owner (ma_allocs m' ! i) = al_owner (ma_allocs m ! i) \<and>
        (al_alive (ma_allocs m' ! i) \<longrightarrow> al_alive (ma_allocs m ! i)))"

lemma keeps_identity_refl [simp]: "keeps_identity m m"
  by (simp add: keeps_identity_def)

lemma keeps_identity_trans: "keeps_identity a b \<Longrightarrow> keeps_identity b c \<Longrightarrow> keeps_identity a c"
  by (auto simp: keeps_identity_def)

lemma keeps_identity_update:
  assumes "\<And>a. al_id (f a) = al_id a \<and> al_base (f a) = al_base a \<and> al_size (f a) = al_size a \<and>
      al_space (f a) = al_space a \<and> al_owner (f a) = al_owner a \<and> (al_alive (f a) \<longrightarrow> al_alive a)"
  shows "keeps_identity m (update_alloc i f m)"
proof -
  have "(ma_allocs m)[i := f (ma_allocs m ! i)] ! k \<in> {f (ma_allocs m ! k), ma_allocs m ! k}"
    if "k < length (ma_allocs m)" for k
    using that by (cases "k = i") auto
  then show ?thesis
    unfolding keeps_identity_def update_alloc_def using assms by fastforce
qed

lemma keeps_identity_set_data: "keeps_identity m (update_alloc i (set_data off bs) m)"
  by (rule keeps_identity_update) (simp add: set_data_def)

lemma mem_step_keeps_identity: "mem_step m m' \<Longrightarrow> keeps_identity m m'"
proof (induction rule: mem_step.induct)
  case (step_allocate m sp sz al ow)
  then show ?case by (auto simp: allocate_def Let_def keeps_identity_def nth_append)
next
  case (step_free_domain m ow)
  then show ?case by (auto simp: free_domain_def Let_def keeps_identity_def)
next
  case (step_free m p)
  then show ?case by (auto simp: free_ptr_def split: option.splits intro!: keeps_identity_update)
next
  case (step_free_id m i)
  then show ?case by (auto simp: free_id_def free_ptr_def split: option.splits intro!: keeps_identity_update)
qed (auto simp: write_at_def atomic_rmw_def mem_write_def mem_memset_def mem_copy_def write_typed_def Let_def
      split: option.splits sum.splits intro: keeps_identity_set_data)

lemma mem_steps_keep_identity: "mem_step\<^sup>*\<^sup>* m m' \<Longrightarrow> keeps_identity m m'"
  by (induction rule: rtranclp_induct) (auto intro: keeps_identity_trans mem_step_keeps_identity)

lemma mem_steps_reachable: "mem_step\<^sup>*\<^sup>* m m' \<Longrightarrow> mem_reachable base m \<Longrightarrow> mem_reachable base m'"
  by (induction rule: rtranclp_induct) (auto intro: reach_step)

lemma alloc_inv_disjoint:
  assumes "alloc_inv m" "i < length (ma_allocs m)" "j < length (ma_allocs m)" "i \<noteq> j"
  shows "ranges_disjoint (al_base (ma_allocs m ! i)) (al_size (ma_allocs m ! i))
           (al_base (ma_allocs m ! j)) (al_size (ma_allocs m ! j))"
  using assms alloc_inv_before [OF assms(1), of i j] alloc_inv_before [OF assms(1), of j i]
  by (cases "i < j") (auto simp: before_def ranges_disjoint_def)

lemma find_containing_released:
  assumes inv: "alloc_inv m" and i: "i < length (ma_allocs m)" "\<not> al_alive (ma_allocs m ! i)"
    and va: "unat (al_base (ma_allocs m ! i)) \<le> unat va"
      "unat va < unat (al_base (ma_allocs m ! i)) + unat (al_size (ma_allocs m ! i))"
  shows "find_containing (ma_allocs m) va = None"
proof (rule ccontr)
  assume "find_containing (ma_allocs m) va \<noteq> None"
  then obtain j where j: "j < length (ma_allocs m)" "holds_addr (ma_allocs m ! j) va"
    using find_containing_iff [OF inv] by blast
  then have "j \<noteq> i" using i(2) by (auto simp: holds_addr_def)
  then show False
    using alloc_inv_disjoint [OF inv i(1) j(1)] j(2) va by (auto simp: holds_addr_def ranges_disjoint_def)
qed

lemma free_ptr_success:
  assumes "free_ptr p m = (Inr (), m')"
  obtains i where "find_idx (\<lambda>a. al_base a = p) (ma_allocs m) = Some i" "i < length (ma_allocs m)"
    "al_base (ma_allocs m ! i) = p" "al_alive (ma_allocs m ! i)"
    "m' = update_alloc i (\<lambda>a. a\<lparr>al_alive := False\<rparr>) m"
proof -
  obtain i where i: "find_idx (\<lambda>a. al_base a = p) (ma_allocs m) = Some i" "al_alive (ma_allocs m ! i)"
    "m' = update_alloc i (\<lambda>a. a\<lparr>al_alive := False\<rparr>) m"
    using assms by (auto simp: free_ptr_def split: option.splits if_splits)
  with find_idx_SomeD [OF i(1)] show ?thesis using that by blast
qed

lemma base_index_unique:
  assumes "alloc_inv m" "i < length (ma_allocs m)"
  shows "find_idx (\<lambda>a. al_base a = al_base (ma_allocs m ! i)) (ma_allocs m) = Some i"
proof (rule find_idx_unique)
  show "j = i" if "j < length (ma_allocs m)" "al_base (ma_allocs m ! j) = al_base (ma_allocs m ! i)" for j
    using that assms alloc_inv_base_mono [OF assms(1), of i j] alloc_inv_base_mono [OF assms(1), of j i]
    by (metis linorder_neqE_nat word_order.not_eq_extremum order_less_irrefl)
qed (use assms in auto)

subsection \<open>Properties of reachable allocators\<close>

text \<open>C29: In every allocator reachable by any sequence of operations, distinct allocations have
  distinct identifiers and occupy disjoint byte ranges, and none wraps around the 64-bit space.\<close>

theorem reachable_allocations_disjoint:
  assumes "mem_reachable base m"
    and "i < length (ma_allocs m)" "j < length (ma_allocs m)" "i \<noteq> j"
  shows "al_id (ma_allocs m ! i) \<noteq> al_id (ma_allocs m ! j) \<and>
    unat (al_base (ma_allocs m ! i)) + unat (al_size (ma_allocs m ! i)) < 2 ^ 64 \<and>
    ranges_disjoint (al_base (ma_allocs m ! i)) (al_size (ma_allocs m ! i))
      (al_base (ma_allocs m ! j)) (al_size (ma_allocs m ! j))"
proof -
  note inv = mem_reachable_inv [OF assms(1)]
  have "al_id (ma_allocs m ! i) \<noteq> al_id (ma_allocs m ! j)"
    using alloc_inv_id [OF inv assms(2)] alloc_inv_id [OF inv assms(3)] assms(4) by auto
  moreover have "unat (al_base (ma_allocs m ! i)) + unat (al_size (ma_allocs m ! i)) < 2 ^ 64"
    using alloc_inv_nth_ok [OF inv assms(2)] unat_lt_u64 [of "ma_cursor m"] by (simp add: alloc_ok_def)
  ultimately show ?thesis using alloc_inv_disjoint [OF inv assms(2-4)] by simp
qed

text \<open>C30: The binary search for the allocation holding an address returns exactly what a linear
  scan for a live allocation covering the address returns.\<close>

theorem find_containing_is_linear_scan:
  assumes "mem_reachable base m"
  shows "find_containing (ma_allocs m) va = find_idx (\<lambda>a. holds_addr a va) (ma_allocs m)"
proof (cases "find_idx (\<lambda>a. holds_addr a va) (ma_allocs m)")
  case None
  then have "find_containing (ma_allocs m) va = None"
    using find_containing_None [OF mem_reachable_inv [OF assms]] by (simp add: find_idx_None)
  with None show ?thesis by simp
next
  case (Some i)
  then show ?thesis
    using find_containing_iff [OF mem_reachable_inv [OF assms]] find_idx_SomeD [OF Some] by simp
qed

text \<open>C31: After a successful free, however the allocator is used afterwards, a read at any
  address of the released allocation fails as a bad address and a second free fails as a
  lifecycle error: addresses are never recycled.\<close>

theorem freed_memory_stays_freed:
  assumes "mem_reachable base m" "free_ptr p m = (Inr (), m1)" "mem_step\<^sup>*\<^sup>* m1 m2"
    and "a \<in> set (ma_allocs m)" "al_base a = p" "unat p \<le> unat va" "unat va < unat p + unat (al_size a)"
  shows "fails_with (mem_read va n m2) kBadAddress \<and> fails_with (fst (free_ptr p m2)) kLifecycle"
proof -
  note inv = mem_reachable_inv [OF assms(1)]
  from assms(2) obtain i where i: "find_idx (\<lambda>a. al_base a = p) (ma_allocs m) = Some i"
      "i < length (ma_allocs m)" "al_base (ma_allocs m ! i) = p"
      "m1 = update_alloc i (\<lambda>a. a\<lparr>al_alive := False\<rparr>) m"
    by (rule free_ptr_success)
  have r1: "mem_reachable base m1" using assms(1,2) reach_step step_free [of m p] by fastforce
  have inv2: "alloc_inv m2" using mem_reachable_inv [OF mem_steps_reachable [OF assms(3) r1]] .
  obtain k where "k < length (ma_allocs m)" "ma_allocs m ! k = a"
    using assms(4) by (auto simp: in_set_conv_nth)
  with base_index_unique [OF inv] assms(5) i(1) have a: "a = ma_allocs m ! i" by fastforce
  have kept: "i < length (ma_allocs m2)" "al_base (ma_allocs m2 ! i) = p" "al_size (ma_allocs m2 ! i) = al_size a"
      "\<not> al_alive (ma_allocs m2 ! i)"
    using mem_steps_keep_identity [OF assms(3)] i a by (auto simp: keeps_identity_def update_alloc_def)
  have "find_containing (ma_allocs m2) va = None"
    using find_containing_released [OF inv2 kept(1,4)] kept assms(6,7) by simp
  moreover have "find_idx (\<lambda>a. al_base a = p) (ma_allocs m2) = Some i"
    using base_index_unique [OF inv2 kept(1)] kept(2) by simp
  ultimately show ?thesis
    using kept(4) by (simp add: mem_read_def resolve_range_def free_ptr_def)
qed

subsection \<open>A concrete run, for the witnesses\<close>

definition demo0 :: MemoryAllocator where
  "demo0 = new_allocator kDefaultBase"

definition demo1 :: MemoryAllocator where
  "demo1 = snd (allocate kGlobal 8 16 ''context'' demo0)"

definition demo2 :: MemoryAllocator where
  "demo2 = snd (allocate kShared 4 0 ''cta:0'' demo1)"

lemma demo_reachable:
  "mem_reachable kDefaultBase demo0" "mem_reachable kDefaultBase demo1" "mem_reachable kDefaultBase demo2"
proof -
  show 0: "mem_reachable kDefaultBase demo0" unfolding demo0_def by (rule reach_new)
  show 1: "mem_reachable kDefaultBase demo1" unfolding demo1_def by (rule reach_step [OF 0 step_allocate])
  show "mem_reachable kDefaultBase demo2" unfolding demo2_def by (rule reach_step [OF 1 step_allocate])
qed

lemma demo1_eq: "demo1 = \<lparr>ma_allocs = [\<lparr>al_id = 1, al_space = kGlobal, al_base = 0x10000, al_size = 8,
    al_align = 16, al_alive = True, al_label = [], al_owner = ''context'', al_data = replicate 8 0\<rparr>],
    ma_next_id = 2, ma_cursor = 0x10008\<rparr>"
  by (simp add: demo1_def demo0_def new_allocator_def kDefaultBase_def allocate_def Let_def align_up_def
      is_pow2_def word_le_nat_alt)

lemma demo2_eq: "demo2 = \<lparr>ma_allocs = [\<lparr>al_id = 1, al_space = kGlobal, al_base = 0x10000, al_size = 8,
    al_align = 16, al_alive = True, al_label = [], al_owner = ''context'', al_data = replicate 8 0\<rparr>,
      \<lparr>al_id = 2, al_space = kShared, al_base = 0x10010, al_size = 4,
    al_align = 16, al_alive = True, al_label = [], al_owner = ''cta:0'', al_data = replicate 4 0\<rparr>],
    ma_next_id = 3, ma_cursor = 0x10014\<rparr>"
  by (simp add: demo2_def demo1_eq allocate_def Let_def align_up_def is_pow2_def word_le_nat_alt)

theorem reachable_allocations_disjoint_witness:
  "al_id (ma_allocs demo2 ! 0) \<noteq> al_id (ma_allocs demo2 ! 1) \<and>
   ranges_disjoint (al_base (ma_allocs demo2 ! 0)) (al_size (ma_allocs demo2 ! 0))
     (al_base (ma_allocs demo2 ! 1)) (al_size (ma_allocs demo2 ! 1))"
  using reachable_allocations_disjoint [OF demo_reachable(3), where i = 0 and j = 1] by (simp add: demo2_eq)

theorem find_containing_is_linear_scan_witness:
  "find_containing (ma_allocs demo2) 0x10012 = Some 1"
  using find_containing_is_linear_scan [OF demo_reachable(3), where va = "0x10012"]
  by (simp add: demo2_eq holds_addr_def)

theorem freed_memory_stays_freed_witness:
  "fails_with (mem_read 0x10004 2 (snd (free_ptr 0x10000 demo2))) kBadAddress \<and>
   fails_with (fst (free_ptr 0x10000 (snd (free_ptr 0x10000 demo2)))) kLifecycle"
proof -
  have "free_ptr 0x10000 demo2 = (Inr (), snd (free_ptr 0x10000 demo2))"
    by (simp add: free_ptr_def demo2_eq)
  from freed_memory_stays_freed [OF demo_reachable(3) this rtranclp.rtrancl_refl, of "ma_allocs demo2 ! 0" "0x10004" 2]
  show ?thesis by (simp add: demo2_eq)
qed

subsection \<open>What allocation and access compute\<close>

lemma is_pow2_iff: "is_pow2 v \<longleftrightarrow> (\<exists>k. unat v = 2 ^ k)"
proof
  assume "is_pow2 v"
  then show "\<exists>k. unat v = 2 ^ k" using is_pow2_power by blast
next
  assume "\<exists>k. unat v = 2 ^ k"
  then obtain k where k: "unat v = 2 ^ k" ..
  then have "k < 64" using unat_lt_u64 [of v] by (metis nat_power_less_imp_less zero_less_numeral)
  then have "unat (v AND NOT (v - 1)) = unat v"
    using and_not_mask_nat [OF k] k by simp
  then have "v AND NOT (v - 1) = v" by (simp only: word_unat_eq_iff)
  moreover have "(v AND NOT (v - 1)) AND (v - 1) = 0" by (simp add: and.assoc)
  moreover have "v \<noteq> 0" using k by (metis unat_0 power_not_zero zero_neq_numeral)
  ultimately show "is_pow2 v" by (simp add: is_pow2_def)
qed

lemma align_up_fits:
  assumes "is_pow2 al" "16 \<le> al"
  shows "\<not> align_up c al < c \<longleftrightarrow> unat c + unat al - 1 < 2 ^ 64"
proof (cases "unat c + unat al - 1 < 2 ^ 64")
  case True
  then show ?thesis using align_up_spec(1) [OF assms True] by (simp add: word_less_nat_alt)
next
  case False
  moreover have "c \<noteq> 0" using False unat_lt_u64 [of al] by auto
  ultimately show ?thesis
    using align_up_spec(2) [OF assms, of c] by (simp add: word_neq_0_conv)
qed

text \<open>Allocation succeeds exactly for a non-zero size, a power-of-two (or zero) alignment and
  an aligned start whose end stays below \<open>2^64\<close>; the three ways to fail carry their error
  codes; failure changes nothing.\<close>

theorem allocate_outcome:
  "let (r, m') = allocate sp sz al ow m;
       bad_arg = (sz = 0 \<or> (al \<noteq> 0 \<and> (\<forall>k. unat al \<noteq> 2 ^ k)));
       A = max (unat al) 16;
       start = (unat (ma_cursor m) + A - 1) div A * A
   in (bad_arg \<longrightarrow> fails_with r kInvalidArgument \<and> m' = m) \<and>
      (\<not> bad_arg \<and> (unat (ma_cursor m) + A - 1 \<ge> 2 ^ 64 \<or> start + unat sz \<ge> 2 ^ 64) \<longrightarrow>
         fails_with r kOutOfMemory \<and> m' = m) \<and>
      (\<not> bad_arg \<and> unat (ma_cursor m) + A - 1 < 2 ^ 64 \<and> start + unat sz < 2 ^ 64 \<longrightarrow>
         r = Inr (word_of_nat start))"
proof -
  define eff where "eff = max al 16"
  have A: "max (unat al) 16 = unat eff" by (auto simp: eff_def max_def word_le_nat_alt)
  have badiff: "al \<noteq> 0 \<and> \<not> is_pow2 al \<longleftrightarrow> al \<noteq> 0 \<and> (\<forall>k. unat al \<noteq> 2 ^ k)"
    by (auto simp: is_pow2_iff)
  show ?thesis
  proof (cases "sz = 0 \<or> (al \<noteq> 0 \<and> \<not> is_pow2 al)")
    case True
    then show ?thesis using badiff by (auto simp: allocate_def Let_def)
  next
    case False
    then have eff: "is_pow2 eff" "16 \<le> eff" using eff_align_ok [of al] by (auto simp: eff_def)
    have fits: "align_up (ma_cursor m) eff < ma_cursor m \<longleftrightarrow> \<not> unat (ma_cursor m) + unat eff - 1 < 2 ^ 64"
      using align_up_fits [OF eff, of "ma_cursor m"] by blast
    have start: "unat (align_up (ma_cursor m) eff) = (unat (ma_cursor m) + unat eff - 1) div unat eff * unat eff"
      if "unat (ma_cursor m) + unat eff - 1 < 2 ^ 64"
      using align_up_value [OF eff that] .
    have room: "sz > UINT64_MAX - align_up (ma_cursor m) eff \<longleftrightarrow>
        \<not> unat (align_up (ma_cursor m) eff) + unat sz < 2 ^ 64"
      using le_UINT64_MAX_minus [of sz "align_up (ma_cursor m) eff"] by (auto simp: add.commute)
    have word: "word_of_nat (unat (align_up (ma_cursor m) eff)) = align_up (ma_cursor m) eff" by simp
    show ?thesis
    proof (cases "unat (ma_cursor m) + unat eff - 1 < 2 ^ 64")
      case True
      show ?thesis
        using False badiff fits True room
        by (simp only: allocate_def Let_def eff_def [symmetric] A start [OF True, symmetric] word
            prod.case if_False split: if_split) auto
    next
      case no: False
      show ?thesis
        using False badiff fits no
        by (simp only: allocate_def Let_def eff_def [symmetric] A prod.case if_False split: if_split) auto
    qed
  qed
qed

theorem allocate_outcome_witness:
  "fst (allocate kGlobal 100 64 ''context'' demo1) = Inr 0x10040"
proof -
  have "\<not> (\<forall>k. (64::nat) \<noteq> 2 ^ k)"
    by (simp, rule exI [of _ 6]) simp
  then show ?thesis
    using allocate_outcome [of kGlobal 100 64 "''context''" demo1]
    by (simp add: demo1_eq Let_def case_prod_beta)
qed

lemma accessible_allocate:
  assumes "alloc_inv m" "allocate sp sz al ow m = (Inr p, m')"
  shows "accessible m q k i \<Longrightarrow> accessible m' q k i \<and> ma_allocs m' ! i = ma_allocs m ! i"
    and "accessible m' p sz (length (ma_allocs m))"
proof -
  note R = allocate_result [OF assms(2)] and S = allocate_success [OF assms(2)]
  show "accessible m q k i \<Longrightarrow> accessible m' q k i \<and> ma_allocs m' ! i = ma_allocs m ! i"
    by (auto simp: accessible_def R nth_append)
  show "accessible m' p sz (length (ma_allocs m))"
    using S(1) by (simp add: accessible_def R holds_addr_def word_less_nat_alt)
qed

text \<open>A successful allocation returns an address aligned as requested (at least to 16), whose
  bytes read as zero, disjoint from every earlier allocation, and every range readable before
  still reads the same.\<close>

theorem allocate_fresh_zeroed:
  assumes "mem_reachable base m" "allocate sp sz al ow m = (Inr p, m')"
  shows "max (unat al) 16 dvd unat p \<and> mem_read p sz m' = Inr (replicate (unat sz) 0) \<and>
    (\<forall>a \<in> set (ma_allocs m). ranges_disjoint (al_base a) (al_size a) p sz) \<and>
    (\<forall>q k bs. mem_read q k m = Inr bs \<longrightarrow> mem_read q k m' = Inr bs)"
proof (intro conjI ballI allI impI)
  note inv = mem_reachable_inv [OF assms(1)]
  note R = allocate_result [OF assms(2)] and S = allocate_success [OF assms(2)]
  have inv': "alloc_inv m'" using alloc_inv_allocate [OF inv, of sp sz al ow] assms(2) by simp
  show "max (unat al) 16 dvd unat p"
    using S(3) by (cases "al \<le> 16") (auto simp: max_def word_le_nat_alt split: if_splits)
  show "mem_read p sz m' = Inr (replicate (unat sz) 0)"
    using mem_read_accessible [OF inv' accessible_allocate(2) [OF inv assms(2)]]
    by (simp add: R read_range_def)
  show "ranges_disjoint (al_base a) (al_size a) p sz" if "a \<in> set (ma_allocs m)" for a
    using inv that S(2) by (fastforce simp: alloc_inv_def alloc_ok_def ranges_disjoint_def)
  show "mem_read q k m' = Inr bs" if r: "mem_read q k m = Inr bs" for q k bs
  proof -
    obtain i where i: "accessible m q k i" using mem_read_Inr_iff [OF inv] r by blast
    show ?thesis
      using r accessible_allocate(1) [OF inv assms(2) i] mem_read_accessible [OF inv i]
        mem_read_accessible [OF inv', of q k i] by simp
  qed
qed

theorem allocate_fresh_zeroed_witness:
  "mem_read 0x10010 4 demo2 = Inr (replicate 4 0)"
proof -
  have "allocate kShared 4 0 ''cta:0'' demo1 = (Inr 0x10010, demo2)"
    by (simp add: demo2_def demo1_eq allocate_def Let_def align_up_def is_pow2_def word_le_nat_alt)
  from allocate_fresh_zeroed [OF demo_reachable(2) this] show ?thesis by simp
qed

text \<open>After a successful host write, the written range reads back exactly as written and every
  disjoint range reads as before, including the failures.\<close>

theorem host_write_then_read:
  assumes "mem_reachable base m" "length src = unat n" "fst (mem_write p src n m) = Inr ()"
  shows "mem_read p n (snd (mem_write p src n m)) = Inr src \<and>
    (\<forall>q k. ranges_disjoint p n q k \<longrightarrow> mem_read q k (snd (mem_write p src n m)) = mem_read q k m)"
  using host.load_after_store [OF mem_reachable_inv [OF assms(1)] assms(2,3)]
    host.load_disjoint [OF mem_reachable_inv [OF assms(1)] assms(2)] by blast

theorem host_write_then_read_witness:
  "mem_read 0x10002 3 (snd (mem_write 0x10002 [7, 8, 9] 3 demo2)) = Inr [7, 8, 9]"
proof -
  have "accessible demo2 0x10002 3 0" by (simp add: accessible_def demo2_eq holds_addr_def)
  then have "fst (mem_write 0x10002 [7, 8, 9] 3 demo2) = Inr ()"
    using mem_write_accessible [OF mem_reachable_inv [OF demo_reachable(3)]] by simp
  with host_write_then_read [OF demo_reachable(3), of "[7, 8, 9]" 3 "0x10002"] show ?thesis by simp
qed

text \<open>A typed store that succeeds is aligned, goes through a store or atomic descriptor, stays
  inside one live allocation of the requested address space, and for shared or local memory
  comes from the owning domain; every other allocation keeps its bytes.\<close>

theorem typed_store_isolated:
  assumes "mem_reachable base m" "length src = unat n" "write_typed p src n acc m = (Inr (), m')"
  shows "\<exists>i. accessible m p n i \<and> al_space (ma_allocs m ! i) = da_space acc \<and>
    (da_space acc \<in> {kShared, kLocal} \<longrightarrow> da_domain acc = al_owner (ma_allocs m ! i)) \<and>
    da_kind acc \<in> {kStore, kAtomic} \<and> unat (da_alignment acc) dvd unat p \<and>
    (\<forall>j < length (ma_allocs m). j \<noteq> i \<longrightarrow> ma_allocs m' ! j = ma_allocs m ! j) \<and>
    mem_read p n m' = Inr src"
proof -
  note inv = mem_reachable_inv [OF assms(1)]
  from inv assms(2,3) obtain i where i: "resolve_typed (ma_allocs m) p n acc = Inr (i, p - al_base (ma_allocs m ! i))"
      "accessible m p n i" "m' = update_alloc i (set_data (rel_off m i p) src) m"
      "check_kind_consistency True acc = Inr ()"
    by (rule write_typed_success)
  note T = resolve_typed_Inr [OF inv i(1)]
  have "da_kind acc \<in> {kStore, kAtomic}"
    using i(4) by (auto simp: check_kind_consistency_def split: AccessKind.splits if_splits)
  moreover have "unat (da_alignment acc) dvd unat p"
    using T(5) by (simp add: word_unat_eq_iff unat_mod mod_eq_0_iff_dvd)
  moreover have "mem_read p n m' = Inr src"
    using mem_read_after_write [OF inv assms(2), of p] mem_write_accessible [OF inv i(2), of src] i(3) assms(2)
    by simp
  ultimately show ?thesis
    using i(2,3) T(3,4) by (intro exI [of _ i]) (simp add: update_alloc_def)
qed

definition demo_access :: DeviceAccess where
  "demo_access = \<lparr>da_width = 4, da_alignment = 4, da_space = kShared, da_kind = kStore, da_domain = ''cta:0''\<rparr>"

lemma find_containing_demo2: "find_containing (ma_allocs demo2) 0x10010 = Some 1"
  by (simp add: find_containing_iff [OF mem_reachable_inv [OF demo_reachable(3)]] holds_addr_def) (simp add: demo2_eq)

theorem typed_store_isolated_witness:
  "\<exists>i. accessible demo2 0x10010 4 i \<and> al_owner (ma_allocs demo2 ! i) = ''cta:0''"
proof -
  have "fst (write_typed 0x10010 [1, 2, 3, 4] 4 demo_access demo2) = Inr ()"
    by (simp add: write_typed_def check_kind_consistency_def resolve_typed_def demo_access_def Let_def
        find_containing_demo2 [unfolded demo2_eq MemoryAllocator.simps] demo2_eq contains_iff)
  then have "write_typed 0x10010 [1, 2, 3, 4] 4 demo_access demo2 =
      (Inr (), snd (write_typed 0x10010 [1, 2, 3, 4] 4 demo_access demo2))"
    by (metis prod.collapse)
  from typed_store_isolated [OF demo_reachable(3) _ this] show ?thesis by (auto simp: demo_access_def)
qed

subsection \<open>Atomics and pointer arithmetic\<close>

lemma live_by_id_set_data [simp]:
  "live_by_id j (update_alloc k (set_data off bs) m) = live_by_id j m"
  by (simp add: live_by_id_def update_alloc_def set_data_def find_idx_list_update)

lemma live_by_id_same: "live_by_id i m = Some k \<Longrightarrow> live_by_id j m = Some k \<Longrightarrow> i = j"
  using live_by_id_Some by (metis)

lemma read_at_live:
  "live_by_id i m = Some k \<Longrightarrow> read_at i off n m =
     (if contains (ma_allocs m ! k) off n then Inr (read_range (unat off) (unat n) (al_data (ma_allocs m ! k)))
      else Inl (at_oob_error ''read'' '' len '' off n i (al_size (ma_allocs m ! k))))"
  by (simp add: read_at_def Let_def)

lemma nth_update_alloc:
  "k < length (ma_allocs m) \<Longrightarrow>
   ma_allocs (update_alloc k f m) ! j = (if j = k then f (ma_allocs m ! k) else ma_allocs m ! j)"
  by (simp add: update_alloc_def nth_list_update)

lemma contains_set_data [simp]: "contains (set_data o1 bs a) off n = contains a off n"
  by (simp add: contains_def set_data_def)

lemma read_at_set_data_other:
  assumes "alloc_inv m" "live_by_id i m = Some k" "contains (ma_allocs m ! k) off (word_of_nat (length bs))"
    "length bs < 2 ^ 64" "j \<noteq> i \<or> ranges_disjoint off (word_of_nat (length bs)) off' n"
  shows "read_at j off' n (update_alloc k (set_data (unat off) bs) m) = read_at j off' n m"
proof (cases "live_by_id j m")
  case None
  then show ?thesis by (simp add: read_at_def)
next
  case (Some k')
  note k = live_by_id_Some [OF assms(2)] and k' = live_by_id_Some [OF Some]
  have room: "unat off + length bs \<le> length (al_data (ma_allocs m ! k))"
    using contains_data [OF assms(1), of k off "word_of_nat (length bs)"] k assms(3,4) by (simp add: unat_of_nat_u64)
  show ?thesis
  proof (cases "k' = k")
    case True
    then have "ranges_disjoint off (word_of_nat (length bs)) off' n"
      using assms(2,5) Some live_by_id_same by blast
    then have dis: "unat off' + unat n \<le> unat off \<or> unat off + length bs \<le> unat off'"
      using assms(4) by (auto simp: ranges_disjoint_def unat_of_nat_u64)
    have "unat off' + unat n \<le> length (al_data (ma_allocs m ! k))" if "contains (ma_allocs m ! k) off' n"
      using contains_data [OF assms(1), of k off' n] k that by simp
    then show ?thesis
      using Some True k room dis
      by (simp add: read_at_live nth_update_alloc) (auto simp: set_data_def read_write_disjoint)
  next
    case False
    then show ?thesis
      using Some k k' by (simp add: read_at_live nth_update_alloc)
  qed
qed

text \<open>An atomic read-modify-write on the allocator that succeeds returns the old bytes, leaves in
  their place the value the reference semantics of the operation gives for that width, and
  changes no other byte of any allocation.\<close>

theorem atomic_rmw_effect:
  assumes "mem_reachable base m" "length opr = unat w" "atomic_rmw i off w op opr m = (Inr old, m')"
  shows "read_at i off w m = Inr old \<and>
    (\<exists>new. read_at i off w m' = Inr new \<and>
       unat (bytes_u64 new) = atomic_spec op (8 * unat w) (unat (bytes_u64 old)) (unat (bytes_u64 opr)) 0) \<and>
    (\<forall>j off' n. j \<noteq> i \<or> ranges_disjoint off w off' n \<longrightarrow> read_at j off' n m' = read_at j off' n m)"
proof (cases rule: atomic_rmw_outcome [of i off w op opr m])
  case (rejected e)
  then show ?thesis using assms(3) by simp
next
  case (applied k nxt)
  note inv = mem_reachable_inv [OF assms(1)]
  note k = live_by_id_Some [OF applied(1)]
  let ?new = "u64_bytes (unat w) nxt"
  have old: "old = read_range (unat off) (unat w) (al_data (ma_allocs m ! k))"
    and m': "m' = update_alloc k (set_data (unat off) ?new) m"
    using applied(7) assms(3) by simp_all
  have room: "unat off + unat w \<le> length (al_data (ma_allocs m ! k))"
    using contains_data [OF inv, of k off w] k applied(2) by simp
  have w8: "unat w \<le> 8" using atomic_width_unat [OF applied(3)] by auto
  have old_len: "length old = unat w" using room old by simp
  have "unat (bytes_u64 ?new) = atomic_spec op (8 * unat w) (unat (bytes_u64 old)) (unat (bytes_u64 opr)) 0"
    using rmw_next_spec [OF applied(3,5) _ _ applied(6)] unat_bytes_u64_lt [of old] unat_bytes_u64_lt [of opr]
      w8 old_len assms(2)
    by (simp add: bytes_u64_bytes unsigned_take_bit_eq take_bit_nat_def old [symmetric])
  moreover have "read_at i off w m' = Inr ?new"
    using applied(1,2) k room m' read_write_same [of "unat off" ?new "al_data (ma_allocs m ! k)"]
    by (simp add: read_at_live nth_update_alloc) (simp add: set_data_def)
  moreover have "read_at i off w m = Inr old"
    using applied(1,2) old by (simp add: read_at_def Let_def)
  moreover have "read_at j off' n m' = read_at j off' n m" if "j \<noteq> i \<or> ranges_disjoint off w off' n" for j off' n
    using read_at_set_data_other [OF inv applied(1), of off ?new j off' n] applied(2) that m' w8 by simp
  ultimately show ?thesis by blast
qed

theorem atomic_rmw_effect_witness:
  "\<exists>new. read_at 1 4 2 (snd (atomic_rmw 1 4 2 kAdd [5, 0] demo2)) = Inr new \<and> unat (bytes_u64 new) = 5"
proof -
  have "atomic_rmw 1 4 2 kAdd [5, 0] demo2 = (Inr [0, 0], snd (atomic_rmw 1 4 2 kAdd [5, 0] demo2))"
    by (simp add: atomic_rmw_def atomic_width_ok_def live_by_id_def demo2_eq contains_def Let_def
        read_range_def rmw_next_def) (simp add: numeral_2_eq_2)
  from atomic_rmw_effect [OF demo_reachable(3) _ this] show ?thesis
    by (simp add: atomic_spec_def)
qed

text \<open>Pointer arithmetic on a device pointer yields the exact mathematical sum when that sum is a
  64-bit address and the out-of-range error otherwise; it never wraps.\<close>

theorem device_ptr_add_exact:
  "device_ptr_add p d =
     (let s = uint p + sint d
      in if s < 0 then Inl (out_of_range ''device pointer arithmetic underflow'')
         else if s \<ge> 2 ^ 64 then Inl (out_of_range ''device pointer arithmetic overflow'')
         else Inr (word_of_int s))"
proof -
  have up: "uint p < 2 ^ 64" "0 \<le> uint p" using unsigned_less [of p, where ?'a = int] by simp_all
  have sd: "- (2 ^ 63) \<le> sint d" "sint d < 2 ^ 63" using sint_range_size [of d] by (simp_all add: word_size)
  show ?thesis
  proof (cases "0 \<le> sint d")
    case True
    then have ud: "uint d = sint d"
      using uint_sint [of d] sd by (simp add: take_bit_int_eq_self)
    have "p > UINT64_MAX - d \<longleftrightarrow> uint p + sint d \<ge> 2 ^ 64"
    proof -
      have "p \<le> UINT64_MAX - d \<longleftrightarrow> int (unat p + unat d) < 2 ^ 64"
        using le_UINT64_MAX_minus [of p d] by (simp only: of_nat_less_iff [symmetric, where ?'a = int]) simp
      moreover have "int (unat p + unat d) = uint p + sint d" by (simp add: ud [symmetric])
      ultimately show ?thesis by (simp only: not_le [symmetric]) simp
    qed
    moreover have "p + d = word_of_int (uint p + sint d)"
      by (simp add: ud [symmetric])
    moreover have "\<not> uint p + sint d < 0" using True up by linarith
    ultimately show ?thesis using True by (simp add: device_ptr_add_def Let_def)
  next
    case False
    have mag: "- (d + 1) + 1 = - d" by simp
    have "uint (- d) = - sint d"
    proof -
      have "- d = word_of_int (- sint d)" by simp
      then have "uint (- d) = take_bit 64 (- sint d)"
        by (simp only: uint_word_of_int_eq) simp
      moreover have "take_bit 64 (- sint d) = - sint d"
        by (rule take_bit_int_eq_self) (use False sd in simp_all)
      ultimately show ?thesis by simp
    qed
    then have "p < - d \<longleftrightarrow> uint p + sint d < 0" by (simp only: word_less_def) linarith
    moreover have "p - (- d) = word_of_int (uint p + sint d)" by simp
    ultimately show ?thesis using False up by (simp add: device_ptr_add_def Let_def)
  qed
qed

end
