(* ===== verification/Constant_Bank.thy ===== *)
theory Constant_Bank
  imports Device_Memory Byte_Store
begin

text \<open>
  The constant bank of one launch (\<open>ConstantBank\<close> in \<open>semu/memory/memory.hpp\<close> and
  \<open>src/memory/memory.cpp\<close>): a flat window that holds the kernel parameters at the ABI's
  parameter base and the preset slots at absolute offsets. The constructor throws on a
  malformed layout, which is \<open>None\<close> here. Both pairs of accessors satisfy the byte store
  contract.
\<close>

record ConstantBankLayout =
  cl_param_base :: u64
  cl_default_cdesc_offset :: u64
  cl_size :: u64

definition default_bank_layout :: ConstantBankLayout where
  "default_bank_layout = \<lparr>cl_param_base = 0x380, cl_default_cdesc_offset = 0x358, cl_size = 0x10000\<rparr>"

record ConstantBank =
  cb_layout :: ConstantBankLayout
  cb_bank :: bytes

definition new_constant_bank :: "ConstantBankLayout \<Rightarrow> ConstantBank option" where
  "new_constant_bank l =
     (if cl_param_base l > cl_size l then None
      else if cl_default_cdesc_offset l > cl_size l \<or> 8 > cl_size l - cl_default_cdesc_offset l then None
      else Some \<lparr>cb_layout = l, cb_bank = replicate (unat (cl_size l)) 0\<rparr>)"

definition bank_oob :: "string \<Rightarrow> u64 \<Rightarrow> u64 \<Rightarrow> ConstantBank \<Rightarrow> Error" where
  "bank_oob what off len b =
     mk_error_cause kOob
       (what @ '' at 0x'' @ show_u64 off @ '' len '' @ show_u64 len @ '' past constant bank size '' @
        show_u64 (cl_size (cb_layout b))) (out_of_range [])"

definition write_param :: "u64 \<Rightarrow> bytes \<Rightarrow> u64 \<Rightarrow> ConstantBank \<Rightarrow> Status \<times> ConstantBank" where
  "write_param off data len b =
     (let l = cb_layout b
      in if off > cl_size l - cl_param_base l \<or> len > cl_size l - (cl_param_base l + off) then
           (failure (bank_oob ''parameter write'' off len b), b)
         else
           (success (),
            b\<lparr>cb_bank := write_range (unat (cl_param_base l + off)) (take (unat len) data) (cb_bank b)\<rparr>))"

definition read_param :: "u64 \<Rightarrow> u64 \<Rightarrow> ConstantBank \<Rightarrow> bytes StatusOr" where
  "read_param off len b =
     (let l = cb_layout b
      in if off > cl_size l - cl_param_base l \<or> len > cl_size l - (cl_param_base l + off) then
           failure (bank_oob ''parameter read'' off len b)
         else success (read_range (unat (cl_param_base l + off)) (unat len) (cb_bank b)))"

definition write_slot :: "u64 \<Rightarrow> bytes \<Rightarrow> u64 \<Rightarrow> ConstantBank \<Rightarrow> Status \<times> ConstantBank" where
  "write_slot offset data len b =
     (let sz = cl_size (cb_layout b)
      in if \<not> (offset \<le> sz \<and> len \<le> sz - offset) then (failure (bank_oob ''slot write'' offset len b), b)
         else (success (), b\<lparr>cb_bank := write_range (unat offset) (take (unat len) data) (cb_bank b)\<rparr>))"

definition clear_bank :: "ConstantBank \<Rightarrow> ConstantBank" where
  "clear_bank b = b\<lparr>cb_bank := replicate (length (cb_bank b)) 0\<rparr>"

definition seed_from :: "bytes \<Rightarrow> ConstantBank \<Rightarrow> Status \<times> ConstantBank" where
  "seed_from img b =
     (if length img > unat (cl_size (cb_layout b)) then
        (failure (mk_error_cause kOob
           (''constant0 seed image '' @ show_nat (length img) @ '' bytes larger than bank '' @
            show_u64 (cl_size (cb_layout b))) (out_of_range [])), b)
      else (success (), b\<lparr>cb_bank := write_range 0 img (cb_bank b)\<rparr>))"

definition read_raw :: "u64 \<Rightarrow> u64 \<Rightarrow> ConstantBank \<Rightarrow> bytes StatusOr" where
  "read_raw off len b =
     (let sz = cl_size (cb_layout b)
      in if \<not> (off \<le> sz \<and> len \<le> sz - off) then failure (bank_oob ''raw read'' off len b)
         else success (read_range (unat off) (unat len) (cb_bank b)))"

subsection \<open>Invariant\<close>

definition bank_inv :: "ConstantBank \<Rightarrow> bool" where
  "bank_inv b \<longleftrightarrow> cl_param_base (cb_layout b) \<le> cl_size (cb_layout b) \<and>
     unat (cl_default_cdesc_offset (cb_layout b)) + 8 \<le> unat (cl_size (cb_layout b)) \<and>
     length (cb_bank b) = unat (cl_size (cb_layout b))"

lemma new_constant_bank_inv: "new_constant_bank l = Some b \<Longrightarrow> bank_inv b"
  using window_check [of "cl_default_cdesc_offset l" "cl_size l" 8]
  by (auto simp: new_constant_bank_def bank_inv_def not_less split: if_splits)

lemma param_check:
  assumes "bank_inv b"
  shows "(off > cl_size (cb_layout b) - cl_param_base (cb_layout b) \<or>
          len > cl_size (cb_layout b) - (cl_param_base (cb_layout b) + off)) \<longleftrightarrow>
         \<not> unat (cl_param_base (cb_layout b)) + unat off + unat len \<le> unat (cl_size (cb_layout b))"
proof (cases "off > cl_size (cb_layout b) - cl_param_base (cb_layout b)")
  case True
  then show ?thesis using assms by (auto simp: bank_inv_def word_less_nat_alt unat_sub)
next
  case False
  then have le: "unat (cl_param_base (cb_layout b)) + unat off \<le> unat (cl_size (cb_layout b))"
    using assms by (auto simp: bank_inv_def word_less_nat_alt word_le_nat_alt unat_sub)
  then have sum: "unat (cl_param_base (cb_layout b) + off) = unat (cl_param_base (cb_layout b)) + unat off"
    using unat_lt_u64 [of "cl_size (cb_layout b)"] by (intro unat_add_no_wrap) linarith
  then have "cl_param_base (cb_layout b) + off \<le> cl_size (cb_layout b)" using le by (simp add: word_le_nat_alt)
  then have "len > cl_size (cb_layout b) - (cl_param_base (cb_layout b) + off) \<longleftrightarrow>
      unat (cl_size (cb_layout b)) - (unat (cl_param_base (cb_layout b)) + unat off) < unat len"
    using sum by (simp add: word_less_nat_alt unat_sub)
  then show ?thesis using False le by auto
qed

lemma param_offset:
  assumes "unat (cl_param_base l) + unat off + unat len \<le> unat (cl_size l)"
  shows "unat (cl_param_base l + off) = unat (cl_param_base l) + unat off"
  using assms unat_lt_u64 [of "cl_size l"] by (intro unat_add_no_wrap) linarith

lemma write_slot_cases:
  "write_slot off data len b =
     (if unat off + unat len \<le> unat (cl_size (cb_layout b))
      then (Inr (), b\<lparr>cb_bank := write_range (unat off) (take (unat len) data) (cb_bank b)\<rparr>)
      else (Inl (bank_oob ''slot write'' off len b), b))"
  by (simp add: write_slot_def Let_def window_check)

lemma read_raw_cases:
  "read_raw off len b =
     (if unat off + unat len \<le> unat (cl_size (cb_layout b))
      then Inr (read_range (unat off) (unat len) (cb_bank b))
      else Inl (bank_oob ''raw read'' off len b))"
  by (simp add: read_raw_def Let_def window_check)

lemma write_param_as_slot:
  assumes "bank_inv b"
  shows "write_param off data len b =
     (if unat (cl_param_base (cb_layout b)) + unat off + unat len \<le> unat (cl_size (cb_layout b))
      then write_slot (cl_param_base (cb_layout b) + off) data len b
      else (Inl (bank_oob ''parameter write'' off len b), b))"
  unfolding write_param_def Let_def param_check [OF assms] write_slot_cases
  by (simp add: param_offset)

lemma read_param_as_raw:
  assumes "bank_inv b"
  shows "read_param off len b =
     (if unat (cl_param_base (cb_layout b)) + unat off + unat len \<le> unat (cl_size (cb_layout b))
      then read_raw (cl_param_base (cb_layout b) + off) len b
      else Inl (bank_oob ''parameter read'' off len b))"
  unfolding read_param_def Let_def param_check [OF assms] read_raw_cases
  by (simp add: param_offset)

lemma bank_layout_write [simp]:
  "cb_layout (snd (write_slot off data len b)) = cb_layout b"
  "cb_layout (snd (write_param off data len b)) = cb_layout b"
  by (simp_all add: write_slot_def write_param_def Let_def)

interpretation bank: byte_store bank_inv read_raw write_slot
  by unfold_locales
    (auto simp: write_slot_cases read_raw_cases bank_inv_def ranges_disjoint_def buf_simps bank_oob_def
      split: if_splits)

lemma param_disjoint:
  assumes "unat pb + unat a + unat n \<le> sz" "unat pb + unat b + unat k \<le> sz" "sz < 2 ^ 64" "ranges_disjoint a n b k"
  shows "ranges_disjoint (pb + a) n (pb + b) k"
  using assms unat_add_no_wrap [of pb a] unat_add_no_wrap [of pb b] by (auto simp: ranges_disjoint_def)

interpretation params: byte_store bank_inv read_param write_param
proof
  fix b src n a c k e bs
  assume inv: "bank_inv b"
  show "length src = unat n \<Longrightarrow> bank_inv (snd (write_param a src n b))"
    by (simp add: write_param_as_slot inv bank.store_inv)
  then have inv': "length src = unat n \<Longrightarrow> bank_inv (snd (write_param a src n b))" .
  show "read_param a n b = Inr bs \<Longrightarrow> length bs = unat n"
    by (auto simp: read_param_as_raw inv intro: bank.load_length [OF inv] split: if_splits)
  show "(\<exists>e. fst (write_param a src n b) = Inl e) \<longleftrightarrow> (\<exists>e. read_param a n b = Inl e)"
    by (simp add: read_param_as_raw write_param_as_slot inv bank.store_fails_as_load [OF inv])
  show "fst (write_param a src n b) = Inl e \<Longrightarrow> snd (write_param a src n b) = b"
    by (auto simp: write_param_as_slot inv intro: bank.store_fail_frame [OF inv] split: if_splits)
  show "read_param a n (snd (write_param a src n b)) = Inr src"
    if "length src = unat n" "fst (write_param a src n b) = Inr ()"
    using that bank.load_after_store [OF inv that(1)]
    by (simp add: read_param_as_raw inv inv') (simp add: write_param_as_slot inv split: if_splits)
  show "read_param c k (snd (write_param a src n b)) = read_param c k b"
    if "length src = unat n" "ranges_disjoint a n c k"
    using that bank.load_disjoint [OF inv that(1)] param_disjoint [OF _ _ unat_lt_u64 that(2)]
    by (simp add: read_param_as_raw inv inv' bank_oob_def) (simp add: write_param_as_slot inv)
  show "(\<exists>bs. read_param c k (snd (write_param a src n b)) = Inr bs) \<longleftrightarrow> (\<exists>bs. read_param c k b = Inr bs)"
    if "length src = unat n"
    using that bank.bounds_stable [OF inv that(1)]
    by (simp add: read_param_as_raw inv inv') (simp add: write_param_as_slot inv)
qed

text \<open>On every well-formed bank (the constructor returns no other, and every operation keeps it so), a parameter written at a parameter-relative offset is
  read back at that offset and at the ABI's absolute offset, while all bytes outside it,
  the preset descriptor slot in particular when the parameters lie above it, keep their value.\<close>

theorem param_write_lands_at_abi_offset:
  assumes "bank_inv b" "cb_layout b = l"
    and "length src = unat n" "write_param off src n b = (Inr (), b')"
  shows "read_param off n b' = Inr src \<and> read_raw (cl_param_base l + off) n b' = Inr src \<and>
    (\<forall>a k. ranges_disjoint (cl_param_base l + off) n a k \<longrightarrow> read_raw a k b' = read_raw a k b) \<and>
    (cl_default_cdesc_offset l + 8 \<le> cl_param_base l \<longrightarrow>
       read_raw (cl_default_cdesc_offset l) 8 b' = read_raw (cl_default_cdesc_offset l) 8 b)"
proof -
  note inv = assms(1)
  have w: "write_slot (cl_param_base l + off) src n b = (Inr (), b')"
    and room: "unat (cl_param_base l) + unat off + unat n \<le> unat (cl_size l)"
    using assms(2,4) by (auto simp: write_param_as_slot inv split: if_splits)
  have frame: "read_raw a k b' = read_raw a k b" if "ranges_disjoint (cl_param_base l + off) n a k" for a k
    using bank.load_disjoint [OF inv assms(3) that] w by simp
  have "ranges_disjoint (cl_param_base l + off) n (cl_default_cdesc_offset l) 8"
    if "cl_default_cdesc_offset l + 8 \<le> cl_param_base l"
  proof -
    have "unat (cl_default_cdesc_offset l) + 8 \<le> unat (cl_size l)" using inv assms(2) by (simp add: bank_inv_def)
    then have "unat (cl_default_cdesc_offset l + 8) = unat (cl_default_cdesc_offset l) + 8"
      using unat_add_no_wrap [of "cl_default_cdesc_offset l" 8] unat_lt_u64 [of "cl_size l"] by simp
    then show ?thesis
      using that param_offset [OF room] by (simp add: ranges_disjoint_def word_le_nat_alt)
  qed
  moreover have "read_raw (cl_param_base l + off) n b' = Inr src"
    using bank.load_after_store [OF inv assms(3), of "cl_param_base l + off"] w by simp
  moreover have "read_param off n b' = Inr src"
    using params.load_after_store [OF inv assms(3), of off] assms(4) by simp
  ultimately show ?thesis using frame by blast
qed

definition small_layout :: ConstantBankLayout where
  "small_layout = \<lparr>cl_param_base = 16, cl_default_cdesc_offset = 8, cl_size = 32\<rparr>"

theorem param_write_lands_at_abi_offset_witness:
  "\<exists>b b'. new_constant_bank small_layout = Some b \<and> write_param 4 [1, 2] 2 b = (Inr (), b') \<and>
     read_raw 20 2 b' = Inr [1, 2]"
proof -
  define b where "b = \<lparr>cb_layout = small_layout, cb_bank = replicate 32 0\<rparr>"
  have new: "new_constant_bank small_layout = Some b"
    by (simp add: new_constant_bank_def small_layout_def b_def)
  have "write_param 4 [1, 2] 2 b = (Inr (), snd (write_param 4 [1, 2] 2 b))"
    by (simp add: write_param_def b_def small_layout_def Let_def)
  moreover from param_write_lands_at_abi_offset [OF new_constant_bank_inv [OF new] _ _ this]
  have "read_raw 20 2 (snd (write_param 4 [1, 2] 2 b)) = Inr [1, 2]"
    by (simp add: b_def small_layout_def)
  ultimately show ?thesis using new by blast
qed

end
