(* ===== verification/Mbarrier.thy ===== *)
theory Mbarrier
  imports Semu_Prelude
begin

text \<open>
  The shared-memory mbarrier (\<open>semu/tensor/mbarrier.hpp\<close>, \<open>src/tensor/mbarrier.cpp\<close>): the
  logical fields, the 64-bit word they are mirrored to, and the arrive, phase check and
  invalidate operations. A null state pointer is \<open>None\<close>. The step relation at the end
  runs the operations against one barrier and gives the invariant of the reachable states.
\<close>

subsection \<open>Data\<close>

definition kMbarrierPhaseBit :: u64 where
  "kMbarrierPhaseBit = push_bit 63 1"

definition kMbarrierLockBit :: u64 where
  "kMbarrierLockBit = push_bit 42 1"

record MbarrierState =
  mb_initialized :: bool
  mb_invalid :: bool
  mb_corrupted :: bool
  mb_locked :: bool
  mb_expected :: u32
  mb_pending :: u32
  mb_pending_tx :: u64
  mb_phase :: u32

definition new_mbarrier :: MbarrierState where
  "new_mbarrier = \<lparr>mb_initialized = False, mb_invalid = False, mb_corrupted = False, mb_locked = False,
     mb_expected = 0, mb_pending = 0, mb_pending_tx = 0, mb_phase = 0\<rparr>"

definition encode :: "MbarrierState \<Rightarrow> u64" where
  "encode s =
     (let expected_field = (0x100000 - ucast (mb_expected s)) AND 0xFFFFF;
          arrive_field = (0x100000 - ucast (mb_pending s)) AND 0xFFFFF;
          tx_field = (0x200000 - mb_pending_tx s) AND 0x1FFFFF;
          w = push_bit 1 expected_field;
          w = w OR push_bit 21 tx_field;
          w = (if mb_locked s then w OR kMbarrierLockBit else w);
          w = w OR push_bit 43 arrive_field
      in if mb_phase s \<noteq> 0 then w OR kMbarrierPhaseBit else w)"

definition from_init_word :: "u64 \<Rightarrow> MbarrierState" where
  "from_init_word w =
     (let count_field = drop_bit 1 w AND 0xFFFFF;
          expected = ucast ((0x100000 - count_field) AND 0xFFFFF)
      in \<lparr>mb_initialized = True, mb_invalid = False, mb_corrupted = False,
          mb_locked = (drop_bit 42 w AND 1 \<noteq> 0), mb_expected = expected, mb_pending = expected,
          mb_pending_tx = 0, mb_phase = ucast (drop_bit 63 w AND 1)\<rparr>)"

record MbarrierResult =
  mr_ok :: bool
  mr_fault :: bool
  mr_error :: string
  mr_old_word :: u64
  mr_predicate :: bool
  mr_completed :: bool
  mr_new_phase :: u32

definition ok_result :: MbarrierResult where
  "ok_result = \<lparr>mr_ok = True, mr_fault = False, mr_error = [], mr_old_word = 0, mr_predicate = False,
     mr_completed = False, mr_new_phase = 0\<rparr>"

definition fault_result :: "string \<Rightarrow> MbarrierResult \<Rightarrow> MbarrierResult" where
  "fault_result msg r = r\<lparr>mr_fault := True, mr_error := msg\<rparr>"

subsection \<open>Operations\<close>

text \<open>The last part of an arrival: the arrivals, then the phase completion test.\<close>

definition arrive_count :: "u32 \<Rightarrow> MbarrierResult \<Rightarrow> MbarrierState \<Rightarrow> MbarrierResult \<times> MbarrierState" where
  "arrive_count inc r s =
     (if inc \<noteq> 0 \<and> inc > mb_pending s then
        (fault_result ''mbarrier over-arrival (arrivals already complete)'' r, s\<lparr>mb_locked := True\<rparr>)
      else
        let s = (if inc \<noteq> 0 then s\<lparr>mb_pending := mb_pending s - inc\<rparr> else s)
        in if mb_pending s = 0 \<and> mb_pending_tx s = 0 then
             (r\<lparr>mr_completed := True, mr_new_phase := mb_phase s XOR 1\<rparr>,
              s\<lparr>mb_phase := mb_phase s XOR 1, mb_pending := mb_expected s\<rparr>)
           else (r, s))"

definition mbarrier_arrive :: "u32 \<Rightarrow> u64 \<Rightarrow> bool \<Rightarrow> MbarrierState option \<Rightarrow> MbarrierResult \<times> MbarrierState option" where
  "mbarrier_arrive inc tx_delta tx_is_complete p =
     (case p of
        None \<Rightarrow> (fault_result ''mbarrier not initialized'' ok_result, p)
      | Some s \<Rightarrow>
          if \<not> mb_initialized s then (fault_result ''mbarrier not initialized'' ok_result, p)
          else if mb_corrupted s then
            (fault_result ''mbarrier corrupted (tx underflow on a prior complete_tx)'' ok_result, p)
          else if mb_invalid s then (fault_result ''mbarrier invalidated (CCTL.IV)'' ok_result, p)
          else
            let r = ok_result\<lparr>mr_old_word := encode s\<rparr>
            in if mb_locked s then (r, p)
               else if tx_delta \<noteq> 0 \<and> tx_is_complete \<and> tx_delta > mb_pending_tx s then
                 (r\<lparr>mr_error := ''mbarrier tx underflow (negative complete_tx)''\<rparr>,
                  Some (s\<lparr>mb_pending_tx := 0, mb_corrupted := True\<rparr>))
               else
                 let s = (if tx_delta \<noteq> 0 then
                            s\<lparr>mb_pending_tx := (if tx_is_complete then mb_pending_tx s - tx_delta
                                                else mb_pending_tx s + tx_delta)\<rparr>
                          else s);
                     (r, s) = arrive_count inc r s
                 in (r, Some s))"

definition mbarrier_phasechk :: "u32 \<Rightarrow> MbarrierState \<Rightarrow> MbarrierResult" where
  "mbarrier_phasechk parity s =
     (if \<not> mb_initialized s then fault_result ''mbarrier not initialized'' ok_result
      else if mb_corrupted s then
        fault_result ''mbarrier corrupted (tx underflow on a prior complete_tx)'' ok_result
      else
        let r = ok_result\<lparr>mr_old_word := encode s\<rparr>
        in if mb_invalid s \<or> mb_locked s then r\<lparr>mr_predicate := False\<rparr>
           else r\<lparr>mr_predicate := (mb_phase s \<noteq> parity AND 1)\<rparr>)"

definition mbarrier_invalidate :: "MbarrierState option \<Rightarrow> MbarrierState option" where
  "mbarrier_invalidate p = map_option (\<lambda>s. s\<lparr>mb_invalid := True\<rparr>) p"

definition describe_mbarrier :: "MbarrierState \<Rightarrow> string" where
  "describe_mbarrier s =
     (if \<not> mb_initialized s then ''uninitialized''
      else ''expected='' @ show_u32 (mb_expected s) @ '' pending='' @ show_u32 (mb_pending s) @
           '' tx='' @ show_u64 (mb_pending_tx s) @ '' phase='' @ show_u32 (mb_phase s) @
           (if mb_invalid s then '' INVALID'' else []) @
           (if mb_locked s then '' LOCKED(over-arrival)'' else []) @
           (if mb_corrupted s then '' CORRUPTED(tx-underflow)'' else []))"

subsection \<open>Lock step facts\<close>

definition mbarrier_live :: "MbarrierState \<Rightarrow> bool" where
  "mbarrier_live s \<longleftrightarrow> mb_initialized s \<and> \<not> mb_corrupted s \<and> \<not> mb_invalid s \<and> \<not> mb_locked s"

lemmas mbarrier_defs = mbarrier_arrive_def arrive_count_def fault_result_def ok_result_def Let_def

lemma mbarrier_arrive_live:
  assumes "mbarrier_live s" "inc \<le> mb_pending s" "d \<Longrightarrow> tx \<le> mb_pending_tx s"
    and tx': "tx' = (if d then mb_pending_tx s - tx else mb_pending_tx s + tx)"
  shows "mbarrier_arrive inc tx d (Some s) =
    (if mb_pending s - inc = 0 \<and> tx' = 0
     then (ok_result\<lparr>mr_old_word := encode s, mr_completed := True, mr_new_phase := mb_phase s XOR 1\<rparr>,
           Some (s\<lparr>mb_pending_tx := tx', mb_pending := mb_expected s, mb_phase := mb_phase s XOR 1\<rparr>))
     else (ok_result\<lparr>mr_old_word := encode s\<rparr>,
           Some (s\<lparr>mb_pending_tx := tx', mb_pending := mb_pending s - inc\<rparr>)))"
proof -
  have cnt: "(if inc \<noteq> 0 then t\<lparr>mb_pending := mb_pending t - inc\<rparr> else t) = t\<lparr>mb_pending := mb_pending t - inc\<rparr>"
    for t :: MbarrierState by auto
  have under: "\<not> (tx \<noteq> 0 \<and> d \<and> tx > mb_pending_tx s)" using assms(3) by auto
  have arr: "arrive_count inc r (s\<lparr>mb_pending_tx := tx'\<rparr>) =
      (if mb_pending s - inc = 0 \<and> tx' = 0
       then (r\<lparr>mr_completed := True, mr_new_phase := mb_phase s XOR 1\<rparr>,
             s\<lparr>mb_pending_tx := tx', mb_pending := mb_expected s, mb_phase := mb_phase s XOR 1\<rparr>)
       else (r, s\<lparr>mb_pending_tx := tx', mb_pending := mb_pending s - inc\<rparr>))" for r
    using assms(2) leD [OF assms(2)] unfolding arrive_count_def cnt Let_def by simp
  have "mbarrier_arrive inc tx d (Some s) =
      (let (r, s) = arrive_count inc (ok_result\<lparr>mr_old_word := encode s\<rparr>) (s\<lparr>mb_pending_tx := tx'\<rparr>) in (r, Some s))"
    using assms(1) under tx'
    by (cases "tx = 0"; cases d) (simp_all add: mbarrier_arrive_def mbarrier_live_def Let_def)
  then show ?thesis by (simp add: arr)
qed

text \<open>C38: On a live barrier an operation that neither over-completes the outstanding bytes nor
  over-arrives flips the phase exactly when it drains both the pending arrivals and the
  outstanding bytes; the arrival count then reloads, and otherwise only the counters move.\<close>

theorem mbarrier_phase_completion:
  assumes "mbarrier_live s" "inc \<le> mb_pending s"
    and tx: "if done_tx then tx \<le> mb_pending_tx s else unat (mb_pending_tx s) + unat tx < 2 ^ 64"
  shows "let (r, s') = mbarrier_arrive inc tx done_tx (Some s);
             arrivals = unat (mb_pending s) - unat inc;
             bytes = (if done_tx then unat (mb_pending_tx s) - unat tx else unat (mb_pending_tx s) + unat tx)
         in \<not> mr_fault r \<and> mr_old_word r = encode s \<and> (mr_completed r \<longleftrightarrow> arrivals = 0 \<and> bytes = 0) \<and>
            (\<exists>t. s' = Some t \<and> mbarrier_live t \<and> mb_expected t = mb_expected s \<and>
               unat (mb_pending_tx t) = bytes \<and>
               (if arrivals = 0 \<and> bytes = 0
                then mb_phase t = mb_phase s XOR 1 \<and> mb_pending t = mb_expected s
                else mb_phase t = mb_phase s \<and> unat (mb_pending t) = arrivals))"
proof -
  define tx' where "tx' = (if done_tx then mb_pending_tx s - tx else mb_pending_tx s + tx)"
  have tx': "unat tx' = (if done_tx then unat (mb_pending_tx s) - unat tx else unat (mb_pending_tx s) + unat tx)"
    using tx by (auto simp: tx'_def unat_sub unat_add_no_wrap split: if_splits)
  have sub: "unat (mb_pending s - inc) = unat (mb_pending s) - unat inc"
    using assms(2) by (simp add: unat_sub)
  have zero: "mb_pending s - inc = 0 \<and> tx' = 0 \<longleftrightarrow> unat (mb_pending s) - unat inc = 0 \<and> unat tx' = 0"
    by (metis sub unat_eq_zero)
  have le: "done_tx \<Longrightarrow> tx \<le> mb_pending_tx s" using tx by simp
  show ?thesis
    using assms(1) sub
    by (simp only: mbarrier_arrive_live [OF assms(1,2) le tx'_def] Let_def tx' [symmetric] zero sub split: if_split)
      (auto simp: mbarrier_live_def ok_result_def sub [symmetric] simp del: diff_is_0_eq)
qed

theorem mbarrier_phase_completion_witness:
  "mr_completed (fst (mbarrier_arrive 1 16 True
     (Some (from_init_word 0x1FFFFE \<lparr>mb_pending_tx := 16\<rparr>))))"
  using mbarrier_phase_completion [of "from_init_word 0x1FFFFE \<lparr>mb_pending_tx := 16\<rparr>" 1 True 16]
  by (simp add: mbarrier_live_def from_init_word_def Let_def case_prod_beta)

definition arrive_all :: "(u32 \<times> u64 \<times> bool) list \<Rightarrow> MbarrierState option \<Rightarrow> MbarrierState option" where
  "arrive_all ops p = foldl (\<lambda>p (inc, tx, d). snd (mbarrier_arrive inc tx d p)) p ops"

text \<open>A barrier that was over-arrived stays stuck: no sequence of arrivals and transactions
  completes a phase, its state never changes again, and every phase check answers false.\<close>

theorem mbarrier_locked_stays_stuck:
  assumes "mbarrier_live s" "inc > mb_pending s" "tx = 0"
  shows "\<exists>t. mbarrier_arrive inc tx d (Some s) =
      (fault_result ''mbarrier over-arrival (arrivals already complete)'' (ok_result\<lparr>mr_old_word := encode s\<rparr>), Some t) \<and>
    (\<forall>ops. arrive_all ops (Some t) = Some t) \<and> (\<forall>parity. \<not> mr_predicate (mbarrier_phasechk parity t)) \<and>
    (\<forall>i x c. \<not> mr_completed (fst (mbarrier_arrive i x c (Some t))))"
proof -
  let ?t = "s\<lparr>mb_locked := True\<rparr>"
  have stuck: "mbarrier_arrive i x c (Some ?t) = (ok_result\<lparr>mr_old_word := encode ?t\<rparr>, Some ?t)" for i x c
    using assms(1) by (simp add: mbarrier_arrive_def mbarrier_live_def Let_def)
  have "arrive_all ops (Some ?t) = Some ?t" for ops
    by (induction ops) (auto simp: arrive_all_def stuck)
  moreover have "inc \<noteq> 0" using assms(2) by auto
  ultimately show ?thesis
    using assms stuck
    by (intro exI [of _ ?t])
      (auto simp: mbarrier_arrive_def arrive_count_def mbarrier_live_def Let_def mbarrier_phasechk_def ok_result_def)
qed

theorem mbarrier_locked_stays_stuck_witness:
  "mr_fault (fst (mbarrier_arrive 1 0 False (Some (from_init_word (push_bit 63 1)))))"
proof -
  have "from_init_word (push_bit 63 1) = new_mbarrier\<lparr>mb_initialized := True, mb_phase := 1\<rparr>"
    by (simp add: from_init_word_def new_mbarrier_def Let_def)
  then show ?thesis
    using mbarrier_locked_stays_stuck [of "from_init_word (push_bit 63 1)" 1 0 False]
    by (auto simp: mbarrier_live_def new_mbarrier_def fault_result_def)
qed

text \<open>Completing more bytes than are outstanding does not fault the operation itself, but from then
  on every arrival and every phase check on the barrier faults and leaves the state as it is.\<close>

theorem mbarrier_underflow_faults_next:
  assumes "mbarrier_live s" "tx > mb_pending_tx s"
  shows "\<exists>r t. mbarrier_arrive inc tx True (Some s) = (r, Some t) \<and> \<not> mr_fault r \<and> \<not> mr_completed r \<and>
    (\<forall>i x c. mr_fault (fst (mbarrier_arrive i x c (Some t))) \<and> snd (mbarrier_arrive i x c (Some t)) = Some t) \<and>
    (\<forall>parity. mr_fault (mbarrier_phasechk parity t))"
proof -
  have "tx \<noteq> 0" using assms(2) by auto
  then show ?thesis
    using assms by (auto simp: mbarrier_arrive_def mbarrier_live_def Let_def ok_result_def fault_result_def mbarrier_phasechk_def)
qed

theorem mbarrier_underflow_faults_next_witness:
  "\<not> mr_fault (fst (mbarrier_arrive 0 8 True (Some (new_mbarrier\<lparr>mb_initialized := True\<rparr>))))"
  using mbarrier_underflow_faults_next [of "new_mbarrier\<lparr>mb_initialized := True\<rparr>" 8 0]
  by (auto simp: mbarrier_live_def new_mbarrier_def)

text \<open>The operation results of this module never report failure through \<open>ok\<close>: it is set even on
  every faulting operation, so only \<open>fault\<close> tells a trap.\<close>

theorem mbarrier_ok_always_set:
  "mr_ok (fst (mbarrier_arrive inc tx d p)) \<and> mr_ok (mbarrier_phasechk parity s)"
  by (auto simp: mbarrier_defs mbarrier_phasechk_def split: option.splits prod.splits)

subsection \<open>The shared-memory word\<close>

lemma mask_literals: "(0xFFFFF :: u64) = mask 20" "(0x1FFFFF :: u64) = mask 21"
  by (simp_all add: mask_eq_exp_minus_1)

text \<open>The count fields hold the complement; taking it twice gives the count back.\<close>

lemma complement_twice:
  fixes e :: u64
  shows "take_bit 20 (0x100000 - take_bit 20 (0x100000 - e)) = take_bit 20 e"
proof -
  define k where "k = uint e"
  have e: "e = word_of_int k" by (simp add: k_def)
  have "take_bit 20 (x - take_bit 20 (x - k)) = take_bit 20 (x - (x - k))" for x :: int
    by (metis take_bit_diff take_bit_take_bit min.idem)
  then have "(word_of_int (take_bit 20 (0x100000 - take_bit 20 (0x100000 - k))) :: u64) = word_of_int (take_bit 20 k)"
    by simp
  then show ?thesis
    by (simp only: e take_bit_of_int [symmetric] of_int_diff of_int_numeral)
qed

lemma encode_fields:
  "take_bit 20 (drop_bit 1 (encode s)) = take_bit 20 (0x100000 - ucast (mb_expected s))"
  "take_bit 21 (drop_bit 21 (encode s)) = take_bit 21 (0x200000 - mb_pending_tx s)"
  "bit (encode s) 42 \<longleftrightarrow> mb_locked s"
  "take_bit 20 (drop_bit 43 (encode s)) = take_bit 20 (0x100000 - ucast (mb_pending s))"
  "bit (encode s) 63 \<longleftrightarrow> mb_phase s \<noteq> 0"
  by (auto intro!: bit_word_eqI simp: encode_def Let_def mask_literals kMbarrierLockBit_def kMbarrierPhaseBit_def
      bit_simps take_bit_eq_mask [symmetric] simp del: push_bit_Suc push_bit_of_1 One_nat_def)

text \<open>The mirrored word round-trips: reading the word of a freshly initialised barrier back gives the
  same logical state, for every arrival count the 20-bit field can hold.\<close>

theorem mbarrier_word_roundtrip:
  assumes "unat n < 2 ^ 20" "ph \<in> {0, 1}"
    and "s = \<lparr>mb_initialized = True, mb_invalid = False, mb_corrupted = False, mb_locked = lk, mb_expected = n,
              mb_pending = n, mb_pending_tx = 0, mb_phase = ph\<rparr>"
  shows "from_init_word (encode s) = s"
proof -
  have "(0x100000 - (drop_bit 1 (encode s) AND 0xFFFFF)) AND 0xFFFFF = take_bit 20 (ucast n :: u64)"
    using encode_fields(1) [of s] complement_twice [of "ucast n"] assms(3)
    by (simp add: mask_literals take_bit_eq_mask)
  moreover have "ucast (take_bit 20 (ucast n :: u64)) = n"
  proof -
    have "take_bit 20 (unat n) = unat n" using assms(1) by (simp add: take_bit_nat_eq_self)
    then show ?thesis
      by (simp add: word_unat_eq_iff unsigned_ucast_eq unsigned_take_bit_eq)
  qed
  moreover have "drop_bit 42 (encode s) AND 1 \<noteq> 0 \<longleftrightarrow> lk"
    using encode_fields(3) [of s] assms(3) by (simp add: and_one_eq bit_iff_odd_drop_bit odd_iff_mod_2_eq_one)
  moreover have "ucast (drop_bit 63 (encode s) AND 1) = ph"
    using encode_fields(5) [of s] assms(2,3) by (auto simp: and_one_eq bit_iff_odd_drop_bit odd_iff_mod_2_eq_one)
  ultimately show ?thesis
    using assms(3) by (simp add: from_init_word_def Let_def)
qed

theorem mbarrier_word_roundtrip_witness:
  "from_init_word (encode (new_mbarrier\<lparr>mb_initialized := True, mb_expected := 4, mb_pending := 4\<rparr>)) =
   new_mbarrier\<lparr>mb_initialized := True, mb_expected := 4, mb_pending := 4\<rparr>"
  by (rule mbarrier_word_roundtrip [of 4 0 _ False]) (simp_all add: new_mbarrier_def)

end
