(* ===== verification/Cluster.thy ===== *)
theory Cluster
  imports Device_Memory
begin

text \<open>
  Cluster topology (\<open>semu/exec/cluster.hpp\<close>, \<open>src/exec/cluster.cpp\<close>): the legality checks
  of a cluster launch and the translation between grid-linear CTA numbers and pairs of a
  cluster number and a rank inside the cluster. The arithmetic is 64-bit; the facts show that
  the checks of \<open>build\<close> are enough for it never to wrap, and that the two directions of the
  translation are inverse to each other.
\<close>

subsection \<open>Data and construction\<close>

datatype SharedAccessMode = kLocalMode | kDistributed

type_synonym dim3 = "u32 \<times> u32 \<times> u32"

record TranslatedSharedAddress =
  ts_context_nonce :: u64
  ts_launch_generation :: u64
  ts_source_cta :: u64
  ts_cluster_id :: u64
  ts_target_rank :: u64
  ts_target_cta :: u64
  ts_logical_address :: u64
  ts_allocation :: AllocationId
  ts_allocation_offset :: u64
  ts_address :: DevicePtr
  ts_width :: u64
  ts_alignment :: u64
  ts_space :: AddressSpace
  ts_kind :: AccessKind
  ts_mode :: SharedAccessMode

record ClusterTopology =
  ct_enabled :: bool
  ct_dims :: dim3
  ct_grid_dims :: dim3
  ct_cluster_grid :: "u64 \<times> u64 \<times> u64"
  ct_cluster_size :: u64
  ct_cluster_size_xy :: u64
  ct_grid_threads :: u64

definition default_topology :: ClusterTopology where
  "default_topology = \<lparr>ct_enabled = False, ct_dims = (1, 1, 1), ct_grid_dims = (1, 1, 1),
     ct_cluster_grid = (1, 1, 1), ct_cluster_size = 1, ct_cluster_size_xy = 1, ct_grid_threads = 1\<rparr>"

definition kMaxClusterSize :: u64 where
  "kMaxClusterSize = 8"

definition mul_overflows :: "u64 \<Rightarrow> u64 \<Rightarrow> bool" where
  "mul_overflows a b \<longleftrightarrow> a \<noteq> 0 \<and> b > UINT64_MAX div a"

definition build :: "dim3 option \<Rightarrow> u32 \<Rightarrow> u32 \<Rightarrow> u32 \<Rightarrow> ClusterTopology StatusOr" where
  "build cluster_dims grid_x grid_y grid_z =
     (let gx = ucast grid_x; gy = ucast grid_y; gz = ucast grid_z
      in if mul_overflows gx gy then failure (out_of_range ''grid dims overflow (x*y)'')
         else if mul_overflows (gx * gy) gz then failure (out_of_range ''grid dims overflow (x*y*z)'')
         else
           let t = default_topology\<lparr>ct_grid_threads := gx * gy * gz, ct_grid_dims := (grid_x, grid_y, grid_z)\<rparr>
           in case cluster_dims of
                None \<Rightarrow> success t
              | Some (d0, d1, d2) \<Rightarrow>
                  if d0 = 0 \<or> d1 = 0 \<or> d2 = 0 then
                    failure (invalid_argument
                      (''cluster dimensions must be non-zero (x='' @ show_u32 d0 @ '',y='' @ show_u32 d1 @
                       '',z='' @ show_u32 d2 @ '')''))
                  else
                    let x = ucast d0; y = ucast d1; z = ucast d2
                    in if mul_overflows x y then failure (out_of_range ''cluster dims overflow (x*y)'')
                       else if mul_overflows (x * y) z then failure (out_of_range ''cluster dims overflow (x*y*z)'')
                       else if x * y * z > kMaxClusterSize then
                         failure (invalid_argument
                           (''cluster size '' @ show_u64 (x * y * z) @ '' exceeds the sm120 cap of '' @
                            show_u64 kMaxClusterSize))
                       else if grid_x mod d0 \<noteq> 0 \<or> grid_y mod d1 \<noteq> 0 \<or> grid_z mod d2 \<noteq> 0 then
                         failure (invalid_argument
                           (''grid ('' @ show_u32 grid_x @ '','' @ show_u32 grid_y @ '','' @ show_u32 grid_z @
                            '') is not divisible by cluster dims ('' @ show_u32 d0 @ '','' @ show_u32 d1 @
                            '','' @ show_u32 d2 @ '') per axis''))
                       else
                         success (t\<lparr>ct_enabled := True, ct_dims := (d0, d1, d2), ct_cluster_size := x * y * z,
                                    ct_cluster_size_xy := x * y,
                                    ct_cluster_grid := (gx div x, gy div y, gz div z)\<rparr>))"

subsection \<open>Translation\<close>

definition decode_cta :: "ClusterTopology \<Rightarrow> u64 \<Rightarrow> u64 \<times> u64 \<times> u64" where
  "decode_cta t cta =
     (let (g0, g1, g2) = ct_grid_dims t
      in (cta mod ucast g0, (cta div ucast g0) mod ucast g1, cta div (ucast g0 * ucast g1)))"

definition cluster_id :: "ClusterTopology \<Rightarrow> u64 \<Rightarrow> u64" where
  "cluster_id t cta =
     (let (x, y, z) = decode_cta t cta; (d0, d1, d2) = ct_dims t; (c0, c1, c2) = ct_cluster_grid t
      in (z div ucast d2) * c0 * c1 + (y div ucast d1) * c0 + x div ucast d0)"

definition cta_rank :: "ClusterTopology \<Rightarrow> u64 \<Rightarrow> u64" where
  "cta_rank t cta =
     (let (x, y, z) = decode_cta t cta; (d0, d1, d2) = ct_dims t;
          rx = x mod ucast d0; ry = y mod ucast d1; rz = z mod ucast d2
      in rz * ct_cluster_size_xy t + ry * ucast d0 + rx)"

definition grid_cta :: "ClusterTopology \<Rightarrow> u64 \<Rightarrow> u64 \<Rightarrow> u64" where
  "grid_cta t cluster rank =
     (let (d0, d1, d2) = ct_dims t; (c0, c1, c2) = ct_cluster_grid t; (g0, g1, g2) = ct_grid_dims t;
          ccx = cluster mod c0; ccy = (cluster div c0) mod c1; ccz = cluster div (c0 * c1);
          rx = rank mod ucast d0; ry = (rank div ucast d0) mod ucast d1; rz = rank div ct_cluster_size_xy t;
          x = ccx * ucast d0 + rx; y = ccy * ucast d1 + ry; z = ccz * ucast d2 + rz
      in z * ucast g0 * ucast g1 + y * ucast g0 + x)"

definition valid_rank :: "ClusterTopology \<Rightarrow> u64 \<Rightarrow> bool" where
  "valid_rank t rank \<longleftrightarrow> rank < ct_cluster_size t"

definition cluster_count :: "ClusterTopology \<Rightarrow> u64" where
  "cluster_count t = (let (c0, c1, c2) = ct_cluster_grid t in c0 * c1 * c2)"

subsection \<open>Mixed-radix numbers\<close>

text \<open>A number below \<open>A * B * C\<close> is the triple of its digits, least significant first.\<close>

definition digits :: "nat \<Rightarrow> nat \<Rightarrow> nat \<Rightarrow> nat \<times> nat \<times> nat" where
  "digits A B n = (n mod A, n div A mod B, n div (A * B))"

definition undigits :: "nat \<Rightarrow> nat \<Rightarrow> nat \<times> nat \<times> nat \<Rightarrow> nat" where
  "undigits A B = (\<lambda>(x, y, z). z * A * B + y * A + x)"

definition in_box :: "nat \<Rightarrow> nat \<Rightarrow> nat \<Rightarrow> nat \<times> nat \<times> nat \<Rightarrow> bool" where
  "in_box A B C = (\<lambda>(x, y, z). x < A \<and> y < B \<and> z < C)"

lemma undigits_lt: "in_box A B C d \<Longrightarrow> undigits A B d < A * B * C"
proof -
  assume "in_box A B C d"
  then obtain x y z where d: "d = (x, y, z)" "x < A" "y < B" "z < C" by (auto simp: in_box_def)
  have "undigits A B d < z * A * B + (Suc y) * A" using d by (simp add: undigits_def)
  also have "\<dots> \<le> z * A * B + B * A" using d by (intro add_left_mono mult_right_mono) auto
  also have "\<dots> = Suc z * (A * B)" by (simp add: algebra_simps)
  also have "\<dots> \<le> C * (A * B)" using d by (intro mult_right_mono) auto
  finally show ?thesis by (simp add: mult.commute)
qed

lemma digits_undigits:
  assumes "in_box A B C d"
  shows "digits A B (undigits A B d) = d"
proof -
  obtain x y z where d: "d = (x, y, z)" "x < A" "y < B" using assms by (auto simp: in_box_def)
  let ?n = "z * A * B + y * A + x"
  have eq: "?n = (z * B + y) * A + x" by (simp add: algebra_simps)
  have "?n mod A = x" using d by (simp add: eq)
  moreover have q: "?n div A = z * B + y" using d by (simp add: eq)
  moreover have "?n div (A * B) = z" using d q by (simp add: div_mult2_eq)
  ultimately show ?thesis using d by (simp add: digits_def undigits_def)
qed

lemma undigits_digits: "undigits A B (digits A B n) = n"
proof -
  have "n div (A * B) * A * B + n div A mod B * A = n div A * A"
    by (simp add: div_mult2_eq algebra_simps flip: distrib_left)
  then show ?thesis by (simp add: digits_def undigits_def)
qed

lemma digits_in_box:
  assumes "n < A * B * C"
  shows "in_box A B C (digits A B n)"
proof -
  have "0 < A" "0 < B" using assms by (auto intro!: gr0I)
  then show ?thesis using assms by (simp add: in_box_def digits_def less_mult_imp_div_less mult.commute)
qed

text \<open>Splitting every coordinate of a box into a tile number and a position in the tile.\<close>

definition tile :: "nat \<times> nat \<times> nat \<Rightarrow> nat \<times> nat \<times> nat \<Rightarrow> nat \<times> nat \<times> nat" where
  "tile = (\<lambda>(a, b, c) (x, y, z). (x div a, y div b, z div c))"

definition within :: "nat \<times> nat \<times> nat \<Rightarrow> nat \<times> nat \<times> nat \<Rightarrow> nat \<times> nat \<times> nat" where
  "within = (\<lambda>(a, b, c) (x, y, z). (x mod a, y mod b, z mod c))"

definition untile :: "nat \<times> nat \<times> nat \<Rightarrow> nat \<times> nat \<times> nat \<Rightarrow> nat \<times> nat \<times> nat \<Rightarrow> nat \<times> nat \<times> nat" where
  "untile = (\<lambda>(a, b, c) (x, y, z) (u, v, w). (x * a + u, y * b + v, z * c + w))"

lemma untile_tile: "untile d (tile d p) (within d p) = p"
  by (auto simp: untile_def tile_def within_def split: prod.splits)

lemma tile_untile:
  assumes "in_box a b c q"
  shows "tile (a, b, c) (untile (a, b, c) p q) = p" "within (a, b, c) (untile (a, b, c) p q) = q"
  using assms by (auto simp: untile_def tile_def within_def in_box_def split: prod.splits)

lemma tile_in_box:
  assumes "in_box (a * A) (b * B) (c * C) p" "0 < a" "0 < b" "0 < c"
  shows "in_box A B C (tile (a, b, c) p)" "in_box a b c (within (a, b, c) p)"
  using assms by (auto simp: in_box_def tile_def within_def less_mult_imp_div_less mult.commute)

lemma untile_in_box:
  assumes "in_box A B C p" "in_box a b c q"
  shows "in_box (a * A) (b * B) (c * C) (untile (a, b, c) p q)"
proof -
  have "x * a + u < a * A" if "x < A" "u < a" for x u a A :: nat
  proof -
    have "x * a + u < Suc x * a" using that by simp
    also have "\<dots> \<le> A * a" using that by (intro mult_right_mono) auto
    finally show ?thesis by (simp add: mult.commute)
  qed
  then show ?thesis using assms by (auto simp: in_box_def untile_def)
qed

subsection \<open>Well-formed topologies\<close>

text \<open>\<open>topo t d C\<close>: the topology tiles a grid of \<open>C\<close> clusters per axis with clusters of shape \<open>d\<close>.\<close>

definition topo :: "ClusterTopology \<Rightarrow> nat \<times> nat \<times> nat \<Rightarrow> nat \<times> nat \<times> nat \<Rightarrow> bool" where
  "topo t = (\<lambda>(a, b, c) (A, B, C). (\<exists>d0 d1 d2 g0 g1 g2 c0 c1 c2.
     ct_dims t = (d0, d1, d2) \<and> ct_grid_dims t = (g0, g1, g2) \<and> ct_cluster_grid t = (c0, c1, c2) \<and>
     unat d0 = a \<and> unat d1 = b \<and> unat d2 = c \<and> unat c0 = A \<and> unat c1 = B \<and> unat c2 = C \<and>
     unat g0 = a * A \<and> unat g1 = b * B \<and> unat g2 = c * C \<and> 0 < a \<and> 0 < b \<and> 0 < c \<and>
     unat (ct_cluster_size_xy t) = a * b \<and> unat (ct_cluster_size t) = a * b * c \<and>
     unat (ct_grid_threads t) = a * A * (b * B) * (c * C)))"

lemma unat_mul_no_wrap:
  fixes a b :: u64
  assumes "unat a * unat b < 2 ^ 64"
  shows "unat (a * b) = unat a * unat b"
  using assms by (simp add: unat_mult_lem [THEN iffD1])

lemma mul_overflows_iff: "mul_overflows a b \<longleftrightarrow> \<not> unat a * unat b < 2 ^ 64"
proof (cases "a = 0")
  case True
  then show ?thesis by (simp add: mul_overflows_def)
next
  case False
  then have pos: "0 < unat a" by (simp add: unat_gt_0)
  have "b > UINT64_MAX div a \<longleftrightarrow> (2 ^ 64 - 1) div unat a < unat b"
    by (simp add: word_less_nat_alt unat_div)
  also have "\<dots> \<longleftrightarrow> (2 ^ 64 - 1) < unat b * unat a"
    using pos by (simp add: div_less_iff_less_mult)
  finally show ?thesis using False by (auto simp: mul_overflows_def mult.commute)
qed

lemma unat_ucast_32_64 [simp]: "unat (ucast (w :: u32) :: u64) = unat w"
  by (simp add: unsigned_ucast_eq take_bit_nat_eq_self less_trans [OF unsigned_less])

lemma unat_undigits:
  fixes x y z a b :: u64
  assumes "undigits (unat a) (unat b) (unat x, unat y, unat z) < 2 ^ 64" "0 < unat b"
  shows "unat (z * a * b + y * a + x) = undigits (unat a) (unat b) (unat x, unat y, unat z)"
proof -
  have s: "unat z * unat a * unat b + unat y * unat a + unat x < 2 ^ 64" using assms(1) by (simp add: undigits_def)
  have "unat z * unat a \<le> unat z * unat a * unat b" using assms(2) by simp
  then have za: "unat (z * a) = unat z * unat a" using s by (intro unat_mul_no_wrap) linarith
  then have zab: "unat (z * a * b) = unat z * unat a * unat b" using s by (subst unat_mul_no_wrap) auto
  have ya: "unat (y * a) = unat y * unat a" using s by (intro unat_mul_no_wrap) linarith
  have "unat (z * a * b + y * a) = unat z * unat a * unat b + unat y * unat a"
    using s zab ya by (subst unat_add_no_wrap) auto
  then show ?thesis using s by (subst unat_add_no_wrap) (auto simp: undigits_def)
qed

lemma topoE:
  assumes "topo t (a, b, c) (A, B, C)"
  obtains d0 d1 d2 g0 g1 g2 c0 c1 c2 where
    "ct_dims t = (d0, d1, d2)" "ct_grid_dims t = (g0, g1, g2)" "ct_cluster_grid t = (c0, c1, c2)"
    "unat d0 = a" "unat d1 = b" "unat d2 = c" "unat c0 = A" "unat c1 = B" "unat c2 = C"
    "unat g0 = a * A" "unat g1 = b * B" "unat g2 = c * C" "0 < a" "0 < b" "0 < c"
    "unat (ct_cluster_size_xy t) = a * b" "unat (ct_cluster_size t) = a * b * c"
    "unat (ct_grid_threads t) = a * A * (b * B) * (c * C)"
  using assms by (auto simp: topo_def)

lemma topo_bounds:
  assumes "topo t (a, b, c) (A, B, C)"
  shows "a * A < 2 ^ 64" "b * B < 2 ^ 64" "c * C < 2 ^ 64" "a * A * (b * B) * (c * C) < 2 ^ 64" "a * b * c < 2 ^ 64"
proof -
  from assms obtain d0 d1 d2 g0 g1 g2 c0 c1 c2 where f: "ct_grid_dims t = (g0, g1, g2)"
    "unat g0 = a * A" "unat g1 = b * B" "unat g2 = c * C" "unat (ct_cluster_size t) = a * b * c"
    "unat (ct_grid_threads t) = a * A * (b * B) * (c * C)" by (rule topoE)
  show "a * A < 2 ^ 64" "b * B < 2 ^ 64" "c * C < 2 ^ 64"
    using unat_lt_u64 [of "ucast g0"] unat_lt_u64 [of "ucast g1"] unat_lt_u64 [of "ucast g2"] f(2-4)
    by (simp_all only: unat_ucast_32_64)
  show "a * A * (b * B) * (c * C) < 2 ^ 64" "a * b * c < 2 ^ 64"
    using unat_lt_u64 [of "ct_grid_threads t"] unat_lt_u64 [of "ct_cluster_size t"] f(5,6) by simp_all
qed

lemma grid_product_lt:
  assumes "topo t (a, b, c) (A, B, C)" "0 < C"
  shows "a * A * (b * B) < 2 ^ 64"
proof -
  have c: "0 < c" using assms(1) by (rule topoE)
  have "a * A * (b * B) * 1 \<le> a * A * (b * B) * (c * C)"
    using assms(2) c by (intro mult_left_mono) (simp_all add: Suc_le_eq)
  then show ?thesis using topo_bounds(4) [OF assms(1)] by linarith
qed

lemma unat_decode_cta:
  assumes "topo t (a, b, c) (A, B, C)" "0 < C"
  shows "map_prod unat (map_prod unat unat) (decode_cta t cta) = digits (a * A) (b * B) (unat cta)"
  using assms grid_product_lt [OF assms]
  by (elim topoE) (simp add: decode_cta_def digits_def unat_div unat_mod unat_mul_no_wrap)

lemma unat_cluster_id:
  assumes T: "topo t (a, b, c) (A, B, C)" and n: "unat cta < a * A * (b * B) * (c * C)"
  shows "unat (cluster_id t cta) = undigits A B (tile (a, b, c) (digits (a * A) (b * B) (unat cta)))"
    and "unat (cta_rank t cta) = undigits a b (within (a, b, c) (digits (a * A) (b * B) (unat cta)))"
proof -
  have C: "0 < C" "0 < B" using n by (auto intro!: gr0I)
  obtain x y z where dec: "decode_cta t cta = (x, y, z)" by (cases "decode_cta t cta") auto
  then have dig: "digits (a * A) (b * B) (unat cta) = (unat x, unat y, unat z)"
    using unat_decode_cta [OF T C(1), of cta] by simp
  have box: "in_box (a * A) (b * B) (c * C) (unat x, unat y, unat z)" using digits_in_box [OF n] dig by simp
  from T obtain d0 d1 d2 g0 g1 g2 c0 c1 c2 where f: "ct_dims t = (d0, d1, d2)" "ct_cluster_grid t = (c0, c1, c2)"
      "unat d0 = a" "unat d1 = b" "unat d2 = c" "unat c0 = A" "unat c1 = B" "0 < a" "0 < b" "0 < c"
      "unat (ct_cluster_size_xy t) = a * b" "unat (ct_cluster_size t) = a * b * c"
    by (rule topoE)
  note tot = topo_bounds(4) [OF T]
  have tiles: "in_box A B C (tile (a, b, c) (unat x, unat y, unat z))"
    "in_box a b c (within (a, b, c) (unat x, unat y, unat z))"
    using tile_in_box [OF box] f by auto
  have "A * B * C \<le> a * A * (b * B) * (c * C)"
    using f by (intro mult_le_mono) auto
  then have lt: "undigits A B (tile (a, b, c) (unat x, unat y, unat z)) < 2 ^ 64"
    using undigits_lt [OF tiles(1)] tot by linarith
  have lt': "undigits a b (within (a, b, c) (unat x, unat y, unat z)) < 2 ^ 64"
    using undigits_lt [OF tiles(2)] f(12) unat_lt_u64 [of "ct_cluster_size t"] by linarith
  show "unat (cluster_id t cta) = undigits A B (tile (a, b, c) (digits (a * A) (b * B) (unat cta)))"
    using unat_undigits [of c0 c1 "x div ucast d0" "y div ucast d1" "z div ucast d2"] lt f C dig
    by (simp add: cluster_id_def dec unat_div tile_def)
  have "unat (ct_cluster_size_xy t) = unat (ucast d0 * ucast d1 :: u64)"
  proof -
    have "a * b \<le> a * b * c" using f by simp
    then have "a * b < 2 ^ 64" using topo_bounds(5) [OF T] by linarith
    then show ?thesis using f unat_mul_no_wrap [of "ucast d0" "ucast d1"] by simp
  qed
  then have xy: "ct_cluster_size_xy t = ucast d0 * ucast d1" by (simp only: word_unat_eq_iff)
  show "unat (cta_rank t cta) = undigits a b (within (a, b, c) (digits (a * A) (b * B) (unat cta)))"
    using unat_undigits [of "ucast d0" "ucast d1" "x mod ucast d0" "y mod ucast d1" "z mod ucast d2"] lt' f dig
    by (simp add: cta_rank_def dec unat_mod within_def xy mult.assoc)
qed

lemma unat_cluster_count:
  assumes T: "topo t (a, b, c) (A, B, C)"
  shows "unat (cluster_count t) = A * B * C"
proof -
  from T obtain d0 d1 d2 g0 g1 g2 c0 c1 c2 where f: "ct_cluster_grid t = (c0, c1, c2)"
      "unat c0 = A" "unat c1 = B" "unat c2 = C" "0 < a" "0 < b" "0 < c"
    by (rule topoE)
  show ?thesis
  proof (cases "C = 0")
    case True
    then have "c2 = 0" using f by (simp add: unat_eq_zero)
    then show ?thesis using f True by (simp add: cluster_count_def)
  next
    case False
    have "A * B \<le> a * A * (b * B)" "A * B * C \<le> a * A * (b * B) * (c * C)"
      using f by (auto intro!: mult_le_mono)
    then have "A * B < 2 ^ 64" "A * B * C < 2 ^ 64"
      using grid_product_lt [OF T] False topo_bounds(4) [OF T] by linarith+
    then show ?thesis
      using f unat_mul_no_wrap [of c0 c1] unat_mul_no_wrap [of "c0 * c1" c2] by (simp add: cluster_count_def)
  qed
qed

lemma unat_grid_cta:
  assumes T: "topo t (a, b, c) (A, B, C)" and k: "unat k < A * B * C" and r: "unat r < a * b * c"
  shows "unat (grid_cta t k r) =
    undigits (a * A) (b * B) (untile (a, b, c) (digits A B (unat k)) (digits a b (unat r)))"
proof -
  from T obtain d0 d1 d2 g0 g1 g2 c0 c1 c2 where f: "ct_dims t = (d0, d1, d2)" "ct_cluster_grid t = (c0, c1, c2)"
      "ct_grid_dims t = (g0, g1, g2)" "unat g0 = a * A" "unat g1 = b * B"
      "unat d0 = a" "unat d1 = b" "unat d2 = c" "unat c0 = A" "unat c1 = B" "0 < a" "0 < b" "0 < c"
      "unat (ct_cluster_size_xy t) = a * b"
    by (rule topoE)
  note tot = topo_bounds(4) [OF T]
  have pos: "0 < A" "0 < B" "0 < C" using k by (auto intro!: gr0I)
  obtain px py pz qx qy qz where pq: "digits A B (unat k) = (px, py, pz)" "digits a b (unat r) = (qx, qy, qz)"
    by (metis prod_cases3)
  have boxes: "in_box A B C (px, py, pz)" "in_box a b c (qx, qy, qz)"
    using digits_in_box [OF k] digits_in_box [OF r] pq by simp_all
  have box: "in_box (a * A) (b * B) (c * C) (px * a + qx, py * b + qy, pz * c + qz)"
    using untile_in_box [OF boxes] by (simp add: untile_def)
  have lt: "undigits (a * A) (b * B) (px * a + qx, py * b + qy, pz * c + qz) < 2 ^ 64"
    using undigits_lt [OF box] tot by linarith
  note small = topo_bounds(1-3) [OF T]
  have "A * B \<le> a * A * (b * B)" using f by (intro mult_le_mono) auto
  then have "A * B < 2 ^ 64" using grid_product_lt [OF T pos(3)] by linarith
  then have c01: "unat (c0 * c1) = A * B" using unat_mul_no_wrap [of c0 c1] f by simp
  have dig: "unat (k mod c0) = px" "unat (k div c0 mod c1) = py" "unat (k div (c0 * c1)) = pz"
    "unat (r mod ucast d0) = qx" "unat (r div ucast d0 mod ucast d1) = qy" "unat (r div ct_cluster_size_xy t) = qz"
    using pq f c01 by (simp_all add: digits_def unat_div unat_mod)
  have coord: "unat (p * d + q) = unat p * unat d + unat q" if "unat p * unat d + unat q < N" "N < 2 ^ 64"
    for p d q :: u64 and N
    using that by (subst unat_add_no_wrap) (auto simp: unat_mul_no_wrap)
  have xyz: "unat (k mod c0 * ucast d0 + r mod ucast d0) = px * a + qx"
    "unat (k div c0 mod c1 * ucast d1 + r div ucast d0 mod ucast d1) = py * b + qy"
    "unat (k div (c0 * c1) * ucast d2 + r div ct_cluster_size_xy t) = pz * c + qz"
    using box small dig f(6-8)
      coord [of "k mod c0" "ucast d0" "r mod ucast d0" "a * A"]
      coord [of "k div c0 mod c1" "ucast d1" "r div ucast d0 mod ucast d1" "b * B"]
      coord [of "k div (c0 * c1)" "ucast d2" "r div ct_cluster_size_xy t" "c * C"]
    by (simp_all add: in_box_def)
  have "0 < unat (ucast g1 :: u64)" using f pos by simp
  from unat_undigits [OF _ this, of "ucast g0" "k mod c0 * ucast d0 + r mod ucast d0"
      "k div c0 mod c1 * ucast d1 + r div ucast d0 mod ucast d1" "k div (c0 * c1) * ucast d2 + r div ct_cluster_size_xy t"]
  show ?thesis
    using lt by (simp only: xyz unat_ucast_32_64 f) (simp add: grid_cta_def Let_def untile_def f pq)
qed

subsection \<open>What \<open>build\<close> accepts\<close>

lemma build_enabled_topo:
  assumes "build (Some (d0, d1, d2)) gx gy gz = Inr t" "gx \<noteq> 0" "gy \<noteq> 0" "gz \<noteq> 0"
  shows "topo t (unat d0, unat d1, unat d2) (unat gx div unat d0, unat gy div unat d1, unat gz div unat d2)"
    and "ct_grid_dims t = (gx, gy, gz)"
proof -
  let ?g = "\<lambda>g :: u32. ucast g :: u64"
  have nz: "d0 \<noteq> 0" "d1 \<noteq> 0" "d2 \<noteq> 0"
    and ov: "\<not> mul_overflows (?g gx) (?g gy)" "\<not> mul_overflows (?g gx * ?g gy) (?g gz)"
      "\<not> mul_overflows (?g d0) (?g d1)" "\<not> mul_overflows (?g d0 * ?g d1) (?g d2)"
    and md: "gx mod d0 = 0" "gy mod d1 = 0" "gz mod d2 = 0"
    and t: "t = default_topology\<lparr>ct_grid_threads := ?g gx * ?g gy * ?g gz, ct_grid_dims := (gx, gy, gz),
       ct_enabled := True, ct_dims := (d0, d1, d2), ct_cluster_size := ?g d0 * ?g d1 * ?g d2,
       ct_cluster_size_xy := ?g d0 * ?g d1, ct_cluster_grid := (?g gx div ?g d0, ?g gy div ?g d1, ?g gz div ?g d2)\<rparr>"
    using assms(1) by (auto simp: build_def Let_def split: if_splits)
  have m: "unat (?g gx * ?g gy) = unat gx * unat gy" "unat (?g gx * ?g gy * ?g gz) = unat gx * unat gy * unat gz"
    "unat (?g d0 * ?g d1) = unat d0 * unat d1" "unat (?g d0 * ?g d1 * ?g d2) = unat d0 * unat d1 * unat d2"
    using ov by (simp_all add: mul_overflows_iff unat_mul_no_wrap)
  have q: "unat g = unat d * (unat g div unat d)" if "g mod d = 0" for g d :: u32
  proof -
    have "unat g mod unat d = 0" using that by (metis unat_mod unat_eq_zero)
    then show ?thesis by (simp add: mod_eq_0_iff_dvd)
  qed
  show "topo t (unat d0, unat d1, unat d2) (unat gx div unat d0, unat gy div unat d1, unat gz div unat d2)"
    unfolding topo_def t using nz m q [OF md(1)] q [OF md(2)] q [OF md(3)]
    by (simp add: unat_div unat_gt_0)
  show "ct_grid_dims t = (gx, gy, gz)" by (simp add: t)
qed

text \<open>C40: On every topology \<open>build\<close> enables over a grid without empty axis, each CTA of the grid has a
  cluster number and a rank in range, and translating the pair back gives the CTA.\<close>

theorem cta_to_cluster_and_back:
  assumes "build (Some d) gx gy gz = Inr t" "gx \<noteq> 0" "gy \<noteq> 0" "gz \<noteq> 0" "cta < ct_grid_threads t"
  shows "cluster_id t cta < cluster_count t \<and> valid_rank t (cta_rank t cta) \<and>
    grid_cta t (cluster_id t cta) (cta_rank t cta) = cta"
proof -
  obtain d0 d1 d2 where d: "d = (d0, d1, d2)" by (cases d)
  obtain a b c A B C where T: "topo t (a, b, c) (A, B, C)"
    using build_enabled_topo(1) assms d by blast
  have n: "unat cta < a * A * (b * B) * (c * C)"
    using T assms(5) by (auto elim!: topoE simp: word_less_nat_alt)
  note id = unat_cluster_id [OF T n]
  from T have pos: "0 < a" "0 < b" "0 < c" by (auto elim!: topoE)
  let ?p = "digits (a * A) (b * B) (unat cta)"
  have box: "in_box (a * A) (b * B) (c * C) ?p" by (rule digits_in_box [OF n])
  note tb = tile_in_box [OF box pos]
  have kr: "unat (cluster_id t cta) < A * B * C" "unat (cta_rank t cta) < a * b * c"
    using undigits_lt [OF tb(1)] undigits_lt [OF tb(2)] id by simp_all
  have "unat (grid_cta t (cluster_id t cta) (cta_rank t cta)) = unat cta"
    by (simp add: unat_grid_cta [OF T kr] id digits_undigits [OF tb(1)] digits_undigits [OF tb(2)]
        untile_tile undigits_digits)
  moreover have "unat (cluster_count t) = A * B * C" by (rule unat_cluster_count [OF T])
  moreover have "unat (ct_cluster_size t) = a * b * c" using T by (rule topoE)
  ultimately show ?thesis
    using kr by (simp add: valid_rank_def word_less_nat_alt word_unat_eq_iff)
qed

text \<open>Conversely every cluster number and rank in range name a CTA of the grid, whose cluster and rank
  they are: the translation is a bijection.\<close>

theorem cluster_and_rank_to_cta:
  assumes "build (Some d) gx gy gz = Inr t" "gx \<noteq> 0" "gy \<noteq> 0" "gz \<noteq> 0"
    and "k < cluster_count t" "valid_rank t r"
  shows "grid_cta t k r < ct_grid_threads t \<and> cluster_id t (grid_cta t k r) = k \<and> cta_rank t (grid_cta t k r) = r"
proof -
  obtain d0 d1 d2 where d: "d = (d0, d1, d2)" by (cases d)
  obtain a b c A B C where T: "topo t (a, b, c) (A, B, C)"
    using build_enabled_topo(1) assms d by blast
  have k: "unat k < A * B * C" using assms(5) unat_cluster_count [OF T] by (simp add: word_less_nat_alt)
  have r: "unat r < a * b * c" using assms(6) T by (auto elim!: topoE simp: valid_rank_def word_less_nat_alt)
  note boxes = digits_in_box [OF k] digits_in_box [OF r]
  note box = untile_in_box [OF boxes]
  note g = unat_grid_cta [OF T k r]
  have n: "unat (grid_cta t k r) < a * A * (b * B) * (c * C)" using undigits_lt [OF box] g by simp
  have "unat (cluster_id t (grid_cta t k r)) = unat k" "unat (cta_rank t (grid_cta t k r)) = unat r"
    by (simp_all add: unat_cluster_id [OF T n] g digits_undigits [OF box] tile_untile [OF boxes(2)] undigits_digits)
  moreover have "unat (ct_grid_threads t) = a * A * (b * B) * (c * C)" using T by (rule topoE)
  ultimately show ?thesis using n by (simp add: word_less_nat_alt word_unat_eq_iff)
qed

lemma demo_build: "build (Some (2, 1, 2)) 4 3 2 =
  Inr \<lparr>ct_enabled = True, ct_dims = (2, 1, 2), ct_grid_dims = (4, 3, 2), ct_cluster_grid = (2, 3, 1),
       ct_cluster_size = 4, ct_cluster_size_xy = 2, ct_grid_threads = 24\<rparr>"
  by (simp add: build_def mul_overflows_def default_topology_def kMaxClusterSize_def Let_def)

theorem cta_to_cluster_and_back_witness:
  "\<exists>t. build (Some (2, 1, 2)) 4 3 2 = Inr t \<and> grid_cta t (cluster_id t 17) (cta_rank t 17) = 17"
  using cta_to_cluster_and_back [OF demo_build, of 17] demo_build by auto

theorem cluster_and_rank_to_cta_witness:
  "\<exists>t. build (Some (2, 1, 2)) 4 3 2 = Inr t \<and> cluster_id t (grid_cta t 5 3) = 5 \<and> cta_rank t (grid_cta t 5 3) = 3"
  using cluster_and_rank_to_cta [OF demo_build, of 5 3] demo_build
  by (auto simp: cluster_count_def valid_rank_def)

text \<open>The outcome of \<open>build\<close>: without cluster dimensions it succeeds with clusters disabled (the
  grid product permitting); with them it succeeds exactly when they are non-zero, multiply to at
  most eight and divide the grid on every axis. A grid with an empty axis is accepted.\<close>

theorem build_accepts:
  "(\<exists>t. build cd gx gy gz = Inr t) \<longleftrightarrow>
     unat gx * unat gy * unat gz < 2 ^ 64 \<and>
     (case cd of None \<Rightarrow> True
      | Some (d0, d1, d2) \<Rightarrow> d0 \<noteq> 0 \<and> d1 \<noteq> 0 \<and> d2 \<noteq> 0 \<and> unat d0 * unat d1 * unat d2 \<le> 8 \<and>
          unat d0 dvd unat gx \<and> unat d1 dvd unat gy \<and> unat d2 dvd unat gz)"
proof -
  have xy: "unat x * unat y < 2 ^ 64" for x y :: u32
  proof -
    have "unat x < 2 ^ 32" "unat y < 2 ^ 32" using unsigned_less [of x, where ?'a = nat] unsigned_less [of y, where ?'a = nat] by simp_all
    then have "unat x * unat y < 2 ^ 32 * 2 ^ 32" by (intro mult_strict_mono) auto
    then show ?thesis by simp
  qed
  have m2: "\<not> mul_overflows (ucast x) (ucast y)" "unat (ucast x * ucast y :: u64) = unat x * unat y" for x y :: u32
    using xy [of x y] by (simp_all add: mul_overflows_iff unat_mul_no_wrap)
  have m3: "mul_overflows (ucast x * ucast y) (ucast z) \<longleftrightarrow> \<not> unat x * unat y * unat z < 2 ^ 64" for x y z :: u32
    by (simp add: mul_overflows_iff m2)
  have sz: "kMaxClusterSize < ucast x * ucast y * ucast z \<longleftrightarrow> \<not> unat x * unat y * unat z \<le> 8"
    if "unat x * unat y * unat z < 2 ^ 64" for x y z :: u32
    using that by (simp add: word_less_nat_alt unat_mul_no_wrap m2 kMaxClusterSize_def not_le)
  have dv: "g mod d = 0 \<longleftrightarrow> unat d dvd unat g" for g d :: u32
    by (simp add: word_unat_eq_iff unat_mod mod_eq_0_iff_dvd)
  have le8: "unat x * unat y * unat z \<le> 8 \<Longrightarrow> unat x * unat y * unat z < 2 ^ 64" for x y z :: u32 by simp
  show ?thesis
  proof (cases cd)
    case None
    then show ?thesis by (simp add: build_def Let_def m2 m3)
  next
    case (Some d)
    obtain d0 d1 d2 where d: "d = (d0, d1, d2)" by (cases d)
    show ?thesis
      unfolding Some d build_def Let_def m3 option.case prod.case dv
      using m2(1) sz [of d0 d1 d2] le8 [of d0 d1 d2] by auto
  qed
qed

end
