(* ===== verification/Ordered_Map.thy ===== *)
theory Ordered_Map
  imports Semu_Prelude
begin

text \<open>
  The standard library's \<open>std::map\<close>, which several components iterate in key order
  (vector clocks, the race detector's shadow, the bank-conflict passes). It is modelled by
  an association list that is strictly sorted by key, so that iteration is list traversal.
  The interface a client may rely on is the locale \<open>ordered_dict\<close>; the list
  implementation interprets it.
\<close>

type_synonym ('k, 'v) omap = "('k \<times> 'v) list"

definition om_inv :: "('k::linorder, 'v) omap \<Rightarrow> bool" where
  "om_inv m \<longleftrightarrow> sorted_wrt (<) (map fst m)"

definition om_find :: "('k::linorder, 'v) omap \<Rightarrow> 'k \<Rightarrow> 'v option" where
  "om_find m k = map_of m k"

fun om_put :: "'k::linorder \<Rightarrow> 'v \<Rightarrow> ('k, 'v) omap \<Rightarrow> ('k, 'v) omap" where
  "om_put k v [] = [(k, v)]"
| "om_put k v ((k', v') # m) =
     (if k < k' then (k, v) # (k', v') # m
      else if k = k' then (k, v) # m
      else (k', v') # om_put k v m)"

definition om_erase_if :: "('k::linorder \<Rightarrow> bool) \<Rightarrow> ('k, 'v) omap \<Rightarrow> ('k, 'v) omap" where
  "om_erase_if P m = filter (\<lambda>(k, v). \<not> P k) m"

text \<open>\<open>m[k]\<close> on a missing key inserts a value-initialised element first.\<close>

definition om_at :: "'v \<Rightarrow> ('k::linorder, 'v) omap \<Rightarrow> 'k \<Rightarrow> 'v" where
  "om_at d m k = (case om_find m k of None \<Rightarrow> d | Some v \<Rightarrow> v)"

subsection \<open>The interface of an ordered dictionary\<close>

locale ordered_dict =
  fixes empty :: "'m"
    and find :: "'m \<Rightarrow> 'k::linorder \<Rightarrow> 'v option"
    and put :: "'k \<Rightarrow> 'v \<Rightarrow> 'm \<Rightarrow> 'm"
    and erase_if :: "('k \<Rightarrow> bool) \<Rightarrow> 'm \<Rightarrow> 'm"
    and entries :: "'m \<Rightarrow> ('k \<times> 'v) list"
    and inv :: "'m \<Rightarrow> bool"
  assumes inv_empty: "inv empty"
    and inv_put: "inv m \<Longrightarrow> inv (put k v m)"
    and inv_erase_if: "inv m \<Longrightarrow> inv (erase_if P m)"
    and find_empty: "find empty k = None"
    and find_put: "inv m \<Longrightarrow> find (put k v m) k' = (if k' = k then Some v else find m k')"
    and find_erase_if: "inv m \<Longrightarrow> find (erase_if P m) k = (if P k then None else find m k)"
    and entries_sorted: "inv m \<Longrightarrow> sorted_wrt (<) (map fst (entries m))"
    and find_entries: "inv m \<Longrightarrow> find m = map_of (entries m)"
begin

definition put_all :: "('k \<times> 'v) list \<Rightarrow> 'm \<Rightarrow> 'm" where
  "put_all ps m = fold (\<lambda>(k, v). put k v) ps m"

lemma inv_put_all: "inv m \<Longrightarrow> inv (put_all ps m)"
  by (induction ps arbitrary: m) (auto simp: put_all_def inv_put)

lemma find_put_all:
  "inv m \<Longrightarrow> find (put_all ps m) k = (case map_of (rev ps) k of Some v \<Rightarrow> Some v | None \<Rightarrow> find m k)"
proof (induction ps arbitrary: m)
  case Nil
  then show ?case by (simp add: put_all_def)
next
  case (Cons p ps)
  obtain a b where p: "p = (a, b)" by (cases p)
  have "find (put_all ps (put a b m)) k =
          (case map_of (rev ps) k of Some v \<Rightarrow> Some v | None \<Rightarrow> find (put a b m) k)"
    by (rule Cons.IH) (simp add: inv_put Cons.prems)
  then show ?case
    by (auto simp: put_all_def p find_put Cons.prems map_add_def split: option.splits)
qed

lemma entries_distinct: "inv m \<Longrightarrow> distinct (map fst (entries m))"
  using entries_sorted strict_sorted_iff by blast

lemma entries_member: "inv m \<Longrightarrow> (k, v) \<in> set (entries m) \<longleftrightarrow> find m k = Some v"
  by (simp add: find_entries entries_distinct)

end

subsection \<open>The list implementation keeps its order\<close>

lemma om_put_keys: "set (map fst (om_put k v m)) = insert k (set (map fst m))"
  by (induction k v m rule: om_put.induct) auto

lemma om_inv_Cons:
  "om_inv ((k, v) # m) \<longleftrightarrow> (\<forall>k' \<in> set (map fst m). k < k') \<and> om_inv m"
  by (simp add: om_inv_def)

lemma om_inv_Nil [simp]: "om_inv []"
  by (simp add: om_inv_def)

lemma om_inv_put [simp, inv_intros]: "om_inv m \<Longrightarrow> om_inv (om_put k v m)"
proof (induction k v m rule: om_put.induct)
  case (1 k v)
  then show ?case by (simp add: om_inv_def)
next
  case (2 k v k' v' m)
  then show ?case
    using om_put_keys [of k v m] by (auto simp: om_inv_Cons dest: less_trans)
qed

lemma om_find_put [omap_simps]:
  "om_inv m \<Longrightarrow> om_find (om_put k v m) k' = (if k' = k then Some v else om_find m k')"
proof (induction k v m rule: om_put.induct)
  case (1 k v)
  then show ?case by (simp add: om_find_def)
next
  case (2 k v k2 v2 m)
  then show ?case by (auto simp: om_find_def om_inv_Cons split: if_splits)
qed

lemma om_inv_erase_if [simp, inv_intros]: "om_inv m \<Longrightarrow> om_inv (om_erase_if P m)"
  by (induction m) (auto simp: om_erase_if_def om_inv_Cons)

lemma om_find_erase_if [omap_simps]:
  "om_find (om_erase_if P m) k = (if P k then None else om_find m k)"
  by (induction m) (auto simp: om_erase_if_def om_find_def)

lemma om_find_Nil [simp]: "om_find [] k = None"
  by (simp add: om_find_def)

interpretation omap: ordered_dict "[]" om_find om_put om_erase_if "\<lambda>m. m" om_inv
  by unfold_locales
    (simp_all add: omap_simps, simp add: om_inv_def, simp add: fun_eq_iff om_find_def)

end
