(* ===== verification/Json_Text.thy ===== *)
theory Json_Text
  imports Semu_Prelude
begin

text \<open>
  Text assembly the components share: comma-separated lists and the JSON fragments of the
  report writers. As in the sources, strings are emitted without escaping.
\<close>

fun join_comma :: "string list \<Rightarrow> string" where
  "join_comma [] = []"
| "join_comma [s] = s"
| "join_comma (s # ss) = s @ '','' @ join_comma ss"

definition dq :: string where
  "dq = [CHR 0x22]"

definition json_field :: "string \<Rightarrow> string \<Rightarrow> string" where
  "json_field k v = dq @ k @ dq @ '':'' @ v"

definition json_str :: "string \<Rightarrow> string" where
  "json_str s = dq @ s @ dq"

definition json_list :: "string list \<Rightarrow> string" where
  "json_list xs = ''['' @ join_comma xs @ '']''"

definition json_obj :: "string list \<Rightarrow> string" where
  "json_obj fields = ''{'' @ join_comma fields @ ''}''"

definition json_bool :: "bool \<Rightarrow> string" where
  "json_bool b = (if b then ''true'' else ''false'')"

end
