(* ===== verification/Hb_Clock.thy ===== *)
theory Hb_Clock
  imports Ordered_Map Json_Text
begin

text \<open>
  The happens-before vector clock (\<open>semu/core/hb_clock.hpp\<close>, \<open>src/core/hb_clock.cpp\<close>):
  actors ordered lexicographically as \<open>RaceActor::operator<\<close> does, the sparse clock as an
  ordered map from actors to 64-bit epochs, and its operations. The order \<open>dominates\<close>
  and the join \<open>merge\<close> satisfy the interface \<open>clock_order\<close>, which is all the
  race detector's synchronisation arguments use.
\<close>

subsection \<open>Actors\<close>

datatype RaceActor = RaceActor (ra_launch: u32) (ra_sm: u32) (ra_cta: u32) (ra_warp: u32) (ra_lane: u32)

definition actor_less :: "RaceActor \<Rightarrow> RaceActor \<Rightarrow> bool" where
  "actor_less a b =
     (if ra_launch a \<noteq> ra_launch b then ra_launch a < ra_launch b
      else if ra_sm a \<noteq> ra_sm b then ra_sm a < ra_sm b
      else if ra_cta a \<noteq> ra_cta b then ra_cta a < ra_cta b
      else if ra_warp a \<noteq> ra_warp b then ra_warp a < ra_warp b
      else ra_lane a < ra_lane b)"

instantiation RaceActor :: linorder
begin

definition less_RaceActor :: "RaceActor \<Rightarrow> RaceActor \<Rightarrow> bool" where
  "less_RaceActor = actor_less"

definition less_eq_RaceActor :: "RaceActor \<Rightarrow> RaceActor \<Rightarrow> bool" where
  "less_eq_RaceActor a b \<longleftrightarrow> actor_less a b \<or> a = b"

instance
proof
  fix x y z :: RaceActor
  show "x < y \<longleftrightarrow> x \<le> y \<and> \<not> y \<le> x"
    by (auto simp: less_RaceActor_def less_eq_RaceActor_def actor_less_def split: if_splits)
  show "x \<le> x"
    by (simp add: less_eq_RaceActor_def)
  show "x \<le> y \<Longrightarrow> y \<le> z \<Longrightarrow> x \<le> z"
    by (auto simp: less_eq_RaceActor_def actor_less_def split: if_splits)
  show "x \<le> y \<Longrightarrow> y \<le> x \<Longrightarrow> x = y"
    by (auto simp: less_eq_RaceActor_def actor_less_def split: if_splits)
  show "x \<le> y \<or> y \<le> x"
    by (cases x; cases y) (auto simp: less_eq_RaceActor_def actor_less_def)
qed

end

subsection \<open>The clock and its operations\<close>

type_synonym HbClock = "(RaceActor, u64) omap"

definition epoch :: "HbClock \<Rightarrow> RaceActor \<Rightarrow> u64" where
  "epoch c a = (case om_find c a of None \<Rightarrow> 0 | Some e \<Rightarrow> e)"

definition tick :: "RaceActor \<Rightarrow> HbClock \<Rightarrow> HbClock" where
  "tick a c = om_put a (epoch c a + 1) c"

fun merge :: "HbClock \<Rightarrow> HbClock \<Rightarrow> HbClock" where
  "merge c [] = c"
| "merge c ((a, e) # other) = merge (if e > epoch c a then om_put a e c else c) other"

definition acquire :: "RaceActor \<Rightarrow> HbClock \<Rightarrow> HbClock \<Rightarrow> HbClock" where
  "acquire a other c = merge (tick a c) other"

fun dominates :: "HbClock \<Rightarrow> HbClock \<Rightarrow> bool" where
  "dominates c [] = True"
| "dominates c ((a, e) # other) = (if epoch c a < e then False else dominates c other)"

definition actor_entry :: "RaceActor \<times> u64 \<Rightarrow> string" where
  "actor_entry p = (case p of (a, e) \<Rightarrow>
     ''('' @ show_u32 (ra_launch a) @ '','' @ show_u32 (ra_sm a) @ '','' @ show_u32 (ra_cta a) @
     '','' @ show_u32 (ra_warp a) @ '','' @ show_u32 (ra_lane a) @ ''):'' @ show_u64 e)"

definition clock_to_string :: "HbClock \<Rightarrow> string" where
  "clock_to_string c = ''{'' @ join_comma (map actor_entry c) @ ''}''"

subsection \<open>Epoch-wise characterisation\<close>

lemma epoch_Nil [simp]: "epoch [] a = 0"
  by (simp add: epoch_def)

lemma epoch_put: "om_inv c \<Longrightarrow> epoch (om_put a e c) b = (if b = a then e else epoch c b)"
  by (simp add: epoch_def omap_simps)

lemma om_inv_tick [simp, inv_intros]: "om_inv c \<Longrightarrow> om_inv (tick a c)"
  by (simp add: tick_def)

lemma epoch_tick: "om_inv c \<Longrightarrow> epoch (tick a c) b = (if b = a then epoch c a + 1 else epoch c b)"
  by (simp add: tick_def epoch_put)

lemma om_inv_merge [simp, inv_intros]: "om_inv c \<Longrightarrow> om_inv (merge c d)"
  by (induction c d rule: merge.induct) auto

lemma epoch_Cons: "epoch ((b, e) # d) a = (if a = b then e else epoch d a)"
  by (simp add: epoch_def om_find_def)

lemma epoch_fresh: "om_inv ((b, e) # d) \<Longrightarrow> epoch d b = 0"
  by (auto simp: om_inv_Cons epoch_def om_find_def split: option.splits dest!: map_of_SomeD)

lemma epoch_merge:
  "om_inv c \<Longrightarrow> om_inv d \<Longrightarrow> epoch (merge c d) a = max (epoch c a) (epoch d a)"
proof (induction c d rule: merge.induct)
  case (1 c)
  then show ?case by (simp add: max_def)
next
  case (2 c b e other)
  let ?c = "if e > epoch c b then om_put b e c else c"
  have "om_inv ?c" "om_inv other"
    using "2.prems" by (auto simp: om_inv_Cons)
  then have "epoch (merge c ((b, e) # other)) a = max (epoch ?c a) (epoch other a)"
    using "2.IH" by simp
  also have "\<dots> = max (epoch c a) (epoch ((b, e) # other) a)"
    using "2.prems" epoch_fresh [OF "2.prems"(2)] by (auto simp: epoch_put epoch_Cons max_def not_less)
  finally show ?case .
qed

lemma dominates_iff: "om_inv d \<Longrightarrow> dominates c d \<longleftrightarrow> (\<forall>a. epoch d a \<le> epoch c a)"
proof (induction c d rule: dominates.induct)
  case (1 c)
  then show ?case by simp
next
  case (2 c b e other)
  then have "om_inv other" by (simp add: om_inv_Cons)
  with "2.IH" have IH: "e \<le> epoch c b \<Longrightarrow> dominates c other \<longleftrightarrow> (\<forall>a. epoch other a \<le> epoch c a)"
    by (simp add: not_less)
  have "(\<forall>a. epoch ((b, e) # other) a \<le> epoch c a) \<longleftrightarrow>
          e \<le> epoch c b \<and> (\<forall>a. epoch other a \<le> epoch c a)"
  proof (intro iffI conjI allI)
    assume all: "\<forall>a. epoch ((b, e) # other) a \<le> epoch c a"
    show "e \<le> epoch c b" using all [rule_format, of b] by (simp add: epoch_Cons)
    show "epoch other a \<le> epoch c a" for a
      using all [rule_format, of a] epoch_fresh [OF "2.prems"] by (cases "a = b") (simp_all add: epoch_Cons)
  next
    fix a
    assume "e \<le> epoch c b \<and> (\<forall>a. epoch other a \<le> epoch c a)"
    then show "epoch ((b, e) # other) a \<le> epoch c a" by (simp add: epoch_Cons)
  qed
  with IH show ?case by (auto simp: not_less)
qed

subsection \<open>The interface the race detector relies on\<close>

locale clock_order =
  fixes valid :: "'c \<Rightarrow> bool"
    and bot :: "'c"
    and le :: "'c \<Rightarrow> 'c \<Rightarrow> bool" \<comment> \<open>\<open>le d c\<close>: clock \<open>c\<close> knows everything \<open>d\<close> knows\<close>
    and join :: "'c \<Rightarrow> 'c \<Rightarrow> 'c"
  assumes valid_bot: "valid bot"
    and valid_join: "valid c \<Longrightarrow> valid d \<Longrightarrow> valid (join c d)"
    and le_refl: "valid c \<Longrightarrow> le c c"
    and le_trans: "valid c \<Longrightarrow> valid d \<Longrightarrow> valid e \<Longrightarrow> le c d \<Longrightarrow> le d e \<Longrightarrow> le c e"
    and bot_least: "valid c \<Longrightarrow> le bot c"
    and join_upper1: "valid c \<Longrightarrow> valid d \<Longrightarrow> le c (join c d)"
    and join_upper2: "valid c \<Longrightarrow> valid d \<Longrightarrow> le d (join c d)"
    and join_least: "valid c \<Longrightarrow> valid d \<Longrightarrow> valid e \<Longrightarrow> le c e \<Longrightarrow> le d e \<Longrightarrow> le (join c d) e"
begin

definition joins :: "'c \<Rightarrow> 'c list \<Rightarrow> 'c" where
  "joins c ds = foldl join c ds"

lemma valid_joins: "valid c \<Longrightarrow> list_all valid ds \<Longrightarrow> valid (joins c ds)"
  by (induction ds arbitrary: c) (auto simp: joins_def valid_join)

lemma joins_start: "valid c \<Longrightarrow> list_all valid ds \<Longrightarrow> le c (joins c ds)"
proof (induction ds arbitrary: c)
  case Nil
  then show ?case by (simp add: joins_def le_refl)
next
  case (Cons d ds)
  then have "le (join c d) (joins (join c d) ds)" and v: "valid (joins (join c d) ds)"
    by (simp_all add: valid_join valid_joins)
  with Cons.prems show ?case
    by (auto simp: joins_def intro: le_trans [OF _ _ _ join_upper1] valid_join)
qed

lemma joins_upper:
  "valid c \<Longrightarrow> list_all valid ds \<Longrightarrow> d \<in> set ds \<Longrightarrow> le d (joins c ds)"
proof (induction ds arbitrary: c)
  case Nil
  then show ?case by simp
next
  case (Cons x ds)
  show ?case
  proof (cases "d \<in> set ds")
    case True
    with Cons show ?thesis by (simp add: joins_def valid_join)
  next
    case False
    with Cons.prems have d: "d = x" by simp
    have "le (join c x) (joins (join c x) ds)"
      using Cons.prems by (simp add: joins_start valid_join)
    moreover have "valid (joins (join c x) ds)"
      using Cons.prems by (simp add: valid_join valid_joins)
    ultimately show ?thesis
      using Cons.prems by (auto simp: joins_def d intro: le_trans [OF _ _ _ join_upper2] valid_join)
  qed
qed

lemma joins_least:
  "valid c \<Longrightarrow> list_all valid ds \<Longrightarrow> valid e \<Longrightarrow> le c e \<Longrightarrow> \<forall>d \<in> set ds. le d e \<Longrightarrow> le (joins c ds) e"
  by (induction ds arbitrary: c) (auto simp: joins_def valid_join join_least)

end

interpretation hb: clock_order om_inv "[]" "\<lambda>d c. dominates c d" merge
  by unfold_locales (auto simp: dominates_iff epoch_merge intro: order_trans)

end
