(* ===== verification/Race_Detector.thy ===== *)
theory Race_Detector
  imports Hb_Clock Device_Memory "HOL-Library.Char_ord" "HOL-Library.List_Lexorder"
    "HOL-Library.Product_Lexorder"
begin

text \<open>
  The happens-before race detector (\<open>semu/memory/race_detector.hpp\<close>,
  \<open>src/memory/race_detector.cpp\<close>): accesses, the interval shadow of every allocation and
  CTA, the directed happens-before test, the read-after-write, write-after-write and
  write-after-read checks, the synchronisation operations and the report set with its
  canonical keys. The mutex makes every public operation atomic, so each is one function on
  the detector state.
\<close>

subsection \<open>Data\<close>

definition kRaceLanesPerWarp :: nat where
  "kRaceLanesPerWarp = 32"

record RaceAccess =
  rc_instruction :: u64
  rc_pc :: u64
  rc_mnemonic :: string
  rc_space :: AddressSpace
  rc_alloc_id :: AllocationId
  rc_generation :: u64
  rc_cta :: u32
  rc_sm :: u32
  rc_warp :: u32
  rc_lane :: u32
  rc_begin :: u64
  rc_end :: u64
  rc_is_write :: bool
  rc_is_atomic :: bool
  rc_atomic_op :: string
  rc_mem_order :: string
  rc_scope :: string
  rc_order_scope_ok :: string

definition actor :: "RaceAccess \<Rightarrow> RaceActor" where
  "actor a = RaceActor 0 (rc_sm a) (rc_cta a) (rc_warp a) (rc_lane a)"

record RaceReport =
  rr_first :: RaceAccess
  rr_second :: RaceAccess
  rr_overlap_begin :: u64
  rr_overlap_end :: u64
  rr_reason :: string
  rr_sync_chain :: string
  rr_occurrence :: u64
  rr_key :: string

text \<open>\<open>si_write\<close> holds the pair of last writer and its clock when \<open>has_write\<close> is set.\<close>

record ShadowInterval =
  si_begin :: u64
  si_end :: u64
  si_write :: "(RaceAccess \<times> HbClock) option"
  si_readers :: "(RaceActor, RaceAccess \<times> HbClock) omap"

type_synonym Shadow = "(u64, ShadowInterval) omap"

datatype ReleaseKey = ReleaseKey (rk_space: AddressSpace) (rk_domain: u64) (rk_gen: u64) (rk_begin: u64) (rk_end: u64)

fun space_code :: "AddressSpace \<Rightarrow> nat" where
  "space_code kGlobal = 0" | "space_code kConstant = 1" | "space_code kShared = 2" | "space_code kLocal = 3"

lemma space_code_inject [simp]: "space_code a = space_code b \<longleftrightarrow> a = b"
  by (cases a; cases b) simp_all

definition release_key_less :: "ReleaseKey \<Rightarrow> ReleaseKey \<Rightarrow> bool" where
  "release_key_less a b =
     (if rk_space a \<noteq> rk_space b then space_code (rk_space a) < space_code (rk_space b)
      else if rk_domain a \<noteq> rk_domain b then rk_domain a < rk_domain b
      else if rk_gen a \<noteq> rk_gen b then rk_gen a < rk_gen b
      else if rk_begin a \<noteq> rk_begin b then rk_begin a < rk_begin b
      else rk_end a < rk_end b)"

instantiation ReleaseKey :: linorder
begin

definition less_ReleaseKey :: "ReleaseKey \<Rightarrow> ReleaseKey \<Rightarrow> bool" where
  "less_ReleaseKey = release_key_less"

definition less_eq_ReleaseKey :: "ReleaseKey \<Rightarrow> ReleaseKey \<Rightarrow> bool" where
  "less_eq_ReleaseKey a b \<longleftrightarrow> release_key_less a b \<or> a = b"

instance
proof
  fix x y z :: ReleaseKey
  show "x < y \<longleftrightarrow> x \<le> y \<and> \<not> y \<le> x"
    by (auto simp: less_ReleaseKey_def less_eq_ReleaseKey_def release_key_less_def split: if_splits)
  show "x \<le> x"
    by (simp add: less_eq_ReleaseKey_def)
  show "x \<le> y \<Longrightarrow> y \<le> z \<Longrightarrow> x \<le> z"
    by (auto simp: less_eq_ReleaseKey_def release_key_less_def split: if_splits)
  show "x \<le> y \<Longrightarrow> y \<le> x \<Longrightarrow> x = y"
    by (auto simp: less_eq_ReleaseKey_def release_key_less_def split: if_splits)
  show "x \<le> y \<or> y \<le> x"
    using neq_iff [of "space_code (rk_space x)" "space_code (rk_space y)"]
    by (cases x; cases y) (auto simp: less_eq_ReleaseKey_def release_key_less_def)
qed

end

record ReleaseRecord =
  rl_actor :: RaceActor
  rl_scope :: string
  rl_clock :: HbClock

record RaceDetector =
  rd_enabled :: bool
  rd_global_shadow :: "(u64 \<times> u64, Shadow) omap"
  rd_shared_shadow :: "(u32, Shadow) omap"
  rd_clocks :: "(RaceActor, HbClock) omap"
  rd_release_clocks :: "(ReleaseKey, ReleaseRecord list) omap"
  rd_generations :: "(u64, u64) omap"
  rd_reports :: "(string, RaceReport) omap"

definition new_detector :: RaceDetector where
  "new_detector = \<lparr>rd_enabled = False, rd_global_shadow = [], rd_shared_shadow = [], rd_clocks = [],
     rd_release_clocks = [], rd_generations = [], rd_reports = []\<rparr>"

subsection \<open>Orders, scopes and the happens-before test\<close>

definition actor_str :: "RaceAccess \<Rightarrow> string" where
  "actor_str a = ''l'' @ show_u32 (ra_launch (actor a)) @ '':sm'' @ show_u32 (ra_sm (actor a)) @
     '':c'' @ show_u32 (ra_cta (actor a)) @ '':w'' @ show_u32 (ra_warp (actor a)) @
     '':L'' @ show_u32 (ra_lane (actor a))"

definition is_release_order :: "string \<Rightarrow> bool" where
  "is_release_order s \<longleftrightarrow> s = ''release'' \<or> s = ''acq_rel'' \<or> s = ''sc'' \<or> s = ''strong''"

definition is_acquire_order :: "string \<Rightarrow> bool" where
  "is_acquire_order s \<longleftrightarrow> s = ''acquire'' \<or> s = ''acq_rel'' \<or> s = ''sc'' \<or> s = ''strong''"

definition classify_order_scope :: "string \<Rightarrow> string \<Rightarrow> string" where
  "classify_order_scope sem sco =
     (let ord = (if sem = [] then ''relaxed'' else sem)
      in if ord = ''WEAK'' \<or> ord = ''weak'' \<or> ord = ''relaxed'' then ''supported''
         else if ord = ''MMIO'' \<or> ord = ''mmio'' then ''race-analysis-unsupported''
         else if ord = ''STRONG'' \<or> ord = ''strong'' \<or> ord = ''acq_rel'' \<or> ord = ''acquire'' \<or>
                 ord = ''release'' \<or> ord = ''sc'' then
           (if sco = [] \<or> sco = ''nosco'' \<or> sco = ''cta'' \<or> sco = ''sm'' \<or> sco = ''vc'' \<or>
               sco = ''gpu'' \<or> sco = ''sys'' then ''supported'' else ''race-analysis-unsupported'')
         else ''race-analysis-unsupported'')"

definition scope_visible :: "RaceAccess \<Rightarrow> RaceActor \<Rightarrow> bool" where
  "scope_visible a other =
     (let s = rc_scope a
      in if s = ''sys'' then True
         else if s = ''gpu'' \<or> s = ''vc'' then True
         else if s = ''sm'' then rc_sm a = ra_sm other
         else if s = ''cta'' \<or> s = ''nosco'' then rc_cta a = ra_cta other
         else False)"

definition happens_before :: "RaceAccess \<Rightarrow> HbClock \<Rightarrow> RaceAccess \<Rightarrow> HbClock \<Rightarrow> bool \<times> string" where
  "happens_before prior prior_clock current current_clock =
     (let pa = actor prior; ca = actor current
      in if pa = ca then
           (if rc_instruction prior < rc_instruction current then (True, ''same-lane program order'')
            else (False, ''later instruction of same lane''))
         else if ra_sm pa = ra_sm ca \<and> ra_cta pa = ra_cta ca \<and> ra_warp pa = ra_warp ca then
           (if rc_instruction prior < rc_instruction current then (True, ''same-warp program order'')
            else (False, ''concurrent lanes of one warp instruction''))
         else if dominates current_clock prior_clock then
           (True, ''vector clock: prior visible to current via sync chain'')
         else (False, ''no happens-before edge (no barrier/atomic/fence sync)''))"

definition current_generation :: "RaceDetector \<Rightarrow> AllocationId \<Rightarrow> u64" where
  "current_generation d i = om_at 0 (rd_generations d) i"

definition key_of :: "RaceDetector \<Rightarrow> RaceAccess \<Rightarrow> ReleaseKey" where
  "key_of d a =
     ReleaseKey (rc_space a)
       (if rc_space a = kShared then ucast (rc_cta a) else rc_alloc_id a)
       (if rc_space a = kGlobal then current_generation d (rc_alloc_id a) else rc_generation a)
       (rc_begin a) (rc_end a)"

subsection \<open>Reports\<close>

definition dedup_key :: "RaceAccess \<Rightarrow> RaceAccess \<Rightarrow> u64 \<Rightarrow> u64 \<Rightarrow> string" where
  "dedup_key a b ob oe =
     (let sa = actor_str a; sb = actor_str b;
          first = (if sa < sb then sa else sb); second = (if sa < sb then sb else sa)
      in first @ ''<->'' @ second @ '':'' @ show_u64 ob @ ''-'' @ show_u64 oe @ '':'' @
         (if rc_space a = kShared then ''shared'' else ''global''))"

type_synonym ReportSt = "(string, RaceReport) omap \<times> RaceReport list"

definition report :: "RaceAccess \<Rightarrow> RaceAccess \<Rightarrow> u64 \<Rightarrow> u64 \<Rightarrow> string \<Rightarrow> ReportSt \<Rightarrow> ReportSt" where
  "report first second ob oe why st =
     (case st of (reps, out) \<Rightarrow>
        let key = dedup_key first second ob oe;
            r = \<lparr>rr_first = first, rr_second = second, rr_overlap_begin = ob, rr_overlap_end = oe,
                 rr_reason = (if why = [] then ''no happens-before'' else why), rr_sync_chain = ''none'',
                 rr_occurrence = 1, rr_key = key\<rparr>
        in case om_find reps key of
             Some r0 \<Rightarrow> (om_put key (r0\<lparr>rr_occurrence := rr_occurrence r0 + 1\<rparr>) reps, out)
           | None \<Rightarrow> (om_put key r reps, out @ [r]))"

definition writer_exempt :: "RaceAccess \<Rightarrow> ShadowInterval \<Rightarrow> bool" where
  "writer_exempt access iv =
     (case si_write iv of
        None \<Rightarrow> False
      | Some (w, _) \<Rightarrow> rc_is_atomic w \<and> rc_is_atomic access \<and> rc_begin access = rc_begin w \<and> rc_end access = rc_end w)"

definition check_against :: "RaceAccess \<Rightarrow> HbClock \<Rightarrow> u64 \<Rightarrow> u64 \<Rightarrow> RaceAccess \<times> HbClock \<Rightarrow> ReportSt \<Rightarrow> ReportSt" where
  "check_against access clock ob oe p st =
     (case happens_before (fst p) (snd p) access clock of
        (True, _) \<Rightarrow> st
      | (False, why) \<Rightarrow> report (fst p) access ob oe why st)"

definition check_interval :: "RaceAccess \<Rightarrow> HbClock \<Rightarrow> ShadowInterval \<Rightarrow> u64 \<Rightarrow> u64 \<Rightarrow> ReportSt \<Rightarrow> ReportSt" where
  "check_interval access clock iv ob oe st =
     (let st = (case si_write iv of
                  Some w \<Rightarrow> if \<not> writer_exempt access iv then check_against access clock ob oe w st else st
                | None \<Rightarrow> st)
      in if rc_is_write access
         then foldl (\<lambda>st (_, rr). check_against access clock ob oe rr st) st (si_readers iv)
         else st)"

definition reports :: "RaceDetector \<Rightarrow> RaceReport list" where
  "reports d = map snd (rd_reports d)"

definition json_side :: "RaceAccess \<Rightarrow> string" where
  "json_side a = json_obj
     [json_field ''pc'' (show_u64 (rc_pc a)), json_field ''insn'' (json_str (rc_mnemonic a)),
      json_field ''kind'' (json_str (if rc_is_write a then ''write'' else ''read'')),
      json_field ''actor'' (json_str (actor_str a)), json_field ''order'' (json_str (rc_mem_order a)),
      json_field ''scope'' (json_str (rc_scope a)),
      json_field ''order_scope_ok'' (json_str (rc_order_scope_ok a)),
      json_field ''atomic'' (json_bool (rc_is_atomic a))]"

definition json_report :: "RaceReport \<Rightarrow> string" where
  "json_report r = json_obj
     [json_field ''key'' (json_str (rr_key r)), json_field ''count'' (show_u64 (rr_occurrence r)),
      json_field ''overlap'' (json_list [show_u64 (rr_overlap_begin r), show_u64 (rr_overlap_end r)]),
      json_field ''reason'' (json_str (rr_reason r)), json_field ''sync'' (json_str (rr_sync_chain r)),
      json_field ''a'' (json_side (rr_first r)), json_field ''b'' (json_side (rr_second r))]"

definition reports_to_json :: "RaceDetector \<Rightarrow> string" where
  "reports_to_json d = json_list (map json_report (reports d))"

subsection \<open>Observing an access\<close>

text \<open>The interval a write or a read leaves on bytes no interval covered.\<close>

definition fresh_interval :: "RaceAccess \<Rightarrow> HbClock \<Rightarrow> u64 \<Rightarrow> u64 \<Rightarrow> ShadowInterval" where
  "fresh_interval acc clock b e =
     (if rc_is_write acc then \<lparr>si_begin = b, si_end = e, si_write = Some (acc, clock), si_readers = []\<rparr>
      else \<lparr>si_begin = b, si_end = e, si_write = None, si_readers = [(actor acc, (acc, clock))]\<rparr>)"

definition covered_interval :: "RaceAccess \<Rightarrow> HbClock \<Rightarrow> ShadowInterval \<Rightarrow> u64 \<Rightarrow> u64 \<Rightarrow> ShadowInterval" where
  "covered_interval acc clock iv b e =
     (if rc_is_write acc then \<lparr>si_begin = b, si_end = e, si_write = Some (acc, clock), si_readers = []\<rparr>
      else \<lparr>si_begin = b, si_end = e, si_write = si_write iv,
            si_readers = om_put (actor acc) (acc, clock) (si_readers iv)\<rparr>)"

definition pieces :: "RaceAccess \<Rightarrow> HbClock \<Rightarrow> u64 \<Rightarrow> ShadowInterval \<Rightarrow> Shadow" where
  "pieces acc clock pos iv =
     (let ob = max (rc_begin acc) (si_begin iv); oe = min (rc_end acc) (si_end iv)
      in (if si_begin iv < ob then [(si_begin iv, iv\<lparr>si_end := ob\<rparr>)] else []) @
         (if pos < ob then [(pos, fresh_interval acc clock pos ob)] else []) @
         [(ob, covered_interval acc clock iv ob oe)] @
         (if oe < si_end iv then [(oe, iv\<lparr>si_begin := oe\<rparr>)] else []))"

text \<open>
  The loop over the shadow map: the intervals that stay, the replacement pieces in order, the
  end of the region handled so far, and the reports.
\<close>

fun observe_loop :: "RaceAccess \<Rightarrow> HbClock \<Rightarrow> Shadow \<Rightarrow> u64 \<Rightarrow> ReportSt \<Rightarrow> Shadow \<times> Shadow \<times> u64 \<times> ReportSt" where
  "observe_loop acc clock [] pos st = ([], [], pos, st)"
| "observe_loop acc clock ((k, iv) # rest) pos st =
     (if si_end iv \<le> rc_begin acc then
        (case observe_loop acc clock rest pos st of (kept, repl, p, st') \<Rightarrow> ((k, iv) # kept, repl, p, st'))
      else if rc_end acc \<le> si_begin iv then ((k, iv) # rest, [], pos, st)
      else
        let ob = max (rc_begin acc) (si_begin iv); oe = min (rc_end acc) (si_end iv);
            st' = check_interval acc clock iv ob oe st
        in case observe_loop acc clock rest oe st' of
             (kept, repl, p, st'') \<Rightarrow> (kept, pieces acc clock pos iv @ repl, p, st''))"

definition trailing_gap :: "RaceAccess \<Rightarrow> HbClock \<Rightarrow> u64 \<Rightarrow> Shadow" where
  "trailing_gap acc clock pos =
     (if pos < rc_end acc then [(pos, fresh_interval acc clock pos (rc_end acc))] else [])"

definition observe_shadow :: "RaceAccess \<Rightarrow> HbClock \<Rightarrow> Shadow \<Rightarrow> ReportSt \<Rightarrow> Shadow \<times> ReportSt" where
  "observe_shadow acc clock sh st =
     (case observe_loop acc clock sh (rc_begin acc) st of (kept, repl, pos, st') \<Rightarrow>
        (foldl (\<lambda>m (k, iv). om_put k iv m) kept (repl @ trailing_gap acc clock pos), st'))"

definition observe :: "RaceAccess \<Rightarrow> RaceDetector \<Rightarrow> RaceReport list \<times> RaceDetector" where
  "observe access d =
     (let a = actor access;
          acc = (if rc_space access = kGlobal
                 then access\<lparr>rc_generation := current_generation d (rc_alloc_id access)\<rparr> else access);
          clock = tick a (om_at [] (rd_clocks d) a);
          d = d\<lparr>rd_clocks := om_put a clock (rd_clocks d)\<rparr>
      in if rc_space acc = kShared then
           (case observe_shadow acc clock (om_at [] (rd_shared_shadow d) (rc_cta acc)) (rd_reports d, []) of
              (sh, reps, out) \<Rightarrow>
                (out, d\<lparr>rd_shared_shadow := om_put (rc_cta acc) sh (rd_shared_shadow d), rd_reports := reps\<rparr>))
         else
           (let gk = (rc_alloc_id acc, rc_generation acc)
            in case observe_shadow acc clock (om_at [] (rd_global_shadow d) gk) (rd_reports d, []) of
                 (sh, reps, out) \<Rightarrow>
                   (out, d\<lparr>rd_global_shadow := om_put gk sh (rd_global_shadow d), rd_reports := reps\<rparr>)))"

subsection \<open>Synchronisation and lifetime\<close>

definition set_enabled :: "bool \<Rightarrow> RaceDetector \<Rightarrow> RaceDetector" where
  "set_enabled e d = d\<lparr>rd_enabled := e\<rparr>"

definition launch :: "RaceDetector \<Rightarrow> RaceDetector" where
  "launch d = d\<lparr>rd_clocks := [], rd_release_clocks := [], rd_global_shadow := [], rd_shared_shadow := []\<rparr>"

definition reclaim_cta :: "u32 \<Rightarrow> RaceDetector \<Rightarrow> RaceDetector" where
  "reclaim_cta cta d = d\<lparr>
     rd_shared_shadow := om_erase_if (\<lambda>c. c = cta) (rd_shared_shadow d),
     rd_clocks := om_erase_if (\<lambda>a. ra_cta a = cta) (rd_clocks d),
     rd_release_clocks := om_erase_if (\<lambda>k. rk_space k = kShared \<and> rk_domain k = ucast cta) (rd_release_clocks d)\<rparr>"

definition reclaim_allocation :: "AllocationId \<Rightarrow> RaceDetector \<Rightarrow> RaceDetector" where
  "reclaim_allocation i d = d\<lparr>
     rd_generations := om_put i (om_at 0 (rd_generations d) i + 1) (rd_generations d),
     rd_global_shadow := om_erase_if (\<lambda>k. fst k = i) (rd_global_shadow d),
     rd_release_clocks := om_erase_if (\<lambda>k. rk_space k = kGlobal \<and> rk_domain k = i) (rd_release_clocks d)\<rparr>"

definition lanes_of :: "u32 \<Rightarrow> u32 \<Rightarrow> u32 list \<Rightarrow> RaceActor list" where
  "lanes_of cta sm warps =
     concat (map (\<lambda>w. map (\<lambda>l. RaceActor 0 sm cta w (word_of_nat l)) [0..<kRaceLanesPerWarp]) warps)"

definition cta_barrier :: "u32 \<Rightarrow> u32 \<Rightarrow> u32 list \<Rightarrow> RaceDetector \<Rightarrow> RaceDetector" where
  "cta_barrier cta sm warps d =
     (let actors = lanes_of cta sm warps;
          merged = foldl (\<lambda>m a. case om_find (rd_clocks d) a of None \<Rightarrow> m | Some c \<Rightarrow> merge m c) [] actors
      in d\<lparr>rd_clocks := foldl (\<lambda>cs a. om_put a (merge (om_at [] cs a) merged) cs) (rd_clocks d) actors\<rparr>)"

definition named_barrier :: "u32 \<Rightarrow> u32 \<Rightarrow> u32 list \<Rightarrow> RaceDetector \<Rightarrow> RaceDetector" where
  "named_barrier cta sm warps d = cta_barrier cta sm warps d"

definition fence :: "u32 \<Rightarrow> u32 \<Rightarrow> u32 \<Rightarrow> string \<Rightarrow> RaceDetector \<Rightarrow> RaceDetector" where
  "fence cta sm warp scope d =
     d\<lparr>rd_clocks := foldl (\<lambda>cs a. om_put a (om_at [] cs a) cs) (rd_clocks d) (lanes_of cta sm [warp])\<rparr>"

definition acquire_from :: "RaceAccess \<Rightarrow> RaceActor \<Rightarrow> HbClock \<Rightarrow> ReleaseRecord \<Rightarrow> HbClock" where
  "acquire_from access a c rec =
     (let rel = access\<lparr>rc_sm := ra_sm (rl_actor rec), rc_cta := ra_cta (rl_actor rec), rc_scope := rl_scope rec\<rparr>
      in if scope_visible rel a \<and> scope_visible access (rl_actor rec) then merge c (rl_clock rec) else c)"

definition atomic_access :: "RaceAccess \<Rightarrow> RaceDetector \<Rightarrow> RaceDetector" where
  "atomic_access access d =
     (let d = snd (observe access d)
      in if rc_order_scope_ok access \<noteq> ''supported'' then d
         else
           let a = actor access; clock = om_at [] (rd_clocks d) a; key = key_of d access;
               d = (if is_release_order (rc_mem_order access) then
                      d\<lparr>rd_release_clocks := om_put key
                          (om_at [] (rd_release_clocks d) key @
                           [\<lparr>rl_actor = a, rl_scope = rc_scope access, rl_clock = clock\<rparr>]) (rd_release_clocks d)\<rparr>
                    else d)
           in if is_acquire_order (rc_mem_order access) then
                (case om_find (rd_release_clocks d) key of
                   None \<Rightarrow> d
                 | Some recs \<Rightarrow>
                     d\<lparr>rd_clocks := om_put a (foldl (acquire_from access a) (om_at [] (rd_clocks d) a) recs)
                         (rd_clocks d)\<rparr>)
              else d)"

end
