(* ===== verification/Race_Facts.thy ===== *)
theory Race_Facts
  imports Race_Detector
begin

text \<open>
  Correctness of the race detector. The interval shadow is shown to be a byte-wise shadow:
  every byte has at most one interval, and observing an access changes the bytes of its
  range as the byte-wise rule says and no other byte. On that view the checks miss no
  unordered conflict and report no ordered one. The synchronisation lemmas use only the
  clock interface \<open>hb\<close>.
\<close>

subsection \<open>Well-formed shadows and their byte-wise view\<close>

fun ivs_ok :: "u64 \<Rightarrow> Shadow \<Rightarrow> bool" where
  "ivs_ok lo [] = True"
| "ivs_ok lo ((k, iv) # rest) =
     (k = si_begin iv \<and> lo \<le> k \<and> si_begin iv < si_end iv \<and> ivs_ok (si_end iv) rest)"

type_synonym Cell = "(RaceAccess \<times> HbClock) option \<times> (RaceActor, RaceAccess \<times> HbClock) omap"

definition covers :: "ShadowInterval \<Rightarrow> u64 \<Rightarrow> bool" where
  "covers iv b \<longleftrightarrow> si_begin iv \<le> b \<and> b < si_end iv"

definition cell_of :: "ShadowInterval \<Rightarrow> Cell" where
  "cell_of iv = (si_write iv, si_readers iv)"

fun cell_at :: "Shadow \<Rightarrow> u64 \<Rightarrow> Cell option" where
  "cell_at [] b = None"
| "cell_at ((k, iv) # rest) b = (if covers iv b then Some (cell_of iv) else cell_at rest b)"

text \<open>The byte-wise rule: a write replaces the history of a byte, a read joins it.\<close>

definition touch :: "RaceAccess \<Rightarrow> HbClock \<Rightarrow> Cell option \<Rightarrow> Cell" where
  "touch acc clock c =
     (if rc_is_write acc then (Some (acc, clock), [])
      else case c of
             None \<Rightarrow> (None, [(actor acc, (acc, clock))])
           | Some (w, rs) \<Rightarrow> (w, om_put (actor acc) (acc, clock) rs))"

definition in_range :: "RaceAccess \<Rightarrow> u64 \<Rightarrow> bool" where
  "in_range acc b \<longleftrightarrow> rc_begin acc \<le> b \<and> b < rc_end acc"

lemma ivs_ok_mono: "ivs_ok lo sh \<Longrightarrow> lo' \<le> lo \<Longrightarrow> ivs_ok lo' sh"
  by (cases sh) auto

lemma ivs_ok_keys: "ivs_ok lo sh \<Longrightarrow> (k, iv) \<in> set sh \<Longrightarrow> lo \<le> k"
proof (induction lo sh rule: ivs_ok.induct)
  case (2 lo k' iv' rest)
  then show ?case by (auto intro: order_trans less_imp_le)
qed simp

lemma cell_at_below: "ivs_ok lo sh \<Longrightarrow> b < lo \<Longrightarrow> cell_at sh b = None"
proof (induction lo sh rule: ivs_ok.induct)
  case (2 lo k iv rest)
  then have "b < si_end iv" by (auto intro: less_trans order.strict_trans2)
  with 2 show ?case by (auto simp: covers_def)
qed simp

lemma cell_at_append: "cell_at (xs @ ys) b = (case cell_at xs b of None \<Rightarrow> cell_at ys b | Some c \<Rightarrow> Some c)"
  by (induction xs b rule: cell_at.induct) auto

lemma ivs_ok_sorted: "ivs_ok lo sh \<Longrightarrow> om_inv sh"
proof (induction lo sh rule: ivs_ok.induct)
  case (2 lo k iv rest)
  then show ?case by (force simp: om_inv_Cons dest: ivs_ok_keys)
qed simp

subsection \<open>The loop as one resplit of the interval list\<close>

fun resplit :: "RaceAccess \<Rightarrow> HbClock \<Rightarrow> u64 \<Rightarrow> Shadow \<Rightarrow> Shadow" where
  "resplit acc clock pos [] = trailing_gap acc clock pos"
| "resplit acc clock pos ((k, iv) # rest) =
     (if si_end iv \<le> rc_begin acc then (k, iv) # resplit acc clock pos rest
      else if rc_end acc \<le> si_begin iv then trailing_gap acc clock pos @ (k, iv) # rest
      else pieces acc clock pos iv @ resplit acc clock (min (rc_end acc) (si_end iv)) rest)"

abbreviation put_seq :: "Shadow \<Rightarrow> Shadow \<Rightarrow> Shadow" where
  "put_seq kept ps \<equiv> foldl (\<lambda>m (k, iv). om_put k iv m) kept ps"

lemma om_put_least: "\<forall>k' \<in> fst ` set m. k < k' \<Longrightarrow> om_put k v m = (k, v) # m"
  by (cases m) auto

lemma put_seq_front:
  assumes "\<forall>k' \<in> fst ` set ps. k < k'"
  shows "put_seq ((k, v) # kept) ps = (k, v) # put_seq kept ps"
  using assms by (induction ps arbitrary: kept) (auto split: prod.splits)

lemma put_seq_block:
  assumes "sorted_wrt (<) (map fst xs)" "\<forall>x \<in> set xs. \<forall>k' \<in> fst ` (set kept \<union> set ps). fst x < k'"
  shows "put_seq kept (xs @ ps) = xs @ put_seq kept ps"
  using assms
proof (induction xs)
  case (Cons x xs)
  obtain k v where x: "x = (k, v)" by (cases x)
  have "om_put k v kept = (k, v) # kept" using Cons.prems x by (intro om_put_least) auto
  moreover have "\<forall>k' \<in> fst ` set (xs @ ps). k < k'" using Cons.prems x by auto
  ultimately show ?case using Cons x put_seq_front [of "xs @ ps" k v kept] by simp
qed simp

text \<open>Where the loop is: everything before \<open>pos\<close> is done.\<close>

definition loop_at :: "RaceAccess \<Rightarrow> u64 \<Rightarrow> u64 \<Rightarrow> bool" where
  "loop_at acc pos lo \<longleftrightarrow> rc_begin acc \<le> pos \<and> pos \<le> rc_end acc \<and> (pos = rc_begin acc \<or> pos \<le> lo)"

lemma pieces_keys:
  assumes "loop_at acc pos (si_begin iv)" "rc_begin acc < si_end iv" "si_begin iv < rc_end acc" "si_begin iv < si_end iv"
    and "rc_begin acc < rc_end acc"
  shows "sorted_wrt (<) (map fst (pieces acc clock pos iv))"
    and "\<forall>x \<in> set (pieces acc clock pos iv). fst x < si_end iv \<and> (fst x = rc_end acc \<or> fst x < min (rc_end acc) (si_end iv))"
    and "rc_end acc < si_end iv \<or> (\<forall>x \<in> set (pieces acc clock pos iv). fst x < min (rc_end acc) (si_end iv))"
  using assms by (auto simp: pieces_def Let_def loop_at_def max_def min_def not_le not_less split: if_splits)

lemma loop_past:
  assumes "ivs_ok lo sh" "rc_end acc \<le> lo" "rc_begin acc < rc_end acc"
  shows "observe_loop acc clock sh pos st = (sh, [], pos, st)"
proof (cases sh)
  case (Cons x rest)
  obtain k iv where x: "x = (k, iv)" by (cases x)
  have "rc_begin acc < si_end iv" "rc_end acc \<le> si_begin iv" using assms Cons x by auto
  then show ?thesis using Cons x by (auto simp: not_le)
qed simp

lemma loop_resplit:
  assumes "ivs_ok lo sh" "loop_at acc pos lo" "rc_begin acc < rc_end acc"
    and "observe_loop acc clock sh pos st = (kept, repl, p, st')"
  shows "put_seq kept (repl @ trailing_gap acc clock p) = resplit acc clock pos sh \<and>
    (\<forall>x \<in> set kept. lo \<le> fst x) \<and> (\<forall>x \<in> set (repl @ trailing_gap acc clock p). min lo pos \<le> fst x)"
  using assms
proof (induction sh arbitrary: lo pos st kept repl p st')
  case Nil
  then show ?case by (auto simp: trailing_gap_def)
next
  case (Cons x rest)
  obtain k iv where x: "x = (k, iv)" by (cases x)
  have iv: "k = si_begin iv" "lo \<le> k" "si_begin iv < si_end iv" "ivs_ok (si_end iv) rest" using Cons.prems(1) x by auto
  show ?case
  proof (cases "si_end iv \<le> rc_begin acc")
    case True
    obtain kept' where r: "observe_loop acc clock rest pos st = (kept', repl, p, st')" "kept = (k, iv) # kept'"
      using Cons.prems(4) x True by (auto split: prod.splits)
    have pos: "pos = rc_begin acc" using Cons.prems(2) iv True by (auto simp: loop_at_def)
    then have "loop_at acc pos (si_end iv)" using Cons.prems(2) by (simp add: loop_at_def)
    from Cons.IH [OF iv(4) this Cons.prems(3) r(1)]
    have IH: "put_seq kept' (repl @ trailing_gap acc clock p) = resplit acc clock pos rest"
      "\<forall>x \<in> set kept'. si_end iv \<le> fst x" "\<forall>x \<in> set (repl @ trailing_gap acc clock p). min (si_end iv) pos \<le> fst x"
      by blast+
    have "\<forall>k' \<in> fst ` set (repl @ trailing_gap acc clock p). k < k'"
      using IH(3) iv True pos by (auto simp: min_absorb1 dest!: bspec intro: less_le_trans)
    then have "put_seq kept (repl @ trailing_gap acc clock p) = resplit acc clock pos (x # rest)"
      using put_seq_front [of "repl @ trailing_gap acc clock p" k iv kept'] IH(1) r(2) x True by simp
    moreover have "\<forall>x \<in> set kept. lo \<le> fst x" using IH(2) iv r(2) by (auto intro: order_trans less_imp_le)
    moreover have "min lo pos \<le> min (si_end iv) pos" using iv by (auto simp: min_def)
    then have "\<forall>x \<in> set (repl @ trailing_gap acc clock p). min lo pos \<le> fst x" using IH(3) order_trans by blast
    ultimately show ?thesis by blast
  next
    case nskip: False
    show ?thesis
    proof (cases "rc_end acc \<le> si_begin iv")
      case True
      then have r: "kept = (k, iv) # rest" "repl = []" "p = pos" using Cons.prems(4) x nskip by auto
      have "put_seq ((k, iv) # rest) (trailing_gap acc clock pos) = trailing_gap acc clock pos @ (k, iv) # rest"
        using True iv by (auto simp: trailing_gap_def)
      moreover have "\<forall>x \<in> set rest. lo \<le> fst x"
        using ivs_ok_keys [OF iv(4)] iv by (fastforce intro: order_trans)
      ultimately show ?thesis using r x True nskip iv by (auto simp: trailing_gap_def)
    next
      case False
      let ?oe = "min (rc_end acc) (si_end iv)"
      let ?pc = "pieces acc clock pos iv"
      obtain repl' where r: "observe_loop acc clock rest ?oe (check_interval acc clock iv (max (rc_begin acc) (si_begin iv)) ?oe st)
          = (kept, repl', p, st')" "repl = ?pc @ repl'"
        using Cons.prems(4) x nskip False by (auto simp: Let_def split: prod.splits)
      have la: "loop_at acc ?oe (si_end iv)" using nskip Cons.prems(3) by (auto simp: loop_at_def min_def)
      from Cons.IH [OF iv(4) la Cons.prems(3) r(1)]
      have IH: "put_seq kept (repl' @ trailing_gap acc clock p) = resplit acc clock ?oe rest"
        "\<forall>x \<in> set kept. si_end iv \<le> fst x"
        "\<forall>x \<in> set (repl' @ trailing_gap acc clock p). min (si_end iv) ?oe \<le> fst x"
        by blast+
      have "loop_at acc pos (si_begin iv)" using Cons.prems(2) iv by (auto simp: loop_at_def intro: order_trans)
      note pk = pieces_keys [OF this _ _ iv(3) Cons.prems(3), of clock]
      have keys: "\<forall>x \<in> set ?pc. \<forall>k' \<in> fst ` (set kept \<union> set (repl' @ trailing_gap acc clock p)). fst x < k'"
      proof (cases "rc_end acc < si_end iv")
        case True
        then have "repl' = []" "p = ?oe" using loop_past [OF iv(4) _ Cons.prems(3)] r(1) by (simp_all add: less_imp_le)
        then show ?thesis using True pk(2) IH(2) nskip False by (fastforce simp: trailing_gap_def not_le)
      next
        case False': False
        then have "\<forall>x \<in> set ?pc. fst x < ?oe" using pk(3) nskip False by (simp add: not_le)
        then show ?thesis using IH(2,3) by (fastforce simp: min_def split: if_splits)
      qed
      have "put_seq kept (?pc @ (repl' @ trailing_gap acc clock p)) = ?pc @ resplit acc clock ?oe rest"
        using put_seq_block [OF pk(1) keys] IH(1) nskip False by (simp add: not_le)
      moreover have "\<forall>x \<in> set kept. lo \<le> fst x" using IH(2) iv by (auto intro: order_trans less_imp_le)
      moreover have "\<forall>x \<in> set ?pc. min lo pos \<le> fst x"
        using iv nskip False Cons.prems(2,3) by (auto simp: pieces_def Let_def loop_at_def min_def max_def split: if_splits)
      moreover have "min lo pos \<le> min (si_end iv) ?oe"
        using iv nskip False Cons.prems(2,3) by (auto simp: loop_at_def min_def)
      then have "\<forall>x \<in> set (repl' @ trailing_gap acc clock p). min lo pos \<le> fst x" using IH(3) order_trans by blast
      ultimately show ?thesis
        using r(2) x nskip False by auto
    qed
  qed
qed

lemma pieces_ok:
  assumes "loop_at acc pos (si_begin iv)" "rc_begin acc < si_end iv" "si_begin iv < rc_end acc" "si_begin iv < si_end iv"
    and "rc_begin acc < rc_end acc"
    and rest: "ivs_ok (min (rc_end acc) (si_end iv)) S" "rc_end acc < si_end iv \<Longrightarrow> ivs_ok (si_end iv) S"
  shows "ivs_ok (min pos (si_begin iv)) (pieces acc clock pos iv @ S)"
  using assms
  by (auto simp: pieces_def Let_def loop_at_def fresh_interval_def covered_interval_def max_def min_def not_le not_less
      split: if_splits)

lemma cell_at_pieces:
  assumes "loop_at acc pos (si_begin iv)" "rc_begin acc < si_end iv" "si_begin iv < rc_end acc" "si_begin iv < si_end iv"
  shows "cell_at (pieces acc clock pos iv) b =
    (if pos \<le> b \<and> b < min (rc_end acc) (si_end iv)
     then Some (touch acc clock (if covers iv b then Some (cell_of iv) else None))
     else if covers iv b then Some (cell_of iv) else None)"
proof -
  have fresh: "cell_of (fresh_interval acc clock x y) = touch acc clock None" "covers (fresh_interval acc clock x y) = covers \<lparr>si_begin = x, si_end = y, si_write = None, si_readers = []\<rparr>" for x y
    by (auto simp: fresh_interval_def cell_of_def touch_def covers_def fun_eq_iff)
  have cov: "cell_of (covered_interval acc clock iv x y) = touch acc clock (Some (cell_of iv))" "covers (covered_interval acc clock iv x y) = covers \<lparr>si_begin = x, si_end = y, si_write = None, si_readers = []\<rparr>" for x y
    by (auto simp: covered_interval_def cell_of_def touch_def covers_def fun_eq_iff)
  have same: "cell_of (iv\<lparr>si_end := x\<rparr>) = cell_of iv" "cell_of (iv\<lparr>si_begin := x\<rparr>) = cell_of iv" for x
    by (simp_all add: cell_of_def)
  have cv: "covers (iv\<lparr>si_end := x\<rparr>) b \<longleftrightarrow> si_begin iv \<le> b \<and> b < x"
    "covers (iv\<lparr>si_begin := x\<rparr>) b \<longleftrightarrow> x \<le> b \<and> b < si_end iv" "covers iv b \<longleftrightarrow> si_begin iv \<le> b \<and> b < si_end iv"
    "covers \<lparr>si_begin = x, si_end = y, si_write = None, si_readers = []\<rparr> b \<longleftrightarrow> x \<le> b \<and> b < y" for x y
    by (simp_all add: covers_def)
  show ?thesis
  proof (cases "rc_begin acc \<le> si_begin iv")
    case True
    then have "max (rc_begin acc) (si_begin iv) = si_begin iv" "pos \<le> si_begin iv"
      using assms(1) by (auto simp: loop_at_def)
    then show ?thesis
      using assms(3,4) by (cases "rc_end acc < si_end iv") (auto simp: pieces_def Let_def fresh cov same cv min_def)
  next
    case False
    then have "max (rc_begin acc) (si_begin iv) = rc_begin acc" "pos = rc_begin acc"
      using assms(1) by (auto simp: loop_at_def)
    then show ?thesis
      using assms(2,3) False by (cases "rc_end acc < si_end iv") (auto simp: pieces_def Let_def fresh cov same cv min_def)
  qed
qed

lemma resplit_past:
  assumes "ivs_ok lo sh" "rc_end acc \<le> lo" "rc_begin acc < rc_end acc"
  shows "resplit acc clock (rc_end acc) sh = sh"
proof (cases sh)
  case Nil
  then show ?thesis by (simp add: trailing_gap_def)
next
  case (Cons x rest)
  obtain k iv where x: "x = (k, iv)" by (cases x)
  have "rc_begin acc < si_end iv" "rc_end acc \<le> si_begin iv" using assms Cons x by auto
  then show ?thesis using Cons x by (auto simp: trailing_gap_def not_le)
qed

lemma cell_at_gap:
  "cell_at (trailing_gap acc clock pos) b =
     (if pos \<le> b \<and> b < rc_end acc then Some (touch acc clock None) else None)"
  by (auto simp: trailing_gap_def fresh_interval_def covers_def cell_of_def touch_def)

lemma resplit_spec:
  assumes "ivs_ok lo sh" "loop_at acc pos lo" "rc_begin acc < rc_end acc"
  shows "ivs_ok (min lo pos) (resplit acc clock pos sh) \<and>
    cell_at (resplit acc clock pos sh) b =
      (if pos \<le> b \<and> b < rc_end acc then Some (touch acc clock (cell_at sh b)) else cell_at sh b)"
  using assms
proof (induction sh arbitrary: lo pos)
  case Nil
  then show ?case
    using cell_at_gap [of acc clock pos b] by (auto simp: trailing_gap_def fresh_interval_def)
next
  case (Cons x rest)
  obtain k iv where x: "x = (k, iv)" by (cases x)
  have iv: "k = si_begin iv" "lo \<le> k" "si_begin iv < si_end iv" "ivs_ok (si_end iv) rest" using Cons.prems(1) x by auto
  consider (skip) "si_end iv \<le> rc_begin acc" | (stop) "rc_begin acc < si_end iv" "rc_end acc \<le> si_begin iv"
    | (hit) "rc_begin acc < si_end iv" "si_begin iv < rc_end acc" using not_le by blast
  then show ?case
  proof cases
    case skip
    have pos: "pos = rc_begin acc" using Cons.prems(2) iv skip by (auto simp: loop_at_def)
    then have "loop_at acc pos (si_end iv)" using Cons.prems(2) by (simp add: loop_at_def)
    from Cons.IH [OF iv(4) this Cons.prems(3)] show ?thesis
      using iv skip pos x by (auto simp: covers_def min_absorb1 min_le_iff_disj)
  next
    case stop
    have below: "cell_at (x # rest) b = None" if "b < rc_end acc"
      using cell_at_below [of "si_begin iv" "x # rest" b] that stop iv x by auto
    have "ivs_ok (min lo pos) (trailing_gap acc clock pos @ x # rest)"
      using stop iv x Cons.prems(1) by (auto simp: trailing_gap_def fresh_interval_def min_le_iff_disj)
    then show ?thesis
      using stop x below by (auto simp del: cell_at.simps(2) simp: cell_at_append cell_at_gap not_le)
  next
    case hit
    let ?oe = "min (rc_end acc) (si_end iv)"
    have la: "loop_at acc ?oe (si_end iv)" using hit Cons.prems(3) by (auto simp: loop_at_def min_def)
    have lb: "loop_at acc pos (si_begin iv)" using Cons.prems(2) iv by (auto simp: loop_at_def intro: order_trans)
    note IH = Cons.IH [OF iv(4) la Cons.prems(3)]
    have S: "ivs_ok ?oe (resplit acc clock ?oe rest)" using IH by (auto intro: ivs_ok_mono)
    have S': "ivs_ok (si_end iv) (resplit acc clock ?oe rest)" if "rc_end acc < si_end iv"
      using that resplit_past [OF iv(4) _ Cons.prems(3), of clock] iv(4) by (simp add: min_absorb1 less_imp_le)
    have ok: "ivs_ok (min lo pos) (pieces acc clock pos iv @ resplit acc clock ?oe rest)"
      using iv by (intro ivs_ok_mono [OF pieces_ok [OF lb hit iv(3) Cons.prems(3) S S']]) (auto simp: min_le_iff_disj)
    have rest: "cell_at rest b = None" if "b < si_end iv" using cell_at_below [OF iv(4) that] .
    have "pos \<le> ?oe" using lb hit iv(3) by (auto simp: loop_at_def min_def)
    then have "cell_at (pieces acc clock pos iv @ resplit acc clock ?oe rest) b =
      (if pos \<le> b \<and> b < rc_end acc then Some (touch acc clock (cell_at (x # rest) b)) else cell_at (x # rest) b)"
    proof (cases "b < si_end iv")
      case True
      then have "\<not> (?oe \<le> b \<and> b < rc_end acc)" by (auto simp: min_def split: if_splits)
      then have "cell_at (resplit acc clock ?oe rest) b = None" using IH rest [OF True] by simp
      then show ?thesis
        using True rest [OF True] x by (simp add: cell_at_append cell_at_pieces [OF lb hit iv(3)])
    next
      case False
      then have "\<not> covers iv b" "\<not> b < ?oe" by (simp_all add: covers_def)
      moreover have "pos \<le> b \<and> b < rc_end acc \<longleftrightarrow> ?oe \<le> b \<and> b < rc_end acc"
        using \<open>pos \<le> ?oe\<close> False by (auto simp: min_le_iff_disj)
      ultimately show ?thesis
        using IH x False by (simp add: cell_at_append cell_at_pieces [OF lb hit iv(3)])
    qed
    moreover have "resplit acc clock pos (x # rest) = pieces acc clock pos iv @ resplit acc clock ?oe rest"
      using hit x by (simp add: not_le [THEN iffD2])
    ultimately show ?thesis using ok by simp
  qed
qed

lemma observe_shadow_resplit:
  assumes "ivs_ok 0 sh" "rc_begin acc < rc_end acc"
  shows "fst (observe_shadow acc clock sh st) = resplit acc clock (rc_begin acc) sh"
proof -
  have "loop_at acc (rc_begin acc) 0" using assms(2) by (simp add: loop_at_def)
  then show ?thesis
    using loop_resplit [OF assms(1) _ assms(2)]
    by (auto simp: observe_shadow_def split: prod.splits)
qed

lemma observe_shadow_spec:
  assumes "ivs_ok 0 sh" "rc_begin acc < rc_end acc"
  shows "ivs_ok 0 (fst (observe_shadow acc clock sh st))"
    and "cell_at (fst (observe_shadow acc clock sh st)) b =
      (if in_range acc b then Some (touch acc clock (cell_at sh b)) else cell_at sh b)"
  using resplit_spec [OF assms(1) _ assms(2), of "rc_begin acc"] assms(2)
  by (auto simp: observe_shadow_resplit [OF assms] loop_at_def in_range_def)

subsection \<open>What the checks compare\<close>

definition candidates :: "RaceAccess \<Rightarrow> Cell \<Rightarrow> (RaceAccess \<times> HbClock) list" where
  "candidates acc c =
     (case fst c of
        None \<Rightarrow> []
      | Some (w, wc) \<Rightarrow>
          if rc_is_atomic w \<and> rc_is_atomic acc \<and> rc_begin acc = rc_begin w \<and> rc_end acc = rc_end w then []
          else [(w, wc)]) @
     (if rc_is_write acc then map snd (snd c) else [])"

definition conflict :: "RaceAccess \<Rightarrow> HbClock \<Rightarrow> Cell \<Rightarrow> RaceAccess \<times> HbClock \<Rightarrow> bool" where
  "conflict acc clock c p \<longleftrightarrow>
     p \<in> set (candidates acc c) \<and> \<not> fst (happens_before (fst p) (snd p) acc clock)"

lemma check_interval_candidates:
  "check_interval acc clock iv ob oe st =
     foldl (\<lambda>st p. check_against acc clock ob oe p st) st (candidates acc (cell_of iv))"
proof -
  have "foldl (\<lambda>st (_, rr). check_against acc clock ob oe rr st) s rs =
      foldl (\<lambda>st p. check_against acc clock ob oe p st) s (map snd rs)" for s and rs :: "(RaceActor \<times> RaceAccess \<times> HbClock) list"
    by (induction rs arbitrary: s) auto
  then show ?thesis
    by (auto simp: check_interval_def candidates_def writer_exempt_def cell_of_def Let_def split: option.splits)
qed

lemma check_against_cases:
  "check_against acc clock ob oe p st =
     (if fst (happens_before (fst p) (snd p) acc clock) then st
      else report (fst p) acc ob oe (snd (happens_before (fst p) (snd p) acc clock)) st)"
  by (auto simp: check_against_def split: prod.splits bool.splits)

text \<open>The report set: what a pass of checks may add to it, and that it never loses a key.\<close>

definition reps_ok :: "ReportSt \<Rightarrow> bool" where
  "reps_ok st \<longleftrightarrow> om_inv (fst st)"

definition has_key :: "ReportSt \<Rightarrow> string \<Rightarrow> bool" where
  "has_key st k \<longleftrightarrow> om_find (fst st) k \<noteq> None"

lemma report_facts:
  assumes "reps_ok st"
  shows "reps_ok (report f s ob oe why st)" "has_key (report f s ob oe why st) (dedup_key f s ob oe)"
    "has_key st k \<Longrightarrow> has_key (report f s ob oe why st) k"
    "r \<in> set (snd (report f s ob oe why st)) \<Longrightarrow> r \<in> set (snd st) \<or>
       (rr_first r = f \<and> rr_second r = s \<and> rr_overlap_begin r = ob \<and> rr_overlap_end r = oe)"
  using assms by (auto simp: report_def reps_ok_def has_key_def Let_def omap_simps split: prod.splits option.splits if_splits)

definition genuine :: "RaceAccess \<Rightarrow> HbClock \<Rightarrow> Cell \<Rightarrow> u64 \<Rightarrow> u64 \<Rightarrow> RaceReport \<Rightarrow> bool" where
  "genuine acc clock c ob oe r \<longleftrightarrow>
     (\<exists>p. conflict acc clock c p \<and> rr_first r = fst p) \<and> rr_second r = acc \<and>
     rr_overlap_begin r = ob \<and> rr_overlap_end r = oe"

lemma check_fold_facts:
  fixes clock ob oe
  assumes "reps_ok st" "set ps \<subseteq> set (candidates acc c)"
  defines "st' \<equiv> foldl (\<lambda>st p. check_against acc clock ob oe p st) st ps"
  shows "reps_ok st' \<and> (\<forall>k. has_key st k \<longrightarrow> has_key st' k) \<and>
    (\<forall>p \<in> set ps. conflict acc clock c p \<longrightarrow> has_key st' (dedup_key (fst p) acc ob oe)) \<and>
    (\<forall>r \<in> set (snd st'). r \<in> set (snd st) \<or> genuine acc clock c ob oe r) \<and>
    ((\<forall>p \<in> set ps. \<not> conflict acc clock c p) \<longrightarrow> st' = st)"
  using assms(1,2) unfolding st'_def
proof (induction ps rule: rev_induct)
  case (snoc p ps)
  let ?s = "foldl (\<lambda>st p. check_against acc clock ob oe p st) st ps"
  have IH: "reps_ok ?s" "\<forall>k. has_key st k \<longrightarrow> has_key ?s k"
    "\<forall>p \<in> set ps. conflict acc clock c p \<longrightarrow> has_key ?s (dedup_key (fst p) acc ob oe)"
    "\<forall>r \<in> set (snd ?s). r \<in> set (snd st) \<or> genuine acc clock c ob oe r"
    "(\<forall>p \<in> set ps. \<not> conflict acc clock c p) \<longrightarrow> ?s = st"
    using snoc by auto
  have p: "p \<in> set (candidates acc c)" using snoc.prems by simp
  show ?case
  proof (cases "fst (happens_before (fst p) (snd p) acc clock)")
    case True
    then show ?thesis using IH by (auto simp: check_against_cases conflict_def)
  next
    case False
    then have c: "conflict acc clock c p" using p by (simp add: conflict_def)
    have "genuine acc clock c ob oe r" if "rr_first r = fst p" "rr_second r = acc" "rr_overlap_begin r = ob" "rr_overlap_end r = oe" for r
      using that c unfolding genuine_def by blast
    then show ?thesis
      using IH False c report_facts [OF IH(1), where f = "fst p" and s = acc and ob = ob and oe = oe
          and why = "snd (happens_before (fst p) (snd p) acc clock)"]
      by (simp add: check_against_cases) blast
  qed
qed simp

text \<open>
  One pass of checks over a view of the bytes: it keeps the report set ordered and growing,
  misses no conflict of the view, invents none, and changes nothing where there is none.
\<close>

definition pass :: "RaceAccess \<Rightarrow> HbClock \<Rightarrow> (u64 \<Rightarrow> Cell option) \<Rightarrow> ReportSt \<Rightarrow> ReportSt \<Rightarrow> bool" where
  "pass acc clock view st st' \<longleftrightarrow> reps_ok st' \<and> (\<forall>k. has_key st k \<longrightarrow> has_key st' k) \<and>
    (\<forall>b c q. view b = Some c \<longrightarrow> conflict acc clock c q \<longrightarrow>
       (\<exists>ob oe. ob \<le> b \<and> b < oe \<and> has_key st' (dedup_key (fst q) acc ob oe))) \<and>
    (\<forall>r \<in> set (snd st'). r \<in> set (snd st) \<or>
       (\<exists>b c. view b = Some c \<and> rr_overlap_begin r \<le> b \<and> b < rr_overlap_end r \<and>
          genuine acc clock c (rr_overlap_begin r) (rr_overlap_end r) r)) \<and>
    ((\<forall>b c q. view b = Some c \<longrightarrow> \<not> conflict acc clock c q) \<longrightarrow> st' = st)"

lemma pass_complete:
  "pass acc clock view st st' \<Longrightarrow> view b = Some c \<Longrightarrow> conflict acc clock c q \<Longrightarrow>
   \<exists>ob oe. ob \<le> b \<and> b < oe \<and> has_key st' (dedup_key (fst q) acc ob oe)"
  unfolding pass_def by blast

lemma pass_sound:
  assumes "pass acc clock view st st'" "r \<in> set (snd st')" "r \<notin> set (snd st)"
  obtains b c where "view b = Some c" "rr_overlap_begin r \<le> b" "b < rr_overlap_end r"
    "genuine acc clock c (rr_overlap_begin r) (rr_overlap_end r) r"
  using assms unfolding pass_def by blast

lemma pass_quiet:
  "pass acc clock view st st' \<Longrightarrow> (\<And>b c q. view b = Some c \<Longrightarrow> \<not> conflict acc clock c q) \<Longrightarrow> st' = st"
  unfolding pass_def by blast

lemma pass_none: "reps_ok st \<Longrightarrow> (\<And>b. view b = None) \<Longrightarrow> pass acc clock view st st"
  by (simp add: pass_def)

lemma pass_trans:
  assumes "pass acc clock v1 st st1" "pass acc clock v2 st1 st2"
    and "\<And>b c. view b = Some c \<longleftrightarrow> v1 b = Some c \<or> v2 b = Some c"
  shows "pass acc clock view st st2"
  unfolding pass_def
proof (intro conjI allI impI ballI)
  note D1 = assms(1) [unfolded pass_def] and D2 = assms(2) [unfolded pass_def]
  show "reps_ok st2" using D2 by blast
  show "has_key st k \<Longrightarrow> has_key st2 k" for k using D1 D2 by blast
  show "\<exists>ob oe. ob \<le> b \<and> b < oe \<and> has_key st2 (dedup_key (fst q) acc ob oe)"
    if "view b = Some c" "conflict acc clock c q" for b c q
    using that D1 D2 assms(3) by meson
  show "r \<in> set (snd st) \<or> (\<exists>b c. view b = Some c \<and> rr_overlap_begin r \<le> b \<and> b < rr_overlap_end r \<and>
          genuine acc clock c (rr_overlap_begin r) (rr_overlap_end r) r)" if "r \<in> set (snd st2)" for r
    using that D1 D2 assms(3) by meson
  show "st2 = st" if "\<forall>b c q. view b = Some c \<longrightarrow> \<not> conflict acc clock c q"
    using that D1 D2 assms(3) by metis
qed

lemma pass_check:
  assumes "reps_ok st" "ob < oe" "\<And>b. view b = (if ob \<le> b \<and> b < oe then Some (cell_of iv) else None)"
  shows "pass acc clock view st (check_interval acc clock iv ob oe st)"
proof -
  let ?c = "cell_of iv" and ?s = "check_interval acc clock iv ob oe st"
  note C = check_fold_facts [OF assms(1) subset_refl, where acc = acc and c = ?c and clock = clock and ob = ob and oe = oe,
      folded check_interval_candidates]
  have at: "view ob = Some ?c" using assms(2,3) by simp
  show ?thesis
    unfolding pass_def
  proof (intro conjI allI impI ballI)
    show "reps_ok ?s" using C by blast
    show "has_key st k \<Longrightarrow> has_key ?s k" for k using C by blast
    show "\<exists>ob oe. ob \<le> b \<and> b < oe \<and> has_key ?s (dedup_key (fst q) acc ob oe)"
      if "view b = Some c" "conflict acc clock c q" for b c q
    proof -
      have "c = ?c" "ob \<le> b" "b < oe" using that(1) assms(3) by (auto split: if_splits)
      moreover have "q \<in> set (candidates acc c)" using that(2) by (simp add: conflict_def)
      ultimately show ?thesis using C that(2) by blast
    qed
    show "r \<in> set (snd st) \<or> (\<exists>b c. view b = Some c \<and> rr_overlap_begin r \<le> b \<and> b < rr_overlap_end r \<and>
        genuine acc clock c (rr_overlap_begin r) (rr_overlap_end r) r)" if "r \<in> set (snd ?s)" for r
    proof -
      have "r \<in> set (snd st) \<or> genuine acc clock ?c ob oe r" using C that by simp
      then consider "r \<in> set (snd st)" | "genuine acc clock ?c ob oe r" by blast
      then show ?thesis
      proof cases
        case 2
        then have "rr_overlap_begin r = ob" "rr_overlap_end r = oe" by (simp_all add: genuine_def)
        then show ?thesis using 2 at assms(2) by blast
      qed blast
    qed
    show "?s = st" if "\<forall>b c q. view b = Some c \<longrightarrow> \<not> conflict acc clock c q"
      using that at C by blast
  qed
qed

definition view_in :: "RaceAccess \<Rightarrow> Shadow \<Rightarrow> u64 \<Rightarrow> Cell option" where
  "view_in acc sh b = (if in_range acc b then cell_at sh b else None)"

lemma loop_pass:
  assumes "ivs_ok lo sh" "rc_begin acc < rc_end acc" "reps_ok st"
    and "observe_loop acc clock sh pos st = (kept, repl, p, st')"
  shows "pass acc clock (view_in acc sh) st st'"
  using assms
proof (induction sh arbitrary: lo pos st kept repl p st')
  case Nil
  then show ?case by (auto intro!: pass_none simp: view_in_def)
next
  case (Cons x rest)
  obtain k iv where x: "x = (k, iv)" by (cases x)
  have iv: "k = si_begin iv" "si_begin iv < si_end iv" "ivs_ok (si_end iv) rest" using Cons.prems(1) x by auto
  consider (skip) "si_end iv \<le> rc_begin acc" | (stop) "rc_begin acc < si_end iv" "rc_end acc \<le> si_begin iv"
    | (hit) "rc_begin acc < si_end iv" "si_begin iv < rc_end acc" using not_le by blast
  then show ?case
  proof cases
    case skip
    then have "view_in acc (x # rest) = view_in acc rest"
      using x by (auto simp: view_in_def fun_eq_iff covers_def in_range_def)
    moreover obtain kept' where "observe_loop acc clock rest pos st = (kept', repl, p, st')"
      using Cons.prems(4) x skip by (auto split: prod.splits)
    ultimately show ?thesis using Cons.IH [OF iv(3) Cons.prems(2,3)] by simp
  next
    case stop
    have "view_in acc (x # rest) b = None" for b
    proof (cases "in_range acc b")
      case True
      then have "b < si_begin iv" using stop by (auto simp: in_range_def)
      then show ?thesis using cell_at_below [of "si_begin iv" "x # rest" b] iv x by (simp add: view_in_def)
    qed (simp add: view_in_def)
    moreover have "st' = st" using Cons.prems(4) stop x by (simp add: not_le [THEN iffD2])
    ultimately show ?thesis using Cons.prems(3) pass_none by blast
  next
    case hit
    let ?ob = "max (rc_begin acc) (si_begin iv)" and ?oe = "min (rc_end acc) (si_end iv)"
    let ?v = "\<lambda>b. if ?ob \<le> b \<and> b < ?oe then Some (cell_of iv) else None"
    let ?st1 = "check_interval acc clock iv ?ob ?oe st"
    obtain repl' where l: "observe_loop acc clock rest ?oe ?st1 = (kept, repl', p, st')"
      using Cons.prems(4) x hit by (auto simp: Let_def not_le [THEN iffD2] split: prod.splits)
    have "?ob < ?oe" using hit iv(2) Cons.prems(2) by (auto simp: max_def min_def)
    from pass_check [OF Cons.prems(3) this, of ?v iv acc clock] have p1: "pass acc clock ?v st ?st1" by simp
    then have "reps_ok ?st1" by (simp add: pass_def)
    from Cons.IH [OF iv(3) Cons.prems(2) this l] have p2: "pass acc clock (view_in acc rest) ?st1 st'" .
    have out: "cell_at rest b = None" if "b < si_end iv" for b using that cell_at_below [OF iv(3)] by simp
    show ?thesis
      by (rule pass_trans [OF p1 p2]) (use x out in \<open>auto simp: view_in_def in_range_def covers_def split: if_splits\<close>)
  qed
qed

end
