(* ===== verification/Race_Safety.thy ===== *)
theory Race_Safety
  imports Race_Facts
begin

text \<open>
  The race detector as a state machine: the invariant of every reachable state and the
  properties of its operations on reachable states.
\<close>

subsection \<open>Invariant\<close>

definition clock_at :: "RaceDetector \<Rightarrow> RaceActor \<Rightarrow> HbClock" where
  "clock_at d a = om_at [] (rd_clocks d) a"

definition records_at :: "RaceDetector \<Rightarrow> ReleaseKey \<Rightarrow> ReleaseRecord list" where
  "records_at d k = om_at [] (rd_release_clocks d) k"

definition rd_inv :: "RaceDetector \<Rightarrow> bool" where
  "rd_inv d \<longleftrightarrow> om_inv (rd_global_shadow d) \<and> om_inv (rd_shared_shadow d) \<and> om_inv (rd_clocks d) \<and>
     om_inv (rd_release_clocks d) \<and> om_inv (rd_generations d) \<and> om_inv (rd_reports d) \<and>
     (\<forall>k. ivs_ok 0 (om_at [] (rd_global_shadow d) k)) \<and> (\<forall>c. ivs_ok 0 (om_at [] (rd_shared_shadow d) c)) \<and>
     (\<forall>a. om_inv (clock_at d a)) \<and> (\<forall>k. \<forall>r \<in> set (records_at d k). om_inv (rl_clock r))"

lemma om_at_put [omap_simps]: "om_inv m \<Longrightarrow> om_at x (om_put k v m) k' = (if k' = k then v else om_at x m k')"
  by (simp add: om_at_def omap_simps)

lemma om_at_erase_if [omap_simps]: "om_at x (om_erase_if P m) k = (if P k then x else om_at x m k)"
  by (simp add: om_at_def omap_simps)

lemma om_at_Nil [simp]: "om_at x [] k = x"
  by (simp add: om_at_def)

text \<open>The access as recorded, the clock it is recorded with, and the shadow it goes to.\<close>

definition recorded :: "RaceDetector \<Rightarrow> RaceAccess \<Rightarrow> RaceAccess" where
  "recorded d access =
     (if rc_space access = kGlobal
      then access\<lparr>rc_generation := current_generation d (rc_alloc_id access)\<rparr> else access)"

definition stamp :: "RaceDetector \<Rightarrow> RaceAccess \<Rightarrow> HbClock" where
  "stamp d access = tick (actor access) (clock_at d (actor access))"

definition shadow_of :: "RaceDetector \<Rightarrow> RaceAccess \<Rightarrow> Shadow" where
  "shadow_of d access =
     (if rc_space access = kShared then om_at [] (rd_shared_shadow d) (rc_cta access)
      else om_at [] (rd_global_shadow d) (rc_alloc_id access, rc_generation (recorded d access)))"

lemma recorded_simps [simp]:
  "rc_begin (recorded d a) = rc_begin a" "rc_end (recorded d a) = rc_end a" "rc_space (recorded d a) = rc_space a"
  "rc_cta (recorded d a) = rc_cta a" "rc_alloc_id (recorded d a) = rc_alloc_id a" "actor (recorded d a) = actor a"
  "rc_is_write (recorded d a) = rc_is_write a" "in_range (recorded d a) b = in_range a b"
  by (simp_all add: recorded_def actor_def in_range_def)

lemma observe_eq:
  "observe access d =
     (let R = observe_shadow (recorded d access) (stamp d access) (shadow_of d access) (rd_reports d, []);
          d1 = d\<lparr>rd_clocks := om_put (actor access) (stamp d access) (rd_clocks d)\<rparr>
      in (snd (snd R),
          if rc_space access = kShared
          then d1\<lparr>rd_shared_shadow := om_put (rc_cta access) (fst R) (rd_shared_shadow d), rd_reports := fst (snd R)\<rparr>
          else d1\<lparr>rd_global_shadow := om_put (rc_alloc_id access, rc_generation (recorded d access)) (fst R)
                   (rd_global_shadow d), rd_reports := fst (snd R)\<rparr>))"
  by (auto simp: observe_def shadow_of_def stamp_def clock_at_def Let_def recorded_def [symmetric]
      split: prod.splits)

lemma shadow_of_ok: "rd_inv d \<Longrightarrow> ivs_ok 0 (shadow_of d access)"
  by (auto simp: rd_inv_def shadow_of_def)

lemma stamp_inv: "rd_inv d \<Longrightarrow> om_inv (stamp d access)"
  by (simp add: rd_inv_def stamp_def)

lemma observe_pass:
  assumes "rd_inv d" "rc_begin access < rc_end access"
  shows "pass (recorded d access) (stamp d access) (view_in access (shadow_of d access)) (rd_reports d, [])
    (rd_reports (snd (observe access d)), fst (observe access d))"
proof -
  obtain kept repl p st' where l: "observe_loop (recorded d access) (stamp d access) (shadow_of d access)
      (rc_begin access) (rd_reports d, []) = (kept, repl, p, st')" by (metis prod_cases4)
  have "view_in (recorded d access) = view_in access" by (simp add: view_in_def fun_eq_iff)
  moreover have "reps_ok (rd_reports d, [])" using assms(1) by (simp add: rd_inv_def reps_ok_def)
  ultimately have "pass (recorded d access) (stamp d access) (view_in access (shadow_of d access)) (rd_reports d, []) st'"
    using loop_pass [OF shadow_of_ok [OF assms(1), of access] _ _ l] assms(2) by simp
  moreover have "(rd_reports (snd (observe access d)), fst (observe access d)) = st'"
    using l by (simp add: observe_eq observe_shadow_def Let_def)
  ultimately show ?thesis by simp
qed

definition same_domain :: "RaceDetector \<Rightarrow> RaceAccess \<Rightarrow> RaceAccess \<Rightarrow> bool" where
  "same_domain d x y \<longleftrightarrow>
     (if rc_space x = kShared then rc_space y = kShared \<and> rc_cta y = rc_cta x
      else rc_space y \<noteq> kShared \<and> rc_alloc_id y = rc_alloc_id x \<and>
           rc_generation (recorded d y) = rc_generation (recorded d x))"

lemma shadow_after_observe:
  assumes "rd_inv d"
  shows "shadow_of (snd (observe access d)) other =
    (if same_domain d access other
     then fst (observe_shadow (recorded d access) (stamp d access) (shadow_of d access) (rd_reports d, []))
     else shadow_of d other)"
  using assms
  by (auto simp: observe_eq Let_def shadow_of_def omap_simps rd_inv_def recorded_def current_generation_def
      same_domain_def)

subsection \<open>Every operation keeps the invariant\<close>

lemma rd_inv_observe [inv_intros]:
  assumes "rd_inv d" "rc_begin access < rc_end access"
  shows "rd_inv (snd (observe access d))"
proof -
  have "om_inv (rd_reports (snd (observe access d)))"
    using observe_pass [OF assms] by (simp add: pass_def reps_ok_def)
  moreover have "ivs_ok 0 (fst (observe_shadow (recorded d access) (stamp d access) (shadow_of d access) st))" for st
    using observe_shadow_spec(1) [OF shadow_of_ok [OF assms(1)]] assms(2) by simp
  ultimately show ?thesis
    using assms(1) stamp_inv [OF assms(1), of access]
    by (auto simp: rd_inv_def observe_eq Let_def omap_simps clock_at_def records_at_def)
qed

lemma rd_inv_launch [inv_intros]: "rd_inv d \<Longrightarrow> rd_inv (launch d)"
  by (simp add: rd_inv_def launch_def clock_at_def records_at_def)

lemma rd_inv_set_enabled [inv_intros]: "rd_inv d \<Longrightarrow> rd_inv (set_enabled e d)"
  by (simp add: rd_inv_def set_enabled_def clock_at_def records_at_def)

lemma rd_inv_reclaim_cta [inv_intros]: "rd_inv d \<Longrightarrow> rd_inv (reclaim_cta c d)"
  by (simp add: rd_inv_def reclaim_cta_def clock_at_def records_at_def omap_simps)

lemma rd_inv_reclaim_allocation [inv_intros]: "rd_inv d \<Longrightarrow> rd_inv (reclaim_allocation i d)"
  by (simp add: rd_inv_def reclaim_allocation_def clock_at_def records_at_def omap_simps)

text \<open>A pass that replaces the clocks of a list of actors.\<close>

lemma clocks_fold:
  assumes "om_inv cs" "\<And>a. om_inv (om_at [] cs a)" "\<And>a c. om_inv c \<Longrightarrow> om_inv (f a c)"
    and idem: "\<And>a c. om_inv c \<Longrightarrow> f a (f a c) = f a c"
  shows "om_inv (foldl (\<lambda>cs a. om_put a (f a (om_at [] cs a)) cs) cs as)"
    and "om_at [] (foldl (\<lambda>cs a. om_put a (f a (om_at [] cs a)) cs) cs as) b =
      (if b \<in> set as then f b (om_at [] cs b) else om_at [] cs b)"
proof -
  have "om_inv (foldl (\<lambda>cs a. om_put a (f a (om_at [] cs a)) cs) cs as) \<and>
    (\<forall>b. om_at [] (foldl (\<lambda>cs a. om_put a (f a (om_at [] cs a)) cs) cs as) b =
      (if b \<in> set as then f b (om_at [] cs b) else om_at [] cs b))"
  proof (induction as rule: rev_induct)
    case (snoc a as)
    let ?r = "foldl (\<lambda>cs a. om_put a (f a (om_at [] cs a)) cs) cs as"
    from snoc have inv: "om_inv ?r" and at: "om_at [] ?r b = (if b \<in> set as then f b (om_at [] cs b) else om_at [] cs b)" for b
      by auto
    show ?case using inv at assms(2) idem by (auto simp: omap_simps)
  qed (use assms(1) in simp)
  then show "om_inv (foldl (\<lambda>cs a. om_put a (f a (om_at [] cs a)) cs) cs as)"
    and "om_at [] (foldl (\<lambda>cs a. om_put a (f a (om_at [] cs a)) cs) cs as) b =
      (if b \<in> set as then f b (om_at [] cs b) else om_at [] cs b)" by auto
qed

lemma merge_again: "om_inv c \<Longrightarrow> om_inv d \<Longrightarrow> dominates c d \<Longrightarrow> merge c d = c"
proof (induction c d rule: merge.induct)
  case (2 c a e other)
  then have "e \<le> epoch c a" "dominates c other" by (auto split: if_splits simp: not_less)
  with 2 show ?case by (auto simp: om_inv_Cons not_less [symmetric])
qed simp

lemma merge_idem: "om_inv c \<Longrightarrow> om_inv d \<Longrightarrow> merge (merge c d) d = merge c d"
  by (simp add: merge_again hb.join_upper2)

lemma fence_clocks:
  assumes "rd_inv d"
  shows "rd_inv (fence c s w sc d)" "clock_at (fence c s w sc d) a = clock_at d a"
  using assms clocks_fold [of "rd_clocks d" "\<lambda>a c. c" "lanes_of c s [w]"]
  by (auto simp: rd_inv_def fence_def clock_at_def records_at_def)

definition barrier_clock :: "RaceDetector \<Rightarrow> RaceActor list \<Rightarrow> HbClock" where
  "barrier_clock d as = hb.joins [] (map (clock_at d) as)"

lemma merge_Nil: "om_inv c \<Longrightarrow> merge c [] = c" by simp

lemma barrier_clock_eq:
  "foldl (\<lambda>m a. case om_find (rd_clocks d) a of None \<Rightarrow> m | Some c \<Rightarrow> merge m c) m as =
   foldl merge m (map (clock_at d) as)"
  by (induction as arbitrary: m) (auto simp: clock_at_def om_at_def split: option.splits)

lemma barrier_clock_inv: "rd_inv d \<Longrightarrow> om_inv (barrier_clock d as)"
  by (auto simp: barrier_clock_def rd_inv_def list_all_iff intro!: hb.valid_joins)

lemma cta_barrier_clocks:
  assumes "rd_inv d"
  shows "rd_inv (cta_barrier c s ws d)"
    and "clock_at (cta_barrier c s ws d) a =
      (if a \<in> set (lanes_of c s ws) then merge (clock_at d a) (barrier_clock d (lanes_of c s ws)) else clock_at d a)"
proof -
  let ?m = "barrier_clock d (lanes_of c s ws)"
  have m: "foldl (\<lambda>m a. case om_find (rd_clocks d) a of None \<Rightarrow> m | Some c \<Rightarrow> merge m c) [] (lanes_of c s ws) = ?m"
    by (simp add: barrier_clock_eq barrier_clock_def hb.joins_def)
  have inv: "om_inv (rd_clocks d)" "\<And>a. om_inv (om_at [] (rd_clocks d) a)" "om_inv ?m"
    using assms barrier_clock_inv [OF assms] by (auto simp: rd_inv_def clock_at_def)
  note F = clocks_fold [OF inv(1,2), of "\<lambda>_ c. merge c ?m" "lanes_of c s ws"]
  show "rd_inv (cta_barrier c s ws d)"
    using assms F merge_idem inv(3) by (auto simp: rd_inv_def cta_barrier_def clock_at_def records_at_def Let_def m)
  show "clock_at (cta_barrier c s ws d) a =
      (if a \<in> set (lanes_of c s ws) then merge (clock_at d a) ?m else clock_at d a)"
    using F merge_idem inv(3) by (auto simp: cta_barrier_def clock_at_def Let_def m)
qed

definition synchronises :: "RaceAccess \<Rightarrow> ReleaseRecord \<Rightarrow> bool" where
  "synchronises access r \<longleftrightarrow>
     scope_visible (access\<lparr>rc_sm := ra_sm (rl_actor r), rc_cta := ra_cta (rl_actor r), rc_scope := rl_scope r\<rparr>) (actor access) \<and>
     scope_visible access (rl_actor r)"

lemma acquire_from_eq:
  "acquire_from access (actor access) c r = (if synchronises access r then merge c (rl_clock r) else c)"
  by (simp add: acquire_from_def synchronises_def Let_def)

lemma acquire_fold:
  fixes access :: RaceAccess
  assumes "om_inv c" "\<forall>r \<in> set rs. om_inv (rl_clock r)"
  defines "fin \<equiv> foldl (acquire_from access (actor access)) c rs"
  shows "fin = hb.joins c (map rl_clock (filter (synchronises access) rs))"
    and "om_inv fin" "dominates fin c" "r \<in> set rs \<Longrightarrow> synchronises access r \<Longrightarrow> dominates fin (rl_clock r)"
proof -
  have eq: "foldl (acquire_from access (actor access)) x ys =
      hb.joins x (map rl_clock (filter (synchronises access) ys))" for x ys
    by (induction ys arbitrary: x) (auto simp: acquire_from_eq hb.joins_def)
  show 1: "fin = hb.joins c (map rl_clock (filter (synchronises access) rs))" unfolding fin_def eq ..
  have v: "list_all om_inv (map rl_clock (filter (synchronises access) rs))" using assms(2) by (auto simp: list_all_iff)
  show "om_inv fin" "dominates fin c" unfolding 1 using hb.valid_joins hb.joins_start assms(1) v by blast+
  show "dominates fin (rl_clock r)" if "r \<in> set rs" "synchronises access r"
    unfolding 1 by (rule hb.joins_upper [OF assms(1) v]) (use that in simp)
qed

lemma atomic_access_eq:
  "atomic_access access d =
     (let d1 = snd (observe access d); a = actor access; key = key_of d1 access;
          rel = is_release_order (rc_mem_order access);
          recs = records_at d1 key @
                 (if rel then [\<lparr>rl_actor = a, rl_scope = rc_scope access, rl_clock = clock_at d1 a\<rparr>] else [])
      in if rc_order_scope_ok access \<noteq> ''supported'' then d1
         else
           let d2 = (if rel then d1\<lparr>rd_release_clocks := om_put key recs (rd_release_clocks d1)\<rparr> else d1)
           in if is_acquire_order (rc_mem_order access) \<and> om_find (rd_release_clocks d2) key \<noteq> None
              then d2\<lparr>rd_clocks := om_put a (foldl (acquire_from access a) (clock_at d1 a)
                        (records_at d2 key)) (rd_clocks d2)\<rparr>
              else d2)"
  by (auto simp: atomic_access_def Let_def clock_at_def records_at_def om_at_def split: option.splits)

lemma rd_inv_atomic_access [inv_intros]:
  assumes "rd_inv d" "rc_begin access < rc_end access"
  shows "rd_inv (atomic_access access d)"
proof -
  define d1 where "d1 = snd (observe access d)"
  have inv: "rd_inv d1" using rd_inv_observe [OF assms] by (simp add: d1_def)
  define key where "key = key_of d1 access"
  define recs where "recs = records_at d1 key @ (if is_release_order (rc_mem_order access)
    then [\<lparr>rl_actor = actor access, rl_scope = rc_scope access, rl_clock = clock_at d1 (actor access)\<rparr>] else [])"
  define d2 where "d2 = (if is_release_order (rc_mem_order access)
    then d1\<lparr>rd_release_clocks := om_put key recs (rd_release_clocks d1)\<rparr> else d1)"
  have recs: "\<forall>r \<in> set recs. om_inv (rl_clock r)" using inv by (auto simp: recs_def rd_inv_def)
  have inv2: "rd_inv d2"
    using inv recs by (auto simp: d2_def rd_inv_def records_at_def clock_at_def omap_simps)
  have "om_inv (foldl (acquire_from access (actor access)) (clock_at d1 (actor access)) (records_at d2 key))"
    by (rule acquire_fold(2)) (use inv inv2 in \<open>auto simp: rd_inv_def\<close>)
  then have "rd_inv (d2\<lparr>rd_clocks := om_put (actor access) (foldl (acquire_from access (actor access))
      (clock_at d1 (actor access)) (records_at d2 key)) (rd_clocks d2)\<rparr>)"
    using inv2 by (auto simp: rd_inv_def records_at_def clock_at_def omap_simps)
  then show ?thesis
    using inv inv2 unfolding atomic_access_eq Let_def d1_def [symmetric] key_def [symmetric] recs_def [symmetric]
      d2_def [symmetric] by simp
qed

subsection \<open>The detector as a state machine\<close>

inductive race_step :: "RaceDetector \<Rightarrow> RaceDetector \<Rightarrow> bool" where
  rs_observe: "rc_begin x < rc_end x \<Longrightarrow> race_step d (snd (observe x d))"
| rs_atomic: "rc_begin x < rc_end x \<Longrightarrow> race_step d (atomic_access x d)"
| rs_barrier: "race_step d (cta_barrier c s ws d)"
| rs_named: "race_step d (named_barrier c s ws d)"
| rs_fence: "race_step d (fence c s w sc d)"
| rs_launch: "race_step d (launch d)"
| rs_reclaim_cta: "race_step d (reclaim_cta c d)"
| rs_reclaim_alloc: "race_step d (reclaim_allocation i d)"
| rs_enable: "race_step d (set_enabled e d)"

inductive race_reachable :: "RaceDetector \<Rightarrow> bool" where
  rr_init: "race_reachable new_detector"
| rr_step: "race_reachable d \<Longrightarrow> race_step d d' \<Longrightarrow> race_reachable d'"

lemma rd_inv_new: "rd_inv new_detector"
  by (simp add: rd_inv_def new_detector_def clock_at_def records_at_def)

lemma race_step_inv: "race_step d d' \<Longrightarrow> rd_inv d \<Longrightarrow> rd_inv d'"
  by (induction rule: race_step.induct)
    (simp_all add: inv_intros fence_clocks cta_barrier_clocks named_barrier_def)

lemma race_reachable_inv: "race_reachable d \<Longrightarrow> rd_inv d"
  by (induction rule: race_reachable.induct) (auto simp: rd_inv_new race_step_inv)

subsection \<open>Properties\<close>

text \<open>C20: The interval shadow is exactly a byte-wise shadow. In every reachable state, observing an access
  makes each byte of its range forget its history for a write or gain the reader for a read,
  and leaves every other byte of the domain and every other domain as it was, however the
  existing intervals overlap the access.\<close>

theorem observe_is_bytewise:
  assumes "race_reachable d" "rc_begin x < rc_end x"
  shows "cell_at (shadow_of (snd (observe x d)) y) b =
    (if same_domain d x y \<and> in_range x b
     then Some (touch (recorded d x) (stamp d x) (cell_at (shadow_of d x) b))
     else cell_at (shadow_of d y) b)"
proof -
  note inv = race_reachable_inv [OF assms(1)]
  have "same_domain d x y \<Longrightarrow> shadow_of d x = shadow_of d y"
    by (auto simp: same_domain_def shadow_of_def split: if_splits)
  then show ?thesis
    using observe_shadow_spec(2) [OF shadow_of_ok [OF inv, of x], of "recorded d x" "stamp d x" "(rd_reports d, [])" b] assms(2)
    by (auto simp: shadow_after_observe [OF inv])
qed


text \<open>C19: No report is invented. Every race an access newly reports names an earlier access recorded on some
  byte of the reported range as the first side and the observed access as the second, and
  the first does not happen before the second; when no byte carries an unordered conflict the
  report set does not change at all.\<close>

theorem observe_reports_are_genuine:
  assumes "race_reachable d" "rc_begin x < rc_end x"
  shows "(\<forall>r \<in> set (fst (observe x d)). \<exists>b c p. in_range x b \<and> rr_overlap_begin r \<le> b \<and> b < rr_overlap_end r \<and>
      cell_at (shadow_of d x) b = Some c \<and> p \<in> set (candidates (recorded d x) c) \<and>
      \<not> fst (happens_before (fst p) (snd p) (recorded d x) (stamp d x)) \<and>
      rr_first r = fst p \<and> rr_second r = recorded d x) \<and>
    ((\<forall>b c p. in_range x b \<longrightarrow> cell_at (shadow_of d x) b = Some c \<longrightarrow>
        \<not> conflict (recorded d x) (stamp d x) c p) \<longrightarrow>
      fst (observe x d) = [] \<and> rd_reports (snd (observe x d)) = rd_reports d)"
proof -
  note P = observe_pass [OF race_reachable_inv [OF assms(1)] assms(2)]
  have view: "view_in x (shadow_of d x) b = Some c \<longleftrightarrow> in_range x b \<and> cell_at (shadow_of d x) b = Some c" for b c
    by (simp add: view_in_def)
  show ?thesis
  proof (intro conjI ballI impI)
    fix r assume "r \<in> set (fst (observe x d))"
    then obtain b c where "view_in x (shadow_of d x) b = Some c" "rr_overlap_begin r \<le> b" "b < rr_overlap_end r"
      "genuine (recorded d x) (stamp d x) c (rr_overlap_begin r) (rr_overlap_end r) r"
      using pass_sound [OF P, of r] by auto
    then show "\<exists>b c p. in_range x b \<and> rr_overlap_begin r \<le> b \<and> b < rr_overlap_end r \<and>
      cell_at (shadow_of d x) b = Some c \<and> p \<in> set (candidates (recorded d x) c) \<and>
      \<not> fst (happens_before (fst p) (snd p) (recorded d x) (stamp d x)) \<and> rr_first r = fst p \<and> rr_second r = recorded d x"
      unfolding view genuine_def conflict_def by blast
  next
    assume "\<forall>b c p. in_range x b \<longrightarrow> cell_at (shadow_of d x) b = Some c \<longrightarrow> \<not> conflict (recorded d x) (stamp d x) c p"
    then have "(rd_reports (snd (observe x d)), fst (observe x d)) = (rd_reports d, [])"
      using pass_quiet [OF P] unfolding view by blast
    then show "fst (observe x d) = []" "rd_reports (snd (observe x d)) = rd_reports d" by simp_all
  qed
qed

lemma word_le_inc:
  fixes w :: u64
  assumes "w \<noteq> UINT64_MAX"
  shows "w \<le> w + 1"
proof -
  have "unat w \<noteq> 2 ^ 64 - 1" using assms by (metis unat_UINT64_MAX word_unat_eq_iff)
  then have "unat w + unat (1 :: u64) < 2 ^ 64" using unat_lt_u64 [of w] by simp
  then show ?thesis using unat_add_no_wrap [of w 1] by (simp add: word_le_nat_alt)
qed


text \<open>Release and acquire synchronise exactly when the scopes allow it. After an acquiring atomic, the
  actor's clock is the clock of its own access joined with those releases recorded at the
  location whose scope covers the acquirer and whose releaser the acquire's scope covers, and
  no others; in particular it dominates each of them.\<close>

theorem acquire_merges_visible_releases:
  assumes "race_reachable d" "rc_begin x < rc_end x" "rc_order_scope_ok x = ''supported''"
    and "rc_mem_order x = ''acquire''"
  shows "(let d1 = snd (observe x d); rs = filter (synchronises x) (records_at d1 (key_of d1 x))
    in clock_at (atomic_access x d) (actor x) = foldl merge (stamp d x) (map rl_clock rs) \<and>
       (\<forall>r \<in> set rs. dominates (clock_at (atomic_access x d) (actor x)) (rl_clock r)))"
proof -
  note inv = race_reachable_inv [OF assms(1)]
  define d1 where "d1 = snd (observe x d)"
  have inv1: "rd_inv d1" using rd_inv_observe [OF inv assms(2)] by (simp add: d1_def)
  have own: "clock_at d1 (actor x) = stamp d x"
    using inv by (simp add: d1_def observe_eq Let_def clock_at_def omap_simps rd_inv_def)
  let ?rs = "records_at d1 (key_of d1 x)"
  have recs: "\<forall>r \<in> set ?rs. om_inv (rl_clock r)" "om_inv (rd_clocks d1)"
    using inv1 by (auto simp: rd_inv_def)
  have rel: "\<not> is_release_order (rc_mem_order x)" "is_acquire_order (rc_mem_order x)"
    using assms(4) by (simp_all add: is_release_order_def is_acquire_order_def)
  have clk: "clock_at (atomic_access x d) (actor x) = foldl (acquire_from x (actor x)) (stamp d x) ?rs"
    using rel assms(3) own recs(2)
    by (auto simp: atomic_access_eq Let_def d1_def [symmetric] clock_at_def omap_simps records_at_def om_at_def)
  note A = acquire_fold [OF stamp_inv [OF inv, of x] recs(1), where access = x]
  show ?thesis
    unfolding Let_def d1_def [symmetric] clk using A(1,4) by (simp add: hb.joins_def)
qed

text \<open>A reclaimed allocation has no past. After an allocation is reclaimed, the first access to that
  allocation identifier is checked against an empty shadow and reports nothing, whatever
  was recorded for it before.\<close>

theorem reclaimed_allocation_has_no_history:
  assumes "race_reachable d" "rc_begin x < rc_end x" "rc_space x \<noteq> kShared"
  shows "shadow_of (reclaim_allocation (rc_alloc_id x) d) x = [] \<and>
    fst (observe x (reclaim_allocation (rc_alloc_id x) d)) = [] \<and>
    rd_reports (snd (observe x (reclaim_allocation (rc_alloc_id x) d))) = rd_reports d"
proof -
  let ?d = "reclaim_allocation (rc_alloc_id x) d"
  have "shadow_of ?d x = []"
    using assms(3) by (simp add: shadow_of_def reclaim_allocation_def omap_simps)
  then show ?thesis by (simp add: observe_eq Let_def observe_shadow_def reclaim_allocation_def)
qed

text \<open>A race is recorded under the same key whichever side is observed first.\<close>

theorem dedup_key_symmetric:
  assumes "rc_space a = rc_space b"
  shows "dedup_key a b ob oe = dedup_key b a ob oe"
  using assms by (auto simp: dedup_key_def Let_def)

text \<open>The enable switch has no effect on observation: a disabled detector reports the same races and
  keeps the same shadow as an enabled one.\<close>

theorem observe_ignores_enabled:
  "fst (observe x (set_enabled e d)) = fst (observe x d) \<and>
   snd (observe x (set_enabled e d)) = set_enabled e (snd (observe x d))"
  by (simp add: observe_def set_enabled_def Let_def current_generation_def split: prod.splits)

subsection \<open>Two warps without and with a barrier\<close>

definition demo_write :: RaceAccess where
  "demo_write = \<lparr>rc_instruction = 1, rc_pc = 0x10, rc_mnemonic = ''STS'', rc_space = kShared, rc_alloc_id = 0,
     rc_generation = 0, rc_cta = 0, rc_sm = 0, rc_warp = 0, rc_lane = 0, rc_begin = 0, rc_end = 4,
     rc_is_write = True, rc_is_atomic = False, rc_atomic_op = [], rc_mem_order = [], rc_scope = [],
     rc_order_scope_ok = ''supported''\<rparr>"

definition demo_read :: RaceAccess where
  "demo_read = demo_write\<lparr>rc_pc := 0x20, rc_mnemonic := ''LDS'', rc_warp := 1, rc_begin := 2, rc_end := 6,
     rc_is_write := False\<rparr>"

definition demo_det :: RaceDetector where
  "demo_det = snd (observe demo_write new_detector)"

lemma demo_det_eq: "demo_det = new_detector\<lparr>rd_clocks := [(RaceActor 0 0 0 0 0, [(RaceActor 0 0 0 0 0, 1)])],
  rd_shared_shadow := [(0, [(0, \<lparr>si_begin = 0, si_end = 4,
    si_write = Some (demo_write, [(RaceActor 0 0 0 0 0, 1)]), si_readers = []\<rparr>)])]\<rparr>"
  by (simp add: demo_det_def observe_def demo_write_def new_detector_def Let_def actor_def om_at_def om_find_def
      tick_def epoch_def observe_shadow_def trailing_gap_def fresh_interval_def)

lemma demo_det_reachable: "race_reachable demo_det"
  unfolding demo_det_def by (rule rr_step [OF rr_init rs_observe]) (simp add: demo_write_def)

lemma demo_cell: "cell_at (shadow_of demo_det demo_read) 2 = Some (Some (demo_write, [(RaceActor 0 0 0 0 0, 1)]), [])"
  by (simp add: shadow_of_def demo_det_eq demo_read_def demo_write_def om_at_def om_find_def covers_def cell_of_def)

lemma demo_conflict:
  "conflict (recorded demo_det demo_read) (stamp demo_det demo_read) (Some (demo_write, [(RaceActor 0 0 0 0 0, 1)]), [])
    (demo_write, [(RaceActor 0 0 0 0 0, 1)])"
  by (simp add: conflict_def candidates_def recorded_def demo_read_def demo_write_def happens_before_def actor_def
      stamp_def clock_at_def demo_det_eq new_detector_def om_at_def om_find_def tick_def epoch_def)

theorem observe_is_bytewise_witness:
  "\<exists>w. cell_at (shadow_of (snd (observe demo_read demo_det)) demo_read) 3 =
     Some (w, [(RaceActor 0 0 0 1 0, (demo_read, stamp demo_det demo_read))])"
proof -
  have "cell_at (shadow_of demo_det demo_read) 3 = Some (Some (demo_write, [(RaceActor 0 0 0 0 0, 1)]), [])"
    by (simp add: shadow_of_def demo_det_eq demo_read_def demo_write_def om_at_def om_find_def covers_def cell_of_def)
  then show ?thesis
    using observe_is_bytewise [OF demo_det_reachable, of demo_read demo_read 3]
    by (simp add: same_domain_def in_range_def demo_read_def demo_write_def touch_def recorded_def actor_def)
qed


theorem observe_reports_are_genuine_witness:
  "rr_second ` set (fst (observe demo_read demo_det)) \<subseteq> {recorded demo_det demo_read}"
  using observe_reports_are_genuine [OF demo_det_reachable, of demo_read] by (auto simp: demo_read_def demo_write_def)

lemma demo_lane: "l < 32 \<Longrightarrow> w \<in> set ws \<Longrightarrow> RaceActor 0 s c w (word_of_nat l) \<in> set (lanes_of c s ws)"
  by (auto simp: lanes_of_def kRaceLanesPerWarp_def intro!: bexI [of _ w])


definition demo_release :: RaceAccess where
  "demo_release = demo_write\<lparr>rc_is_atomic := True, rc_mem_order := ''release'', rc_scope := ''cta''\<rparr>"

definition demo_acquire :: RaceAccess where
  "demo_acquire = demo_release\<lparr>rc_warp := 1, rc_mem_order := ''acquire''\<rparr>"

lemma demo_released:
  "race_reachable (atomic_access demo_release new_detector)"
  "records_at (snd (observe demo_acquire (atomic_access demo_release new_detector)))
     (key_of (snd (observe demo_acquire (atomic_access demo_release new_detector))) demo_acquire) =
   [\<lparr>rl_actor = RaceActor 0 0 0 0 0, rl_scope = ''cta'', rl_clock = [(RaceActor 0 0 0 0 0, 1)]\<rparr>]"
proof -
  show "race_reachable (atomic_access demo_release new_detector)"
    by (rule rr_step [OF rr_init rs_atomic]) (simp add: demo_release_def demo_write_def)
  have "rd_release_clocks (atomic_access demo_release new_detector) =
    [(ReleaseKey kShared 0 0 0 4, [\<lparr>rl_actor = RaceActor 0 0 0 0 0, rl_scope = ''cta'', rl_clock = [(RaceActor 0 0 0 0 0, 1)]\<rparr>])]"
    by (simp add: atomic_access_eq observe_eq Let_def demo_release_def demo_write_def is_release_order_def
        is_acquire_order_def records_at_def new_detector_def key_of_def clock_at_def om_at_def om_find_def actor_def
        stamp_def tick_def epoch_def)
  then show "records_at (snd (observe demo_acquire (atomic_access demo_release new_detector)))
     (key_of (snd (observe demo_acquire (atomic_access demo_release new_detector))) demo_acquire) =
   [\<lparr>rl_actor = RaceActor 0 0 0 0 0, rl_scope = ''cta'', rl_clock = [(RaceActor 0 0 0 0 0, 1)]\<rparr>]"
    by (simp add: observe_eq Let_def records_at_def key_of_def om_at_def om_find_def demo_acquire_def demo_release_def demo_write_def)
qed

theorem acquire_merges_visible_releases_witness:
  "dominates (clock_at (atomic_access demo_acquire (atomic_access demo_release new_detector)) (RaceActor 0 0 0 1 0))
     [(RaceActor 0 0 0 0 0, 1)]"
proof -
  have "actor demo_acquire = RaceActor 0 0 0 1 0" "rc_begin demo_acquire < rc_end demo_acquire"
    "rc_order_scope_ok demo_acquire = ''supported''" "rc_mem_order demo_acquire = ''acquire''"
    "synchronises demo_acquire \<lparr>rl_actor = RaceActor 0 0 0 0 0, rl_scope = ''cta'', rl_clock = [(RaceActor 0 0 0 0 0, 1)]\<rparr>"
    by (simp_all add: demo_acquire_def demo_release_def demo_write_def actor_def synchronises_def scope_visible_def)
  with acquire_merges_visible_releases [OF demo_released(1), of demo_acquire, unfolded Let_def demo_released(2), THEN conjunct2]
  show ?thesis by (simp del: dominates.simps)
qed

theorem reclaimed_allocation_has_no_history_witness:
  "fst (observe (demo_write\<lparr>rc_space := kGlobal\<rparr>) (reclaim_allocation 0 demo_det)) = []"
  using reclaimed_allocation_has_no_history [OF demo_det_reachable, of "demo_write\<lparr>rc_space := kGlobal\<rparr>"]
  by (simp add: demo_write_def)

theorem dedup_key_symmetric_witness:
  "dedup_key demo_read demo_write 2 4 = dedup_key demo_write demo_read 2 4"
  by (rule dedup_key_symmetric) (simp add: demo_read_def)

end
