(* ===== verification/Memory_Service.thy ===== *)
theory Memory_Service
  imports Device_Memory Byte_Store
begin

text \<open>
  The memory service of the interpreter (\<open>semu/memory/memory_service.hpp\<close>,
  \<open>src/memory/memory_service.cpp\<close>): checked address arithmetic, width and sign decoding, the
  SASS-level loads, stores and atomics on the global, shared and constant windows, the host
  access used by the launcher and the debugger, and the conversion of memory errors into
  faults. A reference parameter that an operation assigns is an extra argument and result.
  The caller-owned global backing is \<open>None\<close> while no vector is attached; an operation that
  would dereference the null backing is undefined behaviour in C++ and \<open>None\<close> here.
\<close>

subsection \<open>Values and widths\<close>

type_synonym MemValue = "u32 list" \<comment> \<open>always four words, as \<open>std::array<uint32_t, 4>\<close>\<close>

definition zero_value :: MemValue where
  "zero_value = [0, 0, 0, 0]"

record MemWidthInfo =
  mw_bytes :: u64
  mw_sign_extend :: bool
  mw_valid :: bool

definition mem_width_info :: "u64 \<Rightarrow> MemWidthInfo" where
  "mem_width_info sz_slot =
     (if sz_slot = 0 then \<lparr>mw_bytes = 1, mw_sign_extend = False, mw_valid = True\<rparr>
      else if sz_slot = 1 then \<lparr>mw_bytes = 1, mw_sign_extend = True, mw_valid = True\<rparr>
      else if sz_slot = 2 then \<lparr>mw_bytes = 2, mw_sign_extend = False, mw_valid = True\<rparr>
      else if sz_slot = 3 then \<lparr>mw_bytes = 2, mw_sign_extend = True, mw_valid = True\<rparr>
      else if sz_slot = 5 then \<lparr>mw_bytes = 8, mw_sign_extend = False, mw_valid = True\<rparr>
      else if sz_slot = 6 then \<lparr>mw_bytes = 16, mw_sign_extend = False, mw_valid = True\<rparr>
      else if sz_slot = 4 then \<lparr>mw_bytes = 4, mw_sign_extend = False, mw_valid = True\<rparr>
      else \<lparr>mw_bytes = 0, mw_sign_extend = False, mw_valid = False\<rparr>)"

definition checked_add :: "u64 \<Rightarrow> u64 \<Rightarrow> u64 option" where
  "checked_add base offset =
     (if sint offset \<ge> 0 then
        (if base > UINT64_MAX - offset then None else Some (base + offset))
      else let mag = - (offset + 1) + 1
           in if base < mag then None else Some (base - mag))"

definition natural_alignment :: "u64 \<Rightarrow> u64" where
  "natural_alignment n =
     (if n \<ge> 16 then 16 else if n \<ge> 8 then 8 else if n \<ge> 4 then 4 else if n \<ge> 2 then 2 else 1)"

definition width_aligned :: "u64 \<Rightarrow> u64 \<Rightarrow> bool" where
  "width_aligned addr n \<longleftrightarrow> addr mod natural_alignment n = 0"

definition check_atomic_width :: "u64 \<Rightarrow> Status" where
  "check_atomic_width width =
     (if width \<noteq> 1 \<and> width \<noteq> 2 \<and> width \<noteq> 4 \<and> width \<noteq> 8 then
        failure (mk_error kNotSupported ''128-bit (width 16) atomic RMW is not supported'')
      else success ())"

definition value_byte :: "MemValue \<Rightarrow> nat \<Rightarrow> u8" where
  "value_byte v i = ucast (drop_bit (8 * (i mod 4)) (v ! (i div 4)) AND 0xff)"

definition mem_value_to_bytes :: "MemValue \<Rightarrow> u64 \<Rightarrow> bytes" where
  "mem_value_to_bytes v len = map (value_byte v) [0..<unat (min len 16)]"

definition mem_value_to_bytes_atomic :: "MemValue \<Rightarrow> u64 \<Rightarrow> bytes" where
  "mem_value_to_bytes_atomic v len = map (value_byte v) [0..<unat (min len 8)]"

definition load_le :: "bytes \<Rightarrow> u64 \<Rightarrow> u64" where
  "load_le src len = foldl (\<lambda>v i. v OR push_bit (8 * i) (ucast (src ! i))) 0 [0..<unat (min len 8)]"

definition store_le :: "bytes \<Rightarrow> u64 \<Rightarrow> u64 \<Rightarrow> bytes" where
  "store_le dst v len = foldl (\<lambda>d i. d[i := ucast (drop_bit (8 * i) v AND 0xff)]) dst [0..<unat (min len 8)]"

definition signed_le :: "u64 \<Rightarrow> u64 \<Rightarrow> int" where
  "signed_le v len =
     (if len = 1 then sint (ucast v :: u8)
      else if len = 2 then sint (ucast v :: u16)
      else if len = 4 then sint (ucast v :: u32)
      else sint v)"

definition apply_atomic :: "AtomicOp \<Rightarrow> u64 \<Rightarrow> u64 \<Rightarrow> u64 \<Rightarrow> u64 \<Rightarrow> u64 option" where
  "apply_atomic op width a b c =
     (case op of
        kAdd \<Rightarrow> Some (a + b)
      | kMin \<Rightarrow> Some (min a b)
      | kMax \<Rightarrow> Some (max a b)
      | kAnd \<Rightarrow> Some (a AND b)
      | kOr \<Rightarrow> Some (a OR b)
      | kXor \<Rightarrow> Some (a XOR b)
      | kExch \<Rightarrow> Some b
      | kInc \<Rightarrow> if width \<noteq> 4 then None else Some (if a \<ge> b then 0 else a + 1)
      | kDec \<Rightarrow> if width \<noteq> 4 then None else Some (if a = 0 \<or> a > b then b else a - 1)
      | kCas \<Rightarrow> Some (if a = c then b else a)
      | kMinSigned \<Rightarrow> Some (word_of_int (min (signed_le a width) (signed_le b width)))
      | kMaxSigned \<Rightarrow> Some (word_of_int (max (signed_le a width) (signed_le b width)))
      | kCount \<Rightarrow> None)"

record ResolvedAddress =
  rv_space :: AddressSpace
  rv_base :: u64
  rv_offset :: u64
  rv_size :: u64

definition final_address :: "ResolvedAddress \<Rightarrow> u64" where
  "final_address r = (case checked_add (rv_base r) (rv_offset r) of None \<Rightarrow> 0 | Some v \<Rightarrow> v)"

text \<open>The tail of every load: the 16-byte buffer to the register value.\<close>

definition unpack_value :: "MemWidthInfo \<Rightarrow> u64 \<Rightarrow> bytes \<Rightarrow> MemValue" where
  "unpack_value w len buf =
     (if len \<le> 4 then
        let raw = ucast (bytes_u64 (take (unat len) buf)) :: u32
        in if mw_sign_extend w \<and> len = 1 then [word_of_int (sint (ucast raw :: u8)), 0, 0, 0]
           else if mw_sign_extend w \<and> len = 2 then [word_of_int (sint (ucast raw :: u16)), 0, 0, 0]
           else [raw, 0, 0, 0]
      else if len \<le> 8 then
        let raw = bytes_u64 (take (unat len) buf)
        in [ucast (raw AND 0xffffffff), ucast (drop_bit 32 raw), 0, 0]
      else map (\<lambda>i. ucast (bytes_u64 (read_range (4 * i) 4 buf))) [0..<4])"

subsection \<open>State and set-up\<close>

record SharedWindow =
  sw_id :: AllocationId
  sw_base :: DevicePtr
  sw_size :: u64

datatype PendingKind = kPendLoad | kPendStore | kPendAtomic | kPendAsync

record PendingMemOp =
  pm_kind :: PendingKind
  pm_group :: u64
  pm_bytes :: u64
  pm_target :: string
  pm_completed :: bool

record MemoryService =
  ms_alloc :: MemoryAllocator
  ms_params :: bytes
  ms_global :: "bytes option"
  ms_global_size :: u64
  ms_constant :: bytes
  ms_global_base :: DevicePtr
  ms_shared :: "SharedWindow list"
  ms_groups :: "PendingMemOp list list"
  ms_reads :: u64
  ms_writes :: u64

definition kConstantSize :: nat where
  "kConstantSize = 0x10000"

definition kParamBase :: nat where
  "kParamBase = 0x380"

definition new_service :: "bytes \<Rightarrow> MemoryService" where
  "new_service params =
     \<lparr>ms_alloc = new_allocator kDefaultBase, ms_params = params, ms_global = None, ms_global_size = 0,
      ms_constant = (let n = min (length params) (kConstantSize - kParamBase)
                     in write_range kParamBase (take n params) (replicate kConstantSize 0)),
      ms_global_base = 0, ms_shared = [], ms_groups = [], ms_reads = 0, ms_writes = 0\<rparr>"

definition setup_global :: "u64 \<Rightarrow> string \<Rightarrow> MemoryService \<Rightarrow> DevicePtr StatusOr \<times> MemoryService" where
  "setup_global sz label ms =
     (case allocate kGlobal sz 16 label (ms_alloc ms) of
        (Inl e, al) \<Rightarrow> (Inl e, ms\<lparr>ms_alloc := al\<rparr>)
      | (Inr p, al) \<Rightarrow> (Inr p, ms\<lparr>ms_alloc := al, ms_global_base := p, ms_global_size := sz\<rparr>))"

definition no_window :: SharedWindow where
  "no_window = \<lparr>sw_id = 0, sw_base = 0, sw_size = 0\<rparr>"

definition register_cta_shared :: "u64 \<Rightarrow> u64 \<Rightarrow> MemoryService \<Rightarrow> DevicePtr StatusOr \<times> MemoryService" where
  "register_cta_shared sz cta_id ms =
     (case allocate kShared sz 16 (''cta:'' @ show_u64 cta_id) (ms_alloc ms) of
        (Inl e, al) \<Rightarrow> (Inl e, ms\<lparr>ms_alloc := al\<rparr>)
      | (Inr p, al) \<Rightarrow>
          (case allocation_by_base p al of
             Inl _ \<Rightarrow> (Inr p, ms\<lparr>ms_alloc := al\<rparr>)
           | Inr a \<Rightarrow>
               let padded = ms_shared ms @ replicate (unat cta_id + 1 - length (ms_shared ms)) no_window
               in (Inr p, ms\<lparr>ms_alloc := al,
                     ms_shared := padded[unat cta_id := \<lparr>sw_id = al_id a, sw_base = p, sw_size = sz\<rparr>]\<rparr>)))"

definition register_warp_local :: "u64 \<Rightarrow> u64 \<Rightarrow> u64 \<Rightarrow> MemoryService \<Rightarrow> DevicePtr StatusOr \<times> MemoryService" where
  "register_warp_local sz cta_id warp_id ms =
     (case allocate kLocal sz 16 (''warp:'' @ show_u64 cta_id @ '':'' @ show_u64 warp_id) (ms_alloc ms) of
        (r, al) \<Rightarrow> (r, ms\<lparr>ms_alloc := al\<rparr>))"

definition set_global_backing :: "bytes option \<Rightarrow> MemoryService \<Rightarrow> MemoryService" where
  "set_global_backing backing ms = ms\<lparr>ms_global := backing\<rparr>"

definition global_base :: "MemoryService \<Rightarrow> DevicePtr" where
  "global_base ms = ms_global_base ms"

definition global_size :: "MemoryService \<Rightarrow> u64" where
  "global_size ms = (case ms_global ms of None \<Rightarrow> 0 | Some g \<Rightarrow> word_of_nat (length g))"

definition constant_size :: "MemoryService \<Rightarrow> u64" where
  "constant_size ms = word_of_nat (length (ms_constant ms))"

definition global_allocation_id :: "MemoryService \<Rightarrow> AllocationId" where
  "global_allocation_id ms =
     (if is_null (ms_global_base ms) then 0
      else case allocation_by_base (ms_global_base ms) (ms_alloc ms) of Inl _ \<Rightarrow> 0 | Inr a \<Rightarrow> al_id a)"

definition cta_shared_base :: "u64 \<Rightarrow> MemoryService \<Rightarrow> DevicePtr" where
  "cta_shared_base cta_id ms =
     (if unat cta_id < length (ms_shared ms) then sw_base (ms_shared ms ! unat cta_id) else 0)"

subsection \<open>Host windows\<close>

definition out_of_window :: "bytes \<Rightarrow> u64 \<Rightarrow> u64 \<Rightarrow> bool" where
  "out_of_window buf off len \<longleftrightarrow> off > word_of_nat (length buf) \<or> len > word_of_nat (length buf) - off"

definition write_host :: "u64 \<Rightarrow> bytes \<Rightarrow> u64 \<Rightarrow> MemoryService \<Rightarrow> Status \<times> MemoryService" where
  "write_host off src len ms =
     (case ms_global ms of
        None \<Rightarrow> (failure (mk_error kOob ''global buffer write out of bounds''), ms)
      | Some g \<Rightarrow>
          if out_of_window g off len then (failure (mk_error kOob ''global buffer write out of bounds''), ms)
          else (success (), ms\<lparr>ms_global := Some (write_range (unat off) (take (unat len) src) g)\<rparr>))"

definition read_host :: "u64 \<Rightarrow> u64 \<Rightarrow> MemoryService \<Rightarrow> bytes StatusOr" where
  "read_host off len ms =
     (case ms_global ms of
        None \<Rightarrow> failure (mk_error kOob ''global buffer read out of bounds'')
      | Some g \<Rightarrow>
          if out_of_window g off len then failure (mk_error kOob ''global buffer read out of bounds'')
          else success (read_range (unat off) (unat len) g))"

definition read_constant :: "u64 \<Rightarrow> u64 \<Rightarrow> MemoryService \<Rightarrow> bytes StatusOr" where
  "read_constant off len ms =
     (if out_of_window (ms_constant ms) off len then
        failure (mk_error kOob ''constant window read out of bounds'')
      else success (read_range (unat off) (unat len) (ms_constant ms)))"

definition write_constant :: "u64 \<Rightarrow> bytes \<Rightarrow> u64 \<Rightarrow> MemoryService \<Rightarrow> Status \<times> MemoryService" where
  "write_constant off src len ms =
     (if out_of_window (ms_constant ms) off len then
        (failure (mk_error kOob ''constant window write out of bounds''), ms)
      else (success (), ms\<lparr>ms_constant := write_range (unat off) (take (unat len) src) (ms_constant ms)\<rparr>))"

subsection \<open>Loads\<close>

definition read_global :: "u64 \<Rightarrow> MemWidthInfo \<Rightarrow> MemValue \<Rightarrow> MemoryService \<Rightarrow> (Status \<times> MemValue \<times> MemoryService) option" where
  "read_global va w out ms =
     (if is_null (ms_global_base ms) then Some (success (), zero_value, ms)
      else if va < ms_global_base ms then Some (failure (mk_error kOob ''global load below buffer''), out, ms)
      else
        case ms_global ms of
          None \<Rightarrow> None
        | Some g \<Rightarrow>
            let off = va - ms_global_base ms; len = min (mw_bytes w) 16
            in if out_of_window g off len then Some (failure (mk_error kOob ''global load out of bounds''), out, ms)
               else Some (success (), unpack_value w len (write_range 0 (read_range (unat off) (unat len) g) (replicate 16 0)),
                          ms\<lparr>ms_reads := ms_reads ms + 1\<rparr>))"

definition ldg :: "DevicePtr \<Rightarrow> u64 \<Rightarrow> u64 \<Rightarrow> MemWidthInfo \<Rightarrow> MemValue \<Rightarrow> MemoryService \<Rightarrow>
    (Status \<times> MemValue \<times> MemoryService) option" where
  "ldg desc addr offset w out ms =
     (if \<not> mw_valid w then Some (failure (mk_error kInvalidArgument ''invalid load size slot''), out, ms)
      else if is_null (ms_global_base ms) then Some (success (), zero_value, ms)
      else
        case Option.bind (checked_add (ms_global_base ms) addr) (\<lambda>b. checked_add b offset) of
          None \<Rightarrow> Some (failure (mk_error kOob ''global load address overflow''), out, ms)
        | Some base_addr \<Rightarrow>
            if \<not> width_aligned (base_addr - ms_global_base ms) (mw_bytes w) then
              Some (failure (mk_error kAlignmentViolation ''global load misaligned for width''), out, ms)
            else read_global base_addr w out ms)"

definition lds :: "bytes \<Rightarrow> u64 \<Rightarrow> u64 \<Rightarrow> MemWidthInfo \<Rightarrow> MemValue \<Rightarrow> Status \<times> MemValue" where
  "lds shared off disp w out =
     (if \<not> mw_valid w then (failure (mk_error kInvalidArgument ''invalid shared load size slot''), out)
      else
        let len = min (mw_bytes w) 16
        in case checked_add off disp of
             None \<Rightarrow> (failure (mk_error kOob ''shared load address underflow''), out)
           | Some abs_off \<Rightarrow>
               if out_of_window shared abs_off len then
                 (failure (mk_error kOob ''shared load out of bounds''), out)
               else if \<not> width_aligned abs_off (mw_bytes w) then
                 (failure (mk_error kAlignmentViolation ''shared load misaligned for width''), out)
               else (success (), unpack_value w len
                       (write_range 0 (read_range (unat abs_off) (unat len) shared) (replicate 16 0))))"

definition ldc :: "u64 \<Rightarrow> u64 \<Rightarrow> MemWidthInfo \<Rightarrow> MemValue \<Rightarrow> MemoryService \<Rightarrow> Status \<times> MemValue" where
  "ldc bank off w out ms =
     (if \<not> mw_valid w then (failure (mk_error kInvalidArgument ''invalid constant load size slot''), out)
      else
        let len = min (mw_bytes w) 16
        in if out_of_window (ms_constant ms) off len then
             (failure (mk_error kOob ''constant read out of bounds''), out)
           else if \<not> width_aligned off (mw_bytes w) then
             (failure (mk_error kAlignmentViolation ''constant load misaligned for width''), out)
           else (success (), unpack_value w len
                   (write_range 0 (read_range (unat off) (unat len) (ms_constant ms)) (replicate 16 0))))"

subsection \<open>Stores\<close>

definition stg :: "DevicePtr \<Rightarrow> u64 \<Rightarrow> u64 \<Rightarrow> MemWidthInfo \<Rightarrow> MemValue \<Rightarrow> MemoryService \<Rightarrow>
    (Status \<times> MemoryService) option" where
  "stg desc addr offset w v ms =
     (if \<not> mw_valid w then Some (failure (mk_error kInvalidArgument ''invalid store size slot''), ms)
      else if is_null (ms_global_base ms) then Some (success (), ms)
      else
        case Option.bind (checked_add (ms_global_base ms) addr) (\<lambda>b. checked_add b offset) of
          None \<Rightarrow> Some (failure (mk_error kOob ''global store address overflow''), ms)
        | Some target \<Rightarrow>
            let off = target - ms_global_base ms; len = min (mw_bytes w) 16
            in case ms_global ms of
                 None \<Rightarrow> None
               | Some g \<Rightarrow>
                   if out_of_window g off len then
                     Some (failure (mk_error kOob ''global store out of bounds''), ms)
                   else if \<not> width_aligned off (mw_bytes w) then
                     Some (failure (mk_error kAlignmentViolation ''global store misaligned for width''), ms)
                   else Some (success (), ms\<lparr>ms_global := Some (write_range (unat off) (mem_value_to_bytes v len) g),
                                            ms_writes := ms_writes ms + 1\<rparr>))"

definition sts :: "bytes \<Rightarrow> u64 \<Rightarrow> u64 \<Rightarrow> MemWidthInfo \<Rightarrow> MemValue \<Rightarrow> Status \<times> bytes" where
  "sts shared off disp w v =
     (if \<not> mw_valid w then (failure (mk_error kInvalidArgument ''invalid shared store size slot''), shared)
      else
        let len = min (mw_bytes w) 16
        in case checked_add off disp of
             None \<Rightarrow> (failure (mk_error kOob ''shared store address underflow''), shared)
           | Some abs_off \<Rightarrow>
               if out_of_window shared abs_off len then
                 (failure (mk_error kOob ''shared store out of bounds''), shared)
               else if \<not> width_aligned abs_off (mw_bytes w) then
                 (failure (mk_error kAlignmentViolation ''shared store misaligned for width''), shared)
               else (success (), write_range (unat abs_off) (mem_value_to_bytes v len) shared))"

subsection \<open>Atomics\<close>

definition not_implemented :: "AtomicOp \<Rightarrow> u64 \<Rightarrow> Error" where
  "not_implemented op width =
     mk_error kNotSupported
       (''atomic op '' @ show_nat (atomic_op_code op) @ '' at width '' @ show_u64 width @ '' is not implemented'')"

text \<open>
  The part the two atomics share after their checks: the eight-byte scratch buffers, the old
  value, the combination and the write-back. The result is the status, the old value and the
  buffer.
\<close>

definition rmw_bytes :: "bytes \<Rightarrow> u64 \<Rightarrow> u64 \<Rightarrow> AtomicOp \<Rightarrow> MemValue \<Rightarrow> MemValue option \<Rightarrow> Status \<times> MemValue \<times> bytes" where
  "rmw_bytes buf off width op operands cmp =
     (let cur = write_range 0 (read_range (unat off) (unat width) buf) (replicate 8 0);
          opr_buf = write_range 0 (mem_value_to_bytes_atomic operands width) (replicate 8 0);
          cmp_buf = (case cmp of None \<Rightarrow> replicate 8 0
                     | Some c \<Rightarrow> write_range 0 (mem_value_to_bytes_atomic c width) (replicate 8 0));
          old0 = ucast (bytes_u64 (take (if width \<le> 4 then unat width else 4) cur)) :: u32;
          old1 = (if width > 4 then ucast (bytes_u64 (read_range 4 (unat (width - 4)) cur)) else 0) :: u32;
          old = [old0, old1, 0, 0]
      in case apply_atomic op width (load_le cur width) (load_le opr_buf width) (load_le cmp_buf width) of
           None \<Rightarrow> (failure (not_implemented op width), old, buf)
         | Some r \<Rightarrow> (success (), old, write_range (unat off) (take (unat width) (store_le cur r width)) buf))"

definition atom_global :: "u64 \<Rightarrow> u64 \<Rightarrow> AtomicOp \<Rightarrow> MemValue \<Rightarrow> MemValue \<Rightarrow> MemValue option \<Rightarrow> MemoryService \<Rightarrow>
    (Status \<times> MemValue \<times> MemoryService) option" where
  "atom_global addr width op operands old cmp ms =
     (if is_null (ms_global_base ms) then
        Some (failure (mk_error kBadAddress ''no global memory for atomic''), old, ms)
      else
        case check_atomic_width width of
          Inl e \<Rightarrow> Some (Inl e, old, ms)
        | Inr _ \<Rightarrow>
            (case ms_global ms of
               None \<Rightarrow> None
             | Some g \<Rightarrow>
                 if out_of_window g addr width then
                   Some (failure (mk_error kOob ''global atomic out of bounds''), old, ms)
                 else if \<not> width_aligned addr width then
                   Some (failure (mk_error kAlignmentViolation ''global atomic misaligned for width''), old, ms)
                 else
                   (case rmw_bytes g addr width op operands cmp of
                      (Inl e, old', g') \<Rightarrow> Some (Inl e, old', ms)
                    | (Inr u, old', g') \<Rightarrow>
                        Some (Inr u, old', ms\<lparr>ms_global := Some g', ms_reads := ms_reads ms + 1,
                                              ms_writes := ms_writes ms + 1\<rparr>))))"

definition atom_shared :: "bytes \<Rightarrow> u64 \<Rightarrow> u64 \<Rightarrow> AtomicOp \<Rightarrow> MemValue \<Rightarrow> MemValue \<Rightarrow> MemValue option \<Rightarrow>
    Status \<times> MemValue \<times> bytes" where
  "atom_shared shared off width op operands old cmp =
     (case check_atomic_width width of
        Inl e \<Rightarrow> (Inl e, old, shared)
      | Inr _ \<Rightarrow>
          if out_of_window shared off width then
            (failure (mk_error kOob ''shared atomic out of bounds''), old, shared)
          else if \<not> width_aligned off width then
            (failure (mk_error kAlignmentViolation ''shared atomic misaligned for width''), old, shared)
          else rmw_bytes shared off width op operands cmp)"

subsection \<open>Groups and faults\<close>

definition commit_group :: "MemoryService \<Rightarrow> MemoryService" where
  "commit_group ms = ms\<lparr>ms_groups := ms_groups ms @ [[]]\<rparr>"

definition drain :: "MemoryService \<Rightarrow> MemoryService" where
  "drain ms = ms\<lparr>ms_groups := []\<rparr>"

definition pending_ops :: "u64 \<Rightarrow> MemoryService \<Rightarrow> nat" where
  "pending_ops gid ms =
     (if unat gid \<ge> length (ms_groups ms) then 0
      else length (filter (\<lambda>p. \<not> pm_completed p) (ms_groups ms ! unat gid)))"

definition memory_error_to_fault :: "Error \<Rightarrow> u64 \<Rightarrow> u32 \<Rightarrow> Fault" where
  "memory_error_to_fault e pc warp =
     (case code e of
        kAlignmentViolation \<Rightarrow> set_warp warp (set_pc pc (mk_fault kAlignmentFault (message e)))
      | kLifecycle \<Rightarrow> set_warp warp (set_pc pc (mk_fault kLifecycleFault (message e)))
      | kNotSupported \<Rightarrow> set_warp warp (set_pc pc (mk_fault kIllegalMemoryAccess (message e)))
      | kUnimplemented \<Rightarrow> set_warp warp (set_pc pc (mk_fault kIllegalMemoryAccess (message e)))
      | kInvalidArgument \<Rightarrow> set_warp warp (set_pc pc (mk_fault kIllegalMemoryAccess (message e)))
      | _ \<Rightarrow> set_warp warp (set_pc pc (mk_fault kIllegalMemoryAccess (message e))))"

end
