(* ===== verification/Memory_Service_Facts.thy ===== *)
theory Memory_Service_Facts
  imports Memory_Service Device_Memory_Facts Atomic_Spec
begin

text \<open>
  Correctness of the memory service: the host and constant windows are byte stores, a shared
  or global store is read back by the load of the same width, atomics compute the reference
  semantics, and every rejection has its cause.
\<close>

subsection \<open>Windows\<close>

definition fits_size_t :: "bytes \<Rightarrow> bool" where
  "fits_size_t buf \<longleftrightarrow> length buf < 2 ^ 64"

lemma out_of_window_iff:
  "fits_size_t buf \<Longrightarrow> out_of_window buf off len \<longleftrightarrow> \<not> unat off + unat len \<le> length buf"
  using window_check [of off "word_of_nat (length buf)" len]
  by (auto simp: out_of_window_def fits_size_t_def not_less unat_of_nat_u64 not_le)

lemma fits_write [simp]: "fits_size_t buf \<Longrightarrow> off + length bs \<le> length buf \<Longrightarrow> fits_size_t (write_range off bs buf)"
  by (simp add: fits_size_t_def)

definition host_inv :: "MemoryService \<Rightarrow> bool" where
  "host_inv ms \<longleftrightarrow> (case ms_global ms of None \<Rightarrow> True | Some g \<Rightarrow> fits_size_t g)"

definition const_inv :: "MemoryService \<Rightarrow> bool" where
  "const_inv ms \<longleftrightarrow> fits_size_t (ms_constant ms)"

lemma read_host_cases:
  "ms_global ms = Some g \<Longrightarrow> fits_size_t g \<Longrightarrow> read_host off len ms =
     (if unat off + unat len \<le> length g then Inr (read_range (unat off) (unat len) g)
      else Inl (mk_error kOob ''global buffer read out of bounds''))"
  by (simp add: read_host_def out_of_window_iff)

lemma write_host_cases:
  "ms_global ms = Some g \<Longrightarrow> fits_size_t g \<Longrightarrow> write_host off src len ms =
     (if unat off + unat len \<le> length g then (Inr (), ms\<lparr>ms_global := Some (write_range (unat off) (take (unat len) src) g)\<rparr>)
      else (Inl (mk_error kOob ''global buffer write out of bounds''), ms))"
  by (simp add: write_host_def out_of_window_iff)

interpretation host_window: byte_store host_inv read_host write_host
proof
  fix ms :: MemoryService and src n a c k e bs
  assume inv: "host_inv ms"
  show "host_inv (snd (write_host a src n ms))" if "length src = unat n"
    using inv that by (cases "ms_global ms") (auto simp: host_inv_def write_host_def out_of_window_iff)
  show "length bs = unat n" if "read_host a n ms = Inr bs"
    using inv that by (cases "ms_global ms") (auto simp: host_inv_def read_host_def out_of_window_iff split: if_splits)
  show "(\<exists>e. fst (write_host a src n ms) = Inl e) \<longleftrightarrow> (\<exists>e. read_host a n ms = Inl e)"
    by (cases "ms_global ms") (auto simp: read_host_def write_host_def)
  show "snd (write_host a src n ms) = ms" if "fst (write_host a src n ms) = Inl e"
    using that by (cases "ms_global ms") (auto simp: write_host_def split: if_splits)
  show "read_host a n (snd (write_host a src n ms)) = Inr src"
    if "length src = unat n" "fst (write_host a src n ms) = Inr ()"
    using inv that by (cases "ms_global ms")
      (auto simp: host_inv_def write_host_def read_host_def out_of_window_iff buf_simps split: if_splits)
  show "read_host c k (snd (write_host a src n ms)) = read_host c k ms"
    if "length src = unat n" "ranges_disjoint a n c k"
    using inv that by (cases "ms_global ms")
      (auto simp: host_inv_def write_host_def read_host_def out_of_window_iff ranges_disjoint_def buf_simps)
  show "(\<exists>bs. read_host c k (snd (write_host a src n ms)) = Inr bs) \<longleftrightarrow> (\<exists>bs. read_host c k ms = Inr bs)"
    if "length src = unat n"
    using inv that by (cases "ms_global ms")
      (auto simp: host_inv_def write_host_def read_host_def out_of_window_iff)
qed

interpretation const_window: byte_store const_inv read_constant write_constant
  by unfold_locales
    (auto simp: const_inv_def read_constant_def write_constant_def out_of_window_iff ranges_disjoint_def
      buf_simps split: if_splits)

subsection \<open>Little-endian values\<close>

lemma load_le_bytes: "length src \<ge> unat (min len 8) \<Longrightarrow> load_le src len = bytes_u64 (take (unat (min len 8)) src)"
proof -
  have gen: "foldl (\<lambda>v i. v OR push_bit (8 * i) (ucast (src ! i))) 0 [0..<n] = (bytes_u64 (take n src) :: u64)"
    if "n \<le> length src" for n
    using that
  proof (induction n)
    case (Suc n)
    have "bytes_u64 (take n src) OR push_bit (8 * n) (ucast (src ! n)) = bytes_u64 (take (Suc n) src)"
    proof (rule bit_word_eqI)
      fix m assume m: "m < LENGTH(64)"
      show "bit (bytes_u64 (take n src) OR push_bit (8 * n) (ucast (src ! n)) :: u64) m = bit (bytes_u64 (take (Suc n) src)) m"
      proof (cases "m < 8 * n")
        case True
        then have "m div 8 < n" by (simp add: less_mult_imp_div_less mult.commute)
        then show ?thesis using True Suc.prems m by (simp add: bit_simps bit_bytes_u64)
      next
        case False
        have "bit (src ! n) (m - 8 * n) \<Longrightarrow> m < 8 * Suc n" using bit_imp_le_length [of "src ! n" "m - 8 * n"] by simp
        moreover have "m div 8 = n \<and> m mod 8 = m - 8 * n" if "m < 8 * Suc n"
        proof -
          have "m div 8 = n" using False that by (intro div_nat_eqI) auto
          then show ?thesis using minus_mult_div_eq_mod [of m 8] by simp
        qed
        ultimately show ?thesis using False Suc.prems m by (auto simp: bit_simps bit_bytes_u64)
      qed
    qed
    then show ?case using Suc by simp
  qed simp
  assume "length src \<ge> unat (min len 8)"
  then show ?thesis unfolding load_le_def by (rule gen)
qed

lemma store_le_bytes:
  assumes "length dst = 8" "unat (min len 8) = n"
  shows "take n (store_le dst v len) = u64_bytes n v"
proof -
  have mask: "ucast (x AND 0xff) = (ucast x :: u8)" for x :: u64
  proof -
    have m: "(0xff :: u64) = mask 8" by (simp add: mask_eq_exp_minus_1)
    show ?thesis unfolding m by (auto intro!: bit_word_eqI simp: bit_simps)
  qed
  have gen: "k \<le> 8 \<Longrightarrow> length (foldl (\<lambda>d i. d[i := ucast (drop_bit (8 * i) v AND 0xff)]) dst [0..<k]) = 8 \<and>
     take k (foldl (\<lambda>d i. d[i := ucast (drop_bit (8 * i) v AND 0xff)]) dst [0..<k]) = u64_bytes k v" for k
  proof (induction k)
    case (Suc k)
    then show ?case by (auto simp: take_Suc_conv_app_nth u64_bytes_def mask)
  qed (use assms(1) in \<open>simp add: u64_bytes_def\<close>)
  have "n \<le> 8" using assms(2) by (auto simp: min_def word_le_nat_alt split: if_splits)
  then show ?thesis using gen [of n] assms(2) by (simp add: store_le_def)
qed

lemma value_byte_eq: "value_byte v i = ucast (drop_bit (8 * (i mod 4)) (v ! (i div 4)))"
proof -
  have m: "(0xff :: u32) = mask 8" by (simp add: mask_eq_exp_minus_1)
  show ?thesis unfolding value_byte_def m by (auto intro!: bit_word_eqI simp: bit_simps)
qed

text \<open>The eight low bytes of a value as one 64-bit number.\<close>

definition value64 :: "MemValue \<Rightarrow> u64" where
  "value64 v = ucast (v ! 0) OR push_bit 32 (ucast (v ! 1))"

lemma value_byte_u64:
  assumes "i < 8"
  shows "value_byte v i = ucast (drop_bit (8 * i) (value64 v))"
proof (rule bit_word_eqI)
  fix n assume n: "n < LENGTH(8)"
  show "bit (value_byte v i) n = bit (ucast (drop_bit (8 * i) (value64 v)) :: u8) n"
  proof (cases "i < 4")
    case True
    then have "i div 4 = 0" "i mod 4 = i" "8 * i + n < 32" using n by auto
    then show ?thesis using n by (auto simp: value_byte_eq value64_def bit_simps)
  next
    case False
    then have "i div 4 = 1" "8 * (i mod 4) + n = 8 * i + n - 32" "32 \<le> 8 * i + n" "8 * i + n < 64"
      using assms n by (auto simp: div_nat_eqI mod_if le_mod_geq)
    moreover have "\<not> bit (v ! 0) (8 * i + n)" using calculation(3) bit_imp_le_length by force
    ultimately show ?thesis using n by (auto simp: value_byte_eq value64_def bit_simps)
  qed
qed

lemma value_bytes_le8: "k \<le> 8 \<Longrightarrow> map (value_byte v) [0..<k] = u64_bytes k (value64 v)"
  by (auto simp: u64_bytes_def value_byte_u64)

subsection \<open>Atomics\<close>

lemma signed_le_cast: "signed_le v w = signed_cast w v"
  by (simp add: signed_le_def signed_cast_def)

lemma apply_atomic_spec:
  assumes w: "atomic_width_ok w" and a: "unat a < 2 ^ (8 * unat w)" and b: "unat b < 2 ^ (8 * unat w)"
    and r: "apply_atomic op w a b c = Some r"
  shows "unat r mod 2 ^ (8 * unat w) = atomic_spec op (8 * unat w) (unat a) (unat b) (unat c)"
proof (cases "op = kCas")
  case True
  then show ?thesis using r a b by (auto simp: apply_atomic_def atomic_spec_def word_unat_eq_iff)
next
  case ncas: False
  have inc: "op \<in> {kInc, kDec} \<Longrightarrow> w = 4" using r by (auto simp: apply_atomic_def split: if_splits)
  have "rmw_next op w a b = Some r" if "op \<notin> {kInc, kDec}"
    using r that ncas by (cases op) (auto simp: apply_atomic_def rmw_next_def signed_le_cast min_def max_def)
  moreover have "unat r = atomic_spec op (8 * unat w) (unat a) (unat b) (unat c) \<and> unat r < 2 ^ (8 * unat w)"
    if "op \<in> {kInc, kDec}"
  proof -
    have plus: "unat (a + 1) = unat a + 1" if "a < b"
      using that unat_lt_u64 [of b] by (intro trans [OF unat_add_no_wrap]) (simp_all add: word_less_nat_alt)
    have minus: "unat (a - 1) = unat a - 1" if "a \<noteq> 0" using that by (simp add: unat_minus_one)
    have w4: "unat w = 4" using inc [OF that] by simp
    from that consider "op = kInc" | "op = kDec" by blast
    then show ?thesis
    proof cases
      case 1
      then have "r = (if a \<ge> b then 0 else a + 1)" using r inc [OF that] by (simp add: apply_atomic_def)
      then show ?thesis using 1 plus b w4 by (auto simp: atomic_spec_def word_le_nat_alt word_less_nat_alt not_le)
    next
      case 2
      then have "r = (if a = 0 \<or> a > b then b else a - 1)" using r inc [OF that] by (simp add: apply_atomic_def)
      moreover have "a = 0 \<longleftrightarrow> unat a = 0" by (simp add: unat_eq_zero)
      ultimately show ?thesis using 2 minus a b w4 by (auto simp: atomic_spec_def word_less_nat_alt)
    qed
  qed
  ultimately show ?thesis
    using rmw_next_spec [OF w inc a b] by (cases "op \<in> {kInc, kDec}") auto
qed

lemma check_atomic_width_iff: "check_atomic_width w = Inr u \<longleftrightarrow> atomic_width_ok w"
  by (auto simp: check_atomic_width_def atomic_width_ok_def)

lemma scratch_take:
  "length bs = n \<Longrightarrow> n \<le> 8 \<Longrightarrow> take n (write_range 0 bs (replicate 8 x)) = bs"
  by (simp add: write_range_def)

lemma width_min8: "atomic_width_ok w \<Longrightarrow> min w 8 = w \<and> unat w \<le> 8"
  by (erule atomic_width_cases) simp_all

text \<open>The old value as the 64-bit number it holds.\<close>

lemma old_words:
  assumes "length cur \<ge> n" "n \<in> {1, 2, 4, 8}"
  shows "value64 [ucast (bytes_u64 (take (if n \<le> 4 then n else 4) cur)),
                  if n > 4 then ucast (bytes_u64 (read_range 4 (n - 4) cur)) else 0, 0, 0] = bytes_u64 (take n cur)"
proof (rule bit_word_eqI)
  fix m assume m: "m < LENGTH(64)"
  have len: "length cur \<ge> n" by fact
  show "bit (value64 [ucast (bytes_u64 (take (if n \<le> 4 then n else 4) cur)),
      if n > 4 then ucast (bytes_u64 (read_range 4 (n - 4) cur)) else 0, 0, 0]) m = bit (bytes_u64 (take n cur)) m"
  proof (cases "m < 32")
    case True
    then have "m div 8 < 4" by (simp add: less_mult_imp_div_less)
    then show ?thesis using True assms by (auto simp: value64_def bit_simps bit_bytes_u64)
  next
    case False
    have d: "m div 8 = 4 + (m - 32) div 8" "m mod 8 = (m - 32) mod 8"
      using False by (simp_all add: le_div_geq le_mod_geq)
    show ?thesis
      using False m assms d
      by (auto simp: value64_def bit_simps bit_bytes_u64 read_range_def)
  qed
qed

lemma rmw_bytes_outcome:
  assumes w: "atomic_width_ok w" and room: "unat off + unat w \<le> length buf"
  defines "old \<equiv> read_range (unat off) (unat w) buf"
  shows "let (st, ov, buf') = rmw_bytes buf off w op opr cmp;
             a = bytes_u64 old; b = take_bit (8 * unat w) (value64 opr);
             c = (case cmp of None \<Rightarrow> 0 | Some c \<Rightarrow> take_bit (8 * unat w) (value64 c))
         in value64 ov = a \<and>
            (case apply_atomic op w a b c of
               None \<Rightarrow> st = Inl (not_implemented op w) \<and> buf' = buf
             | Some r \<Rightarrow> st = Inr () \<and> buf' = write_range (unat off) (u64_bytes (unat w) r) buf)"
proof -
  have m8: "min w 8 = w" "unat w \<le> 8" using width_min8 [OF w] by auto
  have n: "unat w \<in> {1, 2, 4, 8}" by (rule atomic_width_unat [OF w])
  have len: "length old = unat w" using room by (simp add: old_def)
  let ?cur = "write_range 0 old (replicate 8 0)"
  have lc: "length ?cur = 8" using len m8 by simp
  have cur: "load_le ?cur w = bytes_u64 old"
    using load_le_bytes [of w ?cur] lc m8 scratch_take [OF len m8(2)] by simp
  have opnd: "load_le (write_range 0 (mem_value_to_bytes_atomic v w) (replicate 8 0)) w = take_bit (8 * unat w) (value64 v)" for v
  proof -
    have "mem_value_to_bytes_atomic v w = u64_bytes (unat w) (value64 v)"
      using m8 by (simp add: mem_value_to_bytes_atomic_def value_bytes_le8)
    then show ?thesis
      using load_le_bytes [of w "write_range 0 (u64_bytes (unat w) (value64 v)) (replicate 8 0)"] m8
        scratch_take [of "u64_bytes (unat w) (value64 v)" "unat w"] by (simp add: bytes_u64_bytes)
  qed
  have zero: "load_le (replicate 8 0) w = 0"
  proof -
    have "bytes_u64 (replicate k 0) = 0" for k by (induction k) auto
    then show ?thesis using load_le_bytes [of w "replicate 8 0"] m8 by simp
  qed
  have sub: "unat (w - 4) = unat w - 4" if "w > 4" using that by (simp add: unat_sub less_imp_le)
  have "value64 [ucast (bytes_u64 (take (if w \<le> 4 then unat w else 4) ?cur)),
      if w > 4 then ucast (bytes_u64 (read_range 4 (unat (w - 4)) ?cur)) else 0, 0, 0] = bytes_u64 old"
    using old_words [OF _ n, of ?cur] lc m8 scratch_take [OF len m8(2)] sub
    by (simp add: word_le_nat_alt word_less_nat_alt cong: if_cong)
  moreover have "take (unat w) (store_le ?cur r w) = u64_bytes (unat w) r" for r
    using store_le_bytes [OF lc] m8 by simp
  ultimately show ?thesis
    unfolding rmw_bytes_def Let_def old_def [symmetric] cur opnd
    by (cases cmp) (auto simp: opnd zero split: option.splits)
qed

subsection \<open>Store and load of one width\<close>

text \<open>What a register holds after its value went through memory at a given width.\<close>

definition extended :: "MemWidthInfo \<Rightarrow> MemValue \<Rightarrow> MemValue" where
  "extended w v =
     (if mw_bytes w = 1 then
        [if mw_sign_extend w then word_of_int (sint (ucast (v ! 0) :: u8)) else ucast (ucast (v ! 0) :: u8), 0, 0, 0]
      else if mw_bytes w = 2 then
        [if mw_sign_extend w then word_of_int (sint (ucast (v ! 0) :: u16)) else ucast (ucast (v ! 0) :: u16), 0, 0, 0]
      else if mw_bytes w = 4 then [v ! 0, 0, 0, 0]
      else if mw_bytes w = 8 then [v ! 0, v ! 1, 0, 0]
      else v)"

lemma word_of_value_bytes:
  "bytes_u64 (map (value_byte v) [4 * i..<4 * i + 4]) = ucast (v ! i)"
proof -
  have "map (value_byte v) [4 * i..<4 * i + 4] = u64_bytes 4 (ucast (v ! i))"
  proof (rule nth_equalityI)
    fix j assume "j < length (map (value_byte v) [4 * i..<4 * i + 4])"
    then have j: "j < 4" by simp
    then have "(4 * i + j) div 4 = i" "(4 * i + j) mod 4 = j" by auto
    then have "value_byte v (4 * i + j) = ucast (drop_bit (8 * j) (v ! i))" by (simp add: value_byte_eq)
    also have "\<dots> = ucast (drop_bit (8 * j) (ucast (v ! i) :: u64))"
      by (rule bit_word_eqI) (auto simp: bit_simps dest: bit_imp_le_length)
    finally show "map (value_byte v) [4 * i..<4 * i + 4] ! j = u64_bytes 4 (ucast (v ! i)) ! j"
      using j by (simp add: u64_bytes_def)
  qed simp
  then have "bytes_u64 (map (value_byte v) [4 * i..<4 * i + 4]) = take_bit 32 (ucast (v ! i))"
    using bytes_u64_bytes [of 4 "ucast (v ! i)"] by simp
  also have "\<dots> = ucast (v ! i)" by (rule bit_word_eqI) (auto simp: bit_simps dest: bit_imp_le_length)
  finally show ?thesis .
qed

lemma low_bytes:
  assumes "k \<le> 8"
  shows "bytes_u64 (map (value_byte v) [0..<k]) = take_bit (8 * k) (value64 v)"
  using assms by (simp add: value_bytes_le8 bytes_u64_bytes)

lemma value64_low: "ucast (value64 v) = v ! 0" "ucast (drop_bit 32 (value64 v)) = v ! 1"
proof -
  have "\<not> bit (v ! 0) (32 + n)" for n using bit_imp_le_length [of "v ! 0" "32 + n"] by auto
  then show "ucast (value64 v) = v ! 0" "ucast (drop_bit 32 (value64 v)) = v ! 1"
    by (auto intro!: bit_word_eqI simp: value64_def bit_simps)
qed

lemma ucast_take: "ucast (ucast (take_bit 8 x :: u64) :: u32) = (ucast x :: u8)"
  "ucast (ucast (take_bit 16 x :: u64) :: u32) = (ucast x :: u16)"
  "ucast (take_bit 8 x :: u64) = (ucast (ucast x :: u8) :: u32)" "ucast (take_bit 16 x :: u64) = (ucast (ucast x :: u16) :: u32)"
  "ucast (take_bit 32 x :: u64) = (ucast x :: u32)"
  "ucast (ucast (y :: u8) :: u32) = y" "ucast (ucast (z :: u16) :: u32) = z"
  by (auto intro!: bit_word_eqI simp: bit_simps)

lemma ucast_back: "ucast (ucast (x :: u32) :: u64) = x"
  by (rule bit_word_eqI) (simp add: bit_simps)

lemma ucast_value64: "ucast (value64 v) = (ucast (v ! 0) :: u8)" "ucast (value64 v) = (ucast (v ! 0) :: u16)"
  by (auto intro!: bit_word_eqI simp: value64_def bit_simps)

lemma unpack_pack:
  assumes "w = mem_width_info s" "mw_valid w" "length v = 4"
  shows "unpack_value w (min (mw_bytes w) 16)
    (write_range 0 (mem_value_to_bytes v (min (mw_bytes w) 16)) (replicate 16 0)) = extended w v"
proof -
  have buf: "take (unat n) (write_range 0 (mem_value_to_bytes v n) (replicate 16 0)) = map (value_byte v) [0..<unat n]"
    if "n \<le> 16" for n
    using that by (simp add: write_range_def mem_value_to_bytes_def min_absorb1 word_le_nat_alt)
  consider "mw_bytes w = 1" | "mw_bytes w = 2" | "mw_bytes w = 4" | "mw_bytes w = 8"
    | "mw_bytes w = 16" "\<not> mw_sign_extend w"
    using assms(1,2) by (auto simp: mem_width_info_def split: if_splits)
  then show ?thesis
  proof cases
    case 1
    then show ?thesis using buf [of 1] low_bytes [of 1 v]
      by (simp add: unpack_value_def extended_def Let_def ucast_take ucast_value64)
  next
    case 2
    then show ?thesis using buf [of 2] low_bytes [of 2 v]
      by (simp add: unpack_value_def extended_def Let_def ucast_take ucast_value64)
  next
    case 3
    then have "\<not> (mw_sign_extend w \<and> False)" by simp
    then show ?thesis using 3 buf [of 4] low_bytes [of 4 v]
      by (simp add: unpack_value_def extended_def Let_def ucast_take value64_low)
  next
    case 4
    have m: "ucast (x AND 0xffffffff) = (ucast x :: u32)" for x :: u64
    proof -
      have m: "(0xffffffff :: u64) = mask 32" by (simp add: mask_eq_exp_minus_1)
      show ?thesis unfolding m by (auto intro!: bit_word_eqI simp: bit_simps)
    qed
    have "take_bit 64 x = x" for x :: u64 by (rule bit_word_eqI) (simp add: bit_simps)
    then show ?thesis using 4 buf [of 8] low_bytes [of 8 v]
      by (simp add: unpack_value_def extended_def Let_def m value64_low)
  next
    case 5
    let ?buf = "write_range 0 (mem_value_to_bytes v 16) (replicate 16 0)"
    have all: "?buf = map (value_byte v) [0..<16]" using buf [of 16] by (simp add: write_range_def mem_value_to_bytes_def)
    have rr: "read_range (4 * i) 4 ?buf = map (value_byte v) [4 * i..<4 * i + 4]" if "i < 4" for i
      using that by (simp add: all read_range_def take_map drop_map)
    have "map (\<lambda>i. ucast (bytes_u64 (read_range (4 * i) 4 ?buf))) [0..<4] = map (\<lambda>i. v ! i) [0..<4]"
      by (intro map_cong refl) (simp add: rr word_of_value_bytes ucast_back)
    also have "\<dots> = v" using assms(3) by (intro nth_equalityI) auto
    finally show ?thesis using 5 by (simp add: unpack_value_def extended_def)
  qed
qed

subsection \<open>Properties\<close>

text \<open>A shared store that succeeds is read back by the load of the same slot and address as the stored
  value, truncated to the width and sign- or zero-extended as the slot says; the bytes of the
  window outside the stored range do not change.\<close>

theorem shared_store_load_roundtrip:
  assumes "fits_size_t shared" "length v = 4" "sts shared off disp (mem_width_info s) v = (Inr (), shared')"
  shows "lds shared' off disp (mem_width_info s) out = (Inr (), extended (mem_width_info s) v) \<and>
    length shared' = length shared \<and>
    (\<forall>a i. checked_add off disp = Some a \<longrightarrow> i < length shared \<longrightarrow>
       (i < unat a \<or> unat a + unat (mw_bytes (mem_width_info s)) \<le> i) \<longrightarrow> shared' ! i = shared ! i)"
proof -
  let ?w = "mem_width_info s"
  let ?len = "min (mw_bytes ?w) 16"
  obtain a where a: "mw_valid ?w" "checked_add off disp = Some a" "\<not> out_of_window shared a ?len"
      "width_aligned a (mw_bytes ?w)" "shared' = write_range (unat a) (mem_value_to_bytes v ?len) shared"
    using assms(3) by (auto simp: sts_def Let_def split: if_splits option.splits)
  have l16: "?len = mw_bytes ?w" by (simp add: mem_width_info_def)
  have lb: "length (mem_value_to_bytes v ?len) = unat ?len" by (simp add: mem_value_to_bytes_def)
  have room: "unat a + unat ?len \<le> length shared" using a(3) out_of_window_iff [OF assms(1)] by simp
  have fits: "fits_size_t shared'" "length shared' = length shared" using assms(1) a(5) lb room by simp_all
  have rr: "read_range (unat a) (unat ?len) shared' = mem_value_to_bytes v ?len"
    using a(5) lb room read_write_same_len by metis
  have "lds shared' off disp ?w out = (Inr (), extended ?w v)"
    using a fits rr out_of_window_iff [OF fits(1), of a ?len] room unpack_pack [OF refl a(1) assms(2)]
    by (simp add: lds_def Let_def)
  moreover have "shared' ! i = shared ! i"
    if "i < length shared" "i < unat a \<or> unat a + unat (mw_bytes ?w) \<le> i" for i
    using that a(5) lb room l16 nth_write_range [of "unat a" "mem_value_to_bytes v ?len" shared i] by auto
  ultimately show ?thesis using a(2) fits(2) by auto
qed

theorem shared_store_load_roundtrip_witness:
  "lds (snd (sts (replicate 8 0) 4 (- 2) (mem_width_info 3) [0x12348765, 0, 0, 0])) 4 (- 2) (mem_width_info 3) zero_value =
     (Inr (), [0xffff8765, 0, 0, 0])"
proof -
  have "sts (replicate 8 0) 4 (- 2) (mem_width_info 3) [0x12348765, 0, 0, 0] =
      (Inr (), snd (sts (replicate 8 0) 4 (- 2) (mem_width_info 3) [0x12348765, 0, 0, 0]))"
    by (simp add: sts_def mem_width_info_def checked_add_def out_of_window_def width_aligned_def natural_alignment_def Let_def)
  from shared_store_load_roundtrip [OF _ _ this] show ?thesis
    by (simp add: fits_size_t_def extended_def mem_width_info_def)
qed

text \<open>The same for global memory: with a backing attached, a store that succeeds is read back by the
  load at the same address and slot.\<close>

theorem global_store_load_roundtrip:
  assumes "host_inv ms" "length v = 4" "ms_global_base ms \<noteq> 0"
    and "stg desc addr offset (mem_width_info s) v ms = Some (Inr (), ms')"
    and "checked_add (ms_global_base ms) addr = Some t" "checked_add t offset = Some t'" "ms_global_base ms \<le> t'"
  shows "\<exists>ms''. ldg desc addr offset (mem_width_info s) out ms' =
      Some (Inr (), extended (mem_width_info s) v, ms'') \<and> ms_global ms'' = ms_global ms'"
proof -
  let ?w = "mem_width_info s"
  let ?len = "min (mw_bytes ?w) 16" and ?off = "t' - ms_global_base ms"
  obtain g where g: "ms_global ms = Some g" "mw_valid ?w" "\<not> out_of_window g ?off ?len" "width_aligned ?off (mw_bytes ?w)"
      "ms' = ms\<lparr>ms_global := Some (write_range (unat ?off) (mem_value_to_bytes v ?len) g), ms_writes := ms_writes ms + 1\<rparr>"
    using assms(3-6) by (auto simp: stg_def is_null_def Let_def split: if_splits option.splits)
  have fg: "fits_size_t g" using assms(1) g(1) by (simp add: host_inv_def)
  have l16: "?len = mw_bytes ?w" by (simp add: mem_width_info_def)
  have lb: "length (mem_value_to_bytes v ?len) = unat ?len" by (simp add: mem_value_to_bytes_def)
  have room: "unat ?off + unat ?len \<le> length g" using g(3) out_of_window_iff [OF fg] by simp
  let ?g = "write_range (unat ?off) (mem_value_to_bytes v ?len) g"
  have fits: "fits_size_t ?g" "length ?g = length g" using fg lb room by simp_all
  have rr: "read_range (unat ?off) (unat ?len) ?g = mem_value_to_bytes v ?len"
    using lb room read_write_same_len by metis
  have "\<not> out_of_window ?g ?off ?len" using out_of_window_iff [OF fits(1)] fits(2) room by simp
  then show ?thesis
    using g assms(3,5-7) rr unpack_pack [OF refl g(2) assms(2)]
    by (simp add: ldg_def read_global_def is_null_def Let_def not_less)
qed

definition demo_service :: MemoryService where
  "demo_service = \<lparr>ms_alloc = new_allocator kDefaultBase, ms_params = [], ms_global = Some (replicate 16 0),
     ms_global_size = 16, ms_constant = [], ms_global_base = 0x10000, ms_shared = [], ms_groups = [],
     ms_reads = 0, ms_writes = 0\<rparr>"

theorem global_store_load_roundtrip_witness:
  "\<exists>ms' ms''. stg 0 8 0 (mem_width_info 5) [1, 2, 3, 4] demo_service = Some (Inr (), ms') \<and>
     ldg 0 8 0 (mem_width_info 5) zero_value ms' = Some (Inr (), [1, 2, 0, 0], ms'')"
proof -
  obtain ms' where st: "stg 0 8 0 (mem_width_info 5) [1, 2, 3, 4] demo_service = Some (Inr (), ms')"
    by (simp add: stg_def mem_width_info_def checked_add_def out_of_window_def width_aligned_def natural_alignment_def
        Let_def demo_service_def is_null_def)
  have "host_inv demo_service" by (simp add: host_inv_def demo_service_def fits_size_t_def)
  from global_store_load_roundtrip [OF this _ _ st, of "0x10008" "0x10008" zero_value] st
  show ?thesis by (auto simp: demo_service_def checked_add_def extended_def mem_width_info_def)
qed

definition atomic_supported :: "AtomicOp \<Rightarrow> u64 \<Rightarrow> bool" where
  "atomic_supported op w \<longleftrightarrow> op \<noteq> kCount \<and> (op \<in> {kInc, kDec} \<longrightarrow> w = 4)"

lemma apply_atomic_supported: "apply_atomic op w x y z = None \<longleftrightarrow> \<not> atomic_supported op w"
  by (cases op) (simp_all add: apply_atomic_def atomic_supported_def)

text \<open>The operand and compare values as the numbers the operation sees.\<close>

definition operand_of :: "u64 \<Rightarrow> MemValue \<Rightarrow> nat" where
  "operand_of w v = unat (take_bit (8 * unat w) (value64 v))"

definition compare_of :: "u64 \<Rightarrow> MemValue option \<Rightarrow> nat" where
  "compare_of w cmp = (case cmp of None \<Rightarrow> 0 | Some c \<Rightarrow> operand_of w c)"

lemma rmw_bytes_spec:
  assumes w: "atomic_width_ok w" and room: "unat off + unat w \<le> length buf"
    and res: "rmw_bytes buf off w op opr cmp = (st, ov, buf')"
  defines "cur \<equiv> read_range (unat off) (unat w) buf"
  shows "value64 ov = bytes_u64 cur" "st = Inr () \<longleftrightarrow> atomic_supported op w" "st \<noteq> Inr () \<Longrightarrow> buf' = buf"
    "st = Inr () \<Longrightarrow> \<exists>new. length new = unat w \<and> buf' = write_range (unat off) new buf \<and>
       unat (bytes_u64 new) = atomic_spec op (8 * unat w) (unat (bytes_u64 cur)) (operand_of w opr) (compare_of w cmp)"
proof -
  define b where "b = take_bit (8 * unat w) (value64 opr)"
  define c where "c = (case cmp of None \<Rightarrow> 0 | Some c \<Rightarrow> take_bit (8 * unat w) (value64 c))"
  have R: "value64 ov = bytes_u64 cur" "case apply_atomic op w (bytes_u64 cur) b c of
      None \<Rightarrow> st = Inl (not_implemented op w) \<and> buf' = buf
    | Some r \<Rightarrow> st = Inr () \<and> buf' = write_range (unat off) (u64_bytes (unat w) r) buf"
    using rmw_bytes_outcome [OF w room, of op opr cmp] res
    by (simp_all add: Let_def cur_def [symmetric] b_def [symmetric] c_def [symmetric])
  have bc: "operand_of w opr = unat b" "compare_of w cmp = unat c"
    by (simp_all add: operand_of_def compare_of_def b_def c_def split: option.splits)
  have w8: "unat w \<le> 8" using width_min8 [OF w] by simp
  have lt: "unat (bytes_u64 cur) < 2 ^ (8 * unat w)" "unat b < 2 ^ (8 * unat w)"
    using unat_bytes_u64_lt [of cur] room w8
    by (simp_all add: cur_def b_def unsigned_take_bit_eq take_bit_nat_less_exp)
  show "value64 ov = bytes_u64 cur" by (rule R(1))
  show "st = Inr () \<longleftrightarrow> atomic_supported op w" "st \<noteq> Inr () \<Longrightarrow> buf' = buf"
    using R(2) apply_atomic_supported [of op w "bytes_u64 cur" b c] by (auto split: option.splits)
  show "\<exists>new. length new = unat w \<and> buf' = write_range (unat off) new buf \<and>
      unat (bytes_u64 new) = atomic_spec op (8 * unat w) (unat (bytes_u64 cur)) (operand_of w opr) (compare_of w cmp)"
    if ok: "st = Inr ()"
  proof -
    obtain r where r: "apply_atomic op w (bytes_u64 cur) b c = Some r"
      "buf' = write_range (unat off) (u64_bytes (unat w) r) buf"
      using R(2) ok by (cases "apply_atomic op w (bytes_u64 cur) b c") auto
    then show ?thesis
      using apply_atomic_spec [OF w lt r(1)] w8 unfolding bc
      by (intro exI [of _ "u64_bytes (unat w) r"]) (simp add: bytes_u64_bytes unsigned_take_bit_eq take_bit_nat_def)
  qed
qed

lemma atom_shared_cases:
  assumes "fits_size_t shared"
  obtains (rejected) e where "\<not> (atomic_width_ok w \<and> unat off + unat w \<le> length shared \<and> width_aligned off w)"
      "atom_shared shared off w op opr old cmp = (Inl e, old, shared)"
  | (run) "atomic_width_ok w" "unat off + unat w \<le> length shared" "width_aligned off w"
      "atom_shared shared off w op opr old cmp = rmw_bytes shared off w op opr cmp"
proof (cases "check_atomic_width w")
  case (Inl e)
  then have "\<not> atomic_width_ok w" using check_atomic_width_iff [of w "()"] by simp
  then show ?thesis using Inl rejected by (simp add: atom_shared_def)
next
  case (Inr u)
  then have "atomic_width_ok w" using check_atomic_width_iff [of w u] by simp
  then show ?thesis
    using Inr rejected run out_of_window_iff [OF assms, of off w]
    by (cases "unat off + unat w \<le> length shared"; cases "width_aligned off w") (auto simp: atom_shared_def)
qed

text \<open>A shared atomic succeeds exactly on a supported width, range, alignment and operation; it then
  returns the bytes it found and leaves in their place the value of the reference semantics
  for its width, compare-and-swap included, and otherwise it changes nothing.\<close>

theorem shared_atomic_effect:
  assumes "fits_size_t shared"
  shows "let (st, ov, shared') = atom_shared shared off w op opr old cmp;
             cur = read_range (unat off) (unat w) shared
         in (st = Inr () \<longleftrightarrow> atomic_width_ok w \<and> unat off + unat w \<le> length shared \<and> width_aligned off w \<and>
               op \<noteq> kCount \<and> (op \<in> {kInc, kDec} \<longrightarrow> w = 4)) \<and>
            (st \<noteq> Inr () \<longrightarrow> shared' = shared) \<and>
            (st = Inr () \<longrightarrow> value64 ov = bytes_u64 cur \<and>
               (\<exists>new. length new = unat w \<and> shared' = write_range (unat off) new shared \<and>
                  unat (bytes_u64 new) = atomic_spec op (8 * unat w) (unat (bytes_u64 cur))
                    (operand_of w opr) (compare_of w cmp)))"
  using assms
proof (cases rule: atom_shared_cases [where w = w and off = off and op = op and opr = opr and old = old and cmp = cmp])
  case (rejected e)
  then show ?thesis by auto
next
  case run
  obtain st ov shared' where res: "rmw_bytes shared off w op opr cmp = (st, ov, shared')" by (metis prod_cases3)
  note S = rmw_bytes_spec [OF run(1,2) res]
  show ?thesis
    unfolding run(4) res Let_def prod.case using run(1-3) S by (simp add: atomic_supported_def)
qed

theorem shared_atomic_effect_witness:
  "\<exists>new. snd (snd (atom_shared [1, 0, 0, 0] 0 4 kCas [9, 0, 0, 0] zero_value (Some [1, 0, 0, 0]))) =
     write_range 0 new [1, 0, 0, 0] \<and> unat (bytes_u64 new) = 9"
  using shared_atomic_effect [of "[1, 0, 0, 0]" 0 4 kCas "[9, 0, 0, 0]" zero_value "Some [1, 0, 0, 0]"]
  by (auto simp: fits_size_t_def Let_def case_prod_beta atomic_width_ok_def width_aligned_def read_range_def
      atomic_spec_def operand_of_def compare_of_def value64_def take_bit_eq_mod natural_alignment_def)

lemma global_atomic_shares:
  assumes "ms_global_base ms \<noteq> 0" "ms_global ms = Some g"
  shows "\<exists>st ms'. atom_global addr w op opr old cmp ms =
      Some (st, fst (snd (atom_shared g addr w op opr old cmp)), ms') \<and>
    ms_global ms' = Some (snd (snd (atom_shared g addr w op opr old cmp))) \<and>
    ((st = Inr ()) = (fst (atom_shared g addr w op opr old cmp) = Inr ())) \<and>
    ms_constant ms' = ms_constant ms \<and> ms_alloc ms' = ms_alloc ms"
proof -
  have "snd (snd (rmw_bytes g addr w op opr cmp)) = g" if "fst (rmw_bytes g addr w op opr cmp) = Inl e" for e
    using that by (auto simp: rmw_bytes_def Let_def split: option.splits)
  then show ?thesis
    using assms
    by (auto simp: atom_global_def atom_shared_def is_null_def split: sum.splits prod.splits)
qed



text \<open>Address arithmetic of loads and stores is exact: base plus signed displacement is computed when the
  sum is a 64-bit address and rejected otherwise, never wrapped.\<close>

theorem checked_add_exact:
  "checked_add base d =
     (let s = uint base + sint d in if 0 \<le> s \<and> s < 2 ^ 64 then Some (word_of_int s) else None)"
proof -
  have up: "uint base < 2 ^ 64" "0 \<le> uint base" using unsigned_less [of base, where ?'a = int] by simp_all
  have sd: "- (2 ^ 63) \<le> sint d" "sint d < 2 ^ 63" using sint_range_size [of d] by (simp_all add: word_size)
  show ?thesis
  proof (cases "0 \<le> sint d")
    case True
    then have ud: "uint d = sint d" using uint_sint [of d] sd by (simp add: take_bit_int_eq_self)
    have "base \<le> UINT64_MAX - d \<longleftrightarrow> int (unat base + unat d) < 2 ^ 64"
      using le_UINT64_MAX_minus [of base d] by (simp only: of_nat_less_iff [symmetric, where ?'a = int]) simp
    moreover have "int (unat base + unat d) = uint base + sint d" by (simp add: ud [symmetric])
    ultimately have "base > UINT64_MAX - d \<longleftrightarrow> \<not> uint base + sint d < 2 ^ 64" by (simp only: not_le [symmetric])
    moreover have "base + d = word_of_int (uint base + sint d)" by (simp add: ud [symmetric])
    moreover have "0 \<le> uint base + sint d" using True up by linarith
    ultimately show ?thesis using True by (simp add: checked_add_def Let_def)
  next
    case False
    have "- d = word_of_int (- sint d)" by simp
    then have "uint (- d) = take_bit 64 (- sint d)" by (simp only: uint_word_of_int_eq) simp
    moreover have "take_bit 64 (- sint d) = - sint d"
      by (rule take_bit_int_eq_self) (use False sd in simp_all)
    ultimately have "base < - d \<longleftrightarrow> \<not> 0 \<le> uint base + sint d" by (simp only: word_less_def) linarith
    moreover have "base - (- d) = word_of_int (uint base + sint d)" by simp
    moreover have "uint base + sint d < 2 ^ 64" using False up by linarith
    ultimately show ?thesis using False by (simp add: checked_add_def Let_def)
  qed
qed

text \<open>A new service exposes the kernel parameters at constant offset 0x380 (as far as they fit the
  window) and zero elsewhere, and a load of constant memory there returns them.\<close>

theorem new_service_params:
  assumes "length params \<le> kConstantSize - kParamBase" "unat n = length params"
  shows "read_constant 0x380 n (new_service params) = Inr params \<and>
    (\<forall>a k. ranges_disjoint 0x380 n a k \<longrightarrow> unat a + unat k \<le> kConstantSize \<longrightarrow>
       read_constant a k (new_service params) = Inr (replicate (unat k) 0))"
proof -
  let ?c = "write_range kParamBase params (replicate kConstantSize 0)"
  have c: "ms_constant (new_service params) = ?c"
    using assms(1) by (simp add: new_service_def Let_def min_absorb1)
  have len: "length ?c = kConstantSize" using assms(1) by (simp add: kConstantSize_def kParamBase_def)
  have fits: "fits_size_t ?c" using len by (simp add: fits_size_t_def kConstantSize_def)
  have room: "kParamBase + length params \<le> length (replicate kConstantSize (0::u8))"
    using assms(1) by (simp add: kConstantSize_def kParamBase_def)
  have "read_constant 0x380 n (new_service params) = Inr params"
    using room assms(2) read_write_same_len [OF refl room]
    by (simp add: read_constant_def c out_of_window_iff [OF fits] len) (simp add: kParamBase_def)
  moreover have "read_constant a k (new_service params) = Inr (replicate (unat k) 0)"
    if "ranges_disjoint 0x380 n a k" "unat a + unat k \<le> kConstantSize" for a k
  proof -
    have "read_range (unat a) (unat k) ?c = read_range (unat a) (unat k) (replicate kConstantSize 0)"
      using that room assms(2) by (intro read_write_disjoint) (auto simp: ranges_disjoint_def kParamBase_def)
    also have "\<dots> = replicate (unat k) 0" using that(2) by (simp add: read_range_def)
    finally show ?thesis using that(2) by (simp add: read_constant_def c out_of_window_iff [OF fits] len)
  qed
  ultimately show ?thesis by blast
qed

theorem new_service_params_witness:
  "read_constant 0x380 3 (new_service [1, 2, 3]) = Inr [1, 2, 3]"
  using new_service_params [of "[1, 2, 3]" 3] by (simp add: kConstantSize_def kParamBase_def)

end
