(* ===== verification/Subcore.thy ===== *)
theory Subcore
  imports Hb_Clock
begin

text \<open>
  The subcore issue state of one SM (\<open>semu/exec/subcore_scheduler.hpp\<close>,
  \<open>src/exec/subcore_scheduler.cpp\<close>): four independent issue cursors, the stable mapping of a
  warp to a cursor and the trace line. The mapper is a parameter, as in the code; the
  default one takes the warp number modulo four.
\<close>

type_synonym SubcoreId = u32

record SubcoreIssueState =
  sc_id :: SubcoreId
  sc_next_issue_tick :: u64
  sc_issue_sequence :: u64
  sc_issued_requests :: "u64 list"

definition new_subcore :: SubcoreIssueState where
  "new_subcore = \<lparr>sc_id = 0, sc_next_issue_tick = 0, sc_issue_sequence = 0, sc_issued_requests = []\<rparr>"

definition record_issue :: "SubcoreIssueState \<Rightarrow> u64 \<times> SubcoreIssueState" where
  "record_issue st =
     (let sn = sc_issue_sequence st + 1
      in (sn, st\<lparr>sc_issue_sequence := sn, sc_issued_requests := sc_issued_requests st @ [sn]\<rparr>))"

type_synonym ISubcoreMapper = "u64 \<Rightarrow> SubcoreId"

definition mod4_mapper :: ISubcoreMapper where
  "mod4_mapper warp_linear_id = ucast (warp_linear_id mod 4)"

record SmL1TexState =
  sm_id :: u32
  sm_subcores :: "SubcoreIssueState list" \<comment> \<open>always four\<close>
  sm_next_event_id :: u64
  sm_deterministic_tie_seq :: u64

definition new_sm :: "u32 \<Rightarrow> SmL1TexState" where
  "new_sm i = \<lparr>sm_id = i, sm_subcores = replicate 4 new_subcore, sm_next_event_id = 0, sm_deterministic_tie_seq = 0\<rparr>"

definition subcore_index :: "SubcoreId \<Rightarrow> nat" where
  "subcore_index i = unat (i mod 4)"

definition next_tie_seq :: "SmL1TexState \<Rightarrow> u64 \<times> SmL1TexState" where
  "next_tie_seq sm = (sm_deterministic_tie_seq sm,
     sm\<lparr>sm_deterministic_tie_seq := sm_deterministic_tie_seq sm + 1\<rparr>)"

record SubcoreIssueResult =
  ir_subcore :: SubcoreId
  ir_subcore_seq :: u64
  ir_event_id :: u64
  ir_issue_tick :: u64

definition issue_on_subcore :: "ISubcoreMapper \<Rightarrow> u64 \<Rightarrow> SmL1TexState \<Rightarrow> SubcoreIssueResult \<times> SmL1TexState" where
  "issue_on_subcore mapper warp_linear_id sm =
     (let sc = mapper warp_linear_id; i = subcore_index sc;
          (sq, st) = record_issue (sm_subcores sm ! i)
      in (\<lparr>ir_subcore = sc, ir_subcore_seq = sq, ir_event_id = sm_next_event_id sm,
           ir_issue_tick = sc_next_issue_tick st\<rparr>,
          sm\<lparr>sm_subcores := (sm_subcores sm)[i := st\<lparr>sc_next_issue_tick := sc_next_issue_tick st + 1\<rparr>],
             sm_next_event_id := sm_next_event_id sm + 1\<rparr>))"

fun join_space :: "string list \<Rightarrow> string" where
  "join_space [] = []"
| "join_space [s] = s"
| "join_space (s # ss) = s @ '' '' @ join_space ss"

definition subcore_trace_line :: "SmL1TexState \<Rightarrow> string" where
  "subcore_trace_line sm =
     ''sm'' @ show_u32 (sm_id sm) @ '' {'' @
     join_space (map (\<lambda>(i, sc). ''sc'' @ show_nat i @ '':['' @ join_comma (map show_u64 (sc_issued_requests sc)) @ '']'')
       (enumerate 0 (sm_subcores sm))) @ ''}''"

subsection \<open>Issue order\<close>

fun issue_all :: "ISubcoreMapper \<Rightarrow> u64 list \<Rightarrow> SmL1TexState \<Rightarrow> SubcoreIssueResult list \<times> SmL1TexState" where
  "issue_all mp [] sm = ([], sm)"
| "issue_all mp (w # ws) sm =
     (case issue_on_subcore mp w sm of (r, sm') \<Rightarrow> case issue_all mp ws sm' of (rs, sm'') \<Rightarrow> (r # rs, sm''))"

definition sub_ok :: "nat \<Rightarrow> SubcoreIssueState \<Rightarrow> bool" where
  "sub_ok n st \<longleftrightarrow> sc_issued_requests st = map word_of_nat [1..<Suc n] \<and> sc_issue_sequence st = word_of_nat n \<and>
     sc_next_issue_tick st = word_of_nat n"

text \<open>The number of issues each cursor saw, and the state they lead to.\<close>

definition sm_ok :: "(nat \<Rightarrow> nat) \<Rightarrow> nat \<Rightarrow> SmL1TexState \<Rightarrow> bool" where
  "sm_ok cnt tot sm \<longleftrightarrow> length (sm_subcores sm) = 4 \<and> (\<forall>i < 4. sub_ok (cnt i) (sm_subcores sm ! i)) \<and>
     sm_next_event_id sm = word_of_nat tot"

lemma subcore_index_lt: "subcore_index i < 4"
proof -
  have "i mod 4 < (4 :: u32)" by (rule word_mod_less_divisor) simp
  then show ?thesis by (simp add: subcore_index_def word_less_nat_alt)
qed

lemma issue_step:
  fixes mp :: ISubcoreMapper and w :: u64
  assumes "sm_ok cnt tot sm"
  defines "k \<equiv> subcore_index (mp w)"
  shows "sm_ok (cnt(k := cnt k + 1)) (tot + 1) (snd (issue_on_subcore mp w sm))"
    and "fst (issue_on_subcore mp w sm) =
      \<lparr>ir_subcore = mp w, ir_subcore_seq = word_of_nat (cnt k + 1), ir_event_id = word_of_nat tot,
       ir_issue_tick = word_of_nat (cnt k)\<rparr>"
  using assms subcore_index_lt [of "mp w"]
  by (auto simp: sm_ok_def sub_ok_def issue_on_subcore_def record_issue_def Let_def nth_list_update add.commute)

definition issues_before :: "ISubcoreMapper \<Rightarrow> u64 list \<Rightarrow> nat \<Rightarrow> nat \<Rightarrow> nat" where
  "issues_before mp ws n k = length (filter (\<lambda>w. subcore_index (mp w) = k) (take n ws))"

lemma issue_all_spec:
  assumes "sm_ok cnt tot sm" "n < length ws"
  shows "fst (issue_all mp ws sm) ! n =
      (let k = subcore_index (mp (ws ! n)); before = issues_before mp ws n k
       in \<lparr>ir_subcore = mp (ws ! n), ir_subcore_seq = word_of_nat (cnt k + before + 1),
           ir_event_id = word_of_nat (tot + n), ir_issue_tick = word_of_nat (cnt k + before)\<rparr>)"
  using assms
proof (induction ws arbitrary: cnt tot sm n)
  case Nil
  then show ?case by simp
next
  case (Cons w ws)
  let ?k = "subcore_index (mp w)"
  note S = issue_step [OF Cons.prems(1), of mp w]
  show ?case
  proof (cases n)
    case 0
    then show ?thesis using S(2) by (simp add: issues_before_def case_prod_beta Let_def)
  next
    case (Suc m)
    have "fst (issue_all mp (w # ws) sm) ! n = fst (issue_all mp ws (snd (issue_on_subcore mp w sm))) ! m"
      using Suc by (simp add: case_prod_beta)
    then show ?thesis
      using Cons.IH [OF S(1), of m] Cons.prems(2) Suc by (simp add: Let_def issues_before_def algebra_simps)
  qed
qed

lemma new_sm_ok: "sm_ok (\<lambda>_. 0) 0 (new_sm i)"
  by (simp add: sm_ok_def sub_ok_def new_sm_def new_subcore_def)

text \<open>Starting from a new SM, the n-th issued warp request gets the event number n, and on its subcore
  the sequence number one more than the number of earlier requests that map to the same
  subcore: the four cursors number independently and keep program order, whatever the mapper.\<close>

theorem issue_order:
  assumes "n < length ws"
  shows "fst (issue_all mp ws (new_sm i)) ! n =
    \<lparr>ir_subcore = mp (ws ! n),
     ir_subcore_seq = word_of_nat (issues_before mp ws n (subcore_index (mp (ws ! n))) + 1),
     ir_event_id = word_of_nat n,
     ir_issue_tick = word_of_nat (issues_before mp ws n (subcore_index (mp (ws ! n))))\<rparr>"
  using issue_all_spec [OF new_sm_ok assms] by (simp add: Let_def)

theorem issue_order_witness:
  "ir_subcore_seq (fst (issue_all mod4_mapper [1, 2, 5] (new_sm 0)) ! 2) = 2"
proof -
  have "issues_before mod4_mapper [1, 2, 5] 2 (subcore_index (mod4_mapper ([1, 2, 5] ! 2))) = 1"
    by (simp add: issues_before_def subcore_index_def mod4_mapper_def)
  then show ?thesis
    using issue_order [of 2 "[1, 2, 5]" mod4_mapper 0] by (simp del: issue_all.simps)
qed

end
