(* ===== verification/Shared_Bank_Facts.thy ===== *)
theory Shared_Bank_Facts
  imports Shared_Bank
begin

text \<open>The greedy pass formation is a partition into conflict-free passes with justified deferrals.\<close>

subsection \<open>One lane\<close>

definition lane_ok :: "LaneWords \<Rightarrow> bool" where
  "lane_ok lw \<longleftrightarrow> distinct (lw_banks lw) \<and> length (lw_banks lw) = length (lw_words lw)"

definition clashes :: "LaneWords \<Rightarrow> (u32, u32) omap \<Rightarrow> bool" where
  "clashes lw cl \<longleftrightarrow> (\<exists>(b, w) \<in> set (lane_pairs lw). \<exists>w'. om_find cl b = Some w' \<and> w' \<noteq> w)"

lemma clashesI: "(b, w) \<in> set (lane_pairs lw) \<Longrightarrow> om_find cl b = Some w' \<Longrightarrow> w' \<noteq> w \<Longrightarrow> clashes lw cl"
  by (auto simp: clashes_def)

lemma clashesE:
  assumes "clashes lw cl"
  obtains b w w' where "(b, w) \<in> set (lane_pairs lw)" "om_find cl b = Some w'" "w' \<noteq> w"
  using assms by (auto simp: clashes_def)

lemma unat_bank: "unat (ucast (w0 + word_of_nat k :: u64) mod 32 :: u32) = (unat w0 + k) mod 32"
proof -
  have "(unat (w0 + word_of_nat k :: u64) mod 2 ^ 32) mod 32 = (unat w0 + k) mod 32"
    by (simp add: unat_word_ariths unat_of_nat mod_mod_cancel mod_simps)
  then show ?thesis by (simp add: unat_mod unsigned_ucast_eq take_bit_nat_def)
qed

lemma nat_dvd_small: "(d::nat) dvd n \<Longrightarrow> n < d \<Longrightarrow> n = 0"
  using nat_dvd_not_less by auto

lemma lane_words_ok:
  assumes "nwords \<le> 32"
  shows "lane_ok (lane_words nwords l la)"
proof -
  have inj: "i = j" if "(x + i) mod 32 = (x + j) mod 32" "i < 32" "j < 32" for x i j :: nat
  proof -
    have *: "i = j" if "(x + i) mod 32 = (x + j) mod 32" "i \<le> j" "j < 32" for i j :: nat
    proof -
      have "32 dvd (x + j) - (x + i)" using that mod_eq_dvd_iff_nat [of "x + i" "x + j" 32] by simp
      then have "32 dvd j - i" by simp
      then have "j - i = 0" using that by (intro nat_dvd_small) auto
      then show ?thesis using that by simp
    qed
    show ?thesis using that * [of i j] * [of j i] by (cases "i \<le> j") auto
  qed
  have "inj_on (\<lambda>k. ucast (la_base la div 4 + word_of_nat k :: u64) mod 32 :: u32) {0..<nwords}"
  proof (rule inj_onI)
    fix i j assume *: "i \<in> {0..<nwords}" "j \<in> {0..<nwords}"
      "ucast (la_base la div 4 + word_of_nat i :: u64) mod 32 = (ucast (la_base la div 4 + word_of_nat j :: u64) mod 32 :: u32)"
    then have "(unat (la_base la div 4) + i) mod 32 = (unat (la_base la div 4) + j) mod 32"
      by (simp only: unat_bank [symmetric])
    then show "i = j" by (rule inj) (use * assms in auto)
  qed
  then show ?thesis by (simp add: lane_ok_def lane_words_def Let_def distinct_map comp_def)
qed

lemma scan_pass_clash: "fst (scan_pass pairs cl n) \<longleftrightarrow> (\<exists>(b, w) \<in> set pairs. \<exists>w'. om_find cl b = Some w' \<and> w' \<noteq> w)"
  by (induction pairs cl n rule: scan_pass.induct) (auto split: option.splits)

lemma om_find_claim:
  assumes "om_inv cl" "distinct (map fst pairs)"
  shows "om_inv (claim pairs cl)"
    and "om_find (claim pairs cl) b = (case map_of pairs b of Some w \<Rightarrow> Some w | None \<Rightarrow> om_find cl b)"
proof -
  have "claim pairs cl = omap.put_all pairs cl"
    by (simp add: claim_def omap.put_all_def foldl_conv_fold case_prod_beta')
  moreover have "map_of (rev pairs) = map_of pairs" using assms(2)
    by (subst map_of_inject_set) (auto simp: rev_map [symmetric])
  ultimately show "om_inv (claim pairs cl)"
    "om_find (claim pairs cl) b = (case map_of pairs b of Some w \<Rightarrow> Some w | None \<Rightarrow> om_find cl b)"
    using assms(1) omap.inv_put_all omap.find_put_all by metis+
qed

lemma lane_pairs_fst: "lane_ok lw \<Longrightarrow> distinct (map fst (lane_pairs lw))"
  by (simp add: lane_ok_def lane_pairs_def)

subsection \<open>One group\<close>

text \<open>The same placement, keeping the lanes themselves instead of the pass records.\<close>

definition claims :: "LaneWords list \<Rightarrow> (u32, u32) omap" where
  "claims g = foldl (\<lambda>c lw. claim (lane_pairs lw) c) [] g"

definition mk_pass :: "LaneWords list \<Rightarrow> Pass" where
  "mk_pass g = \<lparr>ps_lanes = map lw_lane g, ps_claimed = claims g\<rparr>"

fun gplace :: "LaneWords \<Rightarrow> LaneWords list list \<Rightarrow> LaneWords list list" where
  "gplace lw [] = [[lw]]"
| "gplace lw (g # gs) = (if clashes lw (claims g) then g # gplace lw gs else (g @ [lw]) # gs)"

lemma mk_pass_simps [simp]: "ps_lanes (mk_pass g) = map lw_lane g" "ps_claimed (mk_pass g) = claims g"
  "mk_pass (g @ [lw]) = \<lparr>ps_lanes = map lw_lane g @ [lw_lane lw], ps_claimed = claim (lane_pairs lw) (claims g)\<rparr>"
  by (simp_all add: mk_pass_def claims_def)

lemma place_gplace: "fst (place lw (map mk_pass gs) n) = map mk_pass (gplace lw gs)"
proof (induction gs arbitrary: n)
  case Nil
  then show ?case by (simp add: mk_pass_def claims_def)
next
  case (Cons g gs)
  have "fst (scan_pass (lane_pairs lw) (claims g) n) \<longleftrightarrow> clashes lw (claims g)"
    by (simp add: scan_pass_clash clashes_def)
  then show ?case
    using Cons by (auto simp: mk_pass_def [of g] case_prod_beta split: bool.splits)
qed

lemma place_group_ghost: "fst (place_group lws n) = map mk_pass (foldl (\<lambda>gs lw. gplace lw gs) [] lws)"
proof -
  have "fst (foldl (\<lambda>(ps, n) lw. place lw ps n) (map mk_pass gs, n) lws) = map mk_pass (foldl (\<lambda>gs lw. gplace lw gs) gs lws)"
    for gs n
  proof (induction lws arbitrary: gs n)
    case (Cons lw lws)
    obtain ps n' where "place lw (map mk_pass gs) n = (ps, n')" by fastforce
    then show ?case using Cons place_gplace [of lw gs n] by simp
  qed simp
  from this [of "[]" n] show ?thesis by (simp add: place_group_def)
qed

definition pass_consistent :: "LaneWords list \<Rightarrow> bool" where
  "pass_consistent g \<longleftrightarrow> g \<noteq> [] \<and> om_inv (claims g) \<and>
     (\<forall>lw \<in> set g. \<forall>(b, w) \<in> set (lane_pairs lw). om_find (claims g) b = Some w) \<and>
     (\<forall>b w. om_find (claims g) b = Some w \<longrightarrow> (\<exists>lw \<in> set g. (b, w) \<in> set (lane_pairs lw)))"

lemma pass_consistent_snoc:
  assumes "lane_ok lw" "g = [] \<or> pass_consistent g" "\<not> clashes lw (claims g)"
  shows "pass_consistent (g @ [lw])" "\<And>b w. om_find (claims g) b = Some w \<Longrightarrow> om_find (claims (g @ [lw])) b = Some w"
proof -
  have inv: "om_inv (claims g)" using assms(2) by (auto simp: pass_consistent_def claims_def)
  note C = om_find_claim [OF inv lane_pairs_fst [OF assms(1)]]
  have cl: "claims (g @ [lw]) = claim (lane_pairs lw) (claims g)" by (simp add: claims_def)
  have at: "(b, w) \<in> set (lane_pairs lw) \<longleftrightarrow> map_of (lane_pairs lw) b = Some w" for b w
    using lane_pairs_fst [OF assms(1)] by simp
  have same: "w = w'" if "map_of (lane_pairs lw) b = Some w'" "om_find (claims g) b = Some w" for b w w'
    using that assms(3) map_of_SomeD [OF that(1)] by (fastforce simp: clashes_def)
  show keep: "om_find (claims (g @ [lw])) b = Some w" if "om_find (claims g) b = Some w" for b w
    using that same by (auto simp: cl C split: option.splits)
  have own: "om_find (claims (g @ [lw])) b = Some w" if "(b, w) \<in> set (lane_pairs lw)" for b w
    using that at by (simp add: cl C)
  have old: "om_find (claims (g @ [lw])) b = Some w" if "x \<in> set g" "(b, w) \<in> set (lane_pairs x)" for x b w
    using that assms(2) keep by (fastforce simp: pass_consistent_def)
  have src: "\<exists>x \<in> set (g @ [lw]). (b, w) \<in> set (lane_pairs x)" if f: "om_find (claims (g @ [lw])) b = Some w" for b w
  proof (cases "map_of (lane_pairs lw) b")
    case None
    then have "om_find (claims g) b = Some w" using f by (simp add: cl C)
    then show ?thesis using assms(2) by (auto simp: pass_consistent_def claims_def)
  next
    case (Some w')
    then show ?thesis using f map_of_SomeD [OF Some] by (simp add: cl C)
  qed
  show "pass_consistent (g @ [lw])"
    unfolding pass_consistent_def using own old src C(1) cl by fastforce
qed

fun deferred_ok :: "LaneWords list list \<Rightarrow> bool" where
  "deferred_ok [] = True"
| "deferred_ok (g # gs) = ((\<forall>h \<in> set gs. \<forall>lw \<in> set h. clashes lw (claims g)) \<and> deferred_ok gs)"

lemma mset_gplace: "mset (concat (gplace lw gs)) = mset (concat gs) + {#lw#}"
  by (induction gs) auto

lemma gplace_lanes: "(\<exists>h \<in> set (gplace lw gs). x \<in> set h) \<longleftrightarrow> x = lw \<or> (\<exists>h \<in> set gs. x \<in> set h)"
  by (induction gs) auto

lemma gplace_consistent:
  assumes "lane_ok lw"
  shows "\<forall>g \<in> set gs. pass_consistent g \<Longrightarrow> \<forall>g \<in> set (gplace lw gs). pass_consistent g"
proof (induction gs)
  case Nil
  then show ?case using pass_consistent_snoc(1) [OF assms, of "[]"] by (simp add: clashes_def claims_def)
next
  case (Cons g gs)
  then show ?case using pass_consistent_snoc(1) [OF assms, of g] by auto
qed

lemma deferred_ok_grow:
  assumes "lane_ok lw" "pass_consistent g" "\<not> clashes lw (claims g)" "clashes x (claims g)"
  shows "clashes x (claims (g @ [lw]))"
proof -
  from assms(4) obtain b w w' where "(b, w) \<in> set (lane_pairs x)" "om_find (claims g) b = Some w'" "w' \<noteq> w"
    by (rule clashesE)
  then show ?thesis
    using pass_consistent_snoc(2) [OF assms(1) disjI2 [OF assms(2)] assms(3)] clashesI by blast
qed

lemma gplace_deferred:
  assumes lw: "lane_ok lw"
  shows "\<forall>g \<in> set gs. pass_consistent g \<Longrightarrow> deferred_ok gs \<Longrightarrow> deferred_ok (gplace lw gs)"
proof (induction gs)
  case Nil
  show ?case by simp
next
  case (Cons g gs)
  have g: "pass_consistent g" and gs: "deferred_ok (gplace lw gs)" "deferred_ok gs"
    using Cons by simp_all
  have d: "clashes x (claims g)" if "h \<in> set gs" "x \<in> set h" for h x
    using Cons.prems(2) that by simp
  show ?case
  proof (cases "clashes lw (claims g)")
    case True
    have "clashes x (claims g)" if "h \<in> set (gplace lw gs)" "x \<in> set h" for h x
      using gplace_lanes [of lw gs x] that True d by blast
    then show ?thesis using True gs(1) by simp
  next
    case False
    have "clashes x (claims (g @ [lw]))" if "h \<in> set gs" "x \<in> set h" for h x
      using deferred_ok_grow [OF lw g False] d [OF that] .
    then show ?thesis using False gs(2) by simp
  qed
qed

lemma deferred_nth:
  "deferred_ok gs \<Longrightarrow> i < length gs \<Longrightarrow> x \<in> set (gs ! i) \<Longrightarrow> j < i \<Longrightarrow> clashes x (claims (gs ! j))"
proof (induction gs arbitrary: i j)
  case (Cons g gs)
  then obtain i' where i: "i = Suc i'" by (cases i) auto
  show ?case
  proof (cases j)
    case 0
    then show ?thesis using Cons.prems i nth_mem [of i' gs] by auto
  next
    case (Suc j')
    then show ?thesis using Cons i by auto
  qed
qed simp

lemma group_ghost_facts:
  assumes "\<forall>lw \<in> set lws. lane_ok lw"
  defines "gs \<equiv> foldl (\<lambda>gs lw. gplace lw gs) [] lws"
  shows "\<forall>g \<in> set gs. pass_consistent g" "deferred_ok gs" "mset (concat gs) = mset lws"
  using assms(1) unfolding gs_def
  by (induction lws rule: rev_induct) (auto simp: gplace_consistent gplace_deferred mset_gplace)

subsection \<open>The whole estimate\<close>

lemma active_words_ok: "width \<in> {4, 8, 16} \<Longrightarrow> lw \<in> set (active_words lanes width) \<Longrightarrow> lane_ok lw"
  by (auto simp: active_words_def intro!: lane_words_ok)

definition ghost_groups :: "LaneAccess list \<Rightarrow> u32 \<Rightarrow> LaneWords list list list" where
  "ghost_groups lanes width =
     map (\<lambda>gi. foldl (\<lambda>gs lw. gplace lw gs) [] (lane_group (group_lanes width) gi (active_words lanes width)))
       [0..<32 div group_lanes width]"

lemma form_groups_ghost:
  "fst (form_groups gl act gis n) =
     map (\<lambda>gi. map mk_pass (foldl (\<lambda>gs lw. gplace lw gs) [] (lane_group gl gi act))) gis"
proof (induction gis arbitrary: n)
  case (Cons gi gis)
  then show ?case using place_group_ghost [of "lane_group gl gi act"] by (auto split: prod.splits) (metis fst_conv)+
qed simp

lemma mset_filter_disj:
  "(\<And>x. \<not> (P x \<and> Q x)) \<Longrightarrow> mset (filter (\<lambda>x. P x \<or> Q x) xs) = mset (filter P xs) + mset (filter Q xs)"
  by (induction xs) auto

lemma lane_group_partition:
  assumes "width \<in> {4, 8, 16}"
  shows "mset (concat (map (\<lambda>gi. lane_group (group_lanes width) gi (active_words lanes width))
           [0..<32 div group_lanes width])) = mset (active_words lanes width)"
proof -
  have lt: "unat (lw_lane lw) < 32" if "lw \<in> set (active_words lanes width)" for lw
    using that by (auto simp: active_words_def lane_words_def Let_def in_set_enumerate_eq unat_of_nat_u32)
  have gl: "group_lanes width \<in> {32, 16, 8}" by (auto simp: group_lanes_def)
  have gen: "mset (concat (map (\<lambda>gi. lane_group gl gi act) [0..<n])) =
      mset (filter (\<lambda>lw. unat (lw_lane lw) < n * gl) act)" for gl n act
  proof (induction n)
    case (Suc n)
    have "filter (\<lambda>lw. unat (lw_lane lw) < Suc n * gl) act =
        filter (\<lambda>lw. unat (lw_lane lw) < n * gl \<or> n * gl \<le> unat (lw_lane lw) \<and> unat (lw_lane lw) < n * gl + gl) act"
      by (intro filter_cong) auto
    then have "mset (filter (\<lambda>lw. unat (lw_lane lw) < Suc n * gl) act) =
        mset (filter (\<lambda>lw. unat (lw_lane lw) < n * gl) act) + mset (lane_group gl n act)"
      unfolding lane_group_def by (simp only:) (rule mset_filter_disj, simp)
    then show ?case using Suc by simp
  qed simp
  have "32 div group_lanes width * group_lanes width = 32" using gl by auto
  then show ?thesis using gen [of "group_lanes width" "active_words lanes width" "32 div group_lanes width"] lt
    by (simp add: filter_id_conv [THEN iffD2])
qed

lemma ghost_groups_facts:
  assumes "width \<in> {4, 8, 16}"
  shows "mset (concat (concat (ghost_groups lanes width))) = mset (active_words lanes width)"
    "g \<in> set (concat (ghost_groups lanes width)) \<Longrightarrow> pass_consistent g"
    "gs \<in> set (ghost_groups lanes width) \<Longrightarrow> deferred_ok gs"
proof -
  have ok: "\<forall>lw \<in> set (lane_group (group_lanes width) gi (active_words lanes width)). lane_ok lw" for gi
    using active_words_ok [OF assms] by (auto simp: lane_group_def)
  have "mset (concat (concat (map (\<lambda>gi. foldl (\<lambda>gs lw. gplace lw gs) [] (lane_group (group_lanes width) gi (active_words lanes width))) gis))) =
      mset (concat (map (\<lambda>gi. lane_group (group_lanes width) gi (active_words lanes width)) gis))" for gis
    by (induction gis) (simp_all add: group_ghost_facts(3) [OF ok])
  then show "mset (concat (concat (ghost_groups lanes width))) = mset (active_words lanes width)"
    unfolding ghost_groups_def using lane_group_partition [OF assms] by simp
  show "g \<in> set (concat (ghost_groups lanes width)) \<Longrightarrow> pass_consistent g"
    "gs \<in> set (ghost_groups lanes width) \<Longrightarrow> deferred_ok gs"
    using group_ghost_facts(1,2) [OF ok] by (auto simp: ghost_groups_def)
qed

lemma ghost_groups_msets:
  assumes "width \<in> {4, 8, 16}"
  shows "map (mset \<circ> concat) (ghost_groups lanes width) =
    map (\<lambda>gi. mset (lane_group (group_lanes width) gi (active_words lanes width))) [0..<32 div group_lanes width]"
proof -
  have "\<forall>lw \<in> set (lane_group (group_lanes width) gi (active_words lanes width)). lane_ok lw" for gi
    using active_words_ok [OF assms] by (auto simp: lane_group_def)
  then show ?thesis by (simp add: ghost_groups_def group_ghost_facts(3))
qed

lemma estimate_details:
  assumes "width \<in> {4, 8, 16}"
  shows "se_passes_detail (estimate lanes width wr) =
    pass_details (map mk_pass (concat (ghost_groups lanes width)))"
proof (cases "active_words lanes width = []")
  case True
  have "mset (concat (concat (ghost_groups lanes width))) = {#}" using ghost_groups_facts(1) [OF assms] True by simp
  moreover have "g \<noteq> []" if "g \<in> set (concat (ghost_groups lanes width))" for g
    using ghost_groups_facts(2) [OF assms that] by (simp add: pass_consistent_def)
  ultimately have "concat (ghost_groups lanes width) = []"
    by (metis concat_eq_Nil_conv list.set_intros(1) mset_zero_iff neq_Nil_conv)
  moreover have "se_passes_detail (estimate lanes width wr) = []"
    using True assms by (auto simp: estimate_def Let_def empty_estimate_def)
  ultimately show ?thesis by (simp add: pass_details_def del: concat_eq_Nil_conv)
next
  case False
  have "concat (fst (form_groups (group_lanes width) (active_words lanes width) [0..<32 div group_lanes width] 0)) =
      map mk_pass (concat (ghost_groups lanes width))"
    by (simp add: form_groups_ghost ghost_groups_def map_concat comp_def)
  then show ?thesis
    using assms False by (auto simp: estimate_def Let_def split: prod.splits)
qed

lemma pass_details_lanes: "map pd_lanes (pass_details ps) = map ps_lanes ps"
  by (simp add: pass_details_def comp_def case_prod_beta map_snd_enumerate flip: map_map [of ps_lanes snd, unfolded comp_def])

text \<open>The passes of an estimate partition the active lanes: each active lane of the requested width is
  served in exactly one pass.\<close>

theorem passes_partition_lanes:
  assumes "width \<in> {4, 8, 16}"
  shows "mset (concat (map pd_lanes (se_passes_detail (estimate lanes width wr)))) =
    mset (map lw_lane (active_words lanes width))"
proof -
  have "concat (map pd_lanes (se_passes_detail (estimate lanes width wr))) =
      map lw_lane (concat (concat (ghost_groups lanes width)))"
    by (simp add: estimate_details [OF assms] pass_details_lanes comp_def map_concat)
  then show ?thesis using ghost_groups_facts(1) [OF assms, of lanes] by (simp only: mset_map)
qed

text \<open>No pass holds a bank conflict: two lanes served in the same pass never touch different words of the
  same bank. And a pass is opened only when it is needed: a lane in a later pass of its group
  clashes with every earlier pass of the group. The groups are the lane groups of the width.\<close>

theorem passes_conflict_free:
  assumes "width \<in> {4, 8, 16}"
  shows "\<exists>groups. map pd_lanes (se_passes_detail (estimate lanes width wr)) = map (map lw_lane) (concat groups) \<and>
    map (mset \<circ> concat) groups =
      map (\<lambda>gi. mset (lane_group (group_lanes width) gi (active_words lanes width))) [0..<32 div group_lanes width] \<and>
    (\<forall>g \<in> set (concat groups). \<forall>x \<in> set g. \<forall>y \<in> set g. \<forall>b w w'.
       (b, w) \<in> set (lane_pairs x) \<and> (b, w') \<in> set (lane_pairs y) \<longrightarrow> w = w') \<and>
    (\<forall>gs \<in> set groups. \<forall>i < length gs. \<forall>x \<in> set (gs ! i). \<forall>j < i.
       \<exists>y \<in> set (gs ! j). \<exists>b w w'. (b, w) \<in> set (lane_pairs x) \<and> (b, w') \<in> set (lane_pairs y) \<and> w \<noteq> w')"
proof (intro exI [of _ "ghost_groups lanes width"] conjI ballI allI impI)
  show "map pd_lanes (se_passes_detail (estimate lanes width wr)) = map (map lw_lane) (concat (ghost_groups lanes width))"
    by (simp add: estimate_details [OF assms] pass_details_lanes comp_def)
  show "map (mset \<circ> concat) (ghost_groups lanes width) =
      map (\<lambda>gi. mset (lane_group (group_lanes width) gi (active_words lanes width))) [0..<32 div group_lanes width]"
    by (rule ghost_groups_msets [OF assms])
next
  fix g x y b w w'
  assume g: "g \<in> set (concat (ghost_groups lanes width))" and xy: "x \<in> set g" "y \<in> set g"
    and p: "(b, w) \<in> set (lane_pairs x) \<and> (b, w') \<in> set (lane_pairs y)"
  then have "om_find (claims g) b = Some w" "om_find (claims g) b = Some w'"
    using ghost_groups_facts(2) [OF assms g] unfolding pass_consistent_def by fast+
  then show "w = w'" by simp
next
  fix gs i x j
  assume gs: "gs \<in> set (ghost_groups lanes width)" and i: "i < length gs" "x \<in> set (gs ! i)" "j < i"
  have "clashes x (claims (gs ! j))" using deferred_nth [OF ghost_groups_facts(3) [OF assms gs] i] .
  then obtain b w w' where c: "(b, w) \<in> set (lane_pairs x)" "om_find (claims (gs ! j)) b = Some w'" "w' \<noteq> w"
    by (rule clashesE)
  have "gs ! j \<in> set gs" using i by simp
  then have "gs ! j \<in> set (concat (ghost_groups lanes width))" using gs by auto
  from ghost_groups_facts(2) [OF assms this] c(2) obtain y where "y \<in> set (gs ! j)" "(b, w') \<in> set (lane_pairs y)"
    unfolding pass_consistent_def by metis
  then show "\<exists>y \<in> set (gs ! j). \<exists>b w w'. (b, w) \<in> set (lane_pairs x) \<and> (b, w') \<in> set (lane_pairs y) \<and> w \<noteq> w'"
    using c by metis
qed

text \<open>The per-lane bank map of the estimate is all zero, whatever the lanes access.\<close>

theorem lane_bank_always_zero:
  "se_lane_bank (estimate lanes width wr) = replicate 32 0"
proof -
  have z: "(replicate 32 0)[n := moved_from_bank []] = replicate 32 0" for n
    by (cases "n < 32") (simp_all add: moved_from_bank_def list_update_same_conv list_update_beyond)
  have "foldl (\<lambda>bs lw. bs[unat (lw_lane lw) := moved_from_bank []]) (replicate 32 0) act = replicate 32 (0::u32)" for act :: "LaneWords list"
    by (induction act) (simp_all only: foldl.simps z)
  then show ?thesis
    by (simp add: estimate_def Let_def empty_estimate_def split: prod.splits)
qed

definition demo_lanes :: "LaneAccess list" where
  "demo_lanes = [\<lparr>la_lane = 0, la_base = 0, la_len = 4, la_active = True\<rparr>,
                 \<lparr>la_lane = 1, la_base = 128, la_len = 4, la_active = True\<rparr>]"

theorem passes_partition_lanes_witness:
  "mset (concat (map pd_lanes (se_passes_detail (estimate demo_lanes 4 False)))) = {#0, 1#}"
  using passes_partition_lanes [of 4 demo_lanes False]
  by (simp add: demo_lanes_def active_words_def lane_words_def Let_def)

theorem passes_conflict_free_witness:
  "\<exists>groups. map pd_lanes (se_passes_detail (estimate demo_lanes 4 False)) = map (map lw_lane) (concat groups) \<and>
     (\<forall>g \<in> set (concat groups). \<forall>x \<in> set g. \<forall>y \<in> set g. \<forall>b w w'.
       (b, w) \<in> set (lane_pairs x) \<and> (b, w') \<in> set (lane_pairs y) \<longrightarrow> w = w')"
  using passes_conflict_free [of 4 demo_lanes False] by blast

end
