(* ===== verification/Warp_State.thy ===== *)
theory Warp_State
  imports Ordered_Map Sim_Status Mbarrier
begin

text \<open>
  The execution state of the sm120 interpreter (\<open>semu/interpreter/interpreter.hpp\<close>):
  threads, warps with their reconvergence stack, CTAs with named barriers and async groups;
  the typed operand values of a decoded instruction
  (\<open>generated/isa_shapes.hpp\<close>, \<open>semu/decoder/shape_in.hpp\<close>) and the
  operand readers and writers of
  \<open>src/interpreter/baseline/sm120/sm120_shared.hpp\<close>. Arrays of fixed size are lists of
  that length (\<open>warp_wf\<close>); a 64-bit signed value is a \<open>u64\<close> read through \<open>sint\<close>.
\<close>

subsection \<open>Decoded operands\<close>

datatype OperandKind = kRegister | kUniformRegister | kPredicate | kUniformPredicate | kSImm | kUImm
  | kFImm16 | kFImm32 | kFImm64 | kDesc | kSpecial

record OperandValue =
  ov_kind :: OperandKind
  ov_flags :: u8     \<comment> \<open>bit 0 negate, bit 1 absolute, bit 2 predicate not\<close>
  ov_bits :: u64     \<comment> \<open>the union, holding the member of the kind\<close>

definition operand_set_value :: "OperandValue \<Rightarrow> OperandKind \<Rightarrow> u64 \<Rightarrow> OperandValue" where
  "operand_set_value ov k v = ov\<lparr>ov_bits :=
     (case k of
        kRegister \<Rightarrow> ucast (ucast v :: u32)
      | kUniformRegister \<Rightarrow> ucast (ucast v :: u32)
      | kPredicate \<Rightarrow> ucast (ucast v :: u8)
      | kUniformPredicate \<Rightarrow> ucast (ucast v :: u8)
      | kSImm \<Rightarrow> v
      | kUImm \<Rightarrow> v
      | kFImm16 \<Rightarrow> ucast (ucast v :: u16)
      | kFImm32 \<Rightarrow> ucast (ucast v :: u32)
      | kFImm64 \<Rightarrow> v
      | kDesc \<Rightarrow> v
      | kSpecial \<Rightarrow> v)\<rparr>"

definition operand_value_as_i64 :: "OperandValue \<Rightarrow> u64" where
  "operand_value_as_i64 ov =
     (case ov_kind ov of
        kRegister \<Rightarrow> scast (ucast (ov_bits ov) :: u32)
      | kUniformRegister \<Rightarrow> scast (ucast (ov_bits ov) :: u32)
      | kPredicate \<Rightarrow> ucast (ucast (ov_bits ov) :: u8)
      | kUniformPredicate \<Rightarrow> ucast (ucast (ov_bits ov) :: u8)
      | kSImm \<Rightarrow> ov_bits ov
      | kUImm \<Rightarrow> ov_bits ov
      | kFImm16 \<Rightarrow> ucast (ucast (ov_bits ov) :: u16)
      | kFImm32 \<Rightarrow> ucast (ucast (ov_bits ov) :: u32)
      | kFImm64 \<Rightarrow> ov_bits ov
      | kDesc \<Rightarrow> ov_bits ov
      | kSpecial \<Rightarrow> ov_bits ov)"

definition ov_negate :: "OperandValue \<Rightarrow> bool" where
  "ov_negate ov \<longleftrightarrow> ov_flags ov AND 1 \<noteq> 0"

definition ov_absolute :: "OperandValue \<Rightarrow> bool" where
  "ov_absolute ov \<longleftrightarrow> ov_flags ov AND 2 \<noteq> 0"

definition ov_pred_not :: "OperandValue \<Rightarrow> bool" where
  "ov_pred_not ov \<longleftrightarrow> ov_flags ov AND 4 \<noteq> 0"

subsection \<open>Threads, warps and CTAs\<close>

definition kLanesPerWarp :: nat where "kLanesPerWarp = 32"
definition kNumGprs :: nat where "kNumGprs = 256"
definition kNumUrs :: nat where "kNumUrs = 64"

lemmas warp_consts = kLanesPerWarp_def kNumGprs_def kNumUrs_def

record ThreadState =
  t_gpr :: "u32 list"
  t_pred :: "bool list"
  t_pc :: u64
  t_exited :: bool
  t_active :: bool
  t_fault :: "Fault option"

record SyncEntry =
  se_return_pc :: u64
  se_reconverge_pc :: u64
  se_barrier_register :: u32
  se_participating :: u32
  se_pending :: u32
  se_arrived :: u32

record WarpState =
  w_warp_id :: nat
  w_cta_id :: nat
  w_local_cta_id :: nat
  w_ur :: "u32 list"
  w_upred :: "bool list"
  w_threads :: "ThreadState list"
  w_sync_stack :: "SyncEntry list"
  w_local :: bytes
  w_active_lanes :: u64
  w_done :: bool
  w_waiting_barrier :: "u64 option"   \<comment> \<open>the barrier id; \<open>None\<close> is -1\<close>

record NamedBarrier =
  nb_expected :: u32
  nb_arrived :: "nat list"
  nb_armed :: bool

record AsyncGroup =
  ag_copies :: "(u64 \<times> u32) list"   \<comment> \<open>committed bytes and lane of each copy\<close>
  ag_committed_bytes :: u64
  ag_sealed :: bool

record CtaState =
  c_cta_id :: nat
  c_shared :: bytes
  c_shared_base :: u64
  c_warps :: "WarpState list"
  c_barriers :: "(u32, NamedBarrier) omap"
  c_scheduler_tick :: u64
  c_mbarriers :: "(u32, MbarrierState) omap"
  c_sb_group_count :: "u64 list"
  c_async_groups :: "AsyncGroup list"
  c_async_open :: AsyncGroup

record LaunchEnv =
  le_grid :: "u32 \<times> u32 \<times> u32"
  le_block :: "u32 \<times> u32 \<times> u32"
  le_cluster :: "u32 \<times> u32 \<times> u32"
  le_sm_id :: u32

definition new_thread :: ThreadState where
  "new_thread = \<lparr>t_gpr = replicate 256 0, t_pred = replicate 7 False, t_pc = 0, t_exited = False, t_active = True, t_fault = None\<rparr>"

definition new_barrier :: NamedBarrier where
  "new_barrier = \<lparr>nb_expected = 0, nb_arrived = [], nb_armed = True\<rparr>"

definition new_group :: AsyncGroup where
  "new_group = \<lparr>ag_copies = [], ag_committed_bytes = 0, ag_sealed = False\<rparr>"

definition thread_wf :: "ThreadState \<Rightarrow> bool" where
  "thread_wf t \<longleftrightarrow> length (t_gpr t) = 256 \<and> length (t_pred t) = 7"

definition warp_wf :: "WarpState \<Rightarrow> bool" where
  "warp_wf w \<longleftrightarrow> length (w_threads w) = 32 \<and> length (w_ur w) = 64 \<and> (\<forall>t \<in> set (w_threads w). thread_wf t)"

subsection \<open>Lane masks\<close>

text \<open>\<open>mask & (1u << lane)\<close>.\<close>

definition lane_in :: "u32 \<Rightarrow> nat \<Rightarrow> bool" where
  "lane_in m lane \<longleftrightarrow> m AND push_bit lane 1 \<noteq> 0"

lemma lane_in_bit: "lane < 32 \<Longrightarrow> lane_in m lane \<longleftrightarrow> bit m lane"
proof -
  assume "lane < 32"
  then have "m AND push_bit lane 1 = (if bit m lane then push_bit lane 1 else 0)"
    by (intro bit_word_eqI) (auto simp: bit_simps)
  moreover have "push_bit lane (1 :: u32) \<noteq> 0" using \<open>lane < 32\<close>
    by (auto simp: bit_eq_iff bit_simps intro!: exI [of _ lane])
  ultimately show ?thesis by (simp add: lane_in_def)
qed

subsection \<open>The per-lane loop\<close>

text \<open>
  \<open>for lane in 0..31: if !(mask & (1u << lane)) continue; if (!t.active || t.exited) continue; body\<close>,
  where the body only writes the thread of its lane and reads the warp's uniform state.
\<close>

definition lane_live :: "u32 \<Rightarrow> nat \<Rightarrow> ThreadState \<Rightarrow> bool" where
  "lane_live m lane t \<longleftrightarrow> lane_in m lane \<and> t_active t \<and> \<not> t_exited t"

definition each_lane :: "u32 \<Rightarrow> (nat \<Rightarrow> ThreadState \<Rightarrow> ThreadState) \<Rightarrow> WarpState \<Rightarrow> WarpState" where
  "each_lane m f w = w\<lparr>w_threads :=
     map (\<lambda>(lane, t). if lane_live m lane t then f lane t else t) (enumerate 0 (w_threads w))\<rparr>"

subsection \<open>Operand readers and writers\<close>

definition gpr_at :: "ThreadState \<Rightarrow> u64 \<Rightarrow> u32" where
  "gpr_at t r = (if r = 255 \<or> r \<ge> 256 then 0 else t_gpr t ! unat r)"

definition read_reg_ov :: "ThreadState \<Rightarrow> OperandValue \<Rightarrow> u32" where
  "read_reg_ov t ov =
     (if ov_kind ov \<noteq> kRegister then 0
      else
        let v = gpr_at t (operand_value_as_i64 ov);
            v = (if ov_absolute ov then v AND 0x7fffffff else v)
        in if ov_negate ov then NOT v + 1 else v)"

definition bind_idx_ov :: "OperandValue \<Rightarrow> nat option" where
  "bind_idx_ov ov =
     (if ov_kind ov \<noteq> kRegister then None
      else let r = operand_value_as_i64 ov in if r = 255 \<or> r \<ge> 256 then None else Some (unat r))"

definition read_ur_ov :: "WarpState \<Rightarrow> OperandValue \<Rightarrow> u32" where
  "read_ur_ov w ov =
     (if ov_kind ov \<noteq> kUniformRegister then 0
      else
        let r = operand_value_as_i64 ov
        in if r = 255 then 0 else if r < 64 then w_ur w ! unat r else 0)"

definition pair64 :: "u32 \<Rightarrow> u32 \<Rightarrow> u64" where
  "pair64 lo hi = ucast lo OR push_bit 32 (ucast hi)"

definition read_ur_pair_ov :: "WarpState \<Rightarrow> OperandValue \<Rightarrow> u64" where
  "read_ur_pair_ov w ov =
     (if ov_kind ov \<noteq> kUniformRegister then 0
      else
        let r = operand_value_as_i64 ov
        in if r = 255 then 0 else if r \<ge> 63 then 0
           else pair64 (w_ur w ! unat r) (w_ur w ! (unat r + 1)))"

definition read_addr_pair_ov :: "ThreadState \<Rightarrow> OperandValue \<Rightarrow> u64" where
  "read_addr_pair_ov t ov =
     (if ov_kind ov \<noteq> kRegister then 0
      else
        let r = operand_value_as_i64 ov
        in if r = 255 \<or> r \<ge> 255 then 0 else pair64 (t_gpr t ! unat r) (t_gpr t ! (unat r + 1)))"

text \<open>\<open>None\<close> when the operand is no predicate (the out parameter is then left alone).\<close>

definition read_pred_ov :: "ThreadState \<Rightarrow> OperandValue \<Rightarrow> bool option" where
  "read_pred_ov t ov =
     (if ov_kind ov \<noteq> kPredicate then None
      else
        let p = operand_value_as_i64 ov
        in if p = 7 then Some (\<not> ov_pred_not ov)
           else if p < 7 then Some (if ov_pred_not ov then \<not> t_pred t ! unat p else t_pred t ! unat p)
           else None)"

definition pred_or :: "bool \<Rightarrow> bool option \<Rightarrow> bool" where
  "pred_or d p = (case p of None \<Rightarrow> d | Some v \<Rightarrow> v)"

definition write_pred_ov :: "OperandValue \<Rightarrow> bool \<Rightarrow> ThreadState \<Rightarrow> ThreadState" where
  "write_pred_ov ov v t =
     (if ov_kind ov \<noteq> kPredicate then t
      else
        let p = operand_value_as_i64 ov
        in if p < 7 then t\<lparr>t_pred := (t_pred t)[unat p := v]\<rparr> else t)"

definition write_rd_ov :: "OperandValue \<Rightarrow> u32 \<Rightarrow> u32 \<Rightarrow> bool \<Rightarrow> ThreadState \<Rightarrow> ThreadState" where
  "write_rd_ov ov lo hi write_hi t =
     (if ov_kind ov \<noteq> kRegister then t
      else
        let r = operand_value_as_i64 ov
        in if r = 255 \<or> r \<ge> 256 then t
           else
             let t = t\<lparr>t_gpr := (t_gpr t)[unat r := lo]\<rparr>
             in if write_hi \<and> r + 1 < 256 then t\<lparr>t_gpr := (t_gpr t)[unat r + 1 := hi]\<rparr> else t)"

definition src_value :: "WarpState \<Rightarrow> ThreadState \<Rightarrow> OperandValue \<Rightarrow> u32" where
  "src_value w t ov =
     (if ov_kind ov = kRegister then read_reg_ov t ov
      else if ov_kind ov = kUniformRegister then read_ur_ov w ov
      else if ov_kind ov = kUImm \<or> ov_kind ov = kSImm then ucast (operand_value_as_i64 ov)
      else 0)"

text \<open>The plain \<open>t.gpr[rd] = v\<close> behind the guard \<open>rd != 255 && rd < kNumGprs\<close>.\<close>

definition put_gpr :: "u64 \<Rightarrow> u32 \<Rightarrow> ThreadState \<Rightarrow> ThreadState" where
  "put_gpr rd v t = (if rd \<noteq> 255 \<and> rd < 256 then t\<lparr>t_gpr := (t_gpr t)[unat rd := v]\<rparr> else t)"

definition put_ur :: "u64 \<Rightarrow> u32 \<Rightarrow> WarpState \<Rightarrow> WarpState" where
  "put_ur u v w = w\<lparr>w_ur := (w_ur w)[unat u := v]\<rparr>"

end
