(* ===== verification/Warp_Control.thy ===== *)
theory Warp_Control
  imports Warp_State
begin

text \<open>
  Control flow of the sm120 interpreter
  (\<open>src/interpreter/baseline/sm120/control_flow.cpp\<close>): branch targets with checked
  arithmetic, BRA/BRX/JMP/JMX, the BSSY/BSYNC reconvergence stack, EXIT, named barriers,
  async-group bookkeeping (LDGDEPBAR, DEPBAR) and ELECT. A handler takes the operand values its
  decoded struct carries; a fault is returned beside the state it leaves.
\<close>

subsection \<open>Checked signed arithmetic\<close>

definition INT64_MAX :: int where "INT64_MAX = 2 ^ 63 - 1"
definition INT64_MIN :: int where "INT64_MIN = - (2 ^ 63)"

definition checked_mul4 :: "int \<Rightarrow> int option" where
  "checked_mul4 a = (if a > INT64_MAX div 4 \<or> a < INT64_MIN div 4 then None else Some (a * 4))"

definition checked_sadd :: "int \<Rightarrow> int \<Rightarrow> int option" where
  "checked_sadd a b =
     (if (b > 0 \<and> a > INT64_MAX - b) \<or> (b < 0 \<and> a < INT64_MIN - b) then None else Some (a + b))"

subsection \<open>Branch targets\<close>

text \<open>The control instructions with the operand values of their decoded structs.\<close>

datatype BranchOp = OpBRA u64 | OpJMP u64 | OpBRX u64 u64 | OpJMX u64 u64 | OpBSSY u64

definition in_text :: "u64 \<Rightarrow> int \<Rightarrow> u64 option" where
  "in_text text_size target =
     (if target mod 16 \<noteq> 0 then None
      else if target < 0 \<or> target \<ge> sint text_size then None
      else Some (word_of_int target))"

definition read_reg :: "ThreadState \<Rightarrow> nat \<Rightarrow> u32" where
  "read_reg t n = (if n = 255 then 0 else t_gpr t ! n)"

definition reg_pair :: "ThreadState \<Rightarrow> u64 \<Rightarrow> u64" where
  "reg_pair t rv =
     (let r = unat (ucast rv :: u32);
          low = (if r = 255 then 0 else read_reg t r);
          high = (if r = 255 \<or> r + 1 > kNumGprs - 1 then 0 else read_reg t (r + 1))
      in pair64 low high)"

text \<open>
  The register branches add to the unchecked \<open>static_cast<int64_t>(pc) + 16\<close>; program
  counters lie in the kernel text, so this sum does not overflow.
\<close>

definition reg_target :: "int \<Rightarrow> ThreadState \<Rightarrow> u64 \<Rightarrow> u64 \<Rightarrow> int option" where
  "reg_target base t ra off =
     (case checked_mul4 (sint off) of
        None \<Rightarrow> None
      | Some scaled \<Rightarrow>
          (case checked_sadd base (sint (reg_pair t ra)) of
             None \<Rightarrow> None
           | Some base \<Rightarrow> checked_sadd base scaled))"

definition abs_target :: "u64 \<Rightarrow> int option" where
  "abs_target imm = (if sint imm < 0 then None else checked_mul4 (sint imm))"

definition rel_target :: "u64 \<Rightarrow> u64 \<Rightarrow> int option" where
  "rel_target pc imm =
     (case checked_mul4 (sint imm) of
        None \<Rightarrow> None
      | Some scaled \<Rightarrow>
          (case checked_sadd (sint pc) 16 of
             None \<Rightarrow> None
           | Some base \<Rightarrow> checked_sadd base scaled))"

definition branch_target :: "u64 \<Rightarrow> BranchOp \<Rightarrow> u64 \<Rightarrow> ThreadState \<Rightarrow> u64 option" where
  "branch_target text_size bop pc t =
     (case (case bop of
              OpBRA imm \<Rightarrow> rel_target pc imm
            | OpJMP imm \<Rightarrow> abs_target imm
            | OpBRX ra off \<Rightarrow> reg_target (sint pc + 16) t ra off
            | OpJMX ra off \<Rightarrow> reg_target (sint pc) t ra off
            | OpBSSY sa \<Rightarrow> abs_target sa) of
        None \<Rightarrow> None
      | Some target \<Rightarrow> in_text text_size target)"

definition probe_branch_target :: "string \<Rightarrow> u64 \<Rightarrow> u64 \<Rightarrow> u64 \<Rightarrow> u64 \<Rightarrow> u64 option" where
  "probe_branch_target mnemonic pc pair off text_size =
     (if mnemonic \<noteq> ''BRX'' \<and> mnemonic \<noteq> ''JMX'' then None
      else
        case checked_mul4 (sint off) of
          None \<Rightarrow> None
        | Some scaled \<Rightarrow>
            (case checked_sadd (if mnemonic = ''BRX'' then sint pc + 16 else sint pc) (sint pair) of
               None \<Rightarrow> None
             | Some base \<Rightarrow>
                 (case checked_sadd base scaled of
                    None \<Rightarrow> None
                  | Some base \<Rightarrow>
                      if base < 0 then None
                      else let target = word_of_int base :: u64
                           in if target mod 16 \<noteq> 0 \<or> target div 16 \<ge> text_size div 16 then None
                              else Some target)))"

definition validate_control_target :: "nat \<Rightarrow> u64 \<Rightarrow> u64 option" where
  "validate_control_target nwords target =
     (if target mod 16 \<noteq> 0 \<or> unat (target div 16) \<ge> nwords then None else Some target)"

subsection \<open>Guards\<close>

record Guard =
  g_pred :: nat
  g_not :: bool

definition guard_takes :: "Guard \<Rightarrow> ThreadState \<Rightarrow> bool" where
  "guard_takes g t \<longleftrightarrow> (if g_pred g \<noteq> 7 then (if g_not g then \<not> t_pred t ! g_pred g else t_pred t ! g_pred g) else True)"

subsection \<open>Branches\<close>

text \<open>A loop over lanes whose body may fault; the lanes before the faulting one keep their effect.\<close>

fun lane_steps :: "(nat \<Rightarrow> WarpState \<Rightarrow> Fault option \<times> WarpState) \<Rightarrow> nat list \<Rightarrow> WarpState \<Rightarrow> Fault option \<times> WarpState" where
  "lane_steps f [] w = (None, w)"
| "lane_steps f (l # ls) w =
     (case f l w of
        (Some e, w') \<Rightarrow> (Some e, w')
      | (None, w') \<Rightarrow> lane_steps f ls w')"

definition set_thread :: "nat \<Rightarrow> ThreadState \<Rightarrow> WarpState \<Rightarrow> WarpState" where
  "set_thread lane t w = w\<lparr>w_threads := (w_threads w)[lane := t]\<rparr>"

definition warp_fault :: "FaultKind \<Rightarrow> string \<Rightarrow> WarpState \<Rightarrow> u64 \<Rightarrow> Fault" where
  "warp_fault k m w pc = set_pc pc (set_warp (word_of_nat (w_warp_id w)) (mk_fault k m))"

record KernelText =
  kt_name :: string
  kt_text_size :: u64
  kt_words :: nat     \<comment> \<open>\<open>kernel_.predecoded.size()\<close>\<close>

definition bra_lane :: "KernelText \<Rightarrow> Guard \<Rightarrow> BranchOp \<Rightarrow> u32 \<Rightarrow> u64 \<Rightarrow> nat \<Rightarrow> WarpState \<Rightarrow> Fault option \<times> WarpState" where
  "bra_lane k g bop m pc lane w =
     (let t = w_threads w ! lane
      in if \<not> lane_live m lane t \<or> \<not> guard_takes g t then (None, w)
         else
           case branch_target (kt_text_size k) bop pc t of
             None \<Rightarrow>
               (Some (warp_fault kInvalidInstruction
                  (''cannot resolve branch target at pc 0x'' @ show_u64 pc @ '' (overflow/underflow)'') w pc), w)
           | Some target \<Rightarrow>
               (case validate_control_target (kt_words k) target of
                  None \<Rightarrow>
                    (Some (warp_fault kInvalidInstruction
                       (''branch target 0x'' @ show_u64 target @ '' from pc 0x'' @ show_u64 pc @
                        '' is not a valid instruction boundary'') w pc), w)
                | Some v \<Rightarrow> (None, set_thread lane (t\<lparr>t_pc := v\<rparr>) w)))"

definition do_bra :: "KernelText \<Rightarrow> Guard \<Rightarrow> BranchOp \<Rightarrow> u32 \<Rightarrow> u64 \<Rightarrow> WarpState \<Rightarrow> Fault option \<times> WarpState" where
  "do_bra k g bop m pc w = lane_steps (bra_lane k g bop m pc) [0..<32] w"

subsection \<open>Reconvergence: BSSY, BSYNC, EXIT\<close>

definition mask_of :: "(nat \<Rightarrow> bool) \<Rightarrow> u32" where
  "mask_of P = foldl (\<lambda>m lane. if P lane then m OR push_bit lane 1 else m) 0 [0..<32]"

definition do_bssy :: "KernelText \<Rightarrow> Guard \<Rightarrow> u64 \<Rightarrow> u32 \<Rightarrow> u64 \<Rightarrow> u32 \<Rightarrow> WarpState \<Rightarrow> Fault option \<times> WarpState" where
  "do_bssy k g sa barreg pc m w =
     (case branch_target (kt_text_size k) (OpBSSY sa) pc (w_threads w ! 0) of
        None \<Rightarrow>
          (Some (warp_fault kInvalidInstruction
             (''BSSY join target from pc 0x'' @ show_u64 pc @ '' is out of range or misaligned'') w pc), w)
      | Some target \<Rightarrow>
          (case validate_control_target (kt_words k) target of
             None \<Rightarrow>
               (Some (warp_fault kInvalidInstruction
                  (''BSSY join target 0x'' @ show_u64 target @ '' from pc 0x'' @ show_u64 pc @
                   '' is not a valid instruction boundary'') w pc), w)
           | Some v \<Rightarrow>
               let push_lanes = mask_of (\<lambda>lane. lane_live m lane (w_threads w ! lane) \<and> guard_takes g (w_threads w ! lane))
               in if push_lanes \<noteq> 0
                  then (None, w\<lparr>w_sync_stack := w_sync_stack w @
                          [\<lparr>se_return_pc = pc + 16, se_reconverge_pc = v, se_barrier_register = barreg,
                            se_participating = push_lanes, se_pending = push_lanes, se_arrived = 0\<rparr>]\<rparr>)
                  else (None, w)))"

definition erase_at :: "nat \<Rightarrow> 'a list \<Rightarrow> 'a list" where
  "erase_at i xs = take i xs @ drop (Suc i) xs"

definition converge_thread :: "SyncEntry \<Rightarrow> nat \<Rightarrow> ThreadState \<Rightarrow> ThreadState" where
  "converge_thread e lane t =
     (if lane_in (se_participating e) lane \<and> \<not> t_exited t
      then t\<lparr>t_active := True, t_pc := se_reconverge_pc e + 16\<rparr> else t)"

definition converge_entry :: "SyncEntry \<Rightarrow> WarpState \<Rightarrow> WarpState" where
  "converge_entry e w = w\<lparr>w_threads := map (\<lambda>(lane, t). converge_thread e lane t) (enumerate 0 (w_threads w))\<rparr>"

definition converge_completed_sync :: "WarpState \<Rightarrow> WarpState" where
  "converge_completed_sync w =
     (let finished = filter (\<lambda>i. se_pending (w_sync_stack w ! i) = 0) [0..<length (w_sync_stack w)]
      in if finished = [] then w
         else
           let w' = foldl (\<lambda>w i. converge_entry (w_sync_stack w ! i) w) w finished
           in w'\<lparr>w_sync_stack := foldl (\<lambda>s i. erase_at i s) (w_sync_stack w') (rev finished)\<rparr>)"

definition find_last :: "('a \<Rightarrow> bool) \<Rightarrow> 'a list \<Rightarrow> nat option" where
  "find_last P xs = (case find_idx P (rev xs) of None \<Rightarrow> None | Some j \<Rightarrow> Some (length xs - 1 - j))"

definition suspend_lanes :: "u32 \<Rightarrow> WarpState \<Rightarrow> WarpState" where
  "suspend_lanes m w = w\<lparr>w_threads :=
     map (\<lambda>(lane, t). if lane_in m lane then t\<lparr>t_active := False\<rparr> else t) (enumerate 0 (w_threads w))\<rparr>"

definition do_bsync :: "u32 \<Rightarrow> u64 \<Rightarrow> u32 \<Rightarrow> WarpState \<Rightarrow> Fault option \<times> WarpState" where
  "do_bsync barreg pc m w =
     (case find_last (\<lambda>e. se_barrier_register e = barreg) (w_sync_stack w) of
        None \<Rightarrow>
          (Some (warp_fault kUnsupportedInstruction
             (''BSYNC B'' @ show_u32 barreg @ '' at pc 0x'' @ show_u64 pc @ '' with no matching BSSY entry'') w pc), w)
      | Some i \<Rightarrow>
          let entry = w_sync_stack w ! i;
              arriving = m AND se_pending entry;
              entry = entry\<lparr>se_pending := se_pending entry AND NOT arriving, se_arrived := se_arrived entry OR arriving\<rparr>;
              w = w\<lparr>w_sync_stack := (w_sync_stack w)[i := entry]\<rparr>
          in (None, converge_completed_sync (suspend_lanes arriving w)))"

definition drop_lane :: "nat \<Rightarrow> SyncEntry \<Rightarrow> SyncEntry" where
  "drop_lane lane e =
     (if lane_in (se_participating e) lane
      then e\<lparr>se_pending := se_pending e AND NOT (push_bit lane 1), se_arrived := se_arrived e AND NOT (push_bit lane 1)\<rparr>
      else e)"

definition exit_lane :: "Guard \<Rightarrow> u32 \<Rightarrow> WarpState \<Rightarrow> nat \<Rightarrow> WarpState" where
  "exit_lane g m w lane =
     (let t = w_threads w ! lane
      in if \<not> lane_live m lane t \<or> \<not> guard_takes g t then w
         else converge_completed_sync
                ((set_thread lane (t\<lparr>t_exited := True, t_active := False\<rparr>) w)
                  \<lparr>w_sync_stack := map (drop_lane lane) (w_sync_stack w)\<rparr>))"

definition do_exit :: "Guard \<Rightarrow> u32 \<Rightarrow> WarpState \<Rightarrow> WarpState" where
  "do_exit g m w = foldl (exit_lane g m) w [0..<32]"

subsection \<open>Named barriers\<close>

definition block_warps :: "LaunchEnv \<Rightarrow> nat" where
  "block_warps env =
     (let (bx, by, bz) = le_block env; threads = ucast bx * ucast by * ucast bz :: u64
      in unat ((threads + 31) div 32))"

definition resume_warp :: "WarpState \<Rightarrow> WarpState" where
  "resume_warp w = w\<lparr>w_threads := map (\<lambda>t. if t_exited t then t else t\<lparr>t_active := True\<rparr>) (w_threads w),
                     w_waiting_barrier := None\<rparr>"

definition release_warp :: "u64 \<Rightarrow> WarpState \<Rightarrow> WarpState" where
  "release_warp bid w = (if w_waiting_barrier w = Some bid then resume_warp w else w)"

definition park_warp :: "u64 \<Rightarrow> WarpState \<Rightarrow> WarpState" where
  "park_warp bid w = w\<lparr>w_waiting_barrier := Some bid,
     w_threads := map (\<lambda>t. if t_active t \<and> \<not> t_exited t then t\<lparr>t_active := False\<rparr> else t) (w_threads w)\<rparr>"

text \<open>
  The result also says which warps a released barrier orders: the race event the handler buffers
  when the detector is on.
\<close>

definition do_bar :: "LaunchEnv \<Rightarrow> bool \<Rightarrow> u64 \<Rightarrow> nat \<Rightarrow> CtaState \<Rightarrow> CtaState \<times> nat list option" where
  "do_bar env race_on bid wi c =
     (let w = c_warps c ! wi;
          key = ucast bid :: u32;
          bar = om_at new_barrier (c_barriers c) key;
          arrived = (if w_warp_id w \<in> set (nb_arrived bar) then nb_arrived bar else nb_arrived bar @ [w_warp_id w]);
          nwarps = block_warps env
      in if length arrived \<ge> nwarps then
           (c\<lparr>c_barriers := om_put key (bar\<lparr>nb_arrived := []\<rparr>) (c_barriers c),
              c_warps := map (release_warp bid) (c_warps c)\<rparr>,
            if race_on then Some [0..<nwarps] else None)
         else
           (c\<lparr>c_barriers := om_put key (bar\<lparr>nb_arrived := arrived\<rparr>) (c_barriers c),
              c_warps := (c_warps c)[wi := park_warp bid w]\<rparr>,
            None))"

subsection \<open>Async groups\<close>

definition do_ldgdepbar :: "nat \<Rightarrow> CtaState \<Rightarrow> CtaState" where
  "do_ldgdepbar wr c =
     (if ag_copies (c_async_open c) \<noteq> [] \<or> ag_committed_bytes (c_async_open c) > 0 then
        c\<lparr>c_async_groups := c_async_groups c @ [c_async_open c],
          c_sb_group_count := (if wr < length (c_sb_group_count c)
             then (c_sb_group_count c)[wr := c_sb_group_count c ! wr + 1] else c_sb_group_count c),
          c_async_open := new_group\<rparr>
      else c)"

fun drain_groups :: "nat \<Rightarrow> 'a list \<Rightarrow> 'a list" where
  "drain_groups 0 gs = gs"
| "drain_groups (Suc n) gs = (if gs = [] then [] else drain_groups n (butlast gs))"

text \<open>The flag of the result says that the memory service is drained too.\<close>

definition do_depbar :: "u64 \<Rightarrow> u64 \<Rightarrow> u64 \<Rightarrow> CtaState \<Rightarrow> CtaState \<times> bool" where
  "do_depbar le sbidx cnt c =
     ((if le \<noteq> 0 \<and> unat sbidx < length (c_sb_group_count c) then
         if c_sb_group_count c ! unat sbidx > cnt then
           c\<lparr>c_async_groups := drain_groups (unat (c_sb_group_count c ! unat sbidx - cnt)) (c_async_groups c),
             c_sb_group_count := (c_sb_group_count c)[unat sbidx := cnt]\<rparr>
         else c
       else c\<lparr>c_async_groups := [], c_sb_group_count := replicate (length (c_sb_group_count c)) 0\<rparr>),
      cnt = 0)"

subsection \<open>ELECT\<close>

definition elect_leader :: "u32 \<Rightarrow> OperandValue \<Rightarrow> WarpState \<Rightarrow> nat option" where
  "elect_leader m src w =
     List.find (\<lambda>lane. lane_in m lane \<and> ov_kind src = kPredicate \<and> pred_or False (read_pred_ov (w_threads w ! lane) src))
       [0..<32]"

definition do_elect :: "u32 \<Rightarrow> OperandValue \<Rightarrow> OperandValue \<Rightarrow> OperandValue \<Rightarrow> WarpState \<Rightarrow> WarpState" where
  "do_elect m pu urd src w =
     (let leader = elect_leader m src w;
          r = operand_value_as_i64 urd;
          any = (\<exists>lane \<in> set [0..<32]. lane_live m lane (w_threads w ! lane));
          w' = each_lane m (\<lambda>lane t. write_pred_ov pu (leader = Some lane) t) w
      in if any \<and> r < 64 then put_ur r (case leader of None \<Rightarrow> - 1 | Some l \<Rightarrow> word_of_nat l) w' else w')"

end
