(* ===== verification/Warp_Facts.thy ===== *)
theory Warp_Facts
  imports Warp_Control
begin

text \<open>
  Facts about the control-flow handlers: the shape of a completed reconvergence, the control
  invariant of a warp (no lane is ever lost, that is, a lane that neither runs nor has exited waits in a
  reconvergence entry, or its warp waits at a named barrier), and that every handler keeps it.
\<close>

subsection \<open>Masks\<close>

lemma bit_u32_lt: "bit (m :: u32) n \<Longrightarrow> n < 32"
  using bit_imp_le_length [of m n] by simp

lemma u32_nonzero_bit: "m \<noteq> (0 :: u32) \<longleftrightarrow> (\<exists>n < 32. bit m n)"
  using bit_word_eqI [of m 0] bit_u32_lt by auto

lemma bit_mask_of: "bit (mask_of P) n \<longleftrightarrow> n < 32 \<and> P n"
proof -
  have "bit (foldl (\<lambda>m lane. if P lane then m OR push_bit lane 1 else m) (0 :: u32) [0..<k]) n \<longleftrightarrow> n < k \<and> n < 32 \<and> P n" for k
    by (induction k) (auto simp: bit_simps less_Suc_eq)
  from this [of 32] show ?thesis by (auto simp: mask_of_def)
qed

lemma lane_live_bit: "lane < 32 \<Longrightarrow> lane_live m lane t \<longleftrightarrow> bit m lane \<and> t_active t \<and> \<not> t_exited t"
  by (simp add: lane_live_def lane_in_bit)

subsection \<open>Erasing the completed entries\<close>

lemma erase_at_Cons [simp]: "erase_at 0 (x # xs) = xs" "erase_at (Suc i) (x # xs) = x # erase_at i xs"
  by (simp_all add: erase_at_def)

lemma foldl_erase_Suc: "foldl (\<lambda>s i. erase_at i s) (x # xs) (map Suc is) = x # foldl (\<lambda>s i. erase_at i s) xs is"
  by (induction "is" arbitrary: xs) auto

lemma erase_finished:
  "foldl (\<lambda>s i. erase_at i s) xs (rev (filter (\<lambda>i. P (xs ! i)) [0..<length xs])) = filter (\<lambda>x. \<not> P x) xs"
proof (induction xs)
  case (Cons x xs)
  have "[0..<length (x # xs)] = 0 # map Suc [0..<length xs]" by (simp add: upt_conv_Cons map_Suc_upt del: upt_Suc)
  then have "filter (\<lambda>i. P ((x # xs) ! i)) [0..<length (x # xs)] =
      (if P x then [0] else []) @ map Suc (filter (\<lambda>i. P (xs ! i)) [0..<length xs])"
    by (simp add: filter_map comp_def)
  then show ?case using Cons by (simp add: rev_map foldl_erase_Suc del: upt_Suc)
qed simp

subsection \<open>Convergence\<close>

lemma converge_entry_fields [simp]:
  "w_sync_stack (converge_entry e w) = w_sync_stack w" "length (w_threads (converge_entry e w)) = length (w_threads w)"
  "w_waiting_barrier (converge_entry e w) = w_waiting_barrier w" "w_warp_id (converge_entry e w) = w_warp_id w"
  "w_done (converge_entry e w) = w_done w" "w_ur (converge_entry e w) = w_ur w"
  by (simp_all add: converge_entry_def)

lemma converge_entry_nth:
  "l < length (w_threads w) \<Longrightarrow> w_threads (converge_entry e w) ! l = converge_thread e l (w_threads w ! l)"
  by (simp add: converge_entry_def nth_enumerate_eq)

definition converge_all :: "SyncEntry list \<Rightarrow> WarpState \<Rightarrow> WarpState" where
  "converge_all es w = foldl (\<lambda>w e. converge_entry e w) w es"

lemma converge_all_simps [simp]: "converge_all [] w = w" "converge_all (e # es) w = converge_all es (converge_entry e w)"
  by (simp_all add: converge_all_def)

lemma converge_all_fields [simp]:
  "w_sync_stack (converge_all es w) = w_sync_stack w" "length (w_threads (converge_all es w)) = length (w_threads w)"
  "w_waiting_barrier (converge_all es w) = w_waiting_barrier w" "w_warp_id (converge_all es w) = w_warp_id w"
  "w_done (converge_all es w) = w_done w" "w_ur (converge_all es w) = w_ur w"
  by (induction es arbitrary: w) auto

lemma converge_all_nth:
  assumes "l < length (w_threads w)"
  shows "t_exited (w_threads (converge_all es w) ! l) = t_exited (w_threads w ! l)"
    and "t_active (w_threads (converge_all es w) ! l) \<longleftrightarrow> t_active (w_threads w ! l) \<or>
           \<not> t_exited (w_threads w ! l) \<and> (\<exists>e \<in> set es. lane_in (se_participating e) l)"
  using assms by (induction es arbitrary: w) (auto simp: converge_entry_nth converge_thread_def)

lemma converge_completed_eq:
  "converge_completed_sync w =
     (converge_all (filter (\<lambda>e. se_pending e = 0) (w_sync_stack w)) w)
       \<lparr>w_sync_stack := filter (\<lambda>e. se_pending e \<noteq> 0) (w_sync_stack w)\<rparr>"
proof -
  let ?f = "filter (\<lambda>i. se_pending (w_sync_stack w ! i) = 0) [0..<length (w_sync_stack w)]"
  have "w_sync_stack v = w_sync_stack w \<Longrightarrow>
      foldl (\<lambda>w i. converge_entry (w_sync_stack w ! i) w) v is = converge_all (map ((!) (w_sync_stack w)) is) v" for v "is"
    by (induction "is" arbitrary: v) auto
  moreover have "map ((!) (w_sync_stack w)) ?f = filter (\<lambda>e. se_pending e = 0) (w_sync_stack w)"
    using filter_map [of "\<lambda>e. se_pending e = 0" "(!) (w_sync_stack w)" "[0..<length (w_sync_stack w)]"]
    by (simp add: map_nth comp_def)
  moreover have "filter (\<lambda>e. se_pending e \<noteq> 0) (w_sync_stack w) = w_sync_stack w" if "?f = []"
    using that by (auto simp: filter_empty_conv in_set_conv_nth intro!: filter_True)
  ultimately show ?thesis
    using erase_finished [of "w_sync_stack w" "\<lambda>e. se_pending e = 0"]
    by (auto simp: converge_completed_sync_def Let_def filter_empty_conv)
qed

subsection \<open>The control invariant of a warp\<close>

definition entry_sub :: "WarpState \<Rightarrow> SyncEntry \<Rightarrow> bool" where
  "entry_sub w e \<longleftrightarrow>
     (\<forall>l < 32. (bit (se_pending e) l \<longrightarrow> bit (se_participating e) l \<and> \<not> t_exited (w_threads w ! l)) \<and>
               (bit (se_arrived e) l \<longrightarrow> bit (se_participating e) l \<and> \<not> bit (se_pending e) l))"

text \<open>Between an arrival and the convergence it may trigger, an entry can be complete.\<close>

definition pre_inv :: "WarpState \<Rightarrow> bool" where
  "pre_inv w \<longleftrightarrow> length (w_threads w) = 32 \<and>
     (\<forall>l < 32. t_exited (w_threads w ! l) \<longrightarrow> \<not> t_active (w_threads w ! l)) \<and>
     (\<forall>e \<in> set (w_sync_stack w). entry_sub w e) \<and>
     (w_waiting_barrier w = None \<longrightarrow>
       (\<forall>l < 32. \<not> t_active (w_threads w ! l) \<and> \<not> t_exited (w_threads w ! l) \<longrightarrow>
          (\<exists>e \<in> set (w_sync_stack w). bit (se_arrived e) l))) \<and>
     (w_waiting_barrier w \<noteq> None \<longrightarrow> (\<exists>l < 32. \<not> t_exited (w_threads w ! l))) \<and>
     (w_done w \<longrightarrow> (\<forall>l < 32. t_exited (w_threads w ! l)))"

definition ctl_inv :: "WarpState \<Rightarrow> bool" where
  "ctl_inv w \<longleftrightarrow> pre_inv w \<and> (\<forall>e \<in> set (w_sync_stack w). se_pending e \<noteq> 0)"

lemma pre_invI:
  assumes "length (w_threads w) = 32"
    and "\<And>l. l < 32 \<Longrightarrow> t_exited (w_threads w ! l) \<Longrightarrow> \<not> t_active (w_threads w ! l)"
    and "\<And>e. e \<in> set (w_sync_stack w) \<Longrightarrow> entry_sub w e"
    and "\<And>l. w_waiting_barrier w = None \<Longrightarrow> l < 32 \<Longrightarrow> \<not> t_active (w_threads w ! l) \<Longrightarrow>
      \<not> t_exited (w_threads w ! l) \<Longrightarrow> \<exists>e \<in> set (w_sync_stack w). bit (se_arrived e) l"
    and "w_waiting_barrier w \<noteq> None \<Longrightarrow> \<exists>l < 32. \<not> t_exited (w_threads w ! l)"
    and "\<And>l. w_done w \<Longrightarrow> l < 32 \<Longrightarrow> t_exited (w_threads w ! l)"
  shows "pre_inv w"
  using assms unfolding pre_inv_def by simp

lemma pre_invD:
  assumes "pre_inv w"
  shows "length (w_threads w) = 32"
    and "l < 32 \<Longrightarrow> t_exited (w_threads w ! l) \<Longrightarrow> \<not> t_active (w_threads w ! l)"
    and "e \<in> set (w_sync_stack w) \<Longrightarrow> entry_sub w e"
    and "w_waiting_barrier w = None \<Longrightarrow> l < 32 \<Longrightarrow> \<not> t_active (w_threads w ! l) \<Longrightarrow>
      \<not> t_exited (w_threads w ! l) \<Longrightarrow> \<exists>e \<in> set (w_sync_stack w). bit (se_arrived e) l"
    and "w_waiting_barrier w \<noteq> None \<Longrightarrow> \<exists>l < 32. \<not> t_exited (w_threads w ! l)"
    and "w_done w \<Longrightarrow> l < 32 \<Longrightarrow> t_exited (w_threads w ! l)"
  using assms unfolding pre_inv_def by simp_all

lemma entry_subD:
  "entry_sub w e \<Longrightarrow> bit (se_pending e) l \<Longrightarrow> bit (se_participating e) l \<and> \<not> t_exited (w_threads w ! l)"
  "entry_sub w e \<Longrightarrow> bit (se_arrived e) l \<Longrightarrow> bit (se_participating e) l \<and> \<not> bit (se_pending e) l"
  using bit_u32_lt unfolding entry_sub_def by blast+

lemma entry_subI:
  assumes "\<And>l. l < 32 \<Longrightarrow> bit (se_pending e) l \<Longrightarrow> bit (se_participating e) l \<and> \<not> t_exited (w_threads w ! l)"
    and "\<And>l. l < 32 \<Longrightarrow> bit (se_arrived e) l \<Longrightarrow> bit (se_participating e) l \<and> \<not> bit (se_pending e) l"
  shows "entry_sub w e"
  using assms unfolding entry_sub_def by blast

lemma converge_keeps_inv:
  assumes "pre_inv w"
  shows "ctl_inv (converge_completed_sync w)"
proof -
  let ?c = "converge_all (filter (\<lambda>e. se_pending e = 0) (w_sync_stack w)) w"
  have len: "length (w_threads w) = 32" using assms by (simp add: pre_inv_def)
  have N: "t_exited (w_threads ?c ! l) = t_exited (w_threads w ! l)"
    "t_active (w_threads ?c ! l) \<longleftrightarrow> t_active (w_threads w ! l) \<or> \<not> t_exited (w_threads w ! l) \<and>
       (\<exists>e \<in> set (w_sync_stack w). se_pending e = 0 \<and> bit (se_participating e) l)" if "l < 32" for l
    using that converge_all_nth [of l w] len by (auto simp: lane_in_bit)
  have waits: "\<exists>e \<in> set (w_sync_stack w). se_pending e \<noteq> 0 \<and> bit (se_arrived e) l"
    if l: "w_waiting_barrier w = None" "l < 32" "\<not> t_active (w_threads ?c ! l)" "\<not> t_exited (w_threads ?c ! l)" for l
  proof -
    have n: "\<not> t_active (w_threads w ! l)" "\<not> t_exited (w_threads w ! l)"
      "\<And>e. e \<in> set (w_sync_stack w) \<Longrightarrow> se_pending e = 0 \<Longrightarrow> \<not> bit (se_participating e) l"
      using l N [OF l(2)] by auto
    obtain e where e: "e \<in> set (w_sync_stack w)" "bit (se_arrived e) l"
      using pre_invD(4) [OF assms l(1,2) n(1,2)] by blast
    then show ?thesis using entry_subD(2) [OF pre_invD(3) [OF assms e(1)] e(2)] n(3) by blast
  qed
  let ?w = "?c\<lparr>w_sync_stack := filter (\<lambda>e. se_pending e \<noteq> 0) (w_sync_stack w)\<rparr>"
  have "pre_inv ?w"
  proof (rule pre_invI)
    show "entry_sub ?w e" if "e \<in> set (w_sync_stack ?w)" for e
      using pre_invD(3) [OF assms, of e] that by (simp add: entry_sub_def N)
    show "\<exists>e \<in> set (w_sync_stack ?w). bit (se_arrived e) l" if "w_waiting_barrier ?w = None" "l < 32"
      "\<not> t_active (w_threads ?w ! l)" "\<not> t_exited (w_threads ?w ! l)" for l
      using waits [of l] that by auto
    show "\<exists>l < 32. \<not> t_exited (w_threads ?w ! l)" if "w_waiting_barrier ?w \<noteq> None"
      using pre_invD(5) [OF assms] that N(1) by auto
  qed (use pre_invD [OF assms] len N in auto)
  then show ?thesis by (simp add: ctl_inv_def converge_completed_eq)
qed

text \<open>What a handler that only computes may change: everything but the control state.\<close>

definition same_control :: "WarpState \<Rightarrow> WarpState \<Rightarrow> bool" where
  "same_control w w' \<longleftrightarrow> length (w_threads w') = length (w_threads w) \<and>
     (\<forall>l < length (w_threads w). t_exited (w_threads w' ! l) = t_exited (w_threads w ! l) \<and>
                                  t_active (w_threads w' ! l) = t_active (w_threads w ! l)) \<and>
     w_sync_stack w' = w_sync_stack w \<and> w_waiting_barrier w' = w_waiting_barrier w \<and>
     w_done w' = w_done w \<and> w_warp_id w' = w_warp_id w"

lemma same_control_refl [simp]: "same_control w w"
  by (simp add: same_control_def)

lemma same_control_trans: "same_control a b \<Longrightarrow> same_control b c \<Longrightarrow> same_control a c"
  by (auto simp: same_control_def)

lemma ctl_inv_same_control:
  assumes "same_control w w'" "ctl_inv w"
  shows "ctl_inv w'"
proof -
  have p: "pre_inv w" using assms(2) by (simp add: ctl_inv_def)
  have s: "w_sync_stack w' = w_sync_stack w" "w_waiting_barrier w' = w_waiting_barrier w" "w_done w' = w_done w"
    "length (w_threads w') = 32" using assms(1) pre_invD(1) [OF p] by (simp_all add: same_control_def)
  have N: "t_exited (w_threads w' ! l) = t_exited (w_threads w ! l)" "t_active (w_threads w' ! l) = t_active (w_threads w ! l)"
    if "l < 32" for l using assms(1) pre_invD(1) [OF p] that by (simp_all add: same_control_def)
  have "pre_inv w'"
  proof (rule pre_invI)
    show "entry_sub w' e" if "e \<in> set (w_sync_stack w')" for e
      using pre_invD(3) [OF p, of e] that by (simp add: entry_sub_def N s)
    show "\<exists>l < 32. \<not> t_exited (w_threads w' ! l)" if "w_waiting_barrier w' \<noteq> None"
      using pre_invD(5) [OF p] that N(1) s by auto
  qed (use pre_invD [OF p] N s in auto)
  then show ?thesis using assms(2) s by (simp add: ctl_inv_def)
qed

subsection \<open>Every handler keeps the invariant\<close>

lemma set_thread_same_control:
  assumes "t_exited t' = t_exited (w_threads w ! l)" "t_active t' = t_active (w_threads w ! l)"
  shows "same_control w (set_thread l t' w)"
  using assms by (simp add: same_control_def set_thread_def) (metis nth_list_update_eq nth_list_update_neq)

lemma lane_steps_same_control:
  assumes "\<And>l w. same_control w (snd (f l w))"
  shows "same_control w (snd (lane_steps f ls w))"
proof (induction ls arbitrary: w)
  case (Cons l ls)
  have "same_control w (snd (f l w))" by (rule assms)
  then show ?case using Cons same_control_trans by (auto split: prod.splits option.splits)
qed simp

lemma do_bra_same_control: "same_control w (snd (do_bra k g bop m pc w))"
  unfolding do_bra_def
  by (rule lane_steps_same_control) (auto simp: bra_lane_def Let_def set_thread_same_control split: option.splits)

lemma do_bssy_keeps_inv:
  assumes "ctl_inv w"
  shows "ctl_inv (snd (do_bssy k g sa barreg pc m w))"
proof -
  have p: "pre_inv w" using assms by (simp add: ctl_inv_def)
  let ?m = "mask_of (\<lambda>lane. lane_live m lane (w_threads w ! lane) \<and> guard_takes g (w_threads w ! lane))"
  have push: "ctl_inv (w\<lparr>w_sync_stack := w_sync_stack w @
      [\<lparr>se_return_pc = r, se_reconverge_pc = v, se_barrier_register = barreg,
        se_participating = ?m, se_pending = ?m, se_arrived = 0\<rparr>]\<rparr>)" (is "ctl_inv ?w") if "?m \<noteq> 0" for r v
  proof -
    have "pre_inv ?w"
    proof (rule pre_invI)
      show "entry_sub ?w e" if "e \<in> set (w_sync_stack ?w)" for e
        using pre_invD(3) [OF p, of e] that
        by (auto simp: entry_sub_def bit_mask_of lane_live_bit)
    qed (use pre_invD [OF p] in auto)
    then show ?thesis using assms that by (auto simp: ctl_inv_def)
  qed
  then show ?thesis using assms by (auto simp: do_bssy_def Let_def split: option.splits)
qed

lemma find_lastD:
  assumes "find_last P xs = Some i"
  shows "i < length xs" "P (xs ! i)"
proof -
  from assms obtain j where j: "find_idx P (rev xs) = Some j" "i = length xs - 1 - j"
    by (auto simp: find_last_def split: option.splits)
  note D = find_idx_SomeD [OF j(1)]
  then show "i < length xs" using j by auto
  show "P (xs ! i)" using D j(2) rev_nth [of j xs] by simp
qed

lemma suspend_lanes_fields [simp]:
  "w_sync_stack (suspend_lanes m w) = w_sync_stack w" "length (w_threads (suspend_lanes m w)) = length (w_threads w)"
  "w_waiting_barrier (suspend_lanes m w) = w_waiting_barrier w" "w_warp_id (suspend_lanes m w) = w_warp_id w"
  "w_done (suspend_lanes m w) = w_done w"
  by (simp_all add: suspend_lanes_def)

lemma suspend_lanes_nth:
  assumes "l < 32" "length (w_threads w) = 32"
  shows "w_threads (suspend_lanes m w) ! l = (if bit m l then (w_threads w ! l)\<lparr>t_active := False\<rparr> else w_threads w ! l)"
  using assms by (simp add: suspend_lanes_def nth_enumerate_eq lane_in_bit)

lemma arrival_pre_inv:
  assumes p: "pre_inv w" and i: "i < length (w_sync_stack w)"
    and part: "se_participating e' = se_participating (w_sync_stack w ! i)"
    and pend: "\<And>l. l < 32 \<Longrightarrow> bit (se_pending e') l \<longleftrightarrow> bit (se_pending (w_sync_stack w ! i)) l \<and> \<not> bit arr l"
    and arrd: "\<And>l. l < 32 \<Longrightarrow> bit (se_arrived e') l \<longleftrightarrow> bit (se_arrived (w_sync_stack w ! i)) l \<or> bit arr l"
    and arr: "\<And>l. l < 32 \<Longrightarrow> bit arr l \<Longrightarrow> bit (se_pending (w_sync_stack w ! i)) l"
  shows "pre_inv (suspend_lanes arr (w\<lparr>w_sync_stack := (w_sync_stack w)[i := e']\<rparr>))" (is "pre_inv ?w")
proof -
  note len = pre_invD(1) [OF p]
  have stk: "w_sync_stack ?w = (w_sync_stack w)[i := e']" by simp
  have N: "w_threads ?w ! l = (if bit arr l then (w_threads w ! l)\<lparr>t_active := False\<rparr> else w_threads w ! l)" if "l < 32" for l
    using suspend_lanes_nth [OF that] len by simp
  have ex: "t_exited (w_threads ?w ! l) = t_exited (w_threads w ! l)" if "l < 32" for l using N [OF that] by simp
  have sub: "entry_sub w (w_sync_stack w ! i)" using pre_invD(3) [OF p] i by simp
  show ?thesis
  proof (rule pre_invI)
    show "entry_sub ?w e" if e: "e \<in> set (w_sync_stack ?w)" for e
    proof -
      have "e \<in> set (w_sync_stack w) \<or> e = e'" using e set_update_subset_insert [of "w_sync_stack w" i e'] unfolding stk by auto
      then show ?thesis
      proof
        assume "e \<in> set (w_sync_stack w)"
        from pre_invD(3) [OF p this] show ?thesis by (simp add: entry_sub_def ex)
      next
        assume "e = e'"
        then show ?thesis using sub by (simp add: entry_sub_def ex part pend arrd) (use arr in blast)
      qed
    qed
    show "\<exists>e \<in> set (w_sync_stack ?w). bit (se_arrived e) l"
      if l: "w_waiting_barrier ?w = None" "l < 32" "\<not> t_active (w_threads ?w ! l)" "\<not> t_exited (w_threads ?w ! l)" for l
    proof (cases "bit arr l")
      case True
      moreover have "e' \<in> set (w_sync_stack ?w)" unfolding stk using i by (rule set_update_memI)
      ultimately show ?thesis using arrd [OF l(2)] by blast
    next
      case False
      then obtain e where e: "e \<in> set (w_sync_stack w)" "bit (se_arrived e) l"
        using pre_invD(4) [OF p _ l(2)] l N [OF l(2)] by auto
      then obtain j where j: "j < length (w_sync_stack w)" "e = w_sync_stack w ! j" by (auto simp: in_set_conv_nth)
      have "bit (se_arrived ((w_sync_stack w)[i := e'] ! j)) l"
        using e j arrd [OF l(2)] by (cases "j = i") auto
      moreover have "(w_sync_stack w)[i := e'] ! j \<in> set (w_sync_stack ?w)" unfolding stk using j(1) by (intro nth_mem) simp
      ultimately show ?thesis by blast
    qed
    show "\<exists>l < 32. \<not> t_exited (w_threads ?w ! l)" if "w_waiting_barrier ?w \<noteq> None"
      using pre_invD(5) [OF p] that ex by auto
    show "\<not> t_active (w_threads ?w ! l)" if "l < 32" "t_exited (w_threads ?w ! l)" for l
      using pre_invD(2) [OF p that(1)] that N [OF that(1)] by (auto split: if_splits)
  qed (use pre_invD(1,6) [OF p] ex in auto)
qed

lemma do_bsync_keeps_inv:
  assumes "ctl_inv w"
  shows "ctl_inv (snd (do_bsync barreg pc m w))"
proof (cases "find_last (\<lambda>e. se_barrier_register e = barreg) (w_sync_stack w)")
  case None
  then show ?thesis using assms by (simp add: do_bsync_def)
next
  case (Some i)
  have p: "pre_inv w" using assms by (simp add: ctl_inv_def)
  let ?e = "w_sync_stack w ! i"
  have "pre_inv (suspend_lanes (m AND se_pending ?e) (w\<lparr>w_sync_stack := (w_sync_stack w)[i :=
      ?e\<lparr>se_pending := se_pending ?e AND NOT (m AND se_pending ?e), se_arrived := se_arrived ?e OR (m AND se_pending ?e)\<rparr>]\<rparr>))"
    by (rule arrival_pre_inv [OF p find_lastD(1) [OF Some]])
      (auto simp: bit_and_iff bit_or_iff bit_not_iff)
  from converge_keeps_inv [OF this] show ?thesis
    unfolding do_bsync_def Some Let_def option.case snd_conv .
qed

lemma drop_lane_fields [simp]:
  "se_participating (drop_lane l e) = se_participating e" "se_reconverge_pc (drop_lane l e) = se_reconverge_pc e"
  "se_barrier_register (drop_lane l e) = se_barrier_register e"
  by (simp_all add: drop_lane_def)

lemma drop_lane_bits:
  assumes "entry_sub w e" "l < 32"
  shows "bit (se_pending (drop_lane l e)) n \<longleftrightarrow> bit (se_pending e) n \<and> n \<noteq> l"
    and "bit (se_arrived (drop_lane l e)) n \<longleftrightarrow> bit (se_arrived e) n \<and> n \<noteq> l"
  using assms entry_subD [OF assms(1)] bit_u32_lt
  by (auto simp: drop_lane_def lane_in_bit bit_simps)

lemma exit_pre_inv:
  assumes p: "pre_inv w" and l: "l < 32" and live: "t_active (w_threads w ! l)" "\<not> t_exited (w_threads w ! l)"
    and nb: "w_waiting_barrier w = None"
  shows "pre_inv ((set_thread l ((w_threads w ! l)\<lparr>t_exited := True, t_active := False\<rparr>) w)
    \<lparr>w_sync_stack := map (drop_lane l) (w_sync_stack w)\<rparr>)" (is "pre_inv ?w")
proof -
  note len = pre_invD(1) [OF p]
  have N: "w_threads ?w ! n = (if n = l then (w_threads w ! l)\<lparr>t_exited := True, t_active := False\<rparr> else w_threads w ! n)"
    if "n < 32" for n using that len l by (simp add: set_thread_def)
  note D = drop_lane_bits [OF pre_invD(3) [OF p] l]
  show ?thesis
  proof (rule pre_invI)
    show "entry_sub ?w e" if e: "e \<in> set (w_sync_stack ?w)" for e
    proof -
      obtain d where d: "d \<in> set (w_sync_stack w)" "e = drop_lane l d" using e by auto
      have sub: "entry_sub w d" using pre_invD(3) [OF p d(1)] .
      show ?thesis
        by (rule entry_subI) (use D [OF d(1)] d(2) entry_subD [OF sub] N in auto)
    qed
    show "\<exists>e \<in> set (w_sync_stack ?w). bit (se_arrived e) n"
      if n: "w_waiting_barrier ?w = None" "n < 32" "\<not> t_active (w_threads ?w ! n)" "\<not> t_exited (w_threads ?w ! n)" for n
    proof -
      have "n \<noteq> l" using n N [OF n(2)] by auto
      then obtain e where e: "e \<in> set (w_sync_stack w)" "bit (se_arrived e) n"
        using pre_invD(4) [OF p nb n(2)] n N [OF n(2)] by auto
      then have "bit (se_arrived (drop_lane l e)) n" using D(2) [OF e(1)] \<open>n \<noteq> l\<close> by simp
      then show ?thesis using e(1) by auto
    qed
    show "\<not> t_active (w_threads ?w ! n)" if "n < 32" "t_exited (w_threads ?w ! n)" for n
      using pre_invD(2) [OF p that(1)] that N [OF that(1)] by (auto split: if_splits)
    show "t_exited (w_threads ?w ! n)" if "w_done ?w" "n < 32" for n
      using pre_invD(6) [OF p] that N [OF that(2)] live l by (auto simp: set_thread_def)
  qed (use len nb in \<open>auto simp: set_thread_def\<close>)
qed

lemma converge_waiting [simp]: "w_waiting_barrier (converge_completed_sync w) = w_waiting_barrier w"
  by (simp add: converge_completed_eq)

lemma exit_lane_keeps_inv:
  assumes "ctl_inv w" "l < 32" "w_waiting_barrier w = None"
  shows "ctl_inv (exit_lane g m w l)" "w_waiting_barrier (exit_lane g m w l) = None"
proof -
  have p: "pre_inv w" using assms by (simp add: ctl_inv_def)
  show "ctl_inv (exit_lane g m w l)"
    using assms converge_keeps_inv [OF exit_pre_inv [OF p assms(2) _ _ assms(3)]]
    by (auto simp: exit_lane_def Let_def lane_live_def)
  show "w_waiting_barrier (exit_lane g m w l) = None"
    using assms(3) by (simp add: exit_lane_def Let_def set_thread_def)
qed

lemma do_exit_keeps_inv:
  assumes "ctl_inv w" "w_waiting_barrier w = None"
  shows "ctl_inv (do_exit g m w) \<and> w_waiting_barrier (do_exit g m w) = None"
proof -
  have "\<forall>l \<in> set ls. l < 32 \<Longrightarrow> ctl_inv (foldl (exit_lane g m) w ls) \<and> w_waiting_barrier (foldl (exit_lane g m) w ls) = None" for ls
    by (induction ls rule: rev_induct) (auto simp: assms exit_lane_keeps_inv)
  then show ?thesis by (simp add: do_exit_def)
qed

lemma resume_warp_keeps_inv:
  assumes "ctl_inv w"
  shows "ctl_inv (resume_warp w)"
proof -
  have p: "pre_inv w" using assms by (simp add: ctl_inv_def)
  have N: "w_threads (resume_warp w) ! l = (if t_exited (w_threads w ! l) then w_threads w ! l else (w_threads w ! l)\<lparr>t_active := True\<rparr>)"
    if "l < 32" for l using that pre_invD(1) [OF p] by (simp add: resume_warp_def)
  have ex: "t_exited (w_threads (resume_warp w) ! l) = t_exited (w_threads w ! l)" if "l < 32" for l
    using N [OF that] by simp
  have "pre_inv (resume_warp w)"
  proof (rule pre_invI)
    show "entry_sub (resume_warp w) e" if "e \<in> set (w_sync_stack (resume_warp w))" for e
      using pre_invD(3) [OF p, of e] that by (simp add: entry_sub_def ex) (simp add: resume_warp_def)
  qed (use pre_invD [OF p] N in \<open>auto simp: resume_warp_def split: if_splits\<close>)
  then show ?thesis using assms by (simp add: ctl_inv_def resume_warp_def)
qed

lemma release_warp_keeps_inv: "ctl_inv w \<Longrightarrow> ctl_inv (release_warp bid w)"
  by (simp add: release_warp_def resume_warp_keeps_inv)

lemma park_warp_fields [simp]:
  "w_sync_stack (park_warp bid w) = w_sync_stack w" "w_waiting_barrier (park_warp bid w) = Some bid"
  "w_done (park_warp bid w) = w_done w" "length (w_threads (park_warp bid w)) = length (w_threads w)"
  "w_warp_id (park_warp bid w) = w_warp_id w"
  by (simp_all add: park_warp_def)

lemma park_warp_nth:
  "l < length (w_threads w) \<Longrightarrow> w_threads (park_warp bid w) ! l =
    (if t_active (w_threads w ! l) \<and> \<not> t_exited (w_threads w ! l) then (w_threads w ! l)\<lparr>t_active := False\<rparr> else w_threads w ! l)"
  by (simp add: park_warp_def)

lemma park_warp_keeps_inv:
  assumes "ctl_inv w" "k < 32" "\<not> t_exited (w_threads w ! k)"
  shows "ctl_inv (park_warp bid w)"
proof -
  have p: "pre_inv w" using assms by (simp add: ctl_inv_def)
  note N = park_warp_nth [of _ w, unfolded pre_invD(1) [OF p]]
  have ex: "t_exited (w_threads (park_warp bid w) ! l) = t_exited (w_threads w ! l)" if "l < 32" for l
    using N [OF that] by simp
  have "pre_inv (park_warp bid w)"
  proof (rule pre_invI)
    show "entry_sub (park_warp bid w) e" if "e \<in> set (w_sync_stack (park_warp bid w))" for e
      using pre_invD(3) [OF p, of e] that by (simp add: entry_sub_def ex)
    show "\<not> t_active (w_threads (park_warp bid w) ! l)" if "l < 32" "t_exited (w_threads (park_warp bid w) ! l)" for l
      using pre_invD(2) [OF p that(1)] that(2) ex [OF that(1)] N [OF that(1)] by simp
    show "\<exists>l < 32. \<not> t_exited (w_threads (park_warp bid w) ! l)" using assms(2,3) ex by blast
    show "t_exited (w_threads (park_warp bid w) ! l)" if "w_done (park_warp bid w)" "l < 32" for l
      using pre_invD(6) [OF p] that ex by simp
  qed (simp_all add: pre_invD(1) [OF p])
  then show ?thesis using assms by (simp add: ctl_inv_def)
qed

lemma do_bar_keeps_inv:
  assumes "\<forall>w \<in> set (c_warps c). ctl_inv w" "wi < length (c_warps c)" "l < 32" "\<not> t_exited (w_threads (c_warps c ! wi) ! l)"
  shows "\<forall>w \<in> set (c_warps (fst (do_bar env race_on bid wi c))). ctl_inv w"
proof -
  have "ctl_inv (park_warp bid (c_warps c ! wi))"
    using park_warp_keeps_inv [OF _ assms(3,4)] assms(1,2) by simp
  then show ?thesis
    using assms(1) release_warp_keeps_inv set_update_subset_insert [of "c_warps c" wi "park_warp bid (c_warps c ! wi)"]
    by (auto simp: do_bar_def Let_def)
qed

end
