(* ===== verification/Warp_Safety.thy ===== *)
theory Warp_Safety
  imports Warp_Facts
begin

text \<open>
  What the control instructions promise: the exact outcome of a BSYNC, of a named barrier and
  of the checked branch-target arithmetic.
\<close>

subsection \<open>Reconvergence\<close>

lemma filter_update:
  assumes "\<forall>x \<in> set xs. \<not> P x" "i < length xs"
  shows "filter P (xs[i := y]) = (if P y then [y] else [])"
    and "filter (\<lambda>x. \<not> P x) (xs[i := y]) = (if P y then erase_at i xs else xs[i := y])"
proof -
  have n: "\<forall>x \<in> set (take i xs). \<not> P x" "\<forall>x \<in> set (drop (Suc i) xs). \<not> P x"
    using assms(1) by (meson in_set_takeD in_set_dropD)+
  have e: "filter P (take i xs) = []" "filter P (drop (Suc i) xs) = []"
    "filter (\<lambda>x. \<not> P x) (take i xs) = take i xs" "filter (\<lambda>x. \<not> P x) (drop (Suc i) xs) = drop (Suc i) xs"
    using n by (simp_all add: filter_empty_conv)
  show "filter P (xs[i := y]) = (if P y then [y] else [])"
    and "filter (\<lambda>x. \<not> P x) (xs[i := y]) = (if P y then erase_at i xs else xs[i := y])"
    using e by (simp_all add: upd_conv_take_nth_drop [OF assms(2)] erase_at_def)
qed

text \<open>The entry after the lanes of \<open>m\<close> have arrived.\<close>

definition arrive_at :: "u32 \<Rightarrow> SyncEntry \<Rightarrow> SyncEntry" where
  "arrive_at m e = e\<lparr>se_pending := se_pending e AND NOT (m AND se_pending e), se_arrived := se_arrived e OR (m AND se_pending e)\<rparr>"

lemma arrive_at_complete: "se_pending (arrive_at m e) = 0 \<longleftrightarrow> se_pending e AND NOT m = 0"
proof -
  have "se_pending (arrive_at m e) = se_pending e AND NOT m"
    by (rule bit_word_eqI) (auto simp: arrive_at_def bit_simps)
  then show ?thesis by simp
qed

lemma do_bsync_result:
  assumes "find_last (\<lambda>e. se_barrier_register e = barreg) (w_sync_stack w) = Some i"
  shows "do_bsync barreg pc m w = (None, converge_completed_sync (suspend_lanes (m AND se_pending (w_sync_stack w ! i))
    (w\<lparr>w_sync_stack := (w_sync_stack w)[i := arrive_at m (w_sync_stack w ! i)]\<rparr>)))"
  using assms by (simp add: do_bsync_def arrive_at_def Let_def)

text \<open>C7: A BSYNC by the last lanes an entry waits for reconverges it: the entry is popped, every
  participating lane that has not exited becomes active at the instruction after the reconvergence
  point and every other lane is untouched. An earlier BSYNC only suspends the arriving lanes and
  moves them from pending to arrived.\<close>

theorem bsync_reconverges_on_last_arrival:
  assumes inv_w: "ctl_inv w" and i: "find_last (\<lambda>e. se_barrier_register e = barreg) (w_sync_stack w) = Some i"
    and l: "l < 32"
  shows "let e = w_sync_stack w ! i; t = w_threads w ! l; w' = snd (do_bsync barreg pc m w)
    in fst (do_bsync barreg pc m w) = None \<and>
       (if se_pending e AND NOT m = 0
        then w_sync_stack w' = erase_at i (w_sync_stack w) \<and>
             w_threads w' ! l = (if bit (se_participating e) l \<and> \<not> t_exited t
                                 then t\<lparr>t_active := True, t_pc := se_reconverge_pc e + 16\<rparr> else t)
        else w_sync_stack w' = (w_sync_stack w)[i := e\<lparr>se_pending := se_pending e AND NOT (m AND se_pending e),
                                                        se_arrived := se_arrived e OR (m AND se_pending e)\<rparr>] \<and>
             w_threads w' ! l = (if bit (m AND se_pending e) l then t\<lparr>t_active := False\<rparr> else t))"
proof -
  let ?e = "w_sync_stack w ! i" and ?t = "w_threads w ! l" and ?a = "m AND se_pending (w_sync_stack w ! i)"
  have p: "pre_inv w" and nz: "\<forall>e \<in> set (w_sync_stack w). \<not> se_pending e = 0" using inv_w by (auto simp: ctl_inv_def)
  note len = pre_invD(1) [OF p] and il = find_lastD(1) [OF i]
  note F = filter_update [OF nz il, of "arrive_at m ?e", unfolded arrive_at_complete]
  have sub: "entry_sub w ?e" by (rule pre_invD(3) [OF p nth_mem [OF il]])
  let ?w = "suspend_lanes ?a (w\<lparr>w_sync_stack := (w_sync_stack w)[i := arrive_at m ?e]\<rparr>)"
  have T: "w_threads ?w ! l = (if bit ?a l then ?t\<lparr>t_active := False\<rparr> else ?t)"
    using suspend_lanes_nth [OF l] len by simp
  have arr: "bit ?a l \<Longrightarrow> bit (se_participating ?e) l \<and> \<not> t_exited ?t"
    using entry_subD(1) [OF sub, of l] by (simp add: bit_and_iff)
  have part: "se_participating (arrive_at m ?e) = se_participating ?e" "se_reconverge_pc (arrive_at m ?e) = se_reconverge_pc ?e"
    by (simp_all add: arrive_at_def)
  have C: "w_threads (converge_entry (arrive_at m ?e) ?w) ! l = (if bit (se_participating ?e) l \<and> \<not> t_exited ?t
      then ?t\<lparr>t_active := True, t_pc := se_reconverge_pc ?e + 16\<rparr> else ?t)"
    using converge_entry_nth [of l ?w "arrive_at m ?e"] l len arr
    by (simp add: T converge_thread_def lane_in_bit part)
  show ?thesis
    using C T F by (simp add: do_bsync_result [OF i] converge_completed_eq Let_def arrive_at_def)
qed

subsection \<open>Named barriers\<close>

definition arrivals :: "u64 \<Rightarrow> nat \<Rightarrow> CtaState \<Rightarrow> nat list" where
  "arrivals bid wi c =
     (let bar = om_at new_barrier (c_barriers c) (ucast bid); id = w_warp_id (c_warps c ! wi)
      in if id \<in> set (nb_arrived bar) then nb_arrived bar else nb_arrived bar @ [id])"

lemma do_bar_warps:
  "c_warps (fst (do_bar env race_on bid wi c)) =
     (if block_warps env \<le> length (arrivals bid wi c) then map (release_warp bid) (c_warps c)
      else (c_warps c)[wi := park_warp bid (c_warps c ! wi)])"
  by (simp add: do_bar_def arrivals_def Let_def)


subsection \<open>Branch targets\<close>

definition exact_target :: "BranchOp \<Rightarrow> u64 \<Rightarrow> ThreadState \<Rightarrow> int" where
  "exact_target bop pc t =
     (case bop of
        OpBRA imm \<Rightarrow> uint pc + 16 + 4 * sint imm
      | OpJMP imm \<Rightarrow> 4 * sint imm
      | OpBSSY sa \<Rightarrow> 4 * sint sa
      | OpBRX ra off \<Rightarrow> uint pc + 16 + sint (reg_pair t ra) + 4 * sint off
      | OpJMX ra off \<Rightarrow> uint pc + sint (reg_pair t ra) + 4 * sint off)"

fun direct :: "BranchOp \<Rightarrow> bool" where
  "direct (OpBRX ra off) = False"
| "direct (OpJMX ra off) = False"
| "direct bop = True"

lemma checked_sadd_Some: "checked_sadd a b = Some c \<Longrightarrow> c = a + b"
  by (auto simp: checked_sadd_def split: if_splits)

lemma checked_mul4_Some: "checked_mul4 a = Some c \<Longrightarrow> c = 4 * a"
  by (auto simp: checked_mul4_def split: if_splits)

lemma sint_u64_bounds: "- (2 ^ 63) \<le> sint (x :: u64)" "sint (x :: u64) < 2 ^ 63"
  using sint_greater_eq [of x] sint_less [of x] by simp_all

lemma sint_small: "uint (x :: u64) < 2 ^ 63 \<Longrightarrow> sint x = uint x"
  by (simp add: sint_uint signed_take_bit_eq_if_positive bit_iff_odd take_bit_int_eq_self zdiv_eq_0_iff)

lemma in_text_iff:
  "in_text ts z = Some v \<longleftrightarrow> z mod 16 = 0 \<and> 0 \<le> z \<and> z < sint ts \<and> uint v = z"
proof -
  have "0 \<le> z \<and> z < sint ts \<Longrightarrow> uint (word_of_int z :: u64) = z"
    using sint_u64_bounds(2) [of ts] by (simp add: uint_word_of_int)
  then show ?thesis by (auto simp: in_text_def)
qed

lemma branch_target_sound:
  assumes "uint pc < 2 ^ 63" "branch_target ts bop pc t = Some v"
  shows "uint v = exact_target bop pc t \<and> exact_target bop pc t mod 16 = 0 \<and> exact_target bop pc t < sint ts"
  using assms sint_small [of pc]
  by (auto simp: branch_target_def exact_target_def rel_target_def abs_target_def reg_target_def in_text_iff
      split: BranchOp.splits option.splits if_splits dest!: checked_sadd_Some checked_mul4_Some)

lemma direct_target_found:
  assumes "uint pc < 2 ^ 63 - 16" "direct bop" "0 \<le> exact_target bop pc t" "exact_target bop pc t < sint ts"
    "exact_target bop pc t mod 16 = 0"
  shows "branch_target ts bop pc t \<noteq> None"
proof -
  have pc: "sint pc = uint pc" "0 \<le> uint pc" using assms(1) sint_small [of pc] by auto
  have T: "exact_target bop pc t < 2 ^ 63" using assms(4) sint_u64_bounds(2) [of ts] by simp
  have I: "in_text ts (exact_target bop pc t) \<noteq> None" using assms by (simp add: in_text_def)
  have rel: "rel_target pc imm = Some (uint pc + 16 + 4 * sint imm)" if "bop = OpBRA imm" for imm
    using assms(1,3) T that pc
    by (auto simp: rel_target_def checked_mul4_def checked_sadd_def exact_target_def INT64_MAX_def INT64_MIN_def)
      (use pc(2) in linarith)
  have abs: "abs_target imm = Some (4 * sint imm)" if "0 \<le> sint imm" "4 * sint imm < 2 ^ 63" for imm
    using that by (auto simp: abs_target_def checked_mul4_def INT64_MAX_def INT64_MIN_def)
  show ?thesis
  proof (cases bop)
    case (OpBRA imm)
    then show ?thesis using I rel by (simp add: branch_target_def exact_target_def)
  next
    case (OpJMP imm)
    then show ?thesis using I T assms(3) abs [of imm] by (simp add: branch_target_def exact_target_def)
  next
    case (OpBSSY imm)
    then show ?thesis using I T assms(3) abs [of imm] by (simp add: branch_target_def exact_target_def)
  qed (use assms(2) in auto)
qed

text \<open>C14: A resolved branch target is the exact integer sum its mnemonic denotes, is aligned to an
  instruction and lies in the kernel text: no wrapped sum is ever taken for a target. A direct branch
  resolves exactly when its integer target is such an address.\<close>

theorem branch_target_is_exact:
  assumes "uint pc < 2 ^ 63 - 16"
  shows "(case branch_target ts bop pc t of
        Some v \<Rightarrow> uint v = exact_target bop pc t \<and> uint v mod 16 = 0 \<and> uint v < sint ts
      | None \<Rightarrow> direct bop \<longrightarrow> \<not> (0 \<le> exact_target bop pc t \<and> exact_target bop pc t < sint ts \<and> exact_target bop pc t mod 16 = 0))"
  using branch_target_sound [of pc ts bop t] direct_target_found [OF assms, of bop t ts] assms
  by (auto split: option.splits)

subsection \<open>Examples\<close>

text \<open>A full warp at one reconvergence entry that waits for lane 0 alone; lane 1 has arrived.\<close>

definition wait_entry :: SyncEntry where
  "wait_entry = \<lparr>se_return_pc = 16, se_reconverge_pc = 64, se_barrier_register = 2, se_participating = 3, se_pending = 1, se_arrived = 2\<rparr>"

definition sync_thread :: "nat \<Rightarrow> ThreadState" where
  "sync_thread l = new_thread\<lparr>t_active := (l = 0), t_exited := (l > 1)\<rparr>"

definition sync_warp :: WarpState where
  "sync_warp = \<lparr>w_warp_id = 0, w_cta_id = 0, w_local_cta_id = 0, w_ur = [], w_upred = [],
     w_threads = map sync_thread [0..<32], w_sync_stack = [wait_entry], w_local = [],
     w_active_lanes = 3, w_done = False, w_waiting_barrier = None\<rparr>"

lemma sync_warp_inv: "ctl_inv sync_warp"
proof -
  have b: "bit (2 :: int) l \<longleftrightarrow> l = 1" "bit (3 :: int) l \<longleftrightarrow> l = 0 \<or> l = 1" for l
  proof -
    have "(3 :: int) = Bit_Operations.mask 2" by (simp add: mask_eq_exp_minus_1)
    then have "bit (3 :: int) l \<longleftrightarrow> bit (Bit_Operations.mask 2 :: int) l" by simp
    then show "bit (2 :: int) l \<longleftrightarrow> l = 1" "bit (3 :: int) l \<longleftrightarrow> l = 0 \<or> l = 1"
      using bit_exp_iff [of 1 l, where 'a = int] by (auto simp: bit_mask_iff)
  qed
  have "pre_inv sync_warp"
    by (rule pre_invI) (auto simp: sync_warp_def sync_thread_def entry_sub_def wait_entry_def b bit_1_iff)
  then show ?thesis by (simp add: ctl_inv_def) (simp add: sync_warp_def wait_entry_def)
qed

theorem bsync_reconverges_on_last_arrival_witness:
  "w_sync_stack (snd (do_bsync 2 48 1 sync_warp)) = [] \<and>
   t_active (w_threads (snd (do_bsync 2 48 1 sync_warp)) ! 1) \<and> t_pc (w_threads (snd (do_bsync 2 48 1 sync_warp)) ! 1) = 80"
proof -
  have s: "find_last (\<lambda>e. se_barrier_register e = 2) (w_sync_stack sync_warp) = Some 0" by code_simp
  have "w_sync_stack sync_warp ! 0 = wait_entry" "w_sync_stack sync_warp = [wait_entry]" by (simp_all add: sync_warp_def)
  moreover have "bit (3 :: u32) 1" by (simp add: bit_iff_odd)
  moreover have "\<not> t_exited (w_threads sync_warp ! 1)" by (simp add: sync_warp_def sync_thread_def)
  ultimately show ?thesis
    using bsync_reconverges_on_last_arrival [OF sync_warp_inv s, of 1 48 1] by (simp add: Let_def wait_entry_def erase_at_def)
qed

text \<open>The same warp parked at barrier 5; the second warp arrives.\<close>

definition parked_cta :: CtaState where
  "parked_cta = \<lparr>c_cta_id = 0, c_shared = [], c_shared_base = 0,
     c_warps = [park_warp 5 sync_warp, sync_warp\<lparr>w_warp_id := 1\<rparr>],
     c_barriers = [(5, new_barrier\<lparr>nb_arrived := [0]\<rparr>)], c_scheduler_tick = 0, c_mbarriers = [], c_sb_group_count = [],
     c_async_groups = [], c_async_open = new_group\<rparr>"

definition two_warps :: LaunchEnv where
  "two_warps = \<lparr>le_grid = (1, 1, 1), le_block = (64, 1, 1), le_cluster = (1, 1, 1), le_sm_id = 0\<rparr>"


theorem branch_target_is_exact_witness:
  "branch_target 64 (OpBRA (- 4)) 32 new_thread = Some 32 \<and> uint (32 :: u64) = exact_target (OpBRA (- 4)) 32 new_thread"
proof -
  have b: "branch_target 64 (OpBRA (- 4)) 32 new_thread = Some 32" by code_simp
  then show ?thesis using branch_target_is_exact [of 32 "OpBRA (- 4)" new_thread 64] by simp
qed

end
