(* ===== verification/Int_Vector.thy ===== *)
theory Int_Vector
  imports Warp_State
begin

text \<open>
  The integer, bit, predicate and warp-collective handlers of the sm120 interpreter
  (\<open>src/interpreter/baseline/sm120/int_vector.cpp\<close>), the uniform-register handlers
  (\<open>scalar.cpp\<close>) and the special-register and shuffle handlers of
  \<open>memory.cpp\<close>. A handler takes the operands of its decoded struct; where the variant
  class selects between structs, a datatype has one constructor per struct.
\<close>

subsection \<open>Moves and additions\<close>

definition do_mov :: "u32 \<Rightarrow> OperandValue \<Rightarrow> OperandValue \<Rightarrow> WarpState \<Rightarrow> WarpState" where
  "do_mov m rd src w =
     (let hoisted = (if ov_kind src \<noteq> kRegister then src_value w (w_threads w ! 0) src else 0)
      in each_lane m (\<lambda>lane t.
           put_gpr (operand_value_as_i64 rd) (if ov_kind src = kRegister then src_value w t src else hoisted) t) w)"

definition do_iadd3 :: "u32 \<Rightarrow> OperandValue \<Rightarrow> OperandValue \<Rightarrow> OperandValue \<Rightarrow> OperandValue \<Rightarrow> WarpState \<Rightarrow> WarpState" where
  "do_iadd3 m rd ra b rc w =
     each_lane m (\<lambda>lane t.
       put_gpr (operand_value_as_i64 rd) (read_reg_ov t ra + src_value w t b + read_reg_ov t rc) t) w"

subsection \<open>ISETP\<close>

datatype IsetpShape =
    ISETP6 OperandValue OperandValue OperandValue OperandValue OperandValue u64 u64
  | ISETP5 OperandValue OperandValue OperandValue OperandValue OperandValue u64 u64
  | ISETP4 OperandValue OperandValue OperandValue u64
  | ISETP3 OperandValue OperandValue OperandValue u64

text \<open>Operands (Pu, Pv, Ra, 2nd, Pp, icmp, bop); the simple forms carry neither Pv and Pp nor bop.\<close>

fun isetp_roles :: "IsetpShape \<Rightarrow> OperandValue \<times> (OperandValue \<times> OperandValue) option \<times> OperandValue \<times> OperandValue \<times> u64 \<times> u64" where
  "isetp_roles (ISETP6 pu pv ra b pp icmp bop) = (pu, Some (pv, pp), ra, b, icmp, bop)"
| "isetp_roles (ISETP5 pu pv ra b pp icmp bop) = (pu, Some (pv, pp), ra, b, icmp, bop)"
| "isetp_roles (ISETP4 pu ra b icmp) = (pu, None, ra, b, icmp, 0)"
| "isetp_roles (ISETP3 pu ra b icmp) = (pu, None, ra, b, icmp, 0)"

definition icmp_value :: "u64 \<Rightarrow> u32 \<Rightarrow> u32 \<Rightarrow> bool" where
  "icmp_value icmp a b =
     (if icmp = 0 then False else if icmp = 1 then a < b else if icmp = 2 then a = b
      else if icmp = 3 then a \<le> b else if icmp = 4 then a > b else if icmp = 5 then a \<noteq> b
      else if icmp = 6 then a \<ge> b else if icmp = 7 then True else False)"

definition bop_value :: "u64 \<Rightarrow> bool \<Rightarrow> bool \<Rightarrow> bool" where
  "bop_value bop r p =
     (if bop = 0 then r \<and> p else if bop = 1 then r \<or> p else if bop = 2 then r \<noteq> p else r)"

definition put_pred :: "int \<Rightarrow> bool \<Rightarrow> ThreadState \<Rightarrow> ThreadState" where
  "put_pred p v t = (if p < 7 then t\<lparr>t_pred := (t_pred t)[nat p := v]\<rparr> else t)"

definition isetp_lane :: "WarpState \<Rightarrow> IsetpShape \<Rightarrow> ThreadState \<Rightarrow> ThreadState" where
  "isetp_lane w shape t =
     (case isetp_roles shape of (pu, rich, ra, b, icmp, bop) \<Rightarrow>
        let r = icmp_value icmp (read_reg_ov t ra) (src_value w t b);
            ppv = (case rich of None \<Rightarrow> True | Some (pv, pp) \<Rightarrow> pred_or True (read_pred_ov t pp));
            r = bop_value bop r ppv;
            t = put_pred (sint (ucast (operand_value_as_i64 pu) :: u32)) r t
        in case rich of None \<Rightarrow> t | Some (pv, pp) \<Rightarrow> put_pred (sint (operand_value_as_i64 pv)) (\<not> r) t)"

definition do_isetp :: "u32 \<Rightarrow> IsetpShape \<Rightarrow> WarpState \<Rightarrow> WarpState" where
  "do_isetp m shape w = each_lane m (\<lambda>lane t. isetp_lane w shape t) w"

subsection \<open>IMAD\<close>

text \<open>The roles every IMAD struct yields; one split has no third source.\<close>

record ImadShape =
  im_rd :: OperandValue
  im_a :: OperandValue
  im_b :: OperandValue
  im_c :: "OperandValue option"
  im_fmt :: u64
  im_subclass :: u8

definition im_is_x :: "ImadShape \<Rightarrow> bool" where "im_is_x s \<longleftrightarrow> im_subclass s AND 1 \<noteq> 0"
definition im_is_wide :: "ImadShape \<Rightarrow> bool" where "im_is_wide s \<longleftrightarrow> im_subclass s AND 2 \<noteq> 0"
definition im_is_hi :: "ImadShape \<Rightarrow> bool" where "im_is_hi s \<longleftrightarrow> im_subclass s AND 4 \<noteq> 0"

definition wide_product :: "u64 \<Rightarrow> u32 \<Rightarrow> u32 \<Rightarrow> u64" where
  "wide_product fmt a b = (if fmt \<noteq> 0 then word_of_int (sint a * sint b) else ucast a * ucast b)"

definition wide_addend :: "ThreadState \<Rightarrow> OperandValue option \<Rightarrow> u64" where
  "wide_addend t c =
     (case c of
        None \<Rightarrow> 0
      | Some ov \<Rightarrow>
          if ov_kind ov = kRegister then
            let r = operand_value_as_i64 ov
            in if r \<noteq> 255 \<and> r < 255 then pair64 (t_gpr t ! unat r) (t_gpr t ! (unat r + 1)) else 0
          else 0)"

definition imad_wide_lane :: "WarpState \<Rightarrow> ImadShape \<Rightarrow> ThreadState \<Rightarrow> ThreadState" where
  "imad_wide_lane w s t =
     (let result = wide_product (im_fmt s) (read_reg_ov t (im_a s)) (src_value w t (im_b s)) + wide_addend t (im_c s);
          rd = operand_value_as_i64 (im_rd s)
      in if rd = 255 \<or> rd \<ge> 256 then t
         else if im_is_hi s then t\<lparr>t_gpr := (t_gpr t)[unat rd := ucast (drop_bit 32 result)]\<rparr>
         else if rd + 1 \<ge> 256 then t
         else t\<lparr>t_gpr := (t_gpr t)[unat rd := ucast (result AND 0xffffffff), unat rd + 1 := ucast (drop_bit 32 result)]\<rparr>)"

definition imad_lane :: "WarpState \<Rightarrow> ImadShape \<Rightarrow> ThreadState \<Rightarrow> ThreadState" where
  "imad_lane w s t =
     (let a = read_reg_ov t (im_a s); b = src_value w t (im_b s);
          c = (case im_c s of None \<Rightarrow> 0 | Some ov \<Rightarrow> read_reg_ov t ov);
          rd = operand_value_as_i64 (im_rd s)
      in if operand_value_as_i64 (im_a s) = 255 then put_gpr rd c t else put_gpr rd (a * b + c) t)"

definition x_fault :: "string \<Rightarrow> string \<Rightarrow> u64 \<times> u64 \<Rightarrow> u32 \<Rightarrow> u64 \<Rightarrow> WarpState \<Rightarrow> Fault" where
  "x_fault mnemonic variant word m pc w =
     set_instruction word (set_active_mask m (set_pc pc (set_warp (word_of_nat (w_warp_id w))
       (mk_fault kUnsupportedInstruction
          (''instruction '' @ [CHR 0x27] @ mnemonic @ [CHR 0x27] @ '' ('' @ variant @
           '') X carry form is not implemented at pc '' @ show_u64 pc)))))"

definition do_imad :: "string \<Rightarrow> string \<Rightarrow> u64 \<times> u64 \<Rightarrow> u32 \<Rightarrow> u64 \<Rightarrow> ImadShape \<Rightarrow> WarpState \<Rightarrow> Fault option \<times> WarpState" where
  "do_imad mnemonic variant word m pc s w =
     (if im_is_x s then (Some (x_fault mnemonic variant word m pc w), w)
      else (None, each_lane m (\<lambda>lane t. if im_is_wide s then imad_wide_lane w s t else imad_lane w s t) w))"

subsection \<open>Predicates and collectives\<close>

definition p2r_value :: "(nat \<Rightarrow> bool) \<Rightarrow> u64 \<Rightarrow> u32 \<Rightarrow> u32 \<Rightarrow> u32" where
  "p2r_value pred ins base sel =
     (let shift = 8 * unat (ins AND 3)
      in foldl (\<lambda>out i.
           if \<not> lane_in sel i then out
           else if (if i = 7 then True else pred i) then out OR push_bit (i + shift) 1
           else out AND NOT (push_bit (i + shift) 1)) base [0..<8])"

definition do_p2r :: "u32 \<Rightarrow> OperandValue \<Rightarrow> OperandValue \<Rightarrow> OperandValue \<Rightarrow> u64 \<Rightarrow> WarpState \<Rightarrow> WarpState" where
  "do_p2r m rd ra b ins w =
     each_lane m (\<lambda>lane t. write_rd_ov rd (p2r_value ((!) (t_pred t)) ins (read_reg_ov t ra) (src_value w t b)) 0 False t) w"

definition vote_mask :: "u32 \<Rightarrow> OperandValue \<Rightarrow> WarpState \<Rightarrow> u32" where
  "vote_mask m pp w =
     foldl (\<lambda>all lane. if lane_in m lane \<and> pred_or False (read_pred_ov (w_threads w ! lane) pp)
              then all OR push_bit lane 1 else all) 0 [0..<32]"

definition popcount :: "u32 \<Rightarrow> nat" where
  "popcount v = length (filter (bit v) [0..<32])"

definition vote_result :: "u64 \<Rightarrow> u32 \<Rightarrow> u32 \<Rightarrow> bool" where
  "vote_result op all m =
     (let pop = popcount all
      in if op = 0 then pop = popcount m else if op = 1 then pop \<noteq> 0 else pop = popcount m \<or> pop = 0)"

definition do_vote :: "u32 \<Rightarrow> OperandValue \<Rightarrow> OperandValue \<Rightarrow> OperandValue \<Rightarrow> u64 \<Rightarrow> WarpState \<Rightarrow> WarpState" where
  "do_vote m rd pu pp op w =
     (let all = vote_mask m pp w; result = vote_result op all m
      in each_lane m (\<lambda>lane t. write_rd_ov rd all 0 False (write_pred_ov pu result t)) w)"

definition redux_op :: "u64 \<Rightarrow> u32 \<Rightarrow> u32 \<Rightarrow> u32" where
  "redux_op op acc v =
     (if op = 0 then acc AND v else if op = 1 then acc OR v else if op = 2 then acc XOR v
      else if op = 4 then (if v < acc then v else acc) else if op = 5 then (if v > acc then v else acc)
      else acc + v)"

fun redux_fold :: "u64 \<Rightarrow> u32 list \<Rightarrow> u32 option" where
  "redux_fold op [] = None"
| "redux_fold op (v # vs) = Some (foldl (redux_op op) v vs)"

definition do_redux :: "u32 \<Rightarrow> OperandValue \<Rightarrow> OperandValue \<Rightarrow> u64 \<Rightarrow> WarpState \<Rightarrow> WarpState" where
  "do_redux m urd ra op w =
     (case redux_fold op (map (\<lambda>lane. read_reg_ov (w_threads w ! lane) ra) (filter (lane_in m) [0..<32])) of
        None \<Rightarrow> w
      | Some acc \<Rightarrow> let r = operand_value_as_i64 urd in if r < 64 then put_ur r acc w else w)"

subsection \<open>Three-input logic\<close>

definition lut_value :: "u32 \<Rightarrow> u32 \<Rightarrow> u32 \<Rightarrow> u32 \<Rightarrow> u32" where
  "lut_value lut a b c =
     foldl (\<lambda>out n.
       let idx = (if bit a n then 4 else 0) + (if bit b n then 2 else 0) + (if bit c n then 1 else 0)
       in if bit lut idx then out OR push_bit n 1 else out) 0 [0..<32]"

definition lut_core :: "u32 \<Rightarrow> u32 \<Rightarrow> OperandValue \<Rightarrow> OperandValue \<Rightarrow> OperandValue \<Rightarrow> OperandValue option \<Rightarrow> WarpState \<Rightarrow> WarpState" where
  "lut_core m lut rd ra b c3 w =
     each_lane m (\<lambda>lane t.
       write_rd_ov rd (lut_value lut (read_reg_ov t ra) (src_value w t b)
         (case c3 of None \<Rightarrow> 0 | Some ov \<Rightarrow> read_reg_ov t ov)) 0 False t) w"

text \<open>The structs of LOP3: with a truth table and third source, or without either.\<close>

datatype Lop3Shape = LOP3_LUT OperandValue OperandValue OperandValue OperandValue OperandValue
  | LOP3_PLAIN OperandValue OperandValue OperandValue

fun do_lop3 :: "u32 \<Rightarrow> Lop3Shape \<Rightarrow> WarpState \<Rightarrow> WarpState" where
  "do_lop3 m (LOP3_LUT rd ra b rc imm8) w = lut_core m (ucast (operand_value_as_i64 imm8)) rd ra b (Some rc) w"
| "do_lop3 m (LOP3_PLAIN rd ra b) w = lut_core m 0 rd ra b None w"

definition lop_lut :: "u64 \<Rightarrow> u32" where
  "lop_lut lop = (if lop = 0 then 0x80 else if lop = 1 then 0xfe else if lop = 2 then 0x96 else if lop = 3 then 0xcc else 0)"

definition do_lop :: "u32 \<Rightarrow> u64 \<Rightarrow> OperandValue \<Rightarrow> OperandValue \<Rightarrow> OperandValue \<Rightarrow> WarpState \<Rightarrow> WarpState" where
  "do_lop m lop rd ra b w = lut_core m (lop_lut lop) rd ra b None w"

subsection \<open>Shifts, extrema, address arithmetic\<close>

definition shf_value :: "u64 \<Rightarrow> u64 \<Rightarrow> u32 \<Rightarrow> u32 \<Rightarrow> u32 \<Rightarrow> u32" where
  "shf_value dir hilo a b c =
     (let sh = unat (b AND 0x1f)
      in if dir = 0 then
           if hilo = 0 then (if sh = 0 then a else push_bit sh a)
           else (if sh = 0 then c else push_bit sh c OR drop_bit (32 - sh) a)
         else
           if hilo = 0 then (if sh = 0 then a else push_bit (32 - sh) c OR drop_bit sh a)
           else (if sh = 0 then c else drop_bit sh c))"

definition do_shf :: "u32 \<Rightarrow> OperandValue \<Rightarrow> OperandValue \<Rightarrow> OperandValue \<Rightarrow> OperandValue \<Rightarrow> u64 \<Rightarrow> u64 \<Rightarrow> WarpState \<Rightarrow> WarpState" where
  "do_shf m rd ra b c dir hilo w =
     each_lane m (\<lambda>lane t.
       write_rd_ov rd (shf_value dir hilo (read_reg_ov t ra) (src_value w t b) (read_reg_ov t c)) 0 False t) w"

definition iabs_value :: "u32 \<Rightarrow> u32" where
  "iabs_value b = (if b AND 0x80000000 \<noteq> 0 then (if b = 0x80000000 then b else NOT b + 1) else b)"

definition do_iabs :: "u32 \<Rightarrow> OperandValue \<Rightarrow> OperandValue \<Rightarrow> WarpState \<Rightarrow> WarpState" where
  "do_iabs m rd b w = each_lane m (\<lambda>lane t. write_rd_ov rd (iabs_value (src_value w t b)) 0 False t) w"

definition imnmx_value :: "bool \<Rightarrow> u32 \<Rightarrow> u32 \<Rightarrow> u32" where
  "imnmx_value do_min a b =
     (if do_min then (if sint a < sint b then a else b) else (if sint a > sint b then a else b))"

definition do_imnmx :: "u32 \<Rightarrow> OperandValue \<Rightarrow> OperandValue \<Rightarrow> OperandValue \<Rightarrow> OperandValue \<Rightarrow> WarpState \<Rightarrow> WarpState" where
  "do_imnmx m rd ra b pp w =
     each_lane m (\<lambda>lane t.
       write_rd_ov rd (imnmx_value (pred_or True (read_pred_ov t pp)) (read_reg_ov t ra) (src_value w t b)) 0 False t) w"

definition do_iscadd :: "u32 \<Rightarrow> OperandValue \<Rightarrow> OperandValue \<Rightarrow> OperandValue \<Rightarrow> OperandValue \<Rightarrow> WarpState \<Rightarrow> WarpState" where
  "do_iscadd m rd ra b scale w =
     each_lane m (\<lambda>lane t.
       write_rd_ov rd (read_reg_ov t ra + push_bit (unat (operand_value_as_i64 scale AND 0x1f)) (src_value w t b)) 0 False t) w"

definition lea_value :: "u64 \<Rightarrow> u64 \<Rightarrow> u32 \<Rightarrow> u32 \<Rightarrow> u32 \<Rightarrow> u32" where
  "lea_value hilo scale a b c =
     (let total = push_bit (unat (scale AND 0x1f)) (ucast a :: u64) + ucast b + (if hilo \<noteq> 0 then ucast c else 0)
      in if hilo = 0 then ucast (total AND 0xffffffff) else ucast (drop_bit 32 total))"

definition do_lea :: "u32 \<Rightarrow> OperandValue \<Rightarrow> OperandValue \<Rightarrow> OperandValue \<Rightarrow> OperandValue option \<Rightarrow> OperandValue \<Rightarrow> u64 \<Rightarrow> WarpState \<Rightarrow> WarpState" where
  "do_lea m rd ra b c scale hilo w =
     each_lane m (\<lambda>lane t.
       write_rd_ov rd (lea_value hilo (operand_value_as_i64 scale) (read_reg_ov t ra) (src_value w t b)
         (case c of None \<Rightarrow> 0 | Some ov \<Rightarrow> read_reg_ov t ov)) 0 False t) w"

subsection \<open>Bit operations\<close>

definition leading_one :: "u32 \<Rightarrow> nat option" where
  "leading_one v = List.find (bit v) (rev [0..<32])"

definition flo_value :: "u32 \<Rightarrow> u32" where
  "flo_value v = (case leading_one v of None \<Rightarrow> 0xffffffff | Some n \<Rightarrow> word_of_nat n)"

definition bmsk_value :: "bool \<Rightarrow> u32 \<Rightarrow> u32 \<Rightarrow> u32" where
  "bmsk_value wrap pos width =
     (let pos = (if wrap then pos AND 31 else pos); width = (if wrap then width AND 31 else width)
      in if pos \<ge> 32 then 0 else if width = 0 then 0
         else if width \<ge> 32 then push_bit (unat pos) (- 1)
         else push_bit (unat pos) (push_bit (unat width) 1 - 1))"

definition prmt_byte :: "u32 \<Rightarrow> u32 \<Rightarrow> nat \<Rightarrow> u32" where
  "prmt_byte a sel i =
     (let c = drop_bit (4 * i) sel AND 0xf
      in if c AND 8 \<noteq> 0 then push_bit (8 * i) (if c AND 4 \<noteq> 0 then 0xff else 0)
         else push_bit (8 * i) (drop_bit (unat (c AND 3) * 8) a AND 0xff))"

definition prmt_value :: "u32 \<Rightarrow> u32 \<Rightarrow> u32" where
  "prmt_value a sel = foldl (\<lambda>out i. out OR prmt_byte a sel i) 0 [0..<4]"

definition bitop_value :: "nat \<Rightarrow> u64 \<Rightarrow> u32 \<Rightarrow> u32 \<Rightarrow> u32" where
  "bitop_value mode cw a b =
     (if mode = 0 then word_of_nat (popcount a) else if mode = 1 then flo_value a
      else if mode = 2 then bmsk_value (cw \<noteq> 0) a b else prmt_value a b)"

definition bitops_core :: "u32 \<Rightarrow> u64 \<Rightarrow> nat \<Rightarrow> OperandValue \<Rightarrow> OperandValue \<Rightarrow> OperandValue option \<Rightarrow> WarpState \<Rightarrow> WarpState" where
  "bitops_core m cw mode rd a b w =
     each_lane m (\<lambda>lane t.
       write_rd_ov rd (bitop_value mode cw (read_reg_ov t a) (case b of None \<Rightarrow> 0 | Some ov \<Rightarrow> src_value w t ov)) 0 False t) w"

definition do_popc :: "u32 \<Rightarrow> OperandValue \<Rightarrow> OperandValue \<Rightarrow> WarpState \<Rightarrow> WarpState" where
  "do_popc m rd b w = bitops_core m 0 0 rd b None w"
definition do_flo :: "u32 \<Rightarrow> OperandValue \<Rightarrow> OperandValue \<Rightarrow> WarpState \<Rightarrow> WarpState" where
  "do_flo m rd b w = bitops_core m 0 1 rd b None w"
definition do_bmsk :: "u32 \<Rightarrow> u64 \<Rightarrow> OperandValue \<Rightarrow> OperandValue \<Rightarrow> OperandValue \<Rightarrow> WarpState \<Rightarrow> WarpState" where
  "do_bmsk m cw rd ra b w = bitops_core m cw 2 rd ra (Some b) w"
definition do_prmt :: "u32 \<Rightarrow> OperandValue \<Rightarrow> OperandValue \<Rightarrow> OperandValue \<Rightarrow> OperandValue \<Rightarrow> WarpState \<Rightarrow> WarpState" where
  "do_prmt m rd ra b c w = bitops_core m 0 3 rd ra (Some b) w"

subsection \<open>Uniform registers\<close>

definition do_umov :: "OperandValue \<Rightarrow> OperandValue \<Rightarrow> u8 \<Rightarrow> WarpState \<Rightarrow> WarpState" where
  "do_umov urd b subclass w =
     (let u = operand_value_as_i64 urd; v = operand_value_as_i64 b
      in if u = 255 \<or> u \<ge> 64 then w
         else
           let w = put_ur u (ucast v) w
           in if subclass AND 8 \<noteq> 0 \<and> u + 1 < 64 then put_ur (u + 1) (ucast (drop_bit 32 v)) w else w)"

definition neg_if :: "bool \<Rightarrow> u32 \<Rightarrow> u32" where
  "neg_if n v = (if n then NOT v + 1 else v)"

definition do_uiadd3 :: "OperandValue \<Rightarrow> OperandValue \<Rightarrow> OperandValue \<Rightarrow> OperandValue \<Rightarrow> WarpState \<Rightarrow> WarpState" where
  "do_uiadd3 urd ura b urc w =
     (let u = operand_value_as_i64 urd
      in if u = 255 \<or> u \<ge> 64 then w
         else
           let av = (if ov_kind ura = kUniformRegister \<and> operand_value_as_i64 ura \<noteq> 255
                     then neg_if (ov_negate ura) (read_ur_ov w ura) else 0);
               bv = (if ov_kind b = kUniformRegister \<and> operand_value_as_i64 b \<noteq> 255 then read_ur_ov w b else 0);
               cv = (if ov_kind urc = kUniformRegister \<and> operand_value_as_i64 urc \<noteq> 255
                     then neg_if (ov_negate urc) (read_ur_ov w urc)
                     else if ov_kind b = kUImm \<or> ov_kind b = kSImm
                     then neg_if (ov_negate b) (ucast (operand_value_as_i64 b)) else 0)
           in put_ur u (av + bv + cv) w)"

definition do_ushf :: "OperandValue \<Rightarrow> OperandValue \<Rightarrow> OperandValue \<Rightarrow> u64 \<Rightarrow> WarpState \<Rightarrow> WarpState" where
  "do_ushf urd ura b word_hi w =
     (let u = operand_value_as_i64 urd
      in if u = 255 \<or> u \<ge> 64 then w
         else if ov_kind ura \<noteq> kUniformRegister then w
         else
           let a = read_ur_ov w ura;
               s = (if ov_kind b = kUImm \<or> ov_kind b = kSImm then ucast (operand_value_as_i64 b) else 0) :: u32;
               n = unat (s AND 31)
           in put_ur u (if drop_bit 12 word_hi AND 1 \<noteq> 0 then drop_bit n a else push_bit n a) w)"

subsection \<open>Special registers and shuffles\<close>

datatype SpecialReg = kTidX | kTidY | kTidZ | kCtaidX | kCtaidY | kCtaidZ | kLaneid | kWarpId | kWarpSize
  | kNtidX | kNtidY | kNtidZ | kNctaidX | kNctaidY | kNctaidZ | kSmId | kSmemBase | kClock | kClock64
  | kLaneMaskEq | kLaneMaskLt | kLaneMaskLe | kLaneMaskGt | kLaneMaskGe | kUndefined

definition special_reg :: "u64 \<Rightarrow> SpecialReg" where
  "special_reg v =
     (if v = 0 then kLaneid else if v = 1 then kClock
      else if v = 33 then kTidX else if v = 34 then kTidY else if v = 35 then kTidZ
      else if v = 37 then kCtaidX else if v = 38 then kCtaidY else if v = 39 then kCtaidZ
      else if v = 40 then kNtidX else if v = 41 then kWarpId else if v = 42 then kWarpSize
      else if v = 43 then kNctaidX else if v = 44 then kNctaidY else if v = 45 then kNctaidZ
      else if v = 46 then kSmId else if v = 47 then kSmemBase else kUndefined)"

text \<open>The dividends are C++ \<open>int\<close>s converted to the unsigned type of the divisor.\<close>

definition resolve_sr :: "SpecialReg \<Rightarrow> nat \<Rightarrow> nat \<Rightarrow> nat \<Rightarrow> LaunchEnv \<Rightarrow> u32" where
  "resolve_sr sr lane warp_id cta_id env =
     (let tid = word_of_nat (warp_id * 32 + lane) :: u32; cta = word_of_nat cta_id :: u32;
          (bx, by, bz) = le_block env; (gx, gy, gz) = le_grid env
      in case sr of
           kLaneid \<Rightarrow> word_of_nat lane
         | kTidX \<Rightarrow> tid mod bx
         | kTidY \<Rightarrow> (tid div bx) mod by
         | kTidZ \<Rightarrow> tid div (bx * by)
         | kCtaidX \<Rightarrow> cta mod gx
         | kCtaidY \<Rightarrow> (cta div gx) mod gy
         | kCtaidZ \<Rightarrow> cta div (gx * gy)
         | kNtidX \<Rightarrow> bx | kNtidY \<Rightarrow> by | kNtidZ \<Rightarrow> bz
         | kNctaidX \<Rightarrow> gx | kNctaidY \<Rightarrow> gy | kNctaidZ \<Rightarrow> gz
         | kWarpId \<Rightarrow> word_of_nat warp_id
         | kWarpSize \<Rightarrow> 32
         | kSmId \<Rightarrow> le_sm_id env
         | _ \<Rightarrow> 0)"

definition do_s2r :: "LaunchEnv \<Rightarrow> u32 \<Rightarrow> OperandValue \<Rightarrow> OperandValue \<Rightarrow> WarpState \<Rightarrow> WarpState" where
  "do_s2r env m rd sra w =
     each_lane m (\<lambda>lane t. t\<lparr>t_gpr := (t_gpr t)[unat (operand_value_as_i64 rd) :=
       resolve_sr (special_reg (operand_value_as_i64 sra)) lane (w_warp_id w) (w_cta_id w) env]\<rparr>) w"

definition do_s2ur :: "LaunchEnv \<Rightarrow> OperandValue \<Rightarrow> OperandValue \<Rightarrow> WarpState \<Rightarrow> WarpState" where
  "do_s2ur env urd sra w =
     put_ur (operand_value_as_i64 urd) (resolve_sr (special_reg (operand_value_as_i64 sra)) 0 (w_warp_id w) (w_cta_id w) env) w"

definition shfl_source :: "u64 \<Rightarrow> nat \<Rightarrow> u32 \<Rightarrow> u32 \<Rightarrow> int" where
  "shfl_source mode lane seg idx =
     (if mode = 0 then int (unat seg) + int (unat (idx AND 0x1f))
      else if mode = 1 then int lane - int (unat idx)
      else if mode = 2 then int lane + int (unat idx)
      else if mode = 3 then int (unat (word_of_nat lane XOR idx))
      else - 1)"

definition shfl_lane :: "u32 \<Rightarrow> u64 \<Rightarrow> u32 list \<Rightarrow> OperandValue \<Rightarrow> OperandValue \<Rightarrow> OperandValue \<Rightarrow> OperandValue \<Rightarrow> nat \<Rightarrow> ThreadState \<Rightarrow> ThreadState" where
  "shfl_lane m mode vals pu rd b c lane t =
     (let seg = (if ov_kind c = kRegister \<and> operand_value_as_i64 c \<noteq> 255 then read_reg_ov t c AND 0x1f else 0);
          idx = (if ov_kind b = kUImm \<or> ov_kind b = kSImm then ucast (operand_value_as_i64 b) AND 0x1f
                 else if ov_kind b = kRegister then read_reg_ov t b AND 0x1f else 0);
          src = shfl_source mode lane seg idx
      in if 0 \<le> src \<and> src < 32 \<and> lane_in m (nat src)
         then write_pred_ov pu True (write_rd_ov rd (vals ! nat src) 0 False t)
         else write_pred_ov pu False (write_rd_ov rd (vals ! lane) 0 False t))"

definition do_shfl :: "u32 \<Rightarrow> OperandValue \<Rightarrow> OperandValue \<Rightarrow> OperandValue \<Rightarrow> OperandValue \<Rightarrow> OperandValue \<Rightarrow> u64 \<Rightarrow> WarpState \<Rightarrow> WarpState" where
  "do_shfl m pu rd ra b c mode w =
     (let vals = map (\<lambda>t. read_reg_ov t ra) (w_threads w)
      in each_lane m (\<lambda>lane t. shfl_lane m mode vals pu rd b c lane t) w)"

end
