(* ===== verification/Execute.thy ===== *)
theory Execute
  imports Int_Vector Warp_Control Memory_Service
begin

text \<open>
  Dispatch of one dynamic warp instruction (\<open>Interpreter::execute_group\<close> of
  \<open>src/interpreter/baseline/sm120/core.cpp\<close>) and the construction of the initial CTA
  states. Control-flow mnemonics are dispatched to \<open>Warp_Control\<close>; the data handlers are an
  argument, instantiated with \<open>exec_alu\<close>, the integer and uniform subset of
  \<open>Int_Vector\<close>. \<open>Full_Machine\<close> adds the floating-point and memory
  instructions; the tensor family is not modelled.
\<close>

subsection \<open>The modelled data instructions\<close>

datatype AluInst =
    AMov OperandValue OperandValue
  | AIadd3 OperandValue OperandValue OperandValue OperandValue
  | AIsetp IsetpShape
  | AImad string ImadShape
  | AP2r OperandValue OperandValue OperandValue u64
  | AVote OperandValue OperandValue OperandValue u64
  | ARedux OperandValue OperandValue u64
  | ALop3 Lop3Shape
  | ALop u64 OperandValue OperandValue OperandValue
  | AShf OperandValue OperandValue OperandValue OperandValue u64 u64
  | AIabs OperandValue OperandValue
  | AImnmx OperandValue OperandValue OperandValue OperandValue
  | AIscadd OperandValue OperandValue OperandValue OperandValue
  | ALea OperandValue OperandValue OperandValue "OperandValue option" OperandValue u64
  | APopc OperandValue OperandValue
  | AFlo OperandValue OperandValue
  | ABmsk u64 OperandValue OperandValue OperandValue
  | APrmt OperandValue OperandValue OperandValue OperandValue
  | AUmov OperandValue OperandValue u8
  | AUiadd3 OperandValue OperandValue OperandValue OperandValue
  | AUshf OperandValue OperandValue OperandValue
  | AS2r OperandValue OperandValue
  | AS2ur OperandValue OperandValue
  | AShfl OperandValue OperandValue OperandValue OperandValue OperandValue u64
  | AElect OperandValue OperandValue OperandValue

fun exec_alu :: "LaunchEnv \<Rightarrow> AluInst \<Rightarrow> u64 \<times> u64 \<Rightarrow> u32 \<Rightarrow> u64 \<Rightarrow> WarpState \<Rightarrow> Fault option \<times> WarpState" where
  "exec_alu env (AMov rd src) word m pc w = (None, do_mov m rd src w)"
| "exec_alu env (AIadd3 rd ra b rc) word m pc w = (None, do_iadd3 m rd ra b rc w)"
| "exec_alu env (AIsetp s) word m pc w = (None, do_isetp m s w)"
| "exec_alu env (AImad variant s) word m pc w = do_imad ''IMAD'' variant word m pc s w"
| "exec_alu env (AP2r rd ra b ins) word m pc w = (None, do_p2r m rd ra b ins w)"
| "exec_alu env (AVote rd pu pp op) word m pc w = (None, do_vote m rd pu pp op w)"
| "exec_alu env (ARedux urd ra op) word m pc w = (None, do_redux m urd ra op w)"
| "exec_alu env (ALop3 s) word m pc w = (None, do_lop3 m s w)"
| "exec_alu env (ALop lop rd ra b) word m pc w = (None, do_lop m lop rd ra b w)"
| "exec_alu env (AShf rd ra b c dir hilo) word m pc w = (None, do_shf m rd ra b c dir hilo w)"
| "exec_alu env (AIabs rd b) word m pc w = (None, do_iabs m rd b w)"
| "exec_alu env (AImnmx rd ra b pp) word m pc w = (None, do_imnmx m rd ra b pp w)"
| "exec_alu env (AIscadd rd ra b scale) word m pc w = (None, do_iscadd m rd ra b scale w)"
| "exec_alu env (ALea rd ra b c scale hilo) word m pc w = (None, do_lea m rd ra b c scale hilo w)"
| "exec_alu env (APopc rd b) word m pc w = (None, do_popc m rd b w)"
| "exec_alu env (AFlo rd b) word m pc w = (None, do_flo m rd b w)"
| "exec_alu env (ABmsk cw rd ra b) word m pc w = (None, do_bmsk m cw rd ra b w)"
| "exec_alu env (APrmt rd ra b c) word m pc w = (None, do_prmt m rd ra b c w)"
| "exec_alu env (AUmov urd b sub) word m pc w = (None, do_umov urd b sub w)"
| "exec_alu env (AUiadd3 urd ura b urc) word m pc w = (None, do_uiadd3 urd ura b urc w)"
| "exec_alu env (AUshf urd ura b) word m pc w = (None, do_ushf urd ura b (snd word) w)"
| "exec_alu env (AS2r rd sra) word m pc w = (None, do_s2r env m rd sra w)"
| "exec_alu env (AS2ur urd sra) word m pc w = (None, do_s2ur env urd sra w)"
| "exec_alu env (AShfl pu rd ra b c mode) word m pc w = (None, do_shfl m pu rd ra b c mode w)"
| "exec_alu env (AElect pu urd src) word m pc w = (None, do_elect m pu urd src w)"

subsection \<open>Pre-decoded programs\<close>

datatype 'd Instr =
    IBranch BranchOp
  | IBssy u64 u32
  | IBsync u32
  | IExit
  | IBar u64
  | INop
  | IDepbar u64 u64 u64
  | ILdgdepbar nat
  | IData 'd
  | IUnsupported string string

record 'd PredecodedWord =
  pw_unique :: bool
  pw_reason :: string
  pw_word :: "u64 \<times> u64"
  pw_guard :: Guard
  pw_inst :: "'d Instr"

type_synonym 'd DataExec = "'d \<Rightarrow> u64 \<times> u64 \<Rightarrow> u32 \<Rightarrow> u64 \<Rightarrow> WarpState \<Rightarrow> Fault option \<times> WarpState"

subsection \<open>One dynamic instruction\<close>

definition advance_pcs :: "u64 \<Rightarrow> WarpState \<Rightarrow> WarpState" where
  "advance_pcs pc w = w\<lparr>w_threads :=
     map (\<lambda>t. if t_active t \<and> t_pc t = pc then t\<lparr>t_pc := pc + 16\<rparr> else t) (w_threads w)\<rparr>"

definition guard_mask :: "Guard \<Rightarrow> u32 \<Rightarrow> WarpState \<Rightarrow> u32" where
  "guard_mask g m w =
     (if g_pred g \<noteq> 7 then mask_of (\<lambda>lane. lane_in m lane \<and> guard_takes g (w_threads w ! lane)) else m)"

definition put_warp :: "nat \<Rightarrow> WarpState \<Rightarrow> CtaState \<Rightarrow> CtaState" where
  "put_warp wi w c = c\<lparr>c_warps := (c_warps c)[wi := w]\<rparr>"

definition unsupported_fault :: "string \<Rightarrow> string \<Rightarrow> u64 \<times> u64 \<Rightarrow> u32 \<Rightarrow> u64 \<Rightarrow> WarpState \<Rightarrow> Fault" where
  "unsupported_fault mnemonic variant word m pc w =
     set_instruction word (set_active_mask m (set_pc pc (set_warp (word_of_nat (w_warp_id w))
       (mk_fault kUnsupportedInstruction
          (''instruction '' @ [CHR 0x27] @ mnemonic @ [CHR 0x27] @ '' ('' @ variant @
           '') is decode-only and not yet implemented at pc 0x'' @ show_u64 pc)))))"

definition dispatch :: "'d DataExec \<Rightarrow> KernelText \<Rightarrow> LaunchEnv \<Rightarrow> bool \<Rightarrow> 'd PredecodedWord \<Rightarrow> u32 \<Rightarrow> u32 \<Rightarrow> u64 \<Rightarrow> nat \<Rightarrow> CtaState \<Rightarrow>
    Fault option \<times> CtaState \<times> nat list option" where
  "dispatch exec k env race_on pw m em pc wi c =
     (let w = c_warps c ! wi;
          warp_only = (\<lambda>(f, w'). (f, put_warp wi w' c, None))
      in case pw_inst pw of
           IBranch bop \<Rightarrow> warp_only (do_bra k (pw_guard pw) bop em pc w)
         | IBssy sa barreg \<Rightarrow> warp_only (do_bssy k (pw_guard pw) sa barreg pc em w)
         | IBsync barreg \<Rightarrow> warp_only (do_bsync barreg pc em w)
         | IExit \<Rightarrow> warp_only (None, do_exit (pw_guard pw) m w)
         | IBar bid \<Rightarrow> (case do_bar env race_on bid wi c of (c', ev) \<Rightarrow> (None, c', ev))
         | INop \<Rightarrow> (None, c, None)
         | IDepbar le sbidx cnt \<Rightarrow> (None, fst (do_depbar le sbidx cnt c), None)
         | ILdgdepbar wr \<Rightarrow> (None, do_ldgdepbar wr c, None)
         | IData d \<Rightarrow> warp_only (exec d (pw_word pw) em pc w)
         | IUnsupported mn var \<Rightarrow> (Some (unsupported_fault mn var (pw_word pw) em pc w), c, None))"

definition execute_warp :: "'d DataExec \<Rightarrow> KernelText \<Rightarrow> LaunchEnv \<Rightarrow> bool \<Rightarrow> 'd PredecodedWord \<Rightarrow> u32 \<Rightarrow> u64 \<Rightarrow> nat \<Rightarrow> CtaState \<Rightarrow>
    Fault option \<times> CtaState \<times> nat list option" where
  "execute_warp exec k env race_on pw m pc wi c =
     (let c = put_warp wi (advance_pcs pc (c_warps c ! wi)) c;
          em = guard_mask (pw_guard pw) m (c_warps c ! wi)
      in if g_pred (pw_guard pw) \<noteq> 7 \<and> em = 0 then (None, c, None)
         else dispatch exec k env race_on pw m em pc wi c)"

definition pc_fault :: "string \<Rightarrow> nat \<Rightarrow> u64 \<Rightarrow> Fault" where
  "pc_fault msg warp pc = set_pc pc (set_warp (word_of_nat warp) (mk_fault kInvalidInstruction msg))"

definition execute_group :: "'d DataExec \<Rightarrow> KernelText \<Rightarrow> 'd PredecodedWord list \<Rightarrow> LaunchEnv \<Rightarrow> bool \<Rightarrow>
    nat \<Rightarrow> nat \<Rightarrow> u64 \<Rightarrow> u32 \<Rightarrow> CtaState list \<Rightarrow> Fault option \<times> CtaState list \<times> nat list option" where
  "execute_group exec k prog env race_on ci warp pc m ctas =
     (if unat (pc div 16) \<ge> length prog then
        (Some (pc_fault (''pc 0x'' @ show_u64 pc @ '' outside kernel text'') warp pc), ctas, None)
      else
        let pw = prog ! unat (pc div 16)
        in if \<not> pw_unique pw then
             (Some (pc_fault (''word at pc 0x'' @ show_u64 pc @ '': '' @ pw_reason pw) warp pc), ctas, None)
           else
             case find_idx (\<lambda>w. w_warp_id w = warp) (c_warps (ctas ! ci)) of
               None \<Rightarrow> (None, ctas, None)
             | Some wi \<Rightarrow>
                 (case execute_warp exec k env race_on pw m pc wi (ctas ! ci) of
                    (f, c', ev) \<Rightarrow> (f, ctas[ci := c'], ev)))"

subsection \<open>Initial states\<close>

definition block_threads :: "LaunchEnv \<Rightarrow> u64" where
  "block_threads env = (case le_block env of (bx, by, bz) \<Rightarrow> ucast bx * ucast by * ucast bz)"

definition grid_ctas :: "LaunchEnv \<Rightarrow> u64" where
  "grid_ctas env = (case le_grid env of (gx, gy, gz) \<Rightarrow> ucast gx * ucast gy * ucast gz)"

definition init_thread :: "LaunchEnv \<Rightarrow> nat \<Rightarrow> nat \<Rightarrow> ThreadState" where
  "init_thread env warp lane =
     (if warp * 32 + lane < unat (block_threads env) then new_thread
      else new_thread\<lparr>t_active := False, t_exited := True\<rparr>)"

definition init_warp :: "LaunchEnv \<Rightarrow> nat \<Rightarrow> nat \<Rightarrow> nat \<Rightarrow> nat \<Rightarrow> WarpState" where
  "init_warp env local_size cta_id local_cta warp =
     \<lparr>w_warp_id = warp, w_cta_id = cta_id, w_local_cta_id = local_cta, w_ur = replicate 64 0, w_upred = replicate 8 False,
      w_threads = map (init_thread env warp) [0..<32], w_sync_stack = [],
      w_local = replicate (if local_size > 0 then local_size else 4096) 0,
      w_active_lanes = ucast (mask_of (\<lambda>lane. warp * 32 + lane < unat (block_threads env))),
      w_done = False, w_waiting_barrier = None\<rparr>"

text \<open>
  \<open>sh_size\<close> is the shared size the options or the kernel metadata ask for; a failed
  registration leaves the CTA without shared memory.
\<close>

definition init_cta :: "LaunchEnv \<Rightarrow> u64 \<Rightarrow> nat \<Rightarrow> nat \<Rightarrow> nat \<Rightarrow> MemoryService \<Rightarrow> CtaState \<times> MemoryService" where
  "init_cta env sh_size local_size cta_id local_cta ms =
     (let (reg, ms') = (if sh_size > 0 then register_cta_shared sh_size (word_of_nat cta_id) ms
                        else (failure (invalid_argument []), ms));
          (sh, base) = (case reg of Inr p \<Rightarrow> (replicate (unat sh_size) 0, p) | Inl _ \<Rightarrow> ([], 0))
      in (\<lparr>c_cta_id = cta_id, c_shared = sh, c_shared_base = base,
           c_warps = map (init_warp env local_size cta_id local_cta) [0..<block_warps env],
           c_barriers = [], c_scheduler_tick = 0, c_mbarriers = [], c_sb_group_count = replicate 6 0,
           c_async_groups = [], c_async_open = new_group\<rparr>, ms'))"

fun init_ctas :: "LaunchEnv \<Rightarrow> u64 \<Rightarrow> nat \<Rightarrow> nat list \<Rightarrow> nat \<Rightarrow> MemoryService \<Rightarrow> CtaState list \<times> MemoryService" where
  "init_ctas env sh_size local_size [] n ms = ([], ms)"
| "init_ctas env sh_size local_size (i # is) n ms =
     (case init_cta env sh_size local_size i n ms of
        (c, ms') \<Rightarrow> (case init_ctas env sh_size local_size is (Suc n) ms' of (cs, ms'') \<Rightarrow> (c # cs, ms'')))"

definition worker_ctas :: "LaunchEnv \<Rightarrow> nat \<Rightarrow> nat \<Rightarrow> nat list" where
  "worker_ctas env worker_id worker_count =
     filter (\<lambda>i. i mod worker_count = worker_id) [0..<unat (grid_ctas env)]"

end
