(* ===== verification/Scheduler.thy ===== *)
theory Scheduler
  imports Execute
begin

text \<open>
  The warp scheduler and the run loop of the sm120 interpreter
  (\<open>src/interpreter/baseline/sm120/core.cpp\<close>): the scan over CTAs, warps and program
  counters, round-robin selection, classification of a launch with nothing to run, the
  barrier-deadlock report, single stepping and \<open>run_owned\<close>. The trace, event and
  statistics fields of the result and the access list of a step frame are not modelled.
\<close>

subsection \<open>The scan\<close>

record Group =
  gr_cta :: nat
  gr_warp :: nat
  gr_pc :: u64
  gr_mask :: u32

record ScheduleScan =
  sc_groups :: "Group list"
  sc_any_runnable :: bool
  sc_any_barrier_wait :: bool
  sc_any_stalled :: bool

type_synonym ScheduleFilter = "nat \<Rightarrow> nat \<Rightarrow> bool"   \<comment> \<open>grid-linear CTA, warp\<close>

definition live :: "ThreadState \<Rightarrow> bool" where
  "live t \<longleftrightarrow> t_active t \<and> \<not> t_exited t"

definition by_pc :: "WarpState \<Rightarrow> (u64, u32) omap" where
  "by_pc w =
     foldl (\<lambda>mp lane. let t = w_threads w ! lane
              in if live t then om_put (t_pc t) (om_at 0 mp (t_pc t) OR push_bit lane 1) mp else mp) [] [0..<32]"

definition any_live :: "WarpState \<Rightarrow> bool" where
  "any_live w \<longleftrightarrow> (\<exists>lane \<in> set [0..<32]. live (w_threads w ! lane))"

definition any_sync_wait :: "WarpState \<Rightarrow> bool" where
  "any_sync_wait w \<longleftrightarrow> (\<exists>e \<in> set (w_sync_stack w). se_pending e \<noteq> 0 \<or> se_arrived e \<noteq> 0)"

definition all_exited :: "WarpState \<Rightarrow> bool" where
  "all_exited w \<longleftrightarrow> (\<forall>lane \<in> set [0..<32]. t_exited (w_threads w ! lane))"

definition scan_warp :: "ScheduleFilter option \<Rightarrow> nat \<Rightarrow> nat \<Rightarrow> nat \<Rightarrow> WarpState \<Rightarrow> ScheduleScan \<Rightarrow> WarpState \<times> ScheduleScan" where
  "scan_warp eligible cta_id ci wi w scan =
     (if w_done w then (w, scan)
      else if \<not> any_live w then
        if w_waiting_barrier w = None then
          if \<not> any_sync_wait w then ((if all_exited w then w\<lparr>w_done := True\<rparr> else w), scan)
          else (w, scan\<lparr>sc_any_stalled := True\<rparr>)
        else (w, scan\<lparr>sc_any_barrier_wait := True\<rparr>)
      else
        let passes = (case eligible of None \<Rightarrow> True | Some f \<Rightarrow> f cta_id (w_warp_id w));
            scan = scan\<lparr>sc_any_runnable := True\<rparr>
        in if \<not> passes then (w, scan)
           else (w, scan\<lparr>sc_groups := sc_groups scan @
                    map (\<lambda>(pc, m). \<lparr>gr_cta = ci, gr_warp = wi, gr_pc = pc, gr_mask = m\<rparr>) (by_pc w)\<rparr>))"

fun scan_warps :: "ScheduleFilter option \<Rightarrow> nat \<Rightarrow> nat \<Rightarrow> nat \<Rightarrow> WarpState list \<Rightarrow> ScheduleScan \<Rightarrow> WarpState list \<times> ScheduleScan" where
  "scan_warps eligible cta_id ci wi [] scan = ([], scan)"
| "scan_warps eligible cta_id ci wi (w # ws) scan =
     (case scan_warp eligible cta_id ci wi w scan of
        (w', scan') \<Rightarrow> (case scan_warps eligible cta_id ci (Suc wi) ws scan' of (ws', scan'') \<Rightarrow> (w' # ws', scan'')))"

fun scan_ctas :: "ScheduleFilter option \<Rightarrow> nat \<Rightarrow> CtaState list \<Rightarrow> ScheduleScan \<Rightarrow> CtaState list \<times> ScheduleScan" where
  "scan_ctas eligible ci [] scan = ([], scan)"
| "scan_ctas eligible ci (c # cs) scan =
     (case scan_warps eligible (c_cta_id c) ci 0 (c_warps c) scan of
        (ws, scan') \<Rightarrow> (case scan_ctas eligible (Suc ci) cs scan' of (cs', scan'') \<Rightarrow> (c\<lparr>c_warps := ws\<rparr> # cs', scan'')))"

definition empty_scan :: ScheduleScan where
  "empty_scan = \<lparr>sc_groups = [], sc_any_runnable = False, sc_any_barrier_wait = False, sc_any_stalled = False\<rparr>"

definition scan_schedule :: "ScheduleFilter option \<Rightarrow> CtaState list \<Rightarrow> CtaState list \<times> ScheduleScan" where
  "scan_schedule eligible ctas = scan_ctas eligible 0 ctas empty_scan"

subsection \<open>Selection and classification\<close>

text \<open>The machine: the CTAs this instance owns, the round-robin cursor, and the instruction count.\<close>

record Machine =
  mc_ctas :: "CtaState list"
  mc_rr :: nat
  mc_executed :: u64
  mc_barrier_events :: "(nat \<times> nat list) list"

definition next_group :: "ScheduleFilter option \<Rightarrow> Machine \<Rightarrow> Group option \<times> bool \<times> Machine" where
  "next_group eligible m =
     (case scan_schedule eligible (mc_ctas m) of (ctas, scan) \<Rightarrow>
        let m = m\<lparr>mc_ctas := ctas\<rparr>; n = length (sc_groups scan)
        in if sc_groups scan = [] then (None, sc_any_runnable scan, m)
           else let start = mc_rr m mod n
                in (Some (sc_groups scan ! start), False, m\<lparr>mc_rr := (start + 1) mod n\<rparr>))"

datatype ExecutionTerminalState = kRunning | kDone | kBarrierDeadlock | kNoProgress | kFocusBlocked

definition classify :: "ScheduleScan \<Rightarrow> ExecutionTerminalState" where
  "classify scan =
     (if sc_groups scan \<noteq> [] then kRunning
      else if sc_any_runnable scan then kFocusBlocked
      else if sc_any_barrier_wait scan then kBarrierDeadlock
      else if sc_any_stalled scan then kNoProgress
      else kDone)"

definition terminal_state :: "ScheduleFilter option \<Rightarrow> CtaState list \<Rightarrow> ExecutionTerminalState" where
  "terminal_state eligible ctas = classify (snd (scan_schedule eligible ctas))"

fun join_with :: "string \<Rightarrow> string list \<Rightarrow> string" where
  "join_with sep [] = []"
| "join_with sep [x] = x"
| "join_with sep (x # y # xs) = x @ sep @ join_with sep (y # xs)"

definition waiting_by_bar :: "CtaState \<Rightarrow> (u64, nat list) omap" where
  "waiting_by_bar c =
     foldl (\<lambda>mp w. case w_waiting_barrier w of None \<Rightarrow> mp | Some b \<Rightarrow> om_put b (om_at [] mp b @ [w_warp_id w]) mp) [] (c_warps c)"

definition deadlock_message :: "CtaState \<Rightarrow> u64 \<Rightarrow> nat list \<Rightarrow> string" where
  "deadlock_message c bid warps =
     (let nwarps = length (c_warps c);
          exited = filter (\<lambda>w. \<forall>t \<in> set (w_threads (c_warps c ! w)). t_exited t) [0..<nwarps]
      in ''barrier deadlock in CTA '' @ show_nat (c_cta_id c) @ '' at barrier '' @ show_u64 bid @ '': '' @
         show_nat (length warps) @ ''/'' @ show_nat nwarps @ '' warps arrived/waiting (ids: '' @
         join_with '','' (map show_nat warps) @ ''); exited without arriving: '' @
         join_with '','' (map show_nat exited) @ ''; expected participants '' @ show_nat nwarps)"

fun barrier_deadlock_fault :: "string \<Rightarrow> CtaState list \<Rightarrow> Fault option" where
  "barrier_deadlock_fault kname [] = None"
| "barrier_deadlock_fault kname (c # cs) =
     (case waiting_by_bar c of
        [] \<Rightarrow> barrier_deadlock_fault kname cs
      | (bid, warps) # _ \<Rightarrow>
          Some (set_warp (word_of_nat (warps ! 0)) (set_kernel kname
            (mk_fault kBarrierDeadlockFault (deadlock_message c bid warps)))))"

subsection \<open>Single steps\<close>

record StepGroupFrame =
  fr_cta :: nat
  fr_warp :: nat
  fr_pc :: u64
  fr_mask :: u32
  fr_runnable :: bool
  fr_executed :: bool
  fr_stopped :: bool
  fr_limit_hit :: bool
  fr_focus_blocked :: bool
  fr_fault :: "Fault option"

definition empty_frame :: StepGroupFrame where
  "empty_frame = \<lparr>fr_cta = 0, fr_warp = 0, fr_pc = 0, fr_mask = 0, fr_runnable = False, fr_executed = False, fr_stopped = False,
     fr_limit_hit = False, fr_focus_blocked = False, fr_fault = None\<rparr>"

definition log_event :: "nat \<Rightarrow> nat list option \<Rightarrow> Machine \<Rightarrow> Machine" where
  "log_event cta ev m = (case ev of None \<Rightarrow> m | Some ws \<Rightarrow> m\<lparr>mc_barrier_events := mc_barrier_events m @ [(cta, ws)]\<rparr>)"

definition run_group :: "'d DataExec \<Rightarrow> KernelText \<Rightarrow> 'd PredecodedWord list \<Rightarrow> LaunchEnv \<Rightarrow> bool \<Rightarrow> Group \<Rightarrow> Machine \<Rightarrow> Fault option \<times> Machine" where
  "run_group exec k prog env race_on g m =
     (case execute_group exec k prog env race_on (gr_cta g) (gr_warp g) (gr_pc g) (gr_mask g) (mc_ctas m) of
        (f, ctas, ev) \<Rightarrow> (f, log_event (c_cta_id (mc_ctas m ! gr_cta g)) ev (m\<lparr>mc_ctas := ctas\<rparr>)))"

text \<open>The \<open>exec_mask_out\<close> of \<open>execute_group\<close>: the lanes whose guard lets them execute.\<close>

definition issued_mask :: "'d PredecodedWord list \<Rightarrow> Group \<Rightarrow> Machine \<Rightarrow> u32" where
  "issued_mask prog g m =
     (let idx = unat (gr_pc g div 16)
      in if idx \<ge> length prog \<or> \<not> pw_unique (prog ! idx) then 0
         else guard_mask (pw_guard (prog ! idx)) (gr_mask g) (c_warps (mc_ctas m ! gr_cta g) ! gr_warp g))"

text \<open>\<open>pre_exec\<close> sees the CTA, warp, pc, mask and word of the group before it executes.\<close>

definition step_group :: "'d DataExec \<Rightarrow> KernelText \<Rightarrow> 'd PredecodedWord list \<Rightarrow> LaunchEnv \<Rightarrow> bool \<Rightarrow> u64 \<Rightarrow>
    ScheduleFilter option \<Rightarrow> (nat \<Rightarrow> nat \<Rightarrow> u64 \<Rightarrow> u32 \<Rightarrow> 'd PredecodedWord \<Rightarrow> bool) option \<Rightarrow> Machine \<Rightarrow>
    bool \<times> StepGroupFrame \<times> Machine" where
  "step_group exec k prog env race_on limit eligible pre_exec m =
     (case next_group eligible m of
        (None, blocked, m) \<Rightarrow> (False, empty_frame\<lparr>fr_focus_blocked := blocked\<rparr>, m)
      | (Some g, _, m) \<Rightarrow>
          let fr = empty_frame\<lparr>fr_runnable := True, fr_cta := gr_cta g, fr_warp := gr_warp g, fr_pc := gr_pc g, fr_mask := gr_mask g\<rparr>;
              idx = unat (gr_pc g div 16);
              veto = (case pre_exec of None \<Rightarrow> False
                      | Some p \<Rightarrow> idx < length prog \<and> pw_unique (prog ! idx) \<and>
                                  \<not> p (gr_cta g) (gr_warp g) (gr_pc g) (gr_mask g) (prog ! idx))
          in if mc_executed m \<ge> limit then
               (True, fr\<lparr>fr_limit_hit := True, fr_fault := Some (set_pc (gr_pc g) (set_warp (word_of_nat (gr_warp g))
                        (mk_fault kInstructionLimitFault ''dynamic instruction limit reached'')))\<rparr>, m)
             else if veto then (True, fr\<lparr>fr_stopped := True\<rparr>, m)
             else
               let fr = fr\<lparr>fr_mask := issued_mask prog g m\<rparr>
               in (case run_group exec k prog env race_on g m of
                  (Some f, m) \<Rightarrow> (True, fr\<lparr>fr_fault := Some f\<rparr>, m)
                | (None, m) \<Rightarrow> (True, fr\<lparr>fr_executed := True\<rparr>, m\<lparr>mc_executed := mc_executed m + 1\<rparr>)))"

subsection \<open>The run loop\<close>

record InterpreterResult =
  ir_fault :: "Fault option"
  ir_limit_reached :: bool
  ir_executed :: u64
  ir_ctas :: "CtaState list"
  ir_barrier_events :: "(nat \<times> nat list) list"

definition mk_result :: "Fault option \<Rightarrow> bool \<Rightarrow> Machine \<Rightarrow> InterpreterResult" where
  "mk_result f lim m = \<lparr>ir_fault = f, ir_limit_reached = lim, ir_executed = mc_executed m, ir_ctas = mc_ctas m,
     ir_barrier_events = mc_barrier_events m\<rparr>"

definition locate_fault :: "KernelText \<Rightarrow> Group \<Rightarrow> Fault \<Rightarrow> Fault" where
  "locate_fault k g f =
     (let f = (if f_kernel f = None then set_kernel (kt_name k) f else f);
          f = (if f_pc f = None then set_pc (gr_pc g) f else f);
          f = (if f_warp f = None then set_warp (word_of_nat (gr_warp g)) f else f)
      in if f_active_mask f = None then set_active_mask (gr_mask g) f else f)"

definition limit_fault :: "KernelText \<Rightarrow> u64 \<Rightarrow> Group \<Rightarrow> Fault" where
  "limit_fault k limit g = set_warp (word_of_nat (gr_warp g)) (set_pc (gr_pc g) (set_kernel (kt_name k)
     (mk_fault kInstructionLimitFault (''dynamic instruction limit '' @ show_u64 limit @ '' reached''))))"

definition stall_fault :: "KernelText \<Rightarrow> Fault" where
  "stall_fault k = set_kernel (kt_name k) (mk_fault kNoProgressFault
     ''launch has no runnable group and no barrier waiter (stalled); not a clean completion'')"

definition finish :: "KernelText \<Rightarrow> Machine \<Rightarrow> InterpreterResult" where
  "finish k m =
     (case scan_schedule None (mc_ctas m) of (ctas, scan) \<Rightarrow>
        let m = m\<lparr>mc_ctas := ctas\<rparr>
        in case classify scan of
             kBarrierDeadlock \<Rightarrow> mk_result (barrier_deadlock_fault (kt_name k) ctas) False m
           | kNoProgress \<Rightarrow> mk_result (Some (stall_fault k)) False m
           | _ \<Rightarrow> mk_result None False m)"

lemma next_group_executed: "next_group eligible m = (r, b, m') \<Longrightarrow> mc_executed m' = mc_executed m"
  by (auto simp: next_group_def Let_def split: prod.splits if_splits)

lemma run_group_executed: "run_group exec k prog env race_on g m = (f, m') \<Longrightarrow> mc_executed m' = mc_executed m"
  by (auto simp: run_group_def log_event_def split: prod.splits option.splits)

lemma executed_decreases:
  assumes "next_group eligible m = (r, b, m')" "run_group exec k prog env race_on g m' = (f, m'')"
    and "\<not> limit \<le> mc_executed m'"
  shows "unat limit - unat (mc_executed m'' + 1) < unat limit - unat (mc_executed m)"
proof -
  have e: "mc_executed m'' = mc_executed m" and lt: "mc_executed m < limit"
    using next_group_executed [OF assms(1)] run_group_executed [OF assms(2)] assms(3) by auto
  then have "unat (mc_executed m + 1) = unat (mc_executed m) + 1"
    using unat_lt_u64 [of limit] by (simp add: word_less_nat_alt unat_word_ariths)
  then show ?thesis using lt e by (simp add: word_less_nat_alt)
qed

function run_owned :: "'d DataExec \<Rightarrow> KernelText \<Rightarrow> 'd PredecodedWord list \<Rightarrow> LaunchEnv \<Rightarrow> bool \<Rightarrow> u64 \<Rightarrow> Machine \<Rightarrow> InterpreterResult" where
  "run_owned exec k prog env race_on limit m =
     (case next_group None m of
        (None, _, m') \<Rightarrow> finish k m'
      | (Some g, _, m') \<Rightarrow>
          if mc_executed m' \<ge> limit then mk_result (Some (limit_fault k limit g)) True m'
          else
            (case run_group exec k prog env race_on g m' of
               (Some f, m'') \<Rightarrow> mk_result (Some (locate_fault k g f)) False m''
             | (None, m'') \<Rightarrow> run_owned exec k prog env race_on limit (m''\<lparr>mc_executed := mc_executed m'' + 1\<rparr>)))"
  by pat_completeness auto

termination
  by (relation "measure (\<lambda>(exec, k, prog, env, race_on, limit, m). unat limit - unat (mc_executed m))")
    (auto intro: executed_decreases [OF sym sym])

declare run_owned.simps [simp del]

end
