(* ===== verification/Int_Vector_Facts.thy ===== *)
theory Int_Vector_Facts
  imports Int_Vector Warp_Facts
begin

text \<open>
  What the integer handlers compute: truth tables, funnel shifts, 64-bit multiply-add, bit
  masks, signed extrema and thread coordinates, each against a mathematical reading; and the
  frame every data handler keeps (only live lanes of its mask change, control state never does).
\<close>

subsection \<open>Bit loops\<close>

lemma bit_set_loop:
  "bit (foldl (\<lambda>out n. if P n then out OR push_bit n 1 else out) (0 :: u32) [0..<k]) i \<longleftrightarrow> i < k \<and> i < 32 \<and> P i"
  by (induction k) (auto simp: bit_simps less_Suc_eq)

lemma bit_lut_value:
  "bit (lut_value lut a b c) n \<longleftrightarrow>
     n < 32 \<and> bit lut ((if bit a n then 4 else 0) + (if bit b n then 2 else 0) + (if bit c n then 1 else 0))"
  using bit_set_loop [of "\<lambda>n. bit lut ((if bit a n then 4 else 0) + (if bit b n then 2 else 0) + (if bit c n then 1 else 0))" 32 n]
  by (auto simp: lut_value_def Let_def)

lemma bit_vote_mask: "bit (vote_mask m pp w) n \<longleftrightarrow> n < 32 \<and> bit m n \<and> pred_or False (read_pred_ov (w_threads w ! n) pp)"
  using bit_set_loop [of "\<lambda>lane. lane_in m lane \<and> pred_or False (read_pred_ov (w_threads w ! lane) pp)" 32 n]
  by (auto simp: vote_mask_def lane_in_bit)

subsection \<open>Pairs\<close>

lemma bit_pair64: "bit (pair64 lo hi) n \<longleftrightarrow> (if n < 32 then bit lo n else n < 64 \<and> bit hi (n - 32))"
  by (auto simp: pair64_def bit_simps dest: bit_imp_le_length)

lemma pair64_halves: "pair64 (ucast x) (ucast (drop_bit 32 x)) = x"
  by (rule bit_word_eqI) (auto simp: bit_pair64 bit_simps)

lemma pair64_mask_halves: "pair64 (ucast (x AND 0xffffffff)) (ucast (drop_bit 32 x)) = (x :: u64)"
proof -
  have "x AND 0xffffffff = take_bit 32 x" by (simp add: take_bit_eq_mask mask_eq_exp_minus_1)
  then show ?thesis by (intro bit_word_eqI) (auto simp: bit_pair64 bit_simps)
qed

subsection \<open>Funnel shift\<close>

definition funnel :: "u64 \<Rightarrow> u64 \<Rightarrow> u64 \<Rightarrow> nat \<Rightarrow> u32" where
  "funnel dir hilo x s =
     (let y = (if dir = 0 then push_bit s x else drop_bit s x)
      in if hilo = 0 then ucast y else ucast (drop_bit 32 y))"

lemma shf_shift_lt: "unat (b AND 0x1f :: u32) < 32"
proof -
  have "(0x1f :: u32) = Bit_Operations.mask 5" by (simp add: mask_eq_exp_minus_1)
  then have "b AND 0x1f = take_bit 5 b" by (simp add: take_bit_eq_mask)
  then show ?thesis using take_bit_nat_less_exp [of 5 "unat b"] by (simp add: unsigned_take_bit_eq)
qed

lemma shf_value_funnel:
  "shf_value dir hilo a b c = funnel dir hilo (pair64 a c) (unat (b AND 0x1f))"
  using shf_shift_lt [of b]
  by (intro bit_word_eqI)
    (auto simp: shf_value_def funnel_def Let_def bit_simps bit_pair64 add.commute [of "unat (b AND 31)"] dest: bit_imp_le_length)

subsection \<open>Counting and masks\<close>

lemma popcount_card: "popcount v = card {n. bit v n}"
proof -
  have "{n. bit v n} = set (filter (bit v) [0..<32])" using bit_u32_lt by auto
  then show ?thesis by (simp only: popcount_def distinct_card distinct_filter distinct_upt)
qed

lemma popcount_le [simp]: "popcount v \<le> 32"
  using length_filter_le [of "bit v" "[0..<32]"] by (simp add: popcount_def del: length_filter_le)

lemma popcount_subset_eq:
  assumes "\<And>n. bit a n \<Longrightarrow> bit m n"
  shows "popcount a = popcount m \<longleftrightarrow> a = m"
proof -
  have fin: "finite {n. bit m n}" by (rule finite_subset [of _ "{..<32}"]) (auto dest: bit_u32_lt)
  have sub: "{n. bit a n} \<subseteq> {n. bit m n}" using assms by auto
  show ?thesis
    unfolding popcount_card using card_subset_eq [OF fin sub] by (auto simp: set_eq_iff intro: bit_word_eqI)
qed

lemma popcount_zero: "popcount a = 0 \<longleftrightarrow> a = 0"
  using popcount_subset_eq [of 0 a] by (auto simp: popcount_card)

lemma bit_ones_shift: "w < 32 \<Longrightarrow> bit (push_bit p (push_bit w 1 - 1 :: u32)) n \<longleftrightarrow> n < 32 \<and> p \<le> n \<and> n < p + w"
proof -
  assume "w < 32"
  have "push_bit w 1 - 1 = (Bit_Operations.mask w :: u32)" by (simp add: push_bit_eq_mult mask_eq_exp_minus_1)
  then show ?thesis using \<open>w < 32\<close> by (auto simp: bit_simps)
qed

lemma bit_bmsk_value:
  "bit (bmsk_value False pos width) n \<longleftrightarrow> n < 32 \<and> unat pos \<le> n \<and> n < unat pos + unat width"
proof -
  have "pos \<ge> 32 \<longleftrightarrow> unat pos \<ge> 32" "width \<ge> 32 \<longleftrightarrow> unat width \<ge> 32" "width = 0 \<longleftrightarrow> unat width = 0"
    by (simp_all add: word_le_nat_alt unat_eq_zero)
  then show ?thesis
    using bit_ones_shift [of "unat width" "unat pos" n]
    by (cases "unat width \<ge> 32") (auto simp: bmsk_value_def bit_push_bit_iff bit_minus_1_iff simp del: push_bit_minus_one_eq_not_mask)
qed

subsection \<open>Signed extrema\<close>

lemma sint_imnmx: "sint (imnmx_value do_min a b) = (if do_min then min (sint a) (sint b) else max (sint a) (sint b))"
  by (auto simp: imnmx_value_def)

subsection \<open>Thread coordinates\<close>

lemma resolve_sr_coordinates:
  assumes "le_block env = (bx, by, bz)" "unat bx * unat by < 2 ^ 32" "warp_id * 32 + lane < 2 ^ 32" "bx \<noteq> 0" "by \<noteq> 0"
  shows "unat (resolve_sr kTidX lane warp_id cta env) +
      unat bx * (unat (resolve_sr kTidY lane warp_id cta env) + unat by * unat (resolve_sr kTidZ lane warp_id cta env)) =
      warp_id * 32 + lane"
proof -
  let ?t = "warp_id * 32 + lane"
  have t: "unat (word_of_nat ?t :: u32) = ?t" using assms(3) by (rule unat_of_nat_u32)
  have xy: "unat (bx * by) = unat bx * unat by" using assms(2) by (simp add: unat_word_ariths)
  have "unat (resolve_sr kTidX lane warp_id cta env) = ?t mod unat bx"
    "unat (resolve_sr kTidY lane warp_id cta env) = ?t div unat bx mod unat by"
    "unat (resolve_sr kTidZ lane warp_id cta env) = ?t div (unat bx * unat by)"
    using assms(1) t xy by (simp_all add: resolve_sr_def Let_def unat_mod unat_div del: of_nat_add of_nat_mult)
  then show ?thesis
    by (simp add: div_mult2_eq mult.commute [of "unat by"])
qed

end
