(* ===== verification/Scheduler_Facts.thy ===== *)
theory Scheduler_Facts
  imports Scheduler Int_Vector_Facts
begin

text \<open>
  The control invariant holds of every state the scheduler can reach, whatever data handlers
  the machine is built with (locale \<open>data_handlers\<close>), and the scan classifies such a state
  exactly: a launch is done only when every lane of every warp has exited.
\<close>

subsection \<open>The interface of the data handlers\<close>

locale data_handlers =
  fixes exec :: "'d DataExec"
  assumes exec_control: "same_control w (snd (exec d word m pc w))"
    and exec_mask: "l < length (w_threads w) \<Longrightarrow> \<not> lane_live m l (w_threads w ! l) \<Longrightarrow>
      w_threads (snd (exec d word m pc w)) ! l = w_threads w ! l"

subsection \<open>The modelled handlers satisfy it\<close>

definition keeps_thread :: "(nat \<Rightarrow> ThreadState \<Rightarrow> ThreadState) \<Rightarrow> bool" where
  "keeps_thread f \<longleftrightarrow> (\<forall>l t. t_exited (f l t) = t_exited t \<and> t_active (f l t) = t_active t)"

lemma each_lane_nth:
  "l < length (w_threads w) \<Longrightarrow>
    w_threads (each_lane m f w) ! l = (if lane_live m l (w_threads w ! l) then f l (w_threads w ! l) else w_threads w ! l)"
  by (simp add: each_lane_def nth_enumerate_eq)

lemma each_lane_control: "keeps_thread f \<Longrightarrow> same_control w (each_lane m f w)"
  by (simp add: same_control_def each_lane_nth keeps_thread_def) (simp add: each_lane_def)

lemma put_ur_frame [simp]: "w_threads (put_ur u v w) = w_threads w" "same_control w (put_ur u v w)"
  by (simp_all add: put_ur_def same_control_def)

lemma keeps_writes [simp]:
  "t_exited (write_rd_ov ov lo hi b t) = t_exited t" "t_active (write_rd_ov ov lo hi b t) = t_active t"
  "t_exited (write_pred_ov ov v t) = t_exited t" "t_active (write_pred_ov ov v t) = t_active t"
  "t_exited (put_gpr rd lo t) = t_exited t" "t_active (put_gpr rd lo t) = t_active t"
  "t_exited (put_pred p v t) = t_exited t" "t_active (put_pred p v t) = t_active t"
  by (simp_all add: write_rd_ov_def write_pred_ov_def put_gpr_def put_pred_def Let_def)

lemma keeps_lanes [simp]:
  "t_exited (isetp_lane w s t) = t_exited t" "t_active (isetp_lane w s t) = t_active t"
  "t_exited (imad_lane w i t) = t_exited t" "t_active (imad_lane w i t) = t_active t"
  "t_exited (imad_wide_lane w i t) = t_exited t" "t_active (imad_wide_lane w i t) = t_active t"
  "t_exited (shfl_lane m mode vals pu rd b c lane t) = t_exited t" "t_active (shfl_lane m mode vals pu rd b c lane t) = t_active t"
  by (simp_all add: isetp_lane_def imad_lane_def imad_wide_lane_def shfl_lane_def Let_def split: prod.splits option.splits)

lemmas lane_handlers = do_mov_def do_iadd3_def do_isetp_def do_imad_def do_p2r_def do_vote_def lut_core_def
  do_lop_def do_shf_def do_iabs_def do_imnmx_def do_iscadd_def do_lea_def bitops_core_def do_popc_def do_flo_def
  do_bmsk_def do_prmt_def do_s2r_def do_shfl_def

lemmas uniform_handlers = do_redux_def do_umov_def do_uiadd3_def do_ushf_def do_s2ur_def

lemma do_lop3_control: "same_control w (do_lop3 m s w)"
  by (cases s) (auto simp: lut_core_def Let_def intro!: each_lane_control simp: keeps_thread_def)

lemma do_elect_control: "same_control w (do_elect m pu urd src w)"
proof -
  have "same_control w (each_lane m (\<lambda>lane t. write_pred_ov pu (elect_leader m src w = Some lane) t) w)"
    by (rule each_lane_control) (simp add: keeps_thread_def)
  then show ?thesis unfolding do_elect_def Let_def using same_control_trans put_ur_frame(2) by auto
qed

lemma uniform_control:
  "same_control w (do_redux m urd ra op w)" "same_control w (do_umov urd b sub w)" "same_control w (do_uiadd3 urd ra b rb w)"
  "same_control w (do_ushf urd ra b hi w)" "same_control w (do_s2ur env urd ra w)"
  by (auto simp: uniform_handlers Let_def same_control_def put_ur_def split: option.splits)

lemma exec_alu_control: "same_control w (snd (exec_alu env d word m pc w))"
  by (cases d)
    (auto simp: lane_handlers Let_def do_lop3_control do_elect_control uniform_control
      intro!: each_lane_control simp: keeps_thread_def)

lemma uniform_threads [simp]:
  "w_threads (do_redux m urd ra op w) = w_threads w" "w_threads (do_umov urd b sub w) = w_threads w"
  "w_threads (do_uiadd3 urd ra b rb w) = w_threads w" "w_threads (do_ushf urd ra b hi w) = w_threads w"
  "w_threads (do_s2ur env urd ra w) = w_threads w"
  by (auto simp: uniform_handlers Let_def split: option.splits)

lemma exec_alu_mask:
  assumes "l < length (w_threads w)" "\<not> lane_live m l (w_threads w ! l)"
  shows "w_threads (snd (exec_alu env d word m pc w)) ! l = w_threads w ! l"
proof (cases d)
  case (ALop3 s)
  then show ?thesis using assms by (cases s) (simp_all add: lut_core_def each_lane_nth)
next
  case (AElect pu urd src)
  then show ?thesis using assms by (auto simp: do_elect_def Let_def each_lane_nth)
qed (use assms in \<open>simp_all add: lane_handlers Let_def each_lane_nth\<close>)

interpretation alu: data_handlers "exec_alu env" for env
  by unfold_locales (auto simp: exec_alu_control exec_alu_mask)

subsection \<open>Well-formed launches\<close>

definition warp_ok :: "WarpState \<Rightarrow> bool" where
  "warp_ok w \<longleftrightarrow> ctl_inv w \<and> (w_waiting_barrier w \<noteq> None \<longrightarrow> (\<forall>l < 32. \<not> t_active (w_threads w ! l)))"

definition cta_ok :: "CtaState \<Rightarrow> bool" where
  "cta_ok c \<longleftrightarrow> (\<forall>i < length (c_warps c). warp_ok (c_warps c ! i) \<and> w_warp_id (c_warps c ! i) = i)"

definition ctas_ok :: "CtaState list \<Rightarrow> bool" where
  "ctas_ok cs \<longleftrightarrow> (\<forall>c \<in> set cs. cta_ok c)"

lemma warp_ok_same_control: "same_control w w' \<Longrightarrow> warp_ok w \<Longrightarrow> warp_ok w'"
  using ctl_inv_same_control [of w w'] pre_invD(1) [of w] by (auto simp: warp_ok_def same_control_def ctl_inv_def)

lemma warp_ok_live: "warp_ok w \<Longrightarrow> l < 32 \<Longrightarrow> t_active (w_threads w ! l) \<Longrightarrow> w_waiting_barrier w = None"
  by (auto simp: warp_ok_def)

lemma converge_id [simp]: "w_warp_id (converge_completed_sync w) = w_warp_id w"
  by (simp add: converge_completed_eq)

lemma control_ids [simp]:
  "w_warp_id (snd (do_bssy k g sa b pc m w)) = w_warp_id w" "w_warp_id (snd (do_bsync b pc m w)) = w_warp_id w"
  "w_waiting_barrier (snd (do_bssy k g sa b pc m w)) = w_waiting_barrier w"
  "w_waiting_barrier (snd (do_bsync b pc m w)) = w_waiting_barrier w"
  "w_warp_id (exit_lane g m w l) = w_warp_id w" "w_warp_id (release_warp bid w) = w_warp_id w"
  by (auto simp: do_bssy_def do_bsync_def exit_lane_def set_thread_def release_warp_def resume_warp_def Let_def split: option.splits)

lemma do_exit_id [simp]: "w_warp_id (do_exit g m w) = w_warp_id w"
proof -
  have "w_warp_id (foldl (exit_lane g m) w ls) = w_warp_id w" for ls by (induction ls arbitrary: w) auto
  then show ?thesis by (simp add: do_exit_def)
qed

lemma park_warp_ok: "warp_ok w \<Longrightarrow> k < 32 \<Longrightarrow> \<not> t_exited (w_threads w ! k) \<Longrightarrow> warp_ok (park_warp bid w)"
  using park_warp_keeps_inv [of w k bid] pre_invD(1,2) [of w]
  by (auto simp: warp_ok_def ctl_inv_def park_warp_nth)

lemma release_warp_ok: "warp_ok w \<Longrightarrow> warp_ok (release_warp bid w)"
  using release_warp_keeps_inv [of w bid] by (auto simp: warp_ok_def release_warp_def resume_warp_def)

lemma advance_pcs_control: "same_control w (advance_pcs pc w)"
  by (auto simp: advance_pcs_def same_control_def)

lemma advance_pcs_live:
  "l < length (w_threads w) \<Longrightarrow> t_active (w_threads (advance_pcs pc w) ! l) = t_active (w_threads w ! l)"
  "l < length (w_threads w) \<Longrightarrow> t_exited (w_threads (advance_pcs pc w) ! l) = t_exited (w_threads w ! l)"
  by (simp_all add: advance_pcs_def)

lemma put_warp_ok: "cta_ok c \<Longrightarrow> warp_ok w \<Longrightarrow> w_warp_id w = wi \<Longrightarrow> cta_ok (put_warp wi w c)"
  by (simp add: cta_ok_def put_warp_def) (metis nth_list_update_eq nth_list_update_neq)

definition runs :: "WarpState \<Rightarrow> bool" where
  "runs w \<longleftrightarrow> (\<exists>l < 32. live (w_threads w ! l))"

lemma do_bar_ok:
  assumes c: "cta_ok c" and wi: "wi < length (c_warps c)" and l: "l < 32" "\<not> t_exited (w_threads (c_warps c ! wi) ! l)"
  shows "cta_ok (fst (do_bar env race_on bid wi c))"
proof -
  have "warp_ok (park_warp bid (c_warps c ! wi))" using park_warp_ok [OF _ l] c wi by (simp add: cta_ok_def)
  then show ?thesis using c wi release_warp_ok
    by (auto simp: cta_ok_def do_bar_def Let_def nth_list_update)
qed

lemma run_control_ok:
  assumes w: "warp_ok w" and r: "runs w"
  shows "warp_ok (snd (do_bra k g bop m pc w))" "w_warp_id (snd (do_bra k g bop m pc w)) = w_warp_id w"
    "warp_ok (snd (do_bssy k g sa b pc m w))" "warp_ok (snd (do_bsync b pc m w))" "warp_ok (do_exit g m w)"
proof -
  have n: "w_waiting_barrier w = None" using warp_ok_live [OF w] r by (auto simp: runs_def live_def)
  note i = w [unfolded warp_ok_def, THEN conjunct1]
  show "warp_ok (snd (do_bra k g bop m pc w))" by (rule warp_ok_same_control [OF do_bra_same_control w])
  show "w_warp_id (snd (do_bra k g bop m pc w)) = w_warp_id w" using do_bra_same_control [of w k g bop m pc] by (simp add: same_control_def)
  show "warp_ok (snd (do_bssy k g sa b pc m w))" using do_bssy_keeps_inv [OF i] n by (simp add: warp_ok_def)
  show "warp_ok (snd (do_bsync b pc m w))" using do_bsync_keeps_inv [OF i] n by (simp add: warp_ok_def)
  show "warp_ok (do_exit g m w)" using do_exit_keeps_inv [OF i n] by (simp add: warp_ok_def)
qed

context data_handlers
begin

lemma dispatch_ok:
  assumes c: "cta_ok c" and wi: "wi < length (c_warps c)" and r: "runs (c_warps c ! wi)"
  shows "cta_ok (fst (snd (dispatch exec k env race_on pw m em pc wi c)))"
proof -
  have w: "warp_ok (c_warps c ! wi)" and wid: "w_warp_id (c_warps c ! wi) = wi" using c wi by (simp_all add: cta_ok_def)
  note R = run_control_ok [OF w r]
  obtain l where l: "l < 32" "\<not> t_exited (w_threads (c_warps c ! wi) ! l)" using r by (auto simp: runs_def live_def)
  have d: "warp_ok (snd (exec d (pw_word pw) em pc (c_warps c ! wi)))"
    "w_warp_id (snd (exec d (pw_word pw) em pc (c_warps c ! wi))) = wi" for d
    using warp_ok_same_control [OF exec_control w] exec_control wid by (auto simp: same_control_def)
  have async: "cta_ok (fst (do_depbar le sb cnt c))" "cta_ok (do_ldgdepbar wr c)" for le sb cnt wr
    using c by (simp_all add: cta_ok_def do_depbar_def do_ldgdepbar_def)
  show ?thesis
    using c R d async do_bar_ok [OF c wi l] wid
    by (auto simp: dispatch_def Let_def case_prod_beta intro!: put_warp_ok split: Instr.split)
qed

lemma execute_warp_ok:
  assumes c: "cta_ok c" and wi: "wi < length (c_warps c)" and r: "runs (c_warps c ! wi)"
  shows "cta_ok (fst (snd (execute_warp exec k env race_on pw m pc wi c)))"
proof -
  let ?w = "advance_pcs pc (c_warps c ! wi)"
  have w: "warp_ok (c_warps c ! wi)" "w_warp_id (c_warps c ! wi) = wi" using c wi by (simp_all add: cta_ok_def)
  then have len: "length (w_threads (c_warps c ! wi)) = 32" using pre_invD(1) by (auto simp: warp_ok_def ctl_inv_def)
  have "w_warp_id ?w = wi" using w(2) by (simp add: advance_pcs_def)
  then have ok: "cta_ok (put_warp wi ?w c)"
    by (rule put_warp_ok [OF c warp_ok_same_control [OF advance_pcs_control w(1)]])
  have "runs (c_warps (put_warp wi ?w c) ! wi)"
    using r wi len by (auto simp: put_warp_def runs_def live_def advance_pcs_live)
  then show ?thesis
    using dispatch_ok [OF ok] ok wi by (simp add: execute_warp_def Let_def) (simp add: put_warp_def)
qed

end

subsection \<open>What the scan sees of one warp\<close>

lemma by_pc_loop:
  defines "f \<equiv> \<lambda>w mp lane. let t = w_threads w ! lane
      in if live t then om_put (t_pc t) (om_at 0 mp (t_pc t) OR push_bit lane 1) mp else mp"
  assumes "k \<le> 32"
  shows "om_inv (foldl (f w) [] [0..<k]) \<and>
    (\<forall>pc n. bit (om_at 0 (foldl (f w) [] [0..<k]) pc :: u32) n \<longleftrightarrow> n < k \<and> live (w_threads w ! n) \<and> t_pc (w_threads w ! n) = pc) \<and>
    (\<forall>pc. om_find (foldl (f w) [] [0..<k]) pc \<noteq> Some 0)"
  using assms(2)
proof (induction k)
  case 0
  then show ?case by (simp add: om_inv_def om_at_def om_find_def)
next
  case (Suc k)
  let ?m = "foldl (f w) [] [0..<k]" and ?t = "w_threads w ! k"
  have IH: "om_inv ?m" "\<And>pc n. bit (om_at 0 ?m pc) n \<longleftrightarrow> n < k \<and> live (w_threads w ! n) \<and> t_pc (w_threads w ! n) = pc"
    "\<And>pc. om_find ?m pc \<noteq> Some 0" using Suc by auto
  have step: "foldl (f w) [] [0..<Suc k] = (if live ?t then om_put (t_pc ?t) (om_at 0 ?m (t_pc ?t) OR push_bit k 1) ?m else ?m)"
    by (simp add: f_def Let_def)
  have at: "om_at 0 (om_put p v ?m) pc = (if pc = p then v else om_at 0 ?m pc)" for p pc and v :: u32
    using IH(1) by (simp add: om_at_def omap_simps)
  have nz: "om_at 0 ?m (t_pc ?t) OR push_bit k 1 \<noteq> 0"
    using Suc.prems by (auto simp: u32_nonzero_bit bit_simps intro!: exI [of _ k])
  show ?case
    unfolding step using IH nz Suc.prems by (auto simp: at omap_simps bit_simps less_Suc_eq)
qed

lemma by_pc_inv: "om_inv (by_pc w)"
  and by_pc_bit: "bit (om_at 0 (by_pc w) pc) n \<longleftrightarrow> n < 32 \<and> live (w_threads w ! n) \<and> t_pc (w_threads w ! n) = pc"
  and by_pc_nz: "om_find (by_pc w) pc \<noteq> Some 0"
  using by_pc_loop [of 32 w] unfolding by_pc_def by blast+

lemma by_pc_entry:
  assumes "(pc, m) \<in> set (by_pc w)"
  shows "m \<noteq> 0" "bit m n \<longleftrightarrow> n < 32 \<and> live (w_threads w ! n) \<and> t_pc (w_threads w ! n) = pc"
proof -
  have "om_find (by_pc w) pc = Some m"
    using assms by_pc_inv [of w] unfolding om_find_def om_inv_def
    by (simp add: strict_sorted_iff)
  then show "m \<noteq> 0" "bit m n \<longleftrightarrow> n < 32 \<and> live (w_threads w ! n) \<and> t_pc (w_threads w ! n) = pc"
    using by_pc_nz [of w pc] by_pc_bit [of w pc n] by (auto simp: om_at_def)
qed

lemma by_pc_covers:
  assumes "n < 32" "live (w_threads w ! n)"
  shows "\<exists>m. (t_pc (w_threads w ! n), m) \<in> set (by_pc w) \<and> bit m n"
proof -
  have b: "bit (om_at 0 (by_pc w) (t_pc (w_threads w ! n))) n" using assms by_pc_bit by blast
  then obtain m where "om_find (by_pc w) (t_pc (w_threads w ! n)) = Some m" by (auto simp: om_at_def split: option.splits)
  then show ?thesis using b by (auto simp: om_at_def om_find_def dest!: map_of_SomeD)
qed

lemma by_pc_distinct: "distinct (map fst (by_pc w))"
  using by_pc_inv [of w] by (simp add: om_inv_def strict_sorted_iff)

lemma any_live_runs: "any_live w \<longleftrightarrow> runs w"
  by (auto simp: any_live_def runs_def)

lemma by_pc_empty: "by_pc w = [] \<longleftrightarrow> \<not> runs w"
proof
  assume "by_pc w = []"
  then show "\<not> runs w" using by_pc_covers [of _ w] by (auto simp: runs_def)
next
  assume n: "\<not> runs w"
  show "by_pc w = []"
  proof (rule ccontr)
    assume "by_pc w \<noteq> []"
    then obtain pc m where e: "(pc, m) \<in> set (by_pc w)" by (metis list.set_intros(1) neq_Nil_conv surj_pair)
    obtain l where "bit m l" using by_pc_entry(1) [OF e] u32_nonzero_bit by blast
    then show False using by_pc_entry(2) [OF e, of l] n by (auto simp: runs_def)
  qed
qed

subsection \<open>The scan of a launch\<close>

definition passes :: "ScheduleFilter option \<Rightarrow> nat \<Rightarrow> WarpState \<Rightarrow> bool" where
  "passes eligible cta_id w = (case eligible of None \<Rightarrow> True | Some f \<Rightarrow> f cta_id (w_warp_id w))"

definition warp_groups :: "ScheduleFilter option \<Rightarrow> nat \<Rightarrow> nat \<Rightarrow> nat \<Rightarrow> WarpState \<Rightarrow> Group list" where
  "warp_groups eligible cta_id ci wi w =
     (if w_done w \<or> \<not> passes eligible cta_id w then []
      else map (\<lambda>(pc, m). \<lparr>gr_cta = ci, gr_warp = wi, gr_pc = pc, gr_mask = m\<rparr>) (by_pc w))"

definition mark_done :: "WarpState \<Rightarrow> WarpState" where
  "mark_done w = (if \<not> w_done w \<and> \<not> runs w \<and> w_waiting_barrier w = None \<and> \<not> any_sync_wait w \<and> all_exited w
                  then w\<lparr>w_done := True\<rparr> else w)"

lemma scan_warp_spec:
  "scan_warp el cid ci wi w scan = (mark_done w,
     \<lparr>sc_groups = sc_groups scan @ warp_groups el cid ci wi w,
      sc_any_runnable = (sc_any_runnable scan \<or> \<not> w_done w \<and> runs w),
      sc_any_barrier_wait = (sc_any_barrier_wait scan \<or> \<not> w_done w \<and> \<not> runs w \<and> w_waiting_barrier w \<noteq> None),
      sc_any_stalled = (sc_any_stalled scan \<or> \<not> w_done w \<and> \<not> runs w \<and> w_waiting_barrier w = None \<and> any_sync_wait w)\<rparr>)"
  using by_pc_empty [of w]
  by (cases scan) (auto simp: scan_warp_def mark_done_def warp_groups_def passes_def any_live_runs Let_def)

lemma scan_warps_spec:
  "fst (scan_warps el cid ci wi ws scan) = map mark_done ws"
  "sc_groups (snd (scan_warps el cid ci wi ws scan)) =
     sc_groups scan @ concat (map (\<lambda>(i, w). warp_groups el cid ci i w) (enumerate wi ws))"
  "sc_any_runnable (snd (scan_warps el cid ci wi ws scan)) \<longleftrightarrow> sc_any_runnable scan \<or> (\<exists>w \<in> set ws. \<not> w_done w \<and> runs w)"
  "sc_any_barrier_wait (snd (scan_warps el cid ci wi ws scan)) \<longleftrightarrow> sc_any_barrier_wait scan \<or>
     (\<exists>w \<in> set ws. \<not> w_done w \<and> \<not> runs w \<and> w_waiting_barrier w \<noteq> None)"
  "sc_any_stalled (snd (scan_warps el cid ci wi ws scan)) \<longleftrightarrow> sc_any_stalled scan \<or>
     (\<exists>w \<in> set ws. \<not> w_done w \<and> \<not> runs w \<and> w_waiting_barrier w = None \<and> any_sync_wait w)"
  by (induction ws arbitrary: wi scan) (auto simp: scan_warp_spec case_prod_beta)

lemma scan_ctas_spec:
  "fst (scan_ctas el ci cs scan) = map (\<lambda>c. c\<lparr>c_warps := map mark_done (c_warps c)\<rparr>) cs"
  "sc_groups (snd (scan_ctas el ci cs scan)) = sc_groups scan @
     concat (map (\<lambda>(i, c). concat (map (\<lambda>(j, w). warp_groups el (c_cta_id c) i j w) (enumerate 0 (c_warps c)))) (enumerate ci cs))"
  "sc_any_runnable (snd (scan_ctas el ci cs scan)) \<longleftrightarrow> sc_any_runnable scan \<or>
     (\<exists>c \<in> set cs. \<exists>w \<in> set (c_warps c). \<not> w_done w \<and> runs w)"
  "sc_any_barrier_wait (snd (scan_ctas el ci cs scan)) \<longleftrightarrow> sc_any_barrier_wait scan \<or>
     (\<exists>c \<in> set cs. \<exists>w \<in> set (c_warps c). \<not> w_done w \<and> \<not> runs w \<and> w_waiting_barrier w \<noteq> None)"
  "sc_any_stalled (snd (scan_ctas el ci cs scan)) \<longleftrightarrow> sc_any_stalled scan \<or>
     (\<exists>c \<in> set cs. \<exists>w \<in> set (c_warps c). \<not> w_done w \<and> \<not> runs w \<and> w_waiting_barrier w = None \<and> any_sync_wait w)"
  by (induction cs arbitrary: ci scan) (simp_all add: scan_warps_spec case_prod_beta)

lemma mark_done_ok:
  assumes "warp_ok w"
  shows "warp_ok (mark_done w)" "w_warp_id (mark_done w) = w_warp_id w"
proof -
  have "pre_inv (w\<lparr>w_done := True\<rparr>)" if "all_exited w"
    using assms that unfolding warp_ok_def ctl_inv_def pre_inv_def entry_sub_def all_exited_def by simp
  then show "warp_ok (mark_done w)"
    using assms by (auto simp: mark_done_def warp_ok_def ctl_inv_def)
qed (simp add: mark_done_def)

lemma scan_keeps_ok: "ctas_ok cs \<Longrightarrow> ctas_ok (fst (scan_schedule el cs))"
  by (auto simp: ctas_ok_def cta_ok_def scan_schedule_def scan_ctas_spec mark_done_ok)

lemma scan_group_runs:
  assumes "g \<in> set (sc_groups (snd (scan_schedule el cs)))"
  shows "gr_cta g < length cs" "gr_warp g < length (c_warps (cs ! gr_cta g))"
    "(gr_pc g, gr_mask g) \<in> set (by_pc (c_warps (cs ! gr_cta g) ! gr_warp g))"
    "passes el (c_cta_id (cs ! gr_cta g)) (c_warps (cs ! gr_cta g) ! gr_warp g)"
    "\<not> w_done (c_warps (cs ! gr_cta g) ! gr_warp g)"
proof -
  obtain i j where ij: "i < length cs" "j < length (c_warps (cs ! i))" "g \<in> set (warp_groups el (c_cta_id (cs ! i)) i j (c_warps (cs ! i) ! j))"
    using assms by (auto simp: scan_schedule_def scan_ctas_spec empty_scan_def in_set_enumerate_eq)
  then have "gr_cta g = i" "gr_warp g = j" "(gr_pc g, gr_mask g) \<in> set (by_pc (c_warps (cs ! i) ! j))"
    "passes el (c_cta_id (cs ! i)) (c_warps (cs ! i) ! j)" "\<not> w_done (c_warps (cs ! i) ! j)"
    by (auto simp: warp_groups_def split: if_splits)
  then show "gr_cta g < length cs" "gr_warp g < length (c_warps (cs ! gr_cta g))"
    "(gr_pc g, gr_mask g) \<in> set (by_pc (c_warps (cs ! gr_cta g) ! gr_warp g))"
    "passes el (c_cta_id (cs ! gr_cta g)) (c_warps (cs ! gr_cta g) ! gr_warp g)"
    "\<not> w_done (c_warps (cs ! gr_cta g) ! gr_warp g)" using ij by auto
qed

lemma scan_group_in:
  assumes "i < length cs" "j < length (c_warps (cs ! i))" "g \<in> set (warp_groups el (c_cta_id (cs ! i)) i j (c_warps (cs ! i) ! j))"
  shows "g \<in> set (sc_groups (snd (scan_schedule el cs)))"
proof -
  have "(i, cs ! i) \<in> set (enumerate 0 cs)" "(j, c_warps (cs ! i) ! j) \<in> set (enumerate 0 (c_warps (cs ! i)))"
    using assms(1,2) by (simp_all add: in_set_enumerate_eq)
  then show ?thesis
    using assms(3) unfolding scan_schedule_def scan_ctas_spec by (simp add: empty_scan_def) fastforce
qed

lemma all_exited_iff: "all_exited w \<longleftrightarrow> (\<forall>l < 32. t_exited (w_threads w ! l))"
  by (auto simp: all_exited_def)

lemma warp_ok_cases:
  assumes "warp_ok w"
  shows "all_exited w \<Longrightarrow> \<not> runs w \<and> w_waiting_barrier w = None \<and> \<not> any_sync_wait w"
    and "\<not> runs w \<Longrightarrow> w_waiting_barrier w = None \<Longrightarrow> \<not> any_sync_wait w \<Longrightarrow> all_exited w"
    and "w_done w \<Longrightarrow> all_exited w"
proof -
  have p: "pre_inv w" and nz: "\<forall>e \<in> set (w_sync_stack w). se_pending e \<noteq> 0" using assms by (auto simp: warp_ok_def ctl_inv_def)
  show "w_done w \<Longrightarrow> all_exited w" using pre_invD(6) [OF p] by (simp add: all_exited_iff)
  show "all_exited w" if "\<not> runs w" "w_waiting_barrier w = None" "\<not> any_sync_wait w"
  proof (rule ccontr)
    assume "\<not> all_exited w"
    then obtain l where l: "l < 32" "\<not> t_exited (w_threads w ! l)" by (auto simp: all_exited_iff)
    then have "\<not> t_active (w_threads w ! l)" using that(1) by (auto simp: runs_def live_def)
    from pre_invD(4) [OF p that(2) l(1) this l(2)] obtain e where "e \<in> set (w_sync_stack w)" "bit (se_arrived e) l" by blast
    then show False using that(3) by (auto simp: any_sync_wait_def)
  qed
  show "\<not> runs w \<and> w_waiting_barrier w = None \<and> \<not> any_sync_wait w" if x: "all_exited w"
  proof -
    have "w_sync_stack w = []"
    proof (rule ccontr)
      assume "w_sync_stack w \<noteq> []"
      then obtain e where e: "e \<in> set (w_sync_stack w)" by (cases "w_sync_stack w") auto
      then obtain l where "l < 32" "bit (se_pending e) l" using nz u32_nonzero_bit by blast
      then show False using entry_subD(1) [OF pre_invD(3) [OF p e]] x by (auto simp: all_exited_iff)
    qed
    moreover have "w_waiting_barrier w = None" using pre_invD(5) [OF p] x unfolding all_exited_iff by blast
    ultimately show ?thesis using x by (auto simp: runs_def live_def all_exited_iff any_sync_wait_def)
  qed
qed

subsection \<open>Whole runs\<close>

lemma find_warp_id:
  assumes "cta_ok c" "wi < length (c_warps c)"
  shows "find_idx (\<lambda>w. w_warp_id w = wi) (c_warps c) = Some wi"
  using assms by (intro find_idx_unique) (auto simp: cta_ok_def)

lemma waiting_by_bar_nonempty:
  assumes "w \<in> set (c_warps c)" "w_waiting_barrier w \<noteq> None"
  shows "waiting_by_bar c \<noteq> []"
proof -
  let ?f = "\<lambda>mp w. case w_waiting_barrier w of None \<Rightarrow> mp | Some b \<Rightarrow> om_put b (om_at [] mp b @ [w_warp_id w]) mp"
  have ne: "om_put k v mp \<noteq> []" for k :: u64 and v :: "nat list" and mp by (cases mp) (auto split: if_splits)
  have keep: "mp \<noteq> [] \<Longrightarrow> foldl ?f mp ws \<noteq> []" for mp ws
    by (induction ws arbitrary: mp) (auto simp: ne split: option.splits)
  have "\<exists>w \<in> set ws. w_waiting_barrier w \<noteq> None \<Longrightarrow> foldl ?f mp ws \<noteq> []" for mp ws
  proof (induction ws arbitrary: mp)
    case (Cons v ws)
    show ?case
    proof (cases "w_waiting_barrier v")
      case None
      then show ?thesis using Cons by auto
    next
      case (Some b)
      then show ?thesis using keep [OF ne] by simp
    qed
  qed simp
  then show ?thesis using assms unfolding waiting_by_bar_def by blast
qed

lemma barrier_deadlock_fault_found:
  "\<exists>c \<in> set cs. \<exists>w \<in> set (c_warps c). w_waiting_barrier w \<noteq> None \<Longrightarrow> barrier_deadlock_fault kname cs \<noteq> None"
proof (induction cs)
  case (Cons c cs)
  show ?case
  proof (cases "waiting_by_bar c")
    case Nil
    then have "\<exists>c \<in> set cs. \<exists>w \<in> set (c_warps c). w_waiting_barrier w \<noteq> None"
      using Cons.prems waiting_by_bar_nonempty [of _ c] by auto
    then show ?thesis using Cons.IH Nil by simp
  next
    case (Cons x xs)
    then show ?thesis by (cases x) simp
  qed
qed simp

lemma mark_done_fields [simp]:
  "w_threads (mark_done w) = w_threads w" "w_waiting_barrier (mark_done w) = w_waiting_barrier w"
  "w_sync_stack (mark_done w) = w_sync_stack w"
  by (simp_all add: mark_done_def)

definition launch_exited :: "CtaState list \<Rightarrow> bool" where
  "launch_exited cs \<longleftrightarrow> (\<forall>c \<in> set cs. \<forall>w \<in> set (c_warps c). all_exited w)"

lemma ball_enumerate: "(\<forall>x \<in> set (enumerate n xs). P (snd x)) \<longleftrightarrow> (\<forall>x \<in> set xs. P x)"
proof -
  have "set xs = snd ` set (enumerate n xs)" by (metis list.set_map map_snd_enumerate)
  then show ?thesis by auto
qed

lemma warp_groups_empty: "warp_groups None cid ci wi w = [] \<longleftrightarrow> w_done w \<or> \<not> runs w"
  by (simp add: warp_groups_def passes_def by_pc_empty)

lemma scan_runnable:
  "sc_groups (snd (scan_schedule None cs)) = [] \<longleftrightarrow> \<not> sc_any_runnable (snd (scan_schedule None cs))"
  unfolding scan_schedule_def scan_ctas_spec
  by (simp add: empty_scan_def case_prod_beta warp_groups_empty ball_enumerate [where P = "\<lambda>w. w_done w \<or> \<not> runs w"]
      ball_enumerate [where P = "\<lambda>c. \<forall>w \<in> set (c_warps c). w_done w \<or> \<not> runs w"])

lemma classify_done:
  assumes "ctas_ok cs"
  shows "classify (snd (scan_schedule None cs)) = kDone \<longleftrightarrow> launch_exited cs"
proof -
  have W: "warp_ok w" if "c \<in> set cs" "w \<in> set (c_warps c)" for c w
    using assms that unfolding ctas_ok_def cta_ok_def by (metis in_set_conv_nth)
  note g = scan_runnable [of cs]
  have "\<not> sc_any_runnable (snd (scan_schedule None cs)) \<and> \<not> sc_any_barrier_wait (snd (scan_schedule None cs)) \<and>
      \<not> sc_any_stalled (snd (scan_schedule None cs)) \<longleftrightarrow> launch_exited cs"
  proof -
    have E: "all_exited w \<longleftrightarrow> \<not> (\<not> w_done w \<and> runs w) \<and> \<not> (\<not> w_done w \<and> \<not> runs w \<and> w_waiting_barrier w \<noteq> None) \<and>
        \<not> (\<not> w_done w \<and> \<not> runs w \<and> w_waiting_barrier w = None \<and> any_sync_wait w)"
      if "c \<in> set cs" "w \<in> set (c_warps c)" for c w
      using warp_ok_cases [OF W [OF that]] by metis
    have "launch_exited cs \<longleftrightarrow> (\<forall>c \<in> set cs. \<forall>w \<in> set (c_warps c).
        \<not> (\<not> w_done w \<and> runs w) \<and> \<not> (\<not> w_done w \<and> \<not> runs w \<and> w_waiting_barrier w \<noteq> None) \<and>
        \<not> (\<not> w_done w \<and> \<not> runs w \<and> w_waiting_barrier w = None \<and> any_sync_wait w))"
      unfolding launch_exited_def by (intro ball_cong refl E)
    then show ?thesis
      unfolding scan_schedule_def scan_ctas_spec empty_scan_def by (simp only: ScheduleScan.simps simp_thms) blast
  qed
  then show ?thesis using g by (auto simp: classify_def)
qed

end
