(* ===== verification/Scheduler_Safety.thy ===== *)
theory Scheduler_Safety
  imports Scheduler_Facts
begin

text \<open>
  Whole runs of the interpreter. The invariant of \<open>Scheduler_Facts\<close> is carried through
  selection, execution and the run loop for arbitrary data handlers, then instantiated with
  the integer and uniform subset of the instruction set (\<open>exec_alu\<close>).
\<close>

subsection \<open>Selection\<close>

lemma mark_done_runs [simp]: "runs (mark_done w) = runs w"
  by (simp add: runs_def)

lemma mark_done_done: "w_done w \<Longrightarrow> w_done (mark_done w)"
  by (simp add: mark_done_def)

lemma scan_schedule_ctas: "fst (scan_schedule el cs) = map (\<lambda>c. c\<lparr>c_warps := map mark_done (c_warps c)\<rparr>) cs"
  by (simp add: scan_schedule_def scan_ctas_spec)

lemma next_group_ctas: "mc_ctas (snd (snd (next_group el m))) = fst (scan_schedule el (mc_ctas m))"
  by (simp add: next_group_def case_prod_beta Let_def)

lemma next_group_some:
  assumes "next_group el m = (Some g, b, m')"
  shows "g \<in> set (sc_groups (snd (scan_schedule el (mc_ctas m))))"
  using assms by (auto simp: next_group_def case_prod_beta Let_def split: if_splits)

lemma next_group_none:
  assumes "next_group el m = (None, b, m')"
  shows "sc_groups (snd (scan_schedule el (mc_ctas m))) = []"
  using assms by (auto simp: next_group_def case_prod_beta Let_def split: if_splits)

lemma next_group_runs:
  assumes "next_group el m = (Some g, b, m')"
  shows "gr_cta g < length (mc_ctas m')" "gr_warp g < length (c_warps (mc_ctas m' ! gr_cta g))"
    "runs (c_warps (mc_ctas m' ! gr_cta g) ! gr_warp g)"
proof -
  note G = scan_group_runs [OF next_group_some [OF assms]]
  have ctas: "mc_ctas m' = map (\<lambda>c. c\<lparr>c_warps := map mark_done (c_warps c)\<rparr>) (mc_ctas m)"
    using next_group_ctas [of el m] assms by (simp add: scan_schedule_ctas)
  show "gr_cta g < length (mc_ctas m')" "gr_warp g < length (c_warps (mc_ctas m' ! gr_cta g))"
    using G(1,2) by (simp_all add: ctas)
  have "by_pc (c_warps (mc_ctas m ! gr_cta g) ! gr_warp g) \<noteq> []" using G(3) by auto
  then show "runs (c_warps (mc_ctas m' ! gr_cta g) ! gr_warp g)"
    using G(1,2) by (simp add: ctas by_pc_empty)
qed

lemma next_group_ok: "next_group el m = (r, b, m') \<Longrightarrow> ctas_ok (mc_ctas m) \<Longrightarrow> ctas_ok (mc_ctas m')"
  using next_group_ctas [of el m] scan_keeps_ok [of "mc_ctas m" el] by simp

subsection \<open>Completion\<close>

lemma rescan_none:
  assumes "sc_groups (snd (scan_schedule None cs)) = []"
  shows "sc_groups (snd (scan_schedule None (fst (scan_schedule None cs)))) = []"
    "\<not> sc_any_runnable (snd (scan_schedule None (fst (scan_schedule None cs))))"
proof -
  have n: "\<not> sc_any_runnable (snd (scan_schedule None cs))" using assms scan_runnable by blast
  then have "\<not> (\<exists>c \<in> set cs. \<exists>w \<in> set (c_warps c). \<not> w_done w \<and> runs w)"
    by (simp add: scan_schedule_def scan_ctas_spec empty_scan_def)
  then show r: "\<not> sc_any_runnable (snd (scan_schedule None (fst (scan_schedule None cs))))"
    unfolding scan_schedule_ctas by (simp add: scan_schedule_def scan_ctas_spec empty_scan_def) (blast intro: mark_done_done)
  then show "sc_groups (snd (scan_schedule None (fst (scan_schedule None cs)))) = []" using scan_runnable by blast
qed

lemma finish_result:
  assumes ok: "ctas_ok (mc_ctas m)"
    and e: "sc_groups (snd (scan_schedule None (mc_ctas m))) = []" "\<not> sc_any_runnable (snd (scan_schedule None (mc_ctas m)))"
  shows "ctas_ok (ir_ctas (finish k m))" "ir_executed (finish k m) = mc_executed m"
    "ir_fault (finish k m) = None \<longleftrightarrow> launch_exited (ir_ctas (finish k m))"
proof -
  let ?cs = "fst (scan_schedule None (mc_ctas m))" and ?scan = "snd (scan_schedule None (mc_ctas m))"
  have c: "ir_ctas (finish k m) = ?cs"
    by (simp add: finish_def case_prod_beta Let_def mk_result_def split: ExecutionTerminalState.split)
  show "ctas_ok (ir_ctas (finish k m))" using c scan_keeps_ok [OF ok] by simp
  show "ir_executed (finish k m) = mc_executed m"
    by (simp add: finish_def case_prod_beta Let_def mk_result_def split: ExecutionTerminalState.split)
  have ex: "launch_exited ?cs \<longleftrightarrow> launch_exited (mc_ctas m)"
    by (simp add: scan_schedule_ctas launch_exited_def all_exited_def)
  have dl: "barrier_deadlock_fault (kt_name k) ?cs \<noteq> None" if "sc_any_barrier_wait ?scan"
  proof (rule barrier_deadlock_fault_found)
    show "\<exists>c \<in> set ?cs. \<exists>w \<in> set (c_warps c). w_waiting_barrier w \<noteq> None"
      using that unfolding scan_schedule_ctas by (auto simp: scan_schedule_def scan_ctas_spec empty_scan_def)
  qed
  have "ir_fault (finish k m) = None \<longleftrightarrow> classify ?scan = kDone"
    using e dl by (auto simp: finish_def case_prod_beta Let_def mk_result_def classify_def)
  then show "ir_fault (finish k m) = None \<longleftrightarrow> launch_exited (ir_ctas (finish k m))"
    using classify_done [OF ok] ex c by simp
qed

subsection \<open>The run loop, for any data handlers\<close>

context data_handlers
begin

lemma execute_group_ok:
  assumes ok: "ctas_ok cs" and ci: "ci < length cs" and wi: "wi < length (c_warps (cs ! ci))" and r: "runs (c_warps (cs ! ci) ! wi)"
  shows "ctas_ok (fst (snd (execute_group exec k prog env race_on ci wi pc m cs)))"
proof -
  have c: "cta_ok (cs ! ci)" using ok ci by (simp add: ctas_ok_def)
  have "cta_ok (fst (snd (execute_warp exec k env race_on pw m pc wi (cs ! ci))))" for pw
    by (rule execute_warp_ok [OF c wi r])
  then show ?thesis
    using ok set_update_subset_insert [of cs ci] unfolding ctas_ok_def
    by (auto simp: execute_group_def Let_def case_prod_beta find_warp_id [OF c wi])
qed

lemma run_group_ok:
  assumes "next_group el m = (Some g, b, m')" "ctas_ok (mc_ctas m)"
  shows "ctas_ok (mc_ctas (snd (run_group exec k prog env race_on g m')))"
  using execute_group_ok [OF next_group_ok [OF assms] next_group_runs [OF assms(1)]]
  by (auto simp: run_group_def case_prod_beta log_event_def split: option.splits)

lemma step_group_ok:
  assumes "ctas_ok (mc_ctas m)"
  shows "ctas_ok (mc_ctas (snd (snd (step_group exec k prog env race_on limit el pre m))))"
proof -
  obtain r b m' where n: "next_group el m = (r, b, m')" by (cases "next_group el m")
  show ?thesis
    using next_group_ok [OF n assms] run_group_ok [of el m _ b m' k prog env race_on] n assms
    by (auto simp: step_group_def Let_def case_prod_beta split: option.split)
qed

lemma run_owned_result:
  assumes "ctas_ok (mc_ctas m)" "mc_executed m \<le> limit"
  shows "ctas_ok (ir_ctas (run_owned exec k prog env race_on limit m)) \<and>
    ir_executed (run_owned exec k prog env race_on limit m) \<le> limit \<and>
    (ir_fault (run_owned exec k prog env race_on limit m) = None \<longrightarrow>
       launch_exited (ir_ctas (run_owned exec k prog env race_on limit m)))"
  using assms
proof (induction "unat limit - unat (mc_executed m)" arbitrary: m rule: less_induct)
  case less
  obtain r b m' where n: "next_group None m = (r, b, m')" by (cases "next_group None m")
  note ok' = next_group_ok [OF n less.prems(1)] and ex' = next_group_executed [OF n]
  note unfold = run_owned.simps [of exec k prog env race_on limit m]
  show ?case
  proof (cases r)
    case None
    have m': "mc_ctas m' = fst (scan_schedule None (mc_ctas m))" using next_group_ctas [of None m] n by simp
    note e = rescan_none [OF next_group_none [OF n [unfolded None]]]
    show ?thesis
      using finish_result [OF ok' e [folded m']] less.prems(2) ex' by (simp add: unfold n None)
  next
    case (Some g)
    show ?thesis
    proof (cases "limit \<le> mc_executed m'")
      case True
      then have "run_owned exec k prog env race_on limit m = mk_result (Some (limit_fault k limit g)) True m'"
        by (simp add: unfold n Some)
      then show ?thesis using ok' less.prems(2) ex' by (simp add: mk_result_def)
    next
      case lim: False
      obtain f m'' where rg: "run_group exec k prog env race_on g m' = (f, m'')" by (cases "run_group exec k prog env race_on g m'")
      note ok'' = run_group_ok [OF n [unfolded Some] less.prems(1), of k prog env race_on, unfolded rg, simplified]
      note ex'' = run_group_executed [OF rg]
      show ?thesis
      proof (cases f)
        case (Some f')
        then show ?thesis using ok'' less.prems(2) ex' ex'' \<open>r = Some g\<close> lim by (simp add: unfold n rg mk_result_def)
      next
        case None
        let ?m = "m''\<lparr>mc_executed := mc_executed m'' + 1\<rparr>"
        have le: "mc_executed ?m \<le> limit" using lim ex' ex'' by (simp add: inc_le)
        show ?thesis
          using less.hyps [of ?m] executed_decreases [OF n rg lim] ok'' le lim \<open>r = Some g\<close> None
          by (simp add: unfold n rg)
      qed
    qed
  qed
qed

end

subsection \<open>Initial states\<close>

lemma bool_cases_thread: "t_exited (init_thread env i l) \<longleftrightarrow> \<not> t_active (init_thread env i l)"
  by (simp add: init_thread_def new_thread_def)

lemma init_warp_ok: "warp_ok (init_warp env local_size cid lid i)"
proof -
  have "pre_inv (init_warp env local_size cid lid i)"
    by (rule pre_invI) (auto simp: init_warp_def bool_cases_thread)
  then show ?thesis by (simp add: warp_ok_def ctl_inv_def) (simp add: init_warp_def)
qed

lemma init_cta_ok: "cta_ok (fst (init_cta env sh_size local_size cid lid ms))"
proof -
  have w: "c_warps (fst (init_cta env sh_size local_size cid lid ms)) = map (init_warp env local_size cid lid) [0..<block_warps env]"
    by (simp add: init_cta_def Let_def case_prod_beta)
  show ?thesis unfolding cta_ok_def w by (simp add: init_warp_ok) (simp add: init_warp_def)
qed

lemma init_ctas_ok: "ctas_ok (fst (init_ctas env sh_size local_size ids n ms))"
  by (induction ids arbitrary: n ms) (simp_all add: ctas_ok_def case_prod_beta init_cta_ok)

subsection \<open>Reachable machines\<close>

definition start_machine :: "CtaState list \<Rightarrow> Machine" where
  "start_machine cs = \<lparr>mc_ctas = cs, mc_rr = 0, mc_executed = 0, mc_barrier_events = []\<rparr>"

text \<open>
  The states a stepping client (the debugger) can drive a freshly built machine into, with any
  schedule filter and any pre-execution hook at each step.
\<close>

inductive launch_reachable :: "LaunchEnv \<Rightarrow> KernelText \<Rightarrow> AluInst PredecodedWord list \<Rightarrow> bool \<Rightarrow> u64 \<Rightarrow> CtaState list \<Rightarrow> Machine \<Rightarrow> bool"
  for env k prog race_on limit cs where
  start: "launch_reachable env k prog race_on limit cs (start_machine cs)"
| step: "launch_reachable env k prog race_on limit cs m \<Longrightarrow>
    launch_reachable env k prog race_on limit cs (snd (snd (step_group (exec_alu env) k prog env race_on limit el pre m)))"

lemma reachable_ok:
  assumes "launch_reachable env k prog race_on limit cs m" "ctas_ok cs"
  shows "ctas_ok (mc_ctas m)"
  using assms by induction (auto simp: start_machine_def alu.step_group_ok)

lemma reachable_warp_ok:
  assumes "launch_reachable env k prog race_on limit (fst (init_ctas env sh_size local_size ids n ms)) m"
    and "c \<in> set (mc_ctas m)" "w \<in> set (c_warps c)"
  shows "warp_ok w"
  using reachable_ok [OF assms(1) init_ctas_ok] assms(2,3) unfolding ctas_ok_def cta_ok_def
  by (metis in_set_conv_nth)

text \<open>A run of the whole launch from its initial state that ends without a fault has retired
  every lane of every warp: no lane is left at a barrier, at a reconvergence point or runnable.
  The run never exceeds the dynamic instruction limit.\<close>

theorem clean_run_retires_every_lane:
  assumes "ir_fault (run_owned (exec_alu env) k prog env race_on limit
    (start_machine (fst (init_ctas env sh_size local_size ids n ms)))) = None"
  shows "launch_exited (ir_ctas (run_owned (exec_alu env) k prog env race_on limit
      (start_machine (fst (init_ctas env sh_size local_size ids n ms))))) \<and>
    ir_executed (run_owned (exec_alu env) k prog env race_on limit
      (start_machine (fst (init_ctas env sh_size local_size ids n ms)))) \<le> limit"
  using alu.run_owned_result [of "start_machine (fst (init_ctas env sh_size local_size ids n ms))" limit env k prog env race_on]
    init_ctas_ok assms by (simp add: start_machine_def)

text \<open>In every reachable state, the scheduler classifies the launch as done exactly when every
  lane of every warp has exited.\<close>

theorem terminal_done_iff_all_exited:
  assumes "launch_reachable env k prog race_on limit (fst (init_ctas env sh_size local_size ids n ms)) m"
  shows "terminal_state None (mc_ctas m) = kDone \<longleftrightarrow> launch_exited (mc_ctas m)"
  unfolding terminal_state_def by (rule classify_done [OF reachable_ok [OF assms init_ctas_ok]])

text \<open>C4: In every reachable state a lane that has not exited and is not active is accounted for: its
  warp waits at a named barrier, or the lane has arrived at an open reconvergence entry. An exited
  lane is never active, a warp at a barrier has no active lane, and every open reconvergence entry
  still waits for a lane that has not exited.\<close>

theorem no_lane_is_lost:
  assumes "launch_reachable env k prog race_on limit (fst (init_ctas env sh_size local_size ids n ms)) m"
    and "c \<in> set (mc_ctas m)" "w \<in> set (c_warps c)" "l < 32"
  shows "(t_exited (w_threads w ! l) \<longrightarrow> \<not> t_active (w_threads w ! l)) \<and>
    (\<not> t_exited (w_threads w ! l) \<and> \<not> t_active (w_threads w ! l) \<longrightarrow>
       w_waiting_barrier w \<noteq> None \<or> (\<exists>e \<in> set (w_sync_stack w). bit (se_arrived e) l)) \<and>
    (w_waiting_barrier w \<noteq> None \<longrightarrow> \<not> t_active (w_threads w ! l)) \<and>
    (\<forall>e \<in> set (w_sync_stack w). \<exists>p < 32. bit (se_pending e) p \<and> \<not> t_exited (w_threads w ! p))"
proof -
  have ok: "warp_ok w" by (rule reachable_warp_ok [OF assms(1-3)])
  then have p: "pre_inv w" and nz: "\<forall>e \<in> set (w_sync_stack w). se_pending e \<noteq> 0" by (auto simp: warp_ok_def ctl_inv_def)
  have "\<exists>p < 32. bit (se_pending e) p \<and> \<not> t_exited (w_threads w ! p)" if "e \<in> set (w_sync_stack w)" for e
    using nz that entry_subD(1) [OF pre_invD(3) [OF p that]] u32_nonzero_bit by blast
  then show ?thesis
    using pre_invD(2) [OF p assms(4)] pre_invD(4) [OF p _ assms(4)] ok assms(4) by (auto simp: warp_ok_def)
qed

text \<open>C5: The scan partitions the runnable lanes of a launch by warp and program counter: each live lane
  of a warp that is not retired is in exactly one of the scanned groups, the group of its warp and its
  pc, and a group's mask holds only live lanes at its pc.\<close>

theorem scan_partitions_live_lanes:
  assumes "ci < length cs" "wi < length (c_warps (cs ! ci))" "\<not> w_done (c_warps (cs ! ci) ! wi)"
    and "l < 32" "live (w_threads (c_warps (cs ! ci) ! wi) ! l)"
  shows "(\<exists>!g. g \<in> set (sc_groups (snd (scan_schedule None cs))) \<and> gr_cta g = ci \<and> gr_warp g = wi \<and> bit (gr_mask g) l) \<and>
    (\<forall>g \<in> set (sc_groups (snd (scan_schedule None cs))). \<forall>n. bit (gr_mask g) n \<longleftrightarrow>
      n < 32 \<and> live (w_threads (c_warps (cs ! gr_cta g) ! gr_warp g) ! n) \<and>
      t_pc (w_threads (c_warps (cs ! gr_cta g) ! gr_warp g) ! n) = gr_pc g)"
proof
  let ?w = "c_warps (cs ! ci) ! wi"
  show "\<forall>g \<in> set (sc_groups (snd (scan_schedule None cs))). \<forall>n. bit (gr_mask g) n \<longleftrightarrow>
      n < 32 \<and> live (w_threads (c_warps (cs ! gr_cta g) ! gr_warp g) ! n) \<and>
      t_pc (w_threads (c_warps (cs ! gr_cta g) ! gr_warp g) ! n) = gr_pc g"
  proof (intro ballI allI)
    fix g n assume "g \<in> set (sc_groups (snd (scan_schedule None cs)))"
    then show "bit (gr_mask g) n \<longleftrightarrow> n < 32 \<and> live (w_threads (c_warps (cs ! gr_cta g) ! gr_warp g) ! n) \<and>
      t_pc (w_threads (c_warps (cs ! gr_cta g) ! gr_warp g) ! n) = gr_pc g"
      by (rule by_pc_entry(2) [OF scan_group_runs(3)])
  qed
  obtain m where m: "(t_pc (w_threads ?w ! l), m) \<in> set (by_pc ?w)" "bit m l" using by_pc_covers [OF assms(4,5)] by blast
  let ?g = "\<lparr>gr_cta = ci, gr_warp = wi, gr_pc = t_pc (w_threads ?w ! l), gr_mask = m\<rparr>"
  have "?g \<in> set (warp_groups None (c_cta_id (cs ! ci)) ci wi ?w)"
    using m(1) assms(3) by (force simp: warp_groups_def passes_def)
  then have in_scan: "?g \<in> set (sc_groups (snd (scan_schedule None cs)))"
    by (rule scan_group_in [OF assms(1,2)])
  show "\<exists>!g. g \<in> set (sc_groups (snd (scan_schedule None cs))) \<and> gr_cta g = ci \<and> gr_warp g = wi \<and> bit (gr_mask g) l"
  proof (rule ex1I [of _ ?g])
    fix g :: Group
    assume g: "g \<in> set (sc_groups (snd (scan_schedule None cs))) \<and> gr_cta g = ci \<and> gr_warp g = wi \<and> bit (gr_mask g) l"
    then have e: "(gr_pc g, gr_mask g) \<in> set (by_pc ?w)" using scan_group_runs(3) [of g None cs] by simp
    have pc: "gr_pc g = t_pc (w_threads ?w ! l)" using by_pc_entry(2) [OF e, of l] g by simp
    have "gr_mask g = m" using e m(1) by_pc_distinct [of ?w] unfolding pc by (rule eq_key_imp_eq_value [rotated])
    then show "g = ?g" using g pc by simp
  qed (use in_scan m(2) in simp)
qed

subsection \<open>Round robin\<close>

text \<open>The groups a client is offered by successive selections from an unchanged launch.\<close>

fun picks :: "ScheduleFilter option \<Rightarrow> nat \<Rightarrow> Machine \<Rightarrow> Group list" where
  "picks el 0 m = []"
| "picks el (Suc n) m = (case next_group el m of (None, _, _) \<Rightarrow> [] | (Some g, _, m') \<Rightarrow> g # picks el n m')"

lemma warp_groups_mark_done: "warp_groups el cid ci wi (mark_done w) = warp_groups el cid ci wi w"
proof -
  have "by_pc (mark_done w) = by_pc w" by (simp add: by_pc_def)
  then show ?thesis
    by (auto simp: warp_groups_def passes_def mark_done_def by_pc_empty)
qed

lemma scan_groups_rescan: "sc_groups (snd (scan_schedule el (fst (scan_schedule el cs)))) = sc_groups (snd (scan_schedule el cs))"
proof -
  have e: "enumerate n (map f xs) = map (\<lambda>(i, x). (i, f x)) (enumerate n xs)" for n and f :: "'a \<Rightarrow> 'b" and xs
    by (induction xs arbitrary: n) auto
  show ?thesis
    unfolding scan_schedule_ctas
    by (simp add: scan_schedule_def scan_ctas_spec e empty_scan_def case_prod_beta' comp_def warp_groups_mark_done)
qed

lemma picks_nth:
  assumes "sc_groups (snd (scan_schedule el (mc_ctas m))) = gs" "gs \<noteq> []"
  shows "picks el n m = map (\<lambda>i. gs ! ((mc_rr m + i) mod length gs)) [0..<n]"
  using assms
proof (induction n arbitrary: m)
  case (Suc n)
  let ?m = "m\<lparr>mc_ctas := fst (scan_schedule el (mc_ctas m)), mc_rr := (mc_rr m mod length gs + 1) mod length gs\<rparr>"
  have ng: "next_group el m = (Some (gs ! (mc_rr m mod length gs)), False, ?m)"
    using Suc.prems by (simp add: next_group_def case_prod_beta Let_def)
  have "picks el n ?m = map (\<lambda>i. gs ! ((mc_rr ?m + i) mod length gs)) [0..<n]"
    using Suc.prems by (intro Suc.IH) (simp_all add: scan_groups_rescan)
  then show ?case
    by (simp add: ng upt_conv_Cons map_Suc_upt [symmetric] comp_def mod_simps del: upt_Suc)
qed simp

lemma rotation_set: "set (map (\<lambda>i. gs ! ((r + i) mod length gs)) [0..<length gs]) = set gs"
proof -
  have "map (\<lambda>i. gs ! ((r + i) mod length gs)) [0..<length gs] = rotate r gs"
    by (rule nth_equalityI) (simp_all add: nth_rotate)
  then show ?thesis by (metis set_rotate)
qed

text \<open>C6: Round robin is fair: wherever the cursor stands, as many successive selections as there are
  eligible groups offer every eligible group, so none starves while the launch is unchanged.\<close>

theorem round_robin_is_fair:
  "set (picks el (length (sc_groups (snd (scan_schedule el (mc_ctas m))))) m) = set (sc_groups (snd (scan_schedule el (mc_ctas m))))"
proof (cases "sc_groups (snd (scan_schedule el (mc_ctas m))) = []")
  case False
  then show ?thesis using picks_nth [OF refl False] rotation_set [of _ "mc_rr m"] by simp
qed simp

subsection \<open>Examples\<close>

text \<open>A launch of one CTA with one thread whose kernel is a single EXIT.\<close>

definition one_thread :: LaunchEnv where
  "one_thread = \<lparr>le_grid = (1, 1, 1), le_block = (1, 1, 1), le_cluster = (1, 1, 1), le_sm_id = 0\<rparr>"

definition exit_kernel :: KernelText where
  "exit_kernel = \<lparr>kt_name = ''k'', kt_text_size = 16, kt_words = 1\<rparr>"

definition exit_program :: "AluInst PredecodedWord list" where
  "exit_program = [\<lparr>pw_unique = True, pw_reason = [], pw_word = (0, 0), pw_guard = \<lparr>g_pred = 7, g_not = False\<rparr>, pw_inst = IExit\<rparr>]"

definition bare_service :: MemoryService where
  "bare_service = \<lparr>ms_alloc = new_allocator kDefaultBase, ms_params = [], ms_global = None, ms_global_size = 0,
     ms_constant = [], ms_global_base = 0, ms_shared = [], ms_groups = [], ms_reads = 0, ms_writes = 0\<rparr>"

theorem clean_run_retires_every_lane_witness:
  "launch_exited (ir_ctas (run_owned (exec_alu one_thread) exit_kernel exit_program one_thread False 10
    (start_machine (fst (init_ctas one_thread 0 4 [0] 0 bare_service)))))"
proof -
  have "ir_fault (run_owned (exec_alu one_thread) exit_kernel exit_program one_thread False 10
    (start_machine (fst (init_ctas one_thread 0 4 [0] 0 bare_service)))) = None" by code_simp
  from clean_run_retires_every_lane [OF this] show ?thesis by (rule conjunct1)
qed

definition first_warp :: WarpState where
  "first_warp = init_warp one_thread 4 0 0 0"

lemma first_launch:
  "mc_ctas (start_machine (fst (init_ctas one_thread 0 4 [0] 0 bare_service))) = fst (init_ctas one_thread 0 4 [0] 0 bare_service)"
  "c_warps (fst (init_cta one_thread 0 4 0 0 bare_service)) = [first_warp]"
  "fst (init_ctas one_thread 0 4 [0] 0 bare_service) = [fst (init_cta one_thread 0 4 0 0 bare_service)]"
proof -
  have "block_warps one_thread = 1" by code_simp
  then show "c_warps (fst (init_cta one_thread 0 4 0 0 bare_service)) = [first_warp]"
    by (simp add: init_cta_def first_warp_def Let_def case_prod_beta)
qed (simp_all add: start_machine_def case_prod_beta)

lemma first_threads: "live (w_threads first_warp ! 0)" "t_exited (w_threads first_warp ! 1)" "\<not> w_done first_warp"
  "\<not> all_exited first_warp"
  by code_simp+

theorem terminal_done_iff_all_exited_witness:
  "terminal_state None (fst (init_ctas one_thread 0 4 [0] 0 bare_service)) \<noteq> kDone"
proof -
  have "\<not> launch_exited (fst (init_ctas one_thread 0 4 [0] 0 bare_service))"
    by (simp add: launch_exited_def first_launch first_threads del: init_ctas.simps)
  then show ?thesis
    using terminal_done_iff_all_exited [OF launch_reachable.start [of one_thread exit_kernel exit_program False 10
        "fst (init_ctas one_thread 0 4 [0] 0 bare_service)"]]
    by (simp only: first_launch(1) simp_thms)
qed

theorem no_lane_is_lost_witness: "\<not> t_active (w_threads first_warp ! 1)"
proof -
  have "fst (init_cta one_thread 0 4 0 0 bare_service) \<in> set (mc_ctas (start_machine (fst (init_ctas one_thread 0 4 [0] 0 bare_service))))"
    "first_warp \<in> set (c_warps (fst (init_cta one_thread 0 4 0 0 bare_service)))"
    unfolding first_launch(2,3) by (simp_all add: start_machine_def)
  from no_lane_is_lost [OF launch_reachable.start [of one_thread exit_kernel exit_program False 10] this, of 1] show ?thesis
    using first_threads(2) by simp
qed

theorem scan_partitions_live_lanes_witness:
  "\<exists>!g. g \<in> set (sc_groups (snd (scan_schedule None (fst (init_ctas one_thread 0 4 [0] 0 bare_service))))) \<and>
     gr_cta g = 0 \<and> gr_warp g = 0 \<and> bit (gr_mask g) 0"
proof -
  let ?cs = "fst (init_ctas one_thread 0 4 [0] 0 bare_service)"
  have h: "0 < length ?cs" "0 < length (c_warps (?cs ! 0))" "\<not> w_done (c_warps (?cs ! 0) ! 0)" "(0 :: nat) < 32"
    "live (w_threads (c_warps (?cs ! 0) ! 0) ! 0)"
    unfolding first_launch(3) nth_Cons_0 first_launch(2) by (simp_all add: first_threads)
  show ?thesis using scan_partitions_live_lanes [OF h] by (rule conjunct1)
qed

end
