(* ===== verification/Decoded_Shapes.thy ===== *)
theory Decoded_Shapes
  imports Warp_State Word128
begin

text \<open>
  The decoded memory instructions (\<open>generated/isa_shapes.hpp\<close>): one struct per operand
  shape, derived from \<open>DecodedInstruction\<close>, holding its operands, then its modifiers (32-bit
  enums), then a one-byte \<open>subclass\<close>. The handlers of \<open>memory.cpp\<close> read a field through a
  cast to the struct they expect for the mnemonic and the variant class, so a field is found by
  its position: operand \<open>k\<close> occupies the 32-bit words \<open>4 k\<close> to \<open>4 k + 3\<close> after the base (kind
  and flags bytes with padding, padding, low and high half of the value), the modifiers one word
  each behind the operands. A cast to a struct of another shape reads whatever lies at that
  position; the padding the program never writes is the argument \<open>di_pad\<close>.
\<close>

subsection \<open>Instructions\<close>

datatype Mnemonic = kLDG | kSTG | kLDS | kSTS | kLDL | kSTL | kLDC | kLDCU
  | kATOM | kATOMS | kATOMG | kREDG | kREDS | kLDGSTS
  | kMEMBAR | kFENCE | kERRBAR | kCGAERRBAR | kCCTL

fun mnemonic_name :: "Mnemonic \<Rightarrow> string" where
  "mnemonic_name kLDG = ''LDG''"
| "mnemonic_name kSTG = ''STG''"
| "mnemonic_name kLDS = ''LDS''"
| "mnemonic_name kSTS = ''STS''"
| "mnemonic_name kLDL = ''LDL''"
| "mnemonic_name kSTL = ''STL''"
| "mnemonic_name kLDC = ''LDC''"
| "mnemonic_name kLDCU = ''LDCU''"
| "mnemonic_name kATOM = ''ATOM''"
| "mnemonic_name kATOMS = ''ATOMS''"
| "mnemonic_name kATOMG = ''ATOMG''"
| "mnemonic_name kREDG = ''REDG''"
| "mnemonic_name kREDS = ''REDS''"
| "mnemonic_name kLDGSTS = ''LDGSTS''"
| "mnemonic_name kMEMBAR = ''MEMBAR''"
| "mnemonic_name kFENCE = ''FENCE''"
| "mnemonic_name kERRBAR = ''ERRBAR''"
| "mnemonic_name kCGAERRBAR = ''CGAERRBAR''"
| "mnemonic_name kCCTL = ''CCTL''"

record DecodedInst =
  di_mnem :: Mnemonic
  di_class :: string              \<comment> \<open>the variant class, by its name\<close>
  di_word :: "u64 \<times> u64"
  di_ops :: "OperandValue list"
  di_mods :: "u32 list"           \<comment> \<open>the modifiers, the subclass last\<close>
  di_pad :: "nat \<Rightarrow> u32"          \<comment> \<open>what the bytes the program never writes hold\<close>

definition is_class :: "string list \<Rightarrow> DecodedInst \<Rightarrow> bool" where
  "is_class cs d \<longleftrightarrow> di_class d \<in> set cs"

subsection \<open>Fields by position\<close>

fun kind_code :: "OperandKind \<Rightarrow> u32" where
  "kind_code kRegister = 0"
| "kind_code kUniformRegister = 1"
| "kind_code kPredicate = 2"
| "kind_code kUniformPredicate = 3"
| "kind_code kSImm = 4"
| "kind_code kUImm = 5"
| "kind_code kFImm16 = 6"
| "kind_code kFImm32 = 7"
| "kind_code kFImm64 = 8"
| "kind_code kDesc = 9"
| "kind_code kSpecial = 10"

text \<open>
  The operand a 16-byte slot reads as. A kind byte that names no kind reads as the value 0 in
  every reader (the \<open>switch\<close> of \<open>operand_value_as_i64\<close> falls through to 0, and no register
  reader accepts it), as an operand of kind special and value 0 does.
\<close>

definition slot_operand :: "u32 \<Rightarrow> u32 \<Rightarrow> u32 \<Rightarrow> OperandValue" where
  "slot_operand head lo hi =
     (let fl = ucast (drop_bit 8 head); v = pair64 lo hi; k = head AND 0xff
      in if k = 0 then \<lparr>ov_kind = kRegister, ov_flags = fl, ov_bits = v\<rparr>
         else if k = 1 then \<lparr>ov_kind = kUniformRegister, ov_flags = fl, ov_bits = v\<rparr>
         else if k = 2 then \<lparr>ov_kind = kPredicate, ov_flags = fl, ov_bits = v\<rparr>
         else if k = 3 then \<lparr>ov_kind = kUniformPredicate, ov_flags = fl, ov_bits = v\<rparr>
         else if k = 4 then \<lparr>ov_kind = kSImm, ov_flags = fl, ov_bits = v\<rparr>
         else if k = 5 then \<lparr>ov_kind = kUImm, ov_flags = fl, ov_bits = v\<rparr>
         else if k = 6 then \<lparr>ov_kind = kFImm16, ov_flags = fl, ov_bits = v\<rparr>
         else if k = 7 then \<lparr>ov_kind = kFImm32, ov_flags = fl, ov_bits = v\<rparr>
         else if k = 8 then \<lparr>ov_kind = kFImm64, ov_flags = fl, ov_bits = v\<rparr>
         else if k = 9 then \<lparr>ov_kind = kDesc, ov_flags = fl, ov_bits = v\<rparr>
         else if k = 10 then \<lparr>ov_kind = kSpecial, ov_flags = fl, ov_bits = v\<rparr>
         else \<lparr>ov_kind = kSpecial, ov_flags = fl, ov_bits = 0\<rparr>)"

definition operand_word :: "OperandValue \<Rightarrow> nat \<Rightarrow> u32 \<Rightarrow> u32" where
  "operand_word o' j pad =
     (if j = 0 then kind_code (ov_kind o') OR push_bit 8 (ucast (ov_flags o')) OR (pad AND 0xffff0000)
      else if j = 1 then pad
      else if j = 2 then ucast (ov_bits o')
      else ucast (drop_bit 32 (ov_bits o')))"

definition tail_word :: "DecodedInst \<Rightarrow> nat \<Rightarrow> u32" where
  "tail_word d i =
     (let n = length (di_ops d); m = length (di_mods d) in
      if i < 4 * n then operand_word (di_ops d ! (i div 4)) (i mod 4) (di_pad d i)
      else if i - 4 * n + 1 < m then di_mods d ! (i - 4 * n)
      else if i - 4 * n + 1 = m then (di_mods d ! (i - 4 * n) AND 0xff) OR (di_pad d i AND 0xffffff00)
      else di_pad d i)"

definition tail_operand :: "DecodedInst \<Rightarrow> nat \<Rightarrow> OperandValue" where
  "tail_operand d k =
     (if k < length (di_ops d) then di_ops d ! k
      else slot_operand (tail_word d (4 * k)) (tail_word d (4 * k + 2)) (tail_word d (4 * k + 3)))"

subsection \<open>Fields by name, through a struct\<close>

type_synonym Layout = "string list \<times> string list"   \<comment> \<open>operand fields; modifier fields\<close>

definition field_idx :: "string list \<Rightarrow> string \<Rightarrow> nat" where
  "field_idx names f = length (takeWhile (\<lambda>x. x \<noteq> f) names)"

definition rd_op :: "Layout \<Rightarrow> string \<Rightarrow> DecodedInst \<Rightarrow> OperandValue" where
  "rd_op l f d = tail_operand d (field_idx (fst l) f)"

definition rd_mod :: "Layout \<Rightarrow> string \<Rightarrow> DecodedInst \<Rightarrow> u64" where
  "rd_mod l f d = scast (tail_word d (4 * length (fst l) + field_idx (snd l) f))"

definition rd_subclass :: "Layout \<Rightarrow> DecodedInst \<Rightarrow> u8" where
  "rd_subclass l d = ucast (tail_word d (4 * length (fst l) + field_idx (snd l) ''subclass''))"

text \<open>The object really is of the struct.\<close>

definition has_shape :: "Layout \<Rightarrow> DecodedInst \<Rightarrow> bool" where
  "has_shape l d \<longleftrightarrow> length (di_ops d) = length (fst l) \<and> length (di_mods d) = length (snd l)"

definition mem_ov_idx :: "OperandValue \<Rightarrow> u64" where
  "mem_ov_idx o' = operand_value_as_i64 o'"

lemma field_idx_less: "f \<in> set names \<Longrightarrow> field_idx names f < length names"
  unfolding field_idx_def by (induction names) auto

lemma rd_op_shape:
  "has_shape l d \<Longrightarrow> f \<in> set (fst l) \<Longrightarrow> rd_op l f d = di_ops d ! field_idx (fst l) f"
  by (simp add: rd_op_def tail_operand_def has_shape_def field_idx_less)

lemma rd_mod_shape:
  assumes "has_shape l d" "Suc (field_idx (snd l) f) < length (snd l)"
  shows "rd_mod l f d = scast (di_mods d ! field_idx (snd l) f)"
  using assms by (simp add: rd_mod_def tail_word_def has_shape_def Let_def)

lemma rd_subclass_shape:
  assumes "has_shape l d" "Suc (field_idx (snd l) ''subclass'') = length (snd l)"
  shows "rd_subclass l d = ucast (di_mods d ! field_idx (snd l) ''subclass'')"
proof -
  have m: "(0xff :: u32) = mask 8" "(0xffffff00 :: u32) = NOT (mask 8)" by (simp_all add: mask_eq_exp_minus_1)
  have "ucast ((x AND 0xff) OR (y AND 0xffffff00)) = (ucast x :: u8)" for x y :: u32
    unfolding m by (rule bit_word_eqI) (auto simp: bit_simps)
  with assms show ?thesis by (simp add: rd_subclass_def tail_word_def has_shape_def Let_def)
qed

subsection \<open>The structs of the memory families\<close>

definition DecodedLDG5 :: Layout where
  "DecodedLDG5 =
    ([''Pu'', ''Rd'', ''Ra'', ''Ra_offset'', ''Pnz''],
     [''e'', ''cop'', ''sp2'', ''sz'', ''sem'', ''sco'', ''private_'', ''subclass''])"

definition DecodedLDG6 :: Layout where
  "DecodedLDG6 =
    ([''Pu'', ''Rd'', ''Ra'', ''Ra_URb'', ''Ra_offset'', ''Pnz''],
     [''e'', ''cop'', ''sp2'', ''sz'', ''sem'', ''sco'', ''private_'', ''input_reg_sz_32_dist'', ''input_reg_sz_64_dist'', ''subclass''])"

definition DecodedLDG7_0 :: Layout where
  "DecodedLDG7_0 =
    ([''Pu'', ''Rd'', ''memoryDescriptor'', ''Ra_URb'', ''Ra'', ''Ra_offset'', ''Pnz''],
     [''e'', ''cop'', ''sp2'', ''sz'', ''sem'', ''sco'', ''private_'', ''input_reg_sz_64_dist'', ''subclass''])"

definition DecodedLDG7_1 :: Layout where
  "DecodedLDG7_1 =
    ([''Rd2'', ''Rd'', ''Ra'', ''Ra_URb'', ''Ra_offset'', ''word_mask'', ''Pnz''],
     [''e'', ''cop'', ''cop2'', ''sp2'', ''sz'', ''sem'', ''sco'', ''private_'', ''input_reg_sz_32_bit75_dist'', ''input_reg_sz_64_bit75_dist'', ''subclass''])"

definition DecodedLDG8 :: Layout where
  "DecodedLDG8 =
    ([''Rd2'', ''Rd'', ''memoryDescriptor'', ''Ra_URb'', ''Ra'', ''Ra_offset'', ''word_mask'', ''Pnz''],
     [''e'', ''cop'', ''cop2'', ''sp2'', ''sz'', ''sem'', ''sco'', ''private_'', ''input_reg_sz_64_bit75_dist'', ''subclass''])"

definition DecodedSTG3 :: Layout where
  "DecodedSTG3 =
    ([''Ra'', ''Ra_offset'', ''Rb''],
     [''e'', ''cop'', ''sz'', ''sem'', ''sco'', ''private_'', ''order'', ''subclass''])"

definition DecodedSTG4 :: Layout where
  "DecodedSTG4 =
    ([''Ra'', ''Ra_URc'', ''Ra_offset'', ''Rb''],
     [''e'', ''cop'', ''sz'', ''sem'', ''sco'', ''private_'', ''order'', ''input_reg_sz_32_dist'', ''input_reg_sz_64_dist'', ''subclass''])"

definition DecodedSTG5 :: Layout where
  "DecodedSTG5 =
    ([''memoryDescriptor'', ''Ra_URc'', ''Ra'', ''Ra_offset'', ''Rb''],
     [''e'', ''cop'', ''sz'', ''sem'', ''sco'', ''private_'', ''order'', ''input_reg_sz_64_dist'', ''subclass''])"

definition DecodedSTG6 :: Layout where
  "DecodedSTG6 =
    ([''Ra'', ''Ra_URc'', ''Ra_offset'', ''Rb'', ''Rb2'', ''word_mask''],
     [''e'', ''cop'', ''cop2'', ''sz'', ''sem'', ''sco'', ''private_'', ''order'', ''input_reg_sz_32_bit75_dist'', ''input_reg_sz_64_bit75_dist'', ''subclass''])"

definition DecodedSTG7 :: Layout where
  "DecodedSTG7 =
    ([''memoryDescriptor'', ''Ra_URc'', ''Ra'', ''Ra_offset'', ''Rb'', ''Rb2'', ''word_mask''],
     [''e'', ''cop'', ''cop2'', ''sz'', ''sem'', ''sco'', ''private_'', ''order'', ''input_reg_sz_64_bit75_dist'', ''subclass''])"

definition DecodedLDS3 :: Layout where
  "DecodedLDS3 =
    ([''Rd'', ''Ra'', ''Ra_offset''],
     [''sz'', ''stride'', ''subclass''])"

definition DecodedLDS4 :: Layout where
  "DecodedLDS4 =
    ([''Rd'', ''Ra'', ''Ra_URb'', ''Ra_offset''],
     [''sz'', ''stride'', ''subclass''])"

definition DecodedSTS3 :: Layout where
  "DecodedSTS3 =
    ([''Ra'', ''Ra_offset'', ''Rb''],
     [''sz'', ''stride'', ''subclass''])"

definition DecodedSTS4 :: Layout where
  "DecodedSTS4 =
    ([''Ra'', ''Ra_URc'', ''Ra_offset'', ''Rb''],
     [''sz'', ''stride'', ''subclass''])"

definition DecodedLDL3 :: Layout where
  "DecodedLDL3 =
    ([''Rd'', ''Ra'', ''Ra_offset''],
     [''cop'', ''sz'', ''subclass''])"

definition DecodedLDL4 :: Layout where
  "DecodedLDL4 =
    ([''Rd'', ''Ra'', ''Ra_URb'', ''Ra_offset''],
     [''cop'', ''sz'', ''subclass''])"

definition DecodedLDL5 :: Layout where
  "DecodedLDL5 =
    ([''Rd'', ''memoryDescriptor'', ''Ra_URb'', ''Ra'', ''Ra_offset''],
     [''cop'', ''sz'', ''subclass''])"

definition DecodedSTL3 :: Layout where
  "DecodedSTL3 =
    ([''Ra'', ''Ra_offset'', ''Rb''],
     [''cop'', ''sz'', ''subclass''])"

definition DecodedSTL4 :: Layout where
  "DecodedSTL4 =
    ([''Ra'', ''Ra_URc'', ''Ra_offset'', ''Rb''],
     [''cop'', ''sz'', ''subclass''])"

definition DecodedSTL5 :: Layout where
  "DecodedSTL5 =
    ([''memoryDescriptor'', ''Ra_URc'', ''Ra'', ''Ra_offset'', ''Rb''],
     [''cop'', ''sz'', ''subclass''])"

definition DecodedLDC5_0 :: Layout where
  "DecodedLDC5_0 =
    ([''Rd'', ''Sa'', ''Sa_bank'', ''Ra'', ''Ra_offset''],
     [''sz'', ''ad'', ''subclass''])"

definition DecodedLDC5_1 :: Layout where
  "DecodedLDC5_1 =
    ([''Rd'', ''Sa'', ''URa'', ''Rb'', ''Sa_offset''],
     [''sz'', ''ad'', ''subclass''])"

definition DecodedLDCU4 :: Layout where
  "DecodedLDCU4 =
    ([''UPg'', ''URd'', ''URa'', ''Sa_offset''],
     [''sz'', ''texunpack'', ''subclass''])"

definition DecodedLDCU5 :: Layout where
  "DecodedLDCU5 =
    ([''UPg'', ''URd'', ''URa'', ''Sa_offset'', ''UPp''],
     [''sz'', ''texunpack'', ''subclass''])"

definition DecodedLDCU6_0 :: Layout where
  "DecodedLDCU6_0 =
    ([''UPg'', ''URd'', ''Sa'', ''Sa_bank'', ''URa'', ''Sa_offset''],
     [''sz'', ''texunpack'', ''subclass''])"

definition DecodedLDCU6_1 :: Layout where
  "DecodedLDCU6_1 =
    ([''UPg'', ''URd'', ''Sa'', ''URa'', ''URb'', ''Sa_offset''],
     [''sz'', ''texunpack'', ''subclass''])"

definition DecodedLDCU6_2 :: Layout where
  "DecodedLDCU6_2 =
    ([''UPg'', ''URd2'', ''URd'', ''URa'', ''Sa_offset'', ''word_mask''],
     [''sz'', ''subclass''])"

definition DecodedLDCU7 :: Layout where
  "DecodedLDCU7 =
    ([''UPg'', ''URd2'', ''URd'', ''URa'', ''Sa_offset'', ''word_mask'', ''UPp''],
     [''sz'', ''subclass''])"

definition DecodedLDCU8_0 :: Layout where
  "DecodedLDCU8_0 =
    ([''UPg'', ''URd2'', ''URd'', ''Sa'', ''Sa_bank'', ''URa'', ''Sa_offset'', ''word_mask''],
     [''sz'', ''subclass''])"

definition DecodedLDCU8_1 :: Layout where
  "DecodedLDCU8_1 =
    ([''UPg'', ''URd2'', ''URd'', ''Sa'', ''URa'', ''URb'', ''Sa_offset'', ''word_mask''],
     [''sz'', ''subclass''])"

definition DecodedATOM6_0 :: Layout where
  "DecodedATOM6_0 =
    ([''Pu'', ''Rd'', ''Ra'', ''Ra_URc'', ''Ra_offset'', ''wr_early''],
     [''e'', ''op'', ''cop'', ''sz'', ''sem'', ''sco'', ''private_'', ''input_reg_sz_32_100_dist'', ''input_reg_sz_64_100_dist'', ''subclass''])"

definition DecodedATOM6_1 :: Layout where
  "DecodedATOM6_1 =
    ([''Pu'', ''Rd'', ''Ra'', ''Ra_offset'', ''Rb'', ''wr_early''],
     [''e'', ''op'', ''cop'', ''sz'', ''sem'', ''sco'', ''private_'', ''subclass''])"

definition DecodedATOM7_0 :: Layout where
  "DecodedATOM7_0 =
    ([''Pu'', ''Rd'', ''Ra'', ''Ra_URc'', ''Ra_offset'', ''Rb'', ''wr_early''],
     [''e'', ''op'', ''cop'', ''sz'', ''sem'', ''sco'', ''private_'', ''input_reg_sz_32_100_dist'', ''input_reg_sz_64_100_dist'', ''subclass''])"

definition DecodedATOM7_1 :: Layout where
  "DecodedATOM7_1 =
    ([''Pu'', ''Rd'', ''Ra'', ''Ra_offset'', ''Rb'', ''Rc'', ''wr_early''],
     [''e'', ''cas'', ''cop'', ''sz'', ''sem'', ''sco'', ''private_'', ''spin'', ''subclass''])"

definition DecodedATOM8 :: Layout where
  "DecodedATOM8 =
    ([''Pu'', ''Rd'', ''memoryDescriptor'', ''Ra_URc'', ''Ra'', ''Ra_offset'', ''Rb'', ''wr_early''],
     [''e'', ''op'', ''cop'', ''sz'', ''sem'', ''sco'', ''private_'', ''input_reg_sz_64_100_dist'', ''subclass''])"

definition DecodedATOMS4_0 :: Layout where
  "DecodedATOMS4_0 =
    ([''Rd'', ''Ra'', ''Ra_URc'', ''Ra_offset''],
     [''op'', ''sz'', ''stride'', ''subclass''])"

definition DecodedATOMS4_1 :: Layout where
  "DecodedATOMS4_1 =
    ([''Rd'', ''Ra'', ''Ra_offset'', ''Rb''],
     [''op'', ''sz'', ''stride'', ''subclass''])"

definition DecodedATOMS5_0 :: Layout where
  "DecodedATOMS5_0 =
    ([''Pu'', ''Ra'', ''Ra_offset'', ''Rb'', ''Rc''],
     [''cas'', ''spin'', ''sz'', ''stride'', ''subclass''])"

definition DecodedATOMS5_1 :: Layout where
  "DecodedATOMS5_1 =
    ([''Rd'', ''Ra'', ''Ra_URc'', ''Ra_offset'', ''Rb''],
     [''op'', ''sz'', ''stride'', ''subclass''])"

definition DecodedATOMS5_2 :: Layout where
  "DecodedATOMS5_2 =
    ([''Rd'', ''Ra'', ''Ra_offset'', ''Rb'', ''Rc''],
     [''cas'', ''sz'', ''stride'', ''spin'', ''subclass''])"

definition DecodedATOMG5 :: Layout where
  "DecodedATOMG5 =
    ([''Pu'', ''Rd'', ''Ra'', ''Ra_offset'', ''Rb''],
     [''e'', ''op'', ''cop'', ''sz'', ''sem'', ''sco'', ''private_'', ''subclass''])"

definition DecodedATOMG6_0 :: Layout where
  "DecodedATOMG6_0 =
    ([''Pu'', ''Rd'', ''Ra'', ''Ra_URc'', ''Ra_offset'', ''Rb''],
     [''e'', ''op'', ''cop'', ''sz'', ''sem'', ''sco'', ''private_'', ''input_reg_sz_32_100_dist'', ''input_reg_sz_64_100_dist'', ''subclass''])"

definition DecodedATOMG6_1 :: Layout where
  "DecodedATOMG6_1 =
    ([''Pu'', ''Rd'', ''Ra'', ''Ra_offset'', ''Rb'', ''Rc''],
     [''e'', ''cas'', ''cop'', ''sz'', ''sem'', ''sco'', ''private_'', ''subclass''])"

definition DecodedATOMG7 :: Layout where
  "DecodedATOMG7 =
    ([''Pu'', ''Rd'', ''memoryDescriptor'', ''Ra_URc'', ''Ra'', ''Ra_offset'', ''Rb''],
     [''e'', ''op'', ''cop'', ''sz'', ''sem'', ''sco'', ''private_'', ''input_reg_sz_64_100_dist'', ''subclass''])"

definition DecodedREDG3 :: Layout where
  "DecodedREDG3 =
    ([''Ra'', ''Ra_offset'', ''Rb''],
     [''e'', ''op'', ''cop'', ''sz'', ''sem'', ''sco'', ''private_'', ''subclass''])"

definition DecodedREDG4 :: Layout where
  "DecodedREDG4 =
    ([''Ra'', ''Ra_URc'', ''Ra_offset'', ''Rb''],
     [''e'', ''op'', ''cop'', ''sz'', ''sem'', ''sco'', ''private_'', ''input_reg_sz_32_dist'', ''input_reg_sz_64_dist'', ''subclass''])"

definition DecodedREDG5 :: Layout where
  "DecodedREDG5 =
    ([''memoryDescriptor'', ''Ra_URc'', ''Ra'', ''Ra_offset'', ''Rb''],
     [''e'', ''op'', ''cop'', ''sz'', ''sem'', ''sco'', ''private_'', ''input_reg_sz_64_dist'', ''subclass''])"

definition DecodedREDS3 :: Layout where
  "DecodedREDS3 =
    ([''Ra'', ''Ra_offset'', ''Rb''],
     [''op'', ''sz'', ''stride'', ''subclass''])"

definition DecodedREDS4 :: Layout where
  "DecodedREDS4 =
    ([''Ra'', ''Ra_URc'', ''Ra_offset'', ''Rb''],
     [''op'', ''sz'', ''stride'', ''subclass''])"

definition DecodedLDGSTS6_0 :: Layout where
  "DecodedLDGSTS6_0 =
    ([''Rb'', ''Rb_URc'', ''Rb_offset'', ''Ra'', ''Ra_offset'', ''Pnz''],
     [''e'', ''loc'', ''cop'', ''sp2'', ''sz'', ''fc'', ''sem'', ''sco'', ''private_'', ''input_reg_sz_64_dist'', ''subclass''])"

definition DecodedLDGSTS6_1 :: Layout where
  "DecodedLDGSTS6_1 =
    ([''Rb'', ''Rb_offset'', ''Ra'', ''Ra_URc'', ''Ra_offset'', ''Pnz''],
     [''e'', ''loc'', ''cop'', ''sp2'', ''sz'', ''fc'', ''sem'', ''sco'', ''private_'', ''input_reg_sz_32_dist'', ''input_reg_sz_64_dist'', ''subclass''])"

definition DecodedLDGSTS7 :: Layout where
  "DecodedLDGSTS7 =
    ([''Rb'', ''Rb_offset'', ''memoryDescriptor'', ''Ra_URc'', ''Ra'', ''Ra_offset'', ''Pnz''],
     [''e'', ''loc'', ''cop'', ''sp2'', ''sz'', ''fc'', ''sem'', ''sco'', ''private_'', ''input_reg_sz_64_dist'', ''subclass''])"

definition DecodedLDGSTS8 :: Layout where
  "DecodedLDGSTS8 =
    ([''Rb'', ''Rb_URc'', ''Rb_offset'', ''memoryDescriptor'', ''Ra_URd'', ''Ra'', ''Ra_offset'', ''Pnz''],
     [''e'', ''loc'', ''cop'', ''sp2'', ''sz'', ''fc'', ''sem'', ''sco'', ''private_'', ''input_reg_sz_64_dist'', ''subclass''])"

definition DecodedMEMBAR0 :: Layout where
  "DecodedMEMBAR0 =
    ([],
     [''sem'', ''sco'', ''mmio'', ''subclass''])"

end
