(* ===== verification/Mem_Decode.thy ===== *)
theory Mem_Decode
  imports Decoded_Shapes Memory_Service
begin

text \<open>
  What a memory instruction asks for (\<open>src/interpreter/baseline/sm120/memory.cpp\<close>): the width
  and sign slot (\<open>mem_sz\<close>), the atomic operation (\<open>decode_atomic_op\<close>) and the address of a lane
  (\<open>resolve_mem_addr\<close>). Every definition selects the struct from the mnemonic and the variant
  class exactly as the code does, wrong casts included.
\<close>

subsection \<open>Width\<close>

definition sz_layout :: "DecodedInst \<Rightarrow> Layout option" where
  "sz_layout d =
     (case di_mnem d of
        kLDG \<Rightarrow> Some
          (if is_class [''ldg__sImmOffset'', ''ldg__uImmOffset''] d then DecodedLDG5
           else if is_class [''ldg_256_memdesc__Ra64'', ''ldg_256_rml2_memdesc__Ra64''] d then DecodedLDG8
           else if is_class [''ldg_memdesc__Ra64''] d then DecodedLDG7_0
           else DecodedLDG7_1)
      | kSTG \<Rightarrow> Some
          (if is_class [''stg__sImmOffset'', ''stg__uImmOffset''] d then DecodedSTG3
           else if is_class [''stg_uniform__Ra32'', ''stg_uniform__Ra64'', ''stg_uniform__RaRZ''] d then DecodedSTG4
           else if is_class [''stg_memdesc__Ra64''] d then DecodedSTG5
           else if is_class [''stg_256_uniform__Ra32'', ''stg_256_uniform__Ra64'', ''stg_256_uniform__RaRZ''] d
             then DecodedSTG6
           else DecodedSTG7)
      | kLDS \<Rightarrow> Some (if is_class [''lds_uniform_''] d then DecodedLDS4 else DecodedLDS3)
      | kSTS \<Rightarrow> Some (if is_class [''sts_uniform_''] d then DecodedSTS4 else DecodedSTS3)
      | kLDL \<Rightarrow> Some
          (if is_class [''ldl_uniform_''] d then DecodedLDL4
           else if is_class [''ldl_memdesc_''] d then DecodedLDL5 else DecodedLDL3)
      | kSTL \<Rightarrow> Some DecodedSTL3
      | kLDC \<Rightarrow> Some (if is_class [''ldc_ur__URRzI'', ''ldc_ur__URnonRzI''] d then DecodedLDC5_1 else DecodedLDC5_0)
      | kLDCU \<Rightarrow> Some
          (if is_class [''ldcu_ur_offs_optional_upx_''] d then DecodedLDCU4
           else if is_class [''ldcu_ur_offs_''] d then DecodedLDCU5
           else if is_class [''ldcu_256_ur_offs_''] d then DecodedLDCU7
           else if is_class [''ldcu_256_ur_offs_optional_upx_''] d then DecodedLDCU6_2
           else if is_class [''ldcu_const_RCR_''] d then DecodedLDCU6_0
           else if is_class [''ldcu_const_RCxR_''] d then DecodedLDCU6_1
           else if is_class [''ldcu_256_const_RCR_''] d then DecodedLDCU8_0
           else DecodedLDCU8_1)
      | kATOM \<Rightarrow> Some
          (if is_class [''atom_cas__RaNonRZ_CAS'', ''atom_cas__RaNonRZ_CAST'', ''atom_cas__RaRZ_CAS'',
               ''atom_cas__RaRZ_CAST''] d then DecodedATOM7_1
           else if is_class [''atom_arrive__Ra32_arrive'', ''atom_arrive__Ra32_popcinc'', ''atom_arrive__Ra64_arrive'',
               ''atom_arrive__Ra64_popcinc'', ''atom_arrive__RaRZ_arrive'', ''atom_arrive__RaRZ_popcinc''] d
             then DecodedATOM6_0
           else if is_class [''atom_fp__RaNonRZ'', ''atom_fp__RaRZ'', ''atom_int__RaNonRZ'', ''atom_int__RaRZ''] d
             then DecodedATOM6_1
           else DecodedATOM7_0)
      | kATOMS \<Rightarrow> Some
          (if is_class [''atoms_cas__RaNonRZ'', ''atoms_cas__RaRZ'', ''atoms_cast_destRd__RaNonRZ'',
               ''atoms_cast_destRd__RaRZ''] d then DecodedATOMS5_2
           else if is_class [''atoms_cast_destPu__RaNonRZ'', ''atoms_cast_destPu__RaRZ''] d then DecodedATOMS5_0
           else if is_class [''atoms_uniform_''] d then DecodedATOMS5_1
           else if is_class [''atoms__RaNonRZ'', ''atoms__RaRZ''] d then DecodedATOMS4_1
           else DecodedATOMS4_0)
      | kATOMG \<Rightarrow> Some
          (if is_class [''atomg_fp__RaNonRZ'', ''atomg_fp__RaRZ'', ''atomg_int__RaNonRZ'', ''atomg_int__RaRZ''] d
             then DecodedATOMG5
           else if is_class [''atomg_fp_uniform__memdesc'', ''atomg_int_uniform__memdesc''] d then DecodedATOMG7
           else if is_class [''atomg_cas__RaNonRZ'', ''atomg_cas__RaRZ''] d then DecodedATOMG6_1
           else DecodedATOMG6_0)
      | kREDG \<Rightarrow> Some
          (if is_class [''redg_fp__RaNonRZ'', ''redg_fp__RaRZ'', ''redg_int__RaNonRZ'', ''redg_int__RaRZ''] d
             then DecodedREDG3
           else if is_class [''redg_fp_uniform__memdesc'', ''redg_int_uniform__memdesc''] d then DecodedREDG5
           else DecodedREDG4)
      | kREDS \<Rightarrow> Some (if is_class [''atoms_reds_uniform_''] d then DecodedREDS4 else DecodedREDS3)
      | kLDGSTS \<Rightarrow> Some
          (if is_class [''ldgsts__desc_RRU''] d then DecodedLDGSTS7
           else if is_class [''ldgsts_memdesc_''] d then DecodedLDGSTS8
           else if is_class [''ldgsts__RUR'', ''ldgsts_no_ra__RUR''] d then DecodedLDGSTS6_0
           else DecodedLDGSTS6_1)
      | _ \<Rightarrow> None)"

definition mem_sz :: "DecodedInst \<Rightarrow> MemWidthInfo" where
  "mem_sz d = mem_width_info (case sz_layout d of None \<Rightarrow> 4 | Some l \<Rightarrow> rd_mod l ''sz'' d)"

subsection \<open>Atomic operation\<close>

text \<open>The operation, size and subclass slots; a compare-and-swap struct has no operation slot.\<close>

definition slots :: "Layout \<Rightarrow> DecodedInst \<Rightarrow> u64 \<times> u64 \<times> u8" where
  "slots l d = (rd_mod l ''op'' d, rd_mod l ''sz'' d, rd_subclass l d)"

definition slots_no_op :: "Layout \<Rightarrow> DecodedInst \<Rightarrow> u64 \<times> u64 \<times> u8" where
  "slots_no_op l d = (0, rd_mod l ''sz'' d, rd_subclass l d)"

definition atomic_slots :: "DecodedInst \<Rightarrow> (u64 \<times> u64 \<times> u8) option" where
  "atomic_slots d =
     (case di_mnem d of
        kATOM \<Rightarrow> Some
          (if is_class [''atom_int_uniform__Ra32'', ''atom_int_uniform__Ra64'', ''atom_int_uniform__RaRZ'',
               ''atom_fp_uniform__Ra32'', ''atom_fp_uniform__Ra64'', ''atom_fp_uniform__RaRZ''] d
             then slots DecodedATOM7_0 d
           else if is_class [''atom_cas__RaNonRZ_CAS'', ''atom_cas__RaNonRZ_CAST'', ''atom_cas__RaRZ_CAS'',
               ''atom_cas__RaRZ_CAST''] d then slots_no_op DecodedATOM7_1 d
           else if is_class [''atom_arrive__Ra32_arrive'', ''atom_arrive__Ra32_popcinc'', ''atom_arrive__Ra64_arrive'',
               ''atom_arrive__Ra64_popcinc'', ''atom_arrive__RaRZ_arrive'', ''atom_arrive__RaRZ_popcinc''] d
             then slots DecodedATOM6_0 d
           else slots DecodedATOM6_1 d)
      | kATOMS \<Rightarrow> Some
          (if is_class [''atoms_cas__RaNonRZ'', ''atoms_cas__RaRZ'', ''atoms_cast_destRd__RaNonRZ'',
               ''atoms_cast_destRd__RaRZ''] d then slots_no_op DecodedATOMS5_2 d
           else if is_class [''atoms_cast_destPu__RaNonRZ'', ''atoms_cast_destPu__RaRZ''] d
             then slots_no_op DecodedATOMS5_0 d
           else if is_class [''atoms_uniform_''] d then slots DecodedATOMS5_1 d
           else if is_class [''atoms__RaNonRZ'', ''atoms__RaRZ''] d then slots DecodedATOMS4_1 d
           else slots DecodedATOMS4_0 d)
      | kATOMG \<Rightarrow> Some
          (if is_class [''atomg_fp__RaNonRZ'', ''atomg_fp__RaRZ'', ''atomg_int__RaNonRZ'', ''atomg_int__RaRZ''] d
             then slots DecodedATOMG5 d
           else if is_class [''atomg_fp_uniform__memdesc'', ''atomg_int_uniform__memdesc''] d
             then slots DecodedATOMG7 d
           else if is_class [''atomg_cas__RaNonRZ'', ''atomg_cas__RaRZ''] d then slots_no_op DecodedATOMG6_1 d
           else slots DecodedATOMG6_0 d)
      | kREDG \<Rightarrow> Some
          (if is_class [''redg_fp__RaNonRZ'', ''redg_fp__RaRZ'', ''redg_int__RaNonRZ'', ''redg_int__RaRZ''] d
             then slots DecodedREDG3 d
           else if is_class [''redg_fp_uniform__memdesc'', ''redg_int_uniform__memdesc''] d
             then slots DecodedREDG5 d
           else slots DecodedREDG4 d)
      | kREDS \<Rightarrow> Some (if is_class [''atoms_reds_uniform_''] d then slots DecodedREDS4 d else slots DecodedREDS3 d)
      | _ \<Rightarrow> None)"

definition atomic_op_of :: "u64 \<Rightarrow> u64 \<Rightarrow> AtomicOp option" where
  "atomic_op_of opv szv =
     (let signed_size = (szv = 1 \<or> szv = 3) in
      if opv = 0 then Some kAdd
      else if opv = 1 then Some (if signed_size then kMinSigned else kMin)
      else if opv = 2 then Some (if signed_size then kMaxSigned else kMax)
      else if opv = 3 then (if szv = 0 then Some kInc else None)
      else if opv = 4 then (if szv = 0 then Some kDec else None)
      else if opv = 5 then Some kAnd
      else if opv = 6 then Some kOr
      else if opv = 7 then Some kXor
      else if opv = 8 then Some kExch
      else None)"

definition decode_atomic_op :: "DecodedInst \<Rightarrow> AtomicOp option" where
  "decode_atomic_op d =
     (case atomic_slots d of
        None \<Rightarrow> None
      | Some (opv, szv, subclass) \<Rightarrow> if subclass AND 16 \<noteq> 0 then None else atomic_op_of opv szv)"

subsection \<open>Address\<close>

definition global_layout :: "DecodedInst \<Rightarrow> Layout" where
  "global_layout d =
     (if di_mnem d = kLDG then
        (if is_class [''ldg__sImmOffset'', ''ldg__uImmOffset''] d then DecodedLDG5
         else if is_class [''ldg_memdesc__Ra64'', ''ldg_256_memdesc__Ra64'', ''ldg_256_rml2_memdesc__Ra64''] d
           then DecodedLDG8
         else DecodedLDG7_1)
      else if di_mnem d = kSTG \<or> di_mnem d = kSTL then
        (if di_mnem d = kSTL \<or> is_class [''stg__sImmOffset'', ''stg__uImmOffset''] d then DecodedSTG3
         else if is_class [''stg_uniform__Ra32'', ''stg_uniform__Ra64'', ''stg_uniform__RaRZ'',
             ''stg_256_uniform__Ra32'', ''stg_256_uniform__Ra64'', ''stg_256_uniform__RaRZ''] d then DecodedSTG4
         else DecodedSTG5)
      else if di_mnem d = kLDL then
        (if is_class [''ldl_uniform_''] d then DecodedLDL4
         else if is_class [''ldl_memdesc_''] d then DecodedLDL5 else DecodedLDL3)
      else
        (if is_class [''atomg_fp_uniform__memdesc'', ''atomg_int_uniform__memdesc'', ''redg_fp_uniform__memdesc'',
             ''redg_int_uniform__memdesc''] d then DecodedATOMG7
         else DecodedATOMG5))"

definition shared_layout :: "Mnemonic \<Rightarrow> Layout" where
  "shared_layout m =
     (if m = kLDS then DecodedLDS3 else if m = kSTS then DecodedSTS3
      else if m = kATOMS then DecodedATOMS4_1 else DecodedREDS3)"

definition constant_addr :: "DecodedInst \<Rightarrow> ThreadState \<Rightarrow> WarpState \<Rightarrow> u64" where
  "constant_addr d t w =
     (let op = opcode_of (fst (di_word d)) (snd (di_word d));
          i64 = (\<lambda>l f. operand_value_as_i64 (rd_op l f d));
          ur = (\<lambda>l. ucast (read_ur_ov w (rd_op l ''URa'' d)));
          (bank, base_v, off) =
            (if op = 0xb82 then (i64 DecodedLDC5_0 ''Sa_bank'', ucast (read_reg_ov t (rd_op DecodedLDC5_0 ''Ra'' d)),
               i64 DecodedLDC5_0 ''Ra_offset'')
             else if op = 0x17ac then (i64 DecodedLDCU6_0 ''Sa_bank'', ur DecodedLDCU6_0, i64 DecodedLDCU6_0 ''Sa_offset'')
             else if op = 0x1dac then (i64 DecodedLDCU8_0 ''Sa_bank'', ur DecodedLDCU8_0, i64 DecodedLDCU8_0 ''Sa_offset'')
             else if op = 0x1bac then (0, ur DecodedLDCU6_1, i64 DecodedLDCU6_1 ''Sa_offset'')
             else if op = 0x13ac then (0, ur DecodedLDCU6_2, i64 DecodedLDCU6_2 ''Sa_offset'')
             else if op = 0x19ac then (0, ur DecodedLDCU5, i64 DecodedLDCU5 ''Sa_offset'')
             else if op = 0x15ac then (0, ur DecodedLDCU8_1, i64 DecodedLDCU8_1 ''Sa_offset'')
             else (0, 0, 0))
      in bank * 0x10000 + base_v + off)"

text \<open>The base address, the displacement, the width in bytes and the space.\<close>

definition resolve_mem_addr :: "DecodedInst \<Rightarrow> ThreadState \<Rightarrow> WarpState \<Rightarrow> (u64 \<times> u64 \<times> u64 \<times> AddressSpace) StatusOr" where
  "resolve_mem_addr d t w =
     (let width = mem_sz d;
          pair_at = (\<lambda>l space. success (read_addr_pair_ov t (rd_op l ''Ra'' d),
                       operand_value_as_i64 (rd_op l ''Ra_offset'' d), mw_bytes width, space));
          reg_at = (\<lambda>l space. success (ucast (read_reg_ov t (rd_op l ''Ra'' d)),
                       operand_value_as_i64 (rd_op l ''Ra_offset'' d), mw_bytes width, space))
      in case di_mnem d of
           kLDG \<Rightarrow> pair_at (global_layout d) kGlobal
         | kSTG \<Rightarrow> pair_at (global_layout d) kGlobal
         | kSTL \<Rightarrow> pair_at (global_layout d) kLocal
         | kLDL \<Rightarrow> pair_at (global_layout d) kLocal
         | kLDS \<Rightarrow> reg_at (shared_layout kLDS) kShared
         | kSTS \<Rightarrow> reg_at (shared_layout kSTS) kShared
         | kATOMS \<Rightarrow> reg_at (shared_layout kATOMS) kShared
         | kREDS \<Rightarrow> reg_at (shared_layout kREDS) kShared
         | kLDC \<Rightarrow> success (constant_addr d t w, 0, mw_bytes width, kConstant)
         | kLDCU \<Rightarrow> success (constant_addr d t w, 0, mw_bytes width, kConstant)
         | kATOMG \<Rightarrow> pair_at (global_layout d) kGlobal
         | kREDG \<Rightarrow> pair_at (global_layout d) kGlobal
         | kATOM \<Rightarrow> reg_at DecodedATOM6_1 kGlobal
         | m \<Rightarrow> failure (unimplemented (''memory address resolve for '' @ [CHR 0x27] @ mnemonic_name m @ [CHR 0x27])))"

end
