(* ===== verification/Mem_Record.thy ===== *)
theory Mem_Record
  imports Race_Detector Subcore Warp_State Memory_Service Decoded_Shapes
begin

text \<open>
  The records the interpreter keeps of its memory accesses: the race-event log with a sequence
  number per CTA, the L2 request descriptors, the L1TEX issue events and the debugger's access
  list (\<open>interpreter.hpp\<close>, \<open>semu/memory/memory_events.hpp\<close>, \<open>record_*\<close> of
  \<open>src/interpreter/baseline/sm120/core.cpp\<close>), and what the launch does with the merged logs:
  the ordered replay into the race detector, the order of the L2 requests and the renumbering of
  the event ids (\<open>sm120_shared.hpp\<close>, \<open>core.cpp\<close>).
\<close>

subsection \<open>Records\<close>

datatype RaceEventKind = evObserve | evCtaBarrier | evFence | evAtomic

definition no_access :: RaceAccess where
  "no_access = \<lparr>rc_instruction = 0, rc_pc = 0, rc_mnemonic = [], rc_space = kGlobal, rc_alloc_id = 0,
     rc_generation = 0, rc_cta = 0, rc_sm = 0, rc_warp = 0, rc_lane = 0, rc_begin = 0, rc_end = 0,
     rc_is_write = False, rc_is_atomic = False, rc_atomic_op = [], rc_mem_order = [], rc_scope = [],
     rc_order_scope_ok = []\<rparr>"

record RaceEvent =
  re_kind :: RaceEventKind
  re_cta :: u32
  re_sm :: u32
  re_ordinal :: u64
  re_access :: RaceAccess
  re_warps :: "u32 list"
  re_warp :: u32
  re_scope :: string

record L2RequestDescriptor =
  l2_cta :: u32
  l2_sm :: u32
  l2_subcore :: u32
  l2_warp :: u32
  l2_lane :: u32
  l2_ordinal :: u64
  l2_pc :: u64
  l2_mnemonic :: string
  l2_request_kind :: string
  l2_addr :: u64
  l2_len :: u64

record StepMemAccess =
  sa_lane :: u32
  sa_space :: AddressSpace
  sa_address :: u64
  sa_width :: u64
  sa_write :: bool
  sa_atomic :: bool

record LaneByteRange =
  lr_base :: u64
  lr_len :: u64
  lr_active :: bool

definition no_range :: LaneByteRange where
  "no_range = \<lparr>lr_base = 0, lr_len = 0, lr_active = False\<rparr>"

datatype MemoryEventKind = evL1TexIssue | evTokenService | evL2Request | evL2Completion

datatype EventAddressSpace = evGlobal | evConstant | evShared | evLocal

text \<open>One sealed 128-byte token of a coupled transfer.\<close>

record TokenServiceEvent =
  tk_token_id :: u64
  tk_active_lanes :: u32
  tk_read_wf :: int
  tk_write_wf :: int
  tk_overlap_wf :: int
  tk_shared_wf :: int
  tk_read_bank_span_mask :: u32
  tk_write_bank_span_mask :: u32

record MemoryEvent =
  me_kind :: MemoryEventKind
  me_event_id :: u64
  me_parent_event_id :: u64
  me_instruction :: u64
  me_sm :: u32
  me_subcore :: u32
  me_cta :: u32
  me_warp :: u32
  me_active_mask :: u32
  me_pc :: u64
  me_mnemonic :: string
  me_request_kind :: string
  me_element_width :: u32
  me_coupled :: bool
  me_prediction :: bool
  me_model_version :: string
  me_predicted_shared_wf :: int
  me_tokens :: "TokenServiceEvent list"
  me_sector :: u64
  me_sectors :: "u64 list"
  me_issue_tick :: u64
  me_tie_reason :: string
  me_address_space :: EventAddressSpace
  me_is_write :: bool
  me_lane_ranges :: "LaneByteRange list"
  me_ldgsts_goff :: "u32 list"
  me_ldgsts_soff :: "u32 list"
  me_variant_class :: string
  me_cache_policy :: string
  me_miss_path :: string
  me_request_id :: u64

text \<open>The default member initialisers.\<close>

definition new_event :: MemoryEvent where
  "new_event = \<lparr>me_kind = evL1TexIssue, me_event_id = 0, me_parent_event_id = 0, me_instruction = 0, me_sm = 0,
     me_subcore = 0, me_cta = 0, me_warp = 0, me_active_mask = 0, me_pc = 0, me_mnemonic = [], me_request_kind = [],
     me_element_width = 4, me_coupled = False, me_prediction = False, me_model_version = [], me_predicted_shared_wf = 0,
     me_tokens = [], me_sector = 0, me_sectors = [], me_issue_tick = 0, me_tie_reason = [], me_address_space = evGlobal,
     me_is_write = False, me_lane_ranges = [], me_ldgsts_goff = [], me_ldgsts_soff = [], me_variant_class = [],
     me_cache_policy = [], me_miss_path = [], me_request_id = 0\<rparr>"

text \<open>The members of \<open>Interpreter\<close> and of its options that the recorders use.\<close>

record Tracer =
  tr_race_on :: bool          \<comment> \<open>a detector is attached and enabled\<close>
  tr_l2_on :: bool            \<comment> \<open>the L2 engine is attached and enabled\<close>
  tr_debug_on :: bool
  tr_l1tex_on :: bool         \<comment> \<open>the L1TEX mode is not off\<close>
  tr_sm_count :: u32
  tr_mapper :: ISubcoreMapper
  tr_executed :: u64
  tr_race_log :: "RaceEvent list"
  tr_race_ordinal :: "(u32, u64) omap"
  tr_l2_log :: "L2RequestDescriptor list"
  tr_l2_ordinal :: "(u32, u64) omap"
  tr_debug :: "StepMemAccess list"
  tr_events :: "MemoryEvent list"
  tr_l1tex :: SmL1TexState

subsection \<open>Topology\<close>

definition sm_of_cta :: "LaunchEnv \<Rightarrow> Tracer \<Rightarrow> u32 \<Rightarrow> u32" where
  "sm_of_cta env tr cta =
     (let n = (if tr_sm_count tr > 0 then tr_sm_count tr else 1)
      in if n > 1 then cta mod n else le_sm_id env)"

definition warp_linear_id :: "LaunchEnv \<Rightarrow> WarpState \<Rightarrow> u64" where
  "warp_linear_id env w =
     (case le_block env of (bx, by', bz) \<Rightarrow>
        let block_threads = ucast bx * ucast by' * ucast bz;
            warps_per_cta = (block_threads + 32 - 1) div 32
        in word_of_nat (w_cta_id w) * warps_per_cta + word_of_nat (w_warp_id w))"

subsection \<open>Appending records\<close>

text \<open>\<open>race_ordinal_[cta]++\<close>: the value before, and the map after.\<close>

definition next_ordinal :: "u32 \<Rightarrow> (u32, u64) omap \<Rightarrow> u64 \<times> (u32, u64) omap" where
  "next_ordinal cta m = (om_at 0 m cta, om_put cta (om_at 0 m cta + 1) m)"

definition push_race_event :: "(u64 \<Rightarrow> RaceEvent) \<Rightarrow> u32 \<Rightarrow> Tracer \<Rightarrow> Tracer" where
  "push_race_event ev cta tr =
     (case next_ordinal cta (tr_race_ordinal tr) of (n, m) \<Rightarrow>
        tr\<lparr>tr_race_ordinal := m, tr_race_log := tr_race_log tr @ [ev n]\<rparr>)"

definition record_race_access :: "LaunchEnv \<Rightarrow> WarpState \<Rightarrow> DecodedInst \<Rightarrow> u64 \<Rightarrow> nat \<Rightarrow> AddressSpace \<Rightarrow> u64 \<Rightarrow> u64 \<Rightarrow>
    bool \<Rightarrow> bool \<Rightarrow> string \<Rightarrow> string \<Rightarrow> MemoryService \<Rightarrow> Tracer \<Rightarrow> Tracer" where
  "record_race_access env w d pc lane space addr len is_write is_atomic mem_order scope ms tr =
     (if \<not> tr_race_on tr then tr
      else
        let cta = word_of_nat (w_cta_id w);
            a = \<lparr>rc_instruction = tr_executed tr, rc_pc = pc, rc_mnemonic = mnemonic_name (di_mnem d),
                 rc_space = space, rc_alloc_id = (if space = kGlobal then global_allocation_id ms else 0),
                 rc_generation = 0, rc_cta = cta, rc_sm = sm_of_cta env tr cta,
                 rc_warp = word_of_nat (w_warp_id w), rc_lane = word_of_nat lane,
                 rc_begin = addr, rc_end = addr + len, rc_is_write = is_write, rc_is_atomic = is_atomic,
                 rc_atomic_op = (if is_atomic then mnemonic_name (di_mnem d) else []),
                 rc_mem_order = mem_order, rc_scope = scope,
                 rc_order_scope_ok = classify_order_scope mem_order scope\<rparr>
        in push_race_event (\<lambda>n. \<lparr>re_kind = (if is_atomic then evAtomic else evObserve), re_cta = cta,
             re_sm = rc_sm a, re_ordinal = n, re_access = a, re_warps = [], re_warp = 0, re_scope = []\<rparr>) cta tr)"

definition fence_event :: "LaunchEnv \<Rightarrow> string \<Rightarrow> WarpState \<Rightarrow> Tracer \<Rightarrow> Tracer" where
  "fence_event env scope w tr =
     (let cta = word_of_nat (w_cta_id w)
      in push_race_event (\<lambda>n. \<lparr>re_kind = evFence, re_cta = cta, re_sm = sm_of_cta env tr cta, re_ordinal = n,
           re_access = no_access, re_warps = [], re_warp = word_of_nat (w_warp_id w), re_scope = scope\<rparr>) cta tr)"

definition record_l2_access :: "LaunchEnv \<Rightarrow> WarpState \<Rightarrow> DecodedInst \<Rightarrow> u64 \<Rightarrow> string \<Rightarrow> AddressSpace \<Rightarrow> u64 \<Rightarrow> u64 \<Rightarrow> nat \<Rightarrow>
    Tracer \<Rightarrow> Tracer" where
  "record_l2_access env w d pc request_kind space addr len lane tr =
     (if \<not> tr_l2_on tr \<or> space \<noteq> kGlobal then tr
      else
        let cta = word_of_nat (w_cta_id w) in
        case next_ordinal cta (tr_l2_ordinal tr) of (n, m) \<Rightarrow>
          tr\<lparr>tr_l2_ordinal := m,
             tr_l2_log := tr_l2_log tr @
               [\<lparr>l2_cta = cta, l2_sm = sm_of_cta env tr cta, l2_subcore = tr_mapper tr (warp_linear_id env w),
                 l2_warp = word_of_nat (w_warp_id w), l2_lane = word_of_nat lane, l2_ordinal = n, l2_pc = pc,
                 l2_mnemonic = mnemonic_name (di_mnem d), l2_request_kind = request_kind,
                 l2_addr = addr, l2_len = len\<rparr>]\<rparr>)"

definition record_debug_access :: "nat \<Rightarrow> AddressSpace \<Rightarrow> u64 \<Rightarrow> u64 \<Rightarrow> bool \<Rightarrow> bool \<Rightarrow> Tracer \<Rightarrow> Tracer" where
  "record_debug_access lane space addr len is_write is_atomic tr =
     (if \<not> tr_debug_on tr then tr
      else tr\<lparr>tr_debug := tr_debug tr @
        [\<lparr>sa_lane = word_of_nat lane, sa_space = space, sa_address = addr, sa_width = len,
          sa_write = is_write, sa_atomic = is_atomic\<rparr>]\<rparr>)"

definition event_space :: "AddressSpace \<Rightarrow> EventAddressSpace" where
  "event_space space =
     (if space = kShared then evShared else if space = kConstant then evConstant
      else if space = kLocal then evLocal else evGlobal)"

definition record_memory_event :: "LaunchEnv \<Rightarrow> WarpState \<Rightarrow> DecodedInst \<Rightarrow> u64 \<Rightarrow> u32 \<Rightarrow> string \<Rightarrow> u32 \<Rightarrow> AddressSpace \<Rightarrow>
    bool \<Rightarrow> LaneByteRange list \<Rightarrow> u32 \<Rightarrow> Tracer \<Rightarrow> Tracer" where
  "record_memory_event env w d pc m request_kind element_width space is_write lane_ranges committed tr =
     (if \<not> tr_l1tex_on tr then tr
      else
        case issue_on_subcore (tr_mapper tr) (warp_linear_id env w) (tr_l1tex tr) of (ir, l1) \<Rightarrow>
          tr\<lparr>tr_l1tex := l1,
             tr_events := tr_events tr @
               [new_event\<lparr>me_kind := evL1TexIssue, me_event_id := ir_event_id ir,
                 me_instruction := tr_executed tr, me_sm := sm_of_cta env tr (word_of_nat (w_cta_id w)),
                 me_subcore := ir_subcore ir, me_cta := word_of_nat (w_cta_id w), me_warp := word_of_nat (w_warp_id w),
                 me_active_mask := (if committed \<noteq> 0 then committed else m), me_pc := pc,
                 me_mnemonic := mnemonic_name (di_mnem d), me_request_kind := request_kind,
                 me_element_width := element_width, me_issue_tick := ir_issue_tick ir,
                 me_coupled := False, me_prediction := False,
                 me_variant_class := di_class d, me_cache_policy := ''default'',
                 me_miss_path := ''l1-access'', me_address_space := event_space space, me_is_write := is_write,
                 me_lane_ranges := lane_ranges\<rparr>]\<rparr>)"

subsection \<open>The merged logs\<close>

text \<open>
  \<open>std::sort\<close> by CTA, then ordinal, then (for the L2 requests) lane. It is not stable; the keys
  it sorts by are distinct, so the order is determined.
\<close>

definition race_key :: "RaceEvent \<Rightarrow> u32 \<times> u64" where
  "race_key ev = (re_cta ev, re_ordinal ev)"

definition l2_key :: "L2RequestDescriptor \<Rightarrow> u32 \<times> u64 \<times> u32" where
  "l2_key r = (l2_cta r, l2_ordinal r, l2_lane r)"

definition replay_event :: "RaceEvent \<Rightarrow> RaceDetector \<Rightarrow> RaceDetector" where
  "replay_event ev det =
     (case re_kind ev of
        evObserve \<Rightarrow> snd (observe (re_access ev) det)
      | evAtomic \<Rightarrow> atomic_access (re_access ev) det
      | evCtaBarrier \<Rightarrow> cta_barrier (re_cta ev) (re_sm ev) (re_warps ev) det
      | evFence \<Rightarrow> fence (re_cta ev) (re_sm ev) (re_warp ev) (re_scope ev) det)"

definition replay_race_log :: "RaceEvent list \<Rightarrow> RaceDetector \<Rightarrow> RaceEvent list \<times> RaceDetector" where
  "replay_race_log log det =
     (if \<not> rd_enabled det \<or> log = [] then (log, det)
      else ([], fold replay_event (sort_key race_key log) det))"

definition order_l2_log :: "L2RequestDescriptor list \<Rightarrow> L2RequestDescriptor list" where
  "order_l2_log log = sort_key l2_key log"

text \<open>Renumbering: the remap from the old ids seen so far and the next id are the state of the loop.\<close>

fun renumber :: "(u64, u64) omap \<Rightarrow> u64 \<Rightarrow> MemoryEvent list \<Rightarrow> MemoryEvent list" where
  "renumber remap next_id [] = []"
| "renumber remap next_id (ev # evs) =
     (let ev' = (case om_find remap (me_parent_event_id ev) of
                   None \<Rightarrow> ev | Some p \<Rightarrow> ev\<lparr>me_parent_event_id := p\<rparr>);
          n = next_id + 1
      in ev'\<lparr>me_event_id := n\<rparr> # renumber (om_put (me_event_id ev) n remap) n evs)"

definition normalize_memory_event_ids :: "MemoryEvent list \<Rightarrow> MemoryEvent list" where
  "normalize_memory_event_ids evs = renumber [] 0 evs"

end
