(* ===== verification/Mem_Inst.thy ===== *)
theory Mem_Inst
  imports Mem_Decode Mem_Record Execute
begin

text \<open>
  The memory instructions of the interpreter (\<open>mem_ldst_atom_core\<close> and the \<open>do_*\<close> handlers of
  \<open>src/interpreter/baseline/sm120/memory.cpp\<close>, \<open>do_ldcu\<close> of \<open>scalar.cpp\<close>): the per-lane loop of
  loads, stores and atomics over the global backing, the CTA's shared bytes, the constant window
  and the warp's local bytes, with the records of every access. The outer option is \<open>None\<close> where
  the memory service would dereference its null backing.
\<close>

subsection \<open>State of the loop\<close>

text \<open>What an instruction changes: its warp, the shared bytes of its CTA, the memory service, the records.\<close>

record MemCtx =
  mx_warp :: WarpState
  mx_shared :: bytes
  mx_service :: MemoryService
  mx_trace :: Tracer

text \<open>The profiler locals of the core.\<close>

record Prof =
  pf_lanes :: "LaneByteRange list"
  pf_committed :: u32
  pf_space :: AddressSpace
  pf_width :: u32

definition new_prof :: Prof where
  "new_prof = \<lparr>pf_lanes = replicate 32 no_range, pf_committed = 0, pf_space = kGlobal, pf_width = 0\<rparr>"

text \<open>The arguments a handler passes to the core.\<close>

record CoreArgs =
  ca_load :: bool
  ca_atom :: bool
  ca_rd :: u64
  ca_rb :: u64
  ca_cas :: u64
  ca_sz :: u64
  ca_sem :: u64
  ca_sco :: u64

definition load_args :: "u64 \<Rightarrow> CoreArgs" where
  "load_args rd = \<lparr>ca_load = True, ca_atom = False, ca_rd = rd, ca_rb = 255, ca_cas = 255, ca_sz = 0, ca_sem = 0, ca_sco = 0\<rparr>"

definition store_args :: "u64 \<Rightarrow> CoreArgs" where
  "store_args rb = \<lparr>ca_load = False, ca_atom = False, ca_rd = 255, ca_rb = rb, ca_cas = 255, ca_sz = 0, ca_sem = 0, ca_sco = 0\<rparr>"

definition atom_args :: "u64 \<Rightarrow> u64 \<Rightarrow> u64 \<Rightarrow> u64 \<Rightarrow> u64 \<Rightarrow> u64 \<Rightarrow> CoreArgs" where
  "atom_args rd rb cas sz sem sco =
     \<lparr>ca_load = False, ca_atom = True, ca_rd = rd, ca_rb = rb, ca_cas = cas, ca_sz = sz, ca_sem = sem, ca_sco = sco\<rparr>"

definition upd_lane :: "nat \<Rightarrow> (ThreadState \<Rightarrow> ThreadState) \<Rightarrow> MemCtx \<Rightarrow> MemCtx" where
  "upd_lane lane f x =
     x\<lparr>mx_warp := (mx_warp x)\<lparr>w_threads := (w_threads (mx_warp x))[lane := f (w_threads (mx_warp x) ! lane)]\<rparr>\<rparr>"

definition commit_lane :: "nat \<Rightarrow> AddressSpace \<Rightarrow> u64 \<Rightarrow> u64 \<Rightarrow> Prof \<Rightarrow> Prof" where
  "commit_lane lane space addr len p =
     p\<lparr>pf_lanes := (pf_lanes p)[lane := \<lparr>lr_base = addr, lr_len = len, lr_active = True\<rparr>],
       pf_committed := pf_committed p OR push_bit lane 1, pf_space := space, pf_width := ucast len\<rparr>"

subsection \<open>Registers of a value\<close>

text \<open>A value of more than four bytes takes two registers, of more than eight four; the index stops at 255.\<close>

definition put_value :: "u64 \<Rightarrow> u64 \<Rightarrow> MemValue \<Rightarrow> ThreadState \<Rightarrow> ThreadState" where
  "put_value r nbytes v t =
     (if r = 255 \<or> unat r \<ge> kNumGprs then t
      else
        let i = unat r; put = (\<lambda>j x g. if i + j < kNumGprs then g[i + j := x] else g);
            g = (t_gpr t)[i := v ! 0];
            g = (if nbytes > 4 then put 1 (v ! 1) g else g);
            g = (if nbytes > 8 then put 3 (v ! 3) (put 2 (v ! 2) g) else g)
        in t\<lparr>t_gpr := g\<rparr>)"

definition get_value :: "u64 \<Rightarrow> u64 \<Rightarrow> ThreadState \<Rightarrow> MemValue" where
  "get_value r nbytes t =
     (if r = 255 \<or> unat r \<ge> kNumGprs then zero_value
      else
        let i = unat r; get = (\<lambda>j. if i + j < kNumGprs then t_gpr t ! (i + j) else 0)
        in [get 0, if nbytes > 4 then get 1 else 0,
            if nbytes > 8 then get 2 else 0, if nbytes > 8 then get 3 else 0])"

subsection \<open>The address of a lane\<close>

definition lane_fault :: "FaultKind \<Rightarrow> string \<Rightarrow> u64 \<Rightarrow> u32 \<Rightarrow> WarpState \<Rightarrow> Fault" where
  "lane_fault k msg pc m w =
     set_active_mask m (set_warp (word_of_nat (w_warp_id w)) (set_pc pc (mk_fault k msg)))"

definition service_fault :: "Error \<Rightarrow> u64 \<Rightarrow> u32 \<Rightarrow> WarpState \<Rightarrow> Fault" where
  "service_fault e pc m w = set_active_mask m (memory_error_to_fault e pc (word_of_nat (w_warp_id w)))"

definition atom_bytes :: "u64 \<Rightarrow> u64" where
  "atom_bytes sz = (if sz = 2 \<or> sz = 3 then 8 else if sz = 4 then 16 else 4)"

text \<open>The space, the effective address and the width, or the fault.\<close>

definition lane_access :: "DecodedInst \<Rightarrow> CoreArgs \<Rightarrow> u64 \<Rightarrow> u32 \<Rightarrow> WarpState \<Rightarrow> ThreadState \<Rightarrow>
    Fault + AddressSpace \<times> u64 \<times> MemWidthInfo" where
  "lane_access d a pc m w t =
     (case resolve_mem_addr d t w of
        Inl e \<Rightarrow> Inl (lane_fault kIllegalMemoryAccess (message e) pc m w)
      | Inr (addr, off, width, space) \<Rightarrow>
          let wi = (mem_sz d)\<lparr>mw_bytes := width\<rparr> in
          if \<not> mw_valid wi then Inl (lane_fault kIllegalMemoryAccess ''invalid memory width slot'' pc m w)
          else
            let wi = (if ca_atom a then wi\<lparr>mw_bytes := atom_bytes (ca_sz a)\<rparr> else wi) in
            if space = kConstant then Inr (space, addr, wi)
            else
              case checked_add addr off of
                None \<Rightarrow> Inl (lane_fault kIllegalMemoryAccess ''memory address overflow'' pc m w)
              | Some effective \<Rightarrow> Inr (space, effective, wi))"

subsection \<open>One lane\<close>

type_synonym LaneResult = "(Fault option \<times> MemCtx \<times> Prof) option"

definition load_from :: "AddressSpace \<Rightarrow> u64 \<Rightarrow> MemWidthInfo \<Rightarrow> MemCtx \<Rightarrow> (Status \<times> MemValue \<times> MemCtx) option" where
  "load_from space addr wi x =
     (case space of
        kGlobal \<Rightarrow>
          map_option (\<lambda>(st, v, ms). (st, v, x\<lparr>mx_service := ms\<rparr>)) (ldg 0 addr 0 wi zero_value (mx_service x))
      | kShared \<Rightarrow> (case lds (mx_shared x) addr 0 wi zero_value of (st, v) \<Rightarrow> Some (st, v, x))
      | kConstant \<Rightarrow> (case ldc 0 addr wi zero_value (mx_service x) of (st, v) \<Rightarrow> Some (st, v, x))
      | kLocal \<Rightarrow> (case lds (w_local (mx_warp x)) addr 0 wi zero_value of (st, v) \<Rightarrow> Some (st, v, x)))"

definition lane_load :: "LaunchEnv \<Rightarrow> DecodedInst \<Rightarrow> CoreArgs \<Rightarrow> u64 \<Rightarrow> u32 \<Rightarrow> nat \<Rightarrow> AddressSpace \<Rightarrow> u64 \<Rightarrow> MemWidthInfo \<Rightarrow>
    MemCtx \<Rightarrow> Prof \<Rightarrow> LaneResult" where
  "lane_load env d a pc m lane space addr wi x p =
     (let w = mx_warp x; n = mw_bytes wi; ms = mx_service x;
          tr = (if space = kGlobal then record_l2_access env w d pc ''load'' space addr n lane (mx_trace x) else mx_trace x);
          tr = (if space = kShared \<or> space = kGlobal
                then record_race_access env w d pc lane space addr n False False [] [] ms tr else tr)
      in case load_from space addr wi (x\<lparr>mx_trace := tr\<rparr>) of
           None \<Rightarrow> None
         | Some (Inl e, v, x') \<Rightarrow> Some (Some (service_fault e pc m w), x', p)
         | Some (Inr _, v, x') \<Rightarrow>
             Some (None,
               upd_lane lane (put_value (ca_rd a) n v)
                 (x'\<lparr>mx_trace := record_debug_access lane space addr n False False (mx_trace x')\<rparr>),
               commit_lane lane space addr n p))"

definition mem_order_name :: "u64 \<Rightarrow> string" where
  "mem_order_name sem = (if sem = 2 then ''acq_rel'' else if sem = 3 then ''mmio'' else ''relaxed'')"

definition scope_name :: "u64 \<Rightarrow> string" where
  "scope_name sco =
     (if sco = 0 then ''nosco'' else if sco = 1 then ''cta'' else if sco = 2 then ''sm''
      else if sco = 3 then ''vc'' else if sco = 4 then ''gpu'' else ''sys'')"

text \<open>The operation and its compare value: a comparand register turns any operation into a compare-and-swap.\<close>

definition lane_atomic_op :: "DecodedInst \<Rightarrow> CoreArgs \<Rightarrow> AtomicOp option" where
  "lane_atomic_op d a = (if ca_cas a \<noteq> 255 then Some kCas else decode_atomic_op d)"

definition compare_value :: "CoreArgs \<Rightarrow> u64 \<Rightarrow> ThreadState \<Rightarrow> MemValue option" where
  "compare_value a n t =
     (if ca_cas a \<noteq> 255 \<and> unat (ca_cas a) < kNumGprs then Some (get_value (ca_cas a) n t) else None)"

definition atomic_at :: "AddressSpace \<Rightarrow> u64 \<Rightarrow> u64 \<Rightarrow> AtomicOp \<Rightarrow> MemValue \<Rightarrow> MemValue option \<Rightarrow> MemCtx \<Rightarrow>
    (Status \<times> MemValue \<times> MemCtx) option" where
  "atomic_at space addr n op v cmp x =
     (if space = kGlobal then
        map_option (\<lambda>(st, old, ms). (st, old, x\<lparr>mx_service := ms\<rparr>)) (atom_global addr n op v zero_value cmp (mx_service x))
      else
        case atom_shared (mx_shared x) addr n op v zero_value cmp of
          (st, old, sh) \<Rightarrow> Some (st, old, x\<lparr>mx_shared := sh\<rparr>))"

definition unsupported_atomic :: "DecodedInst \<Rightarrow> u64 \<Rightarrow> u32 \<Rightarrow> WarpState \<Rightarrow> Fault" where
  "unsupported_atomic d pc m w =
     lane_fault kUnsupportedInstruction
       (mnemonic_name (di_mnem d) @ '' atomic op is not implemented (never downgraded to ADD)'') pc m w"

definition lane_atom :: "LaunchEnv \<Rightarrow> DecodedInst \<Rightarrow> CoreArgs \<Rightarrow> u64 \<Rightarrow> u32 \<Rightarrow> nat \<Rightarrow> AddressSpace \<Rightarrow> u64 \<Rightarrow> MemWidthInfo \<Rightarrow>
    MemCtx \<Rightarrow> Prof \<Rightarrow> LaneResult" where
  "lane_atom env d a pc m lane space addr wi x p =
     (let w = mx_warp x; t = w_threads w ! lane; n = mw_bytes wi; v = get_value (ca_rb a) n t
      in case lane_atomic_op d a of
           None \<Rightarrow> Some (Some (unsupported_atomic d pc m w), x, p)
         | Some op \<Rightarrow>
             (let cmp = (if op = kCas then compare_value a n t else None)
              in case atomic_at space addr n op v cmp x of
                   None \<Rightarrow> None
                 | Some (Inl e, old, x') \<Rightarrow> Some (Some (service_fault e pc m w), x', p)
                 | Some (Inr _, old, x') \<Rightarrow>
                     let tr = (if space = kShared \<or> space = kGlobal
                               then record_race_access env w d pc lane space addr n True True
                                      (mem_order_name (ca_sem a)) (scope_name (ca_sco a)) (mx_service x') (mx_trace x')
                               else mx_trace x');
                         tr = (if space = kGlobal then record_l2_access env w d pc ''atomic'' space addr n lane tr else tr);
                         tr = record_debug_access lane space addr n True True tr
                     in Some (None, upd_lane lane (put_value (ca_rd a) n old) (x'\<lparr>mx_trace := tr\<rparr>),
                          commit_lane lane space addr n p)))"

definition store_to :: "AddressSpace \<Rightarrow> u64 \<Rightarrow> MemWidthInfo \<Rightarrow> MemValue \<Rightarrow> MemCtx \<Rightarrow> (Status \<times> MemCtx) option" where
  "store_to space addr wi v x =
     (case space of
        kGlobal \<Rightarrow> map_option (\<lambda>(st, ms). (st, x\<lparr>mx_service := ms\<rparr>)) (stg 0 addr 0 wi v (mx_service x))
      | kShared \<Rightarrow> (case sts (mx_shared x) addr 0 wi v of (st, sh) \<Rightarrow> Some (st, x\<lparr>mx_shared := sh\<rparr>))
      | _ \<Rightarrow> (case sts (w_local (mx_warp x)) addr 0 wi v of
                (st, l) \<Rightarrow> Some (st, x\<lparr>mx_warp := (mx_warp x)\<lparr>w_local := l\<rparr>\<rparr>)))"

definition lane_store :: "LaunchEnv \<Rightarrow> DecodedInst \<Rightarrow> CoreArgs \<Rightarrow> u64 \<Rightarrow> u32 \<Rightarrow> nat \<Rightarrow> AddressSpace \<Rightarrow> u64 \<Rightarrow> MemWidthInfo \<Rightarrow>
    MemCtx \<Rightarrow> Prof \<Rightarrow> LaneResult" where
  "lane_store env d a pc m lane space addr wi x p =
     (let w = mx_warp x; n = mw_bytes wi; v = get_value (ca_rb a) n (w_threads w ! lane)
      in if space = kConstant then
           Some (Some (set_warp (word_of_nat (w_warp_id w))
             (set_pc pc (mk_fault kIllegalMemoryAccess ''store to constant address space''))), x, p)
         else
           case store_to space addr wi v x of
             None \<Rightarrow> None
           | Some (Inl e, x') \<Rightarrow> Some (Some (service_fault e pc m w), x', p)
           | Some (Inr _, x') \<Rightarrow>
               let tr = (if space = kShared \<or> space = kGlobal
                         then record_race_access env w d pc lane space addr n True False [] [] (mx_service x') (mx_trace x')
                         else mx_trace x');
                   tr = (if space = kGlobal then record_l2_access env w d pc ''store'' space addr n lane tr else tr);
                   tr = record_debug_access lane space addr n True False tr
               in Some (None, x'\<lparr>mx_trace := tr\<rparr>, commit_lane lane space addr n p))"

definition lane_step :: "LaunchEnv \<Rightarrow> DecodedInst \<Rightarrow> CoreArgs \<Rightarrow> u64 \<Rightarrow> u32 \<Rightarrow> nat \<Rightarrow> MemCtx \<Rightarrow> Prof \<Rightarrow> LaneResult" where
  "lane_step env d a pc m lane x p =
     (let w = mx_warp x; t = w_threads w ! lane in
      if \<not> lane_live m lane t then Some (None, x, p)
      else
        case lane_access d a pc m w t of
          Inl f \<Rightarrow> Some (Some f, x, p)
        | Inr (space, addr, wi) \<Rightarrow>
            if ca_load a then lane_load env d a pc m lane space addr wi x p
            else if ca_atom a then lane_atom env d a pc m lane space addr wi x p
            else lane_store env d a pc m lane space addr wi x p)"

subsection \<open>The loop and the issue event\<close>

fun lanes_from :: "LaunchEnv \<Rightarrow> DecodedInst \<Rightarrow> CoreArgs \<Rightarrow> u64 \<Rightarrow> u32 \<Rightarrow> nat list \<Rightarrow> MemCtx \<Rightarrow> Prof \<Rightarrow> LaneResult" where
  "lanes_from env d a pc m [] x p = Some (None, x, p)"
| "lanes_from env d a pc m (lane # rest) x p =
     (case lane_step env d a pc m lane x p of
        None \<Rightarrow> None
      | Some (Some f, x', p') \<Rightarrow> Some (Some f, x', p')
      | Some (None, x', p') \<Rightarrow> lanes_from env d a pc m rest x' p')"

definition mem_ldst_atom_core :: "LaunchEnv \<Rightarrow> u32 \<Rightarrow> DecodedInst \<Rightarrow> u64 \<Rightarrow> CoreArgs \<Rightarrow> MemCtx \<Rightarrow> (Fault option \<times> MemCtx) option" where
  "mem_ldst_atom_core env m d pc a x =
     (case lanes_from env d a pc m [0..<32] x new_prof of
        None \<Rightarrow> None
      | Some (Some f, x', p) \<Rightarrow> Some (Some f, x')
      | Some (None, x', p) \<Rightarrow>
          let rk = (if ca_atom a then ''atomic'' else if \<not> ca_load a then ''store'' else ''load'');
              width = (if pf_width p \<noteq> 0 then pf_width p else ucast (mw_bytes (mem_sz d)))
          in Some (None, x'\<lparr>mx_trace := record_memory_event env (mx_warp x') d pc m rk width (pf_space p)
                              (ca_atom a \<or> \<not> ca_load a) (pf_lanes p) (pf_committed p) (mx_trace x')\<rparr>))"

subsection \<open>Handlers\<close>

type_synonym MemHandler = "LaunchEnv \<Rightarrow> u32 \<Rightarrow> DecodedInst \<Rightarrow> u64 \<Rightarrow> MemCtx \<Rightarrow> (Fault option \<times> MemCtx) option"

definition do_ldg :: MemHandler where
  "do_ldg env m d pc = mem_ldst_atom_core env m d pc (load_args (mem_ov_idx (rd_op DecodedLDG7_0 ''Rd'' d)))"

definition do_stg :: MemHandler where
  "do_stg env m d pc =
     (let rb = mem_ov_idx
        (if is_class [''stg__sImmOffset'', ''stg__uImmOffset''] d then rd_op DecodedSTG3 ''Rb'' d
         else if is_class [''stg_uniform__Ra32'', ''stg_uniform__Ra64'', ''stg_uniform__RaRZ'',
             ''stg_256_uniform__Ra32'', ''stg_256_uniform__Ra64'', ''stg_256_uniform__RaRZ''] d
           then rd_op DecodedSTG4 ''Rb'' d
         else rd_op DecodedSTG5 ''Rb'' d)
      in mem_ldst_atom_core env m d pc (store_args rb))"

definition do_lds :: MemHandler where
  "do_lds env m d pc = mem_ldst_atom_core env m d pc (load_args (mem_ov_idx (rd_op DecodedLDS3 ''Rd'' d)))"

definition do_sts :: MemHandler where
  "do_sts env m d pc = mem_ldst_atom_core env m d pc (store_args (mem_ov_idx (rd_op DecodedSTS3 ''Rb'' d)))"

definition do_ldl :: MemHandler where
  "do_ldl env m d pc = mem_ldst_atom_core env m d pc (load_args (mem_ov_idx (rd_op DecodedLDL3 ''Rd'' d)))"

definition do_stl :: MemHandler where
  "do_stl env m d pc = mem_ldst_atom_core env m d pc (store_args (mem_ov_idx (rd_op DecodedSTL3 ''Rb'' d)))"

definition do_ldc :: MemHandler where
  "do_ldc env m d pc = mem_ldst_atom_core env m d pc (load_args (mem_ov_idx (rd_op DecodedLDC5_0 ''Rd'' d)))"

definition do_ldcu :: MemHandler where
  "do_ldcu env m d pc = mem_ldst_atom_core env m d pc (load_args 255)"

text \<open>The arguments of an atomic, read through one struct; \<open>None\<close> is the register index 255.\<close>

definition atom_of :: "Layout \<Rightarrow> string \<Rightarrow> string \<Rightarrow> string option \<Rightarrow> DecodedInst \<Rightarrow> CoreArgs" where
  "atom_of l rd rb cas d =
     atom_args (mem_ov_idx (rd_op l rd d)) (mem_ov_idx (rd_op l rb d))
       (case cas of None \<Rightarrow> 255 | Some c \<Rightarrow> mem_ov_idx (rd_op l c d))
       (rd_mod l ''sz'' d) (rd_mod l ''sem'' d) (rd_mod l ''sco'' d)"

definition atoms_of :: "Layout \<Rightarrow> string \<Rightarrow> string \<Rightarrow> string option \<Rightarrow> DecodedInst \<Rightarrow> CoreArgs" where
  "atoms_of l rd rb cas d =
     atom_args (mem_ov_idx (rd_op l rd d)) (mem_ov_idx (rd_op l rb d))
       (case cas of None \<Rightarrow> 255 | Some c \<Rightarrow> mem_ov_idx (rd_op l c d)) (rd_mod l ''sz'' d) 1 0"

definition red_of :: "Layout \<Rightarrow> DecodedInst \<Rightarrow> CoreArgs" where
  "red_of l d =
     atom_args 255 (mem_ov_idx (rd_op l ''Rb'' d)) 255 (rd_mod l ''sz'' d) (rd_mod l ''sem'' d) (rd_mod l ''sco'' d)"

definition do_atom :: MemHandler where
  "do_atom env m d pc = mem_ldst_atom_core env m d pc
     (if is_class [''atom_cas__RaNonRZ_CAS'', ''atom_cas__RaNonRZ_CAST'', ''atom_cas__RaRZ_CAS'',
          ''atom_cas__RaRZ_CAST''] d then atom_of DecodedATOM7_1 ''Rd'' ''Rb'' (Some ''Rc'') d
      else if is_class [''atom_int_uniform__Ra32'', ''atom_int_uniform__Ra64'', ''atom_int_uniform__RaRZ'',
          ''atom_fp_uniform__Ra32'', ''atom_fp_uniform__Ra64'', ''atom_fp_uniform__RaRZ''] d
        then atom_of DecodedATOM7_0 ''Rd'' ''Rb'' (Some ''Ra_offset'') d
      else if is_class [''atom_arrive__Ra32_arrive'', ''atom_arrive__Ra32_popcinc'', ''atom_arrive__Ra64_arrive'',
          ''atom_arrive__Ra64_popcinc'', ''atom_arrive__RaRZ_arrive'', ''atom_arrive__RaRZ_popcinc''] d
        then atom_of DecodedATOM6_0 ''Rd'' ''Ra_offset'' None d
      else atom_of DecodedATOM6_1 ''Rd'' ''Rb'' None d)"

definition do_atoms :: MemHandler where
  "do_atoms env m d pc = mem_ldst_atom_core env m d pc
     (if is_class [''atoms_cas__RaNonRZ'', ''atoms_cas__RaRZ'', ''atoms_cast_destRd__RaNonRZ'',
          ''atoms_cast_destRd__RaRZ''] d then atoms_of DecodedATOMS5_2 ''Rd'' ''Rb'' (Some ''Rc'') d
      else if is_class [''atoms_cast_destPu__RaNonRZ'', ''atoms_cast_destPu__RaRZ''] d
        then atoms_of DecodedATOMS5_0 ''Pu'' ''Rb'' (Some ''Rc'') d
      else if is_class [''atoms_uniform_''] d then atoms_of DecodedATOMS5_1 ''Rd'' ''Rb'' (Some ''Ra_offset'') d
      else if is_class [''atoms_arrive__arrive'', ''atoms_arrive__popcinc''] d
        then atoms_of DecodedATOMS4_0 ''Rd'' ''Ra_offset'' None d
      else atoms_of DecodedATOMS4_1 ''Rd'' ''Rb'' None d)"

definition do_reds :: MemHandler where
  "do_reds env m d pc = mem_ldst_atom_core env m d pc
     (let l = (if is_class [''atoms_reds_uniform_''] d then DecodedREDS4 else DecodedREDS3)
      in atom_args 255 (mem_ov_idx (rd_op l ''Rb'' d)) 255 (rd_mod l ''sz'' d) 1 0)"

definition do_atomg :: MemHandler where
  "do_atomg env m d pc = mem_ldst_atom_core env m d pc
     (if is_class [''atomg_fp__RaNonRZ'', ''atomg_fp__RaRZ'', ''atomg_int__RaNonRZ'', ''atomg_int__RaRZ''] d
        then atom_of DecodedATOMG5 ''Rd'' ''Rb'' None d
      else if is_class [''atomg_fp_uniform__memdesc'', ''atomg_int_uniform__memdesc''] d
        then atom_of DecodedATOMG7 ''Rd'' ''Rb'' (Some ''Ra_offset'') d
      else if is_class [''atomg_cas__RaNonRZ'', ''atomg_cas__RaRZ''] d
        then atom_of DecodedATOMG6_1 ''Rd'' ''Rb'' (Some ''Rc'') d
      else atom_of DecodedATOMG6_0 ''Rd'' ''Rb'' None d)"

definition do_redg :: MemHandler where
  "do_redg env m d pc = mem_ldst_atom_core env m d pc
     (if is_class [''redg_fp__RaNonRZ'', ''redg_fp__RaRZ'', ''redg_int__RaNonRZ'', ''redg_int__RaRZ''] d
        then red_of DecodedREDG3 d else red_of DecodedREDG4 d)"

definition on_trace :: "(Tracer \<Rightarrow> Tracer) \<Rightarrow> MemCtx \<Rightarrow> MemCtx" where
  "on_trace f x = x\<lparr>mx_trace := f (mx_trace x)\<rparr>"

definition membar_scope :: "DecodedInst \<Rightarrow> string" where
  "membar_scope d =
     (let scov = (if is_class [''membar_'', ''membar_async_''] d then rd_mod DecodedMEMBAR0 ''sco'' d else 2)
      in if scov = 0 then ''cta'' else if scov = 1 then ''sm'' else if scov = 3 then ''sys''
         else if scov = 5 then ''vc'' else ''gpu'')"

definition do_membar :: MemHandler where
  "do_membar env m d pc x =
     Some (None, on_trace (\<lambda>tr. if tr_race_on tr then fence_event env (membar_scope d) (mx_warp x) tr else tr) x)"

definition do_fence :: MemHandler where
  "do_fence env m d pc x =
     Some (None, on_trace (\<lambda>tr. if tr_race_on tr then fence_event env ''gpu'' (mx_warp x) tr else tr) x)"

definition do_errbar :: MemHandler where "do_errbar env m d pc x = Some (None, x)"
definition do_cgaerrbar :: MemHandler where "do_cgaerrbar env m d pc x = Some (None, x)"
definition do_cctl :: MemHandler where "do_cctl env m d pc x = Some (None, x)"

text \<open>The memory cases of the dispatch in \<open>execute_warp\<close>; \<open>LDGSTS\<close> is not modelled.\<close>

definition mem_handler :: "Mnemonic \<Rightarrow> MemHandler option" where
  "mem_handler mn =
     (case mn of
        kLDG \<Rightarrow> Some do_ldg | kSTG \<Rightarrow> Some do_stg | kLDS \<Rightarrow> Some do_lds | kSTS \<Rightarrow> Some do_sts
      | kLDL \<Rightarrow> Some do_ldl | kSTL \<Rightarrow> Some do_stl | kLDC \<Rightarrow> Some do_ldc | kLDCU \<Rightarrow> Some do_ldcu
      | kATOM \<Rightarrow> Some do_atom | kATOMS \<Rightarrow> Some do_atoms | kREDS \<Rightarrow> Some do_reds
      | kATOMG \<Rightarrow> Some do_atomg | kREDG \<Rightarrow> Some do_redg
      | kMEMBAR \<Rightarrow> Some do_membar | kFENCE \<Rightarrow> Some do_fence
      | kERRBAR \<Rightarrow> Some do_errbar | kCGAERRBAR \<Rightarrow> Some do_cgaerrbar | kCCTL \<Rightarrow> Some do_cctl
      | kLDGSTS \<Rightarrow> None)"

end
