(* ===== verification/Mem_Inst_Facts.thy ===== *)
theory Mem_Inst_Facts
  imports Mem_Inst Memory_Service_Facts
begin

text \<open>
  Lemmas on the memory instructions: the fields a handler reads of a correctly shaped
  instruction, what one lane does, and what the loop over the lanes keeps.
\<close>

subsection \<open>Failures leave the memories as they were\<close>

lemma sts_failure: "sts shared off disp w v = (Inl e, sh) \<Longrightarrow> sh = shared"
  by (auto simp: sts_def Let_def split: option.splits if_splits)

lemma stg_failure: "stg desc addr off w v ms = Some (Inl e, ms') \<Longrightarrow> ms' = ms"
  by (auto simp: stg_def Let_def split: option.splits if_splits)

lemma rmw_bytes_failure: "rmw_bytes buf off w op v cmp = (Inl e, old, buf') \<Longrightarrow> buf' = buf"
  by (auto simp: rmw_bytes_def Let_def split: option.splits)

lemma atom_shared_failure: "atom_shared shared off w op v o0 cmp = (Inl e, old, sh) \<Longrightarrow> sh = shared"
  by (auto simp: atom_shared_def split: sum.splits if_splits dest: rmw_bytes_failure)

lemma atom_global_failure: "atom_global addr w op v o0 cmp ms = Some (Inl e, old, ms') \<Longrightarrow> ms' = ms"
  by (auto simp: atom_global_def split: sum.splits option.splits if_splits prod.splits)

lemma store_to_failure: "store_to space addr wi v x = Some (Inl e, x') \<Longrightarrow> x' = x"
  by (cases space) (auto simp: store_to_def split: prod.splits dest: sts_failure stg_failure)

lemma atomic_at_failure: "atomic_at space addr n op v cmp x = Some (Inl e, old, x') \<Longrightarrow> x' = x"
  by (auto simp: atomic_at_def split: if_splits prod.splits dest: atom_shared_failure atom_global_failure)

text \<open>A store or an atomic that faults on a lane has done nothing for that lane, records included.\<close>

lemma lane_atom_fault:
  "lane_atom env d a pc m lane space addr wi x p = Some (Some f, x', p') \<Longrightarrow> x' = x \<and> p' = p"
  unfolding lane_atom_def Let_def
  by (auto split: option.splits sum.splits prod.splits if_splits dest!: atomic_at_failure)

lemma lane_store_fault:
  "lane_store env d a pc m lane space addr wi x p = Some (Some f, x', p') \<Longrightarrow> x' = x \<and> p' = p"
  unfolding lane_store_def Let_def
  by (auto split: option.splits sum.splits prod.splits if_splits dest!: store_to_failure)

lemma lane_write_fault:
  assumes "\<not> ca_load a" "lane_step env d a pc m lane x p = Some (Some f, x', p')"
  shows "x' = x \<and> p' = p \<and> lane_live m lane (w_threads (mx_warp x) ! lane)"
  using assms
  by (auto simp: lane_step_def Let_def split: if_splits sum.splits dest: lane_atom_fault lane_store_fault)

text \<open>Where the loop stopped.\<close>

lemma lanes_from_fault:
  "lanes_from env d a pc m lanes x p = Some (Some f, x', p') \<Longrightarrow>
   \<exists>pre lane post x1 p1. lanes = pre @ lane # post \<and>
     lanes_from env d a pc m pre x p = Some (None, x1, p1) \<and>
     lane_step env d a pc m lane x1 p1 = Some (Some f, x', p')"
proof (induction lanes arbitrary: x p)
  case (Cons l lanes)
  show ?case
  proof (cases "lane_step env d a pc m l x p")
    case (Some r)
    then obtain fo x1 p1 where r: "lane_step env d a pc m l x p = Some (fo, x1, p1)" by (cases r) auto
    show ?thesis
    proof (cases fo)
      case None
      with Cons.prems r have "lanes_from env d a pc m lanes x1 p1 = Some (Some f, x', p')" by simp
      then obtain b l' af x2 p2 where "lanes = b @ l' # af" "lanes_from env d a pc m b x1 p1 = Some (None, x2, p2)"
        "lane_step env d a pc m l' x2 p2 = Some (Some f, x', p')" using Cons.IH by blast
      then show ?thesis using r None by (intro exI [of _ "l # b"]) auto
    next
      case (Some f')
      with Cons.prems r have "lanes_from env d a pc m [] x p = Some (None, x, p)"
        "lane_step env d a pc m l x p = Some (Some f, x', p')" by simp_all
      then show ?thesis by (intro exI [of _ "[]"]) auto
    qed
  qed (use Cons.prems in simp)
qed simp

lemma lanes_from_append:
  "lanes_from env d a pc m (xs @ ys) x p =
     (case lanes_from env d a pc m xs x p of
        Some (None, x1, p1) \<Rightarrow> lanes_from env d a pc m ys x1 p1
      | r \<Rightarrow> r)"
  by (induction xs arbitrary: x p) (auto split: option.splits)

lemma upt_split: "[0..<n] = pre @ lane # post \<Longrightarrow> pre = [0..<lane] \<and> lane < n"
proof -
  assume a: "[0..<n] = pre @ lane # post"
  then have len: "length pre < n" by (metis add_lessD1 length_append length_upt less_add_same_cancel1 list.size(4) minus_nat.diff_0 zero_less_Suc add_Suc_right)
  have "lane = length pre"
    using arg_cong [OF a, of "\<lambda>l. l ! length pre"] len by simp
  moreover have "pre = take (length pre) [0..<n]" by (simp add: a)
  ultimately show ?thesis using len by (simp add: take_upt)
qed

subsection \<open>What an instruction reads\<close>

text \<open>The parts of the state an address or a loaded value depends on.\<close>

definition load_view :: "MemCtx \<Rightarrow> bytes \<times> MemoryService \<times> WarpState" where
  "load_view x = (mx_shared x, (mx_service x)\<lparr>ms_reads := 0\<rparr>, (mx_warp x)\<lparr>w_threads := []\<rparr>)"

lemma load_view_parts:
  assumes "load_view x = load_view y"
  shows "mx_shared x = mx_shared y" "w_local (mx_warp x) = w_local (mx_warp y)"
    "w_ur (mx_warp x) = w_ur (mx_warp y)" "w_warp_id (mx_warp x) = w_warp_id (mx_warp y)"
    "ms_global (mx_service x) = ms_global (mx_service y)"
    "ms_global_base (mx_service x) = ms_global_base (mx_service y)"
    "ms_constant (mx_service x) = ms_constant (mx_service y)"
proof -
  from assms have w: "(mx_warp x)\<lparr>w_threads := []\<rparr> = (mx_warp y)\<lparr>w_threads := []\<rparr>"
    and m: "(mx_service x)\<lparr>ms_reads := 0\<rparr> = (mx_service y)\<lparr>ms_reads := 0\<rparr>"
    and s: "mx_shared x = mx_shared y" by (simp_all add: load_view_def)
  from arg_cong [OF w, of w_local] arg_cong [OF w, of w_ur] arg_cong [OF w, of w_warp_id]
  show "w_local (mx_warp x) = w_local (mx_warp y)" "w_ur (mx_warp x) = w_ur (mx_warp y)"
    "w_warp_id (mx_warp x) = w_warp_id (mx_warp y)" by simp_all
  from arg_cong [OF m, of ms_global] arg_cong [OF m, of ms_global_base] arg_cong [OF m, of ms_constant]
  show "ms_global (mx_service x) = ms_global (mx_service y)"
    "ms_global_base (mx_service x) = ms_global_base (mx_service y)"
    "ms_constant (mx_service x) = ms_constant (mx_service y)" by simp_all
qed (use assms in \<open>simp add: load_view_def\<close>)

lemma resolve_mem_addr_cong: "w_ur w = w_ur w' \<Longrightarrow> resolve_mem_addr d t w = resolve_mem_addr d t w'"
  by (simp add: resolve_mem_addr_def constant_addr_def read_ur_ov_def Let_def split: Mnemonic.split)

lemma lane_access_cong:
  "w_ur w = w_ur w' \<Longrightarrow> w_warp_id w = w_warp_id w' \<Longrightarrow> lane_access d a pc m w t = lane_access d a pc m w' t"
  using resolve_mem_addr_cong [of w w' d t]
  by (simp add: lane_access_def lane_fault_def Let_def cong: sum.case_cong option.case_cong if_cong)

lemma ldg_reads:
  "ldg desc addr off w out ms = Some (st, v, ms') \<Longrightarrow> \<exists>n. ms' = ms\<lparr>ms_reads := n\<rparr>"
  by (auto simp: ldg_def read_global_def Let_def split: option.splits if_splits
      intro: exI [of _ "ms_reads ms"])

lemma ldg_cong:
  assumes "ms_global ms = ms_global ms'" "ms_global_base ms = ms_global_base ms'"
  shows "map_option (\<lambda>(st, v, _). (st, v)) (ldg desc addr off w out ms) =
    map_option (\<lambda>(st, v, _). (st, v)) (ldg desc addr off w out ms')"
  using assms by (simp add: ldg_def read_global_def Let_def split: option.splits)

definition load_result :: "AddressSpace \<Rightarrow> u64 \<Rightarrow> MemWidthInfo \<Rightarrow> MemCtx \<Rightarrow> (Status \<times> MemValue) option" where
  "load_result space addr wi x = map_option (\<lambda>(st, v, _). (st, v)) (load_from space addr wi x)"

lemma load_result_cong:
  assumes "load_view x = load_view y"
  shows "load_result space addr wi x = load_result space addr wi y"
  using load_view_parts [OF assms] ldg_cong [of "mx_service x" "mx_service y" 0 addr 0 wi zero_value]
  by (cases space) (auto simp: load_result_def load_from_def option.map_comp comp_def case_prod_unfold ldc_def Let_def
      cong: if_cong split: prod.splits)

lemma load_from_view:
  assumes "load_from space addr wi x = Some (st, v, x')"
  shows "load_view x' = load_view x" "w_threads (mx_warp x') = w_threads (mx_warp x)"
    "mx_trace x' = mx_trace x" "mx_warp x' = mx_warp x"
  using assms by (cases space; auto simp: load_from_def load_view_def split: prod.splits dest!: ldg_reads)+

text \<open>What a lane loads: the width and the value, if its access succeeds.\<close>

definition loaded :: "DecodedInst \<Rightarrow> CoreArgs \<Rightarrow> MemCtx \<Rightarrow> ThreadState \<Rightarrow> (u64 \<times> MemValue) option" where
  "loaded d a x t =
     (case lane_access d a 0 0 (mx_warp x) t of
        Inl _ \<Rightarrow> None
      | Inr (space, addr, wi) \<Rightarrow>
          (case load_result space addr wi x of Some (Inr _, v) \<Rightarrow> Some (mw_bytes wi, v) | _ \<Rightarrow> None))"

lemma lane_access_any: "lane_access d a pc m w t = Inr r \<longleftrightarrow> lane_access d a pc' m' w t = Inr r"
  by (auto simp: lane_access_def Let_def split: sum.splits option.splits if_splits prod.splits)

lemma loaded_cong:
  assumes "load_view x = load_view y"
  shows "loaded d a x t = loaded d a y t"
  using load_view_parts [OF assms] load_result_cong [OF assms] lane_access_cong [of "mx_warp x" "mx_warp y" d a 0 0 t]
  by (simp add: loaded_def cong: sum.case_cong)

lemma lane_step_load:
  assumes "ca_load a" "lane_step env d a pc m lane x p = Some (None, x', p')"
  shows "load_view x' = load_view x \<and>
    w_threads (mx_warp x') =
      (if lane_live m lane (w_threads (mx_warp x) ! lane)
       then (w_threads (mx_warp x))[lane := case loaded d a x (w_threads (mx_warp x) ! lane) of
               Some (n, v) \<Rightarrow> put_value (ca_rd a) n v (w_threads (mx_warp x) ! lane)
             | None \<Rightarrow> w_threads (mx_warp x) ! lane]
       else w_threads (mx_warp x)) \<and>
    (lane_live m lane (w_threads (mx_warp x) ! lane) \<longrightarrow> loaded d a x (w_threads (mx_warp x) ! lane) \<noteq> None)"
proof (cases "lane_live m lane (w_threads (mx_warp x) ! lane)")
  case live: True
  let ?t = "w_threads (mx_warp x) ! lane"
  obtain space addr wi where acc: "lane_access d a pc m (mx_warp x) ?t = Inr (space, addr, wi)"
    and ld: "lane_load env d a pc m lane space addr wi x p = Some (None, x', p')"
    using assms live by (auto simp: lane_step_def Let_def split: sum.splits prod.splits)
  obtain tr u v x1 where lf: "load_from space addr wi (x\<lparr>mx_trace := tr\<rparr>) = Some (Inr u, v, x1)"
    and x': "\<exists>tr'. x' = upd_lane lane (put_value (ca_rd a) (mw_bytes wi) v) (x1\<lparr>mx_trace := tr'\<rparr>)"
    using ld unfolding lane_load_def Let_def by (auto split: option.splits sum.splits prod.splits)
  have v1: "load_view x1 = load_view x" "w_threads (mx_warp x1) = w_threads (mx_warp x)"
    using load_from_view [OF lf] by (simp_all add: load_view_def)
  have "load_view (x\<lparr>mx_trace := tr\<rparr>) = load_view x" by (simp add: load_view_def)
  then have "load_result space addr wi x = Some (Inr u, v)"
    using load_result_cong [of "x\<lparr>mx_trace := tr\<rparr>" x space addr wi] lf by (simp add: load_result_def)
  moreover have "lane_access d a 0 0 (mx_warp x) ?t = Inr (space, addr, wi)" using acc lane_access_any by blast
  ultimately have "loaded d a x ?t = Some (mw_bytes wi, v)" by (simp add: loaded_def)
  with live v1 x' show ?thesis by (auto simp: upd_lane_def load_view_def)
qed (use assms in \<open>simp add: lane_step_def\<close>)

text \<open>A fault-free load: every live lane of the list gets its value, from the memory as it was before.\<close>

lemma lanes_from_load:
  "ca_load a \<Longrightarrow> distinct lanes \<Longrightarrow> \<forall>l\<in>set lanes. l < length (w_threads (mx_warp x)) \<Longrightarrow>
   lanes_from env d a pc m lanes x p = Some (None, x', p') \<Longrightarrow>
   load_view x' = load_view x \<and> length (w_threads (mx_warp x')) = length (w_threads (mx_warp x)) \<and>
   (\<forall>l < length (w_threads (mx_warp x)). let t = w_threads (mx_warp x) ! l in
      if l \<in> set lanes \<and> lane_live m l t
      then \<exists>n v. loaded d a x t = Some (n, v) \<and> w_threads (mx_warp x') ! l = put_value (ca_rd a) n v t
      else w_threads (mx_warp x') ! l = t)"
proof (induction lanes arbitrary: x p)
  case (Cons lane rest)
  let ?T = "\<lambda>x. w_threads (mx_warp x)"
  obtain x1 p1 where st: "lane_step env d a pc m lane x p = Some (None, x1, p1)"
    and rest: "lanes_from env d a pc m rest x1 p1 = Some (None, x', p')"
    using Cons.prems by (auto split: option.splits)
  note one = lane_step_load [OF Cons.prems(1) st]
  have len: "length (?T x1) = length (?T x)" using one by auto
  have IH: "load_view x' = load_view x1 \<and> length (?T x') = length (?T x1) \<and>
     (\<forall>l < length (?T x1). let t = ?T x1 ! l in
      if l \<in> set rest \<and> lane_live m l t
      then \<exists>n v. loaded d a x1 t = Some (n, v) \<and> ?T x' ! l = put_value (ca_rd a) n v t
      else ?T x' ! l = t)"
    using Cons.IH [OF Cons.prems(1) _ _ rest] Cons.prems len by auto
  have lc: "loaded d a x1 t = loaded d a x t" for t using loaded_cong one by blast
  show ?case
  proof (intro conjI allI impI)
    fix l assume l: "l < length (?T x)"
    show "let t = ?T x ! l in
      if l \<in> set (lane # rest) \<and> lane_live m l t
      then \<exists>n v. loaded d a x t = Some (n, v) \<and> ?T x' ! l = put_value (ca_rd a) n v t
      else ?T x' ! l = t"
    proof (cases "l = lane")
      case True
      have "l \<notin> set rest" using Cons.prems(2) True by simp
      with IH l len have "?T x' ! l = ?T x1 ! l" by (auto simp: Let_def)
      with one l True show ?thesis by (auto simp: Let_def split: option.splits)
    next
      case False
      then have "?T x1 ! l = ?T x ! l" using one by auto
      with IH l len lc False show ?thesis by (auto simp: Let_def)
    qed
  qed (use IH one len in auto)
qed simp

text \<open>A shared load never stops when every live lane can load.\<close>

lemma lane_step_load_ok:
  assumes "ca_load a" "lane_live m lane (w_threads (mx_warp x) ! lane) \<Longrightarrow> loaded d a x (w_threads (mx_warp x) ! lane) \<noteq> None"
  shows "\<exists>x' p'. lane_step env d a pc m lane x p = Some (None, x', p')"
proof (cases "lane_live m lane (w_threads (mx_warp x) ! lane)")
  case True
  let ?t = "w_threads (mx_warp x) ! lane"
  obtain space addr wi u v where acc: "lane_access d a 0 0 (mx_warp x) ?t = Inr (space, addr, wi)"
    and ld: "load_result space addr wi x = Some (Inr u, v)"
    using assms(2) True by (auto simp: loaded_def split: sum.splits option.splits)
  have acc': "lane_access d a pc m (mx_warp x) ?t = Inr (space, addr, wi)" using acc lane_access_any by blast
  have "load_result space addr wi (x\<lparr>mx_trace := tr\<rparr>) = Some (Inr u, v)" for tr
    using load_result_cong [of "x\<lparr>mx_trace := tr\<rparr>" x space addr wi] ld by (simp add: load_view_def)
  then have lf: "\<exists>x1. load_from space addr wi (x\<lparr>mx_trace := tr\<rparr>) = Some (Inr u, v, x1)" for tr
    unfolding load_result_def by auto
  then obtain X where X: "\<And>tr. load_from space addr wi (x\<lparr>mx_trace := tr\<rparr>) = Some (Inr u, v, X tr)" by metis
  have "\<exists>x' p'. lane_load env d a pc m lane space addr wi x p = Some (None, x', p')"
    by (simp add: lane_load_def X Let_def)
  then show ?thesis using True acc' assms(1) by (simp add: lane_step_def Let_def)
qed (simp add: lane_step_def)

lemma lanes_from_load_ok:
  "ca_load a \<Longrightarrow> distinct lanes \<Longrightarrow> \<forall>l\<in>set lanes. l < length (w_threads (mx_warp x)) \<Longrightarrow>
   (\<And>l. l \<in> set lanes \<Longrightarrow> lane_live m l (w_threads (mx_warp x) ! l) \<Longrightarrow> loaded d a x (w_threads (mx_warp x) ! l) \<noteq> None) \<Longrightarrow>
   \<exists>x' p'. lanes_from env d a pc m lanes x p = Some (None, x', p')"
proof (induction lanes arbitrary: x p)
  case (Cons lane rest)
  obtain x1 p1 where st: "lane_step env d a pc m lane x p = Some (None, x1, p1)"
    using lane_step_load_ok [OF Cons.prems(1)] Cons.prems(4) by (metis list.set_intros(1))
  note one = lane_step_load [OF Cons.prems(1) st]
  have same: "w_threads (mx_warp x1) ! l = w_threads (mx_warp x) ! l" if "l \<in> set rest" for l
  proof -
    have "l \<noteq> lane" using that Cons.prems(2) by auto
    then show ?thesis using one by auto
  qed
  have "loaded d a x1 t = loaded d a x t" for t using loaded_cong one by blast
  then have "\<exists>x' p'. lanes_from env d a pc m rest x1 p1 = Some (None, x', p')"
    using Cons.prems same one by (intro Cons.IH) auto
  with st show ?case by simp
qed simp

subsection \<open>Shared stores\<close>

lemma checked_add_zero [simp]: "checked_add a 0 = Some a"
  by (simp add: checked_add_def)

lemma mem_width_cases:
  assumes "mw_valid (mem_width_info s)"
  shows "mw_bytes (mem_width_info s) \<in> {1, 2, 4, 8, 16}"
  using assms by (auto simp: mem_width_info_def split: if_splits)

lemma resolve_shared:
  "di_mnem d \<in> {kSTS, kLDS, kATOMS, kREDS} \<Longrightarrow>
   resolve_mem_addr d t w = Inr (ucast (read_reg_ov t (rd_op (shared_layout (di_mnem d)) ''Ra'' d)),
     operand_value_as_i64 (rd_op (shared_layout (di_mnem d)) ''Ra_offset'' d), mw_bytes (mem_sz d), kShared)"
  by (auto simp: resolve_mem_addr_def)

text \<open>The shared address of a lane: base register plus displacement.\<close>

definition shared_addr :: "DecodedInst \<Rightarrow> ThreadState \<Rightarrow> u64 option" where
  "shared_addr d t = checked_add (ucast (read_reg_ov t (rd_op (shared_layout (di_mnem d)) ''Ra'' d)))
     (operand_value_as_i64 (rd_op (shared_layout (di_mnem d)) ''Ra_offset'' d))"

lemma lane_access_shared:
  assumes "di_mnem d \<in> {kSTS, kLDS, kATOMS, kREDS}"
  shows "lane_access d a pc m w t = Inr (space, addr, wi) \<longleftrightarrow>
    mw_valid (mem_sz d) \<and> shared_addr d t = Some addr \<and> space = kShared \<and>
    wi = (if ca_atom a then (mem_sz d)\<lparr>mw_bytes := atom_bytes (ca_sz a)\<rparr> else mem_sz d)"
  using resolve_shared [OF assms, of t w]
  by (auto simp: lane_access_def shared_addr_def Let_def split: option.splits)

lemma length_store_bytes [simp]: "length (mem_value_to_bytes v n) = unat (min n 16)"
  by (simp add: mem_value_to_bytes_def)

lemma sts_success:
  assumes "fits_size_t sh"
  shows "sts sh addr 0 wi v = (Inr u, sh') \<longleftrightarrow>
    mw_valid wi \<and> unat addr + unat (min (mw_bytes wi) 16) \<le> length sh \<and> width_aligned addr (mw_bytes wi) \<and>
    sh' = write_range (unat addr) (mem_value_to_bytes v (min (mw_bytes wi) 16)) sh"
  using out_of_window_iff [OF assms, of addr "min (mw_bytes wi) 16"] by (auto simp: sts_def Let_def)

lemma lane_step_sts:
  assumes "di_mnem d = kSTS" "\<not> ca_load a" "\<not> ca_atom a" "fits_size_t (mx_shared x)"
    and "lane_step env d a pc m lane x p = Some (None, x', p')"
  defines "t \<equiv> w_threads (mx_warp x) ! lane" and "wi \<equiv> mem_sz d"
  shows "mx_warp x' = mx_warp x \<and> mx_service x' = mx_service x \<and>
    (if lane_live m lane t then
       \<exists>addr. shared_addr d t = Some addr \<and> mw_valid wi \<and>
         unat addr + unat (mw_bytes wi) \<le> length (mx_shared x) \<and> width_aligned addr (mw_bytes wi) \<and>
         mx_shared x' = write_range (unat addr) (mem_value_to_bytes (get_value (ca_rb a) (mw_bytes wi) t) (mw_bytes wi)) (mx_shared x)
     else mx_shared x' = mx_shared x)"
proof (cases "lane_live m lane t")
  case True
  then obtain space addr wi' where acc: "lane_access d a pc m (mx_warp x) t = Inr (space, addr, wi')"
    and st: "lane_store env d a pc m lane space addr wi' x p = Some (None, x', p')"
    using assms(2,3,5) by (auto simp: lane_step_def t_def Let_def split: sum.splits)
  have sp: "space = kShared" "wi' = wi" "shared_addr d t = Some addr" "mw_valid wi"
    using acc lane_access_shared [of d a pc m "mx_warp x" t space addr wi'] assms(1,3) by (auto simp: wi_def)
  have l16: "min (mw_bytes wi) 16 = mw_bytes wi" using sp(4) mem_width_cases [of "case sz_layout d of None \<Rightarrow> 4 | Some l \<Rightarrow> rd_mod l ''sz'' d"]
    by (auto simp: wi_def mem_sz_def)
  obtain sh u where sts: "sts (mx_shared x) addr 0 wi (get_value (ca_rb a) (mw_bytes wi) t) = (Inr u, sh)"
    and x': "\<exists>tr. x' = x\<lparr>mx_shared := sh, mx_trace := tr\<rparr>"
    using st sp unfolding lane_store_def store_to_def t_def
    by (auto simp: Let_def split: prod.splits sum.splits)
  then show ?thesis using True sp l16 sts_success [OF assms(4)] by auto
qed (use assms(5) in \<open>simp add: lane_step_def t_def\<close>)

text \<open>The writes of a warp-wide store, in lane order.\<close>

definition lane_write :: "DecodedInst \<Rightarrow> CoreArgs \<Rightarrow> u32 \<Rightarrow> ThreadState list \<Rightarrow> nat \<Rightarrow> bytes \<Rightarrow> bytes" where
  "lane_write d a m T l sh =
     (if lane_live m l (T ! l) then
        write_range (unat (the (shared_addr d (T ! l))))
          (mem_value_to_bytes (get_value (ca_rb a) (mw_bytes (mem_sz d)) (T ! l)) (mw_bytes (mem_sz d))) sh
      else sh)"

definition lane_fits :: "DecodedInst \<Rightarrow> u32 \<Rightarrow> ThreadState list \<Rightarrow> nat \<Rightarrow> nat \<Rightarrow> bool" where
  "lane_fits d m T len l \<longleftrightarrow>
     (lane_live m l (T ! l) \<longrightarrow>
        (\<exists>addr. shared_addr d (T ! l) = Some addr \<and> mw_valid (mem_sz d) \<and>
           unat addr + unat (mw_bytes (mem_sz d)) \<le> len \<and> width_aligned addr (mw_bytes (mem_sz d))))"

lemma unat_width_le: "mw_valid (mem_sz d) \<Longrightarrow> unat (mw_bytes (mem_sz d)) \<le> 16 \<and> min (mw_bytes (mem_sz d)) 16 = mw_bytes (mem_sz d)"
  using mem_width_cases [of "case sz_layout d of None \<Rightarrow> 4 | Some l \<Rightarrow> rd_mod l ''sz'' d"] by (auto simp: mem_sz_def)

lemma length_lane_write [simp]:
  "lane_fits d m T (length sh) l \<Longrightarrow> length (lane_write d a m T l sh) = length sh"
  using unat_width_le [of d] by (auto simp: lane_write_def lane_fits_def)

lemma lanes_from_sts:
  "di_mnem d = kSTS \<Longrightarrow> \<not> ca_load a \<Longrightarrow> \<not> ca_atom a \<Longrightarrow> fits_size_t (mx_shared x) \<Longrightarrow>
   lanes_from env d a pc m lanes x p = Some (None, x', p') \<Longrightarrow>
   mx_warp x' = mx_warp x \<and> mx_service x' = mx_service x \<and>
   (\<forall>l\<in>set lanes. lane_fits d m (w_threads (mx_warp x)) (length (mx_shared x)) l) \<and>
   mx_shared x' = fold (lane_write d a m (w_threads (mx_warp x))) lanes (mx_shared x) \<and>
   length (mx_shared x') = length (mx_shared x)"
proof (induction lanes arbitrary: x p)
  case (Cons lane rest)
  let ?T = "w_threads (mx_warp x)"
  obtain x1 p1 where st: "lane_step env d a pc m lane x p = Some (None, x1, p1)"
    and rest: "lanes_from env d a pc m rest x1 p1 = Some (None, x', p')"
    using Cons.prems by (auto split: option.splits)
  note one = lane_step_sts [OF Cons.prems(1-4) st]
  have sh1: "mx_shared x1 = lane_write d a m ?T lane (mx_shared x)"
    using one by (auto simp: lane_write_def split: if_splits)
  have fit: "lane_fits d m ?T (length (mx_shared x)) lane" using one by (auto simp: lane_fits_def split: if_splits)
  have len: "length (mx_shared x1) = length (mx_shared x)" using fit by (simp add: sh1)
  have "fits_size_t (mx_shared x1)" using Cons.prems(4) len by (simp add: fits_size_t_def)
  from Cons.IH [OF Cons.prems(1-3) this rest] one fit len show ?case by (auto simp: sh1)
qed simp

text \<open>A byte is written by the last live lane that covers it; a byte no lane covers is kept.\<close>

definition lane_covers :: "DecodedInst \<Rightarrow> u32 \<Rightarrow> ThreadState list \<Rightarrow> nat \<Rightarrow> nat \<Rightarrow> bool" where
  "lane_covers d m T i l \<longleftrightarrow> lane_live m l (T ! l) \<and>
     unat (the (shared_addr d (T ! l))) \<le> i \<and> i < unat (the (shared_addr d (T ! l))) + unat (mw_bytes (mem_sz d))"

lemma fold_lane_write_frame:
  assumes "\<forall>l\<in>set lanes. lane_fits d m T (length sh) l" "i < length sh" "\<forall>l\<in>set lanes. \<not> lane_covers d m T i l"
  shows "length (fold (lane_write d a m T) lanes sh) = length sh \<and> fold (lane_write d a m T) lanes sh ! i = sh ! i"
  using assms
proof (induction lanes arbitrary: sh)
  case (Cons l lanes)
  have w: "lane_write d a m T l sh ! i = sh ! i"
    using Cons.prems unat_width_le [of d]
    by (auto simp: lane_write_def lane_fits_def lane_covers_def nth_write_range)
  show ?case using Cons.IH [of "lane_write d a m T l sh"] Cons.prems w by simp
qed simp

lemma fold_lane_write_last:
  assumes "\<forall>l\<in>set (pre @ l # post). lane_fits d m T (length sh) l" "i < length sh"
    and "lane_covers d m T i l" "\<forall>l'\<in>set post. \<not> lane_covers d m T i l'"
  shows "fold (lane_write d a m T) (pre @ l # post) sh ! i =
    value_byte (get_value (ca_rb a) (mw_bytes (mem_sz d)) (T ! l)) (i - unat (the (shared_addr d (T ! l))))"
proof -
  let ?sh = "fold (lane_write d a m T) pre sh"
  have len: "length (fold (lane_write d a m T) ls sh) = length sh"
    if "\<forall>l\<in>set ls. lane_fits d m T (length sh) l" for ls
    using that by (induction ls rule: rev_induct) auto
  have l1: "length ?sh = length sh" using len assms(1) by simp
  have fit: "lane_fits d m T (length sh) l" using assms(1) by simp
  then have "lane_write d a m T l ?sh ! i =
      value_byte (get_value (ca_rb a) (mw_bytes (mem_sz d)) (T ! l)) (i - unat (the (shared_addr d (T ! l))))"
    using assms(2,3) l1 unat_width_le [of d]
    by (auto simp: lane_write_def lane_fits_def lane_covers_def nth_write_range mem_value_to_bytes_def)
  moreover have "fold (lane_write d a m T) post (lane_write d a m T l ?sh) ! i = lane_write d a m T l ?sh ! i"
    using fold_lane_write_frame [of post d m T "lane_write d a m T l ?sh" i] assms fit l1 by simp
  ultimately show ?thesis by simp
qed

subsection \<open>Destination registers\<close>

text \<open>A value of \<open>n\<close> bytes fills one, two or four consecutive registers from \<open>r\<close> on; register
  255 stands for none, and words past the last register are dropped.\<close>

definition reg_words :: "u64 \<Rightarrow> nat" where
  "reg_words n = (if n \<le> 4 then 1 else if n \<le> 8 then 2 else 4)"

definition registers_set :: "u64 \<Rightarrow> u64 \<Rightarrow> MemValue \<Rightarrow> ThreadState \<Rightarrow> ThreadState" where
  "registers_set r n v t =
     t\<lparr>t_gpr := map (\<lambda>j. if r \<noteq> 255 \<and> unat r \<le> j \<and> j < unat r + reg_words n then v ! (j - unat r)
       else t_gpr t ! j) [0..<256]\<rparr>"

lemma put_value_registers:
  assumes "length (t_gpr t) = 256"
  shows "put_value r n v t = registers_set r n v t"
proof -
  let ?f = "\<lambda>j. if r \<noteq> 255 \<and> unat r \<le> j \<and> j < unat r + reg_words n then v ! (j - unat r) else t_gpr t ! j"
  have "t_gpr (put_value r n v t) = map ?f [0..<256]"
  proof (rule nth_equalityI)
    show "length (t_gpr (put_value r n v t)) = length (map ?f [0..<256])"
      using assms by (auto simp: put_value_def kNumGprs_def Let_def)
  next
    fix j assume "j < length (t_gpr (put_value r n v t))"
    then have j: "j < 256" using assms by (auto simp: put_value_def kNumGprs_def Let_def split: if_splits)
    have w: "n > 4 \<longleftrightarrow> \<not> n \<le> 4" "n > 8 \<longleftrightarrow> \<not> n \<le> 8" "\<not> n \<le> 8 \<Longrightarrow> \<not> n \<le> 4"
      using order_trans [of n 4 8] by auto
    obtain i where i: "unat r = i" by simp
    consider "i \<ge> 256" | "j < i" | "j = i" | "j = i + 1" | "j = i + 2" | "j = i + 3" | "j > i + 3" by linarith
    then show "t_gpr (put_value r n v t) ! j = map ?f [0..<256] ! j"
      using j assms w(3) by cases (auto simp: put_value_def kNumGprs_def Let_def reg_words_def w(1,2) i)
  qed
  moreover have "put_value r n v t = t\<lparr>t_gpr := t_gpr (put_value r n v t)\<rparr>"
    by (simp add: put_value_def Let_def)
  ultimately show ?thesis by (simp add: registers_set_def)
qed

end
