(* ===== verification/Mem_Atomic_Facts.thy ===== *)
theory Mem_Atomic_Facts
  imports Mem_Inst_Facts
begin

text \<open>
  The warp-wide shared atomic addition: what one lane's read-modify-write does, and the loop as
  the lanes' additions one after the other.
\<close>

subsection \<open>One 32-bit addition\<close>

definition word_at :: "bytes \<Rightarrow> u64 \<Rightarrow> u32" where
  "word_at sh addr = ucast (bytes_u64 (read_range (unat addr) 4 sh))"

lemma word_at_write:
  "length new = 4 \<Longrightarrow> unat addr + 4 \<le> length sh \<Longrightarrow>
   word_at (write_range (unat addr) new sh) addr = ucast (bytes_u64 new)"
  by (simp add: word_at_def read_write_same_len)

lemma value64_head: "ucast (value64 v) = v ! 0"
  by (rule value64_low(1))

lemma ucast_of_unat_sum:
  fixes x a b :: u64
  assumes "unat x = (unat a + unat (take_bit 32 b)) mod 2 ^ 32" "unat a < 2 ^ 32"
  shows "(ucast x :: u32) = ucast a + ucast b"
proof -
  have b: "unat (take_bit 32 b) = unat b mod 2 ^ 32" by (simp add: unsigned_take_bit_eq take_bit_nat_def)
  have "unat (ucast x :: u32) = (unat a + unat b mod 2 ^ 32) mod 2 ^ 32"
    by (simp add: unsigned_ucast_eq take_bit_nat_def assms(1) b)
  also have "\<dots> = unat (ucast a + ucast b :: u32)"
    by (simp add: unat_word_ariths unsigned_ucast_eq take_bit_nat_def mod_simps)
  finally show ?thesis by (simp add: word_unat_eq_iff)
qed

lemma width_aligned_4: "width_aligned addr 4 \<longleftrightarrow> addr mod 4 = 0"
  by (simp add: width_aligned_def natural_alignment_def)

lemma atom_shared_add:
  assumes "fits_size_t sh" "unat addr + 4 \<le> length sh" "addr mod 4 = 0"
  shows "\<exists>ov new. atom_shared sh addr 4 kAdd v old None = (Inr (), ov, write_range (unat addr) new sh) \<and>
    length new = 4 \<and> ov ! 0 = word_at sh addr \<and> (ucast (bytes_u64 new) :: u32) = word_at sh addr + v ! 0"
proof -
  have w: "atomic_width_ok 4" by (simp add: atomic_width_ok_def)
  have ok: "atom_shared sh addr 4 kAdd v old None = rmw_bytes sh addr 4 kAdd v None"
    using assms w width_aligned_4 [of addr]
    by (cases rule: atom_shared_cases [OF assms(1), of 4 addr kAdd v old None]) auto
  obtain st ov sh' where r: "rmw_bytes sh addr 4 kAdd v None = (st, ov, sh')" by (cases "rmw_bytes sh addr 4 kAdd v None") auto
  have room: "unat addr + unat (4 :: u64) \<le> length sh" using assms(2) by simp
  note S = rmw_bytes_spec [OF w room r]
  have st: "st = Inr ()" using S(2) by (simp add: atomic_supported_def w)
  obtain new where new: "length new = 4" "sh' = write_range (unat addr) new sh"
    "unat (bytes_u64 new) = (unat (bytes_u64 (read_range (unat addr) 4 sh)) + operand_of 4 v) mod 2 ^ 32"
    using S(4) [OF st] by (auto simp: atomic_spec_def)
  have lt: "unat (bytes_u64 (read_range (unat addr) 4 sh) :: u64) < 2 ^ 32"
    using unat_bytes_u64_lt [of "read_range (unat addr) 4 sh"] assms(2) by simp
  have "(ucast (bytes_u64 new) :: u32) = ucast (bytes_u64 (read_range (unat addr) 4 sh)) + ucast (value64 v)"
    using ucast_of_unat_sum [OF _ lt] new(3) by (simp add: operand_of_def)
  moreover have "ov ! 0 = word_at sh addr"
    using arg_cong [OF S(1), of "\<lambda>x. ucast x :: u32"] by (simp add: value64_head word_at_def)
  ultimately show ?thesis using ok r st new by (auto simp: word_at_def value64_head)
qed

subsection \<open>One lane\<close>

text \<open>The instruction adds 32-bit words in shared memory and has no comparand.\<close>

definition shared_add :: "DecodedInst \<Rightarrow> CoreArgs \<Rightarrow> bool" where
  "shared_add d a \<longleftrightarrow> di_mnem d \<in> {kATOMS, kREDS} \<and> \<not> ca_load a \<and> ca_atom a \<and> ca_cas a = 255 \<and>
     decode_atomic_op d = Some kAdd \<and> atom_bytes (ca_sz a) = 4 \<and> mw_valid (mem_sz d)"

lemma atomic_at_shared:
  "space \<noteq> kGlobal \<Longrightarrow> atom_shared (mx_shared x) addr n op v zero_value cmp = (st, old, sh) \<Longrightarrow>
   atomic_at space addr n op v cmp x = Some (st, old, x\<lparr>mx_shared := sh\<rparr>)"
  by (simp add: atomic_at_def)

lemma lane_step_add:
  assumes "shared_add d a" "fits_size_t (mx_shared x)" "shared_addr d t = Some addr"
    and "unat addr + 4 \<le> length (mx_shared x)" "addr mod 4 = 0" "lane_live m lane t"
    and "t = w_threads (mx_warp x) ! lane"
  shows "\<exists>x' p' ov new. lane_step env d a pc m lane x p = Some (None, x', p') \<and>
    mx_shared x' = write_range (unat addr) new (mx_shared x) \<and> length new = 4 \<and>
    mx_warp x' = (mx_warp x)\<lparr>w_threads := (w_threads (mx_warp x))[lane := put_value (ca_rd a) 4 ov t]\<rparr> \<and>
    ov ! 0 = word_at (mx_shared x) addr \<and>
    (ucast (bytes_u64 new) :: u32) = word_at (mx_shared x) addr + get_value (ca_rb a) 4 t ! 0"
proof -
  let ?v = "get_value (ca_rb a) 4 t" and ?wi = "(mem_sz d)\<lparr>mw_bytes := 4\<rparr>"
  note A = assms(1) [unfolded shared_add_def]
  obtain ov new where at: "atom_shared (mx_shared x) addr 4 kAdd ?v zero_value None =
      (Inr (), ov, write_range (unat addr) new (mx_shared x))" and new: "length new = 4"
      "ov ! 0 = word_at (mx_shared x) addr" "(ucast (bytes_u64 new) :: u32) = word_at (mx_shared x) addr + ?v ! 0"
    using atom_shared_add [OF assms(2,4,5)] by blast
  have acc: "lane_access d a pc m (mx_warp x) t = Inr (kShared, addr, ?wi)"
    using A assms(3) lane_access_shared [of d a pc m "mx_warp x" t kShared addr ?wi] by auto
  have op: "lane_atomic_op d a = Some kAdd" using A by (simp add: lane_atomic_op_def)
  have step: "lane_step env d a pc m lane x p = lane_atom env d a pc m lane kShared addr ?wi x p"
    using A acc assms(6,7) by (simp add: lane_step_def Let_def)
  have at': "atomic_at kShared addr 4 kAdd ?v None x =
      Some (Inr (), ov, x\<lparr>mx_shared := write_range (unat addr) new (mx_shared x)\<rparr>)"
    by (rule atomic_at_shared [OF _ at]) simp
  show ?thesis using new
    by (simp add: step lane_atom_def op at' assms(7) [symmetric] upd_lane_def Let_def) (rule exI [of _ ov], rule exI [of _ new], simp)
qed

subsection \<open>The loop\<close>

text \<open>The sum of the operands of the live lanes of a list.\<close>

definition lanes_sum :: "CoreArgs \<Rightarrow> u32 \<Rightarrow> ThreadState list \<Rightarrow> nat list \<Rightarrow> u32" where
  "lanes_sum a m T lanes = sum_list (map (\<lambda>l. if lane_live m l (T ! l) then get_value (ca_rb a) 4 (T ! l) ! 0 else 0) lanes)"

lemma lanes_from_snoc:
  "lanes_from env d a pc m lanes x p = Some (None, x1, p1) \<Longrightarrow>
   lanes_from env d a pc m (lanes @ [l]) x p = lane_step env d a pc m l x1 p1"
  by (simp add: lanes_from_append split: option.split)

lemma put_value_word: "rd < 255 \<Longrightarrow> length (t_gpr t) = 256 \<Longrightarrow> t_gpr (put_value (word_of_nat rd) 4 v t) ! rd = v ! 0"
  by (simp add: put_value_def kNumGprs_def unat_of_nat_u64 Let_def word_unat_eq_iff)

lemma lanes_from_add:
  assumes add: "shared_add d a" and fits: "fits_size_t (mx_shared x)"
    and room: "unat addr + 4 \<le> length (mx_shared x)" and al: "addr mod 4 = 0"
    and addr: "\<forall>l<length (w_threads (mx_warp x)). lane_live m l (w_threads (mx_warp x) ! l) \<longrightarrow>
      shared_addr d (w_threads (mx_warp x) ! l) = Some addr"
    and k: "k \<le> length (w_threads (mx_warp x))"
  defines "T \<equiv> w_threads (mx_warp x)" and "S \<equiv> mx_shared x"
  shows "\<exists>x' p'. lanes_from env d a pc m [0..<k] x p = Some (None, x', p') \<and>
    length (mx_shared x') = length S \<and> word_at (mx_shared x') addr = word_at S addr + lanes_sum a m T [0..<k] \<and>
    (\<forall>i<length S. i < unat addr \<or> unat addr + 4 \<le> i \<longrightarrow> mx_shared x' ! i = S ! i) \<and>
    (mx_warp x')\<lparr>w_threads := []\<rparr> = (mx_warp x)\<lparr>w_threads := []\<rparr> \<and>
    length (w_threads (mx_warp x')) = length T \<and>
    (\<forall>l<length T. if l < k \<and> lane_live m l (T ! l)
       then \<exists>ov. w_threads (mx_warp x') ! l = put_value (ca_rd a) 4 ov (T ! l) \<and>
              ov ! 0 = word_at S addr + lanes_sum a m T [0..<l]
       else w_threads (mx_warp x') ! l = T ! l)"
  using k
proof (induction k)
  case 0
  then show ?case by (simp add: lanes_sum_def T_def S_def)
next
  case (Suc k)
  then obtain x1 p1 where run: "lanes_from env d a pc m [0..<k] x p = Some (None, x1, p1)"
    and len: "length (mx_shared x1) = length S" and wd: "word_at (mx_shared x1) addr = word_at S addr + lanes_sum a m T [0..<k]"
    and fr: "\<forall>i<length S. i < unat addr \<or> unat addr + 4 \<le> i \<longrightarrow> mx_shared x1 ! i = S ! i"
    and wv: "(mx_warp x1)\<lparr>w_threads := []\<rparr> = (mx_warp x)\<lparr>w_threads := []\<rparr>"
    and lt: "length (w_threads (mx_warp x1)) = length T"
    and th: "\<forall>l<length T. if l < k \<and> lane_live m l (T ! l)
       then \<exists>ov. w_threads (mx_warp x1) ! l = put_value (ca_rd a) 4 ov (T ! l) \<and>
              ov ! 0 = word_at S addr + lanes_sum a m T [0..<l]
       else w_threads (mx_warp x1) ! l = T ! l" by auto
  have kT: "k < length T" using Suc.prems by (simp add: T_def)
  have tk: "w_threads (mx_warp x1) ! k = T ! k" using th kT by auto
  have run': "lanes_from env d a pc m [0..<Suc k] x p = lane_step env d a pc m k x1 p1"
    using lanes_from_snoc [OF run, of k] by simp
  show ?case
  proof (cases "lane_live m k (T ! k)")
    case False
    then have "lane_step env d a pc m k x1 p1 = Some (None, x1, p1)" by (simp add: lane_step_def tk)
    with False show ?thesis using run' len wd fr wv lt th by (auto simp: lanes_sum_def less_Suc_eq)
  next
    case True
    have "fits_size_t (mx_shared x1)" using fits len by (simp add: fits_size_t_def S_def)
    then obtain x' p' ov new where st: "lane_step env d a pc m k x1 p1 = Some (None, x', p')"
      and sh: "mx_shared x' = write_range (unat addr) new (mx_shared x1)" "length new = 4"
      and wp: "mx_warp x' = (mx_warp x1)\<lparr>w_threads := (w_threads (mx_warp x1))[k := put_value (ca_rd a) 4 ov (T ! k)]\<rparr>"
      and ov: "ov ! 0 = word_at (mx_shared x1) addr"
        "(ucast (bytes_u64 new) :: u32) = word_at (mx_shared x1) addr + get_value (ca_rb a) 4 (T ! k) ! 0"
      using lane_step_add [OF add, of x1 "T ! k" addr m k] addr True tk kT room al len
      by (metis T_def S_def)
    have "word_at (mx_shared x') addr = word_at S addr + lanes_sum a m T [0..<Suc k]"
      using word_at_write [OF sh(2), of addr "mx_shared x1"] room len sh ov wd True
      by (simp add: lanes_sum_def S_def add.assoc)
    moreover have "\<forall>i<length S. i < unat addr \<or> unat addr + 4 \<le> i \<longrightarrow> mx_shared x' ! i = S ! i"
      using fr sh room len by (auto simp: nth_write_range S_def)
    moreover have "(mx_warp x')\<lparr>w_threads := []\<rparr> = (mx_warp x)\<lparr>w_threads := []\<rparr>"
      using wp wv by (simp add: wp)
    moreover have "\<forall>l<length T. if l < Suc k \<and> lane_live m l (T ! l)
       then \<exists>ov. w_threads (mx_warp x') ! l = put_value (ca_rd a) 4 ov (T ! l) \<and>
              ov ! 0 = word_at S addr + lanes_sum a m T [0..<l]
       else w_threads (mx_warp x') ! l = T ! l"
    proof (intro allI impI)
      fix l assume l: "l < length T"
      show "if l < Suc k \<and> lane_live m l (T ! l)
       then \<exists>ov. w_threads (mx_warp x') ! l = put_value (ca_rd a) 4 ov (T ! l) \<and>
              ov ! 0 = word_at S addr + lanes_sum a m T [0..<l]
       else w_threads (mx_warp x') ! l = T ! l"
      proof (cases "l = k")
        case True
        then show ?thesis using wp lt l ov(1) wd \<open>lane_live m k (T ! k)\<close> by auto
      next
        case False
        then have "w_threads (mx_warp x') ! l = w_threads (mx_warp x1) ! l" using wp by simp
        with th l False show ?thesis by (auto simp: less_Suc_eq)
      qed
    qed
    ultimately show ?thesis using run' st wp sh len lt room by (auto simp: S_def)
  qed
qed

end
