(* ===== verification/Mem_Record_Facts.thy ===== *)
theory Mem_Record_Facts
  imports Mem_Record "HOL-Library.Multiset"
begin

text \<open>
  The logs with a sequence number per CTA and their order: the interface \<open>ordinal_log\<close> for the
  race events and the L2 requests, what the recorders keep of it, and the renumbering of the
  event ids.
\<close>

subsection \<open>Logs numbered per CTA\<close>

text \<open>
  The entries of a CTA carry the numbers 0, 1, 2, \<open>\<dots>\<close> in the order they were appended, and the
  map holds the next number of every CTA.
\<close>

definition numbered :: "('e \<Rightarrow> u32) \<Rightarrow> ('e \<Rightarrow> u64) \<Rightarrow> 'e list \<Rightarrow> (u32, u64) omap \<Rightarrow> bool" where
  "numbered cta_of ord_of log m \<longleftrightarrow> om_inv m \<and>
     (\<forall>c. let es = filter (\<lambda>e. cta_of e = c) log
          in map ord_of es = map word_of_nat [0..<length es] \<and> om_at 0 m c = word_of_nat (length es))"

text \<open>What \<open>n\<close> workers have logged, each for the CTAs it owns, one worker after the other.\<close>

definition worker_logs :: "('e \<Rightarrow> u32) \<Rightarrow> (u32 \<Rightarrow> nat) \<Rightarrow> nat \<Rightarrow> 'e list \<Rightarrow> 'e list" where
  "worker_logs cta_of owner n log = concat (map (\<lambda>w. filter (\<lambda>e. owner (cta_of e) = w) log) [0..<n])"

lemma numbered_empty: "numbered cta_of ord_of [] []"
  by (simp add: numbered_def om_at_def)

lemma numbered_push:
  assumes "numbered cta_of ord_of log m" "cta_of e = c" "ord_of e = fst (next_ordinal c m)"
  shows "numbered cta_of ord_of (log @ [e]) (snd (next_ordinal c m))"
  using assms by (auto simp: numbered_def next_ordinal_def om_at_def omap_simps Let_def)

lemma mset_worker_logs:
  "\<forall>e\<in>set log. owner (cta_of e) < n \<Longrightarrow> mset (worker_logs cta_of owner n log) = mset log"
proof -
  have gen: "mset (worker_logs cta_of owner k log) = mset (filter (\<lambda>e. owner (cta_of e) < k) log)" for k
  proof (induction k)
    case (Suc k)
    have "mset (filter (\<lambda>e. owner (cta_of e) < Suc k) log) =
        mset (filter (\<lambda>e. owner (cta_of e) < k) log) + mset (filter (\<lambda>e. owner (cta_of e) = k) log)"
      by (induction log) auto
    with Suc show ?case by (simp add: worker_logs_def)
  qed (simp add: worker_logs_def)
  assume "\<forall>e\<in>set log. owner (cta_of e) < n"
  then have "filter (\<lambda>e. owner (cta_of e) < n) log = log" by (simp add: filter_id_conv)
  with gen [of n] show ?thesis by simp
qed

lemma filter_split_nth:
  assumes "j < length xs" "P (xs ! j)"
  shows "filter P xs = filter P (take j xs) @ xs ! j # filter P (drop (Suc j) xs)"
proof -
  have "filter P xs = filter P (take j xs @ xs ! j # drop (Suc j) xs)"
    using assms(1) by (simp only: id_take_nth_drop [symmetric])
  with assms(2) show ?thesis by simp
qed

locale ordinal_log =
  fixes cta_of :: "'e \<Rightarrow> u32" and ord_of :: "'e \<Rightarrow> u64" and key :: "'e \<Rightarrow> 'k::linorder"
  assumes key_cta: "cta_of e < cta_of e' \<Longrightarrow> key e < key e'"
    and key_ord: "cta_of e = cta_of e' \<Longrightarrow> ord_of e < ord_of e' \<Longrightarrow> key e < key e'"
begin

lemma numbered_nth:
  assumes "numbered cta_of ord_of log m" "length log \<le> 2 ^ 64"
    and "i < j" "j < length log" "cta_of (log ! i) = cta_of (log ! j)"
  shows "ord_of (log ! i) < ord_of (log ! j)"
proof -
  let ?P = "\<lambda>e. cta_of e = cta_of (log ! j)"
  let ?es = "filter ?P log"
  have i: "i < length (take j log)" "take j log ! i = log ! i" using assms(3,4) by simp_all
  have "log ! i \<in> set (take j log)" using nth_mem [OF i(1)] by (simp only: i(2))
  then have "log ! i \<in> set (filter ?P (take j log))"
    by (simp only: set_filter mem_Collect_eq assms(5) simp_thms)
  then have "\<exists>a < length (filter ?P (take j log)). filter ?P (take j log) ! a = log ! i"
    by (simp only: in_set_conv_nth)
  then obtain a where a: "a < length (filter ?P (take j log))" "filter ?P (take j log) ! a = log ! i"
    by (elim exE conjE)
  let ?b = "length (filter ?P (take j log))"
  have es: "?es = filter ?P (take j log) @ log ! j # filter ?P (drop (Suc j) log)"
    by (rule filter_split_nth [OF assms(4)]) simp
  have nth: "?es ! a = log ! i" "?es ! ?b = log ! j" "?b < length ?es"
    unfolding es using a by (simp_all add: nth_append)
  have len: "length ?es \<le> 2 ^ 64" using assms(2) length_filter_le [of ?P log] by linarith
  have ords: "map ord_of ?es = map word_of_nat [0..<length ?es]" using assms(1) by (simp add: numbered_def Let_def)
  have "ord_of (?es ! k) = word_of_nat k" if "k < length ?es" for k
    using arg_cong [OF ords, of "\<lambda>l. l ! k"] that by simp
  then have o': "ord_of (?es ! a) = word_of_nat a" "ord_of (?es ! ?b) = word_of_nat ?b" using a(1) nth(3) by simp_all
  have "ord_of (log ! i) = word_of_nat a" using o'(1) by (simp only: nth(1))
  moreover have "ord_of (log ! j) = word_of_nat ?b" using o'(2) by (simp only: nth(2))
  ultimately show ?thesis using a(1) nth(3) len by (simp add: word_less_nat_alt unat_of_nat_u64)
qed

lemma key_inj:
  assumes "numbered cta_of ord_of log m" "length log \<le> 2 ^ 64"
  shows "distinct (map key log)"
proof -
  have "key (log ! i) \<noteq> key (log ! j)" if "i < j" "j < length log" for i j
  proof (cases "cta_of (log ! i) = cta_of (log ! j)")
    case True
    then show ?thesis using key_ord [OF True numbered_nth [OF assms that True]] by simp
  next
    case False
    then show ?thesis using key_cta [of "log ! i" "log ! j"] key_cta [of "log ! j" "log ! i"] by (metis less_irrefl neqE)
  qed
  then show ?thesis by (auto simp: distinct_conv_nth) (metis nat_neq_iff)
qed

text \<open>Sorting forgets how the log was split among workers.\<close>

lemma order_determined:
  assumes "numbered cta_of ord_of log m" "length log \<le> 2 ^ 64" "mset log' = mset log"
  shows "sort_key key log' = sort_key key log"
proof -
  have "inj_on key (set log)" using key_inj [OF assms(1,2)] by (simp add: distinct_map)
  then have "inj_on key (set log')" using assms(3) by (metis set_mset_mset)
  then show ?thesis using assms(3) by (intro sort_key_inj_key_eq) simp_all
qed

text \<open>Every CTA keeps its own order.\<close>

lemma cta_order_kept:
  assumes "numbered cta_of ord_of log m" "length log \<le> 2 ^ 64"
  shows "filter (\<lambda>e. cta_of e = c) (sort_key key log) = filter (\<lambda>e. cta_of e = c) log"
proof -
  let ?P = "\<lambda>e. cta_of e = c"
  have "sorted_wrt (\<lambda>e e'. cta_of e = cta_of e' \<longrightarrow> key e \<le> key e') log"
    unfolding sorted_wrt_iff_nth_less
    using numbered_nth [OF assms] key_ord by (meson less_imp_le)
  then have "sorted_wrt (\<lambda>e e'. cta_of e = cta_of e' \<longrightarrow> key e \<le> key e') (filter ?P log)" by (rule sorted_wrt_filter)
  then have "sorted_wrt (\<lambda>e e'. key e \<le> key e') (filter ?P log)"
    by (rule sorted_wrt_mono_rel [rotated]) auto
  then have "sorted (map key (filter ?P log))" by (simp add: sorted_map)
  then show ?thesis by (simp add: filter_sort sort_key_id_if_sorted)
qed

end

interpretation race: ordinal_log re_cta re_ordinal race_key
  by unfold_locales (simp_all add: race_key_def)

interpretation l2: ordinal_log l2_cta l2_ordinal l2_key
  by unfold_locales (simp_all add: l2_key_def)

subsection \<open>The recorders keep the numbering\<close>

definition logs_numbered :: "Tracer \<Rightarrow> bool" where
  "logs_numbered tr \<longleftrightarrow> numbered re_cta re_ordinal (tr_race_log tr) (tr_race_ordinal tr) \<and>
     numbered l2_cta l2_ordinal (tr_l2_log tr) (tr_l2_ordinal tr)"

lemma push_race_event_numbered:
  assumes "logs_numbered tr" "\<And>n. re_cta (ev n) = cta \<and> re_ordinal (ev n) = n"
  shows "logs_numbered (push_race_event ev cta tr)"
  using assms numbered_push [of re_cta re_ordinal "tr_race_log tr" "tr_race_ordinal tr"
      "ev (fst (next_ordinal cta (tr_race_ordinal tr)))" cta]
  by (simp add: logs_numbered_def push_race_event_def case_prod_unfold)

lemma record_race_access_numbered [intro]:
  "logs_numbered tr \<Longrightarrow> logs_numbered (record_race_access env w d pc lane space addr len wr at mo sc ms tr)"
  by (auto simp: record_race_access_def Let_def intro: push_race_event_numbered)

lemma fence_event_numbered [intro]: "logs_numbered tr \<Longrightarrow> logs_numbered (fence_event env scope w tr)"
  by (auto simp: fence_event_def Let_def intro: push_race_event_numbered)

lemma record_l2_access_numbered [intro]:
  assumes "logs_numbered tr"
  shows "logs_numbered (record_l2_access env w d pc rk space addr len lane tr)"
  using assms
  by (auto simp: logs_numbered_def record_l2_access_def case_prod_unfold Let_def intro!: numbered_push)

lemma record_debug_access_numbered [intro]:
  "logs_numbered tr \<Longrightarrow> logs_numbered (record_debug_access lane space addr len wr at tr)"
  by (simp add: logs_numbered_def record_debug_access_def)

lemma record_memory_event_numbered [intro]:
  "logs_numbered tr \<Longrightarrow> logs_numbered (record_memory_event env w d pc m rk ew space wr lr cm tr)"
  by (simp add: logs_numbered_def record_memory_event_def case_prod_unfold)

subsection \<open>Renumbering\<close>

fun remap_of :: "(u64, u64) omap \<Rightarrow> u64 \<Rightarrow> MemoryEvent list \<Rightarrow> (u64, u64) omap" where
  "remap_of m n [] = m"
| "remap_of m n (ev # evs) = remap_of (om_put (me_event_id ev) (n + 1) m) (n + 1) evs"

lemma renumber_snoc:
  "renumber m n (evs @ [ev]) = renumber m n evs @
     [ev\<lparr>me_parent_event_id := (case om_find (remap_of m n evs) (me_parent_event_id ev) of
            None \<Rightarrow> me_parent_event_id ev | Some p \<Rightarrow> p),
         me_event_id := n + word_of_nat (length evs) + 1\<rparr>]"
proof (induction evs arbitrary: m n)
  case Nil
  then show ?case by (auto simp: Let_def split: option.split)
next
  case (Cons e evs)
  show ?case using Cons [of "om_put (me_event_id e) (n + 1) m" "n + 1"] by (simp add: Let_def add.assoc)
qed

text \<open>The last event before that carries an old id.\<close>

definition last_with :: "u64 \<Rightarrow> MemoryEvent list \<Rightarrow> nat option" where
  "last_with i evs = (let js = filter (\<lambda>j. me_event_id (evs ! j) = i) [0..<length evs] in if js = [] then None else Some (last js))"

lemma last_with_snoc:
  "last_with i (evs @ [e]) = (if me_event_id e = i then Some (length evs) else last_with i evs)"
proof -
  have "filter (\<lambda>j. me_event_id ((evs @ [e]) ! j) = i) [0..<length evs] = filter (\<lambda>j. me_event_id (evs ! j) = i) [0..<length evs]"
    by (rule filter_cong) (simp_all add: nth_append)
  then show ?thesis by (simp add: last_with_def Let_def)
qed

lemma remap_of_snoc: "remap_of m n (evs @ [e]) = om_put (me_event_id e) (n + word_of_nat (length evs) + 1) (remap_of m n evs)"
  by (induction evs arbitrary: m n) (simp_all add: add.assoc)

lemma remap_of_last:
  "om_inv (remap_of [] 0 evs) \<and>
   om_find (remap_of [] 0 evs) i = map_option (\<lambda>j. word_of_nat (j + 1)) (last_with i evs)"
proof (induction evs rule: rev_induct)
  case Nil
  then show ?case by (simp add: last_with_def)
next
  case (snoc e evs)
  then show ?case by (simp add: remap_of_snoc last_with_snoc omap_simps add.commute)
qed

definition renumbered :: "MemoryEvent list \<Rightarrow> nat \<Rightarrow> MemoryEvent" where
  "renumbered evs i = (evs ! i)\<lparr>me_event_id := word_of_nat (i + 1),
     me_parent_event_id := (case last_with (me_parent_event_id (evs ! i)) (take i evs) of
        None \<Rightarrow> me_parent_event_id (evs ! i) | Some j \<Rightarrow> word_of_nat (j + 1))\<rparr>"

lemma normalize_renumbers: "normalize_memory_event_ids evs = map (renumbered evs) [0..<length evs]"
proof (induction evs rule: rev_induct)
  case Nil
  then show ?case by (simp add: normalize_memory_event_ids_def)
next
  case (snoc e evs)
  have old: "renumbered (evs @ [e]) i = renumbered evs i" if "i < length evs" for i
    using that by (simp add: renumbered_def nth_append cong: option.case_cong)
  have new: "renumbered (evs @ [e]) (length evs) =
      e\<lparr>me_parent_event_id := (case om_find (remap_of [] 0 evs) (me_parent_event_id e) of
            None \<Rightarrow> me_parent_event_id e | Some p \<Rightarrow> p), me_event_id := 0 + word_of_nat (length evs) + 1\<rparr>"
    using remap_of_last [of evs "me_parent_event_id e"]
    by (cases "last_with (me_parent_event_id e) evs") (simp_all add: renumbered_def add.commute)
  show ?case
    using snoc old new by (simp add: normalize_memory_event_ids_def renumber_snoc)
qed

end
