(* ===== verification/Mem_Safety.thy ===== *)
theory Mem_Safety
  imports Mem_Atomic_Facts Mem_Record_Facts Alu_Safety
begin

text \<open>The properties of the memory instructions and of their records.\<close>

subsection \<open>Loads\<close>

lemma core_success:
  assumes "mem_ldst_atom_core env m d pc a x = Some (None, x')"
  obtains x1 p tr where "lanes_from env d a pc m [0..<32] x new_prof = Some (None, x1, p)" "x' = x1\<lparr>mx_trace := tr\<rparr>"
proof -
  obtain x1 p where "lanes_from env d a pc m [0..<32] x new_prof = Some (None, x1, p)"
    using assms by (auto simp: mem_ldst_atom_core_def split: option.splits)
  moreover from this have "\<exists>tr. x' = x1\<lparr>mx_trace := tr\<rparr>"
    using assms by (simp add: mem_ldst_atom_core_def Let_def) blast
  ultimately show ?thesis using that by blast
qed

text \<open>What a load does lane by lane.\<close>

lemma core_load_lanes:
  assumes "mem_ldst_atom_core env m d pc (load_args rd) x = Some (None, x')" "length (w_threads (mx_warp x)) = 32"
  shows "load_view x' = load_view x \<and>
    (\<forall>l<32. let t = w_threads (mx_warp x) ! l in
       if lane_live m l t
       then \<exists>n v. loaded d (load_args rd) x t = Some (n, v) \<and> w_threads (mx_warp x') ! l = put_value rd n v t
       else w_threads (mx_warp x') ! l = t)"
proof -
  obtain x1 p tr where run: "lanes_from env d (load_args rd) pc m [0..<32] x new_prof = Some (None, x1, p)"
    and x': "x' = x1\<lparr>mx_trace := tr\<rparr>"
    using core_success [OF assms(1)] by blast
  have "ca_load (load_args rd)" "ca_rd (load_args rd) = rd" by (simp_all add: load_args_def)
  with lanes_from_load [OF _ _ _ run] assms(2) x' show ?thesis by (auto simp: load_view_def Let_def)
qed

text \<open>C10: A load that does not fault puts the value each live lane of its mask reads at its own address
  into the lane's destination registers, widened as the width slot says, and changes no other lane,
  no memory and no shared byte.\<close>

theorem load_fills_registers:
  assumes "mem_ldst_atom_core env m d pc (load_args rd) x = Some (None, x')" "length (w_threads (mx_warp x)) = 32"
    and "\<forall>t\<in>set (w_threads (mx_warp x)). length (t_gpr t) = 256"
  shows "load_view x' = load_view x \<and>
    (\<forall>l<32. let t = w_threads (mx_warp x) ! l in
       if lane_live m l t
       then \<exists>n v. loaded d (load_args rd) x t = Some (n, v) \<and>
         w_threads (mx_warp x') ! l = t\<lparr>t_gpr := map (\<lambda>j. if rd \<noteq> 255 \<and> unat rd \<le> j \<and> j < unat rd + reg_words n
           then v ! (j - unat rd) else t_gpr t ! j) [0..<256]\<rparr>
       else w_threads (mx_warp x') ! l = t)"
  using core_load_lanes [OF assms(1,2)] assms(2,3)
  by (auto simp: Let_def put_value_registers registers_set_def split: if_splits)

subsection \<open>Faults\<close>

lemma lane_access_space:
  assumes "lane_access d a pc m w t = Inr (space, addr, wi)" "di_mnem d \<notin> {kLDL, kSTL, kLDC, kLDCU}"
  shows "space = kShared \<or> space = kGlobal"
  using assms
  by (cases "di_mnem d") (auto simp: lane_access_def resolve_mem_addr_def Let_def split: if_splits option.splits)

lemma race_log_grows:
  "tr_race_on tr \<Longrightarrow> length (tr_race_log (record_race_access env w d pc lane space addr len wr at mo sc ms tr)) =
     Suc (length (tr_race_log tr)) \<and> tr_race_on (record_race_access env w d pc lane space addr len wr at mo sc ms tr)"
  by (simp add: record_race_access_def push_race_event_def case_prod_unfold Let_def)

lemma other_records_keep_races:
  "tr_race_log (record_l2_access env w d pc rk space addr len lane tr) = tr_race_log tr"
  "tr_race_on (record_l2_access env w d pc rk space addr len lane tr) = tr_race_on tr"
  "tr_race_log (record_debug_access lane space addr len wr at tr) = tr_race_log tr"
  "tr_race_on (record_debug_access lane space addr len wr at tr) = tr_race_on tr"
  by (simp_all add: record_l2_access_def record_debug_access_def case_prod_unfold Let_def)

lemma atomic_at_keeps: "atomic_at space addr n op v cmp x = Some (st, old, x') \<Longrightarrow> mx_trace x' = mx_trace x \<and> mx_warp x' = mx_warp x"
  by (auto simp: atomic_at_def split: if_splits prod.splits)

lemma store_to_keeps:
  "store_to space addr wi v x = Some (st, x') \<Longrightarrow> mx_trace x' = mx_trace x \<and> w_threads (mx_warp x') = w_threads (mx_warp x)"
  by (cases space) (auto simp: store_to_def split: prod.splits)

lemma put_value_live [simp]: "lane_live m l (put_value r n v t) = lane_live m l t"
  by (simp add: lane_live_def put_value_def Let_def)

text \<open>A lane that writes leaves one race event behind, and every lane keeps its liveness.\<close>

lemma lane_write_step:
  assumes "\<not> ca_load a" "di_mnem d \<notin> {kLDL, kSTL, kLDC, kLDCU}" "tr_race_on (mx_trace x)"
    and "lane_step env d a pc m lane x p = Some (None, x', p')"
  shows "tr_race_on (mx_trace x') \<and>
    length (tr_race_log (mx_trace x')) =
      length (tr_race_log (mx_trace x)) + (if lane_live m lane (w_threads (mx_warp x) ! lane) then 1 else 0)"
proof (cases "lane_live m lane (w_threads (mx_warp x) ! lane)")
  case True
  obtain space addr wi where acc: "lane_access d a pc m (mx_warp x) (w_threads (mx_warp x) ! lane) = Inr (space, addr, wi)"
    and st: "(if ca_atom a then lane_atom env d a pc m lane space addr wi x p
              else lane_store env d a pc m lane space addr wi x p) = Some (None, x', p')"
    using assms(1,4) True by (auto simp: lane_step_def Let_def split: sum.splits)
  have sp: "space = kShared \<or> space = kGlobal" using lane_access_space [OF acc assms(2)] .
  show ?thesis
  proof (cases "ca_atom a")
    case True
    with st sp \<open>lane_live m lane _\<close> assms(3) show ?thesis unfolding lane_atom_def Let_def
      by (auto simp: other_records_keep_races race_log_grows upd_lane_def
          split: option.splits sum.splits prod.splits dest!: atomic_at_keeps)
  next
    case False
    with st sp \<open>lane_live m lane _\<close> assms(3) show ?thesis unfolding lane_store_def Let_def
      by (auto simp: other_records_keep_races race_log_grows
          split: option.splits sum.splits prod.splits dest!: store_to_keeps)
  qed
qed (use assms in \<open>simp add: lane_step_def\<close>)

lemma lane_step_live:
  assumes "lane_step env d a pc m lane x p = Some (None, x', p')"
  shows "length (w_threads (mx_warp x')) = length (w_threads (mx_warp x)) \<and>
    lane_live m l (w_threads (mx_warp x') ! l) = lane_live m l (w_threads (mx_warp x) ! l)"
proof (cases "ca_load a")
  case True
  then show ?thesis using lane_step_load [OF True assms] by (cases "l = lane"; cases "l < length (w_threads (mx_warp x))") (auto simp: list_update_beyond split: if_splits option.splits)
next
  case False
  have up: "lane_live m l (w_threads (mx_warp (upd_lane lane (put_value r n v) y)) ! l) = lane_live m l (w_threads (mx_warp y) ! l)" for r n v y
    by (cases "l = lane"; cases "l < length (w_threads (mx_warp y))") (simp_all add: upd_lane_def list_update_beyond)
  have ul: "length (w_threads (mx_warp (upd_lane lane f y))) = length (w_threads (mx_warp y))" for f y
    by (simp add: upd_lane_def)
  show ?thesis
  proof (cases "lane_live m lane (w_threads (mx_warp x) ! lane)")
    case True
    then obtain space addr wi where
      st: "(if ca_atom a then lane_atom env d a pc m lane space addr wi x p
              else lane_store env d a pc m lane space addr wi x p) = Some (None, x', p')"
      using assms False by (auto simp: lane_step_def Let_def split: sum.splits)
    show ?thesis
    proof (cases "ca_atom a")
      case True
      with st up show ?thesis unfolding lane_atom_def Let_def
        by (auto simp: ul split: option.splits sum.splits prod.splits dest!: atomic_at_keeps)
    next
      case False
      with st show ?thesis unfolding lane_store_def Let_def
        by (auto split: option.splits sum.splits prod.splits if_splits dest!: store_to_keeps)
    qed
  qed (use assms in \<open>simp add: lane_step_def\<close>)
qed

lemma lanes_from_live:
  "lanes_from env d a pc m lanes x p = Some (None, x', p') \<Longrightarrow>
   lane_live m l (w_threads (mx_warp x') ! l) = lane_live m l (w_threads (mx_warp x) ! l)"
proof (induction lanes arbitrary: x p)
  case (Cons lane lanes)
  then obtain x1 p1 where "lane_step env d a pc m lane x p = Some (None, x1, p1)"
    "lanes_from env d a pc m lanes x1 p1 = Some (None, x', p')" by (auto split: option.splits)
  then show ?case using Cons.IH lane_step_live by metis
qed simp

lemma lanes_write_log:
  "\<not> ca_load a \<Longrightarrow> di_mnem d \<notin> {kLDL, kSTL, kLDC, kLDCU} \<Longrightarrow> tr_race_on (mx_trace x) \<Longrightarrow>
   lanes_from env d a pc m lanes x p = Some (None, x', p') \<Longrightarrow>
   length (tr_race_log (mx_trace x')) = length (tr_race_log (mx_trace x)) +
     length (filter (\<lambda>l. lane_live m l (w_threads (mx_warp x) ! l)) lanes)"
proof (induction lanes arbitrary: x p)
  case (Cons lane lanes)
  then obtain x1 p1 where st: "lane_step env d a pc m lane x p = Some (None, x1, p1)"
    and rest: "lanes_from env d a pc m lanes x1 p1 = Some (None, x', p')" by (auto split: option.splits)
  have w: "tr_race_on (mx_trace x1)" "length (tr_race_log (mx_trace x1)) =
      length (tr_race_log (mx_trace x)) + (if lane_live m lane (w_threads (mx_warp x) ! lane) then 1 else 0)"
    using lane_write_step [OF Cons.prems(1-3) st] by auto
  have "lane_live m l (w_threads (mx_warp x1) ! l) = lane_live m l (w_threads (mx_warp x) ! l)" for l
    using lane_step_live [OF st] by blast
  with Cons.IH [OF Cons.prems(1,2) w(1) rest] w(2) show ?case by simp
qed simp

text \<open>C11: A store or atomic that faults stops at the first live lane that faults: exactly the lanes
  before it have taken effect, in lane order, and only their accesses are in the race log.\<close>

theorem faulting_write_is_precise:
  assumes "\<not> ca_load a" "mem_ldst_atom_core env m d pc a x = Some (Some f, x')"
  shows "\<exists>lane<32. \<exists>p. lanes_from env d a pc m [0..<lane] x new_prof = Some (None, x', p) \<and>
    lane_live m lane (w_threads (mx_warp x) ! lane) \<and>
    (tr_race_on (mx_trace x) \<and> di_mnem d \<notin> {kLDL, kSTL, kLDC, kLDCU} \<longrightarrow>
       length (tr_race_log (mx_trace x')) = length (tr_race_log (mx_trace x)) +
         length (filter (\<lambda>l. lane_live m l (w_threads (mx_warp x) ! l)) [0..<lane]))"
proof -
  obtain p where run: "lanes_from env d a pc m [0..<32] x new_prof = Some (Some f, x', p)"
    using assms(2) by (auto simp: mem_ldst_atom_core_def Let_def split: option.splits)
  obtain pre lane post x1 p1 where split: "[0..<32] = pre @ lane # post"
    and pre: "lanes_from env d a pc m pre x new_prof = Some (None, x1, p1)"
    and st: "lane_step env d a pc m lane x1 p1 = Some (Some f, x', p)"
    using lanes_from_fault [OF run] by blast
  have l: "pre = [0..<lane]" "lane < 32" using upt_split [OF split] by simp_all
  have x': "x' = x1" "lane_live m lane (w_threads (mx_warp x1) ! lane)" using lane_write_fault [OF assms(1) st] by auto
  then have "lane_live m lane (w_threads (mx_warp x) ! lane)" using lanes_from_live [OF pre] by blast
  then show ?thesis
    using l pre x'(1) lanes_write_log [OF assms(1) _ _ pre] by blast
qed

text \<open>An atomic whose operation the emulator does not implement faults at its first
  live lane, before any memory, register or record has changed.\<close>

theorem unsupported_atomic_faults:
  assumes "decode_atomic_op d = None" "ca_cas a = 255" "ca_atom a" "\<not> ca_load a"
    and "lane < 32" "lane_live m lane (w_threads (mx_warp x) ! lane)" "\<forall>l<lane. \<not> lane_live m l (w_threads (mx_warp x) ! l)"
    and "lane_access d a pc m (mx_warp x) (w_threads (mx_warp x) ! lane) = Inr r"
  shows "mem_ldst_atom_core env m d pc a x = Some (Some (unsupported_atomic d pc m (mx_warp x)), x)"
proof -
  have dead: "lanes_from env d a pc m ls x p = Some (None, x, p)"
    if "\<forall>l\<in>set ls. \<not> lane_live m l (w_threads (mx_warp x) ! l)" for ls p
    using that by (induction ls) (simp_all add: lane_step_def)
  obtain space addr wi where r: "r = (space, addr, wi)" by (cases r)
  have st: "lane_step env d a pc m lane x new_prof = Some (Some (unsupported_atomic d pc m (mx_warp x)), x, new_prof)"
    using assms r by (simp add: lane_step_def lane_atom_def lane_atomic_op_def Let_def)
  have "[0..<32] = [0..<lane] @ lane # [Suc lane..<32]"
    using assms(5) by (metis le_add_same_cancel1 less_imp_add_positive upt_add_eq_append upt_conv_Cons zero_le)
  then have "lanes_from env d a pc m [0..<32] x new_prof = Some (Some (unsupported_atomic d pc m (mx_warp x)), x, new_prof)"
    using dead [of "[0..<lane]" new_prof] assms(7) st by (simp add: lanes_from_append del: upt_conv_Cons)
  then show ?thesis by (simp add: mem_ldst_atom_core_def)
qed

subsection \<open>Shared memory, warp-wide\<close>

lemma lds_of_bytes:
  assumes "wi = mem_width_info s" "fits_size_t sh" "mw_valid wi" "length v = 4"
    and "unat addr + unat (mw_bytes wi) \<le> length sh" "width_aligned addr (mw_bytes wi)"
    and "\<And>k. k < unat (mw_bytes wi) \<Longrightarrow> sh ! (unat addr + k) = value_byte v k"
  shows "lds sh addr 0 wi out = (Inr (), extended wi v)"
proof -
  have n: "min (mw_bytes wi) 16 = mw_bytes wi" "unat (mw_bytes wi) \<le> 16"
    using mem_width_cases [of s] assms(1,3) by auto
  have "read_range (unat addr) (unat (mw_bytes wi)) sh = mem_value_to_bytes v (mw_bytes wi)"
    using assms(5,7) n by (intro nth_equalityI) (simp_all add: nth_read_range mem_value_to_bytes_def)
  with assms unpack_pack [OF assms(1,3,4)] out_of_window_iff [OF assms(2), of addr "mw_bytes wi"] n
  show ?thesis by (simp add: lds_def Let_def)
qed

lemma length_get_value [simp]: "length (get_value r n t) = 4"
  by (simp add: get_value_def zero_value_def Let_def)

lemma shared_loaded:
  assumes "di_mnem d = kLDS" "mw_valid (mem_sz d)" "shared_addr d t = Some addr"
    and "lds (mx_shared x) addr 0 (mem_sz d) zero_value = (Inr (), v)"
  shows "loaded d (load_args rd) x t = Some (mw_bytes (mem_sz d), v)"
proof -
  have "lane_access d (load_args rd) 0 0 (mx_warp x) t = Inr (kShared, addr, mem_sz d)"
    using lane_access_shared [of d "load_args rd" 0 0 "mx_warp x" t kShared addr "mem_sz d"] assms(1-3)
    by (simp add: load_args_def)
  with assms(4) show ?thesis by (simp add: loaded_def load_result_def load_from_def)
qed

text \<open>C9: A warp-wide store to shared memory is read back by a load of the same width and addresses:
  when the stored bytes of different lanes do not overlap, every live lane gets its own stored value,
  truncated and extended as the width slot says.\<close>

theorem warp_store_load_roundtrip:
  fixes ds dl :: DecodedInst
  assumes "di_mnem ds = kSTS" "di_mnem dl = kLDS" "mem_sz dl = mem_sz ds"
    and "fits_size_t (mx_shared x)" "length (w_threads (mx_warp x)) = 32"
    and "do_sts env m ds pc x = Some (None, x1)" "\<forall>t\<in>set (w_threads (mx_warp x)). length (t_gpr t) = 256"
  defines "T \<equiv> w_threads (mx_warp x)" and "n \<equiv> mw_bytes (mem_sz ds)"
  assumes "\<forall>l<32. lane_live m l (T ! l) \<longrightarrow> shared_addr dl (T ! l) = shared_addr ds (T ! l)"
    and "\<forall>l<32. \<forall>l'<32. \<forall>i. lane_covers ds m T i l \<and> lane_covers ds m T i l' \<longrightarrow> l = l'"
  shows "\<exists>x2. do_lds env m dl pc' x1 = Some (None, x2) \<and>
    (\<forall>l<32. w_threads (mx_warp x2) ! l =
       (if lane_live m l (T ! l)
        then registers_set (mem_ov_idx (rd_op DecodedLDS3 ''Rd'' dl)) n
               (extended (mem_sz ds) (get_value (mem_ov_idx (rd_op DecodedSTS3 ''Rb'' ds)) n (T ! l))) (T ! l)
        else T ! l))"
proof -
  let ?rb = "mem_ov_idx (rd_op DecodedSTS3 ''Rb'' ds)" and ?rd = "mem_ov_idx (rd_op DecodedLDS3 ''Rd'' dl)"
  let ?a = "store_args ?rb" and ?v = "\<lambda>l. get_value ?rb n (T ! l)"
  have a: "\<not> ca_load ?a" "\<not> ca_atom ?a" "ca_rb ?a = ?rb" by (simp_all add: store_args_def)
  obtain y p tr where run: "lanes_from env ds ?a pc m [0..<32] x new_prof = Some (None, y, p)"
    and y: "x1 = y\<lparr>mx_trace := tr\<rparr>" using core_success assms(6) unfolding do_sts_def by metis
  note S = lanes_from_sts [OF assms(1) a(1,2) assms(4) run, folded T_def]
  have w1: "mx_warp x1 = mx_warp x" and sh: "mx_shared x1 = fold (lane_write ds ?a m T) [0..<32] (mx_shared x)"
    using S y by simp_all
  have "length (mx_shared y) = length (mx_shared x)" using S by blast
  then have len: "length (mx_shared x1) = length (mx_shared x)" by (simp add: y)
  have fits: "fits_size_t (mx_shared x1)" using assms(4) len by (simp add: fits_size_t_def)
  have one: "loaded dl (load_args ?rd) x1 (T ! l) = Some (n, extended (mem_sz ds) (?v l))"
    if l: "l < 32" "lane_live m l (T ! l)" for l
  proof -
    obtain addr where ad: "shared_addr ds (T ! l) = Some addr" "mw_valid (mem_sz ds)"
      "unat addr + unat n \<le> length (mx_shared x)" "width_aligned addr n"
      using S l by (auto simp: lane_fits_def n_def)
    have up: "[0..<32] = [0..<l] @ l # [Suc l..<32]"
      using l(1) by (metis le_add_same_cancel1 less_imp_add_positive upt_add_eq_append upt_conv_Cons zero_le)
    have "mx_shared x1 ! (unat addr + k) = value_byte (?v l) k" if k: "k < unat n" for k
    proof -
      have cov: "lane_covers ds m T (unat addr + k) l" using l ad k by (simp add: lane_covers_def n_def)
      then have "\<forall>l'\<in>set [Suc l..<32]. \<not> lane_covers ds m T (unat addr + k) l'"
        using assms(11) l(1) by (metis Suc_n_not_le_n atLeastLessThan_iff set_upt)
      from fold_lane_write_last [OF _ _ cov this, of "[0..<l]" "mx_shared x" ?a] S up ad k a(3)
      show ?thesis by (simp add: sh n_def del: upt_conv_Cons)
    qed
    then have "lds (mx_shared x1) addr 0 (mem_sz ds) zero_value = (Inr (), extended (mem_sz ds) (?v l))"
      using ad fits len by (intro lds_of_bytes [OF mem_sz_def]) (simp_all add: n_def)
    with shared_loaded [OF assms(2), of "T ! l" addr x1] ad assms(3,10) l
    show ?thesis by (simp add: n_def)
  qed
  have la: "ca_load (load_args ?rd)" by (simp add: load_args_def)
  obtain z q where lrun: "lanes_from env dl (load_args ?rd) pc' m [0..<32] x1 new_prof = Some (None, z, q)"
    using lanes_from_load_ok [OF la, of "[0..<32]" x1 m dl env pc' new_prof] one w1 assms(5) by (auto simp: T_def)
  then obtain x2 where x2: "do_lds env m dl pc' x1 = Some (None, x2)"
    by (auto simp: do_lds_def mem_ldst_atom_core_def Let_def)
  from core_load_lanes [of env m dl pc' ?rd x1 x2] x2 w1 assms(5)
  have L: "\<forall>l<32. if lane_live m l (T ! l)
       then \<exists>n v. loaded dl (load_args ?rd) x1 (T ! l) = Some (n, v) \<and> w_threads (mx_warp x2) ! l = put_value ?rd n v (T ! l)
       else w_threads (mx_warp x2) ! l = T ! l"
    by (auto simp: do_lds_def T_def Let_def)
  have "length (t_gpr (T ! l)) = 256" if "l < 32" for l using that assms(5,7) by (simp add: T_def)
  with L one have "\<forall>l<32. w_threads (mx_warp x2) ! l =
      (if lane_live m l (T ! l) then registers_set ?rd n (extended (mem_sz ds) (?v l)) (T ! l) else T ! l)"
    by (auto simp: put_value_registers split: if_splits)
  with x2 show ?thesis by blast
qed

text \<open>The sum of what the live lanes below \<open>k\<close> add.\<close>

definition added :: "DecodedInst \<Rightarrow> u32 \<Rightarrow> ThreadState list \<Rightarrow> nat \<Rightarrow> u32" where
  "added d m T k = (\<Sum>l\<leftarrow>[0..<k]. if lane_live m l (T ! l)
     then get_value (mem_ov_idx (rd_op DecodedATOMS4_1 ''Rb'' d)) 4 (T ! l) ! 0 else 0)"

text \<open>C3: A warp-wide atomic addition to one shared word is the addition of all the lanes'
  operands, lane by lane: the word ends up with the whole sum, each lane receives the partial sum of the
  lanes before it, and no other byte changes.\<close>

theorem warp_atomic_add_linearises:
  assumes "di_mnem d = kATOMS" "is_class [''atoms__RaNonRZ'', ''atoms__RaRZ''] d" "decode_atomic_op d = Some kAdd"
    and "rd_mod DecodedATOMS4_1 ''sz'' d \<in> {0, 1}" "mem_ov_idx (rd_op DecodedATOMS4_1 ''Rd'' d) = word_of_nat rd" "rd < 255"
    and "fits_size_t (mx_shared x)" "length (w_threads (mx_warp x)) = 32" "\<forall>t\<in>set (w_threads (mx_warp x)). thread_wf t"
    and "unat addr + 4 \<le> length (mx_shared x)" "addr mod 4 = 0"
  defines "T \<equiv> w_threads (mx_warp x)"
  assumes "\<forall>l<32. lane_live m l (T ! l) \<longrightarrow> shared_addr d (T ! l) = Some addr"
  shows "\<exists>x'. do_atoms env m d pc x = Some (None, x') \<and>
    word_at (mx_shared x') addr = word_at (mx_shared x) addr + added d m T 32 \<and>
    (\<forall>i<length (mx_shared x). i < unat addr \<or> unat addr + 4 \<le> i \<longrightarrow> mx_shared x' ! i = mx_shared x ! i) \<and>
    (\<forall>l<32. lane_live m l (T ! l) \<longrightarrow>
       t_gpr (w_threads (mx_warp x') ! l) ! rd = word_at (mx_shared x) addr + added d m T l)"
proof -
  let ?a = "atoms_of DecodedATOMS4_1 ''Rd'' ''Rb'' None d"
  have a: "\<not> ca_load ?a" "ca_atom ?a" "ca_cas ?a = 255" "ca_rd ?a = word_of_nat rd"
    "ca_rb ?a = mem_ov_idx (rd_op DecodedATOMS4_1 ''Rb'' d)" "atom_bytes (ca_sz ?a) = 4"
    using assms(4,5) by (auto simp: atoms_of_def atom_args_def atom_bytes_def)
  have cls: "di_class d = ''atoms__RaNonRZ'' \<or> di_class d = ''atoms__RaRZ''" using assms(2) by (simp add: is_class_def)
  have "sz_layout d = Some DecodedATOMS4_1" using cls assms(1)
    by (elim disjE) (simp_all add: sz_layout_def is_class_def)
  then have sz: "mw_valid (mem_sz d)" using assms(4)
    by (simp add: mem_sz_def mem_width_info_def) (elim disjE; simp)
  have core: "do_atoms env m d pc x = mem_ldst_atom_core env m d pc ?a x"
    using cls by (auto simp: do_atoms_def is_class_def)
  have add: "shared_add d ?a" using a assms(1,3) sz by (simp add: shared_add_def)
  have len: "length T = 32" using assms(8) by (simp add: T_def)
  have same: "\<forall>l<length (w_threads (mx_warp x)). lane_live m l (w_threads (mx_warp x) ! l) \<longrightarrow>
      shared_addr d (w_threads (mx_warp x) ! l) = Some addr" using assms(8,13) by (simp add: T_def)
  obtain y p where run: "lanes_from env d ?a pc m [0..<32] x new_prof = Some (None, y, p)"
    and wd: "word_at (mx_shared y) addr = word_at (mx_shared x) addr + lanes_sum ?a m T [0..<32]"
    and fr: "\<forall>i<length (mx_shared x). i < unat addr \<or> unat addr + 4 \<le> i \<longrightarrow> mx_shared y ! i = mx_shared x ! i"
    and th: "\<forall>l<length T. if l < 32 \<and> lane_live m l (T ! l)
       then \<exists>ov. w_threads (mx_warp y) ! l = put_value (ca_rd ?a) 4 ov (T ! l) \<and>
              ov ! 0 = word_at (mx_shared x) addr + lanes_sum ?a m T [0..<l]
       else w_threads (mx_warp y) ! l = T ! l"
    using lanes_from_add [OF add assms(7,10,11) same, of 32 env pc new_prof] assms(8) unfolding T_def by auto
  have sums: "lanes_sum ?a m T [0..<k] = added d m T k" for k by (simp only: lanes_sum_def added_def a(5))
  have "t_gpr (w_threads (mx_warp y) ! l) ! rd = word_at (mx_shared x) addr + added d m T l"
    if l: "l < 32" "lane_live m l (T ! l)" for l
  proof -
    have "length (t_gpr (T ! l)) = 256" using assms(8,9) l by (simp add: T_def thread_wf_def)
    moreover obtain ov where "w_threads (mx_warp y) ! l = put_value (word_of_nat rd) 4 ov (T ! l)"
      "ov ! 0 = word_at (mx_shared x) addr + lanes_sum ?a m T [0..<l]"
      using th [rule_format, of l] l unfolding a(4) len by (simp only: simp_thms if_True) blast
    ultimately show ?thesis using put_value_word [OF assms(6), of "T ! l" ov] sums by simp
  qed
  moreover obtain tr where "mem_ldst_atom_core env m d pc ?a x = Some (None, y\<lparr>mx_trace := tr\<rparr>)"
    using run by (auto simp: mem_ldst_atom_core_def Let_def)
  ultimately show ?thesis using wd fr sums by (intro exI [of _ "y\<lparr>mx_trace := tr\<rparr>"]) (simp add: core)
qed

subsection \<open>The records\<close>

lemma lane_step_numbered:
  assumes "logs_numbered (mx_trace x)" "lane_step env d a pc m lane x p = Some (fo, x', p')"
  shows "logs_numbered (mx_trace x')"
proof (cases "lane_live m lane (w_threads (mx_warp x) ! lane)")
  case True
  have ul: "mx_trace (upd_lane lane f y) = mx_trace y" for f y by (simp add: upd_lane_def)
  consider f where "lane_access d a pc m (mx_warp x) (w_threads (mx_warp x) ! lane) = Inl f"
    | space addr wi where "lane_access d a pc m (mx_warp x) (w_threads (mx_warp x) ! lane) = Inr (space, addr, wi)"
    by (cases "lane_access d a pc m (mx_warp x) (w_threads (mx_warp x) ! lane)") auto
  then show ?thesis
  proof cases
    case 1
    then show ?thesis using assms True by (simp add: lane_step_def)
  next
    case 2
    show ?thesis
    proof (cases "ca_load a")
      case load: True
      then have "lane_load env d a pc m lane space addr wi x p = Some (fo, x', p')"
        using assms(2) True 2 by (simp add: lane_step_def Let_def)
      then show ?thesis using assms(1) unfolding lane_load_def Let_def
        by (auto simp: ul split: option.splits sum.splits dest!: load_from_view(3) intro!: record_debug_access_numbered
            record_race_access_numbered record_l2_access_numbered)
    next
      case nl: False
      show ?thesis
      proof (cases "ca_atom a")
        case at: True
        then have "lane_atom env d a pc m lane space addr wi x p = Some (fo, x', p')"
          using assms(2) True 2 nl by (simp add: lane_step_def Let_def)
        then show ?thesis using assms(1) unfolding lane_atom_def Let_def
          by (auto simp: ul split: option.splits sum.splits dest!: atomic_at_keeps intro!: record_debug_access_numbered
              record_race_access_numbered record_l2_access_numbered)
      next
        case False
        then have "lane_store env d a pc m lane space addr wi x p = Some (fo, x', p')"
          using assms(2) True 2 nl by (simp add: lane_step_def Let_def)
        then show ?thesis using assms(1) unfolding lane_store_def Let_def
          by (auto split: option.splits sum.splits if_splits dest!: store_to_keeps intro!: record_debug_access_numbered
              record_race_access_numbered record_l2_access_numbered)
      qed
    qed
  qed
qed (use assms in \<open>simp add: lane_step_def\<close>)

lemma lanes_from_numbered:
  "logs_numbered (mx_trace x) \<Longrightarrow> lanes_from env d a pc m lanes x p = Some (fo, x', p') \<Longrightarrow> logs_numbered (mx_trace x')"
proof (induction lanes arbitrary: x p)
  case (Cons lane lanes)
  then show ?case using lane_step_numbered by (auto split: option.splits) blast+
qed simp

lemma core_numbered:
  assumes "logs_numbered (mx_trace x)" "mem_ldst_atom_core env m d pc a x = Some (fo, x')"
  shows "logs_numbered (mx_trace x')"
  using assms lanes_from_numbered [OF assms(1)]
  by (auto simp: mem_ldst_atom_core_def Let_def split: option.splits intro!: record_memory_event_numbered)

text \<open>Every memory instruction keeps the logs of race events and L2 requests numbered per CTA.\<close>

theorem memory_instructions_number_their_records:
  assumes "mem_handler (di_mnem d) = Some h" "h env m d pc x = Some (fo, x')" "logs_numbered (mx_trace x)"
  shows "logs_numbered (mx_trace x')"
  using assms core_numbered
  by (auto simp: mem_handler_def do_ldg_def do_stg_def do_lds_def do_sts_def do_ldl_def do_stl_def do_ldc_def do_ldcu_def
      do_atom_def do_atoms_def do_reds_def do_atomg_def do_redg_def do_membar_def do_fence_def do_errbar_def
      do_cgaerrbar_def do_cctl_def on_trace_def Let_def split: Mnemonic.splits if_splits)

text \<open>Replaying the logs of workers that own the CTAs has the effect of replaying the whole log.\<close>

theorem replay_ignores_workers:
  assumes "numbered re_cta re_ordinal log m" "length log \<le> 2 ^ 64" "\<forall>e\<in>set log. owner (re_cta e) < n"
  shows "snd (replay_race_log (worker_logs re_cta owner n log) det) = snd (replay_race_log log det) \<and>
    (\<forall>c. filter (\<lambda>e. re_cta e = c) (sort_key race_key log) = filter (\<lambda>e. re_cta e = c) log)"
proof -
  have ms: "mset (worker_logs re_cta owner n log) = mset log" using mset_worker_logs [OF assms(3)] .
  then have "(worker_logs re_cta owner n log = []) = (log = [])" by (metis mset_zero_iff)
  moreover note race.order_determined [OF assms(1,2) ms]
  ultimately have "snd (replay_race_log (worker_logs re_cta owner n log) det) = snd (replay_race_log log det)"
    unfolding replay_race_log_def by (simp only: snd_conv split: if_split) blast
  then show ?thesis using race.cta_order_kept [OF assms(1,2)] by blast
qed

text \<open>The order of the L2 requests does not depend on how the workers share the CTAs.\<close>

theorem l2_order_ignores_workers:
  assumes "numbered l2_cta l2_ordinal log m" "length log \<le> 2 ^ 64" "\<forall>e\<in>set log. owner (l2_cta e) < n"
  shows "order_l2_log (worker_logs l2_cta owner n log) = order_l2_log log"
  unfolding order_l2_log_def by (rule l2.order_determined [OF assms(1,2) mset_worker_logs [OF assms(3)]])

text \<open>The memory events of a launch are renumbered 1, 2, 3 and so on, and the parent of an event becomes
  the new number of the last earlier event that carried the parent's old number; a parent no earlier
  event carried stays as it is.\<close>

theorem event_ids_are_renumbered:
  "length (normalize_memory_event_ids evs) = length evs \<and>
   (\<forall>i<length evs. normalize_memory_event_ids evs ! i = renumbered evs i)"
  by (simp add: normalize_renumbers)

subsection \<open>Types\<close>

text \<open>
  The typed state: 32 threads of 256 registers and 7 predicates, 64 uniform registers, and byte
  arrays whose length fits \<open>size_t\<close>. The memory keeps its sizes.
\<close>

definition ctx_wf :: "MemCtx \<Rightarrow> bool" where
  "ctx_wf x \<longleftrightarrow> warp_wf (mx_warp x) \<and> fits_size_t (mx_shared x) \<and> fits_size_t (w_local (mx_warp x)) \<and>
     host_inv (mx_service x)"

definition same_sizes :: "MemCtx \<Rightarrow> MemCtx \<Rightarrow> bool" where
  "same_sizes x y \<longleftrightarrow> length (mx_shared y) = length (mx_shared x) \<and>
     length (w_local (mx_warp y)) = length (w_local (mx_warp x)) \<and>
     map_option length (ms_global (mx_service y)) = map_option length (ms_global (mx_service x)) \<and>
     length (ms_constant (mx_service y)) = length (ms_constant (mx_service x))"

definition ctx_step :: "MemCtx \<Rightarrow> MemCtx \<Rightarrow> bool" where
  "ctx_step x y \<longleftrightarrow> (ctx_wf x \<longrightarrow> ctx_wf y \<and> same_sizes x y)"

lemma ctx_step_refl [intro, simp]: "ctx_step x x"
  by (simp add: ctx_step_def same_sizes_def)

lemma ctx_step_trans: "ctx_step x y \<Longrightarrow> ctx_step y z \<Longrightarrow> ctx_step x z"
  by (auto simp: ctx_step_def same_sizes_def)

lemma ctx_step_trace [simp]: "ctx_step x (y\<lparr>mx_trace := tr\<rparr>) = ctx_step x y"
  by (simp add: ctx_step_def ctx_wf_def same_sizes_def)

lemma length_put_value: "length (t_gpr (put_value r n v t)) = length (t_gpr t) \<and> t_pred (put_value r n v t) = t_pred t"
  by (simp add: put_value_def Let_def)

lemma ctx_step_upd_lane: "ctx_step x y \<Longrightarrow> ctx_step x (upd_lane lane (put_value r n v) y)"
proof (cases "lane < length (w_threads (mx_warp y))")
  case True
  have "thread_wf (put_value r n v t) = thread_wf t" for t by (simp add: thread_wf_def length_put_value)
  then have "warp_wf (mx_warp (upd_lane lane (put_value r n v) y))" if "warp_wf (mx_warp y)"
    using that True set_update_subset_insert [of "w_threads (mx_warp y)" lane] by (fastforce simp: upd_lane_def warp_wf_def)
  moreover assume "ctx_step x y"
  ultimately show ?thesis by (simp add: ctx_step_def ctx_wf_def same_sizes_def upd_lane_def)
next
  case False
  then have "upd_lane lane (put_value r n v) y = y" by (simp add: upd_lane_def list_update_beyond)
  moreover assume "ctx_step x y"
  ultimately show ?thesis by simp
qed

lemma ctx_step_load: "load_from space addr wi x = Some (st, v, y) \<Longrightarrow> ctx_step x y"
  by (cases space) (auto simp: load_from_def ctx_step_def ctx_wf_def same_sizes_def host_inv_def split: prod.splits dest!: ldg_reads)

lemma fits_length: "fits_size_t xs \<Longrightarrow> length ys = length xs \<Longrightarrow> fits_size_t ys"
  by (simp add: fits_size_t_def)

lemma sts_length: "fits_size_t sh \<Longrightarrow> sts sh addr 0 wi v = (st, sh') \<Longrightarrow> length sh' = length sh"
  using sts_success [of sh addr wi v _ sh'] sts_failure [of sh addr 0 wi v _ sh'] by (cases st) auto

lemma stg_length:
  assumes "host_inv ms" "stg desc addr off wi v ms = Some (st, ms')"
  shows "map_option length (ms_global ms') = map_option length (ms_global ms) \<and> ms_constant ms' = ms_constant ms"
  using assms out_of_window_iff
  by (auto simp: stg_def host_inv_def Let_def split: option.splits if_splits)

lemma rmw_length:
  assumes "atomic_width_ok w" "unat off + unat w \<le> length buf" "rmw_bytes buf off w op opr cmp = (st, ov, buf')"
  shows "length buf' = length buf"
proof (cases "st = Inr ()")
  case True
  then show ?thesis using rmw_bytes_spec(4) [OF assms True] assms(2) by auto
next
  case False
  then show ?thesis using rmw_bytes_spec(3) [OF assms False] by simp
qed

lemma atom_shared_length:
  assumes "fits_size_t sh" "atom_shared sh addr w op v old cmp = (st, ov, sh')"
  shows "length sh' = length sh"
  using assms(2) rmw_length
  by (cases rule: atom_shared_cases [OF assms(1), of w addr op v old cmp]) auto

lemma atom_global_length:
  assumes "host_inv ms" "atom_global addr w op v old cmp ms = Some (st, ov, ms')"
  shows "map_option length (ms_global ms') = map_option length (ms_global ms) \<and> ms_constant ms' = ms_constant ms"
proof (cases "ms_global_base ms = 0 \<or> ms_global ms = None")
  case True
  then show ?thesis using assms(2) by (auto simp: atom_global_def is_null_def split: if_splits sum.splits)
next
  case False
  then obtain g where g: "ms_global_base ms \<noteq> 0" "ms_global ms = Some g" by auto
  have "fits_size_t g" using assms(1) g by (simp add: host_inv_def)
  moreover obtain s o' g' where a: "atom_shared g addr w op v old cmp = (s, o', g')" by (cases "atom_shared g addr w op v old cmp") auto
  ultimately have "length g' = length g" using atom_shared_length by blast
  then show ?thesis using global_atomic_shares [OF g, of addr w op v old cmp] a assms(2) g by auto
qed

lemma ctx_step_service:
  assumes "ctx_wf x \<Longrightarrow> map_option length (ms_global ms) = map_option length (ms_global (mx_service x)) \<and>
    ms_constant ms = ms_constant (mx_service x)"
  shows "ctx_step x (x\<lparr>mx_service := ms\<rparr>)"
  unfolding ctx_step_def
proof (intro impI)
  assume wf: "ctx_wf x"
  with assms have "map_option length (ms_global ms) = map_option length (ms_global (mx_service x))"
    "ms_constant ms = ms_constant (mx_service x)" by simp_all
  with wf show "ctx_wf (x\<lparr>mx_service := ms\<rparr>) \<and> same_sizes x (x\<lparr>mx_service := ms\<rparr>)"
    by (cases "ms_global ms"; cases "ms_global (mx_service x)")
      (auto simp: ctx_wf_def same_sizes_def host_inv_def fits_size_t_def)
qed

lemma ctx_step_store:
  assumes "store_to space addr wi v x = Some (st, y)"
  shows "ctx_step x y"
proof (cases space)
  case kGlobal
  then obtain ms where ms: "stg 0 addr 0 wi v (mx_service x) = Some (st, ms)" "y = x\<lparr>mx_service := ms\<rparr>"
    using assms by (auto simp: store_to_def)
  then show ?thesis using stg_length [OF _ ms(1)] by (auto simp: ctx_wf_def intro!: ctx_step_service)
next
  case kShared
  then obtain sh where sh: "sts (mx_shared x) addr 0 wi v = (st, sh)" "y = x\<lparr>mx_shared := sh\<rparr>"
    using assms by (auto simp: store_to_def split: prod.splits)
  have "length sh = length (mx_shared x)" if "ctx_wf x" using sts_length [OF _ sh(1)] that by (simp add: ctx_wf_def)
  then show ?thesis unfolding sh(2) ctx_step_def by (simp add: ctx_wf_def same_sizes_def fits_size_t_def)
qed (use assms sts_length [of "w_local (mx_warp x)" addr wi v st] in
      \<open>simp_all add: store_to_def ctx_step_def ctx_wf_def same_sizes_def warp_wf_def fits_size_t_def split: prod.splits\<close>,
     fastforce+)

lemma ctx_step_atomic:
  assumes "atomic_at space addr n op v cmp x = Some (st, old, y)"
  shows "ctx_step x y"
proof (cases "space = kGlobal")
  case True
  then obtain ms where ms: "atom_global addr n op v zero_value cmp (mx_service x) = Some (st, old, ms)" "y = x\<lparr>mx_service := ms\<rparr>"
    using assms by (auto simp: atomic_at_def)
  then show ?thesis using atom_global_length [OF _ ms(1)] by (auto simp: ctx_wf_def intro!: ctx_step_service)
next
  case False
  then obtain sh where sh: "atom_shared (mx_shared x) addr n op v zero_value cmp = (st, old, sh)" "y = x\<lparr>mx_shared := sh\<rparr>"
    using assms by (auto simp: atomic_at_def split: prod.splits)
  have "length sh = length (mx_shared x)" if "ctx_wf x" using atom_shared_length [OF _ sh(1)] that by (simp add: ctx_wf_def)
  then show ?thesis unfolding sh(2) ctx_step_def by (simp add: ctx_wf_def same_sizes_def fits_size_t_def)
qed

lemma ctx_step_from_trace [simp]: "ctx_step (x\<lparr>mx_trace := tr\<rparr>) y = ctx_step x y"
  by (simp add: ctx_step_def ctx_wf_def same_sizes_def)

lemma lane_step_typed:
  assumes "lane_step env d a pc m lane x p = Some (fo, x', p')"
  shows "ctx_step x x'"
proof (cases "lane_live m lane (w_threads (mx_warp x) ! lane)")
  case True
  consider f where "lane_access d a pc m (mx_warp x) (w_threads (mx_warp x) ! lane) = Inl f"
    | space addr wi where "lane_access d a pc m (mx_warp x) (w_threads (mx_warp x) ! lane) = Inr (space, addr, wi)"
    by (cases "lane_access d a pc m (mx_warp x) (w_threads (mx_warp x) ! lane)") auto
  then show ?thesis
  proof cases
    case 1
    then show ?thesis using assms True by (simp add: lane_step_def)
  next
    case 2
    have "lane_load env d a pc m lane space addr wi x p = Some (fo, x', p') \<or>
        lane_atom env d a pc m lane space addr wi x p = Some (fo, x', p') \<or>
        lane_store env d a pc m lane space addr wi x p = Some (fo, x', p')"
      using assms True 2 by (auto simp: lane_step_def Let_def split: if_splits)
    then show ?thesis
    proof (elim disjE)
      assume "lane_load env d a pc m lane space addr wi x p = Some (fo, x', p')"
      then show ?thesis unfolding lane_load_def Let_def
        by (auto split: option.splits sum.splits dest!: ctx_step_load intro!: ctx_step_upd_lane)
    next
      assume "lane_atom env d a pc m lane space addr wi x p = Some (fo, x', p')"
      then show ?thesis unfolding lane_atom_def Let_def
        by (auto split: option.splits sum.splits dest!: ctx_step_atomic intro!: ctx_step_upd_lane)
    next
      assume "lane_store env d a pc m lane space addr wi x p = Some (fo, x', p')"
      then show ?thesis unfolding lane_store_def Let_def
        by (auto split: option.splits sum.splits if_splits dest!: ctx_step_store)
    qed
  qed
qed (use assms in \<open>simp add: lane_step_def\<close>)

lemma lanes_from_typed: "lanes_from env d a pc m lanes x p = Some (fo, x', p') \<Longrightarrow> ctx_step x x'"
proof (induction lanes arbitrary: x p)
  case (Cons lane lanes)
  then show ?case by (auto split: option.splits dest!: lane_step_typed intro: ctx_step_trans)
qed simp

lemma core_typed: "mem_ldst_atom_core env m d pc a x = Some (fo, x') \<Longrightarrow> ctx_step x x'"
  by (auto simp: mem_ldst_atom_core_def Let_def split: option.splits dest!: lanes_from_typed)

text \<open>C12: Every memory instruction keeps the types of the state: registers, predicates and lanes keep their
  number, the shared and local windows their size and the service its windows, also when it faults.\<close>

theorem memory_instructions_keep_types:
  assumes "mem_handler (di_mnem d) = Some h" "h env m d pc x = Some (fo, x')" "ctx_wf x"
  shows "ctx_wf x' \<and> same_sizes x x'"
proof -
  have "ctx_step x x'"
    using assms(1,2) core_typed
    by (auto simp: mem_handler_def do_ldg_def do_stg_def do_lds_def do_sts_def do_ldl_def do_stl_def do_ldc_def do_ldcu_def
        do_atom_def do_atoms_def do_reds_def do_atomg_def do_redg_def do_membar_def do_fence_def do_errbar_def
        do_cgaerrbar_def do_cctl_def on_trace_def Let_def split: Mnemonic.splits if_splits)
  with assms(3) show ?thesis by (simp add: ctx_step_def)
qed

subsection \<open>Operands\<close>

lemmas shape_reads = rd_op_shape rd_mod_shape rd_subclass_shape field_idx_def eval_nat_numeral

text \<open>The plain variants of the memory instructions read width, address and offset from the
  operands their shape names so.\<close>

theorem plain_forms_read_their_fields:
  "(di_mnem d = kLDG \<and> is_class [''ldg__sImmOffset'', ''ldg__uImmOffset''] d \<and> has_shape DecodedLDG5 d \<longrightarrow>
      mem_sz d = mem_width_info (scast (di_mods d ! 3)) \<and>
      resolve_mem_addr d t w = Inr (read_addr_pair_ov t (di_ops d ! 2), operand_value_as_i64 (di_ops d ! 3),
        mw_bytes (mem_sz d), kGlobal)) \<and>
   (di_mnem d = kSTG \<and> is_class [''stg__sImmOffset'', ''stg__uImmOffset''] d \<and> has_shape DecodedSTG3 d \<longrightarrow>
      mem_sz d = mem_width_info (scast (di_mods d ! 2)) \<and>
      resolve_mem_addr d t w = Inr (read_addr_pair_ov t (di_ops d ! 0), operand_value_as_i64 (di_ops d ! 1),
        mw_bytes (mem_sz d), kGlobal)) \<and>
   (di_mnem d = kSTG \<and> is_class [''stg_uniform__Ra64''] d \<and> has_shape DecodedSTG4 d \<longrightarrow>
      mem_sz d = mem_width_info (scast (di_mods d ! 2)) \<and>
      resolve_mem_addr d t w = Inr (read_addr_pair_ov t (di_ops d ! 0), operand_value_as_i64 (di_ops d ! 2),
        mw_bytes (mem_sz d), kGlobal)) \<and>
   (di_mnem d = kLDS \<and> is_class [''lds__sImmOffset'', ''lds__uImmOffset''] d \<and> has_shape DecodedLDS3 d \<longrightarrow>
      mem_sz d = mem_width_info (scast (di_mods d ! 0)) \<and>
      resolve_mem_addr d t w = Inr (ucast (read_reg_ov t (di_ops d ! 1)), operand_value_as_i64 (di_ops d ! 2),
        mw_bytes (mem_sz d), kShared)) \<and>
   (di_mnem d = kATOMG \<and> is_class [''atomg_int__RaNonRZ'', ''atomg_int__RaRZ''] d \<and> has_shape DecodedATOMG5 d \<longrightarrow>
      decode_atomic_op d = (if (ucast (di_mods d ! 7) :: u8) AND 16 \<noteq> 0 then None
        else atomic_op_of (scast (di_mods d ! 1)) (scast (di_mods d ! 3))) \<and>
      resolve_mem_addr d t w = Inr (read_addr_pair_ov t (di_ops d ! 2), operand_value_as_i64 (di_ops d ! 3),
        mw_bytes (mem_sz d), kGlobal))"
proof (intro conjI impI, goal_cases)
  case 1
  then show ?case by (elim conjE) (simp add: mem_sz_def sz_layout_def shape_reads DecodedLDG5_def)
next
  case 2
  then show ?case by (elim conjE) (simp add: resolve_mem_addr_def global_layout_def shape_reads DecodedLDG5_def)
next
  case 3
  then show ?case by (elim conjE) (simp add: mem_sz_def sz_layout_def is_class_def shape_reads DecodedSTG3_def)
next
  case 4
  then show ?case by (elim conjE) (simp add: resolve_mem_addr_def global_layout_def shape_reads DecodedSTG3_def)
next
  case 5
  then show ?case by (elim conjE) (simp add: mem_sz_def sz_layout_def is_class_def shape_reads DecodedSTG4_def)
next
  case 6
  then show ?case by (elim conjE) (simp add: resolve_mem_addr_def global_layout_def is_class_def shape_reads DecodedSTG4_def)
next
  case 7
  then show ?case by (elim conjE) (auto simp: mem_sz_def sz_layout_def is_class_def shape_reads DecodedLDS3_def)
next
  case 8
  then show ?case by (elim conjE) (simp add: resolve_mem_addr_def shared_layout_def shape_reads DecodedLDS3_def)
next
  case 9
  then show ?case by (elim conjE) (auto simp: decode_atomic_op_def atomic_slots_def slots_def is_class_def shape_reads DecodedATOMG5_def)
next
  case 10
  then show ?case by (elim conjE) (auto simp: resolve_mem_addr_def global_layout_def is_class_def shape_reads DecodedATOMG5_def)
qed

text \<open>Some uniform variants are read through the shape of another one: the width of LDG from the
  distance field, the address of REDG from its data register, the offset of STS from its scale operand,
  and the offset of ATOMS as the comparand of a compare-and-swap.\<close>

theorem uniform_forms_are_misread:
  "(di_mnem d = kLDG \<and> di_class d = ''ldg_uniform__Ra64'' \<and> has_shape DecodedLDG6 d \<longrightarrow>
      mem_sz d = mem_width_info (scast (di_mods d ! 8)) \<and> snd DecodedLDG6 ! 8 = ''input_reg_sz_64_dist'') \<and>
   (di_mnem d = kREDG \<and> di_class d = ''redg_int__RaNonRZ'' \<and> has_shape DecodedREDG3 d \<longrightarrow>
      (\<exists>off. resolve_mem_addr d t w = Inr (read_addr_pair_ov t (di_ops d ! 2), off, mw_bytes (mem_sz d), kGlobal)) \<and>
      fst DecodedREDG3 ! 2 = ''Rb'') \<and>
   (di_mnem d = kSTS \<and> di_class d = ''sts_uniform_'' \<and> has_shape DecodedSTS4 d \<longrightarrow>
      resolve_mem_addr d t w = Inr (ucast (read_reg_ov t (di_ops d ! 0)), operand_value_as_i64 (di_ops d ! 1),
        mw_bytes (mem_sz d), kShared) \<and> fst DecodedSTS4 ! 1 = ''Ra_URc'') \<and>
   (di_mnem d = kATOMS \<and> di_class d = ''atoms_uniform_'' \<and> mem_ov_idx (rd_op DecodedATOMS5_1 ''Ra_offset'' d) \<noteq> 255 \<longrightarrow>
      (\<exists>a. do_atoms env m d pc x = mem_ldst_atom_core env m d pc a x \<and> lane_atomic_op d a = Some kCas))"
proof (intro conjI impI, goal_cases)
  case 1
  then show ?case by (elim conjE)
      (simp add: mem_sz_def sz_layout_def is_class_def rd_mod_def tail_word_def has_shape_def field_idx_def DecodedLDG6_def DecodedLDG7_1_def Let_def)
next
  case 3
  then show ?case by (elim conjE)
      (simp add: resolve_mem_addr_def global_layout_def is_class_def rd_op_def tail_operand_def has_shape_def field_idx_def DecodedREDG3_def DecodedATOMG5_def eval_nat_numeral)
next
  case 5
  then show ?case by (elim conjE)
      (simp add: resolve_mem_addr_def shared_layout_def rd_op_def tail_operand_def has_shape_def field_idx_def DecodedSTS4_def DecodedSTS3_def)
next
  case 7
  then show ?case
    by (intro exI [of _ "atoms_of DecodedATOMS5_1 ''Rd'' ''Rb'' (Some ''Ra_offset'') d"])
      (simp add: do_atoms_def is_class_def lane_atomic_op_def atoms_of_def atom_args_def)
qed (simp_all add: DecodedLDG6_def DecodedREDG3_def DecodedSTS4_def)

subsection \<open>Instances\<close>

text \<open>A warp whose lanes all hold R2 = 4 and R3 = 1, sixteen zero bytes of shared memory, races recorded.\<close>

definition demo_env :: LaunchEnv where
  "demo_env = \<lparr>le_grid = (1, 1, 1), le_block = (32, 1, 1), le_cluster = (1, 1, 1), le_sm_id = 0\<rparr>"

definition demo_thread :: ThreadState where
  "demo_thread = new_thread\<lparr>t_gpr := (replicate 256 0)[2 := 4, 3 := 1]\<rparr>"

definition demo_tracer :: Tracer where
  "demo_tracer = \<lparr>tr_race_on = True, tr_l2_on = False, tr_debug_on = False, tr_l1tex_on = False, tr_sm_count = 1,
     tr_mapper = mod4_mapper, tr_executed = 0, tr_race_log = [], tr_race_ordinal = [], tr_l2_log = [], tr_l2_ordinal = [],
     tr_debug = [], tr_events = [], tr_l1tex = new_sm 0\<rparr>"

definition demo_ctx :: MemCtx where
  "demo_ctx = \<lparr>mx_warp = \<lparr>w_warp_id = 0, w_cta_id = 0, w_local_cta_id = 0, w_ur = replicate 64 0, w_upred = [],
       w_threads = replicate 32 demo_thread, w_sync_stack = [], w_local = [], w_active_lanes = 0, w_done = False,
       w_waiting_barrier = None\<rparr>,
     mx_shared = replicate 16 0, mx_service = demo_service, mx_trace = demo_tracer\<rparr>"

definition demo_inst :: "Mnemonic \<Rightarrow> string \<Rightarrow> OperandValue list \<Rightarrow> u32 list \<Rightarrow> DecodedInst" where
  "demo_inst mn c ops mods = \<lparr>di_mnem = mn, di_class = c, di_word = (0, 0), di_ops = ops, di_mods = mods, di_pad = (\<lambda>_. 0)\<rparr>"

definition demo_lds :: DecodedInst where
  "demo_lds = demo_inst kLDS ''lds__sImmOffset'' [reg_ov 4, reg_ov 2, imm_ov 0] [4, 0, 0]"

definition demo_sts :: "u64 \<Rightarrow> DecodedInst" where
  "demo_sts off = demo_inst kSTS ''sts__sImmOffset'' [reg_ov 2, imm_ov off, reg_ov 3] [4, 0, 0]"

definition demo_atoms :: "u32 \<Rightarrow> DecodedInst" where
  "demo_atoms subclass = demo_inst kATOMS ''atoms__RaNonRZ'' [reg_ov 4, reg_ov 2, imm_ov 0, reg_ov 3] [0, 0, 0, subclass]"

lemmas demo_defs = demo_ctx_def demo_tracer_def demo_service_def

lemma demo_threads [simp]: "w_threads (mx_warp demo_ctx) = replicate 32 demo_thread" "mx_shared demo_ctx = replicate 16 0"
  "mx_trace demo_ctx = demo_tracer" "mx_service demo_ctx = demo_service" "tr_race_on demo_tracer" "tr_race_log demo_tracer = []"
  by (simp_all add: demo_ctx_def demo_tracer_def)

lemma demo_wf [simp]: "thread_wf demo_thread" "ctx_wf demo_ctx" "logs_numbered demo_tracer" "fits_size_t (replicate 16 (0 :: u8))"
  by (simp_all add: demo_thread_def thread_wf_def new_thread_def ctx_wf_def warp_wf_def host_inv_def fits_size_t_def
      logs_numbered_def numbered_empty demo_defs)

lemma demo_live: "l < 32 \<Longrightarrow> lane_live m l (replicate 32 demo_thread ! l) \<longleftrightarrow> bit m l"
  by (simp add: lane_live_def demo_thread_def new_thread_def lane_in_bit)

lemma demo_reads:
  "mem_sz demo_lds = \<lparr>mw_bytes = 4, mw_sign_extend = False, mw_valid = True\<rparr>"
  "mem_sz (demo_sts off) = \<lparr>mw_bytes = 4, mw_sign_extend = False, mw_valid = True\<rparr>"
  "mem_sz (demo_atoms s) = \<lparr>mw_bytes = 1, mw_sign_extend = False, mw_valid = True\<rparr>"
  "shared_addr demo_lds demo_thread = Some 4" "shared_addr (demo_sts 0) demo_thread = Some 4"
  "shared_addr (demo_sts 16) demo_thread = Some 20" "shared_addr (demo_atoms s) demo_thread = Some 4"
  "decode_atomic_op (demo_atoms 0) = Some kAdd" "decode_atomic_op (demo_atoms 16) = None"
  "mem_ov_idx (rd_op DecodedLDS3 ''Rd'' demo_lds) = 4" "mem_ov_idx (rd_op DecodedSTS3 ''Rb'' (demo_sts off)) = 3"
  "mem_ov_idx (rd_op DecodedATOMS4_1 ''Rd'' (demo_atoms s)) = 4" "mem_ov_idx (rd_op DecodedATOMS4_1 ''Rb'' (demo_atoms s)) = 3"
  "rd_mod DecodedATOMS4_1 ''sz'' (demo_atoms s) = 0"
  by code_simp+

lemma lanes_from_dead:
  "\<forall>l\<in>set ls. \<not> lane_live m l (w_threads (mx_warp x) ! l) \<Longrightarrow> lanes_from env d a pc m ls x p = Some (None, x, p)"
  by (induction ls) (simp_all add: lane_step_def)

text \<open>With the mask 1 only lane 0 runs.\<close>

lemma demo_dead: "l \<in> set [Suc 0..<32] \<Longrightarrow> \<not> lane_live 1 l (replicate 32 demo_thread ! l)"
  using demo_live [of l 1] by (auto simp: bit_1_iff)

lemma demo_success:
  assumes "map_option fst (lane_step env d a pc 1 0 demo_ctx new_prof) = Some None"
  shows "\<exists>x'. mem_ldst_atom_core env 1 d pc a demo_ctx = Some (None, x')"
proof -
  obtain x1 p1 where st: "lane_step env d a pc 1 0 demo_ctx new_prof = Some (None, x1, p1)" using assms by auto
  have "\<not> lane_live 1 l (w_threads (mx_warp x1) ! l)" if "l \<in> set [Suc 0..<32]" for l
    using lane_step_live [OF st, of l] demo_dead [OF that] by simp
  then have "lanes_from env d a pc 1 [Suc 0..<32] x1 p1 = Some (None, x1, p1)" by (intro lanes_from_dead) blast
  moreover have "[0..<32] = 0 # [Suc 0..<32]" by (simp add: upt_conv_Cons)
  ultimately have "lanes_from env d a pc 1 [0..<32] demo_ctx new_prof = Some (None, x1, p1)" using st by (simp del: upt_Suc)
  then show ?thesis by (simp add: mem_ldst_atom_core_def Let_def)
qed

lemma demo_fault:
  assumes "lane_step env d a pc 1 0 demo_ctx new_prof = Some (Some f, x1, p1)"
  shows "mem_ldst_atom_core env 1 d pc a demo_ctx = Some (Some f, x1)"
proof -
  have "[0..<32] = 0 # [Suc 0..<32]" by (simp add: upt_conv_Cons)
  then have "lanes_from env d a pc 1 [0..<32] demo_ctx new_prof = Some (Some f, x1, p1)" using assms by (simp del: upt_Suc)
  then show ?thesis by (simp add: mem_ldst_atom_core_def)
qed

lemma demo_runs:
  "map_option fst (lane_step demo_env demo_lds (load_args 4) 0 1 0 demo_ctx new_prof) = Some None"
  "map_option fst (lane_step demo_env (demo_sts 0) (store_args 3) 0 1 0 demo_ctx new_prof) = Some None"
  "map_option (\<lambda>r. fst r \<noteq> None) (lane_step demo_env (demo_sts 16) (store_args 3) 0 1 0 demo_ctx new_prof) = Some True"
  by code_simp+

lemma demo_registers: "length (t_gpr demo_thread) = 256"
  by code_simp

theorem load_fills_registers_witness:
  "\<exists>x' n v. mem_ldst_atom_core demo_env 1 demo_lds 0 (load_args 4) demo_ctx = Some (None, x') \<and>
     w_threads (mx_warp x') ! 0 = registers_set 4 n v demo_thread \<and> w_threads (mx_warp x') ! 1 = demo_thread"
proof -
  obtain x' where x': "mem_ldst_atom_core demo_env 1 demo_lds 0 (load_args 4) demo_ctx = Some (None, x')"
    using demo_success [OF demo_runs(1)] by blast
  have L: "\<forall>l<32. let t = w_threads (mx_warp demo_ctx) ! l in
       if lane_live 1 l t
       then \<exists>n v. loaded demo_lds (load_args 4) demo_ctx t = Some (n, v) \<and> w_threads (mx_warp x') ! l = registers_set 4 n v t
       else w_threads (mx_warp x') ! l = t"
    unfolding registers_set_def
    by (rule conjunct2 [OF load_fills_registers [OF x']]) (simp_all add: demo_registers)
  have "w_threads (mx_warp x') ! 1 = demo_thread" using L [rule_format, of 1] demo_dead [of 1] by (simp add: Let_def)
  moreover have "\<exists>n v. w_threads (mx_warp x') ! 0 = registers_set 4 n v demo_thread"
    using L [rule_format, of 0] demo_live [of 0 1] by (simp add: Let_def) blast
  ultimately show ?thesis using x' by blast
qed

theorem faulting_write_is_precise_witness:
  "\<exists>f x'. mem_ldst_atom_core demo_env 1 (demo_sts 16) 0 (store_args 3) demo_ctx = Some (Some f, x') \<and>
     tr_race_log (mx_trace x') = []"
proof -
  obtain f x1 p1 where st: "lane_step demo_env (demo_sts 16) (store_args 3) 0 1 0 demo_ctx new_prof = Some (Some f, x1, p1)"
    using demo_runs(3) by auto
  note core = demo_fault [OF st]
  have "\<not> ca_load (store_args 3)" by (simp add: store_args_def)
  from faulting_write_is_precise [OF this core] obtain lane where lane: "lane < 32" "lane_live 1 lane (replicate 32 demo_thread ! lane)"
    "length (tr_race_log (mx_trace x1)) = length (filter (\<lambda>l. lane_live 1 l (replicate 32 demo_thread ! l)) [0..<lane])"
    by (auto simp: demo_sts_def demo_inst_def)
  then have "lane = 0" using demo_live [of lane 1] by (simp add: bit_1_iff)
  with lane(3) core show ?thesis by auto
qed

theorem unsupported_atomic_faults_witness:
  "mem_ldst_atom_core demo_env 1 (demo_atoms 16) 0 (atoms_of DecodedATOMS4_1 ''Rd'' ''Rb'' None (demo_atoms 16)) demo_ctx =
     Some (Some (unsupported_atomic (demo_atoms 16) 0 1 (mx_warp demo_ctx)), demo_ctx)"
proof (rule unsupported_atomic_faults [OF demo_reads(9)])
  let ?a = "atoms_of DecodedATOMS4_1 ''Rd'' ''Rb'' None (demo_atoms 16)"
  show "(0 :: nat) < 32" "lane_live 1 0 (w_threads (mx_warp demo_ctx) ! 0)" using demo_live [of 0 1] by simp_all
  show "ca_cas ?a = 255" "ca_atom ?a" "\<not> ca_load ?a" by (simp_all add: atoms_of_def atom_args_def)
  show "\<forall>l<0. \<not> lane_live 1 l (w_threads (mx_warp demo_ctx) ! l)" by simp
  show "lane_access (demo_atoms 16) ?a 0 1 (mx_warp demo_ctx) (w_threads (mx_warp demo_ctx) ! 0) =
      Inr (kShared, 4, (mem_sz (demo_atoms 16))\<lparr>mw_bytes := 4\<rparr>)"
    using lane_access_shared [of "demo_atoms 16" ?a 0 1 "mx_warp demo_ctx" demo_thread kShared 4]
    by (simp add: demo_reads atoms_of_def atom_args_def atom_bytes_def) (simp add: demo_atoms_def demo_inst_def)
qed

theorem warp_store_load_roundtrip_witness:
  "\<exists>x1 x2. do_sts demo_env 1 (demo_sts 0) 0 demo_ctx = Some (None, x1) \<and> do_lds demo_env 1 demo_lds 16 x1 = Some (None, x2) \<and>
     t_gpr (w_threads (mx_warp x2) ! 0) ! 4 = 1"
proof -
  obtain x1 where x1: "do_sts demo_env 1 (demo_sts 0) 0 demo_ctx = Some (None, x1)"
    using demo_success [OF demo_runs(2)] by (auto simp: do_sts_def demo_reads)
  have mn: "di_mnem (demo_sts 0) = kSTS" "di_mnem demo_lds = kLDS" by (simp_all add: demo_sts_def demo_lds_def demo_inst_def)
  have sz: "mem_sz demo_lds = mem_sz (demo_sts 0)" by (simp add: demo_reads)
  have only: "\<forall>l<32. \<forall>l'<32. \<forall>i. lane_covers (demo_sts 0) 1 (w_threads (mx_warp demo_ctx)) i l \<and>
      lane_covers (demo_sts 0) 1 (w_threads (mx_warp demo_ctx)) i l' \<longrightarrow> l = l'"
    using demo_live [of _ 1] by (auto simp: lane_covers_def bit_1_iff)
  obtain x2 where x2: "do_lds demo_env 1 demo_lds 16 x1 = Some (None, x2)"
    "\<forall>l<32. w_threads (mx_warp x2) ! l =
       (if lane_live 1 l (replicate 32 demo_thread ! l)
        then registers_set 4 4 (extended (mem_sz (demo_sts 0)) (get_value 3 4 (replicate 32 demo_thread ! l))) (replicate 32 demo_thread ! l)
        else replicate 32 demo_thread ! l)"
    using warp_store_load_roundtrip [OF mn sz _ _ x1 _ _ only, of 16] demo_registers by (auto simp: demo_reads nth_replicate)
  have "t_gpr (registers_set 4 4 (extended (mem_sz (demo_sts 0)) (get_value 3 4 demo_thread)) demo_thread) ! 4 = 1" by code_simp
  with x2 x1 demo_live [of 0 1] show ?thesis by auto
qed

theorem warp_atomic_add_linearises_witness:
  "\<exists>x'. do_atoms demo_env (- 1) (demo_atoms 0) 0 demo_ctx = Some (None, x') \<and> word_at (mx_shared x') 4 = 32 \<and>
     t_gpr (w_threads (mx_warp x') ! 31) ! 4 = 31"
proof -
  have v: "get_value 3 4 demo_thread ! 0 = 1" by code_simp
  have ad: "added (demo_atoms 0) (- 1) (replicate 32 demo_thread) k = of_nat k" if "k \<le> 32" for k
  proof -
    have "(if lane_live (- 1) l (replicate 32 demo_thread ! l) then get_value 3 4 (replicate 32 demo_thread ! l) ! 0 else 0) = (1 :: u32)"
      if "l < k" for l using that \<open>k \<le> 32\<close> demo_live [of l "- 1"] v by (simp add: bit_minus_1_iff)
    then have "map (\<lambda>l. if lane_live (- 1) l (replicate 32 demo_thread ! l) then get_value 3 4 (replicate 32 demo_thread ! l) ! 0 else 0) [0..<k] =
        map (\<lambda>_. 1 :: u32) [0..<k]" by (intro map_cong refl) (simp only: set_upt atLeastLessThan_iff)
    then show ?thesis by (simp only: added_def demo_reads map_replicate_const sum_list_replicate length_upt diff_zero mult_1_right)
  qed
  have z: "word_at (replicate 16 0) 4 = 0" by code_simp
  have cls: "di_mnem (demo_atoms 0) = kATOMS" "is_class [''atoms__RaNonRZ'', ''atoms__RaRZ''] (demo_atoms 0)"
    by (simp_all add: demo_atoms_def demo_inst_def is_class_def)
  have "\<exists>x'. do_atoms demo_env (- 1) (demo_atoms 0) 0 demo_ctx = Some (None, x') \<and>
    word_at (mx_shared x') 4 = word_at (mx_shared demo_ctx) 4 + added (demo_atoms 0) (- 1) (w_threads (mx_warp demo_ctx)) 32 \<and>
    (\<forall>i<length (mx_shared demo_ctx). i < unat (4 :: u64) \<or> unat (4 :: u64) + 4 \<le> i \<longrightarrow> mx_shared x' ! i = mx_shared demo_ctx ! i) \<and>
    (\<forall>l<32. lane_live (- 1) l (w_threads (mx_warp demo_ctx) ! l) \<longrightarrow>
       t_gpr (w_threads (mx_warp x') ! l) ! 4 = word_at (mx_shared demo_ctx) 4 + added (demo_atoms 0) (- 1) (w_threads (mx_warp demo_ctx)) l)"
    by (rule warp_atomic_add_linearises)
      (use cls in \<open>auto simp: demo_reads\<close>)
  then show ?thesis using ad [of 32] ad [of 31] z demo_live [of 31 "- 1"]
    by (auto simp: bit_minus_1_iff)
qed

theorem memory_instructions_number_their_records_witness:
  "\<exists>x'. do_sts demo_env 1 (demo_sts 0) 0 demo_ctx = Some (None, x') \<and> logs_numbered (mx_trace x')"
proof -
  obtain x1 where x1: "do_sts demo_env 1 (demo_sts 0) 0 demo_ctx = Some (None, x1)"
    using demo_success [OF demo_runs(2)] by (auto simp: do_sts_def demo_reads)
  moreover have "mem_handler (di_mnem (demo_sts 0)) = Some do_sts" by (simp add: demo_sts_def demo_inst_def mem_handler_def)
  ultimately show ?thesis using memory_instructions_number_their_records [of "demo_sts 0" do_sts] by force
qed

theorem memory_instructions_keep_types_witness:
  "\<exists>x'. do_sts demo_env 1 (demo_sts 0) 0 demo_ctx = Some (None, x') \<and> ctx_wf x' \<and> length (mx_shared x') = 16"
proof -
  obtain x1 where x1: "do_sts demo_env 1 (demo_sts 0) 0 demo_ctx = Some (None, x1)"
    using demo_success [OF demo_runs(2)] by (auto simp: do_sts_def demo_reads)
  moreover have "mem_handler (di_mnem (demo_sts 0)) = Some do_sts" by (simp add: demo_sts_def demo_inst_def mem_handler_def)
  ultimately show ?thesis using memory_instructions_keep_types [of "demo_sts 0" do_sts demo_env 1 0 demo_ctx None x1]
    by (auto simp: same_sizes_def)
qed

definition demo_event :: "u32 \<Rightarrow> RaceEvent" where
  "demo_event c = \<lparr>re_kind = evFence, re_cta = c, re_sm = 0, re_ordinal = 0, re_access = no_access, re_warps = [],
     re_warp = 0, re_scope = ''gpu''\<rparr>"

theorem replay_ignores_workers_witness:
  "snd (replay_race_log (worker_logs re_cta (\<lambda>c. if c = 0 then 0 else 1) 2 [demo_event 1, demo_event 0]) new_detector) =
   snd (replay_race_log [demo_event 1, demo_event 0] new_detector)"
proof -
  have "numbered re_cta re_ordinal ([] @ [demo_event 1]) [(1, 1)]"
    using numbered_push [OF numbered_empty [of re_cta re_ordinal], of "demo_event 1" 1] by (simp add: demo_event_def next_ordinal_def om_at_def)
  from numbered_push [OF this, of "demo_event 0" 0]
  have "numbered re_cta re_ordinal [demo_event 1, demo_event 0] [(0, 1), (1, 1)]"
    by (simp add: demo_event_def next_ordinal_def om_at_def om_find_def)
  from replay_ignores_workers [OF this, of "\<lambda>c. if c = 0 then 0 else 1" 2 new_detector] show ?thesis by simp
qed

theorem event_ids_are_renumbered_witness:
  "\<forall>e. me_event_id (normalize_memory_event_ids [e, e] ! 1) = 2"
proof
  fix e
  show "me_event_id (normalize_memory_event_ids [e, e] ! 1) = 2"
    using event_ids_are_renumbered [of "[e, e]"] by (auto simp: renumbered_def)
qed

theorem plain_forms_read_their_fields_witness:
  "mem_sz demo_lds = mem_width_info 4"
  using plain_forms_read_their_fields [of demo_lds]
  by (simp add: demo_lds_def demo_inst_def is_class_def has_shape_def DecodedLDS3_def)

definition demo_uniform :: DecodedInst where
  "demo_uniform = demo_inst kATOMS ''atoms_uniform_'' [reg_ov 4, reg_ov 2, reg_ov 5, imm_ov 0, reg_ov 3] [0, 0, 0, 0]"

theorem uniform_forms_are_misread_witness:
  "\<exists>a. do_atoms demo_env 1 demo_uniform 0 demo_ctx = mem_ldst_atom_core demo_env 1 demo_uniform 0 a demo_ctx \<and>
     lane_atomic_op demo_uniform a = Some kCas \<and> decode_atomic_op demo_uniform = Some kAdd"
proof -
  have "decode_atomic_op demo_uniform = Some kAdd" "mem_ov_idx (rd_op DecodedATOMS5_1 ''Ra_offset'' demo_uniform) \<noteq> 255" by code_simp+
  then show ?thesis using uniform_forms_are_misread [of demo_uniform]
    by (simp add: demo_uniform_def demo_inst_def)
qed

end
