(* ===== verification/Global_Model.thy ===== *)
theory Global_Model
  imports Shared_Bank "HOL-Library.Product_Lexorder" "HOL-Library.While_Combinator"
begin

text \<open>
  The coalescing estimate of one warp access to global memory (\<open>semu/memory/global_model.hpp\<close>,
  \<open>src/memory/global_model.cpp\<close>): the distinct 32-byte sectors and 128-byte lines the lanes
  touch, the bytes requested, used and fetched, the passes of the L1 data banks and the waves of
  the tag pipeline. The two quotients the code stores as doubles are kept as the integers it
  divides (\<open>None\<close> where it stores 0.0); the wave loop is a \<open>while_option\<close>, whose \<open>None\<close>
  is a loop that does not end.
\<close>

definition kSectorBytes :: u64 where "kSectorBytes = 32"
definition kLineBytes :: u64 where "kLineBytes = 128"

definition kGlobalModelVersion :: string where
  "kGlobalModelVersion = ''global-coalesce-v1''"

record LaneMapping =
  lm_lane :: u32
  lm_base :: u64
  lm_len :: u64
  lm_sector :: u64
  lm_line :: u64
  lm_first_bank :: u32
  lm_active :: bool

record GlobalAccessEstimate =
  ge_active_lanes :: u32
  ge_lane_requested_bytes :: u64
  ge_unique_useful_bytes :: u64
  ge_duplicate_reuse_bytes :: u64
  ge_sector_fetch_bytes :: u64
  ge_line_fill_bytes :: u64
  ge_sector_overfetch_bytes :: u64
  ge_line_overfetch_bytes :: u64
  ge_coalescing_efficiency :: "(u64 \<times> u64) option"
  ge_broadcast_reuse_factor :: "(u64 \<times> u64) option"
  ge_sectors :: "u64 list"
  ge_lines :: "u64 list"
  ge_data_bank_passes :: int
  ge_data_bank_conflicts :: int
  ge_tag_bank_passes :: int
  ge_lane_map :: "LaneMapping list"
  ge_model_version :: string
  ge_confidence :: string

definition new_global_estimate :: GlobalAccessEstimate where
  "new_global_estimate = \<lparr>ge_active_lanes = 0, ge_lane_requested_bytes = 0, ge_unique_useful_bytes = 0,
     ge_duplicate_reuse_bytes = 0, ge_sector_fetch_bytes = 0, ge_line_fill_bytes = 0, ge_sector_overfetch_bytes = 0,
     ge_line_overfetch_bytes = 0, ge_coalescing_efficiency = None, ge_broadcast_reuse_factor = None, ge_sectors = [],
     ge_lines = [], ge_data_bank_passes = 0, ge_data_bank_conflicts = 0, ge_tag_bank_passes = 0, ge_lane_map = [],
     ge_model_version = kGlobalModelVersion, ge_confidence = ''exact-architectural''\<rparr>"

subsection \<open>The lanes\<close>

definition tbk :: "u64 \<Rightarrow> u32" where
  "tbk line = (let l = ucast line
     in (l XOR drop_bit 2 l XOR drop_bit 4 l XOR drop_bit 6 l XOR drop_bit 8 l) AND 3)"

definition skipped :: "LaneAccess \<Rightarrow> bool" where
  "skipped la \<longleftrightarrow> \<not> la_active la \<or> la_len la = 0"

definition add_new :: "'a \<Rightarrow> 'a list \<Rightarrow> 'a list" where
  "add_new x xs = (if x \<in> set xs then xs else xs @ [x])"

definition touch_byte :: "u64 \<Rightarrow> GlobalAccessEstimate \<Rightarrow> GlobalAccessEstimate" where
  "touch_byte a r =
     r\<lparr>ge_sectors := add_new (a div kSectorBytes) (ge_sectors r), ge_lines := add_new (a div kLineBytes) (ge_lines r)\<rparr>"

definition add_lane :: "nat \<Rightarrow> LaneAccess \<Rightarrow> GlobalAccessEstimate \<Rightarrow> GlobalAccessEstimate" where
  "add_lane l la r =
     (if skipped la then r
      else
        let base = la_base la; len = la_len la;
            r = r\<lparr>ge_active_lanes := ge_active_lanes r + 1, ge_lane_requested_bytes := ge_lane_requested_bytes r + len\<rparr>;
            r = fold (\<lambda>k. touch_byte (base + word_of_nat k)) [0..<unat len] r
        in r\<lparr>ge_lane_map := ge_lane_map r @ [\<lparr>lm_lane = word_of_nat l, lm_base = base, lm_len = len,
               lm_sector = base div kSectorBytes, lm_line = base div kLineBytes,
               lm_first_bank = ucast ((base div 4) mod 32), lm_active = True\<rparr>]\<rparr>)"

definition lane_ranges :: "LaneAccess list \<Rightarrow> (u64 \<times> u64) list" where
  "lane_ranges lanes = map (\<lambda>la. (la_base la, la_len la)) (filter (\<lambda>la. \<not> skipped la) (take 32 lanes))"

subsection \<open>Distinct bytes\<close>

text \<open>The merge of the sorted ranges: the current interval and the bytes counted so far.\<close>

fun merge_ranges :: "u64 \<Rightarrow> u64 \<Rightarrow> u64 \<Rightarrow> (u64 \<times> u64) list \<Rightarrow> u64" where
  "merge_ranges cur_lo cur_hi uniq [] = uniq + (cur_hi - cur_lo)"
| "merge_ranges cur_lo cur_hi uniq ((lo, len) # rest) =
     (if lo > cur_hi then merge_ranges lo (lo + len) (uniq + (cur_hi - cur_lo)) rest
      else merge_ranges cur_lo (max cur_hi (lo + len)) uniq rest)"

definition unique_bytes :: "(u64 \<times> u64) list \<Rightarrow> u64" where
  "unique_bytes ranges =
     (case sort ranges of [] \<Rightarrow> 0 | (lo, len) # rest \<Rightarrow> merge_ranges lo (lo + len) 0 rest)"

subsection \<open>Data banks\<close>

record Frag =
  fr_lane :: u32
  fr_w0 :: u32
  fr_nw :: u32

definition lane_frag :: "nat \<Rightarrow> LaneAccess \<Rightarrow> u64 \<Rightarrow> Frag" where
  "lane_frag l la ln =
     (let f0 = max (la_base la) (ln * kLineBytes);
          f1 = min (la_base la + la_len la) ((ln + 1) * kLineBytes);
          w0 = f0 div 4;
          w1 = (f1 - 1) div 4
      in \<lparr>fr_lane = word_of_nat l, fr_w0 = ucast w0, fr_nw = ucast (w1 - w0 + 1)\<rparr>)"

definition lane_lines :: "LaneAccess \<Rightarrow> u64 list" where
  "lane_lines la =
     (let line0 = la_base la div kLineBytes; line1 = (la_base la + la_len la - 1) div kLineBytes
      in map word_of_nat [unat line0..<Suc (unat line1)])"

definition add_frags :: "nat \<Rightarrow> LaneAccess \<Rightarrow> (u64, Frag list) omap \<Rightarrow> (u64, Frag list) omap" where
  "add_frags l la m =
     (if skipped la then m
      else fold (\<lambda>ln m. om_put ln (om_at [] m ln @ [lane_frag l la ln]) m) (lane_lines la) m)"

definition frag_pairs :: "Frag \<Rightarrow> (u32 \<times> u32) list" where
  "frag_pairs fr = map (\<lambda>k. let word = fr_w0 fr + word_of_nat k in (word mod 32, word)) [0..<unat (fr_nw fr)]"

definition pass_clash :: "(u32 \<times> u32) list \<Rightarrow> (u32, u32) omap \<Rightarrow> bool" where
  "pass_clash pairs p =
     list_ex (\<lambda>(b, w). case om_find p b of None \<Rightarrow> False | Some w' \<Rightarrow> w' \<noteq> w) pairs"

fun place_frag :: "(u32 \<times> u32) list \<Rightarrow> (u32, u32) omap list \<Rightarrow> (u32, u32) omap list" where
  "place_frag pairs [] = [claim pairs []]"
| "place_frag pairs (p # ps) = (if pass_clash pairs p then p # place_frag pairs ps else claim pairs p # ps)"

definition bank_words :: "(u32 \<times> u32) list \<Rightarrow> (u32, u32 list) omap \<Rightarrow> (u32, u32 list) omap" where
  "bank_words pairs m = fold (\<lambda>(b, w) m. om_put b (add_new w (om_at [] m b)) m) pairs m"

definition line_passes :: "Frag list \<Rightarrow> (u32, u32) omap list" where
  "line_passes frags = fold (\<lambda>fr. place_frag (frag_pairs fr)) frags []"

definition line_conflicts :: "Frag list \<Rightarrow> int" where
  "line_conflicts frags =
     (let m = fold (\<lambda>fr. bank_words (frag_pairs fr)) frags []
      in sum_list (map (\<lambda>(b, ws). if length ws \<ge> 2 then int (length ws) - 1 else 0) m))"

subsection \<open>Tag waves\<close>

definition take_wave :: "u64 list \<Rightarrow> u64 list" where
  "take_wave rem = snd (fold (\<lambda>ln (used, tk). if tbk ln \<in> set used then (used, tk) else (used @ [tbk ln], tk @ [ln])) rem ([], []))"

definition wave_step :: "u64 list \<times> int \<Rightarrow> u64 list \<times> int" where
  "wave_step st =
     (case st of (rem, waves) \<Rightarrow>
        let tk = take_wave rem;
            tk = (if tk = [] then [hd rem] else tk)
        in (fold (\<lambda>tg r. filter (\<lambda>x. x \<noteq> tg) r) tk rem, waves + 1))"

definition tag_waves :: "u64 list \<Rightarrow> int option" where
  "tag_waves lines = map_option snd (while_option (\<lambda>(rem, waves). rem \<noteq> []) wave_step (lines, 0))"

subsection \<open>The estimate\<close>

definition over :: "u64 \<Rightarrow> u64 \<Rightarrow> u64" where
  "over a b = (if a > b then a - b else 0)"

definition byte_counters :: "GlobalAccessEstimate \<Rightarrow> GlobalAccessEstimate" where
  "byte_counters r =
     (let u = ge_unique_useful_bytes r;
          sf = word_of_nat (length (ge_sectors r)) * kSectorBytes;
          lf = word_of_nat (length (ge_lines r)) * kLineBytes
      in r\<lparr>ge_duplicate_reuse_bytes := over (ge_lane_requested_bytes r) u,
           ge_sector_fetch_bytes := sf, ge_line_fill_bytes := lf,
           ge_sector_overfetch_bytes := over sf u, ge_line_overfetch_bytes := over lf u,
           ge_coalescing_efficiency := (if sf > 0 then Some (u, sf) else None),
           ge_broadcast_reuse_factor := (if u > 0 then Some (ge_lane_requested_bytes r, u) else None)\<rparr>)"

definition data_banks :: "LaneAccess list \<Rightarrow> int \<times> int" where
  "data_banks lanes =
     (let m = fold (\<lambda>(l, la). add_frags l la) (enumerate 0 (take 32 lanes)) []
      in (sum_list (map (\<lambda>(ln, frs). int (length (line_passes frs))) m),
          sum_list (map (\<lambda>(ln, frs). line_conflicts frs) m)))"

definition global_estimate :: "LaneAccess list \<Rightarrow> u32 \<Rightarrow> GlobalAccessEstimate option" where
  "global_estimate lanes width =
     (if width \<noteq> 1 \<and> width \<noteq> 2 \<and> width \<noteq> 4 \<and> width \<noteq> 8 \<and> width \<noteq> 16 then Some new_global_estimate
      else
        let r = fold (\<lambda>(l, la). add_lane l la) (enumerate 0 (take 32 lanes)) new_global_estimate;
            r = r\<lparr>ge_sectors := sort (ge_sectors r), ge_lines := sort (ge_lines r)\<rparr>;
            r = byte_counters (r\<lparr>ge_unique_useful_bytes := unique_bytes (lane_ranges lanes)\<rparr>);
            (passes, conflicts) = data_banks lanes;
            r = r\<lparr>ge_data_bank_passes := passes, ge_data_bank_conflicts := conflicts\<rparr>
        in map_option (\<lambda>waves. r\<lparr>ge_tag_bank_passes := waves\<rparr>) (tag_waves (ge_lines r)))"

end
