(* ===== verification/Global_Model_Facts.thy ===== *)
theory Global_Model_Facts
  imports Global_Model
begin

text \<open>
  What the coalescing estimate counts: the tag waves end after as many rounds as the fullest token
  bank has lines, the merged ranges count the union of the bytes, and the fragments of one line
  never clash in a data bank.
\<close>

subsection \<open>Tag waves\<close>

definition in_bank :: "u32 \<Rightarrow> u64 list \<Rightarrow> u64 set" where
  "in_bank b lines = {ln \<in> set lines. tbk ln = b}"

definition fullest_bank :: "u64 list \<Rightarrow> nat" where
  "fullest_bank lines = Max ((\<lambda>b. card (in_bank b lines)) ` {0, 1, 2, 3})"

lemma tbk_range: "tbk ln \<in> {0, 1, 2, 3}"
proof -
  have "unat (x AND 3 :: u32) < 4" for x :: u32
  proof -
    have "x AND 3 = take_bit 2 x" by (simp add: take_bit_eq_mask mask_eq_exp_minus_1)
    then show ?thesis by (simp add: unsigned_take_bit_eq take_bit_nat_def)
  qed
  then have "unat (tbk ln) < 4" by (simp only: tbk_def Let_def)
  then have "unat (tbk ln) = unat (0 :: u32) \<or> unat (tbk ln) = unat (1 :: u32) \<or> unat (tbk ln) = unat (2 :: u32) \<or>
      unat (tbk ln) = unat (3 :: u32)"
    by simp linarith
  then show ?thesis by (simp only: word_unat_eq_iff [symmetric]) blast
qed

lemma finite_in_bank [simp]: "finite (in_bank b lines)"
  by (simp add: in_bank_def)

lemma take_wave_spec:
  "set (take_wave rem) \<subseteq> set rem \<and> distinct (map tbk (take_wave rem)) \<and> tbk ` set (take_wave rem) = tbk ` set rem"
proof -
  define step where "step = (\<lambda>ln (used, tk). if tbk ln \<in> set used then (used, tk) else (used @ [tbk ln], tk @ [ln]))"
  have "case fold step rem ([], []) of (used, tk) \<Rightarrow> used = map tbk tk \<and> set tk \<subseteq> set rem \<and> distinct used \<and> set used = tbk ` set rem"
  proof (induction rem rule: rev_induct)
    case (snoc x xs)
    then show ?case by (auto simp: step_def split: prod.splits if_splits)
  qed simp
  then show ?thesis by (auto simp: take_wave_def step_def split: prod.splits)
qed

lemma take_wave_Nil: "take_wave rem = [] \<longleftrightarrow> rem = []"
  using take_wave_spec [of rem] by (auto simp: take_wave_def)

lemma fold_remove: "fold (\<lambda>tg r. filter (\<lambda>x. x \<noteq> tg) r) tk rem = filter (\<lambda>x. x \<notin> set tk) rem"
  by (induction tk arbitrary: rem) (auto intro: filter_cong)

lemma wave_step_eq: "rem \<noteq> [] \<Longrightarrow> wave_step (rem, n) = (filter (\<lambda>x. x \<notin> set (take_wave rem)) rem, n + 1)"
  by (simp add: wave_step_def take_wave_Nil fold_remove Let_def)

text \<open>A wave serves one line of every bank that has one left.\<close>

lemma wave_bank:
  "card (in_bank b (filter (\<lambda>x. x \<notin> set (take_wave rem)) rem)) = card (in_bank b rem) - 1"
proof -
  let ?tk = "take_wave rem"
  have eq: "in_bank b (filter (\<lambda>x. x \<notin> set ?tk) rem) = in_bank b rem - in_bank b ?tk"
    by (auto simp: in_bank_def)
  have sub: "in_bank b ?tk \<subseteq> in_bank b rem" using take_wave_spec [of rem] by (auto simp: in_bank_def)
  have inj: "inj_on tbk (set ?tk)" using take_wave_spec [of rem] by (simp add: distinct_map)
  show ?thesis
  proof (cases "in_bank b rem = {}")
    case True
    then show ?thesis using eq by simp
  next
    case False
    then have "b \<in> tbk ` set ?tk" using take_wave_spec [of rem] by (auto simp: in_bank_def)
    then obtain x where "in_bank b ?tk = {x}" using inj by (auto simp: in_bank_def inj_on_def)
    then show ?thesis using eq sub by (simp add: card_Diff_subset)
  qed
qed

lemma fullest_bank_mono_step:
  assumes "rem \<noteq> []"
  shows "fullest_bank rem = Suc (fullest_bank (filter (\<lambda>x. x \<notin> set (take_wave rem)) rem))"
proof -
  obtain x where x: "x \<in> set rem" using assms by (cases rem) auto
  let ?b = "tbk x"
  have "x \<in> in_bank ?b rem" using x by (simp add: in_bank_def)
  then have "card (in_bank ?b rem) > 0" by (auto simp: card_gt_0_iff)
  then have pos: "\<exists>b\<in>{0, 1, 2, 3}. card (in_bank b rem) > 0" using tbk_range [of x] by blast
  show ?thesis using pos unfolding fullest_bank_def wave_bank by (auto simp: max_def)
qed

lemma wave_shrinks:
  assumes "rem \<noteq> []"
  shows "length (filter (\<lambda>x. x \<notin> set (take_wave rem)) rem) < length rem"
proof -
  obtain x where "x \<in> set (take_wave rem)" using assms take_wave_Nil [of rem] by (cases "take_wave rem") auto
  moreover from this have "x \<in> set rem" using take_wave_spec [of rem] by blast
  ultimately show ?thesis by (metis length_filter_less)
qed

lemma wave_loop:
  "while_option (\<lambda>(rem, waves). rem \<noteq> []) wave_step (lines, n) = Some ([], n + int (fullest_bank lines))"
proof (induction "length lines" arbitrary: lines n rule: less_induct)
  case less
  show ?case
  proof (cases "lines = []")
    case True
    then show ?thesis by (simp add: while_option_unfold fullest_bank_def in_bank_def)
  next
    case False
    let ?rem = "filter (\<lambda>x. x \<notin> set (take_wave lines)) lines"
    show ?thesis using less [OF wave_shrinks [OF False], of "n + 1"] False fullest_bank_mono_step [OF False]
      by (subst while_option_unfold) (simp add: wave_step_eq)
  qed
qed

subsection \<open>Distinct bytes\<close>

text \<open>The bytes of a range, and ranges that end below the top of the address space.\<close>

definition range_bytes :: "u64 \<times> u64 \<Rightarrow> nat set" where
  "range_bytes r = {unat (fst r)..<unat (fst r) + unat (snd r)}"

definition bounded :: "nat \<Rightarrow> (u64 \<times> u64) list \<Rightarrow> bool" where
  "bounded n rs \<longleftrightarrow> (\<forall>r\<in>set rs. unat (fst r) + unat (snd r) < n)"

lemma bounded_end:
  assumes "unat lo + unat len < (2 :: nat) ^ 64"
  shows "unat (lo + len :: u64) = unat lo + unat len"
  using assms by (simp add: unat_plus_simple [THEN iffD1] unat_word_ariths)

lemma range_bytes_finite [simp]: "finite (range_bytes r)"
  by (simp add: range_bytes_def)

lemma unat_max: "unat (max a b :: u64) = max (unat a) (unat b)"
  by (simp add: max_def word_le_nat_alt)

lemma unat_min: "unat (min a b :: u64) = min (unat a) (unat b)"
  by (simp add: min_def word_le_nat_alt)

lemma merge_ranges_counts:
  assumes "u \<le> lo" "lo \<le> hi" "sorted ((lo, l) # rs)" "bounded (2 ^ 64) rs"
  shows "unat (merge_ranges lo hi u rs) = unat u + card ({unat lo..<unat hi} \<union> \<Union> (range_bytes ` set rs))"
  using assms
proof (induction rs arbitrary: lo hi u l)
  case Nil
  then have "unat u + (unat hi - unat lo) < 2 ^ 64"
    using unat_lt_u64 [of hi] by (simp add: word_le_nat_alt del: unat_lt_u64)
  then show ?case using Nil by (simp add: unat_word_ariths unat_sub)
next
  case (Cons r rs)
  obtain lo' len where r: "r = (lo', len)" by (cases r)
  have e: "unat (lo' + len) = unat lo' + unat len" and le: "lo' \<le> lo' + len"
    using Cons.prems(4) bounded_end [of lo' len] r by (auto simp: bounded_def word_le_nat_alt)
  have b: "bounded (2 ^ 64) rs" using Cons.prems(4) by (simp add: bounded_def)
  have lo': "lo \<le> lo'" using Cons.prems(3) r by (auto simp: less_eq_prod_def)
  have later: "lo' \<le> fst q" if "q \<in> set rs" for q using Cons.prems(3) r that by (cases q) (auto simp: less_eq_prod_def)
  show ?case
  proof (cases "lo' > hi")
    case True
    let ?rest = "{unat lo'..<unat lo' + unat len} \<union> \<Union> (range_bytes ` set rs)"
    have len_u: "unat (u + (hi - lo)) = unat u + (unat hi - unat lo)" and ul: "u + (hi - lo) \<le> lo'"
    proof -
      have "unat u + (unat hi - unat lo) < 2 ^ 64" using Cons.prems(1,2) unat_lt_u64 [of hi]
        by (simp add: word_le_nat_alt del: unat_lt_u64)
      then show "unat (u + (hi - lo)) = unat u + (unat hi - unat lo)"
        using Cons.prems(2) by (simp add: unat_word_ariths unat_sub)
      then show "u + (hi - lo) \<le> lo'" using Cons.prems(1,2) True by (simp add: word_le_nat_alt word_less_nat_alt)
    qed
    have "sorted ((lo', len) # rs)" using Cons.prems(3) r by simp
    then have "unat (merge_ranges lo' (lo' + len) (u + (hi - lo)) rs) =
        unat (u + (hi - lo)) + card ?rest" using Cons.IH [OF ul le _ b, of len] by (simp only: e)
    moreover have "{unat lo..<unat hi} \<inter> ?rest = {}"
      using True later by (force simp: range_bytes_def word_less_nat_alt word_le_nat_alt)
    ultimately show ?thesis using True len_u by (simp add: r range_bytes_def card_Un_disjoint)
  next
    case False
    let ?hi = "max hi (lo' + len)"
    have "u \<le> lo" "lo \<le> ?hi" "sorted ((lo, l) # rs)" using Cons.prems by (auto simp: le_max_iff_disj)
    then have "unat (merge_ranges lo ?hi u rs) = unat u + card ({unat lo..<unat ?hi} \<union> \<Union> (range_bytes ` set rs))"
      using Cons.IH b by blast
    moreover have "{unat lo..<unat ?hi} = {unat lo..<unat hi} \<union> range_bytes r"
      using False lo' e by (auto simp: r range_bytes_def unat_max word_less_nat_alt word_le_nat_alt)
    ultimately show ?thesis using False by (simp add: r Un_assoc)
  qed
qed

lemma unique_bytes_union:
  assumes "bounded (2 ^ 64) rs"
  shows "unat (unique_bytes rs) = card (\<Union> (range_bytes ` set rs))"
proof (cases "sort rs")
  case Nil
  then have "rs = []" by (metis length_0_conv length_sort)
  then show ?thesis by (simp add: unique_bytes_def)
next
  case (Cons r rest)
  obtain lo len where r: "r = (lo, len)" by (cases r)
  have set: "set rs = insert r (set rest)" using arg_cong [OF Cons, of set] by simp
  then have b: "bounded (2 ^ 64) rest" and e: "unat (lo + len) = unat lo + unat len"
    using assms bounded_end [of lo len] by (auto simp: bounded_def r)
  have "sorted ((lo, len) # rest)" using sorted_sort [of rs] Cons r by simp
  then have "unat (merge_ranges lo (lo + len) 0 rest) = card ({unat lo..<unat (lo + len)} \<union> \<Union> (range_bytes ` set rest))"
    using merge_ranges_counts [of 0 lo "lo + len"] b e by (simp add: word_le_nat_alt)
  then show ?thesis by (simp add: unique_bytes_def Cons r set e range_bytes_def)
qed

subsection \<open>Sectors and lines\<close>

definition warp_bytes :: "LaneAccess list \<Rightarrow> nat set" where
  "warp_bytes lanes = \<Union> (range_bytes ` set (lane_ranges lanes))"

lemma add_new_set [simp]: "set (add_new x xs) = insert x (set xs)" "distinct (add_new x xs) = distinct xs"
  by (auto simp: add_new_def)

lemma touch_fold:
  "set (ge_sectors (fold (\<lambda>k. touch_byte (base + word_of_nat k)) ks r)) =
     set (ge_sectors r) \<union> (\<lambda>k. (base + word_of_nat k) div kSectorBytes) ` set ks \<and>
   set (ge_lines (fold (\<lambda>k. touch_byte (base + word_of_nat k)) ks r)) =
     set (ge_lines r) \<union> (\<lambda>k. (base + word_of_nat k) div kLineBytes) ` set ks \<and>
   (distinct (ge_sectors r) \<longrightarrow> distinct (ge_sectors (fold (\<lambda>k. touch_byte (base + word_of_nat k)) ks r))) \<and>
   (distinct (ge_lines r) \<longrightarrow> distinct (ge_lines (fold (\<lambda>k. touch_byte (base + word_of_nat k)) ks r))) \<and>
   ge_lane_requested_bytes (fold (\<lambda>k. touch_byte (base + word_of_nat k)) ks r) = ge_lane_requested_bytes r \<and>
   ge_active_lanes (fold (\<lambda>k. touch_byte (base + word_of_nat k)) ks r) = ge_active_lanes r"
  by (induction ks arbitrary: r) (auto simp: touch_byte_def)

lemma range_image:
  assumes "unat base + unat len < (2 :: nat) ^ 64" "unat (c :: u64) > 0"
  shows "(\<lambda>k. (base + word_of_nat k) div c) ` set [0..<unat len] = word_of_nat ` ((\<lambda>a. a div unat c) ` range_bytes (base, len))"
proof -
  have "(base + word_of_nat k) div c = word_of_nat ((unat base + k) div unat c)" if "k < unat len" for k
    using that assms(1) by (intro word_unat_eq_iff [THEN iffD2]) (simp add: unat_div unat_word_ariths unat_of_nat_u64 div_le_dividend le_less_trans [OF div_le_dividend])
  moreover have "range_bytes (base, len) = (\<lambda>k. unat base + k) ` {0..<unat len}"
    by (simp add: range_bytes_def add.commute)
  ultimately show ?thesis by (simp only: set_upt image_image) (rule image_cong, simp_all)
qed

definition ranges_of :: "LaneAccess list \<Rightarrow> (u64 \<times> u64) list" where
  "ranges_of las = map (\<lambda>la. (la_base la, la_len la)) (filter (\<lambda>la. \<not> skipped la) las)"

lemma ranges_of_simps [simp]:
  "ranges_of [] = []"
  "ranges_of (la # las) = (if skipped la then ranges_of las else (la_base la, la_len la) # ranges_of las)"
  by (simp_all add: ranges_of_def)

lemma bounded_Cons [simp]: "bounded n (r # rs) \<longleftrightarrow> unat (fst r) + unat (snd r) < n \<and> bounded n rs"
  by (auto simp: bounded_def)

lemma unat_sector_line [simp]: "unat kSectorBytes = 32" "unat kLineBytes = 128"
  by (simp_all add: kSectorBytes_def kLineBytes_def)

text \<open>What the loop over the lanes accumulates.\<close>

lemma add_lanes:
  assumes "bounded (2 ^ 64) (ranges_of (map snd xs))"
  shows "let r' = fold (\<lambda>(l, la). add_lane l la) xs r; B = \<Union> (range_bytes ` set (ranges_of (map snd xs))) in
    set (ge_sectors r') = set (ge_sectors r) \<union> word_of_nat ` (\<lambda>a. a div 32) ` B \<and>
    set (ge_lines r') = set (ge_lines r) \<union> word_of_nat ` (\<lambda>a. a div 128) ` B \<and>
    (distinct (ge_sectors r) \<longrightarrow> distinct (ge_sectors r')) \<and> (distinct (ge_lines r) \<longrightarrow> distinct (ge_lines r')) \<and>
    ge_lane_requested_bytes r' = ge_lane_requested_bytes r + sum_list (map snd (ranges_of (map snd xs))) \<and>
    ge_active_lanes r' = ge_active_lanes r + word_of_nat (length (ranges_of (map snd xs)))"
  using assms
proof (induction xs arbitrary: r)
  case Nil
  then show ?case by simp
next
  case (Cons x xs)
  obtain l la where x: "x = (l, la)" by (cases x)
  show ?case
  proof (cases "skipped la")
    case True
    then have "fold (\<lambda>(l, la). add_lane l la) (x # xs) r = fold (\<lambda>(l, la). add_lane l la) xs r"
      by (simp add: x add_lane_def)
    then show ?thesis using Cons.IH [of r] Cons.prems True by (simp only: x) simp
  next
    case False
    let ?g = "fold (\<lambda>k. touch_byte (la_base la + word_of_nat k)) [0..<unat (la_len la)]
      (r\<lparr>ge_active_lanes := ge_active_lanes r + 1, ge_lane_requested_bytes := ge_lane_requested_bytes r + la_len la\<rparr>)"
    let ?r = "add_lane l la r"
    have b: "unat (la_base la) + unat (la_len la) < 2 ^ 64" "bounded (2 ^ 64) (ranges_of (map snd xs))"
      using Cons.prems False by (simp_all add: x)
    have r: "ge_sectors ?r = ge_sectors ?g" "ge_lines ?r = ge_lines ?g"
      "ge_lane_requested_bytes ?r = ge_lane_requested_bytes ?g" "ge_active_lanes ?r = ge_active_lanes ?g"
      using False by (simp_all add: add_lane_def Let_def)
    have img: "(\<lambda>k. (la_base la + word_of_nat k) div kSectorBytes) ` set [0..<unat (la_len la)] =
        word_of_nat ` (\<lambda>a. a div 32) ` range_bytes (la_base la, la_len la)"
      "(\<lambda>k. (la_base la + word_of_nat k) div kLineBytes) ` set [0..<unat (la_len la)] =
        word_of_nat ` (\<lambda>a. a div 128) ` range_bytes (la_base la, la_len la)"
      using range_image [OF b(1), of kSectorBytes] range_image [OF b(1), of kLineBytes] by simp_all
    have f: "fold (\<lambda>(l, la). add_lane l la) (x # xs) r = fold (\<lambda>(l, la). add_lane l la) xs ?r" by (simp add: x)
    have rs: "ranges_of (map snd (x # xs)) = (la_base la, la_len la) # ranges_of (map snd xs)" using False by (simp add: x)
    note t = touch_fold [of "la_base la" "[0..<unat (la_len la)]"
        "r\<lparr>ge_active_lanes := ge_active_lanes r + 1, ge_lane_requested_bytes := ge_lane_requested_bytes r + la_len la\<rparr>"]
    show ?thesis using Cons.IH [OF b(2), of ?r] t
      unfolding f rs Let_def r img by (simp add: image_Un Un_assoc add.assoc)
  qed
qed

lemma enumerate_snd: "map snd (enumerate n xs) = xs"
  by (induction xs arbitrary: n) simp_all

lemma lane_ranges_eq: "lane_ranges lanes = ranges_of (map snd (enumerate 0 (take 32 lanes)))"
  by (simp only: enumerate_snd lane_ranges_def ranges_of_def)

subsection \<open>Data banks\<close>

text \<open>The words of one line: the bank determines the word.\<close>

definition line_word :: "nat \<Rightarrow> u32 \<times> u32 \<Rightarrow> bool" where
  "line_word n bw \<longleftrightarrow> fst bw = snd bw mod 32 \<and> unat (snd bw) div 32 = n"

lemma line_word_same:
  assumes "line_word n (b, w)" "line_word n (b, w')"
  shows "w = w'"
proof -
  have "unat (w mod 32) = unat (w' mod 32)" using assms by (simp add: line_word_def)
  then have "unat w mod 32 = unat w' mod 32" by (simp add: unat_mod)
  moreover have "unat w div 32 = unat w' div 32" using assms by (simp add: line_word_def)
  ultimately have "unat w = unat w'" by (metis div_mult_mod_eq)
  then show ?thesis by (simp only: word_unat_eq_iff)
qed

lemma word_line_index: "((x :: nat) mod 2 ^ 32) div 32 = (x div 32) mod 2 ^ 27"
  using drop_bit_take_bit [of 5 32 x] by (simp add: drop_bit_nat_def take_bit_nat_def)

lemma image_div:
  fixes b l c :: nat
  assumes "0 < l" "0 < c"
  shows "(\<lambda>a. a div c) ` {b..<b + l} = {b div c..(b + l - 1) div c}"
proof
  show "(\<lambda>a. a div c) ` {b..<b + l} \<subseteq> {b div c..(b + l - 1) div c}"
    by (auto intro!: div_le_mono)
next
  have "n \<in> (\<lambda>a. a div c) ` {b..<b + l}" if n: "b div c \<le> n" "n \<le> (b + l - 1) div c" for n
  proof -
    let ?a = "max b (n * c)"
    have "n * c \<le> b + l - 1" using n(2) assms(2) by (simp add: less_eq_div_iff_mult_less_eq)
    then have "?a \<in> {b..<b + l}" using assms(1) by auto
    moreover have "?a div c = n" using n(1) assms(2) by (auto simp: max_def le_antisym less_eq_div_iff_mult_less_eq)
    ultimately show ?thesis by (intro image_eqI [of n _ ?a]) simp_all
  qed
  then show "{b div c..(b + l - 1) div c} \<subseteq> (\<lambda>a. a div c) ` {b..<b + l}" by auto
qed

lemma last_byte:
  assumes "unat (base :: u64) + unat (len :: u64) < 2 ^ 64" "len \<noteq> 0"
  shows "unat (base + len - 1) = unat base + unat len - 1"
proof -
  have "unat (base + len) = unat base + unat len" using assms(1) by (rule bounded_end)
  moreover have "0 < unat len" using assms(2) by (simp add: unat_gt_0)
  ultimately show ?thesis by (metis add_gr_0 unat_0 unat_minus_one less_not_refl)
qed

lemma lane_lines_set:
  assumes "unat (la_base la) + unat (la_len la) < 2 ^ 64" "\<not> skipped la"
  shows "set (lane_lines la) = word_of_nat ` (\<lambda>a. a div 128) ` range_bytes (la_base la, la_len la)"
proof -
  have pos: "0 < unat (la_len la)" "la_len la \<noteq> 0" using assms(2) by (simp_all add: skipped_def unat_gt_0)
  have "{unat (la_base la div kLineBytes)..<Suc (unat ((la_base la + la_len la - 1) div kLineBytes))} =
      (\<lambda>a. a div 128) ` range_bytes (la_base la, la_len la)"
    using image_div [OF pos(1), of 128 "unat (la_base la)"] last_byte [OF assms(1) pos(2)]
    by (simp add: unat_div range_bytes_def atLeastLessThanSuc_atLeastAtMost)
  then show ?thesis by (simp only: lane_lines_def Let_def set_map set_upt)
qed

lemma frag_line_words:
  assumes b: "unat (la_base la) + unat (la_len la) < 2 ^ 64 - 127" and live: "\<not> skipped la" and ln: "ln \<in> set (lane_lines la)"
    and bw: "bw \<in> set (frag_pairs (lane_frag l la ln))"
  shows "line_word (unat ln mod 2 ^ 27) bw"
proof -
  define B L N where "B = unat (la_base la)" and "L = unat (la_len la)" and "N = unat ln"
  have bnd: "B + L < 18446744073709551489" using b by (simp add: B_def L_def)
  then have b': "unat (la_base la) + unat (la_len la) < 2 ^ 64" by (simp add: B_def L_def)
  have pos: "0 < L" using live by (simp add: skipped_def L_def unat_gt_0)
  obtain a where a: "B \<le> a" "a < B + L" "ln = word_of_nat (a div 128)"
    using ln lane_lines_set [OF b' live] by (auto simp: range_bytes_def B_def L_def)
  then have N: "N = a div 128" using bnd by (simp add: N_def unat_of_nat_u64 le_less_trans [OF div_le_dividend])
  have Na: "N * 128 \<le> a" "a < (N + 1) * 128" unfolding N using div_times_less_eq_dividend [of a 128] dividend_less_div_times [of 128 a] by simp_all
  have top: "(N + 1) * 128 < 18446744073709551616" using a(2) bnd Na(1) by simp
  then have n128: "unat (ln * kLineBytes) = N * 128" "unat ((ln + 1) * kLineBytes) = (N + 1) * 128"
    by (simp_all add: N_def [symmetric] unat_word_ariths kLineBytes_def)
  define F0 F1 where "F0 = max B (N * 128)" and "F1 = min (B + L) ((N + 1) * 128)"
  have f: "N * 128 \<le> F0" "F0 < F1" "F1 \<le> (N + 1) * 128"
  proof -
    show "N * 128 \<le> F0" "F0 < F1" "F1 \<le> (N + 1) * 128" using a(1,2) pos Na by (auto simp: F0_def F1_def)
  qed
  let ?f0 = "max (la_base la) (ln * kLineBytes)" and ?f1 = "min (la_base la + la_len la) ((ln + 1) * kLineBytes)"
  have uf: "unat ?f0 = F0" "unat ?f1 = F1"
    using bounded_end [OF b'] n128 by (simp_all add: unat_max unat_min F0_def F1_def B_def L_def)
  have f1: "unat (?f1 - 1) = F1 - 1" using uf(2) f(2) by (metis gr_implies_not0 unat_0 unat_minus_one)
  define W0 W1 where "W0 = F0 div 4" and "W1 = (F1 - 1) div 4"
  have w: "N * 32 \<le> W0" "W0 \<le> W1" "W1 < N * 32 + 32"
    using f by (auto simp: W0_def W1_def less_eq_div_iff_mult_less_eq div_less_iff_less_mult intro!: div_le_mono)
  have big: "W1 < 2 ^ 62" using f(3) top by (auto simp: W1_def div_less_iff_less_mult)
  have w0: "?f0 div 4 = word_of_nat W0" "(?f1 - 1) div 4 = word_of_nat W1"
    using uf(1) f1 w big by (simp_all add: word_unat_eq_iff unat_div unat_of_nat_u64 W0_def W1_def)
  have dw: "word_of_nat W1 - word_of_nat W0 + (1 :: u64) = word_of_nat (W1 - W0 + 1)" using w(2) by (simp add: of_nat_diff)
  have uc: "ucast (word_of_nat n :: u64) = (word_of_nat n :: u32)" if "n < 2 ^ 64" for n
    using that by (simp add: unsigned_of_nat take_bit_nat_eq_self)
  have fr: "fr_w0 (lane_frag l la ln) = word_of_nat W0" "fr_nw (lane_frag l la ln) = word_of_nat (W1 - W0 + 1)"
    using w big by (simp_all only: lane_frag_def Let_def w0 dw Frag.select_convs) (rule uc, simp)+
  have nw: "unat (word_of_nat (W1 - W0 + 1) :: u32) = W1 - W0 + 1" using w by (intro unat_of_nat_u32) simp
  have "\<exists>k\<le>W1 - W0. snd bw = word_of_nat (W0 + k) \<and> fst bw = snd bw mod 32"
    using bw nw by (auto simp: frag_pairs_def Let_def fr less_Suc_eq_le)
  then obtain k where k: "k \<le> W1 - W0" "snd bw = word_of_nat (W0 + k)" "fst bw = snd bw mod 32" by blast
  have "(W0 + k) div 32 = N" using k(1) w by (intro div_nat_eqI) auto
  moreover have "((W0 + k) mod 2 ^ 32) div 32 = ((W0 + k) div 32) mod 2 ^ 27"
    by (rule word_line_index)
  moreover have "unat (word_of_nat (W0 + k) :: u32) = (W0 + k) mod 2 ^ 32" by (simp only: unat_of_nat) simp
  ultimately have "unat (snd bw) div 32 = N mod 2 ^ 27" by (simp only: k(2))
  then show ?thesis using k(3) by (simp add: line_word_def N_def)
qed

text \<open>No two words of one line clash, so its fragments share one pass.\<close>

definition line_map :: "nat \<Rightarrow> (u32, u32) omap \<Rightarrow> bool" where
  "line_map n p \<longleftrightarrow> om_inv p \<and> (\<forall>b w. om_find p b = Some w \<longrightarrow> line_word n (b, w))"

lemma claim_line_map: "line_map n p \<Longrightarrow> \<forall>bw\<in>set pairs. line_word n bw \<Longrightarrow> line_map n (claim pairs p)"
proof (induction pairs arbitrary: p)
  case Nil
  then show ?case by (simp add: claim_def)
next
  case (Cons bw pairs)
  obtain b w where bw: "bw = (b, w)" by (cases bw)
  have "line_map n (om_put b w p)" using Cons.prems by (simp add: line_map_def omap_simps bw)
  then have "line_map n (claim pairs (om_put b w p))" using Cons by simp
  then show ?case by (simp add: claim_def bw)
qed

lemma line_map_no_clash: "line_map n p \<Longrightarrow> \<forall>bw\<in>set pairs. line_word n bw \<Longrightarrow> \<not> pass_clash pairs p"
  by (fastforce simp: pass_clash_def list_ex_iff line_map_def split: option.splits dest: line_word_same)

lemma line_passes_one:
  assumes "frs \<noteq> []" "\<forall>fr\<in>set frs. \<forall>bw\<in>set (frag_pairs fr). line_word n bw"
  shows "length (line_passes frs) = 1"
proof -
  have "\<exists>p. line_passes frs = [p] \<and> line_map n p" using assms
  proof (induction frs rule: rev_induct)
    case (snoc fr frs)
    show ?case
    proof (cases "frs = []")
      case True
      have "line_map n []" by (simp add: line_map_def)
      then show ?thesis using snoc.prems True claim_line_map by (simp add: line_passes_def)
    next
      case False
      then obtain p where "line_passes frs = [p]" "line_map n p" using snoc by auto
      then show ?thesis using snoc.prems line_map_no_clash [of n p] claim_line_map [of n p] by (simp add: line_passes_def)
    qed
  qed simp
  then show ?thesis by auto
qed

lemma om_put_set: "set (om_put k v m) \<subseteq> insert (k, v) (set m)"
  by (induction k v m rule: om_put.induct) auto

lemma om_at_cases: "om_at d m k = d \<or> (k, om_at d m k) \<in> set m"
  by (auto simp: om_at_def om_find_def split: option.splits dest: map_of_SomeD)

definition line_words :: "nat \<Rightarrow> (u32, u32 list) omap \<Rightarrow> bool" where
  "line_words n m \<longleftrightarrow> (\<forall>(b, ws)\<in>set m. distinct ws \<and> (\<forall>w\<in>set ws. line_word n (b, w)))"

lemma bank_words_line: "\<forall>bw\<in>set pairs. line_word n bw \<Longrightarrow> line_words n m \<Longrightarrow> line_words n (bank_words pairs m)"
proof (induction pairs arbitrary: m)
  case Nil
  then show ?case by (simp add: bank_words_def)
next
  case (Cons bw pairs)
  obtain b w where bw: "bw = (b, w)" by (cases bw)
  have w: "line_word n (b, w)" using Cons.prems(1) by (simp add: bw)
  have old: "distinct (om_at [] m b) \<and> (\<forall>w\<in>set (om_at [] m b). line_word n (b, w))"
    using om_at_cases [of "[]" m b] Cons.prems(2) by (auto simp: line_words_def)
  have "line_words n ((b, add_new w (om_at [] m b)) # m)" using w old Cons.prems(2) by (simp add: line_words_def)
  then have "line_words n (om_put b (add_new w (om_at [] m b)) m)"
    using om_put_set [of b "add_new w (om_at [] m b)" m] unfolding line_words_def by (metis (no_types, lifting) list.simps(15) subsetD)
  then show ?case using Cons by (simp add: bank_words_def bw)
qed

lemma sum_list_zero: "\<forall>x\<in>set xs. x = 0 \<Longrightarrow> sum_list xs = (0 :: int)"
  by (induction xs) auto

lemma line_conflicts_zero:
  assumes "\<forall>fr\<in>set frs. \<forall>bw\<in>set (frag_pairs fr). line_word n bw"
  shows "line_conflicts frs = 0"
proof -
  let ?m = "fold (\<lambda>fr. bank_words (frag_pairs fr)) frs []"
  have "line_words n ?m" using assms
    by (induction frs rule: rev_induct) (auto simp: line_words_def [of n "[]"] intro: bank_words_line)
  then have "length ws < 2" if "(b, ws) \<in> set ?m" for b ws
    using that line_word_same by (cases ws rule: remdups_adj.cases) (fastforce simp: line_words_def)+
  then have "\<forall>x\<in>set (map (\<lambda>(b, ws). if length ws \<ge> 2 then int (length ws) - 1 else 0) ?m). x = 0" by force
  then show ?thesis unfolding line_conflicts_def Let_def by (rule sum_list_zero)
qed

definition frag_map :: "(u64, Frag list) omap \<Rightarrow> bool" where
  "frag_map m \<longleftrightarrow> om_inv m \<and> (\<forall>(ln, frs)\<in>set m. frs \<noteq> [] \<and>
     (\<forall>fr\<in>set frs. \<forall>bw\<in>set (frag_pairs fr). line_word (unat ln mod 2 ^ 27) bw))"

lemma om_put_fst: "fst ` set (om_put k v m) = insert k (fst ` set m)"
  using om_put_keys [of k v m] by simp

lemma add_frag_ok:
  assumes "frag_map m" "\<forall>bw\<in>set (frag_pairs fr). line_word (unat ln mod 2 ^ 27) bw"
  shows "frag_map (om_put ln (om_at [] m ln @ [fr]) m)"
proof -
  have "\<forall>f\<in>set (om_at [] m ln). \<forall>bw\<in>set (frag_pairs f). line_word (unat ln mod 2 ^ 27) bw"
    using om_at_cases [of "[]" m ln] assms(1) by (auto simp: frag_map_def)
  then show ?thesis using om_put_set [of ln "om_at [] m ln @ [fr]" m] assms
    by (auto simp: frag_map_def dest!: subsetD)
qed

lemma add_frags_ok:
  assumes "frag_map m" "skipped la \<or> unat (la_base la) + unat (la_len la) < 2 ^ 64 - 127"
  shows "frag_map (add_frags l la m) \<and>
    fst ` set (add_frags l la m) = fst ` set m \<union> (if skipped la then {} else set (lane_lines la))"
proof (cases "skipped la")
  case True
  then show ?thesis using assms by (simp add: add_frags_def)
next
  case False
  have b: "unat (la_base la) + unat (la_len la) < 2 ^ 64 - 127" using assms(2) False by blast
  have "frag_map (fold (\<lambda>ln m. om_put ln (om_at [] m ln @ [lane_frag l la ln]) m) lns m) \<and>
      fst ` set (fold (\<lambda>ln m. om_put ln (om_at [] m ln @ [lane_frag l la ln]) m) lns m) = fst ` set m \<union> set lns"
    if "set lns \<subseteq> set (lane_lines la)" for lns
    using that assms(1)
  proof (induction lns arbitrary: m)
    case (Cons ln lns)
    have "\<forall>bw\<in>set (frag_pairs (lane_frag l la ln)). line_word (unat ln mod 2 ^ 27) bw"
      using frag_line_words [OF b False] Cons.prems(1) by simp
    from add_frag_ok [OF Cons.prems(2) this] show ?case using Cons by (simp add: om_put_fst)
  qed simp
  from this [of "lane_lines la"] show ?thesis using False by (simp add: add_frags_def)
qed

lemma frag_map_lanes:
  assumes "bounded (2 ^ 64 - 127) (ranges_of (map snd xs))"
  shows "frag_map (fold (\<lambda>(l, la). add_frags l la) xs []) \<and>
    fst ` set (fold (\<lambda>(l, la). add_frags l la) xs []) =
      word_of_nat ` (\<lambda>a. a div 128) ` \<Union> (range_bytes ` set (ranges_of (map snd xs)))"
  using assms
proof (induction xs rule: rev_induct)
  case Nil
  then show ?case by (simp add: frag_map_def)
next
  case (snoc x xs)
  obtain l la where x: "x = (l, la)" by (cases x)
  have r: "ranges_of (map snd (xs @ [x])) = ranges_of (map snd xs) @ (if skipped la then [] else [(la_base la, la_len la)])"
    by (simp add: ranges_of_def x)
  have b: "bounded (2 ^ 64 - 127) (ranges_of (map snd xs))"
    "skipped la \<or> unat (la_base la) + unat (la_len la) < 2 ^ 64 - 127"
    using snoc.prems unfolding r by (auto simp: bounded_def split: if_splits)
  have lines: "set (lane_lines la) = word_of_nat ` (\<lambda>a. a div 128) ` range_bytes (la_base la, la_len la)" if "\<not> skipped la"
    using lane_lines_set [OF _ that] b(2) that by simp
  show ?case unfolding r
    using add_frags_ok [OF snoc.IH [OF b(1), THEN conjunct1] b(2), of l] snoc.IH [OF b(1)] lines
    by (simp add: x image_Un Un_commute)
qed

lemma word_of_nat_lines_inj:
  assumes "\<forall>a\<in>B. a < (2 :: nat) ^ 64"
  shows "inj_on (word_of_nat :: nat \<Rightarrow> u64) ((\<lambda>a. a div c) ` B)"
proof (rule inj_onI)
  fix x y assume "x \<in> (\<lambda>a. a div c) ` B" "y \<in> (\<lambda>a. a div c) ` B" and e: "word_of_nat x = (word_of_nat y :: u64)"
  then have "x < 2 ^ 64" "y < 2 ^ 64" using assms by (auto intro: le_less_trans [OF div_le_dividend])
  then show "x = y" using e by (metis unat_of_nat_u64)
qed

lemma warp_bytes_bound:
  assumes "bounded n (lane_ranges lanes)" "a \<in> warp_bytes lanes"
  shows "Suc a < n"
  using assms by (fastforce simp: warp_bytes_def bounded_def range_bytes_def)

lemma finite_warp_bytes [simp]: "finite (warp_bytes lanes)"
  by (simp add: warp_bytes_def)

lemma data_banks_lines:
  assumes "bounded (2 ^ 64 - 127) (lane_ranges lanes)"
  shows "data_banks lanes = (int (card ((\<lambda>a. a div 128) ` warp_bytes lanes)), 0)"
proof -
  let ?m = "fold (\<lambda>(l, la). add_frags l la) (enumerate 0 (take 32 lanes)) []"
  have ok: "frag_map ?m" and keys: "fst ` set ?m = word_of_nat ` (\<lambda>a. a div 128) ` warp_bytes lanes"
    using frag_map_lanes [of "enumerate 0 (take 32 lanes)"] assms by (simp_all only: lane_ranges_eq warp_bytes_def)
  have one: "length (line_passes frs) = 1" "line_conflicts frs = 0" if "(ln, frs) \<in> set ?m" for ln frs
    using that ok line_passes_one [of frs "unat ln mod 2 ^ 27"] line_conflicts_zero [of frs "unat ln mod 2 ^ 27"]
    unfolding frag_map_def by blast+
  have "map (\<lambda>(ln, frs). int (length (line_passes frs))) ?m = map (\<lambda>_. 1) ?m"
    using one(1) by (intro map_cong) auto
  then have p: "sum_list (map (\<lambda>(ln, frs). int (length (line_passes frs))) ?m) = int (length ?m)"
    by (simp only: sum_list_triv)
  have "\<forall>x\<in>set (map (\<lambda>(ln, frs). line_conflicts frs) ?m). x = 0" using one(2) by auto
  then have c: "sum_list (map (\<lambda>(ln, frs). line_conflicts frs) ?m) = 0" by (rule sum_list_zero)
  have "distinct (map fst ?m)" using ok by (simp add: frag_map_def om_inv_def strict_sorted_iff)
  then have "length ?m = card (fst ` set ?m)" using distinct_card [of "map fst ?m"] by simp
  also have "\<dots> = card ((\<lambda>a. a div 128) ` warp_bytes lanes)"
    unfolding keys using warp_bytes_bound [OF assms] by (intro card_image word_of_nat_lines_inj) fastforce
  finally show ?thesis by (simp add: data_banks_def Let_def p c)
qed

subsection \<open>Bounds between the counters\<close>

lemma card_blocks: "finite B \<Longrightarrow> card B \<le> card ((\<lambda>a. a div c) ` B) * c" if "0 < c" for B :: "nat set"
proof -
  assume fin: "finite B"
  have "B \<subseteq> (\<Union>s\<in>(\<lambda>a. a div c) ` B. {s * c..<s * c + c})"
  proof
    fix a assume "a \<in> B"
    moreover have "a \<in> {a div c * c..<a div c * c + c}"
      using that dividend_less_div_times [of c a] by simp
    ultimately show "a \<in> (\<Union>s\<in>(\<lambda>a. a div c) ` B. {s * c..<s * c + c})" by blast
  qed
  then have "card B \<le> card (\<Union>s\<in>(\<lambda>a. a div c) ` B. {s * c..<s * c + c})" using fin by (intro card_mono) auto
  also have "\<dots> \<le> (\<Sum>s\<in>(\<lambda>a. a div c) ` B. card {s * c..<s * c + c})" using fin by (intro card_UN_le) simp
  finally show ?thesis by simp
qed

lemma sectors_in_lines: "finite B \<Longrightarrow> card ((\<lambda>a. a div 32) ` B) \<le> card ((\<lambda>a. a div 128) ` B) * 4" for B :: "nat set"
proof -
  have "(\<lambda>a. a div 4) ` (\<lambda>a. a div 32) ` B = (\<lambda>a. a div 128) ` B" by (simp add: image_image div_mult2_eq [symmetric])
  moreover assume "finite B"
  ultimately show ?thesis using card_blocks [of 4 "(\<lambda>a. a div 32) ` B"] by simp
qed

lemma card_warp_bytes: "card (warp_bytes lanes) \<le> (\<Sum>r\<leftarrow>lane_ranges lanes. unat (snd r))"
proof -
  have "card (\<Union> (range_bytes ` set rs)) \<le> (\<Sum>r\<leftarrow>rs. unat (snd r))" for rs
  proof (induction rs)
    case (Cons r rs)
    have "card (\<Union> (range_bytes ` set (r # rs))) \<le> card (range_bytes r) + card (\<Union> (range_bytes ` set rs))"
      by (simp add: card_Un_le)
    then show ?case using Cons by (simp add: range_bytes_def)
  qed simp
  then show ?thesis by (simp add: warp_bytes_def)
qed

lemma unat_sum_list: "(\<Sum>x\<leftarrow>xs. unat x) < 2 ^ 64 \<Longrightarrow> unat (sum_list xs :: u64) = (\<Sum>x\<leftarrow>xs. unat x)"
  by (induction xs) (simp_all add: unat_word_ariths)

lemma card_div_bound:
  assumes "\<forall>a\<in>B. a < (2 :: nat) ^ 64 - 128" "c = 32 \<or> c = 128"
  shows "card ((\<lambda>a. a div c) ` B) * c < 2 ^ 64"
proof -
  have "(\<lambda>a. a div c) ` B \<subseteq> {..<(2 ^ 64 - 129) div c + 1}" using assms by (auto simp: less_Suc_eq_le intro!: div_le_mono)
  then have "card ((\<lambda>a. a div c) ` B) \<le> (2 ^ 64 - 129) div c + 1" by (metis card_lessThan card_mono finite_lessThan)
  then show ?thesis using assms(2) by auto
qed

subsection \<open>The estimate\<close>

lemma block_set:
  assumes "\<forall>a\<in>B. a < (2 :: nat) ^ 64"
  shows "unat ` ((word_of_nat :: nat \<Rightarrow> u64) ` (\<lambda>a. a div c) ` B) = (\<lambda>a. a div c) ` B"
proof -
  have "unat (word_of_nat (a div c) :: u64) = a div c" if "a \<in> B" for a
    using assms that by (intro unat_of_nat_u64) (auto intro: le_less_trans [OF div_le_dividend])
  then show ?thesis by (simp add: image_image)
qed

lemma blocks_length:
  assumes "distinct xs" "set xs = (word_of_nat :: nat \<Rightarrow> u64) ` (\<lambda>a. a div c) ` B" "\<forall>a\<in>B. a < (2 :: nat) ^ 64"
  shows "length xs = card ((\<lambda>a. a div c) ` B)"
proof -
  have "length xs = card (set xs)" using assms(1) by (simp add: distinct_card)
  then show ?thesis unfolding assms(2) using word_of_nat_lines_inj [OF assms(3)] by (simp only: card_image)
qed

lemma estimate_fields:
  assumes "width \<in> {1, 2, 4, 8, 16}" "bounded (2 ^ 64 - 127) (lane_ranges lanes)"
  obtains r where "global_estimate lanes width = Some r"
    "sorted (ge_sectors r)" "distinct (ge_sectors r)" "set (ge_sectors r) = word_of_nat ` (\<lambda>a. a div 32) ` warp_bytes lanes"
    "sorted (ge_lines r)" "distinct (ge_lines r)" "set (ge_lines r) = word_of_nat ` (\<lambda>a. a div 128) ` warp_bytes lanes"
    "ge_lane_requested_bytes r = sum_list (map snd (lane_ranges lanes))"
    "unat (ge_unique_useful_bytes r) = card (warp_bytes lanes)"
    "ge_duplicate_reuse_bytes r = over (ge_lane_requested_bytes r) (ge_unique_useful_bytes r)"
    "ge_sector_fetch_bytes r = word_of_nat (length (ge_sectors r)) * 32"
    "ge_line_fill_bytes r = word_of_nat (length (ge_lines r)) * 128"
    "ge_sector_overfetch_bytes r = over (ge_sector_fetch_bytes r) (ge_unique_useful_bytes r)"
    "ge_tag_bank_passes r = int (fullest_bank (ge_lines r))"
    "(ge_data_bank_passes r, ge_data_bank_conflicts r) = data_banks lanes"
proof -
  have b: "bounded (2 ^ 64) (lane_ranges lanes)" using assms(2) by (auto simp: bounded_def)
  let ?r = "fold (\<lambda>(l, la). add_lane l la) (enumerate 0 (take 32 lanes)) new_global_estimate"
  have lanes: "set (ge_sectors ?r) = word_of_nat ` (\<lambda>a. a div 32) ` warp_bytes lanes" "distinct (ge_sectors ?r)"
    "set (ge_lines ?r) = word_of_nat ` (\<lambda>a. a div 128) ` warp_bytes lanes" "distinct (ge_lines ?r)"
    "ge_lane_requested_bytes ?r = sum_list (map snd (lane_ranges lanes))"
    using add_lanes [of "enumerate 0 (take 32 lanes)" new_global_estimate] b
    unfolding lane_ranges_eq [symmetric] warp_bytes_def by (simp_all add: new_global_estimate_def Let_def)
  have w: "\<not> (width \<noteq> 1 \<and> width \<noteq> 2 \<and> width \<noteq> 4 \<and> width \<noteq> 8 \<and> width \<noteq> 16)" using assms(1) by auto
  have waves: "tag_waves ls = Some (int (fullest_bank ls))" for ls by (simp add: tag_waves_def wave_loop)
  have u: "unat (unique_bytes (lane_ranges lanes)) = card (warp_bytes lanes)"
    using unique_bytes_union [OF b] by (simp add: warp_bytes_def)
  obtain ps cs where banks: "data_banks lanes = (ps, cs)" by (cases "data_banks lanes")
  obtain r0 where r0: "r0 = ?r" by simp
  note lanes = lanes [folded r0]
  let ?u = "unique_bytes (lane_ranges lanes)"
  let ?e = "(byte_counters (r0\<lparr>ge_sectors := sort (ge_sectors r0), ge_lines := sort (ge_lines r0), ge_unique_useful_bytes := ?u\<rparr>))
      \<lparr>ge_data_bank_passes := ps, ge_data_bank_conflicts := cs, ge_tag_bank_passes := int (fullest_bank (sort (ge_lines r0)))\<rparr>"
  have "global_estimate lanes width = Some ?e"
    unfolding global_estimate_def if_not_P [OF w] Let_def r0 [symmetric] banks waves by (simp add: byte_counters_def Let_def)
  then show ?thesis
    by (rule that) (simp_all add: lanes u byte_counters_def Let_def kSectorBytes_def kLineBytes_def banks)
qed

lemma estimate_lists:
  assumes "width \<in> {1, 2, 4, 8, 16}" "bounded (2 ^ 64 - 127) (lane_ranges lanes)" "global_estimate lanes width = Some r"
  shows "length (ge_sectors r) = card ((\<lambda>a. a div 32) ` warp_bytes lanes) \<and>
    length (ge_lines r) = card ((\<lambda>a. a div 128) ` warp_bytes lanes) \<and>
    unat ` set (ge_sectors r) = (\<lambda>a. a div 32) ` warp_bytes lanes \<and>
    unat ` set (ge_lines r) = (\<lambda>a. a div 128) ` warp_bytes lanes"
proof -
  have bnd: "\<forall>a\<in>warp_bytes lanes. a < 2 ^ 64" using warp_bytes_bound [OF assms(2)] by fastforce
  show ?thesis
    by (rule estimate_fields [OF assms(1,2)])
      (use assms(3) blocks_length [OF _ _ bnd] block_set [OF bnd] in \<open>simp del: image_image\<close>)
qed

subsection \<open>Properties\<close>

text \<open>C35: The wave loop of the tag pipeline ends for every list of lines, after as many waves as the
  fullest of the four token banks has distinct lines.\<close>

theorem tag_waves_end:
  "tag_waves lines = Some (int (fullest_bank lines)) \<and> fullest_bank lines \<le> card (set lines)"
proof
  show "tag_waves lines = Some (int (fullest_bank lines))" by (simp add: tag_waves_def wave_loop)
  show "fullest_bank lines \<le> card (set lines)"
    unfolding fullest_bank_def by (rule Max.boundedI) (auto simp: in_bank_def intro: card_mono)
qed

text \<open>C36: For a valid width and lanes that end below the last line of the address space, the estimate exists
  and its counters are those of the set of bytes the lanes cover: the useful bytes are its size, the requested
  bytes are the useful and the duplicate ones, the fetched sectors and lines are exactly those the bytes lie in,
  and the useful bytes never exceed the sector bytes nor these the line bytes, so the efficiency is at most 1.\<close>

theorem estimate_accounts_bytes:
  assumes "width \<in> {1, 2, 4, 8, 16}" "bounded (2 ^ 64 - 127) (lane_ranges lanes)"
    and "(\<Sum>r\<leftarrow>lane_ranges lanes. unat (snd r)) < 2 ^ 64"
  shows "\<exists>r. global_estimate lanes width = Some r \<and>
    unat (ge_unique_useful_bytes r) = card (warp_bytes lanes) \<and>
    unat (ge_lane_requested_bytes r) = unat (ge_unique_useful_bytes r) + unat (ge_duplicate_reuse_bytes r) \<and>
    unat (ge_lane_requested_bytes r) = (\<Sum>r\<leftarrow>lane_ranges lanes. unat (snd r)) \<and>
    unat ` set (ge_sectors r) = (\<lambda>a. a div 32) ` warp_bytes lanes \<and> sorted (ge_sectors r) \<and> distinct (ge_sectors r) \<and>
    unat ` set (ge_lines r) = (\<lambda>a. a div 128) ` warp_bytes lanes \<and> sorted (ge_lines r) \<and> distinct (ge_lines r) \<and>
    unat (ge_sector_fetch_bytes r) = length (ge_sectors r) * 32 \<and> unat (ge_line_fill_bytes r) = length (ge_lines r) * 128 \<and>
    ge_unique_useful_bytes r \<le> ge_sector_fetch_bytes r \<and> ge_sector_fetch_bytes r \<le> ge_line_fill_bytes r"
proof -
  note bound = warp_bytes_bound [OF assms(2)]
  have b: "\<forall>a\<in>warp_bytes lanes. a < 2 ^ 64 - 128" using bound by fastforce
  obtain r where r: "global_estimate lanes width = Some r" "sorted (ge_sectors r)" "distinct (ge_sectors r)"
    "sorted (ge_lines r)" "distinct (ge_lines r)"
    "ge_lane_requested_bytes r = sum_list (map snd (lane_ranges lanes))"
    "unat (ge_unique_useful_bytes r) = card (warp_bytes lanes)"
    "ge_duplicate_reuse_bytes r = over (ge_lane_requested_bytes r) (ge_unique_useful_bytes r)"
    "ge_sector_fetch_bytes r = word_of_nat (length (ge_sectors r)) * 32"
    "ge_line_fill_bytes r = word_of_nat (length (ge_lines r)) * 128"
    by (rule estimate_fields [OF assms(1,2)]) blast
  note l = estimate_lists [OF assms(1,2) r(1)]
  have req: "unat (ge_lane_requested_bytes r) = (\<Sum>r\<leftarrow>lane_ranges lanes. unat (snd r))"
    unfolding r(6) using unat_sum_list [of "map snd (lane_ranges lanes)"] assms(3) by (simp add: comp_def)
  then have le: "ge_unique_useful_bytes r \<le> ge_lane_requested_bytes r"
    using card_warp_bytes [of lanes] r(7) by (simp add: word_le_nat_alt)
  then have dup: "unat (ge_lane_requested_bytes r) = unat (ge_unique_useful_bytes r) + unat (ge_duplicate_reuse_bytes r)"
    unfolding r(8) over_def by (auto simp: unat_sub word_le_nat_alt word_less_nat_alt)
  have fetch: "unat (ge_sector_fetch_bytes r) = length (ge_sectors r) * 32" "unat (ge_line_fill_bytes r) = length (ge_lines r) * 128"
    using card_div_bound [OF b, of 32] card_div_bound [OF b, of 128] l unfolding r(9,10)
    by (simp_all add: unat_word_ariths unat_of_nat)
  have "ge_unique_useful_bytes r \<le> ge_sector_fetch_bytes r" "ge_sector_fetch_bytes r \<le> ge_line_fill_bytes r"
    using card_blocks [of 32 "warp_bytes lanes"] sectors_in_lines [of "warp_bytes lanes"] l r(7) fetch
    by (simp_all add: word_le_nat_alt)
  then show ?thesis using r l req dup fetch by blast
qed

text \<open>Splitting every lane's range by lines leaves nothing to conflict: whatever the lanes access, the
  estimate reports one data-bank pass per line and no bank conflict.\<close>

theorem data_banks_never_conflict:
  assumes "width \<in> {1, 2, 4, 8, 16}" "bounded (2 ^ 64 - 127) (lane_ranges lanes)"
  shows "\<exists>r. global_estimate lanes width = Some r \<and> ge_data_bank_conflicts r = 0 \<and>
    ge_data_bank_passes r = int (length (ge_lines r)) \<and> ge_tag_bank_passes r = int (fullest_bank (ge_lines r))"
proof -
  obtain r where r: "global_estimate lanes width = Some r" "ge_tag_bank_passes r = int (fullest_bank (ge_lines r))"
    "(ge_data_bank_passes r, ge_data_bank_conflicts r) = data_banks lanes"
    by (rule estimate_fields [OF assms]) blast
  then show ?thesis using estimate_lists [OF assms r(1)] data_banks_lines [OF assms(2)] by simp
qed

subsection \<open>Instances\<close>

text \<open>Lane 0 reads four bytes across a line boundary, lane 1 the same four, lane 2 the first four.\<close>

definition demo_access_lanes :: "LaneAccess list" where
  "demo_access_lanes = map (\<lambda>b. \<lparr>la_lane = 0, la_base = b, la_len = 4, la_active = True\<rparr>) [126, 126, 0]"

lemma demo_ranges: "lane_ranges demo_access_lanes = [(126, 4), (126, 4), (0, 4)]"
  by (simp add: demo_access_lanes_def lane_ranges_def skipped_def)

lemma demo_bounded: "bounded (2 ^ 64 - 127) (lane_ranges demo_access_lanes)"
  by (simp add: demo_ranges) (simp add: bounded_def)

lemma demo_bytes: "warp_bytes demo_access_lanes = {126, 127, 128, 129, 0, 1, 2, 3}"
  by (auto simp: warp_bytes_def demo_ranges range_bytes_def)

theorem estimate_accounts_bytes_witness:
  "\<exists>r. global_estimate demo_access_lanes 4 = Some r \<and> unat (ge_lane_requested_bytes r) = 12 \<and>
     unat (ge_unique_useful_bytes r) = 8 \<and> unat ` set (ge_lines r) = {0, 1}"
  using estimate_accounts_bytes [of 4 demo_access_lanes] demo_bounded by (auto simp: demo_bytes demo_ranges)

theorem data_banks_never_conflict_witness:
  "\<exists>r. global_estimate demo_access_lanes 4 = Some r \<and> ge_data_bank_conflicts r = 0 \<and> ge_data_bank_passes r = int (length (ge_lines r))"
  using data_banks_never_conflict [of 4 demo_access_lanes] demo_bounded by auto

end
