(* ===== verification/L2_Events.thy ===== *)
theory L2_Events
  imports Mem_Record
begin

text \<open>
  The event-based L2 layer (\<open>semu/memory/l2_events.hpp\<close>, \<open>src/memory/l2_events.cpp\<close>): one
  request per 128-byte sector of a global access, queued by sector, and one completion per request
  in an order that is either by sector, SM and request or, with a seed, a shuffle. Then the two
  places of \<open>core.cpp\<close> that drive it: the single worker at the end of its run and the launch
  after its workers have joined. The shuffle draws from \<open>std::mt19937_64\<close> through
  \<open>std::uniform_int_distribution\<close>, whose algorithm the standard leaves open: the generator is an
  argument, a seeding function and a function that draws below a bound.
\<close>

record 'g Rng =
  rg_seed :: "u64 \<Rightarrow> 'g"
  rg_draw :: "nat \<Rightarrow> 'g \<Rightarrow> nat \<times> 'g"   \<comment> \<open>a draw from \<open>{0..n}\<close>\<close>

record L2Request =
  rq_request_id :: u64
  rq_parent_event_id :: u64
  rq_instruction :: u64
  rq_sm :: u32
  rq_subcore :: u32
  rq_cta :: u32
  rq_warp :: u32
  rq_pc :: u64
  rq_mnemonic :: string
  rq_request_kind :: string
  rq_sector :: u64
  rq_addr :: u64
  rq_len :: u64

record L2Completion =
  cp_completion_id :: u64
  cp_request_id :: u64
  cp_parent_event_id :: u64
  cp_sm :: u32
  cp_subcore :: u32
  cp_sector :: u64
  cp_completion_seq :: u64
  cp_tie_reason :: string

record 'g L2EventEngine =
  en_sm_count :: u32
  en_seed :: u64
  en_rng :: 'g
  en_request_id :: u64
  en_completion_id :: u64
  en_event_id :: u64
  en_pending :: "(u64, L2Request list) omap"
  en_sm_issue :: "(u32, u64) omap"
  en_events :: "MemoryEvent list"

definition first_seed :: "u64 \<Rightarrow> u64" where
  "first_seed seed = (if seed \<noteq> 0 then seed else 0x5eed)"

definition new_engine :: "'g Rng \<Rightarrow> u32 \<Rightarrow> u64 \<Rightarrow> 'g L2EventEngine" where
  "new_engine G sm_count seed =
     \<lparr>en_sm_count = (if sm_count > 0 then sm_count else 1), en_seed = seed, en_rng = rg_seed G (first_seed seed),
      en_request_id = 0, en_completion_id = 0, en_event_id = 0, en_pending = [], en_sm_issue = [], en_events = []\<rparr>"

definition reset_engine :: "'g Rng \<Rightarrow> 'g L2EventEngine \<Rightarrow> 'g L2EventEngine" where
  "reset_engine G en =
     en\<lparr>en_rng := rg_seed G (first_seed (en_seed en)), en_request_id := 0, en_completion_id := 0, en_event_id := 0,
        en_pending := [], en_sm_issue := [], en_events := []\<rparr>"

subsection \<open>Requests\<close>

definition l2_sectors :: "u64 \<Rightarrow> u64 \<Rightarrow> u64 list" where
  "l2_sectors addr len =
     fold (\<lambda>n ss. let sec = drop_bit 7 (addr + word_of_nat n) in if sec \<in> set ss then ss else ss @ [sec])
       [0..<unat len] []"

definition request_event :: "u64 list \<Rightarrow> u64 \<Rightarrow> L2Request \<Rightarrow> MemoryEvent" where
  "request_event sectors ev r =
     new_event\<lparr>me_kind := evL2Request, me_event_id := ev, me_request_id := rq_request_id r,
       me_parent_event_id := rq_parent_event_id r, me_instruction := rq_instruction r, me_sm := rq_sm r,
       me_subcore := rq_subcore r, me_cta := rq_cta r, me_warp := rq_warp r, me_pc := rq_pc r,
       me_mnemonic := rq_mnemonic r, me_request_kind := rq_request_kind r, me_sector := rq_sector r,
       me_sectors := sectors\<rparr>"

text \<open>One round of the loop over the sectors; \<open>r\<close> carries the members all requests share.\<close>

definition issue_sector :: "L2Request \<Rightarrow> u64 list \<Rightarrow> u64 \<Rightarrow> L2Request list \<times> 'g L2EventEngine \<Rightarrow>
    L2Request list \<times> 'g L2EventEngine" where
  "issue_sector r sectors sec st =
     (case st of (out, en) \<Rightarrow>
        let r = r\<lparr>rq_request_id := en_request_id en + 1, rq_sector := sec\<rparr>
        in (out @ [r],
            en\<lparr>en_request_id := en_request_id en + 1,
               en_pending := om_put sec (om_at [] (en_pending en) sec @ [r]) (en_pending en),
               en_event_id := en_event_id en + 1,
               en_events := en_events en @ [request_event sectors (en_event_id en + 1) r]\<rparr>))"

definition issue_global :: "u32 \<Rightarrow> u32 \<Rightarrow> u32 \<Rightarrow> u32 \<Rightarrow> u64 \<Rightarrow> u64 \<Rightarrow> u64 \<Rightarrow> string \<Rightarrow> string \<Rightarrow> u64 \<Rightarrow> u64 \<Rightarrow>
    'g L2EventEngine \<Rightarrow> L2Request list \<times> 'g L2EventEngine" where
  "issue_global sm subcore cta warp pc instruction parent mn kind addr len en =
     (let sectors = l2_sectors addr len;
          en = en\<lparr>en_sm_issue := om_put sm (om_at 0 (en_sm_issue en) sm + 1) (en_sm_issue en)\<rparr>;
          r = \<lparr>rq_request_id = 0, rq_parent_event_id = parent, rq_instruction = instruction, rq_sm = sm,
               rq_subcore = subcore, rq_cta = cta, rq_warp = warp, rq_pc = pc, rq_mnemonic = mn,
               rq_request_kind = kind, rq_sector = 0, rq_addr = addr, rq_len = len\<rparr>
      in fold (issue_sector r sectors) sectors ([], en))"

subsection \<open>Completions\<close>

definition swap :: "nat \<Rightarrow> nat \<Rightarrow> 'a list \<Rightarrow> 'a list" where
  "swap i j xs = xs[i := xs ! j, j := xs ! i]"

text \<open>\<open>for (i = size; i > 1; --i) swap(all[i - 1], all[d(rng)])\<close> with \<open>d\<close> uniform on \<open>{0..i - 1}\<close>.\<close>

fun shuffle :: "(nat \<Rightarrow> 'g \<Rightarrow> nat \<times> 'g) \<Rightarrow> nat \<Rightarrow> 'a list \<Rightarrow> 'g \<Rightarrow> 'a list \<times> 'g" where
  "shuffle dr 0 xs g = (xs, g)"
| "shuffle dr (Suc 0) xs g = (xs, g)"
| "shuffle dr (Suc (Suc i)) xs g = (case dr (Suc i) g of (j, g') \<Rightarrow> shuffle dr (Suc i) (swap (Suc i) j xs) g')"

definition request_order :: "L2Request \<Rightarrow> u64 \<times> u32 \<times> u64" where
  "request_order r = (rq_sector r, rq_sm r, rq_request_id r)"

definition service_order :: "'g Rng \<Rightarrow> 'g L2EventEngine \<Rightarrow> L2Request list \<times> 'g" where
  "service_order G en =
     (let reqs = concat (map snd (en_pending en))
      in if en_seed en \<noteq> 0 then shuffle (rg_draw G) (length reqs) reqs (en_rng en)
         else (sort_key request_order reqs, en_rng en))"

definition completion_of :: "u64 \<Rightarrow> nat \<Rightarrow> L2Request \<Rightarrow> L2Completion" where
  "completion_of cid n r =
     \<lparr>cp_completion_id = cid, cp_request_id = rq_request_id r, cp_parent_event_id = rq_parent_event_id r,
      cp_sm = rq_sm r, cp_subcore = rq_subcore r, cp_sector = rq_sector r, cp_completion_seq = word_of_nat n + 1,
      cp_tie_reason = ''sector'' @ show_u64 (rq_sector r) @ '':sm'' @ show_u32 (rq_sm r) @ '':seq'' @
        show_u64 (rq_request_id r)\<rparr>"

definition completion_event :: "u64 \<Rightarrow> L2Request \<Rightarrow> L2Completion \<Rightarrow> MemoryEvent" where
  "completion_event ev r c =
     new_event\<lparr>me_kind := evL2Completion, me_event_id := ev, me_request_id := rq_request_id r,
       me_parent_event_id := rq_parent_event_id r, me_instruction := rq_instruction r, me_sm := rq_sm r,
       me_subcore := rq_subcore r, me_cta := rq_cta r, me_warp := rq_warp r, me_pc := rq_pc r,
       me_mnemonic := rq_mnemonic r, me_request_kind := rq_request_kind r, me_sector := rq_sector r,
       me_issue_tick := cp_completion_seq c, me_tie_reason := cp_tie_reason c\<rparr>"

definition complete_one :: "L2Request \<Rightarrow> L2Completion list \<times> 'g L2EventEngine \<Rightarrow> L2Completion list \<times> 'g L2EventEngine" where
  "complete_one r st =
     (case st of (out, en) \<Rightarrow>
        let c = completion_of (en_completion_id en + 1) (length out) r
        in (out @ [c],
            en\<lparr>en_completion_id := en_completion_id en + 1, en_event_id := en_event_id en + 1,
               en_events := en_events en @ [completion_event (en_event_id en + 1) r c]\<rparr>))"

definition drain_completions :: "'g Rng \<Rightarrow> 'g L2EventEngine \<Rightarrow> L2Completion list \<times> 'g L2EventEngine" where
  "drain_completions G en =
     (case service_order G en of (reqs, g) \<Rightarrow>
        case fold complete_one reqs ([], en\<lparr>en_rng := g\<rparr>) of (out, en') \<Rightarrow> (out, en'\<lparr>en_pending := []\<rparr>))"

fun event_kind_code :: "MemoryEventKind \<Rightarrow> nat" where
  "event_kind_code evL1TexIssue = 0"
| "event_kind_code evTokenService = 1"
| "event_kind_code evL2Request = 2"
| "event_kind_code evL2Completion = 3"

definition l2_events_to_json :: "MemoryEvent list \<Rightarrow> string" where
  "l2_events_to_json evs = json_list (map (\<lambda>e. json_obj
     [json_field ''id'' (show_u64 (me_event_id e)), json_field ''kind'' (show_nat (event_kind_code (me_kind e))),
      json_field ''parent'' (show_u64 (me_parent_event_id e)), json_field ''sm'' (show_u32 (me_sm e)),
      json_field ''subcore'' (show_u32 (me_subcore e)), json_field ''sector'' (show_u64 (me_sector e)),
      json_field ''kind_name'' (json_str (me_request_kind e)), json_field ''mnemonic'' (json_str (me_mnemonic e)),
      json_field ''seq'' (show_u64 (me_issue_tick e)), json_field ''tie'' (json_str (me_tie_reason e))]) evs)"

subsection \<open>The launch\<close>

definition issue_descriptor :: "L2RequestDescriptor \<Rightarrow> 'g L2EventEngine \<Rightarrow> 'g L2EventEngine" where
  "issue_descriptor d en =
     snd (issue_global (l2_sm d) (l2_subcore d) (l2_cta d) (l2_warp d) (l2_pc d) (l2_ordinal d) 0 (l2_mnemonic d)
       (l2_request_kind d) (l2_addr d) (l2_len d) en)"

definition drive_engine :: "'g Rng \<Rightarrow> L2RequestDescriptor list \<Rightarrow> 'g L2EventEngine \<Rightarrow> MemoryEvent list \<times> 'g L2EventEngine" where
  "drive_engine G log en =
     (let en = snd (drain_completions G (fold issue_descriptor (order_l2_log log) en))
      in (en_events en, en\<lparr>en_events := []\<rparr>))"

text \<open>A worker that owns its engine appends the L2 events at the end of its run.\<close>

definition flush_l2_events :: "'g Rng \<Rightarrow> bool \<Rightarrow> Tracer \<Rightarrow> 'g L2EventEngine \<Rightarrow> Tracer \<times> 'g L2EventEngine" where
  "flush_l2_events G shared tr en =
     (if shared then (tr, en)
      else case drive_engine G (tr_l2_log tr) en of
             (evs, en') \<Rightarrow> (tr\<lparr>tr_l2_log := [], tr_events := tr_events tr @ evs\<rparr>, en'))"

text \<open>The launch concatenates the workers' logs and drives its engine, when the L2 mode asks for events.\<close>

definition merge_l2_logs :: "'g Rng \<Rightarrow> bool \<Rightarrow> L2RequestDescriptor list list \<Rightarrow> 'g L2EventEngine \<Rightarrow> MemoryEvent list" where
  "merge_l2_logs G enabled logs en = (if enabled then fst (drive_engine G (concat logs) en) else [])"

end
