(* ===== verification/Ieee_Float.thy ===== *)
theory Ieee_Float
  imports Semu_Prelude
begin

text \<open>
  IEC 60559 arithmetic, the meaning C++ gives to \<open>float\<close>, \<open>double\<close> and \<open>_Float16\<close> on the
  emulator's host under the dynamic rounding mode of \<open>fesetround\<close>. A format has \<open>ff_frac\<close>
  fraction bits and \<open>ff_exp\<close> exponent bits; a value is its bit pattern as a natural number; a
  finite magnitude is a multiple of the unit of the format, its smallest subnormal
  (\<open>mag_units\<close>). An operation computes its exact result and rounds it once; \<open>None\<close> is the NaN
  of an invalid operation, whose payload the program never looks at.
\<close>

subsection \<open>Formats and patterns\<close>

record FloatFmt =
  ff_frac :: nat
  ff_exp :: nat

definition binary16 :: FloatFmt where "binary16 = \<lparr>ff_frac = 10, ff_exp = 5\<rparr>"
definition bfloat16 :: FloatFmt where "bfloat16 = \<lparr>ff_frac = 7, ff_exp = 8\<rparr>"
definition binary32 :: FloatFmt where "binary32 = \<lparr>ff_frac = 23, ff_exp = 8\<rparr>"
definition binary64 :: FloatFmt where "binary64 = \<lparr>ff_frac = 52, ff_exp = 11\<rparr>"

lemmas format_defs = binary16_def bfloat16_def binary32_def binary64_def

definition ff_bias :: "FloatFmt \<Rightarrow> int" where
  "ff_bias f = 2 ^ (ff_exp f - 1) - 1"

definition ff_unit :: "FloatFmt \<Rightarrow> int" where
  "ff_unit f = 1 - ff_bias f - int (ff_frac f)"

definition ff_width :: "FloatFmt \<Rightarrow> nat" where
  "ff_width f = ff_frac f + ff_exp f"

definition inf_pat :: "FloatFmt \<Rightarrow> nat" where
  "inf_pat f = (2 ^ ff_exp f - 1) * 2 ^ ff_frac f"

definition fp_neg :: "FloatFmt \<Rightarrow> nat \<Rightarrow> bool" where
  "fp_neg f p \<longleftrightarrow> p \<ge> 2 ^ ff_width f"

definition fp_mag :: "FloatFmt \<Rightarrow> nat \<Rightarrow> nat" where
  "fp_mag f p = p mod 2 ^ ff_width f"

definition fp_nan :: "FloatFmt \<Rightarrow> nat \<Rightarrow> bool" where
  "fp_nan f p \<longleftrightarrow> fp_mag f p > inf_pat f"

definition fp_inf :: "FloatFmt \<Rightarrow> nat \<Rightarrow> bool" where
  "fp_inf f p \<longleftrightarrow> fp_mag f p = inf_pat f"

definition fp_finite :: "FloatFmt \<Rightarrow> nat \<Rightarrow> bool" where
  "fp_finite f p \<longleftrightarrow> fp_mag f p < inf_pat f"

definition mag_units :: "FloatFmt \<Rightarrow> nat \<Rightarrow> nat" where
  "mag_units f q =
     (if q < 2 ^ ff_frac f then q else (2 ^ ff_frac f + q mod 2 ^ ff_frac f) * 2 ^ (q div 2 ^ ff_frac f - 1))"

definition fp_units :: "FloatFmt \<Rightarrow> nat \<Rightarrow> int" where
  "fp_units f p = (if fp_neg f p then - int (mag_units f (fp_mag f p)) else int (mag_units f (fp_mag f p)))"

definition with_sign :: "FloatFmt \<Rightarrow> bool \<Rightarrow> nat \<Rightarrow> nat" where
  "with_sign f neg q = (if neg then 2 ^ ff_width f + q else q)"

subsection \<open>Rounding\<close>

datatype Rnd = kRn | kRm | kRp | kRz

fun bit_length :: "nat \<Rightarrow> nat" where
  "bit_length n = (if n = 0 then 0 else Suc (bit_length (n div 2)))"

declare bit_length.simps [simp del]

text \<open>Whether the quotient \<open>m\<close> with remainder \<open>rem\<close> out of \<open>den\<close> is incremented.\<close>

definition round_up :: "Rnd \<Rightarrow> bool \<Rightarrow> nat \<Rightarrow> nat \<Rightarrow> nat \<Rightarrow> bool" where
  "round_up rnd neg m rem den =
     (case rnd of
        kRn \<Rightarrow> 2 * rem > den \<or> (2 * rem = den \<and> odd m)
      | kRz \<Rightarrow> False
      | kRm \<Rightarrow> neg \<and> rem \<noteq> 0
      | kRp \<Rightarrow> \<not> neg \<and> rem \<noteq> 0)"

definition overflow_pat :: "FloatFmt \<Rightarrow> Rnd \<Rightarrow> bool \<Rightarrow> nat" where
  "overflow_pat f rnd neg =
     (if rnd = kRn \<or> (rnd = kRp \<and> \<not> neg) \<or> (rnd = kRm \<and> neg) then inf_pat f else inf_pat f - 1)"

text \<open>
  The magnitude \<open>M * 2 ^ k\<close> units, rounded: \<open>d\<close> is the exponent of the quantum, the distance
  between neighbouring patterns at that magnitude, so that the quotient and \<open>d\<close> add up to the
  pattern, also when the quotient carries into the next binade.
\<close>

definition shift_quotient :: "nat \<Rightarrow> int \<Rightarrow> nat \<times> nat \<times> nat" where
  "shift_quotient M s =
     (if s \<ge> 0 then (M * 2 ^ nat s, 0, 1) else (M div 2 ^ nat (- s), M mod 2 ^ nat (- s), 2 ^ nat (- s)))"

definition quantum_exp :: "FloatFmt \<Rightarrow> nat \<Rightarrow> int \<Rightarrow> nat" where
  "quantum_exp f M k = nat (int (bit_length M) - 1 + k - int (ff_frac f))"

definition round_mag :: "FloatFmt \<Rightarrow> Rnd \<Rightarrow> bool \<Rightarrow> nat \<Rightarrow> int \<Rightarrow> nat" where
  "round_mag f rnd neg M k =
     (if M = 0 then 0
      else
        let d = quantum_exp f M k
        in case shift_quotient M (k - int d) of
             (m, rem, den) \<Rightarrow>
               let q = (if round_up rnd neg m rem den then m + 1 else m) + d * 2 ^ ff_frac f
               in if q \<ge> inf_pat f then overflow_pat f rnd neg else q)"

text \<open>An exact value \<open>v * 2 ^ e\<close> rounded to \<open>f\<close>; \<open>zneg\<close> is the sign of an exact zero.\<close>

definition fp_round :: "FloatFmt \<Rightarrow> Rnd \<Rightarrow> bool \<Rightarrow> int \<Rightarrow> int \<Rightarrow> nat" where
  "fp_round f rnd zneg v e =
     (let neg = (if v = 0 then zneg else v < 0)
      in with_sign f neg (round_mag f rnd neg (nat \<bar>v\<bar>) (e - ff_unit f)))"

subsection \<open>Arithmetic\<close>

text \<open>The sign of an exact zero sum of operands with the given signs.\<close>

definition zero_sum_neg :: "Rnd \<Rightarrow> bool \<Rightarrow> bool \<Rightarrow> bool" where
  "zero_sum_neg rnd s t = (if s = t then s else rnd = kRm)"

definition fp_add :: "FloatFmt \<Rightarrow> Rnd \<Rightarrow> nat \<Rightarrow> nat \<Rightarrow> nat option" where
  "fp_add f rnd a b =
     (if fp_nan f a \<or> fp_nan f b then None
      else if fp_inf f a then if fp_inf f b \<and> fp_neg f a \<noteq> fp_neg f b then None else Some a
      else if fp_inf f b then Some b
      else Some (fp_round f rnd (zero_sum_neg rnd (fp_neg f a) (fp_neg f b)) (fp_units f a + fp_units f b) (ff_unit f)))"

definition fp_mul :: "FloatFmt \<Rightarrow> Rnd \<Rightarrow> nat \<Rightarrow> nat \<Rightarrow> nat option" where
  "fp_mul f rnd a b =
     (let s = (fp_neg f a \<noteq> fp_neg f b)
      in if fp_nan f a \<or> fp_nan f b then None
         else if fp_inf f a \<or> fp_inf f b then
           if fp_mag f a = 0 \<or> fp_mag f b = 0 then None else Some (with_sign f s (inf_pat f))
         else Some (fp_round f rnd s (fp_units f a * fp_units f b) (2 * ff_unit f)))"

definition fp_fma :: "FloatFmt \<Rightarrow> Rnd \<Rightarrow> nat \<Rightarrow> nat \<Rightarrow> nat \<Rightarrow> nat option" where
  "fp_fma f rnd a b c =
     (let s = (fp_neg f a \<noteq> fp_neg f b)
      in if fp_nan f a \<or> fp_nan f b \<or> fp_nan f c then None
         else if fp_inf f a \<or> fp_inf f b then
           if fp_mag f a = 0 \<or> fp_mag f b = 0 \<or> (fp_inf f c \<and> fp_neg f c \<noteq> s) then None
           else Some (with_sign f s (inf_pat f))
         else if fp_inf f c then Some c
         else Some (fp_round f rnd (zero_sum_neg rnd s (fp_neg f c))
           (fp_units f a * fp_units f b + fp_units f c * 2 ^ nat (- ff_unit f)) (2 * ff_unit f)))"

subsection \<open>Conversions and comparisons\<close>

text \<open>A pattern that is not a NaN, converted; an infinity stays one.\<close>

definition fp_convert :: "FloatFmt \<Rightarrow> FloatFmt \<Rightarrow> Rnd \<Rightarrow> nat \<Rightarrow> nat" where
  "fp_convert f g rnd p =
     (if fp_inf f p then with_sign g (fp_neg f p) (inf_pat g)
      else fp_round g rnd (fp_neg f p) (fp_units f p) (ff_unit f))"

definition fp_of_int :: "FloatFmt \<Rightarrow> Rnd \<Rightarrow> int \<Rightarrow> nat" where
  "fp_of_int f rnd v = fp_round f rnd False v 0"

text \<open>A total order on the patterns that are not NaN: both zeros are 0, infinities are the ends.\<close>

definition fp_key :: "FloatFmt \<Rightarrow> nat \<Rightarrow> int" where
  "fp_key f p = (if fp_neg f p then - int (fp_mag f p) else int (fp_mag f p))"

text \<open>The integer a finite value is rounded to.\<close>

definition fp_to_int :: "FloatFmt \<Rightarrow> Rnd \<Rightarrow> nat \<Rightarrow> int" where
  "fp_to_int f rnd p =
     (let neg = fp_neg f p
      in case shift_quotient (mag_units f (fp_mag f p)) (ff_unit f) of
           (m, rem, den) \<Rightarrow>
             let i = int (if round_up rnd neg m rem den then m + 1 else m) in if neg then - i else i)"

end
