(* ===== verification/Fp.thy ===== *)
theory Fp
  imports Ieee_Float "HOL-Library.While_Combinator"
begin

text \<open>
  The floating-point leaf operations (\<open>semu/fp/fp.hpp\<close>, \<open>src/fp/fp.cpp\<close>): arithmetic on FP32
  and FP64 patterns under a rounding mode with flushing and saturation, and the conversions. The
  arithmetic of \<open>float\<close> and \<open>double\<close> and their casts are those of \<open>Ieee_Float\<close>; the narrowing
  conversions are the bit manipulations of the code. A SASS format code is a number.
\<close>

subsection \<open>Constants and classification\<close>

definition kCanonicalNan32 :: u32 where "kCanonicalNan32 = 0x7fffffff"
definition kF32ExpMask :: u32 where "kF32ExpMask = 0x7f800000"
definition kF32FracMask :: u32 where "kF32FracMask = 0x007fffff"
definition kF64ExpMask :: u64 where "kF64ExpMask = 0x7ff0000000000000"
definition kF64FracMask :: u64 where "kF64FracMask = 0x000fffffffffffff"

abbreviation nan32 :: "u32 \<Rightarrow> bool" where "nan32 a \<equiv> fp_nan binary32 (unat a)"
abbreviation nan64 :: "u64 \<Rightarrow> bool" where "nan64 a \<equiv> fp_nan binary64 (unat a)"
abbreviation key32 :: "u32 \<Rightarrow> int" where "key32 a \<equiv> fp_key binary32 (unat a)"
abbreviation key64 :: "u64 \<Rightarrow> int" where "key64 a \<equiv> fp_key binary64 (unat a)"

definition subnormal32 :: "u32 \<Rightarrow> bool" where
  "subnormal32 b \<longleftrightarrow> b AND kF32ExpMask = 0 \<and> b AND kF32FracMask \<noteq> 0"

definition flush_f32 :: "u32 \<Rightarrow> u32" where
  "flush_f32 b = (if b AND kF32ExpMask = 0 \<and> b AND kF32FracMask \<noteq> 0 then b AND 0x80000000 else b)"

definition flush_f64 :: "u64 \<Rightarrow> u64" where
  "flush_f64 b = (if b AND kF64ExpMask = 0 \<and> b AND kF64FracMask \<noteq> 0 then b AND 0x8000000000000000 else b)"

text \<open>The constants 0.0 and 1.0 have the patterns 0 and \<open>0x3f800000\<close>.\<close>

definition sat_f32 :: "u32 \<Rightarrow> u32" where
  "sat_f32 b =
     (if nan32 b then 0
      else if key32 b = 0 then 0
      else if key32 b < 0 then 0
      else if key32 b > key32 0x3f800000 then 0x3f800000
      else b)"

definition sat_f64 :: "u64 \<Rightarrow> u64" where
  "sat_f64 b =
     (if nan64 b then 0
      else if key64 b = 0 then 0
      else if key64 b < 0 then 0
      else if key64 b > key64 0x3ff0000000000000 then 0x3ff0000000000000
      else b)"

subsection \<open>FP32 arithmetic\<close>

text \<open>The pattern of a result: the canonical NaN for a NaN, then the output flush and the clamp.\<close>

definition finish32 :: "bool \<Rightarrow> bool \<Rightarrow> nat option \<Rightarrow> u32" where
  "finish32 flush sat r =
     (let out = (case r of None \<Rightarrow> kCanonicalNan32 | Some p \<Rightarrow> word_of_nat p);
          out = (if flush then flush_f32 out else out)
      in if sat then sat_f32 out else out)"

definition fadd :: "u32 \<Rightarrow> u32 \<Rightarrow> Rnd \<Rightarrow> bool \<Rightarrow> bool \<Rightarrow> u32" where
  "fadd a b rnd flush sat =
     (let a = (if flush then flush_f32 a else a); b = (if flush then flush_f32 b else b)
      in if nan32 a \<or> nan32 b then (if sat then 0 else kCanonicalNan32)
         else finish32 flush sat (fp_add binary32 rnd (unat a) (unat b)))"

definition fmul :: "u32 \<Rightarrow> u32 \<Rightarrow> Rnd \<Rightarrow> bool \<Rightarrow> bool \<Rightarrow> u32" where
  "fmul a b rnd flush sat =
     (let a = (if flush then flush_f32 a else a); b = (if flush then flush_f32 b else b)
      in if nan32 a \<or> nan32 b then (if sat then 0 else kCanonicalNan32)
         else finish32 flush sat (fp_mul binary32 rnd (unat a) (unat b)))"

definition ffma :: "u32 \<Rightarrow> u32 \<Rightarrow> u32 \<Rightarrow> Rnd \<Rightarrow> int \<Rightarrow> bool \<Rightarrow> u32" where
  "ffma a b c rnd fmz sat =
     (let a' = (if fmz = 2 then flush_f32 a else if fmz = 1 \<and> subnormal32 a then 0 else a);
          b' = (if fmz = 2 then flush_f32 b else if fmz = 1 \<and> subnormal32 b then 0 else b);
          c' = (if fmz = 2 \<or> fmz = 1 then flush_f32 c else c)
      in if nan32 a' \<or> nan32 b' \<or> nan32 c' then (if sat then 0 else kCanonicalNan32)
         else if fmz = 1 \<and> (a' AND 0x7fffffff = 0 \<or> b' AND 0x7fffffff = 0) \<and> c' AND 0x7fffffff = 0 then
           (let out = (if rnd = kRm then c' AND 0x80000000 else 0) in if sat then sat_f32 out else out)
         else
           let out = (case fp_fma binary32 rnd (unat a') (unat b') (unat c') of
                        None \<Rightarrow> kCanonicalNan32 | Some p \<Rightarrow> word_of_nat p);
               out = (if fmz \<noteq> 0 \<and> out AND kF32ExpMask = 0 \<and> out AND kF32FracMask \<noteq> 0 then out AND 0x80000000 else out)
           in if sat then sat_f32 out else out)"

subsection \<open>FP64 arithmetic\<close>

definition pick_nan64 :: "u64 \<Rightarrow> u64 \<Rightarrow> u64 \<Rightarrow> u64" where
  "pick_nan64 a b c = (if nan64 c then c else if nan64 b then b else if nan64 a then a else a)"

definition finish64 :: "bool \<Rightarrow> u64 \<Rightarrow> nat option \<Rightarrow> u64" where
  "finish64 sat nan r =
     (let out = (case r of None \<Rightarrow> nan | Some p \<Rightarrow> word_of_nat p) in if sat then sat_f64 out else out)"

definition fadd64 :: "u64 \<Rightarrow> u64 \<Rightarrow> Rnd \<Rightarrow> bool \<Rightarrow> u64" where
  "fadd64 a b rnd sat =
     (if nan64 a \<or> nan64 b then (if sat then 0 else pick_nan64 a b 0)
      else finish64 sat (pick_nan64 a b 0) (fp_add binary64 rnd (unat a) (unat b)))"

definition fmul64 :: "u64 \<Rightarrow> u64 \<Rightarrow> Rnd \<Rightarrow> bool \<Rightarrow> u64" where
  "fmul64 a b rnd sat =
     (if nan64 a \<or> nan64 b then (if sat then 0 else pick_nan64 a b 0)
      else finish64 sat (pick_nan64 a b 0) (fp_mul binary64 rnd (unat a) (unat b)))"

definition fma64 :: "u64 \<Rightarrow> u64 \<Rightarrow> u64 \<Rightarrow> Rnd \<Rightarrow> bool \<Rightarrow> u64" where
  "fma64 a b c rnd sat =
     (if nan64 a \<or> nan64 b \<or> nan64 c then (if sat then 0 else pick_nan64 a b c)
      else finish64 sat (pick_nan64 a b c) (fp_fma binary64 rnd (unat a) (unat b) (unat c)))"

subsection \<open>FP32 and FP16\<close>

definition f16_round_up :: "Rnd \<Rightarrow> bool \<Rightarrow> u32 \<Rightarrow> u32 \<Rightarrow> bool \<Rightarrow> bool" where
  "f16_round_up rnd negative rem half retained_odd =
     (case rnd of
        kRn \<Rightarrow> rem > half \<or> (rem = half \<and> retained_odd)
      | kRz \<Rightarrow> False
      | kRm \<Rightarrow> negative \<and> rem \<noteq> 0
      | kRp \<Rightarrow> \<not> negative \<and> rem \<noteq> 0)"

definition f16_overflow :: "Rnd \<Rightarrow> bool \<Rightarrow> u32 \<Rightarrow> u16" where
  "f16_overflow rnd negative sign =
     (let to_inf = (rnd = kRn \<or> (rnd = kRp \<and> \<not> negative) \<or> (rnd = kRm \<and> negative))
      in ucast (sign OR (if to_inf then 0x7c00 else 0x7bff)))"

definition f16_normal :: "Rnd \<Rightarrow> bool \<Rightarrow> u32 \<Rightarrow> u32 \<Rightarrow> int \<Rightarrow> u16" where
  "f16_normal rnd negative sign M ef =
     (let shift = 23 - 10;
          retained = drop_bit shift M;
          rem = M AND (push_bit shift 1 - 1)
      in if f16_round_up rnd negative rem (push_bit (shift - 1) 1) (retained AND 1 \<noteq> 0) then
           let retained = retained + 1
           in if retained = 0x800 then
                if ef + 1 \<ge> 31 then f16_overflow rnd negative sign
                else ucast (sign OR push_bit 10 (word_of_int (ef + 1)))
              else ucast (sign OR push_bit 10 (word_of_int ef) OR (retained AND 0x3ff))
         else ucast (sign OR push_bit 10 (word_of_int ef) OR (retained AND 0x3ff)))"

definition f16_subnormal :: "Rnd \<Rightarrow> bool \<Rightarrow> u32 \<Rightarrow> u32 \<Rightarrow> int \<Rightarrow> u16" where
  "f16_subnormal rnd negative sign M E =
     (let sh = 126 - E;
          retained = (if sh \<ge> 24 then 0 else drop_bit (nat sh) M);
          rem = (if sh \<ge> 24 then M else M AND (push_bit (nat sh) 1 - 1));
          carry = (if rnd = kRn then
                     (if sh \<le> 25 then f16_round_up rnd negative rem (push_bit (nat (sh - 1)) 1) (retained AND 1 \<noteq> 0)
                      else False)
                   else f16_round_up rnd negative rem 0 (retained AND 1 \<noteq> 0));
          retained = (if carry then retained + 1 else retained)
      in if retained = 1024 then ucast (sign OR 0x400) else ucast (sign OR retained))"

definition f32_to_f16 :: "u32 \<Rightarrow> Rnd \<Rightarrow> bool \<Rightarrow> u16" where
  "f32_to_f16 bits rnd ftz =
     (let bits = (if ftz then flush_f32 bits else bits);
          sign = drop_bit 16 (bits AND 0x80000000);
          ex = drop_bit 23 bits AND 0xff;
          frc = bits AND 0x7fffff;
          negative = (sign \<noteq> 0)
      in if ex = 0xff then (if frc \<noteq> 0 then ucast (sign OR 0x7e00) else ucast (sign OR 0x7c00))
         else if ex = 0 \<and> frc = 0 then ucast sign
         else
           let M = (if ex \<noteq> 0 then 0x800000 OR frc else frc);
               E = uint ex;
               ef = E - 112
           in if ef \<ge> 31 then f16_overflow rnd negative sign
              else if ef \<ge> 1 then f16_normal rnd negative sign M ef
              else f16_subnormal rnd negative sign M E)"

definition half_shift :: "u32 \<times> int \<Rightarrow> u32 \<times> int" where
  "half_shift = (\<lambda>(m, e). (push_bit 1 m, e - 1))"

definition f16_to_f32 :: "u16 \<Rightarrow> u32" where
  "f16_to_f32 half =
     (let h = ucast half;
          sign = push_bit 16 (h AND 0x8000);
          ex = drop_bit 10 h AND 0x1f;
          frc = h AND 0x3ff
      in if ex = 0x1f then (if frc \<noteq> 0 then kCanonicalNan32 else sign OR 0x7f800000)
         else if ex = 0 then
           if frc = 0 then sign
           else
             (case while (\<lambda>(m, e). m AND 0x400 = 0) half_shift (frc, -14) of
                (m, e) \<Rightarrow>
                  let m = m AND 0x3ff; f32exp = word_of_int (e + 127)
                  in sign OR push_bit 23 f32exp OR push_bit 13 m)
         else sign OR push_bit 23 (ex + 112) OR push_bit 13 frc)"

definition f32_to_bf16 :: "u32 \<Rightarrow> Rnd \<Rightarrow> bool \<Rightarrow> u32" where
  "f32_to_bf16 bits rnd ftz =
     (let bits = (if ftz then flush_f32 bits else bits);
          lower = bits AND 0xffff;
          hi = drop_bit 16 bits;
          halfway = 0x8000;
          sign = (bits AND 0x80000000 \<noteq> 0);
          hi = (case rnd of
                  kRn \<Rightarrow> if lower > halfway \<or> (lower = halfway \<and> hi AND 1 \<noteq> 0) then drop_bit 16 (bits + 0x8000) else hi
                | kRz \<Rightarrow> hi
                | kRm \<Rightarrow> if sign \<and> lower \<noteq> 0 then hi + 1 else hi
                | kRp \<Rightarrow> if \<not> sign \<and> lower \<noteq> 0 then hi + 1 else hi)
      in if hi > 0x7f800000 then 0x7f800000 else hi)"

subsection \<open>Conversions by format code\<close>

definition kFmtF16 :: int where "kFmtF16 = 0"
definition kFmtF32 :: int where "kFmtF32 = 1"
definition kFmtF64 :: int where "kFmtF64 = 2"
definition kFmtBf16 :: int where "kFmtBf16 = 3"
definition kFmtU32 :: int where "kFmtU32 = 4"
definition kFmtS32 :: int where "kFmtS32 = 5"
definition kFmtU16 :: int where "kFmtU16 = 6"
definition kFmtS16 :: int where "kFmtS16 = 7"
definition kFmtU8 :: int where "kFmtU8 = 8"
definition kFmtS8 :: int where "kFmtS8 = 9"

lemmas fmt_defs = kFmtF16_def kFmtF32_def kFmtF64_def kFmtBf16_def kFmtU32_def kFmtS32_def
  kFmtU16_def kFmtS16_def kFmtU8_def kFmtS8_def

text \<open>
  \<open>static_cast<double>\<close> of a float is exact; which NaN the cast of a NaN yields is left to the
  implementation and is the argument \<open>nan\<close>.
\<close>

definition double_of_float :: "(u32 \<Rightarrow> u64) \<Rightarrow> u32 \<Rightarrow> u64" where
  "double_of_float nan b = (if nan32 b then nan b else word_of_nat (fp_convert binary32 binary64 kRn (unat b)))"

definition bf16_to_f32 :: "u32 \<Rightarrow> u32" where
  "bf16_to_f32 src =
     (let bf = src AND 0xffff; ex = drop_bit 7 bf AND 0xff
      in if ex = 0xff then
           (if bf AND 0x7f \<noteq> 0 then kCanonicalNan32 else if bf AND 0x8000 \<noteq> 0 then 0xff800000 else 0x7f800000)
         else push_bit 16 bf)"

definition f2f :: "(u32 \<Rightarrow> u64) \<Rightarrow> u32 \<Rightarrow> int \<Rightarrow> int \<Rightarrow> Rnd \<Rightarrow> bool \<Rightarrow> bool \<Rightarrow> u32" where
  "f2f nan src dstfmt srcfmt rnd ftz sat =
     (if srcfmt = kFmtF32 \<and> dstfmt = kFmtF32 then
        let r = (if ftz then flush_f32 src else src) in if sat then sat_f32 r else r
      else if srcfmt = kFmtF32 \<and> dstfmt = kFmtF64 then
        ucast (drop_bit 32 (double_of_float nan (if ftz then flush_f32 src else src)))
      else if srcfmt = kFmtF32 \<and> dstfmt = kFmtF16 then ucast (f32_to_f16 src rnd ftz)
      else if srcfmt = kFmtF32 \<and> dstfmt = kFmtBf16 then f32_to_bf16 src rnd ftz
      else if srcfmt = kFmtF16 \<and> dstfmt = kFmtF32 then f16_to_f32 (ucast (src AND 0xffff))
      else if srcfmt = kFmtBf16 \<and> dstfmt = kFmtF32 then bf16_to_f32 src
      else if srcfmt = kFmtF16 \<and> dstfmt = kFmtF16 then src AND 0xffff
      else if srcfmt = kFmtBf16 \<and> dstfmt = kFmtBf16 then src AND 0xffff0000
      else 0x7fc00000)"

definition f2f64 :: "(u32 \<Rightarrow> u64) \<Rightarrow> u32 \<Rightarrow> int \<Rightarrow> bool \<Rightarrow> bool \<Rightarrow> u64" where
  "f2f64 nan src srcfmt ftz sat =
     (let f32 = (if srcfmt = kFmtF16 then f16_to_f32 (ucast (src AND 0xffff))
                 else if srcfmt = kFmtBf16 then src AND 0xffff0000 else src);
          out = double_of_float nan (if ftz then flush_f32 f32 else f32)
      in if sat then sat_f64 out else out)"

subsection \<open>Integers\<close>

definition int_source :: "int \<Rightarrow> u64 \<Rightarrow> int" where
  "int_source srcfmt src =
     (if srcfmt = kFmtU32 then uint (ucast src :: u32)
      else if srcfmt = kFmtS32 then sint (ucast src :: u32)
      else if srcfmt = kFmtU16 then uint (ucast src :: u16)
      else if srcfmt = kFmtS16 then sint (ucast src :: u16)
      else if srcfmt = kFmtU8 then uint (ucast src :: u8)
      else if srcfmt = kFmtS8 then sint (ucast src :: u8)
      else uint (ucast src :: u32))"

definition i2f :: "u64 \<Rightarrow> int \<Rightarrow> int \<Rightarrow> Rnd \<Rightarrow> bool \<Rightarrow> u64" where
  "i2f src dstfmt srcfmt rnd sat =
     (let dv = fp_of_int binary64 rnd (int_source srcfmt src);
          f32 = word_of_nat (fp_convert binary64 binary32 rnd dv) :: u32
      in if dstfmt = kFmtF64 then
           let out = word_of_nat dv in if sat then sat_f64 out else out
         else if dstfmt = kFmtF16 then ucast (f32_to_f16 f32 rnd False)
         else if dstfmt = kFmtBf16 then ucast (f32_to_bf16 f32 rnd False)
         else ucast (if sat then sat_f32 f32 else f32))"

text \<open>\<open>std::clamp\<close> on patterns that are not NaN.\<close>

definition clamp64 :: "nat \<Rightarrow> nat \<Rightarrow> nat \<Rightarrow> nat" where
  "clamp64 d lo hi =
     (if fp_key binary64 d < fp_key binary64 lo then lo
      else if fp_key binary64 hi < fp_key binary64 d then hi
      else d)"

definition f2i :: "u32 \<Rightarrow> int \<Rightarrow> Rnd \<Rightarrow> bool \<Rightarrow> u64" where
  "f2i src dstfmt rnd ftz =
     (let src = (if ftz then flush_f32 src else src); f = unat src
      in if nan32 src then 0x80000000
         else if fp_inf binary32 f then
           if key32 src > 0 then (if dstfmt = kFmtU32 then 0xffffffff else 0x7fffffff)
           else (if dstfmt = kFmtU32 then 0 else 0x80000000)
         else
           let d = fp_convert binary32 binary64 rnd f;
               d = (if dstfmt = kFmtS32 \<or> dstfmt = kFmtS16 \<or> dstfmt = kFmtS8
                    then clamp64 d 0xC1E0000000000000 0x41DFFFFFFFC00000
                    else clamp64 d 0 0x41EFFFFFFFE00000);
               iv = fp_to_int binary64 rnd d
           in if dstfmt = kFmtU32 \<and> iv < 0 then 0
              else if dstfmt = kFmtU32 \<and> iv > 0xffffffff then 0xffffffff
              else if dstfmt = kFmtS32 \<and> iv > 0x7fffffff then 0x7fffffff
              else if dstfmt = kFmtS32 \<and> iv < - 0x80000000 then 0x80000000
              else if dstfmt = kFmtU32 then ucast (word_of_int iv :: u32)
              else if dstfmt = kFmtS32 then ucast (word_of_int iv :: u32)
              else if dstfmt = kFmtU16 then ucast (word_of_int iv :: u16)
              else if dstfmt = kFmtS16 then ucast (word_of_int iv :: u16)
              else if dstfmt = kFmtU8 then ucast (word_of_int iv :: u8)
              else if dstfmt = kFmtS8 then ucast (word_of_int iv :: u8)
              else ucast (word_of_int iv :: u32))"

subsection \<open>FP64 to the narrow formats\<close>

definition dr_frac_bits :: "int \<Rightarrow> nat" where
  "dr_frac_bits fmt = (if fmt = 0 then 10 else if fmt = 2 then 7 else 23)"

definition dr_bias :: "int \<Rightarrow> int" where
  "dr_bias fmt = (if fmt = 0 then 15 else 127)"

definition dr_max_exp :: "int \<Rightarrow> int" where
  "dr_max_exp fmt = push_bit (if fmt = 0 then 5 else 8) 1 - 1"

definition dr_sub_unit :: "int \<Rightarrow> int" where
  "dr_sub_unit fmt = 1 - dr_bias fmt - int (dr_frac_bits fmt)"

definition dr_sign_bit :: "int \<Rightarrow> bool \<Rightarrow> u32" where
  "dr_sign_bit fmt negative = (if negative then if fmt = 1 then 0x80000000 else 0x8000 else 0)"

definition dr_exp_field :: "int \<Rightarrow> int \<Rightarrow> u32" where
  "dr_exp_field fmt e = push_bit (dr_frac_bits fmt) (word_of_int e)"

definition dr_sat_final :: "int \<Rightarrow> bool \<Rightarrow> u32 \<Rightarrow> u32" where
  "dr_sat_final fmt sat out = (if \<not> sat \<or> fmt \<noteq> 1 then out else sat_f32 out)"

definition dr_overflow :: "int \<Rightarrow> Rnd \<Rightarrow> bool \<Rightarrow> bool \<Rightarrow> u32" where
  "dr_overflow fmt rnd sat negative =
     (if sat \<and> fmt = 1 then (if negative then 0 else 0x3f800000)
      else
        let to_inf = (rnd = kRn \<or> (rnd = kRp \<and> \<not> negative) \<or> (rnd = kRm \<and> negative));
            inf = dr_sign_bit fmt negative OR dr_exp_field fmt (dr_max_exp fmt);
            maxf = dr_sign_bit fmt negative OR dr_exp_field fmt (dr_max_exp fmt - 1) OR (push_bit (dr_frac_bits fmt) 1 - 1)
        in if to_inf then inf else maxf)"

definition dr_special :: "int \<Rightarrow> bool \<Rightarrow> bool \<Rightarrow> u64 \<Rightarrow> u32" where
  "dr_special fmt sat negative frc =
     (if frc \<noteq> 0 then
        if fmt = 1 then
          let out = dr_sign_bit fmt negative OR 0x7f800000 OR (ucast (drop_bit 29 frc) OR 0x400000)
          in if sat then 0 else out
        else dr_sign_bit fmt negative OR dr_exp_field fmt (dr_max_exp fmt) OR push_bit (dr_frac_bits fmt - 1) 1
      else if sat \<and> fmt = 1 then (if negative then 0 else 0x3f800000)
      else dr_sign_bit fmt negative OR dr_exp_field fmt (dr_max_exp fmt))"

definition dr_carry :: "Rnd \<Rightarrow> bool \<Rightarrow> u64 \<Rightarrow> int \<Rightarrow> u64 \<Rightarrow> bool" where
  "dr_carry rnd negative rem shift m =
     (if rnd = kRn then
        if shift \<le> 0 then False
        else if shift \<ge> 64 then False
        else
          let half = push_bit (nat (shift - 1)) 1
          in rem > half \<or> (rem = half \<and> m AND 1 \<noteq> 0)
      else if rnd = kRz then False
      else if rnd = kRm then negative \<and> rem \<noteq> 0
      else \<not> negative \<and> rem \<noteq> 0)"

definition dr_normal :: "int \<Rightarrow> Rnd \<Rightarrow> bool \<Rightarrow> bool \<Rightarrow> u64 \<Rightarrow> int \<Rightarrow> u32" where
  "dr_normal fmt rnd sat negative M ef =
     (let fb = dr_frac_bits fmt;
          shift = 52 - fb;
          m = drop_bit shift M;
          rem = M AND (push_bit shift 1 - 1);
          up = dr_carry rnd negative rem (int shift) m;
          m = (if up then m + 1 else m)
      in if up \<and> m = push_bit (fb + 1) 1 then
           if ef + 1 \<ge> dr_max_exp fmt then dr_sat_final fmt sat (dr_overflow fmt rnd sat negative)
           else dr_sat_final fmt sat (dr_sign_bit fmt negative OR dr_exp_field fmt (ef + 1))
         else
           dr_sat_final fmt sat
             (dr_sign_bit fmt negative OR dr_exp_field fmt ef OR ucast (m AND ucast (push_bit fb 1 - 1 :: u32))))"

definition dr_subnormal :: "int \<Rightarrow> Rnd \<Rightarrow> bool \<Rightarrow> bool \<Rightarrow> bool \<Rightarrow> u64 \<Rightarrow> int \<Rightarrow> u32" where
  "dr_subnormal fmt rnd ftz sat negative M E =
     (let fb = dr_frac_bits fmt;
          m_shift = 1075 + dr_sub_unit fmt - E;
          (m, rem) = (if m_shift \<ge> 53 then (0, M)
                      else if m_shift > 0 then (drop_bit (nat m_shift) M, M AND (push_bit (nat m_shift) 1 - 1))
                      else (push_bit (nat (- m_shift)) M, 0));
          m = (if dr_carry rnd negative rem (if m_shift > 0 then m_shift else 0) m then m + 1 else m)
      in if m \<ge> push_bit fb 1 then dr_sat_final fmt sat (dr_sign_bit fmt negative OR push_bit fb 1)
         else
           let out = dr_sign_bit fmt negative OR ucast (m AND ucast (push_bit fb 1 - 1 :: u32));
               out = (if ftz \<and> out AND dr_exp_field fmt (dr_max_exp fmt) = 0
                      then if rnd = kRm then out AND (if fmt = 1 then 0x80000000 else 0x8000) else 0
                      else out)
           in dr_sat_final fmt sat out)"

definition f64_down_round :: "u64 \<Rightarrow> Rnd \<Rightarrow> int \<Rightarrow> bool \<Rightarrow> bool \<Rightarrow> u32" where
  "f64_down_round bits rnd fmt ftz sat =
     (let negative = (drop_bit 63 bits AND 1 \<noteq> 0);
          ex = uint (drop_bit 52 bits AND 0x7FF);
          frc = bits AND 0xFFFFFFFFFFFFF
      in if ex = 0x7FF then dr_special fmt sat negative frc
         else if ex = 0 \<and> frc = 0 then dr_sat_final fmt sat (dr_sign_bit fmt negative)
         else
           let M = (if ex \<noteq> 0 then push_bit 52 1 OR frc else frc);
               E = (if ex \<noteq> 0 then ex else 1);
               ef = E - 1023 + dr_bias fmt
           in if ef \<ge> dr_max_exp fmt then dr_overflow fmt rnd sat negative
              else if ef \<ge> 1 then dr_normal fmt rnd sat negative M ef
              else dr_subnormal fmt rnd ftz sat negative M E)"

definition f64_to_f32 :: "u64 \<Rightarrow> Rnd \<Rightarrow> bool \<Rightarrow> bool \<Rightarrow> u32" where
  "f64_to_f32 bits rnd ftz sat = f64_down_round bits rnd 1 ftz sat"

definition f64_to_f16 :: "u64 \<Rightarrow> Rnd \<Rightarrow> bool \<Rightarrow> bool \<Rightarrow> u32" where
  "f64_to_f16 bits rnd ftz sat = f64_down_round bits rnd 0 ftz sat"

definition f64_to_bf16 :: "u64 \<Rightarrow> Rnd \<Rightarrow> bool \<Rightarrow> bool \<Rightarrow> u32" where
  "f64_to_bf16 bits rnd ftz sat = f64_down_round bits rnd 2 ftz sat"

end
