(* ===== verification/Fp_Vector.thy ===== *)
theory Fp_Vector
  imports Warp_State Int_Vector Fp
begin

text \<open>
  The floating-point handlers of the sm120 interpreter
  (\<open>src/interpreter/baseline/sm120/fp_vector.cpp\<close>) in precise mode: FADD, FMUL, FFMA, DADD, DMUL,
  DFMA, FSETP, FSET, FMNMX, FSEL, F2F, I2F, F2I and FRND over the leaf operations of \<open>Fp\<close>. The
  fast mode, with its native leaves and its statistics, is left out. Where the variant class selects
  between structs, a datatype has one constructor per struct; a rounding modifier is a \<open>Rnd\<close>.
  \<open>std::nearbyint\<close> in FRND runs under the ambient mode, to nearest.
\<close>

text \<open>What the host makes of a NaN where the language leaves its payload open.\<close>

record NanImpl =
  ni_widen :: "u32 \<Rightarrow> u64"
  ni_integral :: "u32 \<Rightarrow> u32"

text \<open>
  The documented host, x86-64: widening keeps the sign and payload and makes the NaN quiet, rounding
  to an integer only makes it quiet.
\<close>

definition x86_nan :: NanImpl where
  "x86_nan = \<lparr>
     ni_widen = (\<lambda>a. push_bit 32 (ucast (a AND 0x80000000)) OR 0x7ff8000000000000 OR push_bit 29 (ucast (a AND 0x7fffff))),
     ni_integral = (\<lambda>a. a OR 0x00400000)\<rparr>"

subsection \<open>FP32 arithmetic\<close>

definition fp32_leaf :: "nat \<Rightarrow> Rnd \<Rightarrow> bool \<Rightarrow> bool \<Rightarrow> int \<Rightarrow> u32 \<Rightarrow> u32 \<Rightarrow> u32 \<Rightarrow> u32" where
  "fp32_leaf op rnd flush sat fmz_val a b c =
     (if op = 0 then fadd a b rnd flush sat
      else if op = 1 then fmul a b rnd flush sat
      else ffma a b c rnd fmz_val sat)"

definition fp32_arith_core :: "u32 \<Rightarrow> u64 \<Rightarrow> nat \<Rightarrow> Rnd \<Rightarrow> bool \<Rightarrow> bool \<Rightarrow> int \<Rightarrow> OperandValue \<Rightarrow> OperandValue \<Rightarrow>
    OperandValue option \<Rightarrow> WarpState \<Rightarrow> WarpState" where
  "fp32_arith_core m rd op rnd flush sat fmz_val opa opb opc w =
     each_lane m (\<lambda>lane t.
       let a = src_value w t opa;
           b = src_value w t opb;
           c = (if op = 2 then case opc of Some ov \<Rightarrow> src_value w t ov | None \<Rightarrow> 0 else 0)
       in put_gpr rd (fp32_leaf op rnd flush sat fmz_val a b c) t) w"

definition do_fadd :: "u32 \<Rightarrow> OperandValue \<Rightarrow> OperandValue \<Rightarrow> OperandValue \<Rightarrow> int \<Rightarrow> Rnd \<Rightarrow> int \<Rightarrow> WarpState \<Rightarrow> WarpState" where
  "do_fadd m rd ra c ftz rnd sat w =
     fp32_arith_core m (operand_value_as_i64 rd) 0 rnd (ftz \<noteq> 0) (sat \<noteq> 0) 0 ra c None w"

definition do_fmul :: "u32 \<Rightarrow> OperandValue \<Rightarrow> OperandValue \<Rightarrow> OperandValue \<Rightarrow> int \<Rightarrow> Rnd \<Rightarrow> int \<Rightarrow> WarpState \<Rightarrow> WarpState" where
  "do_fmul m rd ra b fmz rnd sat w =
     fp32_arith_core m (operand_value_as_i64 rd) 1 rnd (fmz \<noteq> 0) (sat \<noteq> 0) 0 ra b None w"

definition do_ffma :: "u32 \<Rightarrow> OperandValue \<Rightarrow> OperandValue \<Rightarrow> OperandValue \<Rightarrow> OperandValue \<Rightarrow> int \<Rightarrow> Rnd \<Rightarrow> int \<Rightarrow>
    WarpState \<Rightarrow> WarpState" where
  "do_ffma m rd ra b c fmz rnd sat w =
     fp32_arith_core m (operand_value_as_i64 rd) 2 rnd (fmz \<noteq> 0) (sat \<noteq> 0) fmz ra b (Some c) w"

subsection \<open>FP64 arithmetic\<close>

definition read_pair_at :: "ThreadState \<Rightarrow> nat option \<Rightarrow> u64" where
  "read_pair_at t idx =
     (case idx of
        None \<Rightarrow> 0
      | Some i \<Rightarrow> if i \<ge> 255 then 0 else ucast (t_gpr t ! i) OR push_bit 32 (ucast (t_gpr t ! (i + 1))))"

definition fp64_leaf :: "nat \<Rightarrow> Rnd \<Rightarrow> u64 \<Rightarrow> u64 \<Rightarrow> u64 \<Rightarrow> u64" where
  "fp64_leaf op rnd a b c =
     (if op = 0 then fadd64 a b rnd False
      else if op = 1 then fmul64 a b rnd False
      else fma64 a b c rnd False)"

definition fp64_arith_core :: "u32 \<Rightarrow> u64 \<Rightarrow> nat \<Rightarrow> Rnd \<Rightarrow> OperandValue \<Rightarrow> OperandValue \<Rightarrow> OperandValue option \<Rightarrow>
    WarpState \<Rightarrow> WarpState" where
  "fp64_arith_core m rd op rnd opa opb opc w =
     (let ra = bind_idx_ov opa;
          sb = bind_idx_ov opb;
          rc = (if op = 2 then case opc of Some ov \<Rightarrow> bind_idx_ov ov | None \<Rightarrow> None else None)
      in each_lane m (\<lambda>lane t.
           let out = fp64_leaf op rnd (read_pair_at t ra) (read_pair_at t sb) (read_pair_at t rc)
           in if rd \<noteq> 255 \<and> rd < 255
              then t\<lparr>t_gpr := (t_gpr t)[unat rd := ucast (out AND 0xffffffff), unat rd + 1 := ucast (drop_bit 32 out)]\<rparr>
              else t) w)"

definition do_dadd :: "u32 \<Rightarrow> OperandValue \<Rightarrow> OperandValue \<Rightarrow> OperandValue \<Rightarrow> Rnd \<Rightarrow> WarpState \<Rightarrow> WarpState" where
  "do_dadd m rd ra c rnd w = fp64_arith_core m (operand_value_as_i64 rd) 0 rnd ra c None w"

definition do_dmul :: "u32 \<Rightarrow> OperandValue \<Rightarrow> OperandValue \<Rightarrow> OperandValue \<Rightarrow> Rnd \<Rightarrow> WarpState \<Rightarrow> WarpState" where
  "do_dmul m rd ra b rnd w = fp64_arith_core m (operand_value_as_i64 rd) 1 rnd ra b None w"

definition do_dfma :: "u32 \<Rightarrow> OperandValue \<Rightarrow> OperandValue \<Rightarrow> OperandValue \<Rightarrow> OperandValue \<Rightarrow> Rnd \<Rightarrow> WarpState \<Rightarrow> WarpState" where
  "do_dfma m rd ra b c rnd w = fp64_arith_core m (operand_value_as_i64 rd) 2 rnd ra b (Some c) w"

subsection \<open>Comparisons\<close>

definition fcmp_value :: "u64 \<Rightarrow> u32 \<Rightarrow> u32 \<Rightarrow> bool" where
  "fcmp_value cmp a b =
     (let un = (nan32 a \<or> nan32 b); x = key32 a; y = key32 b
      in if cmp = 0 then False
         else if cmp = 1 then \<not> un \<and> x < y
         else if cmp = 2 then \<not> un \<and> x = y
         else if cmp = 3 then \<not> un \<and> x \<le> y
         else if cmp = 4 then \<not> un \<and> x > y
         else if cmp = 5 then \<not> un \<and> x \<noteq> y
         else if cmp = 6 then \<not> un \<and> x \<ge> y
         else if cmp = 7 then \<not> un
         else if cmp = 8 then un
         else if cmp = 9 then un \<or> x < y
         else if cmp = 10 then un \<or> x = y
         else if cmp = 11 then un \<or> x \<le> y
         else if cmp = 12 then un \<or> x > y
         else if cmp = 13 then un \<or> x \<noteq> y
         else if cmp = 14 then un \<or> x \<ge> y
         else if cmp = 15 then True
         else False)"

text \<open>Destination: a predicate pair, whose second part is optional, or a register.\<close>

datatype FsetDest = ToPred OperandValue "OperandValue option" | ToReg OperandValue

definition fset_core :: "u32 \<Rightarrow> u64 \<Rightarrow> u64 \<Rightarrow> bool \<Rightarrow> OperandValue \<Rightarrow> OperandValue \<Rightarrow> OperandValue option \<Rightarrow> FsetDest \<Rightarrow>
    WarpState \<Rightarrow> WarpState" where
  "fset_core m cmp bop ftz ra second pp dest w =
     each_lane m (\<lambda>lane t.
       let a = read_reg_ov t ra;
           b = src_value w t second;
           a = (if ftz then flush_f32 a else a);
           b = (if ftz then flush_f32 b else b);
           r = fcmp_value cmp a b;
           ppv = (case pp of None \<Rightarrow> True | Some ov \<Rightarrow> pred_or True (read_pred_ov t ov));
           out = bop_value bop r ppv;
           outv = bop_value bop (\<not> r) ppv
       in case dest of
            ToPred rd pv \<Rightarrow>
              let t = write_pred_ov rd out t in (case pv of None \<Rightarrow> t | Some ov \<Rightarrow> write_pred_ov ov outv t)
          | ToReg rd \<Rightarrow> write_rd_ov rd (if out then 0x3f800000 else 0) 0 False t) w"

datatype FsetpShape =
    FSETP5 OperandValue OperandValue OperandValue OperandValue OperandValue u64 u64 int
  | FSETP3 OperandValue OperandValue OperandValue u64 int

fun do_fsetp :: "u32 \<Rightarrow> FsetpShape \<Rightarrow> WarpState \<Rightarrow> WarpState" where
  "do_fsetp m (FSETP5 pu pv ra b pp cmp bop ftz) w =
     fset_core m cmp bop (ftz \<noteq> 0) ra b (Some pp) (ToPred pu (Some pv)) w"
| "do_fsetp m (FSETP3 pu ra b cmp ftz) w = fset_core m cmp 0 (ftz \<noteq> 0) ra b None (ToPred pu None) w"

datatype FsetShape =
    FSET4 OperandValue OperandValue OperandValue OperandValue u64 u64 int
  | FSET3 OperandValue OperandValue OperandValue u64 int

fun do_fset :: "u32 \<Rightarrow> FsetShape \<Rightarrow> WarpState \<Rightarrow> WarpState" where
  "do_fset m (FSET4 rd ra b pp cmp bop ftz) w = fset_core m cmp bop (ftz \<noteq> 0) ra b (Some pp) (ToReg rd) w"
| "do_fset m (FSET3 rd ra b cmp ftz) w = fset_core m cmp 0 (ftz \<noteq> 0) ra b None (ToReg rd) w"

subsection \<open>Minimum, maximum and selection\<close>

datatype FmnmxShape =
    FMNMX5 OperandValue OperandValue OperandValue OperandValue OperandValue u64 u64 int
  | FMNMX4 OperandValue OperandValue OperandValue OperandValue u64 u64 int

text \<open>Roles Rd, Ra, 2nd, Pp and the modifiers; the predicate destination of the long form is not used.\<close>

fun fmnmx_roles :: "FmnmxShape \<Rightarrow> OperandValue \<times> OperandValue \<times> OperandValue \<times> OperandValue \<times> u64 \<times> u64 \<times> int" where
  "fmnmx_roles (FMNMX5 rd pu ra b pp nan xorsign ftz) = (rd, ra, b, pp, nan, xorsign, ftz)"
| "fmnmx_roles (FMNMX4 rd ra b pp nan xorsign ftz) = (rd, ra, b, pp, nan, xorsign, ftz)"

definition fmnmx_value :: "bool \<Rightarrow> bool \<Rightarrow> bool \<Rightarrow> u32 \<Rightarrow> u32 \<Rightarrow> u32" where
  "fmnmx_value is_max nan xorsign a b =
     (if nan \<and> (nan32 a \<or> nan32 b) then kCanonicalNan32
      else if nan32 a \<or> nan32 b then (if nan32 a then b else a)
      else
        let pick_b = (if is_max then key32 b \<ge> key32 a else key32 b \<le> key32 a);
            out = (if pick_b then b else a)
        in if xorsign then
             (out AND 0x7fffffff) OR push_bit 31 ((drop_bit 31 a AND 1) XOR (drop_bit 31 b AND 1))
           else out)"

definition do_fmnmx :: "u32 \<Rightarrow> FmnmxShape \<Rightarrow> WarpState \<Rightarrow> WarpState" where
  "do_fmnmx m shape w =
     (case fmnmx_roles shape of (rd, ra, rb, pp, nan, xorsign, ftz) \<Rightarrow>
        each_lane m (\<lambda>lane t.
          let a = read_reg_ov t ra;
              b = src_value w t rb;
              a = (if ftz \<noteq> 0 then flush_f32 a else a);
              b = (if ftz \<noteq> 0 then flush_f32 b else b);
              is_max = (\<not> (operand_value_as_i64 pp = 7 \<and> \<not> ov_pred_not pp))
          in write_rd_ov rd (fmnmx_value is_max (nan \<noteq> 0) (xorsign \<noteq> 0) a b) 0 False t) w)"

definition do_fsel :: "u32 \<Rightarrow> OperandValue \<Rightarrow> OperandValue \<Rightarrow> OperandValue \<Rightarrow> OperandValue \<Rightarrow> int \<Rightarrow> WarpState \<Rightarrow> WarpState" where
  "do_fsel m rd ra b pp ftz w =
     each_lane m (\<lambda>lane t.
       let a = read_reg_ov t ra;
           a = (if ftz \<noteq> 0 then flush_f32 a else a);
           p = pred_or False (read_pred_ov t pp)
       in write_rd_ov rd (if p then a else src_value w t b) 0 False t) w"

subsection \<open>Conversions\<close>

text \<open>The formats of the combined code; every other code leaves both 0, FP16.\<close>

definition f2f_formats :: "u64 \<Rightarrow> int \<times> int" where
  "f2f_formats fmt =
     (if fmt = 17 then (0, 1) else if fmt = 19 then (2, 1) else if fmt = 20 then (3, 1)
      else if fmt = 10 then (1, 0) else if fmt = 12 then (3, 0) else if fmt = 33 then (0, 3)
      else if fmt = 34 then (1, 3) else if fmt = 11 then (2, 0) else if fmt = 35 then (2, 3)
      else if fmt = 25 then (0, 2) else if fmt = 26 then (1, 2) else if fmt = 28 then (3, 2)
      else (0, 0))"

definition f2f_value :: "NanImpl \<Rightarrow> int \<Rightarrow> int \<Rightarrow> Rnd \<Rightarrow> bool \<Rightarrow> u32 \<Rightarrow> u64 \<Rightarrow> u32 \<times> u32" where
  "f2f_value N dstfmt srcfmt rnd ftz src pair =
     (if dstfmt = 2 then
        let f32 = (if srcfmt = 0 then f16_to_f32 (ucast (src AND 0xffff))
                   else if srcfmt = 3 then src AND 0xffff0000 else src);
            d = double_of_float (ni_widen N) (if ftz then flush_f32 f32 else f32)
        in (ucast (d AND 0xffffffff), ucast (drop_bit 32 d))
      else if srcfmt = 2 then
        (if dstfmt = 1 then f64_to_f32 pair rnd ftz False
         else if dstfmt = 0 then f64_to_f16 pair rnd ftz False
         else if dstfmt = 3 then f64_to_bf16 pair rnd ftz False else 0, 0)
      else (f2f (ni_widen N) src dstfmt srcfmt rnd ftz False, 0))"

definition do_f2f :: "NanImpl \<Rightarrow> u32 \<Rightarrow> OperandValue \<Rightarrow> OperandValue \<Rightarrow> int \<Rightarrow> u64 \<Rightarrow> Rnd \<Rightarrow> WarpState \<Rightarrow> WarpState" where
  "do_f2f N m rd b ftz fmt rnd w =
     (if ov_kind b \<noteq> kRegister then w
      else
        let r = operand_value_as_i64 rd
        in case f2f_formats fmt of (dstfmt, srcfmt) \<Rightarrow>
             each_lane m (\<lambda>lane t.
               case f2f_value N dstfmt srcfmt rnd (ftz \<noteq> 0) (read_reg_ov t b) (read_pair_at t (bind_idx_ov b)) of
                 (out, outhi) \<Rightarrow>
                   if r \<noteq> 255 \<and> r < 256 then
                     let t = t\<lparr>t_gpr := (t_gpr t)[unat r := out]\<rparr>
                     in if dstfmt = 2 \<and> r < 255 then t\<lparr>t_gpr := (t_gpr t)[unat r + 1 := outhi]\<rparr> else t
                   else t) w)"

definition i2f_dst :: "int \<Rightarrow> int" where
  "i2f_dst dstfmt = (if dstfmt = 1 then 0 else if dstfmt = 2 then 1 else if dstfmt = 3 then 2 else if dstfmt = 4 then 3 else 1)"

definition cvtx_core :: "u32 \<Rightarrow> Rnd \<Rightarrow> bool \<Rightarrow> int \<Rightarrow> int \<Rightarrow> bool \<Rightarrow> OperandValue \<Rightarrow> OperandValue \<Rightarrow> WarpState \<Rightarrow> WarpState" where
  "cvtx_core m rnd ftz dstfmt srcfmt is_i2f rd src w =
     each_lane m (\<lambda>lane t.
       let val = (if ov_kind src = kRegister then read_reg_ov t src else ucast (operand_value_as_i64 src));
           out = (if is_i2f then i2f (ucast val) (i2f_dst dstfmt) srcfmt rnd False else f2i val dstfmt rnd ftz);
           f64_dst = (is_i2f \<and> dstfmt = 3)
       in write_rd_ov rd (ucast out) (ucast (drop_bit 32 out)) f64_dst t) w"

definition do_i2f :: "u32 \<Rightarrow> OperandValue \<Rightarrow> OperandValue \<Rightarrow> int \<Rightarrow> int \<Rightarrow> Rnd \<Rightarrow> WarpState \<Rightarrow> WarpState" where
  "do_i2f m rd b dstfmt srcfmt rnd w = cvtx_core m rnd False dstfmt srcfmt True rd b w"

definition do_f2i :: "u32 \<Rightarrow> OperandValue \<Rightarrow> OperandValue \<Rightarrow> int \<Rightarrow> int \<Rightarrow> int \<Rightarrow> Rnd \<Rightarrow> WarpState \<Rightarrow> WarpState" where
  "do_f2i m rd b ftz dstfmt srcfmt rnd w = cvtx_core m rnd (ftz \<noteq> 0) dstfmt srcfmt False rd b w"

text \<open>\<open>floor\<close>, \<open>ceil\<close>, \<open>trunc\<close> and \<open>nearbyint\<close> keep the sign of a zero result.\<close>

definition frnd_value :: "NanImpl \<Rightarrow> Rnd \<Rightarrow> u32 \<Rightarrow> u32" where
  "frnd_value N rnd a =
     (if nan32 a then ni_integral N a
      else if fp_inf binary32 (unat a) then a
      else word_of_nat (fp_round binary32 kRn (fp_neg binary32 (unat a)) (fp_to_int binary32 rnd (unat a)) 0))"

definition do_frnd :: "NanImpl \<Rightarrow> u32 \<Rightarrow> OperandValue \<Rightarrow> OperandValue \<Rightarrow> Rnd \<Rightarrow> WarpState \<Rightarrow> WarpState" where
  "do_frnd N m rd b rnd w = each_lane m (\<lambda>lane t. write_rd_ov rd (frnd_value N rnd (read_reg_ov t b)) 0 False t) w"

subsection \<open>The floating-point instructions\<close>

datatype FpInst =
    FFadd OperandValue OperandValue OperandValue int Rnd int
  | FFmul OperandValue OperandValue OperandValue int Rnd int
  | FFfma OperandValue OperandValue OperandValue OperandValue int Rnd int
  | FDadd OperandValue OperandValue OperandValue Rnd
  | FDmul OperandValue OperandValue OperandValue Rnd
  | FDfma OperandValue OperandValue OperandValue OperandValue Rnd
  | FFsetp FsetpShape
  | FFset FsetShape
  | FFmnmx FmnmxShape
  | FFsel OperandValue OperandValue OperandValue OperandValue int
  | FF2f OperandValue OperandValue int u64 Rnd
  | FI2f OperandValue OperandValue int int Rnd
  | FF2i OperandValue OperandValue int int int Rnd
  | FFrnd OperandValue OperandValue Rnd

fun exec_fp :: "NanImpl \<Rightarrow> FpInst \<Rightarrow> u32 \<Rightarrow> WarpState \<Rightarrow> WarpState" where
  "exec_fp N (FFadd rd ra c ftz rnd sat) m w = do_fadd m rd ra c ftz rnd sat w"
| "exec_fp N (FFmul rd ra b fmz rnd sat) m w = do_fmul m rd ra b fmz rnd sat w"
| "exec_fp N (FFfma rd ra b c fmz rnd sat) m w = do_ffma m rd ra b c fmz rnd sat w"
| "exec_fp N (FDadd rd ra c rnd) m w = do_dadd m rd ra c rnd w"
| "exec_fp N (FDmul rd ra b rnd) m w = do_dmul m rd ra b rnd w"
| "exec_fp N (FDfma rd ra b c rnd) m w = do_dfma m rd ra b c rnd w"
| "exec_fp N (FFsetp s) m w = do_fsetp m s w"
| "exec_fp N (FFset s) m w = do_fset m s w"
| "exec_fp N (FFmnmx s) m w = do_fmnmx m s w"
| "exec_fp N (FFsel rd ra b pp ftz) m w = do_fsel m rd ra b pp ftz w"
| "exec_fp N (FF2f rd b ftz fmt rnd) m w = do_f2f N m rd b ftz fmt rnd w"
| "exec_fp N (FI2f rd b dstfmt srcfmt rnd) m w = do_i2f m rd b dstfmt srcfmt rnd w"
| "exec_fp N (FF2i rd b ftz dstfmt srcfmt rnd) m w = do_f2i m rd b ftz dstfmt srcfmt rnd w"
| "exec_fp N (FFrnd rd b rnd) m w = do_frnd N m rd b rnd w"

end
