(* ===== verification/Full_Machine.thy ===== *)
theory Full_Machine
  imports Scheduler Mem_Inst L2_Events Fp_Vector
begin

text \<open>
  The interpreter with its memory instructions: one dynamic warp instruction and the run loop of
  \<open>src/interpreter/baseline/sm120/core.cpp\<close> over the state of an instance, its CTAs, the memory
  service, the instruction count and the records. Control flow, scheduling and the integer
  instructions are those of \<open>Execute\<close> and \<open>Scheduler\<close>; a floating-point instruction
  changes registers and predicates (\<open>Fp_Vector\<close>); a memory instruction runs on its
  warp, the shared bytes of its CTA, the service and the records; a barrier release appends a race
  event. \<open>None\<close> stands for the dereference of a missing global backing (\<open>Memory_Service\<close>) and
  for \<open>LDGSTS\<close>, which is not modelled.
\<close>

subsection \<open>State and instructions\<close>

record FullMachine =
  fm_ctas :: "CtaState list"
  fm_rr :: nat
  fm_executed :: u64
  fm_service :: MemoryService
  fm_trace :: Tracer

datatype FullInst = FAlu AluInst | FFp FpInst | FMem DecodedInst

text \<open>The handlers of the register-only instructions; the memory instructions are dispatched apart.\<close>

fun register_exec :: "LaunchEnv \<Rightarrow> FullInst DataExec" where
  "register_exec env (FAlu a) word m pc w = exec_alu env a word m pc w"
| "register_exec env (FFp f) word m pc w = (None, exec_fp x86_nan f m w)"
| "register_exec env (FMem d) word m pc w = (None, w)"

definition barrier_event :: "LaunchEnv \<Rightarrow> u32 \<Rightarrow> nat list \<Rightarrow> Tracer \<Rightarrow> Tracer" where
  "barrier_event env cta ws tr =
     push_race_event (\<lambda>n. \<lparr>re_kind = evCtaBarrier, re_cta = cta, re_sm = sm_of_cta env tr cta, re_ordinal = n,
       re_access = no_access, re_warps = map word_of_nat ws, re_warp = 0, re_scope = []\<rparr>) cta tr"

subsection \<open>One dynamic instruction\<close>

type_synonym GroupResult = "(Fault option \<times> CtaState \<times> MemoryService \<times> Tracer) option"

definition mem_dispatch :: "LaunchEnv \<Rightarrow> DecodedInst \<Rightarrow> u32 \<Rightarrow> u64 \<Rightarrow> nat \<Rightarrow> CtaState \<Rightarrow> MemoryService \<Rightarrow> Tracer \<Rightarrow> GroupResult" where
  "mem_dispatch env d em pc wi c ms tr =
     (case mem_handler (di_mnem d) of
        None \<Rightarrow> None
      | Some h \<Rightarrow>
          map_option (\<lambda>(f, x). (f, (put_warp wi (mx_warp x) c)\<lparr>c_shared := mx_shared x\<rparr>, mx_service x, mx_trace x))
            (h env em d pc \<lparr>mx_warp = c_warps c ! wi, mx_shared = c_shared c, mx_service = ms, mx_trace = tr\<rparr>))"

definition full_dispatch :: "LaunchEnv \<Rightarrow> KernelText \<Rightarrow> FullInst PredecodedWord \<Rightarrow> u32 \<Rightarrow> u32 \<Rightarrow> u64 \<Rightarrow> nat \<Rightarrow> CtaState \<Rightarrow>
    MemoryService \<Rightarrow> Tracer \<Rightarrow> GroupResult" where
  "full_dispatch env k pw m em pc wi c ms tr =
     (case pw_inst pw of
        IData (FMem d) \<Rightarrow> mem_dispatch env d em pc wi c ms tr
      | _ \<Rightarrow>
          (case dispatch (register_exec env) k env (tr_race_on tr) pw m em pc wi c of
             (f, c', ev) \<Rightarrow>
               Some (f, c', ms,
                 (case ev of None \<Rightarrow> tr | Some ws \<Rightarrow> barrier_event env (word_of_nat (c_cta_id c)) ws tr))))"

definition full_warp :: "LaunchEnv \<Rightarrow> KernelText \<Rightarrow> FullInst PredecodedWord \<Rightarrow> u32 \<Rightarrow> u64 \<Rightarrow> nat \<Rightarrow> CtaState \<Rightarrow>
    MemoryService \<Rightarrow> Tracer \<Rightarrow> GroupResult" where
  "full_warp env k pw m pc wi c ms tr =
     (let c = put_warp wi (advance_pcs pc (c_warps c ! wi)) c;
          em = guard_mask (pw_guard pw) m (c_warps c ! wi)
      in if g_pred (pw_guard pw) \<noteq> 7 \<and> em = 0 then Some (None, c, ms, tr)
         else full_dispatch env k pw m em pc wi c ms tr)"

definition full_group :: "LaunchEnv \<Rightarrow> KernelText \<Rightarrow> FullInst PredecodedWord list \<Rightarrow> Group \<Rightarrow> FullMachine \<Rightarrow>
    (Fault option \<times> FullMachine) option" where
  "full_group env k prog g fm =
     (let idx = unat (gr_pc g div 16); pc = gr_pc g; warp = gr_warp g in
      if idx \<ge> length prog then
        Some (Some (pc_fault (''pc 0x'' @ show_u64 pc @ '' outside kernel text'') warp pc), fm)
      else if \<not> pw_unique (prog ! idx) then
        Some (Some (pc_fault (''word at pc 0x'' @ show_u64 pc @ '': '' @ pw_reason (prog ! idx)) warp pc), fm)
      else
        case find_idx (\<lambda>w. w_warp_id w = warp) (c_warps (fm_ctas fm ! gr_cta g)) of
          None \<Rightarrow> Some (None, fm)
        | Some wi \<Rightarrow>
            map_option (\<lambda>(f, c, ms, tr). (f, fm\<lparr>fm_ctas := (fm_ctas fm)[gr_cta g := c], fm_service := ms, fm_trace := tr\<rparr>))
              (full_warp env k (prog ! idx) (gr_mask g) pc wi (fm_ctas fm ! gr_cta g) (fm_service fm)
                 ((fm_trace fm)\<lparr>tr_executed := fm_executed fm\<rparr>)))"

subsection \<open>The run loop\<close>

definition sched_view :: "FullMachine \<Rightarrow> Machine" where
  "sched_view fm = \<lparr>mc_ctas = fm_ctas fm, mc_rr = fm_rr fm, mc_executed = fm_executed fm, mc_barrier_events = []\<rparr>"

definition full_next :: "FullMachine \<Rightarrow> Group option \<times> FullMachine" where
  "full_next fm =
     (case next_group None (sched_view fm) of (r, _, m) \<Rightarrow> (r, fm\<lparr>fm_ctas := mc_ctas m, fm_rr := mc_rr m\<rparr>))"

record RunResult =
  rs_fault :: "Fault option"
  rs_limit_reached :: bool
  rs_executed :: u64
  rs_ctas :: "CtaState list"
  rs_events :: "MemoryEvent list"
  rs_race_log :: "RaceEvent list"
  rs_l2_log :: "L2RequestDescriptor list"

text \<open>The result: the L2 log is flushed into the events unless the engine is shared.\<close>

definition run_result_of :: "'g Rng \<Rightarrow> bool \<Rightarrow> 'g L2EventEngine \<Rightarrow> Fault option \<Rightarrow> bool \<Rightarrow> FullMachine \<Rightarrow> RunResult" where
  "run_result_of G shared en f lim fm =
     (let tr = fst (flush_l2_events G shared (fm_trace fm) en)
      in \<lparr>rs_fault = f, rs_limit_reached = lim, rs_executed = fm_executed fm, rs_ctas = fm_ctas fm,
          rs_events = tr_events tr, rs_race_log = tr_race_log tr, rs_l2_log = tr_l2_log tr\<rparr>)"

definition full_finish :: "KernelText \<Rightarrow> FullMachine \<Rightarrow> Fault option \<times> FullMachine" where
  "full_finish k fm = (let r = finish k (sched_view fm) in (ir_fault r, fm\<lparr>fm_ctas := ir_ctas r\<rparr>))"

lemma full_next_executed: "full_next fm = (r, fm') \<Longrightarrow> fm_executed fm' = fm_executed fm"
  by (auto simp: full_next_def split: prod.splits)

lemma full_group_executed: "full_group env k prog g fm = Some (f, fm') \<Longrightarrow> fm_executed fm' = fm_executed fm"
  by (auto simp: full_group_def Let_def split: if_splits option.splits)

lemma full_decreases:
  assumes "full_next fm = (r, fm')" "full_group env k prog g fm' = Some (f, fm'')" "\<not> limit \<le> fm_executed fm'"
  shows "unat limit - unat (fm_executed fm'' + 1) < unat limit - unat (fm_executed fm)"
proof -
  have e: "fm_executed fm'' = fm_executed fm" and lt: "fm_executed fm < limit"
    using full_next_executed [OF assms(1)] full_group_executed [OF assms(2)] assms(3) by auto
  then have "unat (fm_executed fm + 1) = unat (fm_executed fm) + 1"
    using unat_lt_u64 [of limit] by (simp add: word_less_nat_alt unat_word_ariths)
  then show ?thesis using lt e by (simp add: word_less_nat_alt)
qed

function full_run :: "LaunchEnv \<Rightarrow> KernelText \<Rightarrow> FullInst PredecodedWord list \<Rightarrow> u64 \<Rightarrow> FullMachine \<Rightarrow>
    (Fault option \<times> bool \<times> FullMachine) option" where
  "full_run env k prog limit fm =
     (case full_next fm of
        (None, fm') \<Rightarrow> (case full_finish k fm' of (f, fm'') \<Rightarrow> Some (f, False, fm''))
      | (Some g, fm') \<Rightarrow>
          if fm_executed fm' \<ge> limit then Some (Some (limit_fault k limit g), True, fm')
          else
            (case full_group env k prog g fm' of
               None \<Rightarrow> None
             | Some (Some f, fm'') \<Rightarrow> Some (Some (locate_fault k g f), False, fm'')
             | Some (None, fm'') \<Rightarrow> full_run env k prog limit (fm''\<lparr>fm_executed := fm_executed fm'' + 1\<rparr>)))"
  by pat_completeness auto

termination
  by (relation "measure (\<lambda>(env, k, prog, limit, fm). unat limit - unat (fm_executed fm))")
    (auto intro: full_decreases [OF sym])

declare full_run.simps [simp del]

text \<open>
  The loop as a worker of a parallel launch runs it: the memory service is shared, and before each
  instruction it is in whatever state the other workers have left it.
\<close>

inductive worker_run :: "LaunchEnv \<Rightarrow> KernelText \<Rightarrow> FullInst PredecodedWord list \<Rightarrow> u64 \<Rightarrow> FullMachine \<Rightarrow>
    Fault option \<times> bool \<times> FullMachine \<Rightarrow> bool"
  for env k prog limit where
  stop: "full_next fm = (None, fm1) \<Longrightarrow> full_finish k fm1 = (f, fm2) \<Longrightarrow> worker_run env k prog limit fm (f, False, fm2)"
| limit: "full_next fm = (Some g, fm1) \<Longrightarrow> limit \<le> fm_executed fm1 \<Longrightarrow>
    worker_run env k prog limit fm (Some (limit_fault k limit g), True, fm1)"
| fault: "full_next fm = (Some g, fm1) \<Longrightarrow> \<not> limit \<le> fm_executed fm1 \<Longrightarrow>
    full_group env k prog g (fm1\<lparr>fm_service := ms\<rparr>) = Some (Some f, fm2) \<Longrightarrow>
    worker_run env k prog limit fm (Some (locate_fault k g f), False, fm2)"
| execute: "full_next fm = (Some g, fm1) \<Longrightarrow> \<not> limit \<le> fm_executed fm1 \<Longrightarrow>
    full_group env k prog g (fm1\<lparr>fm_service := ms\<rparr>) = Some (None, fm2) \<Longrightarrow>
    worker_run env k prog limit (fm2\<lparr>fm_executed := fm_executed fm2 + 1\<rparr>) r \<Longrightarrow> worker_run env k prog limit fm r"

text \<open>A run that nobody interferes with is one of them.\<close>

lemma full_run_worker: "full_run env k prog limit fm = Some r \<Longrightarrow> worker_run env k prog limit fm r"
proof (induction "unat limit - unat (fm_executed fm)" arbitrary: fm rule: less_induct)
  case less
  obtain n fm1 where n: "full_next fm = (n, fm1)" by (cases "full_next fm")
  note unf = less.prems [unfolded full_run.simps [of env k prog limit fm] n prod.case]
  show ?case
  proof (cases n)
    case None
    obtain f fm2 where fin: "full_finish k fm1 = (f, fm2)" by (cases "full_finish k fm1")
    then have r: "r = (f, False, fm2)" using unf None by simp
    show ?thesis unfolding r by (rule worker_run.stop [OF n [unfolded None] fin])
  next
    case (Some g)
    note n = n [unfolded Some] and unf = unf [unfolded Some option.case]
    show ?thesis
    proof (cases "limit \<le> fm_executed fm1")
      case True
      then have r: "r = (Some (limit_fault k limit g), True, fm1)" using unf by simp
      show ?thesis unfolding r by (rule worker_run.limit [OF n True])
    next
      case lim: False
      obtain f fm2 where st: "full_group env k prog g fm1 = Some (f, fm2)"
        using unf lim by (cases "full_group env k prog g fm1") auto
      then have st': "full_group env k prog g (fm1\<lparr>fm_service := fm_service fm1\<rparr>) = Some (f, fm2)" by simp
      show ?thesis
      proof (cases f)
        case (Some f')
        then have r: "r = (Some (locate_fault k g f'), False, fm2)" using unf lim st by simp
        show ?thesis unfolding r by (rule worker_run.fault [OF n lim st' [unfolded Some]])
      next
        case None
        let ?fm = "fm2\<lparr>fm_executed := fm_executed fm2 + 1\<rparr>"
        have "full_run env k prog limit ?fm = Some r" using unf lim st None by simp
        from less.hyps [OF _ this] full_decreases [OF n st lim] have "worker_run env k prog limit ?fm r" by simp
        then show ?thesis by (rule worker_run.execute [OF n lim st' [unfolded None]])
      qed
    qed
  qed
qed

end
