(* ===== verification/Launch.thy ===== *)
theory Launch
  imports Full_Machine
begin

text \<open>
  The launch (\<open>run_result\<close> and \<open>run_result_parallel\<close> of
  \<open>src/interpreter/baseline/sm120/core.cpp\<close>, the constructor of \<open>Interpreter\<close>, the options of
  \<open>semu/exec/execution.hpp\<close>): the state one instance starts from, the run of a single worker, and
  the merge of the results of several workers. Workers share the memory service and run
  concurrently, so their results are the arguments of the merge, whatever interleaving produced
  them. Precise mode: the fast-mode guard, its statistics, the text trace and the hotspot profile
  are left out.
\<close>

subsection \<open>Options and initial state\<close>

record LaunchOptions =
  lo_instruction_limit :: u64
  lo_worker_count :: int
  lo_params :: "bytes option"
  lo_global :: "bytes option"
  lo_shared_size :: u64
  lo_local_size :: u64
  lo_l1tex :: bool
  lo_l2 :: bool
  lo_race :: bool
  lo_sm_count :: u32
  lo_seed :: u64

record KernelMeta =
  km_static_shared :: u32
  km_param_size :: u32

definition launch_service :: "LaunchOptions \<Rightarrow> KernelText \<Rightarrow> KernelMeta \<Rightarrow> MemoryService" where
  "launch_service opts k meta =
     (let ms = new_service (case lo_params opts of Some p \<Rightarrow> p | None \<Rightarrow> replicate (unat (km_param_size meta)) 0)
      in case lo_global opts of
           None \<Rightarrow> ms
         | Some g \<Rightarrow>
             if g = [] then ms
             else case setup_global (word_of_nat (length g)) (kt_name k) ms of
                    (Inl _, ms') \<Rightarrow> ms'
                  | (Inr _, ms') \<Rightarrow> set_global_backing (Some g) ms')"

definition launch_engine :: "'g Rng \<Rightarrow> LaunchOptions \<Rightarrow> 'g L2EventEngine" where
  "launch_engine G opts = new_engine G (if lo_sm_count opts > 0 then lo_sm_count opts else 1) (lo_seed opts)"

definition launch_detector :: "LaunchOptions \<Rightarrow> RaceDetector" where
  "launch_detector opts = set_enabled (lo_race opts) new_detector"

definition new_tracer :: "LaunchOptions \<Rightarrow> Tracer" where
  "new_tracer opts = \<lparr>tr_race_on = lo_race opts, tr_l2_on = lo_l2 opts, tr_debug_on = False, tr_l1tex_on = lo_l1tex opts,
     tr_sm_count = lo_sm_count opts, tr_mapper = mod4_mapper, tr_executed = 0, tr_race_log = [], tr_race_ordinal = [],
     tr_l2_log = [], tr_l2_ordinal = [], tr_debug = [], tr_events = [], tr_l1tex = new_sm 0\<rparr>"

text \<open>Worker \<open>w\<close> of \<open>n\<close> builds its CTAs over the service \<open>ms\<close>.\<close>

definition worker_start :: "LaunchOptions \<Rightarrow> LaunchEnv \<Rightarrow> KernelMeta \<Rightarrow> nat \<Rightarrow> nat \<Rightarrow> MemoryService \<Rightarrow> FullMachine" where
  "worker_start opts env meta w n ms =
     (let sh = (if lo_shared_size opts > 0 then lo_shared_size opts else ucast (km_static_shared meta))
      in case init_ctas env sh (unat (lo_local_size opts)) (worker_ctas env w n) 0 ms of
           (cs, ms') \<Rightarrow> \<lparr>fm_ctas = cs, fm_rr = 0, fm_executed = 0, fm_service = ms', fm_trace = new_tracer opts\<rparr>)"

subsection \<open>Results\<close>

record LaunchResult =
  lr_fault :: "Fault option"
  lr_limit_reached :: bool
  lr_executed :: u64
  lr_ctas :: "CtaState list"
  lr_events :: "MemoryEvent list"
  lr_reports :: "RaceReport list"

text \<open>A single worker replays its own race log and renumbers its events.\<close>

definition single_result :: "LaunchOptions \<Rightarrow> RunResult \<Rightarrow> LaunchResult" where
  "single_result opts r =
     \<lparr>lr_fault = rs_fault r, lr_limit_reached = rs_limit_reached r, lr_executed = rs_executed r, lr_ctas = rs_ctas r,
      lr_events = normalize_memory_event_ids (rs_events r),
      lr_reports = reports (snd (replay_race_log (rs_race_log r) (launch_detector opts)))\<rparr>"

definition run_single :: "'g Rng \<Rightarrow> LaunchOptions \<Rightarrow> LaunchEnv \<Rightarrow> KernelText \<Rightarrow> KernelMeta \<Rightarrow> FullInst PredecodedWord list \<Rightarrow>
    LaunchResult option" where
  "run_single G opts env k meta prog =
     map_option (\<lambda>(f, lim, fm). single_result opts (run_result_of G False (launch_engine G opts) f lim fm))
       (full_run env k prog (lo_instruction_limit opts) (worker_start opts env meta 0 1 (launch_service opts k meta)))"

subsection \<open>Several workers\<close>

definition fault_cta :: "Fault \<Rightarrow> u32" where
  "fault_cta f = (case f_cta f of Some c \<Rightarrow> c | None \<Rightarrow> 0)"

text \<open>One round of the loop that picks the fault to report: \<open>r\<close> replaces the current winner.\<close>

definition fault_wins :: "RunResult \<Rightarrow> RunResult option \<Rightarrow> RunResult option" where
  "fault_wins r best =
     (case rs_fault r of
        None \<Rightarrow> best
      | Some f \<Rightarrow>
          (case best of
             None \<Rightarrow> Some r
           | Some b \<Rightarrow>
               (case rs_fault b of
                  None \<Rightarrow> Some b
                | Some bf \<Rightarrow>
                    if fault_cta f < fault_cta bf \<or> (fault_cta f = fault_cta bf \<and> rs_executed r < rs_executed b)
                    then Some r else Some b)))"

definition fault_winner :: "RunResult list \<Rightarrow> RunResult option" where
  "fault_winner rs = fold fault_wins rs None"

definition merged_reports :: "LaunchOptions \<Rightarrow> RunResult list \<Rightarrow> RaceReport list" where
  "merged_reports opts rs = reports (snd (replay_race_log (concat (map rs_race_log rs)) (launch_detector opts)))"

definition merge_results :: "'g Rng \<Rightarrow> LaunchOptions \<Rightarrow> RunResult list \<Rightarrow> LaunchResult" where
  "merge_results G opts rs =
     (case fault_winner rs of
        Some w \<Rightarrow>
          \<lparr>lr_fault = rs_fault w, lr_limit_reached = False, lr_executed = rs_executed w, lr_ctas = rs_ctas w,
           lr_events = rs_events w, lr_reports = merged_reports opts rs\<rparr>
      | None \<Rightarrow>
          \<lparr>lr_fault = None, lr_limit_reached = False, lr_executed = sum_list (map rs_executed rs),
           lr_ctas = sort_key c_cta_id (concat (map rs_ctas rs)),
           lr_events = normalize_memory_event_ids
             (concat (map rs_events rs) @ merge_l2_logs G (lo_l2 opts) (map rs_l2_log rs) (launch_engine G opts)),
           lr_reports = merged_reports opts rs\<rparr>)"

end
