(* ===== verification/Fp_Vector_Facts.thy ===== *)
theory Fp_Vector_Facts
  imports Fp_Vector Scheduler_Facts
begin

text \<open>
  Every floating-point instruction works lane by lane: it changes registers and predicates of the live
  lanes of its mask and no control state, so the scheduler's interface holds of the handlers.
\<close>

lemma keeps_idle: "keeps_thread (\<lambda>lane t. t)"
  by (simp add: keeps_thread_def)

lemma each_lane_idle: "each_lane m (\<lambda>lane t. t) w = w"
proof -
  have "w_threads (each_lane m (\<lambda>lane t. t) w) = w_threads w"
    by (rule nth_equalityI) (simp_all add: each_lane_def nth_enumerate_eq)
  then show ?thesis by (simp add: each_lane_def)
qed

lemma fset_lanes: "\<exists>f. keeps_thread f \<and> fset_core m cmp bop ftz ra b pp dest w = each_lane m f w"
  unfolding fset_core_def
  by (rule exI, rule conjI [OF _ refl]) (auto simp: keeps_thread_def Let_def split: FsetDest.splits option.splits)

lemma core_lanes:
  "\<exists>f. keeps_thread f \<and> fp32_arith_core m rd op rnd flush sat fmz a b c w = each_lane m f w"
  "\<exists>f. keeps_thread f \<and> fp64_arith_core m rd op rnd a b c w = each_lane m f w"
  "\<exists>f. keeps_thread f \<and> cvtx_core m rnd ftz dst src is_i2f ov a w = each_lane m f w"
  unfolding fp32_arith_core_def fp64_arith_core_def cvtx_core_def Let_def
  by (rule exI, rule conjI [OF _ refl], simp add: keeps_thread_def)+

lemma exec_fp_lanes: "\<exists>f. keeps_thread f \<and> exec_fp N d m w = each_lane m f w"
proof (cases d)
  case (FFsetp s)
  then show ?thesis by (cases s) (simp_all add: fset_lanes)
next
  case (FFset s)
  then show ?thesis by (cases s) (simp_all add: fset_lanes)
next
  case (FFmnmx s)
  obtain rd ra rb pp nan xorsign ftz where "fmnmx_roles s = (rd, ra, rb, pp, nan, xorsign, ftz)" by (metis prod_cases7)
  then show ?thesis unfolding FFmnmx exec_fp.simps do_fmnmx_def prod.case
    by (simp only: prod.case) (rule exI, rule conjI [OF _ refl], simp add: keeps_thread_def Let_def)
next
  case (FF2f rd b ftz fmt rnd)
  show ?thesis
  proof (cases "ov_kind b = kRegister")
    case False
    then show ?thesis unfolding FF2f
      by (intro exI [of _ "\<lambda>lane t. t"]) (simp add: do_f2f_def keeps_idle each_lane_idle)
  next
    case True
    obtain dst src where "f2f_formats fmt = (dst, src)" by (cases "f2f_formats fmt")
    with True show ?thesis unfolding FF2f exec_fp.simps do_f2f_def Let_def
      by (simp only: prod.case if_False not_False_eq_True simp_thms)
        (rule exI, rule conjI [OF _ refl], simp add: keeps_thread_def split: prod.splits)
  qed
qed (simp_all only: exec_fp.simps do_fadd_def do_fmul_def do_ffma_def do_dadd_def do_dmul_def do_dfma_def do_i2f_def
    do_f2i_def do_fsel_def do_frnd_def core_lanes,
    (rule exI, rule conjI [OF _ refl], simp add: keeps_thread_def Let_def)+)

lemma exec_fp_control: "same_control w (exec_fp N d m w)"
  using exec_fp_lanes [of N d m w] each_lane_control by metis

lemma exec_fp_mask:
  "l < length (w_threads w) \<Longrightarrow> \<not> lane_live m l (w_threads w ! l) \<Longrightarrow> w_threads (exec_fp N d m w) ! l = w_threads w ! l"
  using exec_fp_lanes [of N d m w] each_lane_nth by metis

lemma exec_fp_cta: "w_cta_id (exec_fp N d m w) = w_cta_id w"
  using exec_fp_lanes [of N d m w] by (auto simp: each_lane_def)

end
