(* ===== verification/Full_Facts.thy ===== *)
theory Full_Facts
  imports Full_Machine Mem_Safety Scheduler_Safety Fp_Vector_Facts
begin

text \<open>
  What one instruction of the full machine keeps: the control state of warps and CTAs, the CTA a
  warp belongs to, the numbering of the logs, and that no fault names a CTA.
\<close>

subsection \<open>Memory instructions\<close>

definition unplaced :: "Fault option \<Rightarrow> bool" where
  "unplaced fo \<longleftrightarrow> (\<forall>f. fo = Some f \<longrightarrow> f_cta f = None)"

definition same_place :: "WarpState \<Rightarrow> WarpState \<Rightarrow> bool" where
  "same_place w w' \<longleftrightarrow> same_control w w' \<and> w_cta_id w' = w_cta_id w"

lemma same_place_refl [simp]: "same_place w w"
  by (simp add: same_place_def)

lemma same_place_trans: "same_place a b \<Longrightarrow> same_place b c \<Longrightarrow> same_place a c"
  using same_control_trans by (auto simp: same_place_def)

lemma unplaced_simps [simp]:
  "unplaced None" "unplaced (Some (lane_fault k msg pc m w))" "unplaced (Some (service_fault e pc m w))"
  "unplaced (Some (set_warp a (set_pc pc (mk_fault k msg))))"
  by (auto simp: unplaced_def lane_fault_def service_fault_def memory_error_to_fault_def fault_setters mk_fault_def
      split: ErrorCode.split)

lemma unplaced_unsupported [simp]: "unplaced (Some (unsupported_atomic d pc m w))"
  by (simp add: unsupported_atomic_def)

lemma put_value_flags [simp]: "t_exited (put_value r n v t) = t_exited t" "t_active (put_value r n v t) = t_active t"
  by (simp_all add: put_value_def Let_def)

lemma upd_lane_place: "same_place w (mx_warp x) \<Longrightarrow> same_place w (mx_warp (upd_lane lane (put_value r n v) x))"
proof -
  have "same_control (mx_warp x) (mx_warp (upd_lane lane (put_value r n v) x))"
    by (simp add: upd_lane_def same_control_def) (metis nth_list_update_eq nth_list_update_neq put_value_flags)
  then have "same_place (mx_warp x) (mx_warp (upd_lane lane (put_value r n v) x))" by (simp add: same_place_def upd_lane_def)
  then show "same_place w (mx_warp x) \<Longrightarrow> same_place w (mx_warp (upd_lane lane (put_value r n v) x))" using same_place_trans by blast
qed

lemma local_place [simp]: "same_place w (w'\<lparr>w_local := l\<rparr>) = same_place w w'"
  by (simp add: same_place_def same_control_def)

lemma load_from_warp: "load_from space addr wi x = Some (st, v, y) \<Longrightarrow> mx_warp y = mx_warp x"
  by (cases space) (auto simp: load_from_def split: prod.splits)

lemma store_to_place: "store_to space addr wi v x = Some (st, y) \<Longrightarrow> same_place (mx_warp x) (mx_warp y)"
  by (cases space) (auto simp: store_to_def split: prod.splits)

lemma lane_access_unplaced: "lane_access d a pc m w t = Inl f \<Longrightarrow> unplaced (Some f)"
  by (auto simp: lane_access_def Let_def split: sum.splits if_splits option.splits)

lemma lane_step_cases:
  assumes "lane_step env d a pc m lane x p = Some (fo, x', p')"
  obtains (dead) "\<not> lane_live m lane (w_threads (mx_warp x) ! lane)" "fo = None" "x' = x" "p' = p"
  | (fault) f where "lane_access d a pc m (mx_warp x) (w_threads (mx_warp x) ! lane) = Inl f" "fo = Some f" "x' = x" "p' = p"
  | (load) space addr wi where "lane_access d a pc m (mx_warp x) (w_threads (mx_warp x) ! lane) = Inr (space, addr, wi)"
      "ca_load a" "lane_load env d a pc m lane space addr wi x p = Some (fo, x', p')"
  | (atom) space addr wi where "lane_access d a pc m (mx_warp x) (w_threads (mx_warp x) ! lane) = Inr (space, addr, wi)"
      "\<not> ca_load a" "ca_atom a" "lane_atom env d a pc m lane space addr wi x p = Some (fo, x', p')"
  | (store) space addr wi where "lane_access d a pc m (mx_warp x) (w_threads (mx_warp x) ! lane) = Inr (space, addr, wi)"
      "\<not> ca_load a" "\<not> ca_atom a" "lane_store env d a pc m lane space addr wi x p = Some (fo, x', p')"
proof (cases "lane_live m lane (w_threads (mx_warp x) ! lane)")
  case False
  show ?thesis by (rule dead [OF False]) (use assms False in \<open>simp_all add: lane_step_def\<close>)
next
  case True
  show ?thesis
  proof (cases "lane_access d a pc m (mx_warp x) (w_threads (mx_warp x) ! lane)")
    case (Inl f)
    show ?thesis by (rule fault [OF Inl]) (use assms True Inl in \<open>simp_all add: lane_step_def\<close>)
  next
    case (Inr r)
    obtain space addr wi where r: "r = (space, addr, wi)" by (cases r)
    note acc = Inr [unfolded r]
    consider "ca_load a" | "\<not> ca_load a" "ca_atom a" | "\<not> ca_load a" "\<not> ca_atom a" by blast
    then show ?thesis
    proof cases
      case 1
      show ?thesis by (rule load [OF acc 1]) (use assms True acc 1 in \<open>simp add: lane_step_def\<close>)
    next
      case 2
      show ?thesis by (rule atom [OF acc 2]) (use assms True acc 2 in \<open>simp add: lane_step_def\<close>)
    next
      case 3
      show ?thesis by (rule store [OF acc 3]) (use assms True acc 3 in \<open>simp add: lane_step_def\<close>)
    qed
  qed
qed

lemma lane_step_place:
  assumes "lane_step env d a pc m lane x p = Some (fo, x', p')"
  shows "same_place (mx_warp x) (mx_warp x') \<and> unplaced fo"
  using assms
proof (cases rule: lane_step_cases)
  case fault
  then show ?thesis using lane_access_unplaced by simp
next
  case load
  then show ?thesis
    by (auto simp: lane_load_def Let_def split: option.splits sum.splits dest!: load_from_warp intro!: upd_lane_place)
next
  case atom
  then show ?thesis
    by (auto simp: lane_atom_def Let_def split: option.splits sum.splits if_splits dest!: atomic_at_keeps intro!: upd_lane_place)
next
  case store
  then show ?thesis
    by (auto simp: lane_store_def Let_def split: option.splits sum.splits if_splits dest!: store_to_place)
qed simp

lemma lanes_from_place:
  "lanes_from env d a pc m lanes x p = Some (fo, x', p') \<Longrightarrow> same_place (mx_warp x) (mx_warp x') \<and> unplaced fo"
proof (induction lanes arbitrary: x p)
  case (Cons lane lanes)
  then show ?case using lane_step_place same_place_trans by (auto split: option.splits) blast+
qed simp

lemma core_place:
  "mem_ldst_atom_core env m d pc a x = Some (fo, x') \<Longrightarrow> same_place (mx_warp x) (mx_warp x') \<and> unplaced fo"
  by (auto simp: mem_ldst_atom_core_def Let_def split: option.splits dest!: lanes_from_place)

lemma mem_handler_place:
  assumes "mem_handler mn = Some h" "h env m d pc x = Some (fo, x')"
  shows "same_place (mx_warp x) (mx_warp x') \<and> unplaced fo"
  using assms core_place
  by (auto simp: mem_handler_def do_ldg_def do_stg_def do_lds_def do_sts_def do_ldl_def do_stl_def do_ldc_def do_ldcu_def
      do_atom_def do_atoms_def do_reds_def do_atomg_def do_redg_def do_membar_def do_fence_def do_errbar_def
      do_cgaerrbar_def do_cctl_def on_trace_def Let_def split: Mnemonic.splits if_splits)

subsection \<open>The CTA of a warp\<close>

lemma each_lane_cta [simp]: "w_cta_id (each_lane m f w) = w_cta_id w"
  by (simp add: each_lane_def)

lemma put_ur_cta [simp]: "w_cta_id (put_ur u v w) = w_cta_id w"
  by (simp add: put_ur_def)

lemma exec_alu_cta: "w_cta_id (snd (exec_alu env d word m pc w)) = w_cta_id w"
proof (cases d)
  case (ALop3 s)
  then show ?thesis by (cases s) (simp_all add: lut_core_def)
next
  case (AElect pu urd src)
  then show ?thesis by (simp add: do_elect_def Let_def)
qed (auto simp: lane_handlers uniform_handlers Let_def split: option.splits)

lemma set_thread_cta [simp]: "w_cta_id (set_thread l t w) = w_cta_id w"
  by (simp add: set_thread_def)

lemma lane_steps_cta: "(\<And>l w. w_cta_id (snd (f l w)) = w_cta_id w) \<Longrightarrow> w_cta_id (snd (lane_steps f ls w)) = w_cta_id w"
  by (induction ls arbitrary: w) (auto split: prod.splits option.splits, metis snd_conv, metis snd_conv)

lemma converge_all_cta: "w_cta_id (converge_all es w) = w_cta_id w"
  by (induction es arbitrary: w) (auto simp: converge_entry_def)

lemma converge_cta [simp]: "w_cta_id (converge_completed_sync w) = w_cta_id w"
  by (simp add: converge_completed_eq converge_all_cta)

lemma foldl_cta: "(\<And>l w. w_cta_id (f w l) = w_cta_id w) \<Longrightarrow> w_cta_id (foldl f w ls) = w_cta_id w"
  by (induction ls arbitrary: w) auto

lemma control_cta:
  "w_cta_id (snd (do_bra k g bop m pc w)) = w_cta_id w" "w_cta_id (snd (do_bssy k g sa b pc m w)) = w_cta_id w"
  "w_cta_id (snd (do_bsync b pc m w)) = w_cta_id w" "w_cta_id (do_exit g m w) = w_cta_id w"
  "w_cta_id (release_warp bid w) = w_cta_id w" "w_cta_id (park_warp bid w) = w_cta_id w"
proof -
  show "w_cta_id (snd (do_bra k g bop m pc w)) = w_cta_id w"
    unfolding do_bra_def by (rule lane_steps_cta) (auto simp: bra_lane_def Let_def split: option.splits)
  show "w_cta_id (snd (do_bssy k g sa b pc m w)) = w_cta_id w" by (auto simp: do_bssy_def Let_def split: option.splits)
  show "w_cta_id (snd (do_bsync b pc m w)) = w_cta_id w"
    by (auto simp: do_bsync_def Let_def suspend_lanes_def split: option.splits)
  show "w_cta_id (do_exit g m w) = w_cta_id w"
    unfolding do_exit_def by (rule foldl_cta) (auto simp: exit_lane_def Let_def)
qed (simp_all add: release_warp_def resume_warp_def park_warp_def)

subsection \<open>The CTAs in the logs\<close>

definition logs_in :: "u32 set \<Rightarrow> Tracer \<Rightarrow> bool" where
  "logs_in S tr \<longleftrightarrow> (\<forall>e\<in>set (tr_race_log tr). re_cta e \<in> S) \<and> (\<forall>d\<in>set (tr_l2_log tr). l2_cta d \<in> S)"

lemma push_race_event_in: "logs_in S tr \<Longrightarrow> (\<And>n. re_cta (ev n) \<in> S) \<Longrightarrow> logs_in S (push_race_event ev cta tr)"
  by (auto simp: logs_in_def push_race_event_def case_prod_unfold)

lemma recorders_in:
  assumes "logs_in S tr" "word_of_nat (w_cta_id w) \<in> S"
  shows "logs_in S (record_race_access env w d pc lane space addr len wr at mo sc ms tr)"
    "logs_in S (record_l2_access env w d pc rk space addr len lane tr)"
    "logs_in S (fence_event env scope w tr)"
proof -
  show "logs_in S (record_race_access env w d pc lane space addr len wr at mo sc ms tr)"
    using assms by (auto simp: record_race_access_def Let_def intro!: push_race_event_in)
  show "logs_in S (record_l2_access env w d pc rk space addr len lane tr)"
    using assms by (auto simp: logs_in_def record_l2_access_def case_prod_unfold Let_def)
  show "logs_in S (fence_event env scope w tr)"
    using assms by (auto simp: fence_event_def Let_def intro!: push_race_event_in)
qed

lemma other_recorders_in [simp]:
  "logs_in S (record_debug_access lane space addr len wr at tr) = logs_in S tr"
  "logs_in S (record_memory_event env w d pc m rk ew space wr lr cm tr) = logs_in S tr"
  by (simp_all add: logs_in_def record_debug_access_def record_memory_event_def case_prod_unfold)

lemma load_from_trace: "load_from space addr wi x = Some (st, v, y) \<Longrightarrow> mx_trace y = mx_trace x"
  by (cases space) (auto simp: load_from_def split: prod.splits)

lemma upd_lane_trace [simp]: "mx_trace (upd_lane lane f x) = mx_trace x"
  by (simp add: upd_lane_def)

lemma lane_step_in:
  assumes "lane_step env d a pc m lane x p = Some (fo, x', p')"
    and "logs_in S (mx_trace x)" "word_of_nat (w_cta_id (mx_warp x)) \<in> S"
  shows "logs_in S (mx_trace x')"
  using assms(1)
proof (cases rule: lane_step_cases)
  case load
  then show ?thesis using assms(2,3)
    by (auto simp: lane_load_def Let_def split: option.splits sum.splits dest!: load_from_trace intro!: recorders_in)
next
  case atom
  then show ?thesis using assms(2,3)
    by (auto simp: lane_atom_def Let_def split: option.splits sum.splits if_splits dest!: atomic_at_keeps intro!: recorders_in)
next
  case store
  then show ?thesis using assms(2,3)
    by (auto simp: lane_store_def Let_def split: option.splits sum.splits if_splits dest!: store_to_keeps intro!: recorders_in)
qed (use assms in simp_all)

lemma lanes_from_in:
  "lanes_from env d a pc m lanes x p = Some (fo, x', p') \<Longrightarrow> logs_in S (mx_trace x) \<Longrightarrow>
    word_of_nat (w_cta_id (mx_warp x)) \<in> S \<Longrightarrow> logs_in S (mx_trace x')"
proof (induction lanes arbitrary: x p)
  case (Cons lane lanes)
  obtain f1 x1 p1 where st: "lane_step env d a pc m lane x p = Some (f1, x1, p1)"
    using Cons.prems(1) by (cases "lane_step env d a pc m lane x p") auto
  have i: "logs_in S (mx_trace x1)" by (rule lane_step_in [OF st Cons.prems(2,3)])
  have w: "word_of_nat (w_cta_id (mx_warp x1)) \<in> S" using lane_step_place [OF st] Cons.prems(3) by (simp add: same_place_def)
  show ?case using Cons.prems(1) Cons.IH [OF _ i w] st i by (cases f1) auto
qed simp

lemma core_in:
  assumes "mem_ldst_atom_core env m d pc a x = Some (fo, x')" "logs_in S (mx_trace x)" "word_of_nat (w_cta_id (mx_warp x)) \<in> S"
  shows "logs_in S (mx_trace x')"
  using assms lanes_from_in [OF _ assms(2,3)]
  by (auto simp: mem_ldst_atom_core_def Let_def split: option.splits)

lemma mem_handler_in:
  assumes "mem_handler mn = Some h" "h env m d pc x = Some (fo, x')" "logs_in S (mx_trace x)" "word_of_nat (w_cta_id (mx_warp x)) \<in> S"
  shows "logs_in S (mx_trace x')"
  using assms core_in [OF _ assms(3,4)] recorders_in(3) [OF assms(3,4)]
  by (auto simp: mem_handler_def do_ldg_def do_stg_def do_lds_def do_sts_def do_ldl_def do_stl_def do_ldc_def do_ldcu_def
      do_atom_def do_atoms_def do_reds_def do_atomg_def do_redg_def do_membar_def do_fence_def do_errbar_def
      do_cgaerrbar_def do_cctl_def on_trace_def Let_def split: Mnemonic.splits if_splits)

lemma mem_handler_numbered:
  assumes "mem_handler mn = Some h" "h env m d pc x = Some (fo, x')" "logs_numbered (mx_trace x)"
  shows "logs_numbered (mx_trace x')"
  using assms core_numbered
  by (auto simp: mem_handler_def do_ldg_def do_stg_def do_lds_def do_sts_def do_ldl_def do_stl_def do_ldc_def do_ldcu_def
      do_atom_def do_atoms_def do_reds_def do_atomg_def do_redg_def do_membar_def do_fence_def do_errbar_def
      do_cgaerrbar_def do_cctl_def on_trace_def Let_def split: Mnemonic.splits if_splits)

subsection \<open>The invariant of the machine\<close>

interpretation reg: data_handlers "register_exec env" for env
proof
  fix d word m pc w l
  show "same_control w (snd (register_exec env d word m pc w))" by (cases d) (simp_all add: exec_alu_control exec_fp_control)
  assume "l < length (w_threads w)" "\<not> lane_live m l (w_threads w ! l)"
  then show "w_threads (snd (register_exec env d word m pc w)) ! l = w_threads w ! l" by (cases d) (simp_all add: exec_alu_mask exec_fp_mask)
qed

lemma register_exec_cta: "w_cta_id (snd (register_exec env d word m pc w)) = w_cta_id w"
  by (cases d) (simp_all add: exec_alu_cta exec_fp_cta)

definition cta_home :: "CtaState \<Rightarrow> bool" where
  "cta_home c \<longleftrightarrow> cta_ok c \<and> (\<forall>w\<in>set (c_warps c). w_cta_id w = c_cta_id c)"

definition tracer_inv :: "u32 set \<Rightarrow> Tracer \<Rightarrow> bool" where
  "tracer_inv S tr \<longleftrightarrow> logs_numbered tr \<and> logs_in S tr"

definition machine_inv :: "FullMachine \<Rightarrow> bool" where
  "machine_inv fm \<longleftrightarrow> (\<forall>c\<in>set (fm_ctas fm). cta_home c) \<and>
     tracer_inv (word_of_nat ` c_cta_id ` set (fm_ctas fm)) (fm_trace fm)"

lemma warps_home: "cta_home c \<Longrightarrow> \<forall>w\<in>set ws. w_cta_id w = c_cta_id c \<Longrightarrow> cta_ok (c\<lparr>c_warps := ws\<rparr>) \<Longrightarrow> cta_home (c\<lparr>c_warps := ws\<rparr>)"
  by (simp add: cta_home_def)

lemma put_warp_home:
  assumes "cta_home c" "wi < length (c_warps c)" "same_place (c_warps c ! wi) w"
  shows "cta_home (put_warp wi w c)" "c_cta_id (put_warp wi w c) = c_cta_id c"
proof -
  have w: "warp_ok (c_warps c ! wi)" "w_warp_id (c_warps c ! wi) = wi" "w_cta_id (c_warps c ! wi) = c_cta_id c"
    using assms(1,2) by (simp_all add: cta_home_def cta_ok_def)
  have "cta_ok (put_warp wi w c)"
    using put_warp_ok [of c w wi] warp_ok_same_control [of "c_warps c ! wi" w] assms w
    by (simp add: cta_home_def same_place_def same_control_def)
  then show "cta_home (put_warp wi w c)"
    using assms(1,3) w(3) set_update_subset_insert [of "c_warps c" wi w]
    by (auto simp: cta_home_def put_warp_def same_place_def)
qed (simp add: put_warp_def)

lemma shared_home [simp]: "cta_home (c\<lparr>c_shared := s\<rparr>) = cta_home c"
  by (simp add: cta_home_def cta_ok_def)

text \<open>The register and control instructions keep the CTA of every warp.\<close>

lemma dispatch_home:
  assumes c: "cta_home c" and wi: "wi < length (c_warps c)" and r: "runs (c_warps c ! wi)"
  shows "cta_home (fst (snd (dispatch (register_exec env) k env race_on pw m em pc wi c)))"
    "c_cta_id (fst (snd (dispatch (register_exec env) k env race_on pw m em pc wi c))) = c_cta_id c"
proof -
  let ?r = "fst (snd (dispatch (register_exec env) k env race_on pw m em pc wi c))"
  have ok: "cta_ok ?r" using reg.dispatch_ok [OF _ wi r] c by (simp add: cta_home_def)
  have home: "\<forall>w\<in>set (c_warps c). w_cta_id w = c_cta_id c" using c by (simp add: cta_home_def)
  have put: "c_cta_id (put_warp wi w c) = c_cta_id c"
    "w_cta_id w = c_cta_id c \<Longrightarrow> \<forall>w\<in>set (c_warps (put_warp wi w c)). w_cta_id w = c_cta_id c" for w
    using home set_update_subset_insert [of "c_warps c" wi w] by (auto simp: put_warp_def)
  have wi': "w_cta_id (c_warps c ! wi) = c_cta_id c" using home wi by simp
  have bar: "\<forall>w\<in>set (c_warps (fst (do_bar env race_on bid wi c))). w_cta_id w = c_cta_id c"
    "c_cta_id (fst (do_bar env race_on bid wi c)) = c_cta_id c" for bid
    using home wi' set_update_subset_insert [of "c_warps c" wi "park_warp bid (c_warps c ! wi)"]
    by (auto simp: do_bar_def Let_def control_cta)
  have async: "c_warps (fst (do_depbar le sb cnt c)) = c_warps c" "c_cta_id (fst (do_depbar le sb cnt c)) = c_cta_id c"
    "c_warps (do_ldgdepbar wr c) = c_warps c" "c_cta_id (do_ldgdepbar wr c) = c_cta_id c" for le sb cnt wr
    by (simp_all add: do_depbar_def do_ldgdepbar_def)
  have "c_cta_id ?r = c_cta_id c \<and> (\<forall>w\<in>set (c_warps ?r). w_cta_id w = c_cta_id c)"
  proof (cases "pw_inst pw")
    case (IBar bid)
    then show ?thesis using bar [of bid] by (simp add: dispatch_def Let_def case_prod_unfold)
  next
    case (IData d)
    have "w_cta_id (snd (register_exec env d (pw_word pw) em pc (c_warps c ! wi))) = c_cta_id c"
      using register_exec_cta wi' by simp
    from put(2) [OF this] show ?thesis using put(1) IData by (simp add: dispatch_def Let_def case_prod_unfold)
  next
    case (IBranch bop)
    then show ?thesis using put(1) put(2) [of "snd (do_bra k (pw_guard pw) bop em pc (c_warps c ! wi))"] control_cta(1) wi'
      by (simp add: dispatch_def Let_def case_prod_unfold)
  next
    case (IBssy sa b)
    then show ?thesis using put(1) put(2) [of "snd (do_bssy k (pw_guard pw) sa b pc em (c_warps c ! wi))"] control_cta(2) wi'
      by (simp add: dispatch_def Let_def case_prod_unfold)
  next
    case (IBsync b)
    then show ?thesis using put(1) put(2) [of "snd (do_bsync b pc em (c_warps c ! wi))"] control_cta(3) wi'
      by (simp add: dispatch_def Let_def case_prod_unfold)
  next
    case IExit
    then show ?thesis using put(1) put(2) [of "do_exit (pw_guard pw) m (c_warps c ! wi)"] control_cta(4) wi'
      by (simp add: dispatch_def Let_def case_prod_unfold)
  qed (use async home in \<open>simp_all add: dispatch_def Let_def case_prod_unfold\<close>)
  then show "c_cta_id ?r = c_cta_id c" "cta_home ?r" using ok by (simp_all add: cta_home_def)
qed

lemma dispatch_unplaced: "unplaced (fst (dispatch (register_exec env) k env race_on pw m em pc wi c))"
proof -
  have lanes: "unplaced (fst (lane_steps f ls w))" if "\<And>l w. unplaced (fst (f l w))" for f ls w
    using that by (induction ls arbitrary: w) (auto split: prod.splits option.splits, metis fst_conv)
  have wf: "unplaced (Some (warp_fault kd msg w pc))" for kd msg w by (simp add: warp_fault_def unplaced_def fault_setters mk_fault_def)
  have "unplaced (fst (do_bra k g bop em pc w))" for g bop w
    unfolding do_bra_def by (rule lanes) (auto simp: bra_lane_def Let_def wf split: option.splits)
  moreover have "unplaced (fst (do_bssy k g sa b pc em w))" "unplaced (fst (do_bsync b pc em w))" for g sa b w
    by (auto simp: do_bssy_def do_bsync_def Let_def wf split: option.splits)
  moreover have "unplaced (fst (register_exec env d word em pc w))" for d word w
  proof (cases d)
    case (FAlu a)
    then show ?thesis by (cases a) (auto simp: do_imad_def x_fault_def unplaced_def fault_setters mk_fault_def)
  qed simp_all
  moreover have "unplaced (Some (unsupported_fault mn var word em pc w))" for mn var word w
    by (simp add: unsupported_fault_def unplaced_def fault_setters mk_fault_def)
  ultimately show ?thesis by (auto simp: dispatch_def Let_def case_prod_beta split: Instr.split)
qed

lemma barrier_event_inv:
  assumes "tracer_inv S tr" "cta \<in> S"
  shows "tracer_inv S (barrier_event env cta ws tr)"
  using assms unfolding tracer_inv_def barrier_event_def
  by (auto intro!: push_race_event_numbered push_race_event_in)

lemma full_dispatch_inv:
  assumes c: "cta_home c" and wi: "wi < length (c_warps c)" and r: "runs (c_warps c ! wi)"
    and tr: "tracer_inv S tr" and S: "word_of_nat (c_cta_id c) \<in> S"
    and d: "full_dispatch env k pw m em pc wi c ms tr = Some (f, c', ms', tr')"
  shows "cta_home c' \<and> c_cta_id c' = c_cta_id c \<and> tracer_inv S tr' \<and> unplaced f"
proof (cases "\<exists>i. pw_inst pw = IData (FMem i)")
  case True
  then obtain i where i: "pw_inst pw = IData (FMem i)" by blast
  let ?x = "\<lparr>mx_warp = c_warps c ! wi, mx_shared = c_shared c, mx_service = ms, mx_trace = tr\<rparr>"
  obtain h x where h: "mem_handler (di_mnem i) = Some h" "h env em i pc ?x = Some (f, x)"
    "c' = (put_warp wi (mx_warp x) c)\<lparr>c_shared := mx_shared x\<rparr>" "tr' = mx_trace x"
    using d i by (auto simp: full_dispatch_def mem_dispatch_def split: option.splits)
  have p: "same_place (c_warps c ! wi) (mx_warp x)" "unplaced f" using mem_handler_place [OF h(1,2)] by simp_all
  have "w_cta_id (c_warps c ! wi) = c_cta_id c" using c wi by (simp add: cta_home_def)
  then have "tracer_inv S tr'"
    using mem_handler_numbered [OF h(1,2)] mem_handler_in [OF h(1,2), of S] tr S by (simp add: tracer_inv_def h(4))
  then show ?thesis using put_warp_home [OF c wi p(1)] p(2) by (simp add: h(3))
next
  case False
  obtain f1 c1 ev where e: "dispatch (register_exec env) k env (tr_race_on tr) pw m em pc wi c = (f1, c1, ev)"
    by (cases "dispatch (register_exec env) k env (tr_race_on tr) pw m em pc wi c") auto
  have "full_dispatch env k pw m em pc wi c ms tr = Some (f1, c1, ms,
      (case ev of None \<Rightarrow> tr | Some ws \<Rightarrow> barrier_event env (word_of_nat (c_cta_id c)) ws tr))"
    using False by (auto simp: full_dispatch_def e split: Instr.split FullInst.split)
  with d have "f = f1" "c' = c1" "tr' = (case ev of None \<Rightarrow> tr | Some ws \<Rightarrow> barrier_event env (word_of_nat (c_cta_id c)) ws tr)" by auto
  moreover have "unplaced f1" using dispatch_unplaced [of env k "tr_race_on tr" pw m em pc wi c] by (simp add: e)
  ultimately show ?thesis
    using dispatch_home [OF c wi r, of env k "tr_race_on tr" pw m em pc] barrier_event_inv [OF tr S] tr
    by (auto simp: e split: option.split)
qed

lemma full_warp_inv:
  assumes c: "cta_home c" and wi: "wi < length (c_warps c)" and r: "runs (c_warps c ! wi)"
    and tr: "tracer_inv S tr" and S: "word_of_nat (c_cta_id c) \<in> S"
    and d: "full_warp env k pw m pc wi c ms tr = Some (f, c', ms', tr')"
  shows "cta_home c' \<and> c_cta_id c' = c_cta_id c \<and> tracer_inv S tr' \<and> unplaced f"
proof -
  let ?w = "advance_pcs pc (c_warps c ! wi)" and ?c = "put_warp wi (advance_pcs pc (c_warps c ! wi)) c"
  have "length (w_threads (c_warps c ! wi)) = 32" using c wi pre_invD(1) by (auto simp: cta_home_def cta_ok_def warp_ok_def ctl_inv_def)
  then have r': "runs (c_warps ?c ! wi)" using r wi by (auto simp: put_warp_def runs_def live_def advance_pcs_live)
  have "same_place (c_warps c ! wi) ?w" by (simp add: same_place_def advance_pcs_control) (simp add: advance_pcs_def)
  from put_warp_home [OF c wi this] have c': "cta_home ?c" "c_cta_id ?c = c_cta_id c" .
  have wi': "wi < length (c_warps ?c)" using wi by (simp add: put_warp_def)
  show ?thesis
    using d full_dispatch_inv [OF c'(1) wi' r' tr] c' S tr by (auto simp: full_warp_def Let_def split: if_splits)
qed

text \<open>Selection and one group.\<close>

lemma full_next_inv:
  assumes "full_next fm = (r, fm')" "machine_inv fm"
  shows "machine_inv fm' \<and> map c_cta_id (fm_ctas fm') = map c_cta_id (fm_ctas fm)"
proof -
  have c: "fm_ctas fm' = map (\<lambda>c. c\<lparr>c_warps := map mark_done (c_warps c)\<rparr>) (fm_ctas fm)" "fm_trace fm' = fm_trace fm"
    using assms(1) next_group_ctas [of None "sched_view fm"]
    by (auto simp: full_next_def sched_view_def scan_schedule_ctas split: prod.splits)
  have "cta_home (c\<lparr>c_warps := map mark_done (c_warps c)\<rparr>)" if "cta_home c" for c
    using that mark_done_ok by (auto simp: cta_home_def cta_ok_def mark_done_def)
  then show ?thesis using assms(2) by (auto simp: machine_inv_def c image_image comp_def)
qed

lemma full_next_runs:
  assumes "full_next fm = (Some g, fm')"
  shows "gr_cta g < length (fm_ctas fm')" "gr_warp g < length (c_warps (fm_ctas fm' ! gr_cta g))"
    "runs (c_warps (fm_ctas fm' ! gr_cta g) ! gr_warp g)"
proof -
  obtain b m where "next_group None (sched_view fm) = (Some g, b, m)" "fm_ctas fm' = mc_ctas m"
    using assms by (auto simp: full_next_def split: prod.splits)
  then show "gr_cta g < length (fm_ctas fm')" "gr_warp g < length (c_warps (fm_ctas fm' ! gr_cta g))"
    "runs (c_warps (fm_ctas fm' ! gr_cta g) ! gr_warp g)" using next_group_runs by auto
qed

lemma unplaced_pc_fault [simp]: "unplaced (Some (pc_fault msg w pc))"
  by (simp add: pc_fault_def unplaced_def fault_setters mk_fault_def)

lemma full_group_inv:
  assumes n: "full_next fm0 = (Some g, fm)" and i: "machine_inv fm"
    and st: "full_group env k prog g fm = Some (f, fm')"
  shows "machine_inv fm' \<and> map c_cta_id (fm_ctas fm') = map c_cta_id (fm_ctas fm) \<and> unplaced f"
proof -
  note R = full_next_runs [OF n]
  let ?c = "fm_ctas fm ! gr_cta g" and ?S = "word_of_nat ` c_cta_id ` set (fm_ctas fm)"
  have c: "cta_home ?c" "word_of_nat (c_cta_id ?c) \<in> ?S" using i R(1) by (auto simp: machine_inv_def)
  have find: "find_idx (\<lambda>w. w_warp_id w = gr_warp g) (c_warps ?c) = Some (gr_warp g)"
    using find_warp_id R(2) c(1) by (simp add: cta_home_def)
  have tr: "tracer_inv ?S ((fm_trace fm)\<lparr>tr_executed := fm_executed fm\<rparr>)"
    using i by (simp add: machine_inv_def tracer_inv_def logs_numbered_def logs_in_def)
  show ?thesis
  proof (cases "unat (gr_pc g div 16) \<ge> length prog \<or> \<not> pw_unique (prog ! unat (gr_pc g div 16))")
    case True
    then show ?thesis using st i by (auto simp: full_group_def Let_def split: if_splits)
  next
    case False
    then obtain c' ms tr where w: "full_warp env k (prog ! unat (gr_pc g div 16)) (gr_mask g) (gr_pc g) (gr_warp g) ?c (fm_service fm)
        ((fm_trace fm)\<lparr>tr_executed := fm_executed fm\<rparr>) = Some (f, c', ms, tr)"
      "fm' = fm\<lparr>fm_ctas := (fm_ctas fm)[gr_cta g := c'], fm_service := ms, fm_trace := tr\<rparr>"
      using st by (auto simp: full_group_def Let_def find)
    note I = full_warp_inv [OF c(1) R(2,3) tr c(2) w(1)]
    have ids: "map c_cta_id ((fm_ctas fm)[gr_cta g := c']) = map c_cta_id (fm_ctas fm)"
      using I R(1) by (simp add: map_update list_update_same_conv)
    then have "c_cta_id ` set ((fm_ctas fm)[gr_cta g := c']) = c_cta_id ` set (fm_ctas fm)" by (metis image_set)
    then show ?thesis using I i ids set_update_subset_insert [of "fm_ctas fm" "gr_cta g" c'] w(2)
      by (auto simp: machine_inv_def)
  qed
qed

subsection \<open>The run loop\<close>

lemma unplaced_locate: "unplaced (Some f) \<Longrightarrow> unplaced (Some (locate_fault k g f))"
  by (simp add: unplaced_def locate_fault_def Let_def fault_setters)

lemma unplaced_ends [simp]: "unplaced (Some (limit_fault k limit g))" "unplaced (barrier_deadlock_fault kn cs)"
  "unplaced (Some (stall_fault k))"
proof -
  show "unplaced (barrier_deadlock_fault kn cs)"
    by (induction cs) (auto simp: unplaced_def fault_setters mk_fault_def split: list.splits)
qed (simp_all add: unplaced_def limit_fault_def stall_fault_def fault_setters mk_fault_def)

lemma unplaced_finish: "unplaced (ir_fault (finish k m))"
  by (auto simp: finish_def Let_def mk_result_def case_prod_beta split: ExecutionTerminalState.split)

lemma mark_done_home: "cta_home c \<Longrightarrow> cta_home (c\<lparr>c_warps := map mark_done (c_warps c)\<rparr>)"
  using mark_done_ok by (auto simp: cta_home_def cta_ok_def mark_done_def)

lemma marked_inv:
  assumes "machine_inv fm" "fm_ctas fm' = map (\<lambda>c. c\<lparr>c_warps := map mark_done (c_warps c)\<rparr>) (fm_ctas fm)" "fm_trace fm' = fm_trace fm"
  shows "machine_inv fm'" "map c_cta_id (fm_ctas fm') = map c_cta_id (fm_ctas fm)"
  using assms mark_done_home by (auto simp: machine_inv_def image_image comp_def)

lemma full_finish_inv:
  assumes n: "full_next fm0 = (None, fm)" and i: "machine_inv fm" and f: "full_finish k fm = (f, fm')"
  shows "machine_inv fm' \<and> map c_cta_id (fm_ctas fm') = map c_cta_id (fm_ctas fm) \<and> fm_executed fm' = fm_executed fm \<and>
    fm_service fm' = fm_service fm \<and> unplaced f \<and> (f = None \<longrightarrow> launch_exited (fm_ctas fm'))"
proof -
  obtain b m where m: "next_group None (sched_view fm0) = (None, b, m)" "fm_ctas fm = mc_ctas m"
    using n by (auto simp: full_next_def split: prod.splits)
  have m': "mc_ctas m = fst (scan_schedule None (fm_ctas fm0))"
    using next_group_ctas [of None "sched_view fm0"] m(1) by (simp add: sched_view_def)
  have e: "sc_groups (snd (scan_schedule None (mc_ctas (sched_view fm)))) = []"
    "\<not> sc_any_runnable (snd (scan_schedule None (mc_ctas (sched_view fm))))"
    using rescan_none [OF next_group_none [OF m(1)]] by (simp_all add: sched_view_def m(2) m')
  have ok: "ctas_ok (mc_ctas (sched_view fm))" using i by (simp add: machine_inv_def cta_home_def ctas_ok_def sched_view_def)
  have r: "ir_ctas (finish k (sched_view fm)) = map (\<lambda>c. c\<lparr>c_warps := map mark_done (c_warps c)\<rparr>) (fm_ctas fm)"
    by (simp add: finish_def case_prod_beta Let_def mk_result_def scan_schedule_ctas sched_view_def split: ExecutionTerminalState.split)
  have fm': "fm' = fm\<lparr>fm_ctas := ir_ctas (finish k (sched_view fm))\<rparr>" "f = ir_fault (finish k (sched_view fm))"
    using f by (auto simp: full_finish_def Let_def)
  then have "fm_ctas fm' = map (\<lambda>c. c\<lparr>c_warps := map mark_done (c_warps c)\<rparr>) (fm_ctas fm)" "fm_trace fm' = fm_trace fm"
    using r by simp_all
  from marked_inv [OF i this] show ?thesis
    using fm' unplaced_finish [of k "sched_view fm"] finish_result(3) [OF ok e, of k] by simp
qed

lemma set_executed_inv [simp]: "machine_inv (fm\<lparr>fm_executed := n\<rparr>) = machine_inv fm"
  by (simp add: machine_inv_def)

lemma set_service_inv [simp]: "machine_inv (fm\<lparr>fm_service := ms\<rparr>) = machine_inv fm"
  by (simp add: machine_inv_def)

text \<open>
  What every run keeps, whatever the other workers do to the shared service. The group of
  \<open>full_group_inv\<close> runs on the machine with the interference; selection does not read the service.
\<close>

lemma full_next_service: "full_next fm = (r, fm1) \<Longrightarrow> full_next (fm\<lparr>fm_service := ms\<rparr>) = (r, fm1\<lparr>fm_service := ms\<rparr>)"
  by (auto simp: full_next_def sched_view_def split: prod.splits)

lemma worker_run_inv:
  assumes "worker_run env k prog limit fm r" "machine_inv fm" "fm_executed fm \<le> limit"
  shows "machine_inv (snd (snd r)) \<and> map c_cta_id (fm_ctas (snd (snd r))) = map c_cta_id (fm_ctas fm) \<and> unplaced (fst r) \<and>
    fm_executed (snd (snd r)) \<le> limit \<and> (fst r = None \<longrightarrow> \<not> fst (snd r) \<and> launch_exited (fm_ctas (snd (snd r))))"
  using assms
proof (induction rule: worker_run.induct)
  case (stop fm fm1 f fm2)
  have "machine_inv fm1" "map c_cta_id (fm_ctas fm1) = map c_cta_id (fm_ctas fm)" using full_next_inv [OF stop(1,3)] by simp_all
  then show ?case using full_finish_inv [OF stop(1) _ stop(2)] full_next_executed [OF stop(1)] stop(4) by simp
next
  case (limit fm g fm1)
  then show ?case using full_next_inv [OF limit(1,3)] full_next_executed [OF limit(1)] by simp
next
  case (fault fm g fm1 ms f fm2)
  have i: "machine_inv (fm1\<lparr>fm_service := ms\<rparr>)" using full_next_inv [OF fault(1,4)] by simp
  show ?case
    using full_group_inv [OF full_next_service [OF fault(1)] i fault(3)] full_next_inv [OF fault(1,4)]
      full_next_executed [OF fault(1)] full_group_executed [OF fault(3)] fault(5) unplaced_locate by simp
next
  case (execute fm g fm1 ms fm2 r)
  have i: "machine_inv (fm1\<lparr>fm_service := ms\<rparr>)" using full_next_inv [OF execute(1,6)] by simp
  note I = full_group_inv [OF full_next_service [OF execute(1)] i execute(3)]
  have "fm_executed fm2 + 1 \<le> limit"
    using execute(2) full_group_executed [OF execute(3)] by (simp add: inc_le)
  then show ?case using execute.IH I full_next_inv [OF execute(1,6)] by simp
qed

text \<open>The machine of a worker before its first instruction.\<close>

definition start_full :: "CtaState list \<Rightarrow> MemoryService \<Rightarrow> Tracer \<Rightarrow> FullMachine" where
  "start_full cs ms tr = \<lparr>fm_ctas = cs, fm_rr = 0, fm_executed = 0, fm_service = ms, fm_trace = tr\<rparr>"

definition fresh_logs :: "Tracer \<Rightarrow> bool" where
  "fresh_logs tr \<longleftrightarrow> tr_race_log tr = [] \<and> tr_race_ordinal tr = [] \<and> tr_l2_log tr = [] \<and> tr_l2_ordinal tr = []"

lemma init_home: "\<forall>c\<in>set (fst (init_ctas env sh_size local_size ids n ms)). cta_home c"
proof (induction ids arbitrary: n ms)
  case (Cons i ids)
  have "\<forall>w\<in>set (c_warps (fst (init_cta env sh_size local_size i n ms))). w_cta_id w = c_cta_id (fst (init_cta env sh_size local_size i n ms))"
    by (auto simp: init_cta_def Let_def case_prod_beta init_warp_def)
  then show ?case using Cons init_cta_ok by (simp add: case_prod_beta cta_home_def)
qed simp

lemma init_ids: "map c_cta_id (fst (init_ctas env sh_size local_size ids n ms)) = ids"
  by (induction ids arbitrary: n ms) (simp_all add: case_prod_beta, simp add: init_cta_def Let_def case_prod_beta)

lemma start_full_inv:
  "fresh_logs tr \<Longrightarrow> machine_inv (start_full (fst (init_ctas env sh_size local_size ids n ms)) ms' tr)"
  using init_home numbered_empty [of re_cta re_ordinal] numbered_empty [of l2_cta l2_ordinal]
  by (auto simp: machine_inv_def start_full_def fresh_logs_def tracer_inv_def logs_numbered_def logs_in_def)

end
