(* ===== verification/Race_Relabel.thy ===== *)
theory Race_Relabel
  imports Mem_Record_Facts Race_Facts
begin

text \<open>
  The race detector sees the dynamic instruction numbers only through their order within a CTA:
  it commutes with every renumbering that keeps that order, and its JSON report does not show
  the numbers. The detector of a launch is one replay of the merged log, so its report depends
  neither on how the log was split among workers nor on how each worker counted.
\<close>

subsection \<open>Renumbering the stored accesses\<close>

definition om_map :: "('v \<Rightarrow> 'v) \<Rightarrow> ('k::linorder, 'v) omap \<Rightarrow> ('k, 'v) omap" where
  "om_map f m = map (apsnd f) m"

lemma om_map_simps [simp]: "om_map f [] = []" "om_map f ((k, v) # m) = (k, f v) # om_map f m"
  "om_map f (m @ n) = om_map f m @ om_map f n" "(om_map f m = []) = (m = [])"
  by (simp_all add: om_map_def)

lemma om_put_map [simp]: "om_put k (f v) (om_map f m) = om_map f (om_put k v m)"
  by (induction k v m rule: om_put.induct) simp_all

lemma om_find_map [simp]: "om_find (om_map f m) k = map_option f (om_find m k)"
  by (induction m) (auto simp: om_find_def om_map_def)

lemma om_at_map: "f d = d \<Longrightarrow> om_at d (om_map f m) k = f (om_at d m k)"
  by (simp add: om_at_def split: option.split)

definition renum :: "(u32 \<Rightarrow> u64 \<Rightarrow> u64) \<Rightarrow> RaceAccess \<Rightarrow> RaceAccess" where
  "renum g a = a\<lparr>rc_instruction := g (rc_cta a) (rc_instruction a)\<rparr>"

definition renum_iv :: "(u32 \<Rightarrow> u64 \<Rightarrow> u64) \<Rightarrow> ShadowInterval \<Rightarrow> ShadowInterval" where
  "renum_iv g iv = iv\<lparr>si_write := map_option (apfst (renum g)) (si_write iv),
     si_readers := om_map (apfst (renum g)) (si_readers iv)\<rparr>"

definition renum_report :: "(u32 \<Rightarrow> u64 \<Rightarrow> u64) \<Rightarrow> RaceReport \<Rightarrow> RaceReport" where
  "renum_report g r = r\<lparr>rr_first := renum g (rr_first r), rr_second := renum g (rr_second r)\<rparr>"

definition renum_st :: "(u32 \<Rightarrow> u64 \<Rightarrow> u64) \<Rightarrow> ReportSt \<Rightarrow> ReportSt" where
  "renum_st g st = (om_map (renum_report g) (fst st), map (renum_report g) (snd st))"

abbreviation renum_sh :: "(u32 \<Rightarrow> u64 \<Rightarrow> u64) \<Rightarrow> Shadow \<Rightarrow> Shadow" where
  "renum_sh g \<equiv> om_map (renum_iv g)"

definition renum_detector :: "(u32 \<Rightarrow> u64 \<Rightarrow> u64) \<Rightarrow> RaceDetector \<Rightarrow> RaceDetector" where
  "renum_detector g d = d\<lparr>rd_global_shadow := om_map (renum_sh g) (rd_global_shadow d),
     rd_shared_shadow := om_map (renum_sh g) (rd_shared_shadow d),
     rd_reports := om_map (renum_report g) (rd_reports d)\<rparr>"

lemma renum_fields [simp]:
  "rc_instruction (renum g a) = g (rc_cta a) (rc_instruction a)" "rc_pc (renum g a) = rc_pc a"
  "rc_mnemonic (renum g a) = rc_mnemonic a" "rc_space (renum g a) = rc_space a" "rc_alloc_id (renum g a) = rc_alloc_id a"
  "rc_generation (renum g a) = rc_generation a" "rc_cta (renum g a) = rc_cta a" "rc_sm (renum g a) = rc_sm a"
  "rc_warp (renum g a) = rc_warp a" "rc_lane (renum g a) = rc_lane a" "rc_begin (renum g a) = rc_begin a"
  "rc_end (renum g a) = rc_end a" "rc_is_write (renum g a) = rc_is_write a" "rc_is_atomic (renum g a) = rc_is_atomic a"
  "rc_mem_order (renum g a) = rc_mem_order a" "rc_scope (renum g a) = rc_scope a"
  "rc_order_scope_ok (renum g a) = rc_order_scope_ok a" "actor (renum g a) = actor a" "actor_str (renum g a) = actor_str a"
  by (simp_all add: renum_def actor_def actor_str_def)

lemma renum_generation [simp]: "(renum g a)\<lparr>rc_generation := n\<rparr> = renum g (a\<lparr>rc_generation := n\<rparr>)"
  by (simp add: renum_def)

lemma renum_iv_fields [simp]:
  "si_begin (renum_iv g iv) = si_begin iv" "si_end (renum_iv g iv) = si_end iv"
  "si_write (renum_iv g iv) = map_option (apfst (renum g)) (si_write iv)"
  "si_readers (renum_iv g iv) = om_map (apfst (renum g)) (si_readers iv)"
  "(renum_iv g iv)\<lparr>si_begin := b\<rparr> = renum_iv g (iv\<lparr>si_begin := b\<rparr>)"
  "(renum_iv g iv)\<lparr>si_end := b\<rparr> = renum_iv g (iv\<lparr>si_end := b\<rparr>)"
  by (simp_all add: renum_iv_def)

lemma renum_detector_fields [simp]:
  "rd_enabled (renum_detector g d) = rd_enabled d" "rd_clocks (renum_detector g d) = rd_clocks d"
  "rd_release_clocks (renum_detector g d) = rd_release_clocks d" "rd_generations (renum_detector g d) = rd_generations d"
  "rd_global_shadow (renum_detector g d) = om_map (renum_sh g) (rd_global_shadow d)"
  "rd_shared_shadow (renum_detector g d) = om_map (renum_sh g) (rd_shared_shadow d)"
  "rd_reports (renum_detector g d) = om_map (renum_report g) (rd_reports d)"
  "(renum_detector g d)\<lparr>rd_clocks := cs\<rparr> = renum_detector g (d\<lparr>rd_clocks := cs\<rparr>)"
  "(renum_detector g d)\<lparr>rd_release_clocks := rs\<rparr> = renum_detector g (d\<lparr>rd_release_clocks := rs\<rparr>)"
  by (simp_all add: renum_detector_def)

subsection \<open>The accesses a detector has stored\<close>

definition iv_in :: "(u32 \<times> u64) set \<Rightarrow> ShadowInterval \<Rightarrow> bool" where
  "iv_in I iv \<longleftrightarrow> (\<forall>w. si_write iv = Some w \<longrightarrow> (rc_cta (fst w), rc_instruction (fst w)) \<in> I) \<and>
     (\<forall>p\<in>set (si_readers iv). (rc_cta (fst (snd p)), rc_instruction (fst (snd p))) \<in> I)"

definition sh_in :: "(u32 \<times> u64) set \<Rightarrow> Shadow \<Rightarrow> bool" where
  "sh_in I sh \<longleftrightarrow> (\<forall>p\<in>set sh. iv_in I (snd p))"

definition detector_in :: "(u32 \<times> u64) set \<Rightarrow> RaceDetector \<Rightarrow> bool" where
  "detector_in I d \<longleftrightarrow> (\<forall>p\<in>set (rd_global_shadow d). sh_in I (snd p)) \<and> (\<forall>p\<in>set (rd_shared_shadow d). sh_in I (snd p))"

abbreviation access_in :: "(u32 \<times> u64) set \<Rightarrow> RaceAccess \<Rightarrow> bool" where
  "access_in I a \<equiv> (rc_cta a, rc_instruction a) \<in> I"

text \<open>The renumbering keeps the order of the numbers of one CTA.\<close>

definition keeps_order :: "(u32 \<Rightarrow> u64 \<Rightarrow> u64) \<Rightarrow> (u32 \<times> u64) set \<Rightarrow> bool" where
  "keeps_order g I \<longleftrightarrow> (\<forall>c i j. (c, i) \<in> I \<longrightarrow> (c, j) \<in> I \<longrightarrow> (g c i < g c j \<longleftrightarrow> i < j))"

lemma sh_in_simps [simp]: "sh_in I []" "sh_in I (q # b) \<longleftrightarrow> iv_in I (snd q) \<and> sh_in I b" "sh_in I (a @ b) \<longleftrightarrow> sh_in I a \<and> sh_in I b"
  by (auto simp: sh_in_def)

lemma om_put_in: "p \<in> set (om_put k v m) \<Longrightarrow> p = (k, v) \<or> p \<in> set m"
  by (induction k v m rule: om_put.induct) (auto split: if_splits)

lemma om_at_in: "P d \<Longrightarrow> \<forall>p\<in>set m. P (snd p) \<Longrightarrow> P (om_at d m k)"
  by (auto simp: om_at_def om_find_def split: option.split dest!: map_of_SomeD)

lemma fresh_in: "access_in I acc \<Longrightarrow> iv_in I (fresh_interval acc cl b e)"
  by (simp add: fresh_interval_def iv_in_def)

lemma covered_in: "access_in I acc \<Longrightarrow> iv_in I iv \<Longrightarrow> iv_in I (covered_interval acc cl iv b e)"
  by (auto simp: covered_interval_def iv_in_def dest!: om_put_in)

lemma pieces_in: "access_in I acc \<Longrightarrow> iv_in I iv \<Longrightarrow> sh_in I (pieces acc cl pos iv)"
  by (auto simp: pieces_def Let_def sh_in_def intro: fresh_in covered_in) (auto simp: iv_in_def)

lemma observe_loop_in:
  "access_in I acc \<Longrightarrow> sh_in I sh \<Longrightarrow> observe_loop acc cl sh pos st = (kept, repl, p, st') \<Longrightarrow> sh_in I kept \<and> sh_in I repl"
proof (induction sh arbitrary: pos st kept repl p st')
  case (Cons x sh)
  obtain k iv where x: "x = (k, iv)" by (cases x)
  have iv: "iv_in I iv" "sh_in I sh" using Cons.prems(2) by (simp_all add: x)
  note P = pieces_in [OF Cons.prems(1) iv(1), of cl pos]
  show ?case
  proof (cases "si_end iv \<le> rc_begin acc")
    case True
    obtain ke re q sf where l: "observe_loop acc cl sh pos st = (ke, re, q, sf)" by (cases "observe_loop acc cl sh pos st")
    show ?thesis using Cons.IH [OF Cons.prems(1) iv(2) l] Cons.prems(3) iv True by (auto simp: x l)
  next
    case False
    let ?st = "check_interval acc cl iv (max (rc_begin acc) (si_begin iv)) (min (rc_end acc) (si_end iv)) st"
    obtain ke re q sf where l: "observe_loop acc cl sh (min (rc_end acc) (si_end iv)) ?st = (ke, re, q, sf)"
      by (cases "observe_loop acc cl sh (min (rc_end acc) (si_end iv)) ?st")
    show ?thesis using Cons.IH [OF Cons.prems(1) iv(2) l] Cons.prems(3) iv False P by (auto simp: x l Let_def split: if_splits)
  qed
qed simp

lemma foldl_put_in: "sh_in I m \<Longrightarrow> sh_in I ps \<Longrightarrow> sh_in I (foldl (\<lambda>m (k, iv). om_put k iv m) m ps)"
proof (induction ps arbitrary: m)
  case (Cons p ps)
  have "sh_in I (om_put (fst p) (snd p) m)" using Cons.prems om_put_in [of _ "fst p" "snd p" m] by (auto simp: sh_in_def)
  then show ?case using Cons.IH [of "om_put (fst p) (snd p) m"] Cons.prems(2) by (simp add: case_prod_beta)
qed simp

lemma observe_shadow_in:
  assumes "access_in I acc" "sh_in I sh"
  shows "sh_in I (fst (observe_shadow acc cl sh st))"
proof -
  obtain kept repl p st' where l: "observe_loop acc cl sh (rc_begin acc) st = (kept, repl, p, st')"
    by (cases "observe_loop acc cl sh (rc_begin acc) st")
  have "sh_in I (trailing_gap acc cl p)" using fresh_in [OF assms(1)] by (simp add: trailing_gap_def)
  then have "sh_in I (foldl (\<lambda>m (k, iv). om_put k iv m) kept (repl @ trailing_gap acc cl p))"
    using observe_loop_in [OF assms l] by (intro foldl_put_in) simp_all
  then show ?thesis by (simp add: observe_shadow_def l)
qed

lemma observe_in:
  assumes "access_in I a" "detector_in I d"
  shows "detector_in I (snd (observe a d))"
proof -
  have e: "sh_in I []" by simp
  have s: "sh_in I (om_at [] (rd_global_shadow d) k)" "sh_in I (om_at [] (rd_shared_shadow d) c)" for k c
    using assms(2) om_at_in [of "sh_in I", OF e] unfolding detector_in_def by blast+
  have ac: "access_in I (a\<lparr>rc_generation := n\<rparr>)" for n using assms(1) by simp
  show ?thesis using assms observe_shadow_in [OF assms(1) s(1)] observe_shadow_in [OF assms(1) s(2)]
      observe_shadow_in [OF ac s(1)] observe_shadow_in [OF ac s(2)]
    by (auto simp: observe_def Let_def detector_in_def case_prod_beta dest!: om_put_in)
qed

subsection \<open>The detector commutes with the renumbering\<close>

lemma happens_before_renum:
  assumes "keeps_order g I" "access_in I p" "access_in I a"
  shows "happens_before (renum g p) pc (renum g a) ac = happens_before p pc a ac"
proof (cases "rc_cta p = rc_cta a")
  case True
  then have "g (rc_cta p) (rc_instruction p) < g (rc_cta a) (rc_instruction a) \<longleftrightarrow> rc_instruction p < rc_instruction a"
    using assms unfolding keeps_order_def by metis
  then show ?thesis by (simp add: happens_before_def)
next
  case False
  then show ?thesis by (simp add: happens_before_def actor_def)
qed

lemma renum_report_fields [simp]:
  "rr_occurrence (renum_report g r) = rr_occurrence r"
  "(renum_report g r)\<lparr>rr_occurrence := n\<rparr> = renum_report g (r\<lparr>rr_occurrence := n\<rparr>)"
  by (simp_all add: renum_report_def)

lemma report_renum: "report (renum g p) (renum g a) ob oe why (renum_st g st) = renum_st g (report p a ob oe why st)"
proof -
  have k: "dedup_key (renum g p) (renum g a) ob oe = dedup_key p a ob oe" by (simp add: dedup_key_def)
  have r: "\<lparr>rr_first = renum g p, rr_second = renum g a, rr_overlap_begin = ob, rr_overlap_end = oe, rr_reason = w,
      rr_sync_chain = sc, rr_occurrence = n, rr_key = key\<rparr> =
    renum_report g \<lparr>rr_first = p, rr_second = a, rr_overlap_begin = ob, rr_overlap_end = oe, rr_reason = w,
      rr_sync_chain = sc, rr_occurrence = n, rr_key = key\<rparr>" for w sc n key
    by (simp add: renum_report_def)
  show ?thesis
    by (cases st) (simp add: report_def renum_st_def k Let_def r split: option.split)
qed

lemma check_against_renum:
  assumes "keeps_order g I" "access_in I a" "access_in I w"
  shows "check_against (renum g a) cl ob oe (renum g w, c) (renum_st g st) = renum_st g (check_against a cl ob oe (w, c) st)"
  using happens_before_renum [OF assms(1,3,2)] by (simp add: check_against_def report_renum split: prod.split bool.split)

lemma check_interval_renum:
  assumes g: "keeps_order g I" and a: "access_in I a" and iv: "iv_in I iv"
  shows "check_interval (renum g a) cl (renum_iv g iv) ob oe (renum_st g st) = renum_st g (check_interval a cl iv ob oe st)"
proof -
  have readers: "foldl (\<lambda>st (_, rr). check_against (renum g a) cl ob oe rr st) (renum_st g st) (om_map (apfst (renum g)) rs) =
      renum_st g (foldl (\<lambda>st (_, rr). check_against a cl ob oe rr st) st rs)"
    if "\<forall>p\<in>set rs. access_in I (fst (snd p))" for rs :: "(RaceActor, RaceAccess \<times> HbClock) omap" and st
    using that
  proof (induction rs arbitrary: st)
    case (Cons p rs)
    obtain k w c where p: "p = (k, w, c)" by (cases p)
    show ?case using Cons.prems Cons.IH [of "check_against a cl ob oe (w, c) st"] by (simp add: p check_against_renum [OF g a])
  qed simp
  have ex: "writer_exempt (renum g a) (renum_iv g iv) = writer_exempt a iv"
    by (auto simp: writer_exempt_def split: option.split)
  show ?thesis using iv
    by (cases "si_write iv") (auto simp: check_interval_def Let_def ex readers iv_in_def check_against_renum [OF g a])
qed

lemma fresh_renum: "fresh_interval (renum g a) cl b e = renum_iv g (fresh_interval a cl b e)"
  by (simp add: fresh_interval_def renum_iv_def)

lemma covered_renum: "covered_interval (renum g a) cl (renum_iv g iv) b e = renum_iv g (covered_interval a cl iv b e)"
proof -
  have "(renum g a, cl) = apfst (renum g) (a, cl)" by simp
  then show ?thesis by (simp only: covered_interval_def renum_fields renum_iv_fields om_put_map) (simp add: renum_iv_def)
qed

lemma pieces_renum: "pieces (renum g a) cl pos (renum_iv g iv) = renum_sh g (pieces a cl pos iv)"
  by (simp add: pieces_def Let_def fresh_renum covered_renum)

lemma observe_loop_renum:
  assumes g: "keeps_order g I" and a: "access_in I a" and sh: "sh_in I sh"
  shows "observe_loop (renum g a) cl (renum_sh g sh) pos (renum_st g st) =
    (case observe_loop a cl sh pos st of (kept, repl, p, st') \<Rightarrow> (renum_sh g kept, renum_sh g repl, p, renum_st g st'))"
  using sh
proof (induction sh arbitrary: pos st)
  case (Cons x sh)
  obtain k iv where x: "x = (k, iv)" by (cases x)
  have iv: "iv_in I iv" "sh_in I sh" using Cons.prems by (simp_all add: sh_in_def x)
  show ?case using Cons.IH [OF iv(2)]
    by (simp add: x Let_def check_interval_renum [OF g a iv(1)] pieces_renum split: prod.split)
qed simp

lemma foldl_put_renum:
  "foldl (\<lambda>m (k, iv). om_put k iv m) (renum_sh g m) (renum_sh g ps) = renum_sh g (foldl (\<lambda>m (k, iv). om_put k iv m) m ps)"
  by (induction ps arbitrary: m) auto

lemma observe_shadow_renum:
  assumes "keeps_order g I" "access_in I a" "sh_in I sh"
  shows "observe_shadow (renum g a) cl (renum_sh g sh) (renum_st g st) =
    (case observe_shadow a cl sh st of (sh', st') \<Rightarrow> (renum_sh g sh', renum_st g st'))"
proof -
  have "trailing_gap (renum g a) cl p = renum_sh g (trailing_gap a cl p)" for p
    by (simp add: trailing_gap_def fresh_renum)
  then show ?thesis
    using foldl_put_renum [of g] by (simp add: observe_shadow_def observe_loop_renum [OF assms] om_map_simps(3) [symmetric]
        del: om_map_simps(3) split: prod.split)
qed


lemma observe_renum:
  assumes g: "keeps_order g I" and a: "access_in I a" and d: "detector_in I d"
  shows "snd (observe (renum g a) (renum_detector g d)) = renum_detector g (snd (observe a d))"
proof -
  have e: "sh_in I []" by simp
  have s: "sh_in I (om_at [] (rd_global_shadow d) k)" "sh_in I (om_at [] (rd_shared_shadow d) c)" for k c
    using d om_at_in [of "sh_in I", OF e] unfolding detector_in_def by blast+
  have st: "(om_map (renum_report g) (rd_reports d), []) = renum_st g (rd_reports d, [])" by (simp add: renum_st_def)
  have at: "om_at [] (om_map (renum_sh g) m) k = renum_sh g (om_at [] m k)" for m :: "('k::linorder, Shadow) omap" and k
    by (simp add: om_at_map)
  have ac: "access_in I (a\<lparr>rc_generation := n\<rparr>)" for n using a by simp
  note S = observe_shadow_renum [OF g a s(1)] observe_shadow_renum [OF g a s(2)]
    observe_shadow_renum [OF g ac s(1)] observe_shadow_renum [OF g ac s(2)]
  show ?thesis
    by (simp add: observe_def Let_def current_generation_def at st S case_prod_beta)
      (simp add: renum_detector_def renum_st_def)
qed

lemma atomic_access_renum:
  assumes "keeps_order g I" "access_in I a" "detector_in I d"
  shows "atomic_access (renum g a) (renum_detector g d) = renum_detector g (atomic_access a d)"
proof -
  have key: "key_of (renum_detector g d) (renum g a) = key_of d a" for d by (simp add: key_of_def current_generation_def)
  have sv: "scope_visible (renum g a) = scope_visible a"
    "scope_visible ((renum g a)\<lparr>rc_sm := sm, rc_cta := c, rc_scope := s\<rparr>) = scope_visible (a\<lparr>rc_sm := sm, rc_cta := c, rc_scope := s\<rparr>)"
    for sm c s by (rule ext, simp add: scope_visible_def)+
  have acq: "acquire_from (renum g a) = acquire_from a"
    by (rule ext)+ (simp only: acquire_from_def Let_def sv)
  show ?thesis
    by (simp add: atomic_access_def Let_def observe_renum [OF assms] key acq split: option.split)
qed

lemma barrier_renum: "cta_barrier c sm ws (renum_detector g d) = renum_detector g (cta_barrier c sm ws d)"
  by (simp add: cta_barrier_def Let_def)

lemma fence_renum: "fence c sm w sc (renum_detector g d) = renum_detector g (fence c sm w sc d)"
  by (simp add: fence_def)

lemma atomic_access_in: "access_in I a \<Longrightarrow> detector_in I d \<Longrightarrow> detector_in I (atomic_access a d)"
  using observe_in [of a I d] by (auto simp: atomic_access_def Let_def detector_in_def split: option.split)

text \<open>Only the accesses carry numbers.\<close>

definition has_access :: "RaceEvent \<Rightarrow> bool" where
  "has_access e \<longleftrightarrow> re_kind e = evObserve \<or> re_kind e = evAtomic"

definition renum_event :: "(u32 \<Rightarrow> u64 \<Rightarrow> u64) \<Rightarrow> RaceEvent \<Rightarrow> RaceEvent" where
  "renum_event g e = (if has_access e then e\<lparr>re_access := renum g (re_access e)\<rparr> else e)"

definition event_in :: "(u32 \<times> u64) set \<Rightarrow> RaceEvent \<Rightarrow> bool" where
  "event_in I e \<longleftrightarrow> (has_access e \<longrightarrow> access_in I (re_access e))"

lemma replay_event_renum:
  assumes "keeps_order g I" "event_in I e" "detector_in I d"
  shows "replay_event (renum_event g e) (renum_detector g d) = renum_detector g (replay_event e d)"
    "detector_in I (replay_event e d)"
proof -
  show "replay_event (renum_event g e) (renum_detector g d) = renum_detector g (replay_event e d)"
    using assms(2) observe_renum [OF assms(1) _ assms(3)] atomic_access_renum [OF assms(1) _ assms(3)]
    by (cases "re_kind e") (simp_all add: replay_event_def renum_event_def event_in_def has_access_def barrier_renum fence_renum)
  show "detector_in I (replay_event e d)"
    using assms(2) observe_in [OF _ assms(3)] atomic_access_in [OF _ assms(3)] assms(3)
    by (cases "re_kind e")
      (simp_all add: replay_event_def event_in_def has_access_def cta_barrier_def fence_def Let_def, simp_all add: detector_in_def)
qed

lemma replay_fold_renum:
  assumes "keeps_order g I" "\<forall>e\<in>set es. event_in I e" "detector_in I d"
  shows "fold replay_event (map (renum_event g) es) (renum_detector g d) = renum_detector g (fold replay_event es d)"
  using assms(2,3)
proof (induction es arbitrary: d)
  case (Cons e es)
  then show ?case using replay_event_renum [OF assms(1), of e d] by simp
qed simp

lemma reports_renum: "map json_report (reports (renum_detector g d)) = map json_report (reports d)"
proof -
  have "json_report (renum_report g r) = json_report r" for r
    by (simp add: json_report_def renum_report_def json_side_def)
  then show ?thesis by (simp add: reports_def om_map_def comp_def)
qed

subsection \<open>Logs split among workers\<close>

lemma sort_key_map: "sort_key k (map f xs) = map f (sort_key (\<lambda>x. k (f x)) xs)"
proof -
  have "insort_key k (f x) (map f ys) = map f (insort_key (\<lambda>x. k (f x)) x ys)" for x ys
    by (induction ys) auto
  then show ?thesis by (induction xs) auto
qed

lemma mset_by_class: "(\<And>c. mset (filter (\<lambda>x. f x = c) xs) = mset (filter (\<lambda>x. f x = c) ys)) \<Longrightarrow> mset xs = mset ys"
proof (rule multiset_eqI)
  fix x assume "\<And>c. mset (filter (\<lambda>x. f x = c) xs) = mset (filter (\<lambda>x. f x = c) ys)"
  then have "count (mset (filter (\<lambda>y. f y = f x) xs)) x = count (mset (filter (\<lambda>y. f y = f x) ys)) x" by simp
  then show "count (mset xs) x = count (mset ys) x" by simp
qed

definition cta_log :: "u32 \<Rightarrow> RaceEvent list \<Rightarrow> RaceEvent list" where
  "cta_log c log = filter (\<lambda>e. re_cta e = c) log"

text \<open>
  Two ways to log the same launch: every CTA logs the same events in the same order, up to the
  instruction numbers of the worker that ran it.
\<close>

lemma replay_same_launch:
  assumes num: "numbered re_cta re_ordinal log m" "length log \<le> 2 ^ 64"
    and same: "\<And>c. cta_log c log' = map (renum_event g) (cta_log c log)"
    and g: "keeps_order g I" and I: "\<forall>e\<in>set log. event_in I e"
    and d: "rd_global_shadow d = []" "rd_shared_shadow d = []" "rd_reports d = []"
  shows "map json_report (reports (snd (replay_race_log log' d))) = map json_report (reports (snd (replay_race_log log d)))"
proof -
  let ?es = "sort_key race_key log"
  have cta: "re_cta (renum_event g e) = re_cta e" "race_key (renum_event g e) = race_key e"
    "re_ordinal (renum_event g e) = re_ordinal e" for e
    by (simp_all add: renum_event_def race_key_def)
  have cl: "filter (\<lambda>e. re_cta e = c) (map (renum_event g) log) = map (renum_event g) (filter (\<lambda>e. re_cta e = c) log)" for c
    by (simp add: filter_map comp_def cta(1))
  have ms: "mset log' = mset (map (renum_event g) log)"
    by (rule mset_by_class [of re_cta]) (use same in \<open>simp only: cta_log_def cl\<close>)
  have num': "numbered re_cta re_ordinal (map (renum_event g) log) m"
  proof -
    have "map re_ordinal (map (renum_event g) xs) = map re_ordinal xs" for xs by (simp add: cta(3))
    then show ?thesis using num(1) unfolding numbered_def Let_def cl by (simp only: length_map simp_thms)
  qed
  have sorted': "sort_key race_key log' = map (renum_event g) ?es"
    using race.order_determined [OF num' _ ms] num(2) by (simp only: length_map sort_key_map cta(2))
  have d': "renum_detector g d = d" using d by (simp add: renum_detector_def)
  have "fold replay_event (map (renum_event g) ?es) (renum_detector g d) = renum_detector g (fold replay_event ?es d)"
    using I d by (intro replay_fold_renum [OF g]) (simp_all add: detector_in_def)
  then have fold': "fold replay_event (sort_key race_key log') d = renum_detector g (fold replay_event ?es d)"
    by (simp only: sorted' d')
  have "(log' = []) = (log = [])" using ms by (metis map_is_Nil_conv mset_zero_iff)
  then have "snd (replay_race_log log' d) = renum_detector g (snd (replay_race_log log d))"
    using fold' d' by (simp only: replay_race_log_def snd_conv split: if_split) simp
  then show ?thesis by (simp only: reports_renum)
qed

end
