(* ===== verification/L2_Events_Facts.thy ===== *)
theory L2_Events_Facts
  imports L2_Events Mem_Record_Facts
begin

text \<open>
  The L2 events: a global access requests exactly the sectors it touches, every request completes
  exactly once whatever the generator draws, ids and completion numbers are consecutive, and the
  events of a launch do not depend on how its CTAs are spread over workers.
\<close>

subsection \<open>Sectors\<close>

lemma l2_sectors_spec:
  "distinct (l2_sectors addr len) \<and> set (l2_sectors addr len) = (\<lambda>n. drop_bit 7 (addr + word_of_nat n)) ` {..<unat len}"
proof -
  have "distinct ss \<Longrightarrow> distinct (fold (\<lambda>n ss. let sec = f n in if sec \<in> set ss then ss else ss @ [sec]) ns ss) \<and>
      set (fold (\<lambda>n ss. let sec = f n in if sec \<in> set ss then ss else ss @ [sec]) ns ss) = set ss \<union> f ` set ns"
    for f :: "nat \<Rightarrow> u64" and ns ss
    by (induction ns arbitrary: ss) (auto simp: Let_def insert_absorb)
  from this [of "[]" "\<lambda>n. drop_bit 7 (addr + word_of_nat n)" "[0..<unat len]"] show ?thesis
    by (simp add: l2_sectors_def atLeast0LessThan)
qed

subsection \<open>Requests\<close>

definition pending_requests :: "'g L2EventEngine \<Rightarrow> L2Request list" where
  "pending_requests en = concat (map snd (en_pending en))"

lemma om_find_None: "om_inv m \<Longrightarrow> \<forall>k'\<in>fst ` set m. k < k' \<Longrightarrow> om_find m k = None"
  by (auto simp: om_find_def map_of_eq_None_iff)

text \<open>Appending to the list of a key adds one element to all the lists.\<close>

lemma om_push_mset:
  "om_inv m \<Longrightarrow> mset (concat (map snd (om_put k (om_at [] m k @ [r]) m))) = add_mset r (mset (concat (map snd m)))"
proof (induction m)
  case Nil
  then show ?case by (simp add: om_at_def)
next
  case (Cons e m)
  obtain k' v where e: "e = (k', v)" by (cases e)
  have m: "om_inv m" "\<forall>x\<in>fst ` set m. k' < x" using Cons.prems by (auto simp: om_inv_Cons e)
  consider "k < k'" | "k = k'" | "k' < k" by (rule linorder_cases)
  then show ?case
  proof cases
    case 1
    then have "om_find (e # m) k = None" using m by (intro om_find_None) (auto simp: e om_inv_Cons)
    then show ?thesis using 1 by (simp add: om_at_def e)
  next
    case 2
    then show ?thesis by (simp add: om_at_def om_find_def e)
  next
    case 3
    then have "map_of (e # m) k = map_of m k" by (simp add: e less_imp_neq [symmetric])
    then have "om_at [] (e # m) k = om_at [] m k" by (simp only: om_at_def om_find_def)
    moreover have "\<not> k < k'" "k \<noteq> k'" using 3 by auto
    ultimately show ?thesis using Cons.IH [OF m(1)] by (simp add: e)
  qed
qed

text \<open>What one round of the sector loop does to the engine.\<close>

definition requests_of :: "L2Request \<Rightarrow> u64 \<Rightarrow> u64 list \<Rightarrow> L2Request list" where
  "requests_of r n sectors = map (\<lambda>(i, sec). r\<lparr>rq_request_id := n + word_of_nat i + 1, rq_sector := sec\<rparr>) (enumerate 0 sectors)"

lemma requests_of_snoc:
  "requests_of r n (ss @ [s]) = requests_of r n ss @ [r\<lparr>rq_request_id := n + word_of_nat (length ss) + 1, rq_sector := s\<rparr>]"
  by (simp add: requests_of_def enumerate_append_eq)

lemma length_requests_of [simp]: "length (requests_of r n ss) = length ss"
  by (simp add: requests_of_def)

definition ids_from :: "u64 \<Rightarrow> nat \<Rightarrow> u64 list" where
  "ids_from n k = map (\<lambda>i. n + word_of_nat i + 1) [0..<k]"

lemma ids_from_Suc: "ids_from n (Suc k) = ids_from n k @ [n + word_of_nat k + 1]"
  by (simp add: ids_from_def)

lemma ids_from_add: "ids_from n (j + k) = ids_from n j @ ids_from (n + word_of_nat j) k"
  by (induction k) (simp_all add: ids_from_Suc ids_from_def add.assoc)

text \<open>The events an engine gains, without the ids.\<close>

definition event_view :: "MemoryEvent \<Rightarrow> u64 \<times> u64 \<times> u32 \<times> u32 \<times> u32 \<times> u32 \<times> u64 \<times> u64 \<times> string \<times> string" where
  "event_view e = (me_request_id e, me_sector e, me_sm e, me_subcore e, me_cta e, me_warp e, me_pc e, me_instruction e,
     me_mnemonic e, me_request_kind e)"

definition request_view :: "L2Request \<Rightarrow> u64 \<times> u64 \<times> u32 \<times> u32 \<times> u32 \<times> u32 \<times> u64 \<times> u64 \<times> string \<times> string" where
  "request_view r = (rq_request_id r, rq_sector r, rq_sm r, rq_subcore r, rq_cta r, rq_warp r, rq_pc r, rq_instruction r,
     rq_mnemonic r, rq_request_kind r)"

definition gains :: "MemoryEventKind \<Rightarrow> L2Request list \<Rightarrow> 'g L2EventEngine \<Rightarrow> 'g L2EventEngine \<Rightarrow> bool" where
  "gains k reqs en en' \<longleftrightarrow> (\<exists>evs. en_events en' = en_events en @ evs \<and> map event_view evs = map request_view reqs \<and>
     (\<forall>e\<in>set evs. me_kind e = k) \<and> map me_event_id evs = ids_from (en_event_id en) (length reqs) \<and>
     en_event_id en' = en_event_id en + word_of_nat (length reqs))"

lemma gains_Nil: "en_events en' = en_events en \<Longrightarrow> en_event_id en' = en_event_id en \<Longrightarrow> gains k [] en en'"
  by (simp add: gains_def ids_from_def)

lemma gains_append: "gains k rs en en' \<Longrightarrow> gains k rs' en' en'' \<Longrightarrow> gains k (rs @ rs') en en''"
  unfolding gains_def by (elim exE conjE) (auto simp: ids_from_add add.assoc)

lemma issue_sectors:
  assumes "om_inv (en_pending en)"
  shows "\<exists>en'. fold (issue_sector r sectors) ss ([], en) = (requests_of r (en_request_id en) ss, en') \<and>
    om_inv (en_pending en') \<and>
    mset (pending_requests en') = mset (pending_requests en) + mset (requests_of r (en_request_id en) ss) \<and>
    en_request_id en' = en_request_id en + word_of_nat (length ss) \<and> en_seed en' = en_seed en \<and> en_rng en' = en_rng en \<and>
    gains evL2Request (requests_of r (en_request_id en) ss) en en'"
proof (induction ss rule: rev_induct)
  case Nil
  then show ?case using assms by (simp add: requests_of_def gains_Nil)
next
  case (snoc s ss)
  let ?rs = "requests_of r (en_request_id en) ss"
  obtain en1 where en1: "fold (issue_sector r sectors) ss ([], en) = (?rs, en1)" "om_inv (en_pending en1)"
    "mset (pending_requests en1) = mset (pending_requests en) + mset ?rs"
    "en_request_id en1 = en_request_id en + word_of_nat (length ss)" "en_seed en1 = en_seed en" "en_rng en1 = en_rng en"
    "gains evL2Request ?rs en en1"
    using snoc by blast
  let ?r = "r\<lparr>rq_request_id := en_request_id en1 + 1, rq_sector := s\<rparr>"
  obtain en2 where en2: "issue_sector r sectors s (?rs, en1) = (?rs @ [?r], en2)" "om_inv (en_pending en2)"
    "mset (pending_requests en2) = mset (pending_requests en1) + {#?r#}" "en_request_id en2 = en_request_id en1 + 1"
    "en_seed en2 = en_seed en1" "en_rng en2 = en_rng en1" "gains evL2Request [?r] en1 en2"
    using om_push_mset [OF en1(2), of s ?r] en1(2)
    by (auto simp: issue_sector_def Let_def pending_requests_def gains_def request_event_def new_event_def event_view_def
        request_view_def ids_from_def)
  have "gains evL2Request (?rs @ [?r]) en en2" using gains_append [OF en1(7) en2(7)] .
  then show ?case using en1 en2 by (simp add: requests_of_snoc add.assoc)
qed

subsection \<open>Completions\<close>

lemma mset_shuffle:
  assumes "\<forall>i g. fst (dr i g) \<le> i" "n \<le> length xs"
  shows "mset (fst (shuffle dr n xs g)) = mset xs"
  using assms
proof (induction dr n xs g rule: shuffle.induct)
  case (3 dr i xs g)
  obtain j g' where j: "dr (Suc i) g = (j, g')" by (cases "dr (Suc i) g")
  then have "j \<le> Suc i" using 3(2) by (metis fst_conv)
  then have "mset (swap (Suc i) j xs) = mset xs" using 3(3) unfolding swap_def by (intro mset_swap) auto
  moreover have "length (swap (Suc i) j xs) = length xs" by (simp add: swap_def)
  ultimately show ?case using 3 j by simp
qed simp_all

lemma service_order_mset:
  assumes "\<forall>i g. fst (rg_draw G i g) \<le> i"
  shows "mset (fst (service_order G en)) = mset (pending_requests en)"
proof (cases "en_seed en = 0")
  case False
  let ?rs = "concat (map snd (en_pending en))"
  have "mset (fst (shuffle (rg_draw G) (length ?rs) ?rs (en_rng en))) = mset ?rs" by (rule mset_shuffle [OF assms order_refl])
  then show ?thesis using False by (simp only: service_order_def pending_requests_def Let_def if_True simp_thms)
qed (simp add: service_order_def pending_requests_def Let_def)

lemma complete_all:
  "\<exists>out en'. fold complete_one rs ([], en) = (out, en') \<and>
    out = map (\<lambda>(i, r). completion_of (en_completion_id en + word_of_nat i + 1) i r) (enumerate 0 rs) \<and>
    en_completion_id en' = en_completion_id en + word_of_nat (length rs) \<and> en_request_id en' = en_request_id en \<and>
    en_seed en' = en_seed en \<and> gains evL2Completion rs en en'"
proof (induction rs rule: rev_induct)
  case Nil
  then show ?case by (simp add: gains_Nil)
next
  case (snoc r rs)
  then obtain out en1 where en1: "fold complete_one rs ([], en) = (out, en1)"
    "out = map (\<lambda>(i, r). completion_of (en_completion_id en + word_of_nat i + 1) i r) (enumerate 0 rs)"
    "en_completion_id en1 = en_completion_id en + word_of_nat (length rs)" "en_request_id en1 = en_request_id en"
    "en_seed en1 = en_seed en" "gains evL2Completion rs en en1" by blast
  obtain en2 where en2: "complete_one r (out, en1) = (out @ [completion_of (en_completion_id en1 + 1) (length rs) r], en2)"
    "en_completion_id en2 = en_completion_id en1 + 1" "en_request_id en2 = en_request_id en1" "en_seed en2 = en_seed en1"
    "gains evL2Completion [r] en1 en2"
    by (auto simp: complete_one_def Let_def en1(2) gains_def completion_event_def new_event_def event_view_def
        request_view_def ids_from_def)
  have "gains evL2Completion (rs @ [r]) en en2" using gains_append [OF en1(6) en2(5)] .
  then show ?case using en1 en2 by (simp add: enumerate_append_eq add.assoc)
qed

lemma drain_spec:
  assumes "\<forall>i g. fst (rg_draw G i g) \<le> i"
  obtains rs out en' where "drain_completions G en = (out, en')" "mset rs = mset (pending_requests en)"
    "rs = fst (service_order G en)" "en_pending en' = []" "gains evL2Completion rs en en'"
    "out = map (\<lambda>(i, r). completion_of (en_completion_id en + word_of_nat i + 1) i r) (enumerate 0 rs)"
proof -
  obtain rs g where rs: "service_order G en = (rs, g)" by (cases "service_order G en")
  obtain out en1 where out: "fold complete_one rs ([], en\<lparr>en_rng := g\<rparr>) = (out, en1)"
    "out = map (\<lambda>(i, r). completion_of (en_completion_id en + word_of_nat i + 1) i r) (enumerate 0 rs)"
    "gains evL2Completion rs (en\<lparr>en_rng := g\<rparr>) en1"
    using complete_all [of rs "en\<lparr>en_rng := g\<rparr>"] by auto
  have "gains evL2Completion rs en (en1\<lparr>en_pending := []\<rparr>)" using out(3) by (simp add: gains_def)
  moreover have "mset rs = mset (pending_requests en)" using service_order_mset [OF assms, of en] rs by simp
  ultimately show ?thesis using that out rs by (simp add: drain_completions_def)
qed

subsection \<open>The launch\<close>

lemma issue_descriptors:
  assumes "om_inv (en_pending en)"
  shows "\<exists>rs. om_inv (en_pending (fold issue_descriptor ds en)) \<and>
    mset (pending_requests (fold issue_descriptor ds en)) = mset (pending_requests en) + mset rs \<and>
    map rq_request_id rs = ids_from (en_request_id en) (length rs) \<and>
    length rs = (\<Sum>d\<leftarrow>ds. length (l2_sectors (l2_addr d) (l2_len d))) \<and>
    en_request_id (fold issue_descriptor ds en) = en_request_id en + word_of_nat (length rs) \<and>
    gains evL2Request rs en (fold issue_descriptor ds en)"
proof (induction ds rule: rev_induct)
  case Nil
  then show ?case using assms by (intro exI [of _ "[]"]) (simp add: gains_Nil ids_from_def)
next
  case (snoc d ds)
  let ?en = "fold issue_descriptor ds en" and ?ss = "l2_sectors (l2_addr d) (l2_len d)"
  obtain rs where rs: "om_inv (en_pending ?en)" "mset (pending_requests ?en) = mset (pending_requests en) + mset rs"
    "map rq_request_id rs = ids_from (en_request_id en) (length rs)"
    "length rs = (\<Sum>d\<leftarrow>ds. length (l2_sectors (l2_addr d) (l2_len d)))"
    "en_request_id ?en = en_request_id en + word_of_nat (length rs)" "gains evL2Request rs en ?en"
    using snoc by blast
  define en1 where "en1 = ?en\<lparr>en_sm_issue := om_put (l2_sm d) (om_at 0 (en_sm_issue ?en) (l2_sm d) + 1) (en_sm_issue ?en)\<rparr>"
  have en1: "om_inv (en_pending en1)" "pending_requests en1 = pending_requests ?en" "en_request_id en1 = en_request_id ?en"
    "gains evL2Request [] ?en en1"
    using rs(1) by (simp_all add: en1_def pending_requests_def gains_Nil)
  obtain r where r: "issue_descriptor d ?en = snd (fold (issue_sector r ?ss) ?ss ([], en1))"
    by (simp add: issue_descriptor_def issue_global_def Let_def en1_def)
  let ?qs = "requests_of r (en_request_id en1) ?ss"
  obtain en2 where en2: "issue_descriptor d ?en = en2" "om_inv (en_pending en2)"
    "mset (pending_requests en2) = mset (pending_requests en1) + mset ?qs"
    "en_request_id en2 = en_request_id en1 + word_of_nat (length ?ss)" "gains evL2Request ?qs en1 en2"
    using issue_sectors [OF en1(1), of r ?ss ?ss] r by auto
  have ids: "map rq_request_id ?qs = ids_from (en_request_id en1) (length ?ss)"
    by (rule nth_equalityI) (simp_all add: requests_of_def ids_from_def case_prod_unfold nth_enumerate_eq)
  have g: "gains evL2Request (rs @ ?qs) en en2" using gains_append [OF rs(6) gains_append [OF en1(4) en2(5)]] by simp
  show ?case
    by (rule exI [of _ "rs @ ?qs"]) (use rs en1 en2 ids g in \<open>simp add: ids_from_add add.assoc\<close>)
qed

subsection \<open>Properties\<close>

text \<open>A global access issues one request for each 128-byte sector that one of its bytes lies in, and no
  other; the requests carry consecutive ids and are what the queue gains.\<close>

theorem access_requests_its_sectors:
  assumes "om_inv (en_pending en)"
  shows "\<exists>reqs en'. issue_global sm subcore cta warp pc instruction parent mn kind addr len en = (reqs, en') \<and>
    distinct (map rq_sector reqs) \<and> set (map rq_sector reqs) = (\<lambda>n. drop_bit 7 (addr + word_of_nat n)) ` {..<unat len} \<and>
    map rq_request_id reqs = ids_from (en_request_id en) (length reqs) \<and>
    (\<forall>r\<in>set reqs. rq_addr r = addr \<and> rq_len r = len \<and> rq_sm r = sm \<and> rq_request_kind r = kind) \<and>
    mset (pending_requests en') = mset (pending_requests en) + mset reqs \<and> om_inv (en_pending en')"
proof -
  define en1 where "en1 = en\<lparr>en_sm_issue := om_put sm (om_at 0 (en_sm_issue en) sm + 1) (en_sm_issue en)\<rparr>"
  define r where "r = \<lparr>rq_request_id = 0, rq_parent_event_id = parent, rq_instruction = instruction, rq_sm = sm,
      rq_subcore = subcore, rq_cta = cta, rq_warp = warp, rq_pc = pc, rq_mnemonic = mn, rq_request_kind = kind,
      rq_sector = 0, rq_addr = addr, rq_len = len\<rparr>"
  let ?ss = "l2_sectors addr len" and ?qs = "requests_of r (en_request_id en) (l2_sectors addr len)"
  have "om_inv (en_pending en1)" "en_request_id en1 = en_request_id en" "pending_requests en1 = pending_requests en"
    using assms by (simp_all add: en1_def pending_requests_def)
  then obtain en2 where en2: "fold (issue_sector r ?ss) ?ss ([], en1) = (?qs, en2)" "om_inv (en_pending en2)"
    "mset (pending_requests en2) = mset (pending_requests en) + mset ?qs"
    using issue_sectors [of en1 r ?ss ?ss] by auto
  have qs: "map rq_sector ?qs = ?ss" "map rq_request_id ?qs = ids_from (en_request_id en) (length ?ss)"
    by (rule nth_equalityI; simp add: requests_of_def ids_from_def case_prod_unfold nth_enumerate_eq)+
  have "\<forall>q\<in>set ?qs. rq_addr q = addr \<and> rq_len q = len \<and> rq_sm q = sm \<and> rq_request_kind q = kind"
    by (auto simp: requests_of_def r_def)
  moreover have "issue_global sm subcore cta warp pc instruction parent mn kind addr len en = (?qs, en2)"
    using en2(1) by (simp add: issue_global_def Let_def en1_def r_def)
  ultimately show ?thesis using en2 qs l2_sectors_spec [of addr len]
    by (intro exI [of _ ?qs] exI [of _ en2]) (simp only: length_requests_of simp_thms)
qed

text \<open>C34: Driving a fresh engine with the descriptors of a launch yields first one request event per sector of
  every access and then exactly one completion event per request, with the same sector, SM, CTA, warp and pc,
  whatever the generator draws; all events are numbered 1, 2, 3 and so on, so are the requests, and without a
  seed the completions come in the order of sector, SM and request.\<close>

theorem launch_completes_every_request:
  assumes "\<forall>i g. fst (rg_draw G i g) \<le> i"
  shows "\<exists>reqs comps. fst (drive_engine G log (new_engine G n seed)) = reqs @ comps \<and>
    (\<forall>e\<in>set reqs. me_kind e = evL2Request) \<and> (\<forall>e\<in>set comps. me_kind e = evL2Completion) \<and>
    length reqs = (\<Sum>d\<leftarrow>log. length (l2_sectors (l2_addr d) (l2_len d))) \<and>
    mset (map event_view comps) = mset (map event_view reqs) \<and>
    map me_request_id reqs = ids_from 0 (length reqs) \<and> map me_event_id (reqs @ comps) = ids_from 0 (length (reqs @ comps)) \<and>
    (seed = 0 \<longrightarrow> sorted (map (\<lambda>e. (me_sector e, me_sm e, me_request_id e)) comps))"
proof -
  let ?e0 = "new_engine G n seed" and ?log = "order_l2_log log"
  let ?e1 = "fold issue_descriptor ?log ?e0"
  have e0: "en_pending ?e0 = []" "en_events ?e0 = []" "en_event_id ?e0 = 0" "en_request_id ?e0 = 0" "pending_requests ?e0 = []"
    by (simp_all add: new_engine_def pending_requests_def)
  obtain rs where rs: "mset (pending_requests ?e1) = mset rs" "map rq_request_id rs = ids_from 0 (length rs)"
    "length rs = (\<Sum>d\<leftarrow>?log. length (l2_sectors (l2_addr d) (l2_len d)))" "gains evL2Request rs ?e0 ?e1"
    using issue_descriptors [of ?e0 ?log] e0 by auto
  obtain cs e2 where cs: "snd (drain_completions G ?e1) = e2" "mset cs = mset (pending_requests ?e1)" "cs = fst (service_order G ?e1)"
    "gains evL2Completion cs ?e1 e2"
    by (rule drain_spec [OF assms, of ?e1]) simp
  obtain reqs where q: "en_events ?e1 = reqs" "map event_view reqs = map request_view rs" "\<forall>e\<in>set reqs. me_kind e = evL2Request"
    "map me_event_id reqs = ids_from 0 (length rs)" "en_event_id ?e1 = word_of_nat (length rs)"
    using rs(4) e0 by (auto simp: gains_def)
  obtain comps where c: "en_events e2 = reqs @ comps" "map event_view comps = map request_view cs"
    "\<forall>e\<in>set comps. me_kind e = evL2Completion" "map me_event_id comps = ids_from (word_of_nat (length rs)) (length cs)"
    using cs(4) q by (auto simp: gains_def)
  have len: "length reqs = length rs" "length comps = length cs"
    using arg_cong [OF q(2), of length] arg_cong [OF c(2), of length] by simp_all
  have "map fst (map event_view reqs) = map rq_request_id rs" unfolding q(2) by (simp add: request_view_def)
  then have ids: "map me_request_id reqs = ids_from 0 (length reqs)" by (simp add: event_view_def comp_def rs(2) len)
  have "mset (map event_view comps) = mset (map event_view reqs)"
    using cs(2) rs(1) by (simp add: c(2) q(2))
  moreover have "(\<Sum>d\<leftarrow>?log. length (l2_sectors (l2_addr d) (l2_len d))) = (\<Sum>d\<leftarrow>log. length (l2_sectors (l2_addr d) (l2_len d)))"
    by (simp add: order_l2_log_def sum_mset_sum_list [symmetric])
  moreover have "sorted (map (\<lambda>e. (me_sector e, me_sm e, me_request_id e)) comps)" if "seed = 0"
  proof -
    have "en_seed ?e1 = seed"
    proof -
      have "en_seed (fold issue_descriptor ds e) = en_seed e" for ds and e :: "'a L2EventEngine"
      proof (induction ds arbitrary: e)
        case (Cons d ds)
        have "en_seed (snd (fold (issue_sector r ss) ss' (out, e))) = en_seed e" for r ss ss' out and e :: "'a L2EventEngine"
          by (induction ss' arbitrary: out e) (simp_all add: issue_sector_def Let_def)
        then show ?case using Cons by (simp add: issue_descriptor_def issue_global_def Let_def)
      qed simp
      then show ?thesis by (simp add: new_engine_def)
    qed
    then have "sorted (map request_order cs)" using that by (simp add: cs(3) service_order_def Let_def)
    moreover have "map (\<lambda>e. (me_sector e, me_sm e, me_request_id e)) comps = map (\<lambda>v. (fst (snd v), fst (snd (snd v)), fst v)) (map event_view comps)"
      by (simp add: event_view_def)
    ultimately show ?thesis by (simp add: c(2) request_view_def request_order_def [abs_def] comp_def)
  qed
  moreover have "fst (drive_engine G log ?e0) = reqs @ comps" using cs(1) c(1) by (simp add: drive_engine_def Let_def)
  ultimately show ?thesis using q(3,4) c(3,4) ids len rs(3)
    by (intro exI [of _ reqs] exI [of _ comps]) (simp add: ids_from_add)
qed

subsection \<open>Instances\<close>

text \<open>A generator that always draws the first element, and two accesses to neighbouring sectors.\<close>

definition zero_rng :: "unit Rng" where
  "zero_rng = \<lparr>rg_seed = (\<lambda>_. ()), rg_draw = (\<lambda>_ _. (0, ()))\<rparr>"

definition demo_request :: "u64 \<Rightarrow> L2RequestDescriptor" where
  "demo_request n = \<lparr>l2_cta = 0, l2_sm = 0, l2_subcore = 0, l2_warp = 0, l2_lane = 0, l2_ordinal = n, l2_pc = 0,
     l2_mnemonic = ''LDG'', l2_request_kind = ''load'', l2_addr = 126, l2_len = 4\<rparr>"

lemma demo_sectors: "l2_sectors 126 4 = [0, 1]"
  by code_simp

theorem access_requests_its_sectors_witness:
  "\<exists>reqs en'. issue_global 0 0 0 0 0 0 0 ''LDG'' ''load'' 126 4 (new_engine zero_rng 1 7) = (reqs, en') \<and>
     mset (pending_requests en') = mset reqs \<and> om_inv (en_pending en')"
proof -
  have i: "om_inv (en_pending (new_engine zero_rng 1 7))" "pending_requests (new_engine zero_rng 1 7) = []"
    by (simp_all add: new_engine_def pending_requests_def)
  show ?thesis using access_requests_its_sectors [OF i(1), of 0 0 0 0 0 0 0 "''LDG''" "''load''" 126 4]
    by (auto simp: i(2))
qed

theorem launch_completes_every_request_witness:
  "\<exists>reqs comps. fst (drive_engine zero_rng [demo_request 1, demo_request 0] (new_engine zero_rng 1 7)) = reqs @ comps \<and>
     length reqs = 4 \<and> mset (map event_view comps) = mset (map event_view reqs)"
proof -
  have "\<forall>i g. fst (rg_draw zero_rng i g) \<le> i" by (simp add: zero_rng_def)
  from launch_completes_every_request [OF this, of "[demo_request 1, demo_request 0]" 1 7]
  obtain reqs comps where "fst (drive_engine zero_rng [demo_request 1, demo_request 0] (new_engine zero_rng 1 7)) = reqs @ comps"
    "length reqs = (\<Sum>d\<leftarrow>[demo_request 1, demo_request 0]. length (l2_sectors (l2_addr d) (l2_len d)))"
    "mset (map event_view comps) = mset (map event_view reqs)" by blast
  moreover from this(2) have "length reqs = 4" by (simp add: demo_request_def demo_sectors)
  ultimately show ?thesis by blast
qed

end
