(* ===== verification/Launch_Facts.thy ===== *)
theory Launch_Facts
  imports Launch Full_Facts Race_Relabel L2_Events_Facts
begin

text \<open>
  The launch: what one worker returns, how the results of several workers fit together, and that
  the race report and the L2 events do not depend on the number of workers. The workers run
  concurrently on one memory service; their runs are those of \<open>worker_run\<close>.
\<close>

subsection \<open>What a worker returns\<close>

text \<open>The results of \<open>n\<close> workers, each run from its own start over the shared service.\<close>

definition worker_results :: "LaunchOptions \<Rightarrow> LaunchEnv \<Rightarrow> KernelText \<Rightarrow> KernelMeta \<Rightarrow> FullInst PredecodedWord list \<Rightarrow> nat \<Rightarrow>
    RunResult list \<Rightarrow> bool" where
  "worker_results opts env k meta prog n rs \<longleftrightarrow> length rs = n \<and>
     (\<forall>w<n. \<exists>ms f lim fm. worker_run env k prog (lo_instruction_limit opts) (worker_start opts env meta w n ms) (f, lim, fm) \<and>
        rs ! w = \<lparr>rs_fault = f, rs_limit_reached = lim, rs_executed = fm_executed fm, rs_ctas = fm_ctas fm,
          rs_events = tr_events (fm_trace fm), rs_race_log = tr_race_log (fm_trace fm), rs_l2_log = tr_l2_log (fm_trace fm)\<rparr>)"

lemma shared_result: "run_result_of G True en f lim fm = \<lparr>rs_fault = f, rs_limit_reached = lim, rs_executed = fm_executed fm,
    rs_ctas = fm_ctas fm, rs_events = tr_events (fm_trace fm), rs_race_log = tr_race_log (fm_trace fm), rs_l2_log = tr_l2_log (fm_trace fm)\<rparr>"
  by (simp add: run_result_of_def flush_l2_events_def Let_def)

lemma worker_start_inv:
  "machine_inv (worker_start opts env meta w n ms) \<and> map c_cta_id (fm_ctas (worker_start opts env meta w n ms)) = worker_ctas env w n \<and>
   fm_executed (worker_start opts env meta w n ms) = 0"
proof -
  have tr: "fresh_logs (new_tracer opts)" by (simp add: fresh_logs_def new_tracer_def)
  show ?thesis
    using start_full_inv [OF tr] init_ids by (simp add: worker_start_def Let_def case_prod_beta start_full_def)
qed

lemma machine_inv_logs:
  assumes "machine_inv fm" "map c_cta_id (fm_ctas fm) = ids"
  shows "numbered re_cta re_ordinal (tr_race_log (fm_trace fm)) (tr_race_ordinal (fm_trace fm))"
    "numbered l2_cta l2_ordinal (tr_l2_log (fm_trace fm)) (tr_l2_ordinal (fm_trace fm))"
    "re_cta ` set (tr_race_log (fm_trace fm)) \<subseteq> word_of_nat ` set ids"
    "l2_cta ` set (tr_l2_log (fm_trace fm)) \<subseteq> word_of_nat ` set ids"
  using assms by (auto simp: machine_inv_def tracer_inv_def logs_numbered_def logs_in_def)

lemma worker_result:
  assumes "worker_results opts env k meta prog n rs" "w < n"
  shows "map c_cta_id (rs_ctas (rs ! w)) = worker_ctas env w n" "unplaced (rs_fault (rs ! w))"
    "rs_executed (rs ! w) \<le> lo_instruction_limit opts" "rs_fault (rs ! w) = None \<longrightarrow> launch_exited (rs_ctas (rs ! w))"
    "\<exists>m. numbered re_cta re_ordinal (rs_race_log (rs ! w)) m" "\<exists>m. numbered l2_cta l2_ordinal (rs_l2_log (rs ! w)) m"
    "re_cta ` set (rs_race_log (rs ! w)) \<subseteq> word_of_nat ` set (worker_ctas env w n)"
    "l2_cta ` set (rs_l2_log (rs ! w)) \<subseteq> word_of_nat ` set (worker_ctas env w n)"
proof -
  obtain ms f lim fm where run: "worker_run env k prog (lo_instruction_limit opts) (worker_start opts env meta w n ms) (f, lim, fm)"
    and r: "rs ! w = \<lparr>rs_fault = f, rs_limit_reached = lim, rs_executed = fm_executed fm, rs_ctas = fm_ctas fm,
        rs_events = tr_events (fm_trace fm), rs_race_log = tr_race_log (fm_trace fm), rs_l2_log = tr_l2_log (fm_trace fm)\<rparr>"
    using assms by (auto simp: worker_results_def)
  note S = worker_start_inv [of opts env meta w n ms]
  note I = worker_run_inv [OF run] 
  have i: "machine_inv fm" "map c_cta_id (fm_ctas fm) = worker_ctas env w n" "unplaced f" "fm_executed fm \<le> lo_instruction_limit opts"
    "f = None \<longrightarrow> launch_exited (fm_ctas fm)"
    using I S by simp_all
  note L = machine_inv_logs [OF i(1,2)]
  show "map c_cta_id (rs_ctas (rs ! w)) = worker_ctas env w n" "unplaced (rs_fault (rs ! w))"
    "rs_executed (rs ! w) \<le> lo_instruction_limit opts" "rs_fault (rs ! w) = None \<longrightarrow> launch_exited (rs_ctas (rs ! w))"
    "\<exists>m. numbered re_cta re_ordinal (rs_race_log (rs ! w)) m" "\<exists>m. numbered l2_cta l2_ordinal (rs_l2_log (rs ! w)) m"
    "re_cta ` set (rs_race_log (rs ! w)) \<subseteq> word_of_nat ` set (worker_ctas env w n)"
    "l2_cta ` set (rs_l2_log (rs ! w)) \<subseteq> word_of_nat ` set (worker_ctas env w n)"
    using i L by (auto simp: r)
qed

subsection \<open>Putting the workers together\<close>

text \<open>Lists whose elements name the list they are in.\<close>

lemma filter_concat_class:
  "\<forall>w<length ls. \<forall>x\<in>set (ls ! w). own x = w \<Longrightarrow> filter (\<lambda>x. own x = c) (concat ls) = (if c < length ls then ls ! c else [])"
proof (induction ls rule: rev_induct)
  case (snoc l ls)
  have "\<forall>w<length ls. \<forall>x\<in>set (ls ! w). own x = w" using snoc.prems by (auto simp: nth_append)
  moreover have "\<forall>x\<in>set l. own x = length ls" using snoc.prems by auto
  ultimately show ?case using snoc.IH by (auto simp: nth_append filter_empty_conv filter_id_conv)
qed simp

lemma worker_ids: "w < n \<Longrightarrow> i \<in> set (worker_ctas env w n) \<longleftrightarrow> i < unat (grid_ctas env) \<and> i mod n = w"
  by (auto simp: worker_ctas_def)

lemma all_ids: "0 < n \<Longrightarrow> sort (concat (map (\<lambda>w. worker_ctas env w n) [0..<n])) = [0..<unat (grid_ctas env)]"
proof (rule properties_for_sort)
  assume n: "0 < n"
  show "mset [0..<unat (grid_ctas env)] = mset (concat (map (\<lambda>w. worker_ctas env w n) [0..<n]))"
  proof (rule mset_by_class [where f = "\<lambda>i. i mod n"])
    fix c
    have "filter (\<lambda>i. i mod n = c) (concat (map (\<lambda>w. worker_ctas env w n) [0..<n])) = filter (\<lambda>i. i mod n = c) [0..<unat (grid_ctas env)]"
      using n by (subst filter_concat_class) (auto simp: worker_ctas_def empty_filter_conv)
    then show "mset (filter (\<lambda>i. i mod n = c) [0..<unat (grid_ctas env)]) =
        mset (filter (\<lambda>i. i mod n = c) (concat (map (\<lambda>w. worker_ctas env w n) [0..<n])))" by simp
  qed
qed simp

lemma map_sort_key: "map f (sort_key f xs) = sort (map f xs)"
proof -
  have "map f (insort_key f x ys) = insort (f x) (map f ys)" for x ys by (induction ys) auto
  then show ?thesis by (induction xs) auto
qed

text \<open>The next number of every CTA, from the log alone.\<close>

definition next_numbers :: "('e \<Rightarrow> u32) \<Rightarrow> 'e list \<Rightarrow> (u32, u64) omap" where
  "next_numbers cta_of log = fold (\<lambda>e m. snd (next_ordinal (cta_of e) m)) log []"

lemma next_numbers_at:
  "om_inv (next_numbers cta_of log) \<and> om_at 0 (next_numbers cta_of log) c = word_of_nat (length (filter (\<lambda>e. cta_of e = c) log))"
proof (induction log rule: rev_induct)
  case (snoc e log)
  have "next_numbers cta_of (log @ [e]) = om_put (cta_of e) (om_at 0 (next_numbers cta_of log) (cta_of e) + 1) (next_numbers cta_of log)"
    by (simp add: next_numbers_def next_ordinal_def)
  then show ?case using snoc by (auto simp: om_at_def omap_simps add.commute)
qed (simp add: next_numbers_def om_at_def)

lemma numbered_concat:
  assumes own: "\<forall>w<length ls. \<forall>e\<in>set (ls ! w). own (cta_of e) = w"
    and num: "\<forall>w<length ls. \<exists>m. numbered cta_of ord_of (ls ! w) m"
  shows "numbered cta_of ord_of (concat ls) (next_numbers cta_of (concat ls))"
proof -
  have "map ord_of (filter (\<lambda>e. cta_of e = c) (concat ls)) = map word_of_nat [0..<length (filter (\<lambda>e. cta_of e = c) (concat ls))]" for c
  proof -
    have "filter (\<lambda>e. cta_of e = c) (concat ls) = filter (\<lambda>e. cta_of e = c) (filter (\<lambda>e. own (cta_of e) = own c) (concat ls))"
      by (auto intro: filter_cong)
    also have "\<dots> = (if own c < length ls then filter (\<lambda>e. cta_of e = c) (ls ! own c) else [])"
      using filter_concat_class [of ls "\<lambda>e. own (cta_of e)" "own c"] own by simp
    finally show ?thesis using num by (auto simp: numbered_def Let_def)
  qed
  then show ?thesis using next_numbers_at [of cta_of "concat ls"] by (simp add: numbered_def Let_def)
qed

lemma owner_of:
  assumes "unat (grid_ctas env) \<le> 2 ^ 32" "w < n" "c \<in> word_of_nat ` set (worker_ctas env w n)"
  shows "unat (c :: u32) mod n = w"
proof -
  obtain i where i: "c = word_of_nat i" "i < unat (grid_ctas env)" "i mod n = w" using assms(2,3) by (auto simp: worker_ids)
  then have "unat c = i" using assms(1) by (simp add: unat_of_nat take_bit_nat_eq_self_iff)
  then show ?thesis using i by simp
qed

lemma launch_logs_numbered:
  assumes "worker_results opts env k meta prog n rs" "unat (grid_ctas env) \<le> 2 ^ 32"
  shows "numbered re_cta re_ordinal (concat (map rs_race_log rs)) (next_numbers re_cta (concat (map rs_race_log rs)))"
    "numbered l2_cta l2_ordinal (concat (map rs_l2_log rs)) (next_numbers l2_cta (concat (map rs_l2_log rs)))"
proof -
  have len: "length rs = n" using assms(1) by (simp add: worker_results_def)
  note W = worker_result [OF assms(1)]
  show "numbered re_cta re_ordinal (concat (map rs_race_log rs)) (next_numbers re_cta (concat (map rs_race_log rs)))"
    using W(5,7) owner_of [OF assms(2)] by (intro numbered_concat [where own = "\<lambda>c. unat c mod n"]) (auto simp: len, blast)
  show "numbered l2_cta l2_ordinal (concat (map rs_l2_log rs)) (next_numbers l2_cta (concat (map rs_l2_log rs)))"
    using W(6,8) owner_of [OF assms(2)] by (intro numbered_concat [where own = "\<lambda>c. unat c mod n"]) (auto simp: len, blast)
qed

subsection \<open>The fault that is reported\<close>

lemma fault_wins_unplaced:
  "unplaced (rs_fault r) \<Longrightarrow> \<forall>b. best = Some b \<longrightarrow> unplaced (rs_fault b) \<Longrightarrow>
   fault_wins r best = (if rs_fault r = None then best
     else case best of None \<Rightarrow> Some r
       | Some b \<Rightarrow> if rs_fault b \<noteq> None \<and> rs_executed r < rs_executed b then Some r else Some b)"
  by (auto simp: fault_wins_def fault_cta_def unplaced_def split: option.splits)

lemma fault_winner_least:
  assumes "\<forall>r\<in>set rs. unplaced (rs_fault r)"
  shows "case fault_winner rs of
      None \<Rightarrow> \<forall>r\<in>set rs. rs_fault r = None
    | Some w \<Rightarrow> w \<in> set rs \<and> rs_fault w \<noteq> None \<and> (\<forall>r\<in>set rs. rs_fault r \<noteq> None \<longrightarrow> rs_executed w \<le> rs_executed r)"
  using assms
proof (induction rs rule: rev_induct)
  case (snoc r rs)
  have IH: "case fault_winner rs of
      None \<Rightarrow> \<forall>r\<in>set rs. rs_fault r = None
    | Some w \<Rightarrow> w \<in> set rs \<and> rs_fault w \<noteq> None \<and> (\<forall>r\<in>set rs. rs_fault r \<noteq> None \<longrightarrow> rs_executed w \<le> rs_executed r)"
    using snoc by simp
  have u: "unplaced (rs_fault r)" "\<forall>b. fault_winner rs = Some b \<longrightarrow> unplaced (rs_fault b)"
    using snoc.prems IH by (auto split: option.splits)
  have w: "fault_winner (rs @ [r]) = fault_wins r (fault_winner rs)" by (simp add: fault_winner_def)
  show ?case
  proof (cases "fault_winner rs")
    case None
    then show ?thesis using IH unfolding w fault_wins_unplaced [OF u] by (auto split: option.splits)
  next
    case (Some b)
    then show ?thesis using IH unfolding w fault_wins_unplaced [OF u] by (auto split: if_splits intro: order.trans less_imp_le)
  qed
qed (simp add: fault_winner_def)

lemma results_unplaced: "worker_results opts env k meta prog n rs \<Longrightarrow> \<forall>r\<in>set rs. unplaced (rs_fault r)"
  using worker_result(2) by (auto simp: in_set_conv_nth worker_results_def)

subsection \<open>Properties\<close>

text \<open>C1: A launch with memory instructions, run by a single worker, that ends without a fault has
  retired every lane of every CTA of the grid, in grid order, within the instruction limit and
  without reporting that the limit was reached.\<close>

theorem single_launch_retires_every_lane:
  assumes "run_single G opts env k meta prog = Some r" "lr_fault r = None"
  shows "launch_exited (lr_ctas r) \<and> map c_cta_id (lr_ctas r) = [0..<unat (grid_ctas env)] \<and>
    lr_executed r \<le> lo_instruction_limit opts \<and> \<not> lr_limit_reached r"
proof -
  let ?s = "worker_start opts env meta 0 1 (launch_service opts k meta)"
  obtain f lim fm where run: "full_run env k prog (lo_instruction_limit opts) ?s = Some (f, lim, fm)"
    and r: "r = single_result opts (run_result_of G False (launch_engine G opts) f lim fm)"
    using assms(1) by (auto simp: run_single_def)
  have ids: "worker_ctas env 0 (Suc 0) = [0..<unat (grid_ctas env)]" by (simp add: worker_ctas_def)
  show ?thesis
    using worker_run_inv [OF full_run_worker [OF run]] worker_start_inv [of opts env meta 0 1 "launch_service opts k meta"] assms(2)
    by (simp add: r single_result_def run_result_of_def Let_def ids)
qed

text \<open>C13: A launch on several workers that ends without a fault returns every CTA of the grid exactly
  once, in grid order and with every lane retired, whatever the workers did to the shared memory in
  between.\<close>

theorem merged_launch_is_complete:
  assumes "worker_results opts env k meta prog n rs" "0 < n" "lr_fault (merge_results G opts rs) = None"
  shows "map c_cta_id (lr_ctas (merge_results G opts rs)) = [0..<unat (grid_ctas env)] \<and>
    launch_exited (lr_ctas (merge_results G opts rs))"
proof -
  have len: "length rs = n" using assms(1) by (simp add: worker_results_def)
  note W = fault_winner_least [OF results_unplaced [OF assms(1)]]
  have none: "fault_winner rs = None" using assms(3) W by (auto simp: merge_results_def split: option.splits)
  then have ok: "\<forall>r\<in>set rs. rs_fault r = None" using W by simp
  have ctas: "lr_ctas (merge_results G opts rs) = sort_key c_cta_id (concat (map rs_ctas rs))" by (simp add: merge_results_def none)
  have "map (\<lambda>r. map c_cta_id (rs_ctas r)) rs = map (\<lambda>w. worker_ctas env w n) [0..<n]"
    using worker_result(1) [OF assms(1)] by (intro nth_equalityI) (simp_all add: len)
  then have "map c_cta_id (concat (map rs_ctas rs)) = concat (map (\<lambda>w. worker_ctas env w n) [0..<n])"
    by (simp only: map_concat map_map comp_def)
  then have ids: "map c_cta_id (lr_ctas (merge_results G opts rs)) = [0..<unat (grid_ctas env)]"
    by (simp only: ctas map_sort_key all_ids [OF assms(2)])
  have "launch_exited (rs_ctas r)" if "r \<in> set rs" for r
  proof -
    obtain w where w: "w < n" "rs ! w = r" using \<open>r \<in> set rs\<close> by (auto simp: in_set_conv_nth len)
    have "rs_fault r = None" using ok that by simp
    then show ?thesis using worker_result(4) [OF assms(1) w(1)] by (simp only: w(2) simp_thms)
  qed
  then have "launch_exited (lr_ctas (merge_results G opts rs))" unfolding ctas by (auto simp: launch_exited_def)
  with ids show ?thesis by blast
qed


text \<open>The race report.\<close>

definition launch_log :: "RunResult list \<Rightarrow> RaceEvent list" where
  "launch_log rs = concat (map rs_race_log rs)"

text \<open>C2: The race report of a launch does not depend on the number of workers. Take the workers of two
  launches of the same kernel. If every CTA logs the same events in the same order in both, up to
  the instruction numbers, which each worker counts for itself but which order the instructions of a
  CTA alike, then the two launches report the same races, text for text.\<close>

theorem race_report_ignores_worker_count:
  assumes "worker_results opts env k meta prog n rs" "worker_results opts env k meta prog n' rs'"
    and "unat (grid_ctas env) \<le> 2 ^ 32" "length (launch_log rs) \<le> 2 ^ 64"
    and "\<And>c. cta_log c (launch_log rs') = map (renum_event g) (cta_log c (launch_log rs))"
    and "keeps_order g I" "\<forall>e\<in>set (launch_log rs). event_in I e"
  shows "map json_report (lr_reports (merge_results G opts rs')) = map json_report (lr_reports (merge_results G opts rs))"
proof -
  have "rd_global_shadow (launch_detector opts) = []" "rd_shared_shadow (launch_detector opts) = []" "rd_reports (launch_detector opts) = []"
    by (simp_all add: launch_detector_def set_enabled_def new_detector_def)
  from replay_same_launch [OF launch_logs_numbered(1) [OF assms(1,3), folded launch_log_def] assms(4-7) this]
  have "map json_report (merged_reports opts rs') = map json_report (merged_reports opts rs)"
    by (simp add: merged_reports_def launch_log_def)
  moreover have "lr_reports (merge_results G opts xs) = merged_reports opts xs" for xs
    by (simp add: merge_results_def split: option.split)
  ultimately show ?thesis by simp
qed


subsection \<open>Examples\<close>

text \<open>
  One CTA of one thread whose kernel is a barrier and an EXIT, launched on one worker and on two, of
  which the second has no CTA. The service is any, so the runs are those of a shared one.
\<close>

definition demo_opts :: "u64 \<Rightarrow> LaunchOptions" where
  "demo_opts limit = \<lparr>lo_instruction_limit = limit, lo_worker_count = 2, lo_params = None, lo_global = None, lo_shared_size = 0,
     lo_local_size = 4, lo_l1tex = False, lo_l2 = True, lo_race = True, lo_sm_count = 1, lo_seed = 0\<rparr>"

definition demo_meta :: KernelMeta where
  "demo_meta = \<lparr>km_static_shared = 0, km_param_size = 0\<rparr>"

definition barrier_program :: "FullInst PredecodedWord list" where
  "barrier_program =
     [\<lparr>pw_unique = True, pw_reason = [], pw_word = (0, 0), pw_guard = \<lparr>g_pred = 7, g_not = False\<rparr>, pw_inst = IBar 0\<rparr>,
      \<lparr>pw_unique = True, pw_reason = [], pw_word = (0, 0), pw_guard = \<lparr>g_pred = 7, g_not = False\<rparr>, pw_inst = IExit\<rparr>]"

definition demo_run :: "u64 \<Rightarrow> nat \<Rightarrow> nat \<Rightarrow> MemoryService \<Rightarrow> (Fault option \<times> bool \<times> FullMachine) option" where
  "demo_run limit w n ms = full_run one_thread exit_kernel barrier_program limit (worker_start (demo_opts limit) one_thread demo_meta w n ms)"

lemma demo_run_first:
  "map_option (\<lambda>(f, lim, fm). (f, map re_kind (tr_race_log (fm_trace fm)), tr_l2_log (fm_trace fm))) (demo_run 4 0 1 ms) =
   Some (None, [evCtaBarrier], [])"
  by code_simp

lemma demo_run_idle:
  "map_option (\<lambda>(f, lim, fm). (f, tr_race_log (fm_trace fm), tr_l2_log (fm_trace fm))) (demo_run 4 1 2 ms) = Some (None, [], [])"
  by code_simp

lemma demo_run_limited: "map_option fst (demo_run 0 0 1 ms) \<noteq> Some None \<and> demo_run 0 0 1 ms \<noteq> None"
  by code_simp

definition demo_result :: "u64 \<Rightarrow> nat \<Rightarrow> nat \<Rightarrow> RunResult" where
  "demo_result limit w n =
     (case the (demo_run limit w n bare_service) of (f, lim, fm) \<Rightarrow>
        \<lparr>rs_fault = f, rs_limit_reached = lim, rs_executed = fm_executed fm, rs_ctas = fm_ctas fm,
         rs_events = tr_events (fm_trace fm), rs_race_log = tr_race_log (fm_trace fm), rs_l2_log = tr_l2_log (fm_trace fm)\<rparr>)"

lemma demo_run_again: "demo_run limit 0 2 ms = demo_run limit 0 1 ms"
proof -
  have "worker_ctas one_thread 0 2 = worker_ctas one_thread 0 1" by code_simp
  then show ?thesis by (simp add: demo_run_def worker_start_def)
qed

lemma demo_results:
  assumes "\<forall>w<n. demo_run limit w n bare_service \<noteq> None"
  shows "worker_results (demo_opts limit) one_thread exit_kernel demo_meta barrier_program n (map (\<lambda>w. demo_result limit w n) [0..<n])"
  unfolding worker_results_def
proof (intro conjI allI impI)
  fix w assume w: "w < n"
  obtain f lim fm where r: "demo_run limit w n bare_service = Some (f, lim, fm)" using assms w by auto
  have run: "worker_run one_thread exit_kernel barrier_program (lo_instruction_limit (demo_opts limit))
      (worker_start (demo_opts limit) one_thread demo_meta w n bare_service) (f, lim, fm)"
    by (rule full_run_worker) (use r in \<open>simp add: demo_run_def demo_opts_def\<close>)
  then show "\<exists>ms f lim fm. worker_run one_thread exit_kernel barrier_program (lo_instruction_limit (demo_opts limit))
        (worker_start (demo_opts limit) one_thread demo_meta w n ms) (f, lim, fm) \<and>
      map (\<lambda>w. demo_result limit w n) [0..<n] ! w =
        \<lparr>rs_fault = f, rs_limit_reached = lim, rs_executed = fm_executed fm, rs_ctas = fm_ctas fm,
          rs_events = tr_events (fm_trace fm), rs_race_log = tr_race_log (fm_trace fm), rs_l2_log = tr_l2_log (fm_trace fm)\<rparr>"
    using w r by (intro exI conjI) (auto simp: demo_result_def)
qed simp

lemma launch_demo_runs: "demo_run 4 0 1 ms \<noteq> None" "demo_run 4 1 2 ms \<noteq> None"
  using demo_run_first [of ms] demo_run_idle [of ms] by auto

lemma demo_one: "worker_results (demo_opts 4) one_thread exit_kernel demo_meta barrier_program 1 [demo_result 4 0 1]"
  using demo_results [of 1 4] launch_demo_runs by simp

lemma demo_two: "worker_results (demo_opts 4) one_thread exit_kernel demo_meta barrier_program 2 [demo_result 4 0 2, demo_result 4 1 2]"
proof -
  have "\<forall>w<2. demo_run 4 w 2 bare_service \<noteq> None"
    using launch_demo_runs [of bare_service] demo_run_again by (auto simp: less_Suc_eq numeral_2_eq_2)
  from demo_results [OF this] show ?thesis by (simp add: upt_rec numeral_2_eq_2)
qed

lemma demo_values:
  "rs_fault (demo_result 4 0 1) = None" "map re_kind (rs_race_log (demo_result 4 0 1)) = [evCtaBarrier]" "rs_l2_log (demo_result 4 0 1) = []"
  "rs_fault (demo_result 4 1 2) = None" "rs_race_log (demo_result 4 1 2) = []" "rs_l2_log (demo_result 4 1 2) = []"
  "demo_result 4 0 2 = demo_result 4 0 1"
  using demo_run_first [of bare_service] demo_run_idle [of bare_service] by (auto simp: demo_result_def demo_run_again)

lemma demo_grid: "unat (grid_ctas one_thread) = 1"
  by code_simp

lemmas demo_simps = demo_values demo_values [unfolded One_nat_def]

theorem single_launch_retires_every_lane_witness:
  "\<exists>r. run_single zero_rng (demo_opts 4) one_thread exit_kernel demo_meta barrier_program = Some r \<and> map c_cta_id (lr_ctas r) = [0]"
proof -
  let ?ms = "launch_service (demo_opts 4) exit_kernel demo_meta"
  obtain f lim fm where d: "demo_run 4 0 1 ?ms = Some (f, lim, fm)" "f = None" using demo_run_first [of ?ms] by auto
  let ?r = "single_result (demo_opts 4) (run_result_of zero_rng False (launch_engine zero_rng (demo_opts 4)) f lim fm)"
  have lim: "lo_instruction_limit (demo_opts 4) = 4" by (simp add: demo_opts_def)
  have r: "run_single zero_rng (demo_opts 4) one_thread exit_kernel demo_meta barrier_program = Some ?r"
    using d(1) by (simp only: run_single_def lim demo_run_def option.map(2) prod.case)
  have "lr_fault ?r = None" using d(2) by (simp add: single_result_def run_result_of_def Let_def)
  from single_launch_retires_every_lane [OF r this] r show ?thesis by (simp only: demo_grid) simp
qed

theorem merged_launch_is_complete_witness:
  "launch_exited (lr_ctas (merge_results zero_rng (demo_opts 4) [demo_result 4 0 2, demo_result 4 1 2]))"
proof -
  have "lr_fault (merge_results zero_rng (demo_opts 4) [demo_result 4 0 2, demo_result 4 1 2]) = None"
    by (simp add: merge_results_def fault_winner_def fault_wins_def demo_simps)
  from merged_launch_is_complete [OF demo_two _ this] show ?thesis by simp
qed


theorem race_report_ignores_worker_count_witness:
  "map json_report (lr_reports (merge_results zero_rng (demo_opts 4) [demo_result 4 0 2, demo_result 4 1 2])) =
   map json_report (lr_reports (merge_results zero_rng (demo_opts 4) [demo_result 4 0 1]))"
proof (rule race_report_ignores_worker_count [OF demo_one demo_two])
  have log: "launch_log [demo_result 4 0 1] = rs_race_log (demo_result 4 0 1)"
    "launch_log [demo_result 4 0 2, demo_result 4 1 2] = rs_race_log (demo_result 4 0 1)"
    by (simp_all add: launch_log_def demo_simps)
  have no: "\<not> has_access e" if "e \<in> set (rs_race_log (demo_result 4 0 1))" for e
    using that demo_values(2) by (auto simp: has_access_def)
  then show "\<forall>e\<in>set (launch_log [demo_result 4 0 1]). event_in {} e" unfolding log event_in_def by blast
  show "length (launch_log [demo_result 4 0 1]) \<le> 2 ^ 64"
    using arg_cong [OF demo_values(2), of length] unfolding log by simp
  show "cta_log c (launch_log [demo_result 4 0 2, demo_result 4 1 2]) =
      map (renum_event (\<lambda>_ i. i)) (cta_log c (launch_log [demo_result 4 0 1]))" for c
    unfolding log using no by (auto simp: cta_log_def renum_event_def intro!: map_idI [symmetric])
qed (simp_all add: demo_grid keeps_order_def)


end
