(* ===== verification/Ieee_Facts.thy ===== *)
theory Ieee_Facts
  imports Complex_Main Ieee_Float
begin

text \<open>
  \<open>round_mag\<close> rounds correctly: its result is a pattern next to the exact value, on the side and
  with the ties the mode asks for, and overflows as the mode asks for. The formats have a fraction
  of at least one bit.
\<close>

subsection \<open>Bit lengths and powers\<close>

lemma bit_length_bounds: "n > 0 \<Longrightarrow> 2 ^ (bit_length n - 1) \<le> n \<and> n < 2 ^ bit_length n \<and> bit_length n > 0"
proof (induction n rule: bit_length.induct)
  case (1 n)
  show ?case
  proof (cases "n = 1")
    case True
    then show ?thesis by (simp add: bit_length.simps [of "Suc 0"] bit_length.simps [of 0])
  next
    case False
    then have n: "n div 2 > 0" "n \<noteq> 0" using 1(2) by auto
    define h where "h = bit_length (n div 2)"
    have h: "2 ^ (h - 1) \<le> n div 2" "n div 2 < 2 ^ h" "h > 0" using 1(1) [OF n(2,1)] by (auto simp: h_def)
    have "bit_length n = Suc h" using n(2) by (simp add: bit_length.simps [of n] h_def)
    moreover have "(2 :: nat) ^ h = 2 * 2 ^ (h - 1)" using h(3) by (cases h) auto
    moreover have "n \<le> 2 * (n div 2) + 1" "2 * (n div 2) \<le> n" by auto
    ultimately have "2 ^ h \<le> n" "n < 2 * 2 ^ h" using h by linarith+
    with \<open>bit_length n = Suc h\<close> show ?thesis by simp
  qed
qed

lemma bit_length_eq:
  assumes "2 ^ n \<le> M" "M < 2 ^ Suc n"
  shows "bit_length M = Suc n"
proof -
  have M: "M > 0" using assms(1) by (metis gr0I not_less zero_less_numeral zero_less_power)
  define L where "L = bit_length M"
  have L: "2 ^ (L - 1) \<le> M" "M < 2 ^ L" "L > 0" using bit_length_bounds [OF M] by (auto simp: L_def)
  have "(2 :: nat) ^ (L - 1) < 2 ^ Suc n" "(2 :: nat) ^ n < 2 ^ L" using assms L by linarith+
  then have "L - 1 < Suc n" "n < L" by (metis power_less_imp_less_exp one_less_numeral_iff semiring_norm(76))+
  then show ?thesis using L(3) by (simp add: L_def)
qed

lemma bit_length_le:
  assumes "M > 0" "M < 2 ^ n"
  shows "bit_length M \<le> n"
proof -
  have "2 ^ (bit_length M - 1) \<le> M" "bit_length M > 0" using bit_length_bounds [OF assms(1)] by auto
  then have "(2 :: nat) ^ (bit_length M - 1) < 2 ^ n" using assms(2) by linarith
  then have "bit_length M - 1 < n" by (metis power_less_imp_less_exp one_less_numeral_iff semiring_norm(76))
  then show ?thesis using \<open>bit_length M > 0\<close> by simp
qed

lemma shift_quotient_exact:
  assumes "shift_quotient M s = (m, rem, den)"
  shows "real M * 2 powi s = real m + real rem / real den" "rem < den"
proof -
  have "real M * 2 powi s = real m + real rem / real den \<and> rem < den"
  proof (cases "s \<ge> 0")
    case True
    then have "m = M * 2 ^ nat s" "rem = 0" "den = 1" using assms by (simp_all add: shift_quotient_def)
    then show ?thesis using True by (simp add: power_int_def)
  next
    case False
    define D where "D = (2 :: nat) ^ nat (- s)"
    have md: "m = M div D" "rem = M mod D" "den = D" using assms False by (auto simp: shift_quotient_def D_def)
    have D: "D > 0" by (simp add: D_def)
    have "real M = real m * real D + real rem"
      unfolding md by (metis div_mult_mod_eq of_nat_add of_nat_mult)
    moreover have "real M * 2 powi s = real M / real D" using False by (simp add: power_int_def D_def field_simps)
    ultimately have "real M * 2 powi s = real m + real rem / real D" using D by (simp add: add_divide_distrib)
    then show ?thesis using D by (simp add: md)
  qed
  then show "real M * 2 powi s = real m + real rem / real den" "rem < den" by simp_all
qed

subsection \<open>Magnitudes\<close>

lemma mag_units_quotient:
  assumes "m \<le> 2 * 2 ^ ff_frac f" "d = 0 \<or> 2 ^ ff_frac f \<le> m"
  shows "mag_units f (m + d * 2 ^ ff_frac f) = m * 2 ^ d"
proof -
  let ?F = "(2 :: nat) ^ ff_frac f"
  consider "m < ?F" "d = 0" | j where "m = ?F + j" "j < ?F" | "m = 2 * ?F"
    using assms by (metis le_add_diff_inverse le_neq_implies_less mult_2 nat_add_left_cancel_less not_less)
  then show ?thesis
  proof cases
    case 1
    then show ?thesis by (simp add: mag_units_def)
  next
    case 2
    then have "m + d * ?F = j + Suc d * ?F" by simp
    then have "(m + d * ?F) div ?F = Suc d" "(m + d * ?F) mod ?F = j" using 2(2) by simp_all
    then show ?thesis using 2 by (simp add: mag_units_def)
  next
    case 3
    then have "m + d * ?F = Suc (Suc d) * ?F" by simp
    then have "(m + d * ?F) div ?F = Suc (Suc d)" "(m + d * ?F) mod ?F = 0" by simp_all
    then show ?thesis using 3 by (simp add: mag_units_def)
  qed
qed

lemma mag_units_Suc: "mag_units f (Suc q) = mag_units f q + 2 ^ (q div 2 ^ ff_frac f - 1)"
proof -
  let ?F = "(2 :: nat) ^ ff_frac f"
  define e where "e = q div ?F - 1"
  define m where "m = q - e * ?F"
  have le: "e * ?F \<le> q"
    by (metis diff_le_self div_times_less_eq_dividend dual_order.trans e_def mult_le_mono1)
  then have q: "q = m + e * ?F" by (simp add: m_def)
  have m: "m < 2 * ?F" "e = 0 \<or> ?F \<le> m"
  proof -
    have "q < (q div ?F + 1) * ?F" by (metis dividend_less_div_times zero_less_numeral zero_less_power add.commute mult.commute mult_Suc_right Suc_eq_plus1)
    then have "q < 2 * ?F + e * ?F" by (cases "q div ?F") (auto simp: e_def algebra_simps)
    then show "m < 2 * ?F" using le by (simp add: m_def less_diff_conv2)
    show "e = 0 \<or> ?F \<le> m"
    proof (cases "q div ?F")
      case 0
      then show ?thesis by (simp add: e_def)
    next
      case (Suc n)
      have "(q div ?F) * ?F \<le> q" by (rule div_times_less_eq_dividend)
      then have "?F + e * ?F \<le> q" using Suc by (simp add: e_def)
      then show ?thesis using le by (simp add: m_def le_diff_conv2)
    qed
  qed
  have "mag_units f q = m * 2 ^ e" using mag_units_quotient [of m f e] m q by simp
  moreover have "mag_units f (Suc q) = Suc m * 2 ^ e" using mag_units_quotient [of "Suc m" f e] m q by auto
  ultimately show ?thesis by (simp add: e_def)
qed

lemma mag_units_less_Suc: "mag_units f q < mag_units f (Suc q)"
  by (simp add: mag_units_Suc)

lemma mag_units_less: "q < r \<Longrightarrow> mag_units f q < mag_units f r"
  by (rule lift_Suc_mono_less [of "mag_units f"]) (rule mag_units_less_Suc)

lemma mag_units_less_iff [simp]: "mag_units f q < mag_units f r \<longleftrightarrow> q < r"
  by (metis mag_units_less linorder_neqE_nat order_less_asym order_less_irrefl)

lemma mag_units_le_iff [simp]: "mag_units f q \<le> mag_units f r \<longleftrightarrow> q \<le> r"
  by (meson mag_units_less_iff not_less)

lemma mag_units_0 [simp]: "mag_units f 0 = 0"
  by (simp add: mag_units_def)

lemma mag_units_eq_0 [simp]: "mag_units f q = 0 \<longleftrightarrow> q = 0"
  by (metis gr0I less_irrefl mag_units_0 mag_units_less)

lemma mag_units_pos [simp]: "0 < mag_units f q \<longleftrightarrow> 0 < q"
  by (metis gr0I less_irrefl mag_units_eq_0)

subsection \<open>Correct rounding\<close>

abbreviation mag_val :: "FloatFmt \<Rightarrow> nat \<Rightarrow> real" where
  "mag_val f q \<equiv> real (mag_units f q)"

lemma mag_val_less: "q < r \<Longrightarrow> mag_val f q < mag_val f r"
  by simp

lemma mag_val_le: "q \<le> r \<Longrightarrow> mag_val f q \<le> mag_val f r"
  by simp

text \<open>
  \<open>q\<close> is what the exact magnitude \<open>X\<close> units rounds to. The pattern of infinity counts as the
  next power of two, as the standard has it for overflow.
\<close>

definition rounds_to :: "FloatFmt \<Rightarrow> Rnd \<Rightarrow> bool \<Rightarrow> real \<Rightarrow> nat \<Rightarrow> bool" where
  "rounds_to f rnd neg X q \<longleftrightarrow> q \<le> inf_pat f \<and>
     (if rnd = kRn then
        (q < inf_pat f \<longrightarrow> 2 * X \<le> mag_val f q + mag_val f (q + 1) \<and>
           (2 * X = mag_val f q + mag_val f (q + 1) \<longrightarrow> even q)) \<and>
        (0 < q \<longrightarrow> mag_val f (q - 1) + mag_val f q \<le> 2 * X \<and>
           (mag_val f (q - 1) + mag_val f q = 2 * X \<longrightarrow> even q))
      else if (rnd = kRp \<and> \<not> neg) \<or> (rnd = kRm \<and> neg) then
        (q < inf_pat f \<longrightarrow> X \<le> mag_val f q) \<and> (0 < q \<longrightarrow> mag_val f (q - 1) < X)
      else
        q < inf_pat f \<and> mag_val f q \<le> X \<and> (q + 1 < inf_pat f \<longrightarrow> X < mag_val f (q + 1)))"

text \<open>The exact value lies between the truncated pattern and the next, at the remainder's fraction.\<close>

lemma quotient_brackets:
  assumes "M > 0" "shift_quotient M (k - int (quantum_exp f M k)) = (m, rem, den)"
  defines "q \<equiv> m + quantum_exp f M k * 2 ^ ff_frac f"
  shows "real M * 2 powi k = mag_val f q + real rem / real den * (mag_val f (q + 1) - mag_val f q)"
proof -
  let ?F = "2 ^ ff_frac f :: nat" and ?L = "bit_length M"
  define d where "d = quantum_exp f M k"
  note Q = shift_quotient_exact [OF assms(2), folded d_def]
  have L: "2 ^ (?L - 1) \<le> M" "M < 2 ^ ?L" "?L > 0" using bit_length_bounds [OF assms(1)] by auto
  have split: "real M * 2 powi k = real M * 2 powi (k - int d) * 2 ^ d"
    by (simp add: power_int_diff)
  have fr: "0 \<le> real rem / real den" "real rem / real den < 1" using Q(2) by simp_all
  let ?Y = "real M * 2 powi (k - int d)"
  have up: "?Y < 2 powi (int ?L + k - int d)"
  proof -
    have "real M < 2 powi int ?L" using L(2) by (metis of_nat_less_iff of_nat_numeral of_nat_power power_int_of_nat)
    then have "?Y < 2 powi int ?L * 2 powi (k - int d)" by simp
    also have "\<dots> = 2 powi (int ?L + k - int d)" by (subst power_int_add [symmetric]) (simp_all add: add_diff_eq)
    finally show ?thesis .
  qed
  have lo: "2 powi (int ?L - 1 + k - int d) \<le> ?Y"
  proof -
    have "2 powi (int ?L - 1) \<le> real M"
      using L(1,3) by (metis One_nat_def Suc_leI of_nat_1 of_nat_diff of_nat_le_iff of_nat_numeral of_nat_power power_int_of_nat)
    then have "2 powi (int ?L - 1) * 2 powi (k - int d) \<le> ?Y" by simp
    moreover have "(2 :: real) powi (int ?L - 1) * 2 powi (k - int d) = 2 powi (int ?L - 1 + k - int d)"
      by (subst power_int_add [symmetric]) (simp_all add: add_diff_eq)
    ultimately show ?thesis by simp
  qed
  have m1: "real m < 2 * real ?F"
  proof -
    have "int ?L + k - int d \<le> int (ff_frac f) + 1" by (simp add: d_def quantum_exp_def)
    then have "(2 :: real) powi (int ?L + k - int d) \<le> 2 powi (int (ff_frac f) + 1)" by (intro power_int_increasing) auto
    also have "\<dots> = 2 * real ?F" by (simp add: power_int_add)
    finally show ?thesis using up Q(1) fr by linarith
  qed
  have m2: "d = 0 \<or> ?F \<le> m"
  proof (cases "d = 0")
    case False
    then have "int ?L - 1 + k - int d = int (ff_frac f)" by (simp add: d_def quantum_exp_def split: if_splits)
    then have "real ?F \<le> real m + real rem / real den" using lo Q(1) by simp
    then have "real ?F < real (Suc m)" using fr by simp
    then show ?thesis by linarith
  qed simp
  have "m < 2 * ?F" using m1 by (metis of_nat_less_iff of_nat_mult of_nat_numeral)
  then have v: "mag_units f q = m * 2 ^ d" "mag_units f (q + 1) = (m + 1) * 2 ^ d"
    using mag_units_quotient [of m f d] mag_units_quotient [of "m + 1" f d] m2 by (auto simp: q_def d_def)
  show ?thesis unfolding split Q(1) v by (simp add: algebra_simps)
qed

lemma even_inf_pat: "ff_frac f > 0 \<Longrightarrow> even (inf_pat f)"
  by (simp add: inf_pat_def)

text \<open>What \<open>round_mag\<close> chooses, in terms of the bracketing patterns.\<close>

lemma round_mag_choice:
  assumes "M > 0" "ff_frac f > 0"
  obtains q0 where "mag_val f q0 \<le> real M * 2 powi k" "real M * 2 powi k < mag_val f (q0 + 1)"
    and "round_mag f rnd neg M k =
      (let q = (if (case rnd of
            kRn \<Rightarrow> 2 * (real M * 2 powi k) > mag_val f q0 + mag_val f (q0 + 1) \<or>
              (2 * (real M * 2 powi k) = mag_val f q0 + mag_val f (q0 + 1) \<and> odd q0)
          | kRz \<Rightarrow> False
          | kRm \<Rightarrow> neg \<and> real M * 2 powi k \<noteq> mag_val f q0
          | kRp \<Rightarrow> \<not> neg \<and> real M * 2 powi k \<noteq> mag_val f q0) then q0 + 1 else q0)
       in if q \<ge> inf_pat f then overflow_pat f rnd neg else q)"
proof -
  let ?X = "real M * 2 powi k" and ?d = "quantum_exp f M k"
  obtain m rem den where Q: "shift_quotient M (k - int ?d) = (m, rem, den)" by (metis prod_cases3)
  define q0 where "q0 = m + ?d * 2 ^ ff_frac f"
  let ?G = "mag_val f (q0 + 1) - mag_val f q0" and ?r = "real rem / real den"
  have X: "?X = mag_val f q0 + ?r * ?G" using quotient_brackets [OF assms(1) Q] by (simp add: q0_def)
  have G: "?G > 0" using mag_val_less [of q0 "q0 + 1" f] by simp
  have den: "rem < den" using shift_quotient_exact(2) [OF Q] .
  have par: "odd q0 \<longleftrightarrow> odd m" using assms(2) by (simp add: q0_def)
  have r: "0 \<le> ?r" "?r < 1" using den by simp_all
  have c0: "?X \<noteq> mag_val f q0 \<longleftrightarrow> rem \<noteq> 0"
  proof -
    have "?X = mag_val f q0 \<longleftrightarrow> ?r * ?G = 0" using X by linarith
    also have "\<dots> \<longleftrightarrow> ?r = 0" using G by (simp only: mult_eq_0_iff) linarith
    finally show ?thesis using den by simp
  qed
  have two: "2 * ?X - (mag_val f q0 + mag_val f (q0 + 1)) = (2 * ?r - 1) * ?G" by (simp add: X algebra_simps)
  have d: "real den > 0" using den by simp
  have c1: "2 * ?X > mag_val f q0 + mag_val f (q0 + 1) \<longleftrightarrow> 2 * rem > den"
  proof -
    have "2 * ?X > mag_val f q0 + mag_val f (q0 + 1) \<longleftrightarrow> 0 < (2 * ?r - 1) * ?G" using two by linarith
    also have "\<dots> \<longleftrightarrow> 1 < 2 * ?r" using G by (simp add: zero_less_mult_iff)
    also have "\<dots> \<longleftrightarrow> real den < real (2 * rem)" using d by (simp add: field_simps)
    finally show ?thesis by linarith
  qed
  have c2: "2 * ?X = mag_val f q0 + mag_val f (q0 + 1) \<longleftrightarrow> 2 * rem = den"
  proof -
    have "2 * ?X = mag_val f q0 + mag_val f (q0 + 1) \<longleftrightarrow> (2 * ?r - 1) * ?G = 0" using two by linarith
    also have "\<dots> \<longleftrightarrow> 2 * ?r = 1" using G by (simp only: mult_eq_0_iff) linarith
    also have "\<dots> \<longleftrightarrow> real (2 * rem) = real den" using d by (auto simp: field_simps)
    finally show ?thesis by linarith
  qed
  have "?r * ?G < 1 * ?G" using r(2) G by (rule mult_strict_right_mono)
  then have "?X < mag_val f q0 + ?G" unfolding X mult_1 by (rule add_strict_left_mono)
  then have "?X < mag_val f (q0 + 1)" by simp
  moreover have "mag_val f q0 \<le> ?X" using X r(1) G by simp
  moreover have "round_mag f rnd neg M k =
      (let q = (if round_up rnd neg m rem den then q0 + 1 else q0)
       in if q \<ge> inf_pat f then overflow_pat f rnd neg else q)"
    using assms(1) Q by (simp add: round_mag_def q0_def Let_def)
  ultimately show thesis
    by (intro that [of q0]) (simp_all only: round_up_def c0 c1 c2 par)
qed

lemma round_mag_correct:
  assumes "M > 0" "ff_frac f > 0" "ff_exp f > 0"
  shows "rounds_to f rnd neg (real M * 2 powi k) (round_mag f rnd neg M k)"
proof -
  define X where "X = real M * 2 powi k"
  let ?V = "mag_val f" and ?I = "inf_pat f"
  obtain q0 where b: "?V q0 \<le> X" "X < ?V (q0 + 1)" and R: "round_mag f rnd neg M k =
      (let q = (if (case rnd of
            kRn \<Rightarrow> 2 * X > ?V q0 + ?V (q0 + 1) \<or> (2 * X = ?V q0 + ?V (q0 + 1) \<and> odd q0)
          | kRz \<Rightarrow> False | kRm \<Rightarrow> neg \<and> X \<noteq> ?V q0 | kRp \<Rightarrow> \<not> neg \<and> X \<noteq> ?V q0) then q0 + 1 else q0)
       in if q \<ge> ?I then overflow_pat f rnd neg else q)"
    using round_mag_choice [OF assms(1,2), of k rnd neg] unfolding X_def by blast
  have I: "?I > 0" using assms(3) one_less_power [of "2 :: nat" "ff_exp f"] by (simp add: inf_pat_def)
  have ev: "even ?I" using even_inf_pat [OF assms(2)] .
  have mono: "?V p \<le> ?V q" if "p \<le> q" for p q using that by simp
  have smono: "?V p < ?V q" if "p < q" for p q using that by simp
  have top: "?V (?I - 1) < ?V ?I" using I by simp
  consider (near) "rnd = kRn" | (away) "(rnd = kRp \<and> \<not> neg) \<or> (rnd = kRm \<and> neg)"
    | (zero) "rnd = kRz \<or> (rnd = kRp \<and> neg) \<or> (rnd = kRm \<and> \<not> neg)"
    by (cases rnd) auto
  then have "rounds_to f rnd neg X (round_mag f rnd neg M k)"
  proof cases
    case zero
    then have q: "round_mag f rnd neg M k = (if q0 \<ge> ?I then ?I - 1 else q0)"
      by (auto simp: R overflow_pat_def Let_def split: Rnd.splits)
    show ?thesis
    proof (cases "q0 \<ge> ?I")
      case True
      then have "?V (?I - 1) \<le> X" using b(1) mono [of "?I - 1" q0] by linarith
      then show ?thesis using True zero I by (auto simp: rounds_to_def q)
    next
      case False
      then show ?thesis using zero b by (auto simp: rounds_to_def q)
    qed
  next
    case away
    define q where "q = (if X = ?V q0 then q0 else q0 + 1)"
    have eq: "round_mag f rnd neg M k = (if q \<ge> ?I then ?I else q)"
      using away by (auto simp: R overflow_pat_def Let_def q_def)
    have q: "X \<le> ?V q" "q > 0 \<Longrightarrow> ?V (q - 1) < X"
      using b smono [of "q0 - 1" q0] by (auto simp: q_def)
    show ?thesis
    proof (cases "q \<ge> ?I")
      case True
      then have "?I - 1 \<le> q - 1" "q > 0" using I by simp_all
      then have "?V (?I - 1) < X" using q(2) mono [of "?I - 1" "q - 1"] by linarith
      then show ?thesis using True away by (auto simp: rounds_to_def eq)
    next
      case False
      then show ?thesis using q away by (auto simp: rounds_to_def eq)
    qed
  next
    case near
    define q where "q = (if 2 * X > ?V q0 + ?V (q0 + 1) \<or> (2 * X = ?V q0 + ?V (q0 + 1) \<and> odd q0) then q0 + 1 else q0)"
    have eq: "round_mag f rnd neg M k = (if q \<ge> ?I then ?I else q)"
      unfolding near R [unfolded near] by (simp add: overflow_pat_def Let_def q_def)
    have up: "2 * X \<le> ?V q + ?V (q + 1)" "2 * X = ?V q + ?V (q + 1) \<Longrightarrow> even q"
      using b smono [of "q0 + 1" "q0 + 1 + 1"]
      by (auto simp: q_def simp del: mag_units_less_iff of_nat_less_iff split: if_splits)
    have lo: "?V (q - 1) + ?V q \<le> 2 * X" "?V (q - 1) + ?V q = 2 * X \<Longrightarrow> even q" if "q > 0"
      using b that smono [of "q0 - 1" q0]
      by (auto simp: q_def simp del: mag_units_less_iff of_nat_less_iff split: if_splits)
    have "rounds_to f kRn neg X (if q \<ge> ?I then ?I else q)"
    proof (cases "q \<ge> ?I")
      case True
      then have "?V (?I - 1) + ?V ?I \<le> ?V (q - 1) + ?V q"
        by (intro add_mono mono) simp_all
      then show ?thesis using True lo(1) I ev by (auto simp: rounds_to_def)
    next
      case False
      then show ?thesis using up lo by (auto simp: rounds_to_def)
    qed
    then show ?thesis by (simp only: near eq [unfolded near])
  qed
  then show ?thesis by (simp add: X_def)
qed

text \<open>The specification determines the result, so a proof may compare roundings by it.\<close>

lemma rounds_to_unique:
  assumes "rounds_to f rnd neg X p" "rounds_to f rnd neg X q"
  shows "p = q"
proof -
  have no: False if less: "p < q" and p: "rounds_to f rnd neg X p" and q: "rounds_to f rnd neg X q" for p q
  proof -
    have q0: "0 < q" "p < inf_pat f" "p \<le> q - 1" "p + 1 \<le> q" using less q by (auto simp: rounds_to_def)
    have m: "mag_val f p \<le> mag_val f (q - 1)" "mag_val f (p + 1) \<le> mag_val f q"
      using q0(3,4) by (auto simp del: One_nat_def intro: mag_val_le)
    consider "rnd = kRn" | "rnd \<noteq> kRn" "(rnd = kRp \<and> \<not> neg) \<or> (rnd = kRm \<and> neg)"
      | "rnd \<noteq> kRn" "\<not> ((rnd = kRp \<and> \<not> neg) \<or> (rnd = kRm \<and> neg))" by blast
    then show False
    proof cases
      case 1
      then have P: "2 * X \<le> mag_val f p + mag_val f (p + 1)" "2 * X = mag_val f p + mag_val f (p + 1) \<Longrightarrow> even p"
        and Q: "mag_val f (q - 1) + mag_val f q \<le> 2 * X" "mag_val f (q - 1) + mag_val f q = 2 * X \<Longrightarrow> even q"
        using p q q0 unfolding rounds_to_def by auto
      have "mag_val f (p + 1) = mag_val f q" "even p" "even q" using P Q m by linarith+
      then have "p + 1 = q" using mag_val_less [of "p + 1" q f] q0(4) by linarith
      then show False using \<open>even p\<close> \<open>even q\<close> by presburger
    next
      case 2
      then have "X \<le> mag_val f p" "mag_val f (q - 1) < X" using p q q0 unfolding rounds_to_def by auto
      then show False using m by linarith
    next
      case 3
      then have "p + 1 < inf_pat f \<longrightarrow> X < mag_val f (p + 1)" "mag_val f q \<le> X" "q < inf_pat f"
        using p q q0 unfolding rounds_to_def by auto
      then show False using m q0(4) by linarith
    qed
  qed
  show ?thesis using no [of p q] no [of q p] assms by (meson linorder_neqE_nat)
qed

lemma round_mag_scale:
  assumes "ff_frac f > 0" "ff_exp f > 0"
  shows "round_mag f rnd neg (M * 2 ^ j) k = round_mag f rnd neg M (k + int j)"
proof (cases "M = 0")
  case False
  then have "M > 0" "M * 2 ^ j > 0" by auto
  have "real (M * 2 ^ j) * 2 powi k = real M * 2 powi (k + int j)"
    by (subst power_int_add) simp_all
  with round_mag_correct [OF \<open>M > 0\<close> assms, of rnd neg "k + int j"] round_mag_correct [OF \<open>M * 2 ^ j > 0\<close> assms, of rnd neg k]
  show ?thesis by (metis rounds_to_unique)
qed (simp add: round_mag_def)

text \<open>A representable magnitude is its own rounding.\<close>

lemma rounds_to_exact:
  assumes "q < inf_pat f"
  shows "rounds_to f rnd neg (mag_val f q) q"
proof -
  have a: "mag_val f q < mag_val f (q + 1)" by simp
  have b: "mag_val f (q - 1) < mag_val f q" if "0 < q" using that by simp
  show ?thesis using assms a b unfolding rounds_to_def
    by (auto simp del: mag_units_less_iff of_nat_less_iff)
qed

lemma round_mag_exact:
  assumes "ff_frac f > 0" "ff_exp f > 0" "q < inf_pat f"
  shows "round_mag f rnd neg (mag_units f q) 0 = q"
proof (cases "q = 0")
  case False
  then have "mag_units f q > 0" by (metis gr0I mag_units_eq_0)
  from round_mag_correct [OF this assms(1,2), of rnd neg 0] rounds_to_exact [OF assms(3), of rnd neg]
  show ?thesis by (metis mult.right_neutral power_int_0_right rounds_to_unique)
qed (simp add: round_mag_def)

subsection \<open>Normal and subnormal results\<close>

text \<open>
  A significand of \<open>p + 1\<close> bits and a result with the exponent field \<open>ef\<close> in the normal range: the
  low \<open>p - ff_frac f\<close> bits are rounded away.
\<close>

definition rounded_quotient :: "Rnd \<Rightarrow> bool \<Rightarrow> nat \<Rightarrow> nat \<Rightarrow> nat" where
  "rounded_quotient rnd neg M s =
     (if round_up rnd neg (M div 2 ^ s) (M mod 2 ^ s) (2 ^ s) then M div 2 ^ s + 1 else M div 2 ^ s)"

lemma shift_quotient_down: "shift_quotient M (- int s) = (M div 2 ^ s, M mod 2 ^ s, 2 ^ s)"
  by (cases "s = 0") (simp_all add: shift_quotient_def)

lemma round_mag_normal:
  assumes "2 ^ p \<le> M" "M < 2 ^ Suc p" "ff_frac f + s = p" "1 \<le> ef"
  shows "round_mag f rnd neg M (ef - 1 - int s) =
      (let q = rounded_quotient rnd neg M s + nat (ef - 1) * 2 ^ ff_frac f
       in if q \<ge> inf_pat f then overflow_pat f rnd neg else q)"
    and "2 ^ ff_frac f \<le> M div 2 ^ s" "M div 2 ^ s < 2 ^ (ff_frac f + 1)"
proof -
  have p: "2 ^ ff_frac f * 2 ^ s = (2 :: nat) ^ p" by (simp only: power_add [symmetric] assms(3))
  show "2 ^ ff_frac f \<le> M div 2 ^ s" using assms(1) by (simp add: less_eq_div_iff_mult_less_eq p)
  have "2 ^ (ff_frac f + 1) * 2 ^ s = (2 :: nat) ^ Suc p" using p by simp
  then show "M div 2 ^ s < 2 ^ (ff_frac f + 1)" using assms(2) by (simp only: div_less_iff_less_mult zero_less_power zero_less_numeral)
  have "bit_length M = Suc p" by (rule bit_length_eq [OF assms(1,2)])
  then have "quantum_exp f M (ef - 1 - int s) = nat (ef - 1)" using assms(3) by (auto simp: quantum_exp_def)
  moreover have "shift_quotient M (ef - 1 - int s - int (nat (ef - 1))) = (M div 2 ^ s, M mod 2 ^ s, 2 ^ s)"
  proof -
    have "ef - 1 - int s - int (nat (ef - 1)) = - int s" using assms(4) by simp
    then show ?thesis by (simp only: shift_quotient_down)
  qed
  moreover have "M \<noteq> 0" using assms(1) by (metis le_zero_eq power_not_zero zero_neq_numeral)
  ultimately show "round_mag f rnd neg M (ef - 1 - int s) =
      (let q = rounded_quotient rnd neg M s + nat (ef - 1) * 2 ^ ff_frac f
       in if q \<ge> inf_pat f then overflow_pat f rnd neg else q)"
    by (simp only: round_mag_def rounded_quotient_def Let_def if_False prod.case)
qed

lemma round_mag_subnormal:
  assumes "0 < M" "M < 2 ^ (ff_frac f + s)" "2 ^ ff_frac f < inf_pat f"
  shows "round_mag f rnd neg M (- int s) = rounded_quotient rnd neg M s"
    and "M div 2 ^ s < 2 ^ ff_frac f" "rounded_quotient rnd neg M s \<le> 2 ^ ff_frac f"
proof -
  show lt: "M div 2 ^ s < 2 ^ ff_frac f" using assms(2) by (simp add: div_less_iff_less_mult power_add)
  then show le: "rounded_quotient rnd neg M s \<le> 2 ^ ff_frac f" by (simp add: rounded_quotient_def)
  have "bit_length M \<le> ff_frac f + s" by (rule bit_length_le [OF assms(1,2)])
  then have "quantum_exp f M (- int s) = 0" by (simp add: quantum_exp_def)
  then show "round_mag f rnd neg M (- int s) = rounded_quotient rnd neg M s"
    using assms(1,3) le by (simp add: round_mag_def shift_quotient_down rounded_quotient_def Let_def)
qed

end
