(* ===== verification/Fp_Facts.thy ===== *)
theory Fp_Facts
  imports Fp Ieee_Facts
begin

text \<open>
  The bit manipulations of the narrowing conversions against IEC 60559: the fields of a pattern, and
  that each conversion is the correctly rounded one.
\<close>

subsection \<open>Fields\<close>

lemma nat_or_field:
  assumes "b < 2 ^ n"
  shows "(A * 2 ^ n) OR b = A * 2 ^ n + (b :: nat)"
proof -
  have "b = take_bit n b" using assms by (simp add: take_bit_nat_eq_self)
  then have "push_bit n A AND b = 0" by (metis (no_types, lifting) bit_0_eq bit_and_iff bit_eqI bit_push_bit_iff bit_take_bit_iff bot_apply bot_bool_def not_less)
  then show ?thesis by (simp add: push_bit_eq_mult disjunctive_add_eq_or [symmetric])
qed

lemma unat_or_field:
  fixes a b :: "'a :: len word"
  assumes "unat a = A * 2 ^ n" "unat b < 2 ^ n"
  shows "unat (a OR b) = unat a + unat b"
  using nat_or_field [OF assms(2), of A] assms(1) by (simp add: unsigned_or_eq)

lemma and_low_mask: "a AND (push_bit n 1 - 1) = take_bit n (a :: 'a :: len word)"
  by (simp add: take_bit_eq_mask mask_eq_exp_minus_1 push_bit_of_1)

lemma unat_low_mask: "unat (a AND (push_bit n 1 - 1)) = unat (a :: 'a :: len word) mod 2 ^ n"
  by (metis and_low_mask unsigned_take_bit_eq take_bit_eq_mod)

lemma unat_drop: "unat (drop_bit n (a :: 'a :: len word)) = unat a div 2 ^ n"
  by (metis unat_drop_bit_eq drop_bit_eq_div)

lemma unat_add_one: "unat (a :: 'a :: len word) + 1 < 2 ^ LENGTH('a) \<Longrightarrow> unat (a + 1) = unat a + 1"
  by (simp add: unat_word_ariths)

lemma word_low_bit: "a AND 1 \<noteq> 0 \<longleftrightarrow> odd (unat (a :: 'a :: len word))"
proof -
  have "a AND 1 \<noteq> 0 \<longleftrightarrow> bit a 0" by (simp add: and_one_eq bit_0 odd_iff_mod_2_eq_one)
  also have "\<dots> \<longleftrightarrow> bit (unat a) 0" by (simp add: bit_unsigned_iff)
  finally show ?thesis by (simp add: bit_0)
qed

subsection \<open>The format a code names\<close>

definition dr_fmt :: "int \<Rightarrow> FloatFmt" where
  "dr_fmt fmt = (if fmt = 0 then binary16 else if fmt = 2 then bfloat16 else binary32)"

named_theorems dr_simps

lemma dr_fmt_simps [dr_simps]:
  "ff_frac (dr_fmt fmt) = dr_frac_bits fmt" "ff_bias (dr_fmt fmt) = dr_bias fmt"
  "ff_unit (dr_fmt fmt) = dr_sub_unit fmt" "int (2 ^ ff_exp (dr_fmt fmt)) = dr_max_exp fmt + 1"
  "0 < ff_exp (dr_fmt fmt)" "0 < dr_frac_bits fmt" "dr_frac_bits fmt < 24"
  by (simp_all add: dr_fmt_def dr_frac_bits_def dr_bias_def dr_sub_unit_def dr_max_exp_def ff_unit_def ff_bias_def
      format_defs push_bit_eq_mult)

lemma dr_inf_pat: "inf_pat (dr_fmt fmt) = nat (dr_max_exp fmt) * 2 ^ dr_frac_bits fmt"
  by (simp add: inf_pat_def dr_fmt_def dr_frac_bits_def dr_max_exp_def format_defs push_bit_eq_mult)

lemma dr_max_exp_pos: "dr_max_exp fmt \<ge> 31"
  by (simp add: dr_max_exp_def push_bit_eq_mult)

lemma dr_width: "2 ^ ff_width (dr_fmt fmt) = (nat (dr_max_exp fmt) + 1) * (2 :: nat) ^ dr_frac_bits fmt"
  by (simp add: ff_width_def dr_fmt_def dr_frac_bits_def dr_max_exp_def format_defs push_bit_eq_mult)

lemma dr_sign_bit_value:
  assumes "fmt \<in> {0, 1, 2}"
  shows "unat (dr_sign_bit fmt neg) = (if neg then 1 else 0) * 2 ^ ff_width (dr_fmt fmt)"
  using assms by (auto simp: dr_sign_bit_def dr_fmt_def format_defs ff_width_def)

lemma dr_field_bound:
  assumes "e \<le> dr_max_exp fmt" "low < 2 ^ dr_frac_bits fmt"
  shows "nat e * 2 ^ dr_frac_bits fmt + low < 2 ^ ff_width (dr_fmt fmt)"
proof -
  have "nat e * 2 ^ dr_frac_bits fmt \<le> nat (dr_max_exp fmt) * 2 ^ dr_frac_bits fmt"
    using assms(1) by (intro mult_le_mono1) simp
  moreover have "2 ^ ff_width (dr_fmt fmt) = nat (dr_max_exp fmt) * 2 ^ dr_frac_bits fmt + 2 ^ dr_frac_bits fmt"
    by (simp only: dr_width add_mult_distrib mult_1)
  ultimately show ?thesis using assms(2) by linarith
qed

lemma dr_width_le: "(2 :: nat) ^ ff_width (dr_fmt fmt) \<le> 2 ^ 31"
  by (simp add: ff_width_def dr_fmt_def format_defs)

lemma dr_exp_field_value:
  assumes "0 \<le> e" "e \<le> dr_max_exp fmt"
  shows "unat (dr_exp_field fmt e) = nat e * 2 ^ dr_frac_bits fmt"
proof -
  have b: "nat e * 2 ^ dr_frac_bits fmt < 2 ^ 32"
    using dr_field_bound [OF assms(2), of 0] dr_width_le [of fmt] by simp
  have e: "nat e < 2 ^ 32" using assms dr_max_exp_def by (auto simp: push_bit_eq_mult split: if_splits)
  have "unat (word_of_int e :: u32) = nat e"
    using e assms(1) by (metis nat_0_le unat_of_nat_u32 of_int_of_nat_eq)
  then show ?thesis using b unfolding dr_exp_field_def unsigned_push_bit_eq
    by (simp add: push_bit_eq_mult take_bit_eq_mod)
qed

lemma dr_assemble:
  assumes "fmt \<in> {0, 1, 2}" "0 \<le> e" "e \<le> dr_max_exp fmt" "unat low < 2 ^ dr_frac_bits fmt"
  shows "unat (dr_sign_bit fmt neg OR dr_exp_field fmt e OR low) =
    with_sign (dr_fmt fmt) neg (nat e * 2 ^ dr_frac_bits fmt + unat low)"
proof -
  have "unat (dr_exp_field fmt e OR low) = nat e * 2 ^ dr_frac_bits fmt + unat low"
    using unat_or_field [OF dr_exp_field_value assms(4)] dr_exp_field_value assms(2,3) by simp
  then show ?thesis
    using unat_or_field [OF dr_sign_bit_value [OF assms(1)], of "dr_exp_field fmt e OR low" neg]
      dr_field_bound [OF assms(3,4)] dr_sign_bit_value [OF assms(1)]
    by (simp add: with_sign_def)
qed

lemma dr_carry_round_up:
  assumes "0 < s" "s < 64"
  shows "dr_carry rnd neg rem (int s) m = round_up rnd neg (unat m) (unat rem) (2 ^ s)"
proof -
  define half :: u64 where "half = push_bit (s - 1) 1"
  have p: "(2 :: nat) ^ s = 2 * 2 ^ (s - 1)" using assms(1) by (cases s) simp_all
  have "s - 1 < 64" using assms by simp
  then have "(2 :: nat) ^ (s - 1) < 2 ^ 64" by (intro power_strict_increasing) simp_all
  then have h: "unat half = 2 ^ (s - 1)"
    unfolding half_def unsigned_push_bit_eq by (simp add: push_bit_eq_mult take_bit_eq_mod)
  have "rem > half \<longleftrightarrow> 2 * unat rem > 2 ^ s" "rem = half \<longleftrightarrow> 2 * unat rem = 2 ^ s"
    using h by (simp_all add: p word_less_nat_alt word_unat_eq_iff)
  moreover have "nat (int s - 1) = s - 1" by simp
  moreover have "rem \<noteq> 0 \<longleftrightarrow> unat rem \<noteq> 0" by (simp add: unat_eq_0)
  ultimately show ?thesis using assms
    by (cases rnd) (simp_all add: dr_carry_def round_up_def word_low_bit half_def)
qed

lemma dr_low_bits:
  "unat (ucast (m AND ucast (push_bit (dr_frac_bits fmt) 1 - 1 :: u32)) :: u32) = unat (m :: u64) mod 2 ^ dr_frac_bits fmt"
proof -
  have c: "ucast (push_bit (dr_frac_bits fmt) 1 - 1 :: u32) = (push_bit (dr_frac_bits fmt) 1 - 1 :: u64)"
    by (simp add: dr_frac_bits_def push_bit_eq_mult)
  have b: "unat m mod 2 ^ dr_frac_bits fmt < 2 ^ 32"
    by (rule less_le_trans [OF mod_less_divisor]) (simp_all add: dr_frac_bits_def)
  show ?thesis unfolding c using b
    by (simp only: unsigned_ucast_eq unat_low_mask take_bit_eq_mod) simp
qed

text \<open>The overflow results are those of the standard.\<close>

lemma dr_overflow_value:
  assumes "fmt \<in> {0, 1, 2}"
  shows "unat (dr_overflow fmt rnd False neg) = with_sign (dr_fmt fmt) neg (overflow_pat (dr_fmt fmt) rnd neg)"
proof -
  let ?fb = "dr_frac_bits fmt" and ?mx = "dr_max_exp fmt"
  have ones: "unat (push_bit ?fb 1 - 1 :: u32) = 2 ^ ?fb - 1"
    by (simp add: dr_frac_bits_def push_bit_eq_mult)
  have "nat ?mx = Suc (nat (?mx - 1))" using dr_max_exp_pos [of fmt] by simp
  then have mx: "inf_pat (dr_fmt fmt) - Suc 0 = nat (?mx - 1) * 2 ^ ?fb + 2 ^ ?fb - Suc 0" by (simp add: dr_inf_pat)
  show ?thesis
    using dr_assemble [OF assms, of ?mx 0 neg] dr_assemble [OF assms, of "?mx - 1" "push_bit ?fb 1 - 1" neg]
      dr_max_exp_pos [of fmt] ones
    by (simp add: dr_overflow_def overflow_pat_def dr_inf_pat [symmetric] mx)
qed

lemma dr_normal_rounds:
  assumes "fmt \<in> {0, 1, 2}" "2 ^ 52 \<le> unat M" "unat M < 2 ^ 53" "1 \<le> ef" "ef < dr_max_exp fmt"
  shows "unat (dr_normal fmt rnd False neg M ef) =
    with_sign (dr_fmt fmt) neg (round_mag (dr_fmt fmt) rnd neg (unat M) (ef - 1 - int (52 - dr_frac_bits fmt)))"
proof -
  let ?fb = "dr_frac_bits fmt" and ?f = "dr_fmt fmt"
  define s where "s = 52 - ?fb"
  have s: "0 < s" "s < 64" "?fb + s = 52" using dr_fmt_simps(6,7) [of fmt] by (auto simp: s_def)
  define m where "m = drop_bit s M"
  define rem where "rem = M AND (push_bit s 1 - 1)"
  have m: "unat m = unat M div 2 ^ s" and rem: "unat rem = unat M mod 2 ^ s"
    by (simp_all only: m_def rem_def unat_drop unat_low_mask)
  define up where "up = dr_carry rnd neg rem (int s) m"
  have up: "up = round_up rnd neg (unat M div 2 ^ s) (unat M mod 2 ^ s) (2 ^ s)"
    by (simp only: up_def dr_carry_round_up [OF s(1,2)] m rem)
  have p: "(2 :: nat) ^ 52 \<le> unat M" "unat M < 2 ^ Suc 52" "ff_frac ?f + s = 52" using assms(2,3) s(3) by (simp_all add: dr_simps)
  note R = round_mag_normal [OF p assms(4), unfolded dr_fmt_simps(1)]
  have mb: "2 ^ ?fb \<le> unat m" "unat m < 2 ^ (?fb + 1)" using R(2,3) by (simp_all only: m)
  have f25: "(2 :: nat) ^ (?fb + 1) \<le> 2 ^ 24" using dr_fmt_simps(7) [of fmt] by (intro power_increasing) auto
  define m' where "m' = (if up then m + 1 else m)"
  have m': "unat m' = (if up then unat m + 1 else unat m)" "unat m' \<le> 2 ^ (?fb + 1)"
    using mb f25 unat_add_one [of m] by (auto simp: m'_def)
  have q: "round_mag ?f rnd neg (unat M) (ef - 1 - int s) =
      (let q = unat m' + nat (ef - 1) * 2 ^ ?fb in if q \<ge> inf_pat ?f then overflow_pat ?f rnd neg else q)"
    unfolding R(1) by (simp only: m'(1) m rounded_quotient_def up)
  have "(2 :: nat) ^ (?fb + 1) < 2 ^ 64" using f25 by (rule le_less_trans) simp
  then have pb: "unat (push_bit (?fb + 1) 1 :: u64) = 2 ^ (?fb + 1)"
    unfolding unsigned_push_bit_eq by (simp add: push_bit_eq_mult take_bit_eq_mod)
  have ef: "nat ef = nat (ef - 1) + 1" using assms(4) by simp
  have unf: "dr_normal fmt rnd False neg M ef =
      (if up \<and> m' = push_bit (?fb + 1) 1 then
         if ef + 1 \<ge> dr_max_exp fmt then dr_overflow fmt rnd False neg
         else dr_sign_bit fmt neg OR dr_exp_field fmt (ef + 1)
       else dr_sign_bit fmt neg OR dr_exp_field fmt ef OR ucast (m' AND ucast (push_bit ?fb 1 - 1 :: u32)))"
    by (simp only: dr_normal_def Let_def m'_def up_def m_def rem_def s_def dr_sat_final_def simp_thms if_True)
  have "(2 :: nat) ^ (?fb + 1) < 2 ^ 64" using f25 by (rule le_less_trans) simp
  then have pb: "unat (push_bit (?fb + 1) 1 :: u64) = 2 ^ (?fb + 1)"
    unfolding unsigned_push_bit_eq by (simp add: push_bit_eq_mult take_bit_eq_mod)
  have ef: "nat ef = nat (ef - 1) + 1" using assms(4) by simp
  show ?thesis
  proof (cases "up \<and> m' = push_bit (?fb + 1) 1")
    case True
    have carry: "unat m' + nat (ef - 1) * 2 ^ ?fb = (nat ef + 1) * 2 ^ ?fb" using True pb by (simp add: ef)
    have top: "(nat ef + 1) * 2 ^ ?fb \<ge> inf_pat ?f \<longleftrightarrow> ef + 1 \<ge> dr_max_exp fmt"
      unfolding dr_inf_pat mult_le_cancel2 using assms(4,5) by (auto simp: nat_le_iff)
    have "dr_normal fmt rnd False neg M ef =
        (if ef + 1 \<ge> dr_max_exp fmt then dr_overflow fmt rnd False neg
         else dr_sign_bit fmt neg OR dr_exp_field fmt (ef + 1))"
      using True by (simp only: unf simp_thms if_True)
    moreover have "unat (dr_sign_bit fmt neg OR dr_exp_field fmt (ef + 1)) = with_sign ?f neg ((nat ef + 1) * 2 ^ ?fb)"
      if "\<not> ef + 1 \<ge> dr_max_exp fmt"
      using dr_assemble [OF assms(1), of "ef + 1" 0 neg] that assms(4) by (simp add: nat_add_distrib)
    ultimately show ?thesis
      using dr_overflow_value [OF assms(1), of rnd neg] q carry top by (auto simp: s_def Let_def)
  next
    case False
    have lt: "unat m' < 2 ^ (?fb + 1)"
    proof (rule ccontr)
      assume "\<not> unat m' < 2 ^ (?fb + 1)"
      then have e: "unat m' = 2 ^ (?fb + 1)" using m'(2) by simp
      then have "up" using m'(1) mb by (auto split: if_splits)
      moreover have "m' = push_bit (?fb + 1) 1"
        using e pb by (simp add: word_unat_eq_iff)
      ultimately show False using False by simp
    qed
    have ge: "2 ^ ?fb \<le> unat m'" using m'(1) mb by auto
    have mod: "unat m' mod 2 ^ ?fb = unat m' - 2 ^ ?fb"
      using lt ge by (simp add: mod_if)
    define low :: u32 where "low = ucast (m' AND ucast (push_bit ?fb 1 - 1 :: u32))"
    have low: "unat low = unat m' mod 2 ^ ?fb" by (simp only: low_def dr_low_bits)
    have "dr_normal fmt rnd False neg M ef = dr_sign_bit fmt neg OR dr_exp_field fmt ef OR low"
      using False by (simp only: unf if_False low_def)
    then have "unat (dr_normal fmt rnd False neg M ef) = with_sign ?f neg (nat ef * 2 ^ ?fb + unat m' mod 2 ^ ?fb)"
      using dr_assemble [OF assms(1), of ef low neg] assms(4,5) by (simp add: low)
    moreover have "nat ef * 2 ^ ?fb + unat m' mod 2 ^ ?fb = unat m' + nat (ef - 1) * 2 ^ ?fb"
      using ge by (simp add: mod ef)
    moreover have "unat m' + nat (ef - 1) * 2 ^ ?fb < inf_pat ?f"
    proof -
      have "unat m' + nat (ef - 1) * 2 ^ ?fb < nat (ef - 1) * 2 ^ ?fb + 2 * 2 ^ ?fb" using lt by simp
      also have "\<dots> = (nat ef + 1) * 2 ^ ?fb" by (simp add: ef)
      also have "\<dots> \<le> inf_pat ?f" unfolding dr_inf_pat using assms(5,4) by (intro mult_le_mono1) simp
      finally show ?thesis .
    qed
    ultimately show ?thesis using q by (simp add: s_def Let_def)
  qed
qed

text \<open>Below the smallest normal the quantum is the unit; the shift may exceed the word.\<close>

lemma dr_subnormal_split:
  assumes "unat M < 2 ^ 53" "0 < s"
  defines "m \<equiv> if int s \<ge> 53 then 0 else drop_bit s (M :: u64)"
    and "rem \<equiv> if int s \<ge> 53 then M else M AND (push_bit s 1 - 1)"
  shows "unat m = unat M div 2 ^ s" "unat rem = unat M mod 2 ^ s"
    and "dr_carry rnd neg rem (int s) m = round_up rnd neg (unat m) (unat rem) (2 ^ s)"
proof -
  have big: "unat M < 2 ^ s" if "int s \<ge> 53"
    using assms(1) power_increasing [of 53 s "2 :: nat"] that by simp
  show m: "unat m = unat M div 2 ^ s" using big by (simp add: m_def unat_drop)
  show rem: "unat rem = unat M mod 2 ^ s" using big by (auto simp only: rem_def unat_low_mask mod_less split: if_splits)
  show "dr_carry rnd neg rem (int s) m = round_up rnd neg (unat m) (unat rem) (2 ^ s)"
  proof (cases "s < 64")
    case True
    then show ?thesis by (rule dr_carry_round_up [OF assms(2)])
  next
    case False
    then have "(2 :: nat) ^ 64 \<le> 2 ^ s" by (intro power_increasing) simp_all
    then have "2 * unat rem < 2 ^ s" using False assms(1) by (simp add: rem_def)
    then show ?thesis using False by (cases rnd) (simp_all add: dr_carry_def round_up_def unat_eq_0)
  qed
qed

lemma dr_subnormal_rounds:
  assumes "fmt \<in> {0, 1, 2}" "0 < unat M" "unat M < 2 ^ 53" "1 \<le> E" "E - 1023 + dr_bias fmt \<le> 0"
  shows "unat (dr_subnormal fmt rnd False False neg M E) =
    with_sign (dr_fmt fmt) neg (round_mag (dr_fmt fmt) rnd neg (unat M) (E - 1075 - dr_sub_unit fmt))"
proof -
  let ?fb = "dr_frac_bits fmt" and ?f = "dr_fmt fmt"
  define s where "s = nat (1075 + dr_sub_unit fmt - E)"
  have s: "1075 + dr_sub_unit fmt - E = int s" "int s \<ge> 53 - int ?fb" "0 < s" "E - 1075 - dr_sub_unit fmt = - int s"
    using assms(5) dr_fmt_simps(7) [of fmt] by (auto simp: s_def dr_sub_unit_def)
  define m where "m = (if int s \<ge> 53 then 0 else drop_bit s M)"
  define rem where "rem = (if int s \<ge> 53 then M else M AND (push_bit s 1 - 1))"
  note S = dr_subnormal_split [OF assms(3) s(3), folded m_def rem_def]
  define m' where "m' = (if dr_carry rnd neg rem (int s) m then m + 1 else m)"
  have "unat M < 2 ^ (ff_frac ?f + s)"
    using assms(3) power_increasing [of 53 "?fb + s" "2 :: nat"] s(2) by (simp add: dr_simps)
  moreover have "2 ^ ff_frac ?f < inf_pat ?f"
    unfolding dr_inf_pat dr_fmt_simps(1) using dr_max_exp_pos [of fmt] by simp
  ultimately have R: "round_mag ?f rnd neg (unat M) (- int s) = rounded_quotient rnd neg (unat M) s"
    "unat M div 2 ^ s < 2 ^ ?fb" "rounded_quotient rnd neg (unat M) s \<le> 2 ^ ?fb"
    using round_mag_subnormal [OF assms(2), of ?f s] by (simp_all add: dr_simps)
  have f24: "(2 :: nat) ^ ?fb \<le> 2 ^ 23" using dr_fmt_simps(7) [of fmt] by (intro power_increasing) auto
  have q: "unat m' = rounded_quotient rnd neg (unat M) s"
    using R(2) f24 unat_add_one [of m] S by (simp add: m'_def rounded_quotient_def)
  have m': "unat m' \<le> 2 ^ ?fb" using R(3) by (simp add: q)
  have unf: "dr_subnormal fmt rnd False False neg M E =
      (if m' \<ge> push_bit ?fb 1 then dr_sign_bit fmt neg OR push_bit ?fb 1
       else dr_sign_bit fmt neg OR ucast (m' AND ucast (push_bit ?fb 1 - 1 :: u32)))"
    using s(3) by (simp add: dr_subnormal_def s(1) m'_def m_def rem_def dr_sat_final_def Let_def)
  have "(2 :: nat) ^ ?fb < 2 ^ 64" "(2 :: nat) ^ ?fb < 2 ^ 32" using f24 by simp_all
  then have pb: "unat (push_bit ?fb 1 :: u64) = 2 ^ ?fb"
    unfolding unsigned_push_bit_eq by (simp add: push_bit_eq_mult take_bit_eq_mod)
  show ?thesis
  proof (cases "m' \<ge> push_bit ?fb 1")
    case True
    then have e: "unat m' = 2 ^ ?fb" using m' pb by (simp add: word_le_nat_alt)
    have "dr_exp_field fmt 1 = push_bit ?fb 1" by (simp add: dr_exp_field_def)
    then have "unat (dr_sign_bit fmt neg OR push_bit ?fb 1) = with_sign ?f neg (2 ^ ?fb)"
      using dr_assemble [OF assms(1), of 1 0 neg] dr_max_exp_pos [of fmt] by simp
    then show ?thesis using True by (simp only: unf if_True s(4) R(1) q [symmetric] e)
  next
    case False
    then have lt: "unat m' < 2 ^ ?fb" using pb by (simp add: word_le_nat_alt)
    define low :: u32 where "low = ucast (m' AND ucast (push_bit ?fb 1 - 1 :: u32))"
    have low: "unat low = unat m'" using lt by (simp only: low_def dr_low_bits mod_less)
    have "dr_exp_field fmt 0 = 0" by (simp add: dr_exp_field_def)
    then have "unat (dr_sign_bit fmt neg OR low) = with_sign ?f neg (unat m')"
      using dr_assemble [OF assms(1), of 0 low neg] dr_max_exp_pos [of fmt] lt by (simp add: low)
    then show ?thesis using False by (simp only: unf if_False s(4) R(1) q [symmetric] low_def)
  qed
qed

subsection \<open>The fields of an FP64 pattern\<close>

lemma fp64_sign: "drop_bit 63 bits AND 1 \<noteq> 0 \<longleftrightarrow> fp_neg binary64 (unat (bits :: u64))"
proof -
  have "unat bits < 2 * 2 ^ 63" using unat_lt_u64 [of bits] by simp
  then have "unat bits div 2 ^ 63 < 2" by (simp add: div_less_iff_less_mult)
  moreover have "odd n \<longleftrightarrow> n > 0" if "n < 2" for n :: nat using that by (auto simp: less_2_cases_iff)
  ultimately have "odd (unat bits div 2 ^ 63) \<longleftrightarrow> unat bits div 2 ^ 63 > 0" by blast
  then show ?thesis unfolding word_low_bit unat_drop by (simp add: fp_neg_def ff_width_def binary64_def div_greater_zero_iff)
qed

lemma fp64_fields:
  fixes bits :: u64
  defines "mag \<equiv> fp_mag binary64 (unat bits)"
  shows "uint (drop_bit 52 bits AND 0x7FF) = int (mag div 2 ^ 52)" "unat (bits AND 0xFFFFFFFFFFFFF) = mag mod 2 ^ 52"
    "mag div 2 ^ 52 < 2048"
proof -
  have m: "mag = unat bits mod 2 ^ 63" by (simp add: mag_def fp_mag_def ff_width_def binary64_def)
  have d: "mag div 2 ^ 52 = unat bits div 2 ^ 52 mod 2 ^ 11"
    unfolding m using mod_mult2_eq [of "unat bits" "2 ^ 52" "2 ^ 11"] by simp
  have "unat (drop_bit 52 bits AND (push_bit 11 1 - 1)) = mag div 2 ^ 52"
    unfolding unat_low_mask unat_drop d ..
  then show "uint (drop_bit 52 bits AND 0x7FF) = int (mag div 2 ^ 52)" unfolding uint_nat by simp
  have "unat (bits AND (push_bit 52 1 - 1)) = unat bits mod 2 ^ 52" by (rule unat_low_mask)
  also have "\<dots> = mag mod 2 ^ 52" unfolding m by (simp add: mod_mod_cancel)
  finally show "unat (bits AND 0xFFFFFFFFFFFFF) = mag mod 2 ^ 52" by simp
  show "mag div 2 ^ 52 < 2048" using d by simp
qed

lemma fp64_finite: "fp_finite binary64 p \<longleftrightarrow> fp_mag binary64 p div 2 ^ 52 < 2047"
  by (simp add: fp_finite_def inf_pat_def binary64_def div_less_iff_less_mult)

lemma fp64_units:
  "mag_units binary64 q = (if q div 2 ^ 52 = 0 then q mod 2 ^ 52 else (2 ^ 52 + q mod 2 ^ 52) * 2 ^ (q div 2 ^ 52 - 1))"
proof -
  have "q div 2 ^ 52 = 0 \<longleftrightarrow> q < 2 ^ 52" by (simp add: div_eq_0_iff)
  then show ?thesis by (simp add: mag_units_def binary64_def)
qed

subsection \<open>The narrowing conversions are the casts\<close>

lemma fp_convert_finite:
  assumes "\<not> fp_inf f p"
  shows "fp_convert f g rnd p =
    with_sign g (fp_neg f p) (round_mag g rnd (fp_neg f p) (mag_units f (fp_mag f p)) (ff_unit f - ff_unit g))"
  using assms by (auto simp: fp_convert_def fp_round_def Let_def fp_units_def)

lemma dr_overflow_rounds:
  assumes "2 ^ 52 \<le> unat M" "unat M < 2 ^ 53" "dr_max_exp fmt \<le> ef"
  shows "round_mag (dr_fmt fmt) rnd neg (unat M) (ef - 1 - int (52 - dr_frac_bits fmt)) = overflow_pat (dr_fmt fmt) rnd neg"
proof -
  let ?f = "dr_fmt fmt" and ?s = "52 - dr_frac_bits fmt"
  have p: "unat M < 2 ^ Suc 52" "ff_frac ?f + ?s = 52" "1 \<le> ef"
    using assms(2,3) dr_fmt_simps(7) [of fmt] dr_max_exp_pos [of fmt] by (simp_all add: dr_fmt_simps(1))
  note R = round_mag_normal [OF assms(1) p, unfolded dr_fmt_simps(1)]
  have "inf_pat ?f \<le> (nat (ef - 1) + 1) * 2 ^ dr_frac_bits fmt"
    unfolding dr_inf_pat mult_le_cancel2 using assms(3) p(3) by (simp add: nat_le_iff)
  also have "\<dots> \<le> rounded_quotient rnd neg (unat M) ?s + nat (ef - 1) * 2 ^ dr_frac_bits fmt"
    using R(2) by (simp add: rounded_quotient_def)
  finally show ?thesis unfolding R(1) by (simp add: Let_def)
qed

text \<open>The significand and exponent the code takes apart, and the paths it takes on them.\<close>

definition significand64 :: "u64 \<Rightarrow> u64" where
  "significand64 bits = (if fp_mag binary64 (unat bits) div 2 ^ 52 \<noteq> 0 then push_bit 52 1 OR (bits AND 0xFFFFFFFFFFFFF)
     else bits AND 0xFFFFFFFFFFFFF)"

definition exponent64 :: "u64 \<Rightarrow> nat" where
  "exponent64 bits = (if fp_mag binary64 (unat bits) div 2 ^ 52 \<noteq> 0 then fp_mag binary64 (unat bits) div 2 ^ 52 else 1)"

lemma significand64:
  fixes bits :: u64
  defines "mag \<equiv> fp_mag binary64 (unat bits)"
  shows "unat (significand64 bits) = (if mag div 2 ^ 52 \<noteq> 0 then 2 ^ 52 + mag mod 2 ^ 52 else mag mod 2 ^ 52)"
    and "mag_units binary64 mag = unat (significand64 bits) * 2 ^ (exponent64 bits - 1)"
    and "unat (significand64 bits) < 2 ^ 53" "1 \<le> exponent64 bits"
    and "exponent64 bits \<noteq> 1 \<longrightarrow> 2 ^ 52 \<le> unat (significand64 bits)"
proof -
  have F: "unat (bits AND 0xFFFFFFFFFFFFF) = mag mod 2 ^ 52" using fp64_fields(2) [of bits] by (simp only: mag_def)
  have "unat (push_bit 52 1 :: u64) = 1 * 2 ^ 52" by simp
  from unat_or_field [OF this, of "bits AND 0xFFFFFFFFFFFFF"]
  show M: "unat (significand64 bits) = (if mag div 2 ^ 52 \<noteq> 0 then 2 ^ 52 + mag mod 2 ^ 52 else mag mod 2 ^ 52)"
    using F by (simp add: significand64_def mag_def)
  show "mag_units binary64 mag = unat (significand64 bits) * 2 ^ (exponent64 bits - 1)"
    unfolding M fp64_units exponent64_def mag_def by simp
  have "(if b then 2 ^ 52 + x else x) < (2 :: nat) ^ 53" if "x < 2 ^ 52" for b x using that by simp
  then show "unat (significand64 bits) < 2 ^ 53" unfolding M by simp
  show "1 \<le> exponent64 bits" by (simp add: exponent64_def)
  show "exponent64 bits \<noteq> 1 \<longrightarrow> 2 ^ 52 \<le> unat (significand64 bits)" unfolding M by (simp add: exponent64_def mag_def)
qed

lemma f64_down_round_paths:
  fixes bits :: u64
  assumes "fp_finite binary64 (unat bits)"
  defines "neg \<equiv> fp_neg binary64 (unat bits)" and "M \<equiv> significand64 bits" and "E \<equiv> int (exponent64 bits)"
  shows "f64_down_round bits rnd fmt False False =
      (if unat M = 0 then dr_sign_bit fmt neg
       else if E - 1023 + dr_bias fmt \<ge> dr_max_exp fmt then dr_overflow fmt rnd False neg
       else if E - 1023 + dr_bias fmt \<ge> 1 then dr_normal fmt rnd False neg M (E - 1023 + dr_bias fmt)
       else dr_subnormal fmt rnd False False neg M E)"
proof -
  define e where "e = fp_mag binary64 (unat bits) div 2 ^ 52"
  define fr where "fr = fp_mag binary64 (unat bits) mod 2 ^ 52"
  have F: "uint (drop_bit 52 bits AND 0x7FF) = int e" "unat (bits AND 0xFFFFFFFFFFFFF) = fr"
    using fp64_fields(1,2) [of bits] by (simp_all only: e_def fr_def)
  have e: "e < 2047" using assms(1) by (simp only: fp64_finite e_def)
  have z: "bits AND 0xFFFFFFFFFFFFF = 0 \<longleftrightarrow> fr = 0" using F(2) by (metis unat_eq_zero)
  have M0: "unat M = 0 \<longleftrightarrow> e = 0 \<and> fr = 0" unfolding M_def significand64(1) e_def fr_def by simp
  have "int e \<noteq> 0x7FF" using e by simp
  moreover have "(if int e \<noteq> 0 then int e else 1) = E" by (simp add: E_def exponent64_def e_def)
  moreover have "(if int e \<noteq> 0 then push_bit 52 1 OR (bits AND 0xFFFFFFFFFFFFF) else bits AND 0xFFFFFFFFFFFFF) = M"
    by (simp add: M_def significand64_def e_def)
  ultimately show ?thesis unfolding f64_down_round_def F(1) Let_def z fp64_sign neg_def [symmetric] M0
    by (simp only: dr_sat_final_def of_nat_eq_0_iff simp_thms if_True if_False)
qed

lemma f64_down_round_finite:
  assumes "fmt \<in> {0, 1, 2}" "fp_finite binary64 (unat bits)"
  shows "unat (f64_down_round bits rnd fmt False False) = fp_convert binary64 (dr_fmt fmt) rnd (unat bits)"
proof -
  let ?neg = "fp_neg binary64 (unat bits)" and ?f = "dr_fmt fmt" and ?M = "significand64 bits"
  define ef where "ef = int (exponent64 bits) - 1023 + dr_bias fmt"
  note S = significand64 [of bits]
  have k: "int (exponent64 bits) - 1075 - dr_sub_unit fmt = ef - 1 - int (52 - dr_frac_bits fmt)"
    using dr_fmt_simps(7) [of fmt] by (simp add: dr_sub_unit_def ef_def of_nat_diff)
  have u: "ff_unit binary64 - ff_unit ?f = - 1074 - dr_sub_unit fmt"
    unfolding dr_fmt_simps(3) by (simp add: ff_unit_def ff_bias_def binary64_def)
  have "round_mag ?f rnd ?neg (mag_units binary64 (fp_mag binary64 (unat bits))) (- 1074 - dr_sub_unit fmt) =
      round_mag ?f rnd ?neg (unat ?M) (int (exponent64 bits) - 1075 - dr_sub_unit fmt)"
  proof -
    have e: "- 1074 - dr_sub_unit fmt + int (exponent64 bits - 1) = int (exponent64 bits) - 1075 - dr_sub_unit fmt"
      using S(4) by (simp add: of_nat_diff)
    have "round_mag ?f rnd ?neg (unat ?M * 2 ^ (exponent64 bits - 1)) (- 1074 - dr_sub_unit fmt) =
        round_mag ?f rnd ?neg (unat ?M) (- 1074 - dr_sub_unit fmt + int (exponent64 bits - 1))"
      by (rule round_mag_scale) (simp_all add: dr_simps)
    then show ?thesis by (simp only: S(2) e)
  qed
  then have conv: "fp_convert binary64 ?f rnd (unat bits) =
      with_sign ?f ?neg (round_mag ?f rnd ?neg (unat ?M) (ef - 1 - int (52 - dr_frac_bits fmt)))"
    using assms(2) by (subst fp_convert_finite) (simp_all add: fp_finite_def fp_inf_def u k)
  note paths = f64_down_round_paths [OF assms(2), of rnd fmt, folded ef_def]
  have sub: "dr_bias fmt \<le> 127" by (simp add: dr_bias_def)
  have M52: "2 ^ 52 \<le> unat ?M" if "ef \<ge> 1" using S(5) that sub by (auto simp: ef_def)
  consider "unat ?M = 0" | "unat ?M > 0" "ef \<ge> dr_max_exp fmt" | "unat ?M > 0" "ef < dr_max_exp fmt" "ef \<ge> 1"
    | "unat ?M > 0" "ef < 1" "ef < dr_max_exp fmt"
    using dr_max_exp_pos [of fmt] by linarith
  then show ?thesis
  proof cases
    case 1
    then show ?thesis using dr_sign_bit_value [OF assms(1)] by (simp add: paths conv round_mag_def with_sign_def)
  next
    case 2
    then have "ef \<ge> 1" using dr_max_exp_pos [of fmt] by linarith
    from 2 dr_overflow_rounds [OF M52 [OF this] S(3) 2(2), of rnd ?neg] dr_overflow_value [OF assms(1), of rnd ?neg]
    show ?thesis by (simp add: paths conv)
  next
    case 3
    with dr_normal_rounds [OF assms(1) M52 [OF 3(3)] S(3) 3(3,2), of rnd ?neg] show ?thesis
      by (simp add: paths conv)
  next
    case 4
    then have "int (exponent64 bits) - 1023 + dr_bias fmt \<le> 0" by (simp add: ef_def)
    with 4 dr_subnormal_rounds [OF assms(1) 4(1) S(3) _ this, of rnd ?neg] S(4) show ?thesis
      by (simp add: paths conv k)
  qed
qed

end
