(* ===== verification/Fp_Half_Facts.thy ===== *)
theory Fp_Half_Facts
  imports Fp_Facts
begin

text \<open>
  \<open>f32_to_f16\<close> is the correctly rounded cast, and \<open>f16_to_f32\<close> is exact, so that widening and
  narrowing again returns the half it started from.
\<close>

subsection \<open>Fields of an FP32 pattern\<close>

lemma fp32_sign: "fp_neg binary32 (unat (bits :: u32)) \<longleftrightarrow> bit bits 31"
proof -
  have "unat bits < 2 ^ 32" using unsigned_less [of bits, where 'a = nat] by simp
  then have "unat bits div 2 ^ 31 < 2" by (simp add: div_less_iff_less_mult)
  moreover have "odd n \<longleftrightarrow> n > 0" if "n < 2" for n :: nat using that by (auto simp: less_2_cases_iff)
  ultimately have "odd (unat bits div 2 ^ 31) \<longleftrightarrow> unat bits div 2 ^ 31 > 0" by blast
  moreover have "bit bits 31 \<longleftrightarrow> odd (unat bits div 2 ^ 31)"
    using bit_iff_odd [of "unat bits" 31] by (simp add: bit_unsigned_iff)
  ultimately show ?thesis by (simp add: fp_neg_def ff_width_def binary32_def div_greater_zero_iff)
qed

lemma and_single_bit:
  assumes "k < LENGTH('a)"
  shows "w AND push_bit k 1 = (if bit w k then push_bit k 1 else (0 :: 'a :: len word))"
proof (rule bit_word_eqI)
  fix n assume n: "n < LENGTH('a)"
  have "bit (push_bit k 1 :: 'a word) n \<longleftrightarrow> n = k"
    using n by (auto simp only: bit_push_bit_iff bit_1_iff possible_bit_word)
  then show "bit (w AND push_bit k 1) n \<longleftrightarrow> bit (if bit w k then push_bit k 1 else 0 :: 'a word) n"
    by (auto simp only: bit_and_iff bit_0_eq bot_apply bot_bool_def split: if_splits)
qed

lemma fp32_sign_mask: "bits AND 0x80000000 = (if fp_neg binary32 (unat (bits :: u32)) then 0x80000000 else 0)"
proof -
  have "bits AND push_bit 31 1 = (if bit bits 31 then push_bit 31 1 else 0)" by (rule and_single_bit) simp
  then show ?thesis by (simp add: fp32_sign)
qed

lemma fp32_fields:
  fixes bits :: u32
  defines "mag \<equiv> fp_mag binary32 (unat bits)"
  shows "unat (drop_bit 23 bits AND 0xff) = mag div 2 ^ 23" "unat (bits AND 0x7fffff) = mag mod 2 ^ 23"
    "mag div 2 ^ 23 < 256"
proof -
  have m: "mag = unat bits mod 2 ^ 31" by (simp add: mag_def fp_mag_def ff_width_def binary32_def)
  have d: "mag div 2 ^ 23 = unat bits div 2 ^ 23 mod 2 ^ 8"
    unfolding m using mod_mult2_eq [of "unat bits" "2 ^ 23" "2 ^ 8"] by simp
  have "unat (drop_bit 23 bits AND (push_bit 8 1 - 1)) = mag div 2 ^ 23"
    unfolding unat_low_mask unat_drop d ..
  then show "unat (drop_bit 23 bits AND 0xff) = mag div 2 ^ 23" by simp
  have "unat (bits AND (push_bit 23 1 - 1)) = unat bits mod 2 ^ 23" by (rule unat_low_mask)
  also have "\<dots> = mag mod 2 ^ 23" unfolding m by (simp add: mod_mod_cancel)
  finally show "unat (bits AND 0x7fffff) = mag mod 2 ^ 23" by simp
  show "mag div 2 ^ 23 < 256" using d by simp
qed

lemma fp32_classes:
  "fp_finite binary32 p \<longleftrightarrow> fp_mag binary32 p div 2 ^ 23 < 255"
  "fp_inf binary32 p \<longleftrightarrow> fp_mag binary32 p = 255 * 2 ^ 23"
  "fp_nan binary32 p \<longleftrightarrow> fp_mag binary32 p > 255 * 2 ^ 23"
  by (simp_all add: fp_finite_def fp_inf_def fp_nan_def inf_pat_def binary32_def div_less_iff_less_mult)

lemma fp32_units:
  "mag_units binary32 q = (if q div 2 ^ 23 = 0 then q mod 2 ^ 23 else (2 ^ 23 + q mod 2 ^ 23) * 2 ^ (q div 2 ^ 23 - 1))"
proof -
  have "q div 2 ^ 23 = 0 \<longleftrightarrow> q < 2 ^ 23" by (simp add: div_eq_0_iff)
  then show ?thesis by (simp add: mag_units_def binary32_def)
qed

subsection \<open>Rounding to FP16\<close>

lemma f16_as_dr: "dr_fmt 0 = binary16" "dr_frac_bits 0 = 10" "dr_max_exp 0 = 31"
  by (simp_all add: dr_fmt_def dr_frac_bits_def dr_max_exp_def push_bit_eq_mult)

lemma unat_ucast_half: "unat x < 2 ^ 16 \<Longrightarrow> unat (ucast (x :: u32) :: u16) = unat x"
  by (simp add: unsigned_ucast_eq take_bit_nat_eq_self)

lemma with_sign_half_less: "q < 2 ^ 15 \<Longrightarrow> with_sign binary16 neg q < 2 ^ 16"
  by (simp add: with_sign_def ff_width_def binary16_def)

lemma f16_assemble:
  assumes "0 \<le> e" "e \<le> 31" "unat low < 2 ^ 10"
  shows "unat (ucast (dr_sign_bit 0 neg OR push_bit 10 (word_of_int e) OR low) :: u16) =
    with_sign binary16 neg (nat e * 2 ^ 10 + unat low)"
proof -
  have "unat (dr_sign_bit 0 neg OR push_bit 10 (word_of_int e) OR low) = with_sign binary16 neg (nat e * 2 ^ 10 + unat low)"
    using dr_assemble [of 0 e low neg] assms by (simp add: f16_as_dr dr_exp_field_def)
  moreover have "nat e * 2 ^ 10 + unat low < 2 ^ 15" using assms by (simp add: nat_le_iff)
  ultimately show ?thesis using with_sign_half_less by (subst unat_ucast_half) simp_all
qed

lemma f16_overflow_value: "unat (f16_overflow rnd neg (dr_sign_bit 0 neg)) = with_sign binary16 neg (overflow_pat binary16 rnd neg)"
proof -
  have "f16_overflow rnd neg (dr_sign_bit 0 neg) = ucast (dr_overflow 0 rnd False neg)"
    by (simp add: f16_overflow_def dr_overflow_def f16_as_dr dr_exp_field_def push_bit_eq_mult dr_sign_bit_def)
  moreover have "unat (dr_overflow 0 rnd False neg) = with_sign binary16 neg (overflow_pat binary16 rnd neg)"
    using dr_overflow_value [of 0 rnd neg] by (simp add: f16_as_dr)
  moreover have "overflow_pat binary16 rnd neg < 2 ^ 15" by (simp add: overflow_pat_def inf_pat_def binary16_def)
  ultimately show ?thesis using with_sign_half_less by (simp add: unat_ucast_half)
qed

lemma f16_round_up_eq:
  assumes "unat half = 2 ^ s"
  shows "f16_round_up rnd neg rem half (m AND 1 \<noteq> 0) = round_up rnd neg (unat m) (unat rem) (2 ^ Suc s)"
proof -
  have "rem > half \<longleftrightarrow> 2 * unat rem > 2 ^ Suc s" "rem = half \<longleftrightarrow> 2 * unat rem = 2 ^ Suc s"
    using assms by (simp_all add: word_less_nat_alt word_unat_eq_iff)
  then show ?thesis
    by (cases rnd) (simp_all add: f16_round_up_def round_up_def word_low_bit unat_eq_0)
qed

lemma f16_normal_rounds:
  assumes "2 ^ 23 \<le> unat M" "unat M < 2 ^ 24" "1 \<le> ef" "ef < 31"
  shows "unat (f16_normal rnd neg (dr_sign_bit 0 neg) M ef) =
    with_sign binary16 neg (round_mag binary16 rnd neg (unat M) (ef - 1 - 13))"
proof -
  define m where "m = drop_bit 13 M"
  define rem where "rem = M AND (push_bit 13 1 - 1)"
  have m: "unat m = unat M div 2 ^ 13" and rem: "unat rem = unat M mod 2 ^ 13"
    by (simp_all only: m_def rem_def unat_drop unat_low_mask)
  define up where "up = f16_round_up rnd neg rem (push_bit 12 1) (m AND 1 \<noteq> 0)"
  have up: "up = round_up rnd neg (unat M div 2 ^ 13) (unat M mod 2 ^ 13) (2 ^ 13)"
    using f16_round_up_eq [of "push_bit 12 1" 12 rnd neg rem m] by (simp only: up_def m rem) simp
  have p: "unat M < 2 ^ Suc 23" "ff_frac binary16 + 13 = 23" "ff_frac binary16 = 10" using assms(2) by (simp_all add: binary16_def)
  note R = round_mag_normal [OF assms(1) p(1,2) assms(3), unfolded p(3)]
  define m' where "m' = (if up then m + 1 else m)"
  have mb: "2 ^ 10 \<le> unat m" "unat m < 2 ^ 11" using R(2,3) by (simp_all add: m)
  have m': "unat m' = rounded_quotient rnd neg (unat M) 13"
    using mb unat_add_one [of m] by (simp add: m'_def rounded_quotient_def m up)
  have le: "2 ^ 10 \<le> unat m'" "unat m' \<le> 2 ^ 11" using R(2,3) by (auto simp: m' rounded_quotient_def)
  have unf: "f16_normal rnd neg (dr_sign_bit 0 neg) M ef =
      (if up \<and> m' = 0x800 then
         if ef + 1 \<ge> 31 then f16_overflow rnd neg (dr_sign_bit 0 neg)
         else ucast (dr_sign_bit 0 neg OR push_bit 10 (word_of_int (ef + 1)))
       else ucast (dr_sign_bit 0 neg OR push_bit 10 (word_of_int ef) OR (m' AND 0x3ff)))"
    by (simp add: f16_normal_def Let_def m'_def up_def m_def rem_def)
  have inf: "inf_pat binary16 = 31 * 2 ^ 10" by (simp add: inf_pat_def binary16_def)
  have R1: "round_mag binary16 rnd neg (unat M) (ef - 14) =
      (let q = unat m' + nat (ef - 1) * 2 ^ 10 in if q \<ge> 31 * 2 ^ 10 then overflow_pat binary16 rnd neg else q)"
    using R(1) [of rnd neg] by (simp add: m' inf)
  have ef: "nat ef = nat (ef - 1) + 1" using assms(3) by simp
  show ?thesis
  proof (cases "up \<and> m' = 0x800")
    case True
    have carry: "2048 + nat (ef - 1) * 1024 = 1024 + nat ef * 1024" by (simp add: ef)
    show ?thesis
      using True f16_overflow_value [of rnd neg] f16_assemble [of "ef + 1" 0 neg] assms(3,4)
      by (auto simp: unf R1 Let_def nat_add_distrib carry)
  next
    case False
    have "unat m' \<noteq> 2 ^ 11"
    proof
      assume "unat m' = 2 ^ 11"
      then have "m' = 0x800" "up" using mb by (auto simp: word_unat_eq_iff m'_def split: if_splits)
      then show False using False by simp
    qed
    then have lt: "unat m' < 2 ^ 11" using le by simp
    have low: "unat (m' AND 0x3ff) = unat m' - 2 ^ 10"
      using unat_low_mask [of m' 10] lt le(1) by (simp add: mod_if)
    have "unat (ucast (dr_sign_bit 0 neg OR push_bit 10 (word_of_int ef) OR (m' AND 0x3ff)) :: u16) =
        with_sign binary16 neg (nat ef * 2 ^ 10 + (unat m' - 2 ^ 10))"
      using f16_assemble [of ef "m' AND 0x3ff" neg] assms(3,4) lt by (simp add: low)
    moreover have "nat ef * 2 ^ 10 + (unat m' - 2 ^ 10) = unat m' + nat (ef - 1) * 2 ^ 10" using le(1) by (simp add: ef)
    moreover have "unat m' + nat (ef - 1) * 2 ^ 10 < 31 * 2 ^ 10" using lt assms(3,4) by simp
    ultimately show ?thesis using False R1 by (auto simp: unf Let_def)
  qed
qed

text \<open>Far below the smallest subnormal only the direction counts, not the distance.\<close>

lemma rounded_quotient_far:
  assumes "M < 2 ^ p" "p < s" "p < s'"
  shows "rounded_quotient rnd neg M s = rounded_quotient rnd neg M s'"
proof -
  have "rounded_quotient rnd neg M s = (if round_up rnd neg 0 M (2 ^ s) then 1 else 0) \<and> 2 * M < 2 ^ s" if "p < s" for s
  proof -
    have "2 * M < 2 ^ Suc p" using assms(1) by simp
    also have "(2 :: nat) ^ Suc p \<le> 2 ^ s" using that by (intro power_increasing) simp_all
    finally have "2 * M < 2 ^ s" .
    then show ?thesis by (simp add: rounded_quotient_def)
  qed
  from this [OF assms(2)] this [OF assms(3)] show ?thesis by (cases rnd) (simp_all add: round_up_def)
qed

lemma f16_subnormal_rounds:
  assumes "0 < unat M" "unat M < 2 ^ 24" "0 \<le> E" "E \<le> 112"
  shows "unat (f16_subnormal rnd neg (dr_sign_bit 0 neg) M E) =
    with_sign binary16 neg (round_mag binary16 rnd neg (unat M) (E - 126))"
proof -
  define s where "s = nat (126 - E)"
  have s: "126 - E = int s" "s \<ge> 14" "E - 126 = - int s" using assms(3,4) by (simp_all add: s_def)
  define m where "m = (if int s \<ge> 24 then 0 else drop_bit s M)"
  define rem where "rem = (if int s \<ge> 24 then M else M AND (push_bit s 1 - 1))"
  have big: "unat M < 2 ^ s" if "s \<ge> 24" using assms(2) power_increasing [of 24 s "2 :: nat"] that by simp
  have m: "unat m = unat M div 2 ^ s" using big by (simp add: m_def unat_drop)
  have rem: "unat rem = unat M mod 2 ^ s" using big by (auto simp only: rem_def unat_low_mask mod_less split: if_splits)
  define up where "up = (if rnd = kRn then
      (if int s \<le> 25 then f16_round_up rnd neg rem (push_bit (nat (int s - 1)) 1) (m AND 1 \<noteq> 0) else False)
    else f16_round_up rnd neg rem 0 (m AND 1 \<noteq> 0))"
  have up: "up = round_up rnd neg (unat m) (unat rem) (2 ^ s)"
  proof (cases "rnd = kRn")
    case True
    show ?thesis
    proof (cases "s \<le> 25")
      case le: True
      then have "(2 :: nat) ^ (s - 1) < 2 ^ 32" using s(2) by (intro power_strict_increasing) simp_all
      then have "unat (push_bit (s - 1) 1 :: u32) = 2 ^ (s - 1)"
        unfolding unsigned_push_bit_eq by (simp add: push_bit_eq_mult take_bit_eq_mod)
      from f16_round_up_eq [OF this, of rnd neg rem m] le s(2) True show ?thesis
        by (simp add: up_def nat_diff_distrib)
    next
      case False
      then have "(2 :: nat) ^ 26 \<le> 2 ^ s" by (intro power_increasing) simp_all
      then have "2 * unat rem < 2 ^ s" using False assms(2) by (simp add: rem_def)
      then show ?thesis using False True by (simp add: up_def round_up_def)
    qed
  qed (cases rnd, simp_all add: up_def f16_round_up_def round_up_def unat_eq_0)
  have "unat M < 2 ^ (ff_frac binary16 + s)"
    using assms(2) power_increasing [of 24 "10 + s" "2 :: nat"] s(2) by (simp add: binary16_def)
  moreover have "2 ^ ff_frac binary16 < inf_pat binary16" by (simp add: inf_pat_def binary16_def)
  ultimately have R: "round_mag binary16 rnd neg (unat M) (- int s) = rounded_quotient rnd neg (unat M) s"
    "unat M div 2 ^ s < 2 ^ 10" "rounded_quotient rnd neg (unat M) s \<le> 2 ^ 10"
    using round_mag_subnormal [OF assms(1), of binary16 s] by (simp_all add: binary16_def)
  define m' where "m' = (if up then m + 1 else m)"
  have m': "unat m' = rounded_quotient rnd neg (unat M) s"
    using R(2) unat_add_one [of m] m by (simp add: m'_def rounded_quotient_def up rem)
  have unf: "f16_subnormal rnd neg (dr_sign_bit 0 neg) M E =
      (if m' = 1024 then ucast (dr_sign_bit 0 neg OR 0x400) else ucast (dr_sign_bit 0 neg OR m'))"
    by (simp only: f16_subnormal_def s(1) Let_def m'_def up_def m_def rem_def nat_int)
  show ?thesis
  proof (cases "m' = 1024")
    case True
    then show ?thesis using f16_assemble [of 1 0 neg] R(1) m' by (simp add: unf s(3))
  next
    case False
    then have "unat m' < 2 ^ 10" using R(3) m' by (auto simp: word_unat_eq_iff order.strict_iff_order)
    then show ?thesis using False f16_assemble [of 0 m' neg] R(1) m' by (simp add: unf s(3))
  qed
qed

subsection \<open>The cast to FP16\<close>

lemma f32_to_f16_paths:
  fixes bits :: u32
  assumes "fp_finite binary32 (unat bits)"
  defines "neg \<equiv> fp_neg binary32 (unat bits)" and "mag \<equiv> fp_mag binary32 (unat bits)"
  obtains M where "unat M = (if mag div 2 ^ 23 \<noteq> 0 then 2 ^ 23 + mag mod 2 ^ 23 else mag mod 2 ^ 23)"
    and "f32_to_f16 bits rnd False =
      (let E = int (mag div 2 ^ 23) in
       if unat M = 0 then ucast (dr_sign_bit 0 neg)
       else if E - 112 \<ge> 31 then f16_overflow rnd neg (dr_sign_bit 0 neg)
       else if E - 112 \<ge> 1 then f16_normal rnd neg (dr_sign_bit 0 neg) M (E - 112)
       else f16_subnormal rnd neg (dr_sign_bit 0 neg) M E)"
proof -
  define e where "e = mag div 2 ^ 23"
  define fr where "fr = mag mod 2 ^ 23"
  define fw where "fw = bits AND 0x7fffff"
  have F: "unat (drop_bit 23 bits AND 0xff) = e" "unat fw = fr"
    using fp32_fields(1,2) [of bits] by (simp_all only: mag_def e_def fr_def fw_def)
  have e: "e < 255" using assms(1) by (simp only: fp32_classes e_def mag_def)
  define M where "M = (if e \<noteq> 0 then 0x800000 OR fw else fw)"
  have "unat (0x800000 :: u32) = 1 * 2 ^ 23" by simp
  from unat_or_field [OF this, of fw]
  have M: "unat M = (if e \<noteq> 0 then 2 ^ 23 + fr else fr)" using F(2) by (simp add: M_def fr_def)
  have sg: "drop_bit 16 (bits AND 0x80000000) = dr_sign_bit 0 neg"
    by (simp add: fp32_sign_mask dr_sign_bit_def neg_def)
  have sg0: "dr_sign_bit 0 neg \<noteq> 0 \<longleftrightarrow> neg" by (simp add: dr_sign_bit_def)
  have w: "uint (drop_bit 23 bits AND 0xff) = int e" "drop_bit 23 bits AND 0xff \<noteq> 0xff"
    "drop_bit 23 bits AND 0xff = 0 \<longleftrightarrow> e = 0" "fw = 0 \<longleftrightarrow> fr = 0"
    using F e by (auto simp: uint_nat word_unat_eq_iff)
  have z: "unat M = 0 \<longleftrightarrow> e = 0 \<and> fr = 0" by (simp add: M)
  show thesis
  proof (rule that [of M])
    show "unat M = (if mag div 2 ^ 23 \<noteq> 0 then 2 ^ 23 + mag mod 2 ^ 23 else mag mod 2 ^ 23)"
      using M by (simp only: e_def fr_def)
    show "f32_to_f16 bits rnd False =
      (let E = int (mag div 2 ^ 23) in
       if unat M = 0 then ucast (dr_sign_bit 0 neg)
       else if E - 112 \<ge> 31 then f16_overflow rnd neg (dr_sign_bit 0 neg)
       else if E - 112 \<ge> 1 then f16_normal rnd neg (dr_sign_bit 0 neg) M (E - 112)
       else f16_subnormal rnd neg (dr_sign_bit 0 neg) M E)"
      unfolding f32_to_f16_def Let_def if_False sg sg0 fw_def [symmetric] w(1,3,4) z e_def [symmetric]
      using w(2) by (simp add: M_def)
  qed
qed

lemma f32_to_f16_finite:
  assumes "fp_finite binary32 (unat bits)"
  shows "unat (f32_to_f16 bits rnd False) = fp_convert binary32 binary16 rnd (unat bits)"
proof -
  let ?neg = "fp_neg binary32 (unat bits)" and ?f = binary16
  define mag where "mag = fp_mag binary32 (unat bits)"
  define e where "e = mag div 2 ^ 23"
  have fr: "mag mod 2 ^ 23 < 2 ^ 23" by (rule mod_less_divisor) simp
  obtain M where M: "unat M = (if e \<noteq> 0 then 2 ^ 23 + mag mod 2 ^ 23 else mag mod 2 ^ 23)"
    and unf: "f32_to_f16 bits rnd False =
      (let E = int e in
       if unat M = 0 then ucast (dr_sign_bit 0 ?neg)
       else if E - 112 \<ge> 31 then f16_overflow rnd ?neg (dr_sign_bit 0 ?neg)
       else if E - 112 \<ge> 1 then f16_normal rnd ?neg (dr_sign_bit 0 ?neg) M (E - 112)
       else f16_subnormal rnd ?neg (dr_sign_bit 0 ?neg) M E)"
    using f32_to_f16_paths [OF assms, of rnd] unfolding e_def mag_def by blast
  have "(if b then 2 ^ 23 + x else x) < 2 ^ 24" if "x < 2 ^ 23" for b and x :: nat using that by simp
  then have M24: "unat M < 2 ^ 24" using fr by (simp only: M)
  have M23: "e \<noteq> 0 \<Longrightarrow> 2 ^ 23 \<le> unat M" by (simp add: M)
  have units: "mag_units binary32 mag = unat M * 2 ^ (e - 1)"
    unfolding M fp32_units e_def by simp
  have u: "ff_unit binary32 - ff_unit ?f = - 125" by (simp add: ff_unit_def ff_bias_def binary32_def binary16_def)
  have conv: "fp_convert binary32 ?f rnd (unat bits) = with_sign ?f ?neg (round_mag ?f rnd ?neg (mag_units binary32 mag) (- 125))"
    using assms by (subst fp_convert_finite) (simp_all add: fp_finite_def fp_inf_def mag_def u)
  have scale: "round_mag ?f rnd ?neg (mag_units binary32 mag) (- 125) = round_mag ?f rnd ?neg (unat M) (int e - 126)" if "e \<noteq> 0"
    unfolding units using that by (subst round_mag_scale) (simp_all add: binary16_def of_nat_diff)
  consider "unat M = 0" | "e \<ge> 143" | "e < 143" "e \<ge> 113" | "0 < e" "e < 113" | "e = 0" "0 < unat M" by linarith
  then show ?thesis
  proof cases
    case 1
    then show ?thesis using f16_assemble [of 0 0 ?neg] by (simp add: unf conv units round_mag_def)
  next
    case 2
    have p: "unat M < 2 ^ Suc 23" "ff_frac ?f + 13 = 23" "1 \<le> int e - 112" using M24 2 by (simp_all add: binary16_def)
    have f10: "ff_frac ?f = 10" "inf_pat ?f = 31 * 2 ^ 10" by (simp_all add: binary16_def inf_pat_def)
    have M23: "2 ^ 23 \<le> unat M" using M23 2 by simp
    note R = round_mag_normal [OF M23 p, unfolded f10]
    have "30 \<le> nat (int e - 112 - 1)" using 2 by simp
    moreover have "2 ^ 10 \<le> rounded_quotient rnd ?neg (unat M) 13" using R(2) by (simp add: rounded_quotient_def)
    moreover have "31 * 2 ^ 10 \<le> a + n * 2 ^ 10" if "30 \<le> n" "2 ^ 10 \<le> a" for a n :: nat using that by simp
    ultimately have "31 * 2 ^ 10 \<le> rounded_quotient rnd ?neg (unat M) 13 + nat (int e - 112 - 1) * 2 ^ 10" by blast
    then have "round_mag ?f rnd ?neg (unat M) (int e - 126) = overflow_pat ?f rnd ?neg"
      using R(1) [of rnd ?neg] by (simp add: Let_def)
    then show ?thesis using 2 M23 f16_overflow_value [of rnd ?neg] by (auto simp: unf conv scale)
  next
    case 3
    then have M23: "2 ^ 23 \<le> unat M" using M23 by simp
    from 3 f16_normal_rounds [OF this M24, of "int e - 112" rnd ?neg] show ?thesis using M23 by (auto simp: unf conv scale)
  next
    case 4
    then have "0 < unat M" by (simp add: M)
    from 4 f16_subnormal_rounds [OF this M24, of "int e" rnd ?neg] this show ?thesis by (simp add: unf conv scale)
  next
    case 5
    have "unat M < 2 ^ (ff_frac ?f + 126)" "unat M < 2 ^ (ff_frac ?f + 125)" "2 ^ ff_frac ?f < inf_pat ?f"
      using M24 by (simp_all add: binary16_def inf_pat_def)
    then have "round_mag ?f rnd ?neg (unat M) (- 126) = round_mag ?f rnd ?neg (unat M) (- 125)"
      using round_mag_subnormal(1) [OF 5(2), of ?f 126 rnd ?neg] round_mag_subnormal(1) [OF 5(2), of ?f 125 rnd ?neg]
        rounded_quotient_far [of "unat M" 24 126 125 rnd ?neg] M24 by simp
    then show ?thesis using 5 f16_subnormal_rounds [OF 5(2) M24, of 0 rnd ?neg] by (simp add: unf conv units)
  qed
qed

subsection \<open>Widening a half\<close>

lemma half_top_bit:
  assumes "unat (m :: u32) < 2 ^ 11"
  shows "m AND 0x400 = 0 \<longleftrightarrow> unat m < 2 ^ 10"
proof -
  have b: "m AND 2 ^ 10 = 0 \<longleftrightarrow> \<not> bit m 10" by (rule and_exp_eq_0_iff_not_bit)
  have q: "unat m div 2 ^ 10 < 2" using assms by (simp add: div_less_iff_less_mult)
  have o: "odd n \<longleftrightarrow> n > 0" if "n < 2" for n :: nat using that by (auto simp: less_2_cases_iff)
  have "bit m 10 \<longleftrightarrow> odd (unat m div 2 ^ 10)"
    using bit_iff_odd [of "unat m" 10] by (simp add: bit_unsigned_iff)
  then have "bit m 10 \<longleftrightarrow> \<not> unat m < 2 ^ 10" unfolding o [OF q] by (simp add: div_greater_zero_iff not_less)
  then show ?thesis using b by simp
qed

text \<open>The normalising loop ends, with the significand shifted into place.\<close>

lemma half_shift_loop:
  assumes "0 < unat m" "unat m < 2 ^ 11"
  shows "\<exists>j M. while_option (\<lambda>(m, e). m AND 0x400 = 0) half_shift (m, e) = Some (M, e - int j) \<and>
    unat M = unat m * 2 ^ j \<and> 2 ^ 10 \<le> unat M \<and> unat M < 2 ^ 11"
  using assms
proof (induction "2 ^ 11 - unat m" arbitrary: m e rule: less_induct)
  case less
  note unfold = while_option_unfold [of "\<lambda>(m, e). m AND 0x400 = 0" half_shift "(m, e)"]
  show ?case
  proof (cases "unat m < 2 ^ 10")
    case False
    with less.prems show ?thesis
      by (intro exI [of _ 0] exI [of _ m]) (simp add: unfold half_top_bit)
  next
    case True
    let ?m = "push_bit 1 m"
    have d: "unat ?m = 2 * unat m"
      using True unfolding unsigned_push_bit_eq by (simp add: push_bit_eq_mult take_bit_eq_mod)
    then have S: "2 ^ 11 - unat ?m < 2 ^ 11 - unat m" "0 < unat ?m" "unat ?m < 2 ^ 11"
      using True less.prems by simp_all
    obtain j M where "while_option (\<lambda>(m, e). m AND 0x400 = 0) half_shift (?m, e - 1) = Some (M, e - 1 - int j)"
      "unat M = unat ?m * 2 ^ j" "2 ^ 10 \<le> unat M" "unat M < 2 ^ 11"
      using less.hyps [OF S, of "e - 1"] by blast
    moreover have "while_option (\<lambda>(m, e). m AND 0x400 = 0) half_shift (m, e) =
        while_option (\<lambda>(m, e). m AND 0x400 = 0) half_shift (?m, e - 1)"
      using True less.prems(2) by (subst unfold) (simp add: half_top_bit half_shift_def)
    ultimately show ?thesis using d by (intro exI [of _ "Suc j"] exI [of _ M]) simp
  qed
qed

lemma half_fields:
  fixes h :: u16
  defines "mag \<equiv> fp_mag binary16 (unat h)"
  shows "push_bit 16 (ucast h AND 0x8000 :: u32) = dr_sign_bit 1 (fp_neg binary16 (unat h))"
    "unat (drop_bit 10 (ucast h) AND 0x1f :: u32) = mag div 2 ^ 10" "unat (ucast h AND 0x3ff :: u32) = mag mod 2 ^ 10"
    "mag div 2 ^ 10 < 32"
proof -
  have h16: "unat h < 2 ^ 16" using unsigned_less [of h, where 'a = nat] by simp
  then have u: "unat (ucast h :: u32) = unat h" by (simp add: unsigned_ucast_eq take_bit_nat_eq_self)
  have m: "mag = unat h mod 2 ^ 15" by (simp add: mag_def fp_mag_def ff_width_def binary16_def)
  have d: "mag div 2 ^ 10 = unat h div 2 ^ 10 mod 2 ^ 5"
    unfolding m using mod_mult2_eq [of "unat h" "2 ^ 10" "2 ^ 5"] by simp
  have "unat (drop_bit 10 (ucast h :: u32) AND (push_bit 5 1 - 1)) = mag div 2 ^ 10"
    unfolding unat_low_mask unat_drop d u ..
  then show "unat (drop_bit 10 (ucast h) AND 0x1f :: u32) = mag div 2 ^ 10" by simp
  have "unat (ucast h AND (push_bit 10 1 - 1) :: u32) = unat h mod 2 ^ 10" by (simp only: unat_low_mask u)
  also have "\<dots> = mag mod 2 ^ 10" unfolding m by (simp add: mod_mod_cancel)
  finally show "unat (ucast h AND 0x3ff :: u32) = mag mod 2 ^ 10" by simp
  show "mag div 2 ^ 10 < 32" using d by simp
  have "unat h div 2 ^ 15 < 2" using h16 by (simp add: div_less_iff_less_mult)
  moreover have "odd n \<longleftrightarrow> n > 0" if "n < 2" for n :: nat using that by (auto simp: less_2_cases_iff)
  ultimately have "bit (ucast h :: u32) 15 \<longleftrightarrow> unat h div 2 ^ 15 > 0"
    using bit_iff_odd [of "unat (ucast h :: u32)" 15] u by (simp add: bit_unsigned_iff)
  then have neg: "fp_neg binary16 (unat h) \<longleftrightarrow> bit (ucast h :: u32) 15"
    by (simp add: fp_neg_def ff_width_def binary16_def div_greater_zero_iff)
  have "(ucast h :: u32) AND push_bit 15 1 = (if bit (ucast h :: u32) 15 then push_bit 15 1 else 0)" by (rule and_single_bit) simp
  then show "push_bit 16 (ucast h AND 0x8000 :: u32) = dr_sign_bit 1 (fp_neg binary16 (unat h))"
    by (simp add: neg dr_sign_bit_def)
qed

lemma f32_as_dr: "dr_fmt 1 = binary32" "dr_frac_bits 1 = 23" "dr_max_exp 1 = 255"
  by (simp_all add: dr_fmt_def dr_frac_bits_def dr_max_exp_def push_bit_eq_mult)

lemma f32_assemble:
  assumes "0 \<le> e" "e \<le> 255" "unat m < 2 ^ 10"
  shows "unat (dr_sign_bit 1 neg OR push_bit 23 (word_of_int e) OR push_bit 13 m) =
    with_sign binary32 neg (nat e * 2 ^ 23 + unat m * 2 ^ 13)"
proof -
  have "unat (push_bit 13 m) = unat m * 2 ^ 13"
    using assms(3) unfolding unsigned_push_bit_eq by (simp add: push_bit_eq_mult take_bit_eq_mod)
  then show ?thesis using dr_assemble [of 1 e "push_bit 13 m" neg] assms by (simp add: f32_as_dr dr_exp_field_def)
qed

lemma with_sign_fields:
  assumes "q < 2 ^ ff_width f"
  shows "fp_neg f (with_sign f neg q) = neg" "fp_mag f (with_sign f neg q) = q"
  using assms by (simp_all add: with_sign_def fp_neg_def fp_mag_def)

lemma f16_to_f32_pattern:
  assumes "fp_finite binary16 (unat h)"
  obtains q where "unat (f16_to_f32 h) = with_sign binary32 (fp_neg binary16 (unat h)) q"
    and "q < inf_pat binary32" "mag_units binary32 q = mag_units binary16 (fp_mag binary16 (unat h)) * 2 ^ 125"
proof -
  let ?neg = "fp_neg binary16 (unat h)"
  define mag where "mag = fp_mag binary16 (unat h)"
  define e where "e = mag div 2 ^ 10"
  define fr where "fr = mag mod 2 ^ 10"
  define fw :: u32 where "fw = ucast h AND 0x3ff"
  define ew :: u32 where "ew = drop_bit 10 (ucast h) AND 0x1f"
  have H: "push_bit 16 (ucast h AND 0x8000 :: u32) = dr_sign_bit 1 ?neg" "unat ew = e" "unat fw = fr"
    using half_fields(1-3) [of h] by (simp_all only: mag_def e_def fr_def ew_def fw_def)
  have e: "e < 31" using assms by (simp add: fp_finite_def inf_pat_def binary16_def e_def mag_def div_less_iff_less_mult)
  have fr: "fr < 2 ^ 10" by (simp add: fr_def)
  have w: "ew \<noteq> 0x1f" "ew = 0 \<longleftrightarrow> e = 0" "fw = 0 \<longleftrightarrow> fr = 0" using H(2,3) e by (auto simp: word_unat_eq_iff)
  have units: "mag_units binary16 mag = (if e = 0 then fr else (2 ^ 10 + fr) * 2 ^ (e - 1))"
  proof -
    have "e = 0 \<longleftrightarrow> mag < 2 ^ 10" by (simp add: e_def div_eq_0_iff)
    then show ?thesis by (simp add: mag_units_def binary16_def e_def fr_def)
  qed
  have conv: "unat (f16_to_f32 h) =
      unat (if e = 0 then
         if fr = 0 then dr_sign_bit 1 ?neg
         else (case while (\<lambda>(m, e). m AND 0x400 = 0) half_shift (fw, -14) of
                 (m, e) \<Rightarrow> dr_sign_bit 1 ?neg OR push_bit 23 (word_of_int (e + 127)) OR push_bit 13 (m AND 0x3ff))
       else dr_sign_bit 1 ?neg OR push_bit 23 (ew + 112) OR push_bit 13 fw)"
    unfolding f16_to_f32_def Let_def H(1) fw_def [symmetric] ew_def [symmetric] using w by simp
  have val: "q < inf_pat binary32 \<and> mag_units binary32 q = (2 ^ 10 + m) * 2 ^ (x + 12)"
    if "q = x * 2 ^ 23 + m * 2 ^ 13" "m < 2 ^ 10" "0 < x" "x < 255" for q x m
  proof -
    have m: "m * 2 ^ 13 < 2 ^ 23" using that(2) by simp
    then have "q div 2 ^ 23 = x" "q mod 2 ^ 23 = m * 2 ^ 13" using that(1) by (simp_all add: div_mult_self3 mod_mult_self3)
    then have "mag_units binary32 q = (2 ^ 23 + m * 2 ^ 13) * 2 ^ (x - 1)" using that(3) by (simp only: fp32_units) simp
    also have "\<dots> = (2 ^ 10 + m) * (2 ^ 13 * 2 ^ (x - 1))" by (simp add: algebra_simps)
    also have "2 ^ 13 * 2 ^ (x - 1) = (2 :: nat) ^ (x + 12)"
    proof -
      have "13 + (x - 1) = x + 12" using that(3) by simp
      then show ?thesis by (simp only: power_add [symmetric])
    qed
    finally have "mag_units binary32 q = (2 ^ 10 + m) * 2 ^ (x + 12)" .
    moreover have "q < inf_pat binary32" using m that(1,4) by (simp add: inf_pat_def binary32_def)
    ultimately show ?thesis by simp
  qed
  consider "e = 0" "fr = 0" | "e = 0" "fr > 0" | "e > 0" by linarith
  then show thesis
  proof cases
    case 1
    then show ?thesis using f32_assemble [of 0 0 ?neg]
      by (intro that [of 0]) (simp_all add: conv units mag_def [symmetric] inf_pat_def binary32_def)
  next
    case 2
    obtain j M where L: "while_option (\<lambda>(m, e). m AND 0x400 = 0) half_shift (fw, -14) = Some (M, -14 - int j)"
      "unat M = fr * 2 ^ j" "2 ^ 10 \<le> unat M" "unat M < 2 ^ 11"
      using half_shift_loop [of fw "-14"] H(3) fr 2 by auto
    have j: "j \<le> 10"
    proof (rule ccontr)
      assume "\<not> j \<le> 10"
      then have "(2 :: nat) ^ 11 \<le> 2 ^ j" by (intro power_increasing) simp_all
      then have "2 ^ 11 \<le> fr * 2 ^ j" using 2 by (metis One_nat_def Suc_leI le_trans mult_le_mono1 nat_mult_1)
      then show False using L by simp
    qed
    have low: "unat (M AND 0x3ff) = unat M - 2 ^ 10" using unat_low_mask [of M 10] L(3,4) by (simp add: mod_if)
    have "unat (f16_to_f32 h) = with_sign binary32 ?neg ((113 - j) * 2 ^ 23 + (unat M - 2 ^ 10) * 2 ^ 13)"
      using 2 f32_assemble [of "113 - int j" "M AND 0x3ff" ?neg] j L(1,4) low
      by (simp add: conv while_def nat_diff_distrib)
    moreover have "(2 ^ 10 + (unat M - 2 ^ 10)) * 2 ^ (113 - j + 12) = fr * 2 ^ 125"
    proof -
      have "j + (113 - j + 12) = 125" using j by simp
      then have "(2 :: nat) ^ j * 2 ^ (113 - j + 12) = 2 ^ 125" by (simp only: power_add [symmetric])
      then show ?thesis using L(2,3) by (simp add: mult.assoc)
    qed
    ultimately show ?thesis
      using val [of "(113 - j) * 2 ^ 23 + (unat M - 2 ^ 10) * 2 ^ 13" "113 - j" "unat M - 2 ^ 10"] j L(4) 2
      by (intro that) (auto simp: units mag_def [symmetric])
  next
    case 3
    have ew: "ew + 112 = word_of_int (int e + 112)" by (simp flip: H(2))
    have "unat (f16_to_f32 h) = with_sign binary32 ?neg ((e + 112) * 2 ^ 23 + fr * 2 ^ 13)"
      using 3 f32_assemble [of "int e + 112" fw ?neg] e H(3) fr by (simp add: conv ew nat_add_distrib)
    moreover have "(2 ^ 10 + fr) * 2 ^ (e + 112 + 12) = (2 ^ 10 + fr) * 2 ^ (e - 1) * (2 :: nat) ^ 125"
    proof -
      have "e - 1 + 125 = e + 112 + 12" using 3 by simp
      then have "(2 :: nat) ^ (e - 1) * 2 ^ 125 = 2 ^ (e + 112 + 12)" by (simp only: power_add [symmetric])
      then show ?thesis by (simp only: mult.assoc)
    qed
    ultimately show ?thesis
      using val [of "(e + 112) * 2 ^ 23 + fr * 2 ^ 13" "e + 112" fr] e fr 3
      by (intro that) (auto simp: units mag_def [symmetric])
  qed
qed

end
