(* ===== verification/Fp_Values.thy ===== *)
theory Fp_Values
  imports Fp_Half_Facts
begin

text \<open>
  The real number a finite pattern stands for; roundings, comparisons and conversions in terms of it.
\<close>

subsection \<open>Values\<close>

definition fp_real :: "FloatFmt \<Rightarrow> nat \<Rightarrow> real" where
  "fp_real f p = real_of_int (fp_units f p) * 2 powi ff_unit f"

text \<open>\<open>r\<close> is the pattern the nonzero real \<open>V\<close> rounds to.\<close>

definition is_rounding :: "FloatFmt \<Rightarrow> Rnd \<Rightarrow> real \<Rightarrow> nat \<Rightarrow> bool" where
  "is_rounding f rnd V r \<longleftrightarrow>
     (\<exists>q. r = with_sign f (V < 0) q \<and> rounds_to f rnd (V < 0) (\<bar>V\<bar> / 2 powi ff_unit f) q)"

lemma is_rounding_unique: "is_rounding f rnd V r \<Longrightarrow> is_rounding f rnd V r' \<Longrightarrow> r = r'"
  by (auto simp: is_rounding_def dest: rounds_to_unique)

definition usable :: "FloatFmt \<Rightarrow> bool" where
  "usable f \<longleftrightarrow> ff_frac f > 0 \<and> ff_exp f > 0"

lemma usable_formats [simp]: "usable binary16" "usable bfloat16" "usable binary32" "usable binary64" "usable (dr_fmt fmt)"
  by (simp_all add: usable_def format_defs dr_fmt_def)

lemma fp_round_value:
  assumes "usable f" "v \<noteq> 0" "V = real_of_int v * 2 powi e"
  shows "is_rounding f rnd V (fp_round f rnd zneg v e)"
proof -
  have M: "nat \<bar>v\<bar> > 0" using assms(2) by simp
  have sg: "V < 0 \<longleftrightarrow> v < 0" 
  proof -
    have "(0 :: real) < 2 powi e" by simp
    moreover have "\<not> 2 powi e < (0 :: real)" using \<open>0 < 2 powi e\<close> by linarith
    ultimately show ?thesis unfolding assms(3) by (auto simp only: mult_less_0_iff of_int_less_0_iff of_int_0_less_iff)
  qed
  have "\<bar>V\<bar> / 2 powi ff_unit f = real (nat \<bar>v\<bar>) * 2 powi (e - ff_unit f)"
    unfolding assms(3) by (simp add: abs_mult power_int_diff)
  with round_mag_correct [OF M, of f rnd "v < 0" "e - ff_unit f"] assms(1,2) show ?thesis
    by (auto simp: is_rounding_def sg fp_round_def Let_def usable_def)
qed

lemma is_rounding_bound:
  assumes "is_rounding f rnd V r" "ff_exp f > 0"
  shows "r < 2 ^ Suc (ff_width f)" "\<not> fp_nan f r"
proof -
  obtain q where q: "r = with_sign f (V < 0) q" "q \<le> inf_pat f"
    using assms(1) by (auto simp: is_rounding_def rounds_to_def)
  have "inf_pat f < 2 ^ ff_width f" by (simp add: inf_pat_def ff_width_def power_add mult.commute)
  then have "q < 2 ^ ff_width f" using q(2) by simp
  then show "r < 2 ^ Suc (ff_width f)" "\<not> fp_nan f r"
    using q with_sign_fields(2) [of q f "V < 0"] by (auto simp: with_sign_def fp_nan_def)
qed

lemma fp_units_zero: "fp_units f p = 0 \<longleftrightarrow> fp_mag f p = 0"
  by (simp add: fp_units_def)

lemma fp_real_zero: "fp_real f p = 0 \<longleftrightarrow> fp_mag f p = 0"
  by (simp add: fp_real_def fp_units_zero)

lemma fp_convert_value:
  assumes "usable g" "fp_finite f p" "fp_mag f p \<noteq> 0"
  shows "is_rounding g rnd (fp_real f p) (fp_convert f g rnd p)"
proof -
  have "fp_convert f g rnd p = fp_round g rnd (fp_neg f p) (fp_units f p) (ff_unit f)"
    using assms(2) by (simp add: fp_convert_def fp_finite_def fp_inf_def)
  then show ?thesis using fp_round_value [OF assms(1), of "fp_units f p"] assms(3)
    by (simp add: fp_units_zero fp_real_def)
qed

lemma fp_convert_zero:
  assumes "fp_mag f p = 0" "ff_exp f > 0"
  shows "fp_convert f g rnd p = with_sign g (fp_neg f p) 0"
proof -
  have "inf_pat f > 0" using assms(2) one_less_power [of "2 :: nat" "ff_exp f"] by (simp add: inf_pat_def)
  then show ?thesis using assms(1) by (simp add: fp_convert_def fp_inf_def fp_round_def fp_units_def round_mag_def Let_def)
qed

subsection \<open>Comparison\<close>

lemma fp_key_units: "fp_units f p < fp_units f q \<longleftrightarrow> fp_key f p < fp_key f q"
proof -
  have p: "0 < mag_units f n \<longleftrightarrow> 0 < n" for n by simp
  have "- int (mag_units f m) < int (mag_units f n) \<longleftrightarrow> - int m < int n" for m n
    using p [of m] p [of n] by linarith
  moreover have "int (mag_units f m) < - int (mag_units f n) \<longleftrightarrow> int m < - int n" for m n by simp
  ultimately show ?thesis by (auto simp: fp_units_def fp_key_def)
qed

lemma fp_key_real: "fp_real f p < fp_real f q \<longleftrightarrow> fp_key f p < fp_key f q"
  by (simp add: fp_real_def fp_key_units)

lemma fp_key_real_eq: "fp_real f p = fp_real f q \<longleftrightarrow> fp_key f p = fp_key f q"
  by (metis fp_key_real linorder_less_linear order_less_irrefl)

lemma fp_key_real_le: "fp_real f p \<le> fp_real f q \<longleftrightarrow> fp_key f p \<le> fp_key f q"
  by (meson fp_key_real not_less)


subsection \<open>Exact conversions\<close>

lemma powi_add_nat: "(2 :: real) powi (int n + z) = 2 ^ n * 2 powi z"
  by (simp add: power_int_add)

text \<open>A significand that fits the format and an exponent above its unit: nothing is rounded away.\<close>

lemma representable:
  assumes "M < 2 ^ (ff_frac f + 1)" "k + 2 < 2 ^ ff_exp f"
  obtains q where "q < inf_pat f" "mag_units f q = M * 2 ^ k"
proof -
  let ?F = "2 ^ ff_frac f :: nat"
  have pos: "ff_exp f > 0" using assms(2) by (cases "ff_exp f") simp_all
  define L where "L = bit_length M"
  consider "M = 0" | "M > 0" "M * 2 ^ k < ?F" | "M > 0" "?F \<le> M * 2 ^ k" by linarith
  then show thesis
  proof cases
    case 1
    have "0 < inf_pat f" using pos one_less_power [of "2 :: nat" "ff_exp f"] by (simp add: inf_pat_def)
    then show ?thesis using 1 by (intro that [of 0]) simp_all
  next
    case 2
    have "?F * 1 \<le> inf_pat f" unfolding inf_pat_def mult.commute [of _ ?F]
      using pos one_less_power [of "2 :: nat" "ff_exp f"] by (intro mult_le_mono) simp_all
    then show ?thesis using 2 by (intro that [of "M * 2 ^ k"]) (simp_all add: mag_units_def)
  next
    case 3
    have L: "2 ^ (L - 1) \<le> M" "M < 2 ^ L" "L > 0" using bit_length_bounds [OF 3(1)] by (auto simp: L_def)
    have Lf: "L \<le> ff_frac f + 1" unfolding L_def by (rule bit_length_le [OF 3(1) assms(1)])
    have "?F < 2 ^ (L + k)"
    proof -
      have "M * 2 ^ k < 2 ^ L * 2 ^ k" using L(2) by (rule mult_strict_right_mono) simp
      then show ?thesis unfolding power_add using 3(2) by (rule order.strict_trans1 [rotated])
    qed
    then have Lk: "ff_frac f < L + k" by (rule power_less_imp_less_exp [rotated]) simp
    define d where "d = L - 1 + k - ff_frac f"
    define s where "s = ff_frac f + 1 - L"
    have sd: "k = s + d" using Lk Lf L(3) by (simp add: s_def d_def)
    have m: "?F \<le> M * 2 ^ s" "M * 2 ^ s < 2 * ?F"
    proof -
      have "2 ^ (L - 1) * 2 ^ s = ?F" using Lf L(3) by (simp add: s_def flip: power_add)
      then show "?F \<le> M * 2 ^ s" using L(1) by (metis mult_le_mono1)
      have "2 ^ L * 2 ^ s = 2 * ?F" using Lf by (simp add: s_def flip: power_add power_Suc)
      then show "M * 2 ^ s < 2 * ?F" using L(2) by (metis mult_less_cancel2 zero_less_numeral zero_less_power)
    qed
    have "mag_units f (M * 2 ^ s + d * ?F) = M * 2 ^ s * 2 ^ d" using m by (intro mag_units_quotient) auto
    then have v: "mag_units f (M * 2 ^ s + d * ?F) = M * 2 ^ k" by (simp add: sd power_add mult.assoc)
    have "d + 2 \<le> 2 ^ ff_exp f - 1" using assms(2) Lf Lk by (simp add: d_def)
    then have "(d + 2) * ?F \<le> inf_pat f" unfolding inf_pat_def by (rule mult_le_mono1)
    then have "M * 2 ^ s + d * ?F < inf_pat f" using m(2) by (simp add: algebra_simps)
    then show ?thesis using v by (rule that)
  qed
qed

lemma round_mag_representable:
  assumes "usable f" "q < inf_pat f" "mag_units f q = M * 2 ^ k"
  shows "round_mag f rnd neg M (int k) = q"
proof -
  have "round_mag f rnd neg (M * 2 ^ k) 0 = round_mag f rnd neg M (0 + int k)"
    using assms(1) by (intro round_mag_scale) (simp_all add: usable_def)
  then show ?thesis using round_mag_exact [of f q rnd neg] assms by (simp add: usable_def)
qed

lemma with_sign_value:
  assumes "q < inf_pat f"
  shows "fp_neg f (with_sign f neg q) = neg" "fp_mag f (with_sign f neg q) = q" "fp_finite f (with_sign f neg q)"
    "fp_real f (with_sign f neg q) = (if neg then - 1 else 1) * (real (mag_units f q) * 2 powi ff_unit f)"
proof -
  have "inf_pat f \<le> 2 ^ ff_width f" by (simp add: inf_pat_def ff_width_def power_add mult.commute)
  then have "q < 2 ^ ff_width f" using assms by simp
  note W = with_sign_fields [OF this, of neg]
  then show "fp_neg f (with_sign f neg q) = neg" "fp_mag f (with_sign f neg q) = q" by simp_all
  show "fp_finite f (with_sign f neg q)" using W assms by (simp add: fp_finite_def)
  show "fp_real f (with_sign f neg q) = (if neg then - 1 else 1) * (real (mag_units f q) * 2 powi ff_unit f)"
    unfolding fp_real_def fp_units_def W by simp
qed

lemma fp_round_exact:
  assumes "usable f" "nat \<bar>v\<bar> < 2 ^ (ff_frac f + 1)" "e = ff_unit f + int k" "k + 2 < 2 ^ ff_exp f"
  shows "fp_finite f (fp_round f rnd zneg v e)" "fp_real f (fp_round f rnd zneg v e) = real_of_int v * 2 powi e"
    "v \<noteq> 0 \<Longrightarrow> fp_neg f (fp_round f rnd zneg v e) = (v < 0)"
proof -
  obtain q where q: "q < inf_pat f" "mag_units f q = nat \<bar>v\<bar> * 2 ^ k"
    using representable [OF assms(2)] assms(4) by auto
  define neg where "neg = (if v = 0 then zneg else v < 0)"
  have R: "fp_round f rnd zneg v e = with_sign f neg q"
    using round_mag_representable [OF assms(1) q] assms(3) by (simp add: fp_round_def neg_def)
  note V = with_sign_value [OF q(1), of neg]
  show "fp_finite f (fp_round f rnd zneg v e)" unfolding R by (rule V(3))
  show "v \<noteq> 0 \<Longrightarrow> fp_neg f (fp_round f rnd zneg v e) = (v < 0)" unfolding R V(1) by (simp add: neg_def)
  have "(2 :: real) powi e = 2 ^ k * 2 powi ff_unit f" unfolding assms(3) add.commute [of "ff_unit f"] by (rule powi_add_nat)
  then show "fp_real f (fp_round f rnd zneg v e) = real_of_int v * 2 powi e"
    unfolding R V(4) q(2) by (auto simp: neg_def)
qed

lemma float_to_double:
  assumes "fp_finite binary32 p"
  shows "fp_finite binary64 (fp_convert binary32 binary64 rnd p)"
    "fp_real binary64 (fp_convert binary32 binary64 rnd p) = fp_real binary32 p"
    "fp_neg binary64 (fp_convert binary32 binary64 rnd p) = fp_neg binary32 p"
proof -
  define mag where "mag = fp_mag binary32 p"
  define e where "e = mag div 2 ^ 23"
  define M where "M = (if e = 0 then mag mod 2 ^ 23 else 2 ^ 23 + mag mod 2 ^ 23)"
  have e: "e < 255" using assms by (simp add: fp32_classes e_def mag_def)
  have units: "mag_units binary32 mag = M * 2 ^ (e - 1)" by (simp add: fp32_units M_def e_def)
  have "mag mod 2 ^ 23 < 2 ^ 23" by simp
  then have M: "M < 2 ^ (ff_frac binary64 + 1)" by (auto simp: M_def binary64_def)
  have "925 + (e - 1) + 2 < 2 ^ ff_exp binary64" using e by (simp add: binary64_def)
  from representable [OF M this] obtain q where q: "q < inf_pat binary64" "mag_units binary64 q = M * 2 ^ (925 + (e - 1))" .
  have u: "ff_unit binary32 - ff_unit binary64 = int 925" by (simp add: ff_unit_def ff_bias_def format_defs)
  have "mag_units binary64 q = M * 2 ^ (e - 1) * 2 ^ 925" unfolding q(2) by (simp only: power_add mult_ac)
  with q(1) have "round_mag binary64 rnd neg (M * 2 ^ (e - 1)) (int 925) = q" for neg
    by (intro round_mag_representable) simp_all
  then have C: "fp_convert binary32 binary64 rnd p = with_sign binary64 (fp_neg binary32 p) q"
  proof -
    have "\<not> fp_inf binary32 p" using assms by (simp add: fp_finite_def fp_inf_def)
    from fp_convert_finite [OF this, of binary64 rnd] show ?thesis unfolding u units [unfolded mag_def]
      by (simp only: \<open>\<And>neg. round_mag binary64 rnd neg (M * 2 ^ (e - 1)) (int 925) = q\<close>)
  qed
  note V = with_sign_value [OF q(1), of "fp_neg binary32 p"]
  show "fp_finite binary64 (fp_convert binary32 binary64 rnd p)" "fp_neg binary64 (fp_convert binary32 binary64 rnd p) = fp_neg binary32 p"
    unfolding C by (rule V(3), rule V(1))
  have "ff_unit binary32 = int 925 + ff_unit binary64" using u by simp
  then have "(2 :: real) powi ff_unit binary32 = 2 ^ 925 * 2 powi ff_unit binary64" by (simp only: powi_add_nat)
  then show "fp_real binary64 (fp_convert binary32 binary64 rnd p) = fp_real binary32 p"
    unfolding C V(4) q(2) by (simp add: fp_real_def fp_units_def units power_add flip: mag_def)
qed

end
