(* ===== verification/Fp_Int_Facts.thy ===== *)
theory Fp_Int_Facts
  imports Fp_Values Fp_Vector
begin

text \<open>
  Conversions between the formats and the integers: the integer a finite pattern rounds to is that
  of the real number it stands for, so \<open>f2i\<close> saturates the rounded value, \<open>i2f\<close> rounds once and
  \<open>frnd_value\<close> delivers the rounded integer exactly.
\<close>

subsection \<open>Rounding a real number to an integer\<close>

definition real_to_int :: "Rnd \<Rightarrow> real \<Rightarrow> int" where
  "real_to_int rnd V =
     (case rnd of
        kRm \<Rightarrow> \<lfloor>V\<rfloor>
      | kRp \<Rightarrow> \<lceil>V\<rceil>
      | kRz \<Rightarrow> if V < 0 then \<lceil>V\<rceil> else \<lfloor>V\<rfloor>
      | kRn \<Rightarrow>
          let n = \<lfloor>V\<rfloor>; r = V - real_of_int n
          in if r < 1 / 2 \<or> (r = 1 / 2 \<and> even n) then n else n + 1)"

lemma real_to_int_of_int [simp]: "real_to_int rnd (real_of_int n) = n"
  by (cases rnd) (simp_all add: real_to_int_def Let_def)

lemma real_to_int_near: "\<lfloor>V\<rfloor> \<le> real_to_int rnd V" "real_to_int rnd V \<le> \<lceil>V\<rceil>"
proof -
  have c: "\<lfloor>V\<rfloor> \<le> \<lceil>V\<rceil>" by (rule floor_le_ceiling)
  have "\<lceil>V\<rceil> = \<lfloor>V\<rfloor> + 1" if "V \<noteq> real_of_int \<lfloor>V\<rfloor>"
    using that by (simp add: ceiling_altdef)
  moreover have "V - real_of_int \<lfloor>V\<rfloor> = 0" if "V = real_of_int \<lfloor>V\<rfloor>" using that by simp
  ultimately show "\<lfloor>V\<rfloor> \<le> real_to_int rnd V" "real_to_int rnd V \<le> \<lceil>V\<rceil>"
    using c by (cases rnd; cases "V = real_of_int \<lfloor>V\<rfloor>"; simp add: real_to_int_def Let_def)+
qed

lemma real_to_int_mono:
  assumes "V \<le> W"
  shows "real_to_int rnd V \<le> real_to_int rnd W"
proof (cases "\<lfloor>V\<rfloor> = \<lfloor>W\<rfloor>")
  case True
  have cl: "\<lceil>V\<rceil> \<le> \<lceil>W\<rceil>" using assms by (rule ceiling_mono)
  have "V - real_of_int \<lfloor>W\<rfloor> \<le> W - real_of_int \<lfloor>W\<rfloor>" using assms by simp
  moreover have "\<lceil>V\<rceil> \<le> \<lfloor>W\<rfloor>" if "V < 0" "0 \<le> W"
  proof -
    have "\<lceil>V\<rceil> \<le> 0" "0 \<le> \<lfloor>W\<rfloor>" using that by (simp_all add: ceiling_le_iff)
    then show ?thesis by (rule order_trans)
  qed
  ultimately show ?thesis using True cl assms by (cases rnd) (auto simp: real_to_int_def Let_def)
next
  case False
  then have "\<lfloor>V\<rfloor> < \<lfloor>W\<rfloor>" using floor_mono [OF assms] by simp
  then have "\<lceil>V\<rceil> \<le> \<lfloor>W\<rfloor>" by (metis ceiling_le_iff floor_less_iff le_floor_iff less_le_not_le linorder_not_less order_less_imp_le less_floor_iff ceiling_mono ceiling_of_int)
  then show ?thesis using real_to_int_near(2) [of rnd V] real_to_int_near(1) [of W rnd] by linarith
qed

lemma real_to_int_clamp:
  assumes "lo \<le> hi"
  shows "real_to_int rnd (max (real_of_int lo) (min V (real_of_int hi))) = max lo (min (real_to_int rnd V) hi)"
proof -
  consider "V < real_of_int lo" | "real_of_int lo \<le> V" "V \<le> real_of_int hi" | "real_of_int hi < V" by linarith
  then show ?thesis
  proof cases
    case 1
    then have "real_to_int rnd V \<le> lo" using real_to_int_mono [of V "real_of_int lo" rnd] by simp
    then show ?thesis using 1 assms by (simp add: max_def min_def)
  next
    case 2
    then have "lo \<le> real_to_int rnd V" "real_to_int rnd V \<le> hi"
      using real_to_int_mono [of "real_of_int lo" V rnd] real_to_int_mono [of V "real_of_int hi" rnd] by simp_all
    then show ?thesis using 2 by (simp add: max_def min_def)
  next
    case 3
    then have "hi \<le> real_to_int rnd V" using real_to_int_mono [of "real_of_int hi" V rnd] by simp
    then show ?thesis using 3 assms by (auto simp: max_def min_def)
  qed
qed

lemma rounded_magnitude:
  fixes m rem den :: nat and neg :: bool and rnd :: Rnd
  assumes "rem < den"
  defines "X \<equiv> real m + real rem / real den" and "N \<equiv> int (if round_up rnd neg m rem den then m + 1 else m)"
  shows "(if neg then - N else N) = real_to_int rnd (if neg then - X else X)"
proof -
  define r where "r = real rem / real den"
  have d: "real den > 0" using assms(1) by simp
  have r: "0 \<le> r" "r < 1" "r = 0 \<longleftrightarrow> rem = 0" using assms(1) by (simp_all add: r_def)
  have h: "1 < 2 * r \<longleftrightarrow> den < 2 * rem" "2 * r = 1 \<longleftrightarrow> 2 * rem = den"
  proof -
    have "1 < 2 * r \<longleftrightarrow> real den < real (2 * rem)" using d by (simp add: r_def field_simps)
    then show "1 < 2 * r \<longleftrightarrow> den < 2 * rem" by linarith
    have "2 * r = 1 \<longleftrightarrow> real (2 * rem) = real den" using d by (auto simp: r_def field_simps)
    then show "2 * r = 1 \<longleftrightarrow> 2 * rem = den" by linarith
  qed
  have X: "X = real m + r" by (simp add: X_def r_def)
  have fl: "\<lfloor>X\<rfloor> = int m" unfolding X by (rule floor_unique) (use r(1,2) in simp_all)
  have cl: "\<lceil>X\<rceil> = (if rem = 0 then int m else int m + 1)" using r unfolding X by (auto simp: ceiling_eq_iff)
  have nfl: "\<lfloor>- X\<rfloor> = (if rem = 0 then - int m else - int m - 1)" unfolding floor_minus cl by simp
  have fr: "X - real_of_int \<lfloor>X\<rfloor> = r" unfolding fl by (simp add: X)
  have nfr: "- X - real_of_int \<lfloor>- X\<rfloor> = (if rem = 0 then 0 else 1 - r)" unfolding nfl using r(3) by (simp add: X)
  have X0: "X < 0 \<longleftrightarrow> False" "- X < 0 \<longleftrightarrow> \<not> (m = 0 \<and> rem = 0)" using r unfolding X by auto
  have half: "r < 1 / 2 \<longleftrightarrow> \<not> den \<le> 2 * rem" "r = 1 / 2 \<longleftrightarrow> 2 * rem = den"
    "1 - r < 1 / 2 \<longleftrightarrow> den < 2 * rem" "1 - r = 1 / 2 \<longleftrightarrow> 2 * rem = den"
    using h by linarith+
  have par: "even (int m)  \<longleftrightarrow> even m" "even (- int m - 1) \<longleftrightarrow> odd m" by simp_all
  show ?thesis
  proof (cases rnd)
    case kRn
    have "N = real_to_int rnd X"
      unfolding kRn real_to_int_def Rnd.case Let_def fr unfolding fl half par N_def round_up_def kRn Rnd.case by auto
    moreover have "- N = real_to_int rnd (- X)"
      unfolding kRn real_to_int_def Rnd.case Let_def nfr unfolding nfl N_def round_up_def kRn Rnd.case using assms(1) half
      by (auto simp: par)
    ultimately show ?thesis by simp
  next
    case kRm
    then show ?thesis by (auto simp: N_def real_to_int_def round_up_def fl nfl)
  next
    case kRp
    then show ?thesis by (auto simp: N_def real_to_int_def round_up_def cl ceiling_minus fl)
  next
    case kRz
    have "\<lceil>- X\<rceil> = - int m" unfolding ceiling_minus fl ..
    then show ?thesis using X0 kRz nfl by (auto simp: N_def real_to_int_def round_up_def fl)
  qed
qed

lemma fp_to_int_real: "fp_to_int f rnd p = real_to_int rnd (fp_real f p)"
proof -
  obtain m rem den where Q: "shift_quotient (mag_units f (fp_mag f p)) (ff_unit f) = (m, rem, den)" by (metis prod_cases3)
  note E = shift_quotient_exact [OF Q]
  have "fp_real f p = (if fp_neg f p then - (real m + real rem / real den) else real m + real rem / real den)"
    by (simp add: fp_real_def fp_units_def E(1) [symmetric])
  then show ?thesis using rounded_magnitude [OF E(2), where m = m and neg = "fp_neg f p" and rnd = rnd] Q
    by (simp add: fp_to_int_def Let_def)
qed


subsection \<open>To integers\<close>

lemma clamp64_real:
  assumes "fp_real binary64 lo \<le> fp_real binary64 hi"
  shows "fp_real binary64 (clamp64 d lo hi) =
    max (fp_real binary64 lo) (min (fp_real binary64 d) (fp_real binary64 hi))"
  using assms unfolding clamp64_def fp_key_real [symmetric] by (auto simp: max_def min_def)

lemma f2i_bounds:
  "fp_real binary64 0xC1E0000000000000 = - 2147483648" "fp_real binary64 0x41DFFFFFFFC00000 = 2147483647"
  "fp_real binary64 0 = 0" "fp_real binary64 0x41EFFFFFFFE00000 = 4294967295"
  by (simp_all add: fp_real_def fp_units_def fp_neg_def fp_mag_def mag_units_def ff_width_def ff_unit_def ff_bias_def
      binary64_def power_int_def power_divide)

lemma f2i_double:
  assumes "fp_finite binary32 (unat src)" "lo \<le> hi"
    "fp_real binary64 l = real_of_int lo" "fp_real binary64 h = real_of_int hi"
  shows "fp_to_int binary64 rnd (clamp64 (fp_convert binary32 binary64 rnd (unat src)) l h) =
    max lo (min (real_to_int rnd (fp_real binary32 (unat src))) hi)"
  using assms float_to_double(2) [OF assms(1), of rnd]
  by (simp add: fp_to_int_real clamp64_real real_to_int_clamp)

lemma finite_not_special: "fp_finite f p \<Longrightarrow> \<not> fp_nan f p \<and> \<not> fp_inf f p"
  by (simp add: fp_finite_def fp_nan_def fp_inf_def)

lemma ucast_there_and_back [simp]: "ucast (ucast (x :: u32) :: u64) = x"
  by (rule bit_word_eqI) (simp add: bit_ucast_iff)

lemma f2i_s32:
  assumes "fp_finite binary32 (unat src)"
  shows "sint (ucast (f2i src kFmtS32 rnd False) :: u32) =
    max (- (2 ^ 31)) (min (real_to_int rnd (fp_real binary32 (unat src))) (2 ^ 31 - 1))"
proof -
  define iv where "iv = max (- (2 ^ 31)) (min (real_to_int rnd (fp_real binary32 (unat src))) (2 ^ 31 - 1))"
  have iv: "- (2 ^ 31) \<le> iv" "iv < 2 ^ 31" by (auto simp: iv_def)
  have "fp_to_int binary64 rnd (clamp64 (fp_convert binary32 binary64 rnd (unat src)) 0xC1E0000000000000 0x41DFFFFFFFC00000) = iv"
    unfolding iv_def by (rule f2i_double [OF assms]) (simp_all add: f2i_bounds)
  then have "ucast (f2i src kFmtS32 rnd False) = (word_of_int iv :: u32)"
    using finite_not_special [OF assms] iv by (simp add: f2i_def Let_def fmt_defs)
  then show ?thesis unfolding iv_def [symmetric] using iv by (simp add: int_word_sint)
qed

lemma f2i_u32:
  assumes "fp_finite binary32 (unat src)"
  shows "uint (ucast (f2i src kFmtU32 rnd False) :: u32) =
    max 0 (min (real_to_int rnd (fp_real binary32 (unat src))) (2 ^ 32 - 1))"
proof -
  define iv where "iv = max 0 (min (real_to_int rnd (fp_real binary32 (unat src))) (2 ^ 32 - 1))"
  have iv: "0 \<le> iv" "iv < 2 ^ 32" by (auto simp: iv_def)
  have "fp_to_int binary64 rnd (clamp64 (fp_convert binary32 binary64 rnd (unat src)) 0 0x41EFFFFFFFE00000) = iv"
    unfolding iv_def by (rule f2i_double [OF assms]) (simp_all add: f2i_bounds)
  then have "ucast (f2i src kFmtU32 rnd False) = (word_of_int iv :: u32)"
    using finite_not_special [OF assms] iv by (simp add: f2i_def Let_def fmt_defs)
  then show ?thesis unfolding iv_def [symmetric] using iv by (simp add: uint_word_of_int_eq take_bit_int_eq_self)
qed

subsection \<open>From integers\<close>

lemma int_source_bound: "\<bar>int_source srcfmt src\<bar> < 2 ^ 33"
proof -
  have u: "\<bar>uint (w :: 'a :: len word)\<bar> < 2 ^ 33" if "LENGTH('a) \<le> 32" for w
  proof -
    have "uint w < 2 ^ LENGTH('a)" by (rule unsigned_less)
    also have "\<dots> \<le> 2 ^ 32" using that by (intro power_increasing) simp_all
    finally show ?thesis by simp
  qed
  have s: "\<bar>sint (w :: 'a :: len word)\<bar> < 2 ^ 33" if "LENGTH('a) \<le> 32" for w
  proof -
    have "(2 :: int) ^ (LENGTH('a) - 1) \<le> 2 ^ 32" using that by (intro power_increasing) simp_all
    moreover have "- (2 ^ (LENGTH('a) - 1)) \<le> sint w" "sint w < 2 ^ (LENGTH('a) - 1)"
      by (simp_all add: sint_greater_eq sint_less)
    ultimately show ?thesis by (simp add: abs_less_iff)
  qed
  show ?thesis by (simp only: int_source_def split: if_splits) (intro impI conjI u s; simp)
qed

lemma i2f_f32:
  assumes "int_source srcfmt src \<noteq> 0"
  shows "is_rounding binary32 rnd (real_of_int (int_source srcfmt src)) (unat (ucast (i2f src kFmtF32 srcfmt rnd False) :: u32))"
proof -
  define v where "v = int_source srcfmt src"
  define dv where "dv = fp_of_int binary64 rnd v"
  have "\<bar>v\<bar> < 2 ^ 33" unfolding v_def by (rule int_source_bound)
  then have "nat \<bar>v\<bar> < 2 ^ (ff_frac binary64 + 1)" by (simp add: binary64_def nat_less_iff)
  note X = fp_round_exact [OF _ this, of 0 1074 rnd False]
  have d: "fp_finite binary64 dv" "fp_real binary64 dv = real_of_int v"
    unfolding dv_def fp_of_int_def
    by (rule X; simp add: ff_unit_def ff_bias_def binary64_def usable_def)
       (subst X; simp add: ff_unit_def ff_bias_def binary64_def usable_def)
  then have "fp_mag binary64 dv \<noteq> 0" using assms fp_real_zero [of binary64 dv] by (simp add: v_def)
  from fp_convert_value [OF _ d(1) this, of binary32 rnd]
  have R: "is_rounding binary32 rnd (real_of_int v) (fp_convert binary64 binary32 rnd dv)" by (simp add: d(2))
  have "fp_convert binary64 binary32 rnd dv < 2 ^ 32"
    using is_rounding_bound(1) [OF R] by (simp add: ff_width_def binary32_def)
  then have "unat (ucast (i2f src kFmtF32 srcfmt rnd False) :: u32) = fp_convert binary64 binary32 rnd dv"
    by (simp add: i2f_def Let_def fmt_defs flip: v_def dv_def) (simp add: unsigned_of_nat take_bit_nat_eq_self)
  then show ?thesis using R by (simp add: v_def)
qed

end
