(* ===== verification/Fp_Safety.thy ===== *)
theory Fp_Safety
  imports Fp_Int_Facts
begin

text \<open>
  The floating-point properties of the leaf operations: arithmetic and narrowing round the exact
  real result once, the FP32 results are canonical, comparisons are those of the real numbers, halves
  survive the way through FP32, and conversions to integers saturate.
\<close>

subsection \<open>Arithmetic\<close>

text \<open>The pattern a real number becomes, also when it is zero: then the sign is given.\<close>

definition rounded_to :: "FloatFmt \<Rightarrow> Rnd \<Rightarrow> bool \<Rightarrow> real \<Rightarrow> nat \<Rightarrow> bool" where
  "rounded_to f rnd zneg V r \<longleftrightarrow> (if V = 0 then r = with_sign f zneg 0 else is_rounding f rnd V r)"

lemma fp_round_rounded:
  assumes "usable f" "V = real_of_int v * 2 powi e"
  shows "rounded_to f rnd zneg V (fp_round f rnd zneg v e)"
proof (cases "v = 0")
  case True
  then show ?thesis using assms(2) by (simp add: rounded_to_def fp_round_def round_mag_def)
next
  case False
  then have "V \<noteq> 0" using assms(2) by simp
  then show ?thesis using fp_round_value [OF assms(1) False assms(2)] by (simp add: rounded_to_def)
qed

lemma rounded_to_bound:
  assumes "rounded_to f rnd zneg V r" "usable f"
  shows "r < 2 ^ Suc (ff_width f)" "\<not> fp_nan f r"
proof -
  have e: "ff_exp f > 0" using assms(2) by (simp add: usable_def)
  have "r < 2 ^ Suc (ff_width f) \<and> \<not> fp_nan f r"
  proof (cases "V = 0")
    case True
    then show ?thesis using assms(1) with_sign_fields(2) [of 0 f zneg]
      by (simp add: rounded_to_def fp_nan_def) (simp add: with_sign_def)
  next
    case False
    then show ?thesis using assms(1) is_rounding_bound [OF _ e] by (simp add: rounded_to_def)
  qed
  then show "r < 2 ^ Suc (ff_width f)" "\<not> fp_nan f r" by simp_all
qed

lemma powi_square: "2 powi u * 2 powi u = (2 :: real) powi (2 * u)"
  by (metis mult_2 power_int_add zero_neq_numeral)

lemma fma_scale:
  fixes A B C N S W :: real
  assumes "N * S = W" "W * W = S"
  shows "(A * W) * (B * W) + C * W = (A * B + C * N) * S"
proof -
  have "(A * W) * (B * W) = A * B * (W * W)" by (simp add: mult_ac)
  moreover have "(A * B + C * N) * S = A * B * S + C * (N * S)" by (simp add: distrib_right mult.assoc)
  ultimately show ?thesis by (simp only: assms)
qed

lemma fp_add_finite:
  assumes "usable f" "fp_finite f a" "fp_finite f b"
  obtains r where "fp_add f rnd a b = Some r"
    "rounded_to f rnd (zero_sum_neg rnd (fp_neg f a) (fp_neg f b)) (fp_real f a + fp_real f b) r"
proof (rule that)
  show "fp_add f rnd a b = Some (fp_round f rnd (zero_sum_neg rnd (fp_neg f a) (fp_neg f b)) (fp_units f a + fp_units f b) (ff_unit f))"
    using assms(2,3) by (simp add: fp_add_def finite_not_special)
qed (rule fp_round_rounded [OF assms(1)], simp add: fp_real_def distrib_right)

lemma fp_mul_finite:
  assumes "usable f" "fp_finite f a" "fp_finite f b"
  obtains r where "fp_mul f rnd a b = Some r"
    "rounded_to f rnd (fp_neg f a \<noteq> fp_neg f b) (fp_real f a * fp_real f b) r"
proof (rule that)
  show "fp_mul f rnd a b = Some (fp_round f rnd (fp_neg f a \<noteq> fp_neg f b) (fp_units f a * fp_units f b) (2 * ff_unit f))"
    using assms(2,3) by (simp add: fp_mul_def finite_not_special Let_def)
qed (rule fp_round_rounded [OF assms(1)], simp add: fp_real_def flip: powi_square)

lemma fp_fma_finite:
  assumes "usable f" "fp_finite f a" "fp_finite f b" "fp_finite f c" "ff_unit f \<le> 0"
  obtains r where "fp_fma f rnd a b c = Some r"
    "rounded_to f rnd (zero_sum_neg rnd (fp_neg f a \<noteq> fp_neg f b) (fp_neg f c)) (fp_real f a * fp_real f b + fp_real f c) r"
proof (rule that)
  let ?s = "fp_neg f a \<noteq> fp_neg f b"
  let ?v = "fp_units f a * fp_units f b + fp_units f c * 2 ^ nat (- ff_unit f)"
  show "fp_fma f rnd a b c = Some (fp_round f rnd (zero_sum_neg rnd ?s (fp_neg f c)) ?v (2 * ff_unit f))"
    using assms(2-4) by (simp add: fp_fma_def finite_not_special Let_def)
  have "(2 :: real) ^ nat (- ff_unit f) = 2 powi (- ff_unit f)" using assms(5) by (simp add: power_int_def)
  then have "real_of_int (2 ^ nat (- ff_unit f)) * 2 powi (2 * ff_unit f) = 2 powi ff_unit f"
    by (simp flip: power_int_add)
  then show "rounded_to f rnd (zero_sum_neg rnd ?s (fp_neg f c)) (fp_real f a * fp_real f b + fp_real f c)
      (fp_round f rnd (zero_sum_neg rnd ?s (fp_neg f c)) ?v (2 * ff_unit f))"
    unfolding fp_real_def using fma_scale [OF _ powi_square]
    by (intro fp_round_rounded [OF assms(1)]) simp
qed

lemma unat_rounded32:
  assumes "rounded_to binary32 rnd z V r"
  shows "unat (word_of_nat r :: u32) = r"
  using rounded_to_bound(1) [OF assms usable_formats(3)] by (simp add: ff_width_def binary32_def unsigned_of_nat take_bit_nat_eq_self)

lemma unat_rounded64:
  assumes "rounded_to binary64 rnd z V r"
  shows "unat (word_of_nat r :: u64) = r"
  using rounded_to_bound(1) [OF assms usable_formats(4)] by (simp add: ff_width_def binary64_def unsigned_of_nat take_bit_nat_eq_self)


subsection \<open>Patterns of results\<close>

lemma fp_round_pattern:
  assumes "usable f"
  shows "fp_round f rnd zneg v e < 2 ^ Suc (ff_width f) \<and> \<not> fp_nan f (fp_round f rnd zneg v e)"
  using rounded_to_bound [OF fp_round_rounded [OF assms refl] assms] by simp

lemma with_sign_inf:
  "with_sign f neg (inf_pat f) < 2 ^ Suc (ff_width f) \<and> \<not> fp_nan f (with_sign f neg (inf_pat f))"
proof -
  have "inf_pat f < 2 ^ ff_width f" by (simp add: inf_pat_def ff_width_def power_add mult.commute)
  then show ?thesis using with_sign_fields(2) [of "inf_pat f" f neg] by (auto simp: with_sign_def fp_nan_def)
qed

lemma fp_add_pattern:
  assumes "fp_add f rnd a b = Some r" "usable f" "a < 2 ^ Suc (ff_width f)" "b < 2 ^ Suc (ff_width f)"
  shows "r < 2 ^ Suc (ff_width f) \<and> \<not> fp_nan f r"
  using assms(1,3,4) fp_round_pattern [OF assms(2)] by (auto simp: fp_add_def split: if_splits)

lemma fp_mul_pattern:
  assumes "fp_mul f rnd a b = Some r" "usable f"
  shows "r < 2 ^ Suc (ff_width f) \<and> \<not> fp_nan f r"
  using assms(1) fp_round_pattern [OF assms(2)] with_sign_inf [of f] by (auto simp: fp_mul_def Let_def split: if_splits)

lemma fp_fma_pattern:
  assumes "fp_fma f rnd a b c = Some r" "usable f" "c < 2 ^ Suc (ff_width f)"
  shows "r < 2 ^ Suc (ff_width f) \<and> \<not> fp_nan f r"
  using assms(1,3) fp_round_pattern [OF assms(2)] with_sign_inf [of f] by (auto simp: fp_fma_def Let_def split: if_splits)

definition canonical_result :: "bool \<Rightarrow> bool \<Rightarrow> u32 \<Rightarrow> bool" where
  "canonical_result flush sat r \<longleftrightarrow>
     (nan32 r \<longrightarrow> r = kCanonicalNan32 \<and> \<not> sat) \<and> (flush \<longrightarrow> \<not> subnormal32 r) \<and>
     (sat \<longrightarrow> 0 \<le> key32 r \<and> key32 r \<le> key32 0x3f800000)"

lemma unat_u32_bound: "unat (w :: u32) < 2 ^ Suc (ff_width binary32)"
  using unsigned_less [of w, where 'a = nat] by (simp add: ff_width_def binary32_def)

lemma fp32_parts: "fp_mag binary32 p = p mod 2 ^ 31" "fp_neg binary32 p \<longleftrightarrow> p \<ge> 2 ^ 31"
  by (simp_all add: fp_mag_def fp_neg_def ff_width_def binary32_def)

lemma flush_when: "(if b \<and> w AND kF32ExpMask = 0 \<and> w AND kF32FracMask \<noteq> 0 then w AND 0x80000000 else w) = (if b then flush_f32 w else w)"
  by (simp add: flush_f32_def)

lemma sign_only: "\<not> subnormal32 (w AND 0x80000000)" "\<not> nan32 (w AND 0x80000000)"
  by (simp_all add: subnormal32_def kF32FracMask_def kF32ExpMask_def fp32_sign_mask fp32_classes fp32_parts)

lemma small_constants: "\<not> subnormal32 0" "\<not> subnormal32 0x3f800000" "\<not> subnormal32 kCanonicalNan32"
  "key32 0 = 0" "0 < key32 0x3f800000" "\<not> nan32 0" "\<not> nan32 0x3f800000"
  by (simp_all add: subnormal32_def kF32FracMask_def kF32ExpMask_def kCanonicalNan32_def fp_key_def fp32_classes fp32_parts)

lemma flush_f32_result: "\<not> subnormal32 (flush_f32 w)" "nan32 (flush_f32 w) \<Longrightarrow> flush_f32 w = w"
  using sign_only [of w] by (auto simp: flush_f32_def subnormal32_def split: if_splits)

lemma sat_f32_result:
  assumes "flush \<longrightarrow> \<not> subnormal32 w"
  shows "canonical_result flush True (sat_f32 w)"
  using assms small_constants by (auto simp: canonical_result_def sat_f32_def)

lemma canonical_no_sat:
  "(nan32 w \<longrightarrow> w = kCanonicalNan32) \<Longrightarrow> (flush \<longrightarrow> \<not> subnormal32 w) \<Longrightarrow> canonical_result flush False w"
  by (simp add: canonical_result_def)

lemma canonical_finish:
  assumes "nan32 w \<longrightarrow> w = kCanonicalNan32" "flush \<longrightarrow> \<not> subnormal32 w"
  shows "canonical_result flush sat (if sat then sat_f32 w else w)"
  using sat_f32_result [OF assms(2)] canonical_no_sat [OF assms] by simp

lemma canonical_nan: "canonical_result flush sat (if sat then 0 else kCanonicalNan32)"
  using small_constants by (simp add: canonical_result_def)

lemma pattern_not_nan32:
  assumes "r < 2 ^ Suc (ff_width binary32) \<and> \<not> fp_nan binary32 r"
  shows "\<not> nan32 (word_of_nat r)"
  using assms by (simp add: ff_width_def binary32_def unsigned_of_nat take_bit_nat_eq_self)

lemma finish32_canonical:
  assumes "\<And>r. res = Some r \<Longrightarrow> r < 2 ^ Suc (ff_width binary32) \<and> \<not> fp_nan binary32 r"
  shows "canonical_result flush sat (finish32 flush sat res)"
proof -
  define out where "out = (case res of None \<Rightarrow> kCanonicalNan32 | Some p \<Rightarrow> word_of_nat p)"
  define w where "w = (if flush then flush_f32 out else out)"
  have out: "nan32 out \<longrightarrow> out = kCanonicalNan32"
    using pattern_not_nan32 [OF assms] by (cases res) (simp_all add: out_def)
  have "nan32 w \<longrightarrow> w = kCanonicalNan32" "flush \<longrightarrow> \<not> subnormal32 w"
    using out flush_f32_result [of out] by (auto simp: w_def)
  from canonical_finish [OF this] show ?thesis unfolding finish32_def Let_def out_def [symmetric] w_def [symmetric] .
qed

lemma fadd_canonical: "canonical_result flush sat (fadd a b rnd flush sat)"
  using fp_add_pattern [OF _ usable_formats(3) unat_u32_bound unat_u32_bound]
  by (auto simp: fadd_def Let_def canonical_nan [of _ True, simplified] canonical_nan [of _ False, simplified] intro!: finish32_canonical)

lemma fmul_canonical: "canonical_result flush sat (fmul a b rnd flush sat)"
  using fp_mul_pattern [OF _ usable_formats(3)]
  by (auto simp: fmul_def Let_def canonical_nan [of _ True, simplified] canonical_nan [of _ False, simplified] intro!: finish32_canonical)

lemma ffma_canonical: "canonical_result (fmz \<noteq> 0) sat (ffma a b c rnd fmz sat)"
proof -
  define a' where "a' = (if fmz = 2 then flush_f32 a else if fmz = 1 \<and> subnormal32 a then 0 else a)"
  define b' where "b' = (if fmz = 2 then flush_f32 b else if fmz = 1 \<and> subnormal32 b then 0 else b)"
  define c' where "c' = (if fmz = 2 \<or> fmz = 1 then flush_f32 c else c)"
  define z where "z = (if rnd = kRm then c' AND 0x80000000 else 0)"
  define res where "res = fp_fma binary32 rnd (unat a') (unat b') (unat c')"
  have "ffma a b c rnd fmz sat =
      (if nan32 a' \<or> nan32 b' \<or> nan32 c' then (if sat then 0 else kCanonicalNan32)
       else if fmz = 1 \<and> (a' AND 0x7fffffff = 0 \<or> b' AND 0x7fffffff = 0) \<and> c' AND 0x7fffffff = 0
       then (if sat then sat_f32 z else z)
       else finish32 (fmz \<noteq> 0) sat res)"
    unfolding ffma_def Let_def a'_def [symmetric] b'_def [symmetric] c'_def [symmetric]
      finish32_def flush_when res_def z_def by (rule refl)
  moreover have "canonical_result (fmz \<noteq> 0) sat (if sat then sat_f32 z else z)"
    using sign_only [of c'] small_constants by (intro canonical_finish) (simp_all add: z_def)
  moreover have "canonical_result (fmz \<noteq> 0) sat (finish32 (fmz \<noteq> 0) sat res)"
    unfolding res_def by (intro finish32_canonical fp_fma_pattern [OF _ usable_formats(3) unat_u32_bound])
  moreover have "canonical_result f s (if A then X else if B then Y else Z)"
    if "canonical_result f s X" "canonical_result f s Y" "canonical_result f s Z" for f s A B X Y Z using that by simp
  ultimately show ?thesis using canonical_nan by (simp only:)
qed


subsection \<open>Properties of the arithmetic\<close>

text \<open>C22: on finite operands, without flushing or saturation, every FP32 and FP64 operation returns the pattern its exact real result rounds to, the fused operations rounding only once; an exact zero has the sign the standard gives it.\<close>

theorem fp_arithmetic_rounds_once:
  assumes "fp_finite binary32 (unat a)" "fp_finite binary32 (unat b)" "fp_finite binary32 (unat c)"
    "fp_finite binary64 (unat x)" "fp_finite binary64 (unat y)" "fp_finite binary64 (unat z)"
  defines "A \<equiv> fp_real binary32 (unat a)" and "B \<equiv> fp_real binary32 (unat b)" and "C \<equiv> fp_real binary32 (unat c)"
    and "X \<equiv> fp_real binary64 (unat x)" and "Y \<equiv> fp_real binary64 (unat y)" and "Z \<equiv> fp_real binary64 (unat z)"
    and "n32 \<equiv> \<lambda>w :: u32. fp_neg binary32 (unat w)" and "n64 \<equiv> \<lambda>w :: u64. fp_neg binary64 (unat w)"
  shows "rounded_to binary32 rnd (zero_sum_neg rnd (n32 a) (n32 b)) (A + B) (unat (fadd a b rnd False False)) \<and>
    rounded_to binary32 rnd (n32 a \<noteq> n32 b) (A * B) (unat (fmul a b rnd False False)) \<and>
    rounded_to binary32 rnd (zero_sum_neg rnd (n32 a \<noteq> n32 b) (n32 c)) (A * B + C) (unat (ffma a b c rnd 0 False)) \<and>
    rounded_to binary64 rnd (zero_sum_neg rnd (n64 x) (n64 y)) (X + Y) (unat (fadd64 x y rnd False)) \<and>
    rounded_to binary64 rnd (n64 x \<noteq> n64 y) (X * Y) (unat (fmul64 x y rnd False)) \<and>
    rounded_to binary64 rnd (zero_sum_neg rnd (n64 x \<noteq> n64 y) (n64 z)) (X * Y + Z) (unat (fma64 x y z rnd False))"
proof -
  note F = assms(1-6) [THEN finite_not_special]
  have u: "ff_unit binary32 \<le> 0" "ff_unit binary64 \<le> 0" by (simp_all add: ff_unit_def ff_bias_def format_defs)
  obtain r1 where 1: "fp_add binary32 rnd (unat a) (unat b) = Some r1"
    "rounded_to binary32 rnd (zero_sum_neg rnd (n32 a) (n32 b)) (A + B) r1"
    using fp_add_finite [OF usable_formats(3) assms(1,2), of rnd] unfolding A_def B_def n32_def by blast
  obtain r2 where 2: "fp_mul binary32 rnd (unat a) (unat b) = Some r2"
    "rounded_to binary32 rnd (n32 a \<noteq> n32 b) (A * B) r2"
    using fp_mul_finite [OF usable_formats(3) assms(1,2), of rnd] unfolding A_def B_def n32_def by blast
  obtain r3 where 3: "fp_fma binary32 rnd (unat a) (unat b) (unat c) = Some r3"
    "rounded_to binary32 rnd (zero_sum_neg rnd (n32 a \<noteq> n32 b) (n32 c)) (A * B + C) r3"
    using fp_fma_finite [OF usable_formats(3) assms(1-3) u(1), of rnd] unfolding A_def B_def C_def n32_def by blast
  obtain r4 where 4: "fp_add binary64 rnd (unat x) (unat y) = Some r4"
    "rounded_to binary64 rnd (zero_sum_neg rnd (n64 x) (n64 y)) (X + Y) r4"
    using fp_add_finite [OF usable_formats(4) assms(4,5), of rnd] unfolding X_def Y_def n64_def by blast
  obtain r5 where 5: "fp_mul binary64 rnd (unat x) (unat y) = Some r5"
    "rounded_to binary64 rnd (n64 x \<noteq> n64 y) (X * Y) r5"
    using fp_mul_finite [OF usable_formats(4) assms(4,5), of rnd] unfolding X_def Y_def n64_def by blast
  obtain r6 where 6: "fp_fma binary64 rnd (unat x) (unat y) (unat z) = Some r6"
    "rounded_to binary64 rnd (zero_sum_neg rnd (n64 x \<noteq> n64 y) (n64 z)) (X * Y + Z) r6"
    using fp_fma_finite [OF usable_formats(4) assms(4-6) u(2), of rnd] unfolding X_def Y_def Z_def n64_def by blast
  show ?thesis
    using 1 2 3 4 5 6 F 1(2) [THEN unat_rounded32] 2(2) [THEN unat_rounded32] 3(2) [THEN unat_rounded32]
      4(2) [THEN unat_rounded64] 5(2) [THEN unat_rounded64] 6(2) [THEN unat_rounded64]
    by (simp add: fadd_def fmul_def ffma_def fadd64_def fmul64_def fma64_def finish32_def finish64_def Let_def)
qed

text \<open>C23: every FP32 result is canonical: a NaN is the canonical NaN, under flushing no result is subnormal, and a saturated result is a number between 0 and 1.\<close>

theorem fp32_results_are_canonical:
  "canonical_result flush sat (fp32_leaf 0 rnd flush sat fmz a b c) \<and>
   canonical_result flush sat (fp32_leaf 1 rnd flush sat fmz a b c) \<and>
   canonical_result (fmz \<noteq> 0) sat (fp32_leaf 2 rnd flush sat fmz a b c)"
  by (simp add: fp32_leaf_def fadd_canonical fmul_canonical ffma_canonical)


subsection \<open>Properties of the conversions\<close>

lemma convert_rounded:
  assumes "usable f" "usable g" "fp_finite f p"
  shows "rounded_to g rnd (fp_neg f p) (fp_real f p) (fp_convert f g rnd p)"
proof (cases "fp_mag f p = 0")
  case True
  then show ?thesis using fp_convert_zero [OF True] fp_real_zero [of f p] assms(1) by (simp add: rounded_to_def usable_def)
next
  case False
  then show ?thesis using fp_convert_value [OF assms(2,3) False] fp_real_zero [of f p] by (simp add: rounded_to_def)
qed

lemma not_nan_cases: "\<not> fp_nan f p \<Longrightarrow> \<not> fp_inf f p \<Longrightarrow> fp_finite f p"
  by (simp add: fp_nan_def fp_inf_def fp_finite_def)

lemma f64_down_round_inf:
  assumes "fmt \<in> {0, 1, 2}" "fp_inf binary64 (unat bits)"
  shows "unat (f64_down_round bits rnd fmt False False) = with_sign (dr_fmt fmt) (fp_neg binary64 (unat bits)) (inf_pat (dr_fmt fmt))"
proof -
  let ?neg = "fp_neg binary64 (unat bits)"
  have m: "fp_mag binary64 (unat bits) = 2047 * 2 ^ 52" using assms(2) by (simp add: fp_inf_def inf_pat_def binary64_def)
  have "uint (drop_bit 52 bits AND 0x7FF) = 2047" "unat (bits AND 0xFFFFFFFFFFFFF) = 0"
    using fp64_fields [of bits] by (simp_all add: m)
  then have "uint (drop_bit 52 bits AND 0x7FF) = 0x7FF" "bits AND 0xFFFFFFFFFFFFF = 0" by (simp_all add: unat_eq_0)
  then have "f64_down_round bits rnd fmt False False = dr_sign_bit fmt ?neg OR dr_exp_field fmt (dr_max_exp fmt) OR 0"
    unfolding f64_down_round_def Let_def fp64_sign by (simp add: dr_special_def)
  moreover have "0 \<le> dr_max_exp fmt" using dr_max_exp_pos [of fmt] by simp
  ultimately show ?thesis using dr_assemble [OF assms(1) _ order_refl, of 0 ?neg] by (simp add: dr_inf_pat)
qed

lemma f32_to_f16_inf:
  assumes "fp_inf binary32 (unat bits)"
  shows "unat (f32_to_f16 bits rnd False) = with_sign binary16 (fp_neg binary32 (unat bits)) (inf_pat binary16)"
proof -
  let ?neg = "fp_neg binary32 (unat bits)"
  have m: "fp_mag binary32 (unat bits) = 255 * 2 ^ 23" using assms by (simp only: fp32_classes)
  have "unat (drop_bit 23 bits AND 0xff) = 255" "unat (bits AND 0x7fffff) = 0" using fp32_fields(1,2) [of bits] by (simp_all add: m)
  then have "drop_bit 23 bits AND 0xff = 0xff" "bits AND 0x7fffff = 0" by (simp_all add: word_unat_eq_iff)
  moreover have "drop_bit 16 (bits AND 0x80000000) = dr_sign_bit 0 ?neg" by (simp add: fp32_sign_mask dr_sign_bit_def)
  ultimately have "f32_to_f16 bits rnd False = ucast (dr_sign_bit 0 ?neg OR 0x7c00)"
    unfolding f32_to_f16_def Let_def by simp
  then show ?thesis using f16_assemble [of 31 0 ?neg] by (simp add: inf_pat_def binary16_def)
qed

text \<open>C21: the hand-written narrowing conversions are correct: in every rounding mode, FP64 to FP32, FP16 and BF16 and FP32 to FP16 deliver the pattern the real value rounds to, subnormal and overflowing results included, and keep the sign of zeros and infinities.\<close>

theorem narrowing_is_correctly_rounded:
  assumes "fmt \<in> {0, 1, 2}" "\<not> nan64 d" "\<not> nan32 s"
  shows "(if fp_inf binary64 (unat d)
     then unat (f64_down_round d rnd fmt False False) = with_sign (dr_fmt fmt) (fp_neg binary64 (unat d)) (inf_pat (dr_fmt fmt))
     else rounded_to (dr_fmt fmt) rnd (fp_neg binary64 (unat d)) (fp_real binary64 (unat d)) (unat (f64_down_round d rnd fmt False False))) \<and>
   (if fp_inf binary32 (unat s)
     then unat (f32_to_f16 s rnd False) = with_sign binary16 (fp_neg binary32 (unat s)) (inf_pat binary16)
     else rounded_to binary16 rnd (fp_neg binary32 (unat s)) (fp_real binary32 (unat s)) (unat (f32_to_f16 s rnd False)))"
proof (intro conjI)
  show "if fp_inf binary64 (unat d)
     then unat (f64_down_round d rnd fmt False False) = with_sign (dr_fmt fmt) (fp_neg binary64 (unat d)) (inf_pat (dr_fmt fmt))
     else rounded_to (dr_fmt fmt) rnd (fp_neg binary64 (unat d)) (fp_real binary64 (unat d)) (unat (f64_down_round d rnd fmt False False))"
    using f64_down_round_inf [OF assms(1), of d rnd] not_nan_cases [OF assms(2)]
      f64_down_round_finite [OF assms(1), of d rnd] convert_rounded [of binary64 "dr_fmt fmt" "unat d" rnd] by simp
  show "if fp_inf binary32 (unat s)
     then unat (f32_to_f16 s rnd False) = with_sign binary16 (fp_neg binary32 (unat s)) (inf_pat binary16)
     else rounded_to binary16 rnd (fp_neg binary32 (unat s)) (fp_real binary32 (unat s)) (unat (f32_to_f16 s rnd False))"
    using f32_to_f16_inf [of s rnd] not_nan_cases [OF assms(3)]
      f32_to_f16_finite [of s rnd] convert_rounded [of binary32 binary16 "unat s" rnd] by simp
qed

lemma half_value: "with_sign binary16 (fp_neg binary16 (unat (h :: u16))) (fp_mag binary16 (unat h)) = unat h"
proof -
  have b: "unat h < 2 ^ 16" using unsigned_less [of h, where 'a = nat] by simp
  have "n mod 2 ^ 15 = n - 2 ^ 15" if "2 ^ 15 \<le> n" "n < 2 ^ 16" for n :: nat
    using that by (simp add: mod_if)
  then show ?thesis using b by (auto simp: with_sign_def fp_neg_def fp_mag_def ff_width_def binary16_def)
qed

lemma half_through_float:
  assumes "fp_finite binary16 (unat h)"
  shows "f32_to_f16 (f16_to_f32 h) rnd False = h" "fp_real binary32 (unat (f16_to_f32 h)) = fp_real binary16 (unat h)"
proof -
  let ?neg = "fp_neg binary16 (unat h)" and ?mag = "fp_mag binary16 (unat h)"
  obtain q where q: "unat (f16_to_f32 h) = with_sign binary32 ?neg q" "q < inf_pat binary32"
    "mag_units binary32 q = mag_units binary16 ?mag * 2 ^ 125"
    using f16_to_f32_pattern [OF assms] .
  note V = with_sign_value [OF q(2), of ?neg]
  have u: "ff_unit binary32 = int 0 + ff_unit binary32" "int 125 + ff_unit binary32 = ff_unit binary16"
    "ff_unit binary32 - ff_unit binary16 = - 125"
    by (simp_all add: ff_unit_def ff_bias_def format_defs)
  have "real (2 ^ 125) * 2 powi ff_unit binary32 = 2 powi ff_unit binary16"
    using powi_add_nat [of 125 "ff_unit binary32"] unfolding u(2) by simp
  then show "fp_real binary32 (unat (f16_to_f32 h)) = fp_real binary16 (unat h)"
    unfolding q(1) V(4) unfolding q(3) by (simp add: fp_real_def fp_units_def mult.assoc)
  have scale: "round_mag binary16 rnd ?neg (mag_units binary16 ?mag * 2 ^ 125) (- 125) = ?mag"
    using round_mag_scale [of binary16 rnd ?neg "mag_units binary16 ?mag" 125 "- 125"] assms
    by (simp add: binary16_def round_mag_exact fp_finite_def)
  have "unat (f32_to_f16 (f16_to_f32 h) rnd False) = with_sign binary16 ?neg ?mag"
    using f32_to_f16_finite [of "f16_to_f32 h" rnd] V(1-3) fp_convert_finite [of binary32 "with_sign binary32 ?neg q" binary16 rnd]
      finite_not_special [OF V(3)] by (simp only: q u(3) scale simp_thms)
  then show "f32_to_f16 (f16_to_f32 h) rnd False = h" unfolding half_value by (simp add: word_unat_eq_iff)
qed

lemma half_infinities:
  "f16_to_f32 0x7c00 = 0x7f800000" "f16_to_f32 0xfc00 = 0xff800000"
  "f32_to_f16 0x7f800000 rnd False = 0x7c00" "f32_to_f16 0xff800000 rnd False = 0xfc00"
  by (simp_all add: f16_to_f32_def f32_to_f16_def)



text \<open>C27: on finite operands the six ordered comparison codes compare the real numbers, and on all operands, NaN included, the code 15 - c is the negation of the code c.\<close>

theorem float_comparisons:
  assumes "fp_finite binary32 (unat a)" "fp_finite binary32 (unat b)" "cmp < 16"
  defines "x \<equiv> fp_real binary32 (unat a)" and "y \<equiv> fp_real binary32 (unat b)"
  shows "(fcmp_value 1 a b \<longleftrightarrow> x < y) \<and> (fcmp_value 2 a b \<longleftrightarrow> x = y) \<and> (fcmp_value 3 a b \<longleftrightarrow> x \<le> y) \<and>
    (fcmp_value 4 a b \<longleftrightarrow> y < x) \<and> (fcmp_value 5 a b \<longleftrightarrow> x \<noteq> y) \<and> (fcmp_value 6 a b \<longleftrightarrow> y \<le> x) \<and>
    (fcmp_value (15 - cmp) c d \<longleftrightarrow> \<not> fcmp_value cmp c d)"
proof -
  have "\<not> nan32 a" "\<not> nan32 b" using assms(1,2) by (simp_all add: finite_not_special)
  then have "(fcmp_value 1 a b \<longleftrightarrow> x < y) \<and> (fcmp_value 2 a b \<longleftrightarrow> x = y) \<and> (fcmp_value 3 a b \<longleftrightarrow> x \<le> y) \<and>
    (fcmp_value 4 a b \<longleftrightarrow> y < x) \<and> (fcmp_value 5 a b \<longleftrightarrow> x \<noteq> y) \<and> (fcmp_value 6 a b \<longleftrightarrow> y \<le> x)"
    by (simp add: fcmp_value_def Let_def x_def y_def fp_key_real fp_key_real_eq fp_key_real_le)
  moreover have "fcmp_value (15 - cmp) c d \<longleftrightarrow> \<not> fcmp_value cmp c d"
  proof -
    have "unat cmp < 16" using assms(3) by (simp add: word_less_nat_alt)
    then have "unat cmp \<in> {0, 1, 2, 3, 4, 5, 6, 7, 8, 9, 10, 11, 12, 13, 14, 15}" by (simp add: less_Suc_eq_0_disj) presburger
    then have "cmp \<in> {0, 1, 2, 3, 4, 5, 6, 7, 8, 9, 10, 11, 12, 13, 14, 15}" by (simp add: word_unat_eq_iff)
    then show ?thesis
      by (elim insertE emptyE; hypsubst; simp add: fcmp_value_def Let_def; linarith?)
  qed
  ultimately show ?thesis by simp
qed

text \<open>C25: converting a finite FP32 value to S32 or U32 rounds the real value to an integer in the given mode and saturates it at the ends of the range.\<close>

theorem f2i_rounds_and_saturates:
  assumes "fp_finite binary32 (unat src)"
  shows "sint (ucast (f2i src kFmtS32 rnd False) :: u32) =
      max (- (2 ^ 31)) (min (real_to_int rnd (fp_real binary32 (unat src))) (2 ^ 31 - 1)) \<and>
    uint (ucast (f2i src kFmtU32 rnd False) :: u32) =
      max 0 (min (real_to_int rnd (fp_real binary32 (unat src))) (2 ^ 32 - 1))"
  using f2i_s32 [OF assms] f2i_u32 [OF assms] by blast


subsection \<open>Invalid FP64 operations\<close>

lemma finish64_pattern:
  assumes "\<not> nan64 n" "\<And>r. res = Some r \<Longrightarrow> r < 2 ^ Suc (ff_width binary64) \<and> \<not> fp_nan binary64 r"
  shows "\<not> nan64 (finish64 sat n res)"
proof -
  define out where "out = (case res of None \<Rightarrow> n | Some p \<Rightarrow> word_of_nat p)"
  have "\<not> nan64 out"
  proof (cases res)
    case (Some p)
    then show ?thesis using assms(2) [OF Some]
      by (simp add: out_def ff_width_def binary64_def unsigned_of_nat take_bit_nat_eq_self)
  qed (simp add: out_def assms(1))
  moreover have "\<not> nan64 0" "\<not> nan64 0x3ff0000000000000"
    by (simp_all add: fp_nan_def fp_mag_def ff_width_def inf_pat_def binary64_def)
  ultimately have "\<not> nan64 (if sat then sat_f64 out else out)" by (simp add: sat_f64_def)
  then show ?thesis unfolding finish64_def Let_def out_def .
qed

lemma unat_u64_bound: "unat (w :: u64) < 2 ^ Suc (ff_width binary64)"
  using unsigned_less [of w, where 'a = nat] by (simp add: ff_width_def binary64_def)



subsection \<open>Witnesses\<close>

lemmas pattern_eval = fp_finite_def fp_inf_def fp_nan_def fp_neg_def fp_mag_def ff_width_def inf_pat_def format_defs

theorem fp_arithmetic_rounds_once_witness:
  "rounded_to binary32 kRn False (fp_real binary32 0x3f800000 + fp_real binary32 0x33800000)
     (unat (fadd 0x3f800000 0x33800000 kRn False False))"
proof -
  have n: "\<not> fp_neg binary32 0x3f800000" "\<not> fp_neg binary32 0x33800000" by (simp_all add: pattern_eval)
  have "fp_finite binary32 (unat (0x3f800000 :: u32))" "fp_finite binary32 (unat (0x33800000 :: u32))"
    "fp_finite binary32 (unat (0 :: u32))" "fp_finite binary64 (unat (0 :: u64))" by (simp_all add: pattern_eval)
  note F = fp_arithmetic_rounds_once [OF this this(4,4), of kRn]
  have "zero_sum_neg kRn False False = False" by (simp add: zero_sum_neg_def)
  with F [THEN conjunct1] n show ?thesis by simp
qed

theorem narrowing_is_correctly_rounded_witness:
  "rounded_to (dr_fmt 1) kRp False (fp_real binary64 0x3FF0000000000001) (unat (f64_down_round 0x3FF0000000000001 kRp 1 False False)) \<and>
   rounded_to binary16 kRp False (fp_real binary32 0x3f800001) (unat (f32_to_f16 0x3f800001 kRp False))"
  using narrowing_is_correctly_rounded [of 1 "0x3FF0000000000001" "0x3f800001" kRp]
  by (simp add: pattern_eval)


theorem float_comparisons_witness:
  "(fcmp_value 1 0xbf800000 0x3f800000 \<longleftrightarrow> fp_real binary32 0xbf800000 < fp_real binary32 0x3f800000) \<and>
   (fcmp_value 9 0x7fffffff 0 \<longleftrightarrow> \<not> fcmp_value 6 0x7fffffff 0) \<and> fcmp_value 9 0x7fffffff 0"
proof -
  have "fp_finite binary32 (unat (0xbf800000 :: u32))" "fp_finite binary32 (unat (0x3f800000 :: u32))" by (simp_all add: pattern_eval)
  from float_comparisons [OF this, of 6 "0x7fffffff" 0] show ?thesis by (simp add: fcmp_value_def pattern_eval)
qed

theorem f2i_rounds_and_saturates_witness:
  "sint (ucast (f2i 0x4f800000 kFmtS32 kRn False) :: u32) = 2147483647 \<and>
   max (- (2 ^ 31)) (min (real_to_int kRn (fp_real binary32 0x4f800000)) (2 ^ 31 - 1)) = 2147483647"
proof -
  have "fp_finite binary32 (unat (0x4f800000 :: u32))" by (simp add: pattern_eval)
  from f2i_rounds_and_saturates [OF this, of kRn]
  have "sint (ucast (f2i 0x4f800000 kFmtS32 kRn False) :: u32) =
      max (- (2 ^ 31)) (min (real_to_int kRn (fp_real binary32 0x4f800000)) (2 ^ 31 - 1))" by simp
  moreover have "fp_real binary32 0x4f800000 = real_of_int 4294967296"
    by (simp add: fp_real_def fp_units_def mag_units_def ff_unit_def ff_bias_def pattern_eval power_int_def power_divide)
  ultimately show ?thesis by (simp del: of_int_numeral)
qed



end
