(* ===== verification/Spec2Isabelle.thy ===== *)
theory Spec2Isabelle
  imports Word128 Device_Memory_Safety Constant_Bank Mbarrier Cluster Race_Safety Memory_Service_Facts Subcore Shared_Bank_Facts
    Warp_Safety Alu_Safety Scheduler_Safety Mem_Safety Global_Model_Facts Launch_Facts Fp_Safety
begin

text \<open>
  A verification development for \<^bold>\<open>semu\<close>, the SASS emulator of this repository
  (\<open>src/semu\<close>, C++). The emulator loads a cubin, decodes its 128-bit instruction words and
  interprets a kernel launch on a simulated sm120 GPU: CTAs of warps of 32 lanes with a reconvergence
  stack and named barriers, over a device memory with allocation, shared and constant spaces, and with
  optional trace-only models (bank conflicts, data races, subcore issue).

  \<^bold>\<open>How the parts interact.\<close> The launch code builds an interpreter instance that owns CTAs
  (\<open>core.cpp\<close>, constructor). The run loop asks the scheduler for the next group, a set of
  lanes of one warp at one program counter, and executes its instruction: control handlers change
  lane activity and program counters, data handlers registers, memory handlers call the memory
  service, which sits on the allocator and the per-CTA shared windows. Named-barrier releases and
  memory accesses are also reported to the race detector, whose order is kept by vector clocks.
  Every failure is a \<open>Status\<close> with an \<open>Error\<close> or a \<open>Fault\<close> that names the kernel, pc, warp and
  mask.

  \<^bold>\<open>Theories.\<close> Each component theory holds the definitions, in the order of the code; its
  \<open>_Facts\<close> and \<open>_Safety\<close> theories hold the lemmas and the properties.

  \<^item> \<open>Semu_Prelude\<close>: integer types, byte lists (\<open>read_range\<close>, \<open>write_range\<close>), decimal text,
    little-endian words, list search. \<open>Ordered_Map\<close>: \<open>std::map\<close> as a sorted association list, with
    its interface as a locale. \<open>Json_Text\<close>: the JSON fragments the reports print.
  \<^item> \<open>Word128\<close> (\<open>core/word.cpp\<close>): bit-field extraction over lists of ranges, opcode, sign
    extension, against the integer value of the 128-bit word.
  \<^item> \<open>Sim_Status\<close> (\<open>core/status.cpp\<close>, \<open>core/fault.cpp\<close>): error codes, cause chains, faults and
    their texts; \<open>StatusOr\<close> is a sum with the error on the left.
  \<^item> \<open>Device_Memory\<close> (\<open>memory/memory.cpp\<close>): the allocator. \<open>Byte_Store\<close> and \<open>Atomic_Spec\<close> state
    the contracts (a store of bytes by address, an atomic on a value) as locales and specifications;
    \<open>Device_Memory_Facts\<close> and \<open>Device_Memory_Safety\<close> prove the invariant over every reachable
    allocator, the binary search against a linear scan, write/read round trips, isolation of typed
    stores, atomics against the specification, and that freed memory stays freed.
  \<^item> \<open>Constant_Bank\<close> (\<open>memory/memory.cpp\<close>): the parameter window of the constant bank.
  \<^item> \<open>Memory_Service\<close> (\<open>memory/memory_service.cpp\<close>): typed loads, stores and atomics on global,
    shared and constant memory; \<open>Memory_Service_Facts\<close> has the store/load round trips and the
    equality of global and shared atomics.
  \<^item> \<open>Hb_Clock\<close> (\<open>core/hb_clock.cpp\<close>) and \<open>Race_Detector\<close> (\<open>memory/race_detector.cpp\<close>):
    vector clocks and the interval shadow; \<open>Race_Facts\<close> and \<open>Race_Safety\<close> show that the interval
    shadow refines a byte-wise one, that no unordered conflict is missed and no report is spurious,
    and what barriers, release/acquire and reclaim do to the order.
  \<^item> \<open>Shared_Bank\<close> (\<open>memory/shared_bank.cpp\<close>): the bank-conflict estimate; \<open>Shared_Bank_Facts\<close>
    shows that its passes are conflict free, maximal in order and partition the lanes.
  \<^item> \<open>Mbarrier\<close> (\<open>tensor/mbarrier.cpp\<close>), \<open>Cluster\<close> (\<open>exec/cluster.cpp\<close>), \<open>Subcore\<close>
    (\<open>exec/subcore_scheduler.cpp\<close>): phases of a transaction barrier and its 64-bit mirror, the
    tiling of a grid by clusters and its inverse, issue numbering.
  \<^item> \<open>Warp_State\<close> (\<open>interpreter.hpp\<close>, \<open>shape_in.hpp\<close>, \<open>sm120_shared.hpp\<close>): threads, warps,
    CTAs, operands. Fixed arrays are lists of that length; reads at the indices the code guards.
  \<^item> \<open>Warp_Control\<close> (\<open>control_flow.cpp\<close>): branches, BSSY/BSYNC, EXIT, BAR, LDGDEPBAR, DEPBAR,
    ELECT. \<open>Warp_Facts\<close> has the control invariant of a warp and that every handler keeps it;
    \<open>Warp_Safety\<close> the outcome of BSYNC, BAR and branch targets.
  \<^item> \<open>Int_Vector\<close> (\<open>int_vector.cpp\<close>, \<open>scalar.cpp\<close>, parts of \<open>memory.cpp\<close>): the integer, bit,
    predicate, collective, uniform and special-register handlers. \<open>Int_Vector_Facts\<close> and
    \<open>Alu_Safety\<close> give their values (truth tables, funnel shifts, exact products, ballots) and the
    frame.
  \<^item> \<open>Ieee_Float\<close>: IEC 60559 arithmetic on bit patterns, the meaning of the host's \<open>float\<close>,
    \<open>double\<close> and casts under a rounding mode; \<open>Ieee_Facts\<close> shows that its rounding is the
    correct one. \<open>Fp\<close> (\<open>fp/fp.cpp\<close>): the leaf operations, flushing, saturation and the bit-level
    conversions; \<open>Fp_Facts\<close> and \<open>Fp_Half_Facts\<close> prove the narrowing conversions equal to the
    casts, \<open>Fp_Values\<close> and \<open>Fp_Int_Facts\<close> relate patterns and conversions to the real numbers they
    stand for, and \<open>Fp_Safety\<close> holds the properties.
  \<^item> \<open>Fp_Vector\<close> (\<open>fp_vector.cpp\<close>): the floating-point handlers in precise mode;
    \<open>Fp_Vector_Facts\<close> has their frame.
  \<^item> \<open>Execute\<close> and \<open>Scheduler\<close> (\<open>core.cpp\<close>): construction of the CTAs, dispatch of one group,
    scan, selection, terminal classification, single steps and the run loop. The data handlers are an
    argument; \<open>Scheduler_Facts\<close> states what the loop needs of them as the locale
    \<open>data_handlers\<close> and interprets it on the modelled handlers, and \<open>Scheduler_Safety\<close> derives
    the whole-launch properties.
  \<^item> \<open>Decoded_Shapes\<close> (\<open>generated/isa_shapes.hpp\<close>) and \<open>Mem_Decode\<close> (\<open>memory.cpp\<close>): the
    layouts of the decoded structs the memory handlers cast to, as lists of slots, and the width,
    address space, address and operation each handler reads through them.
  \<^item> \<open>Mem_Record\<close> (\<open>core.cpp\<close>, \<open>memory_events.hpp\<close>): race events, L2 descriptors, issue events
    and debugger accesses with their per-CTA numbers, the ordered replay into the race detector and the
    renumbering of events; \<open>Mem_Record_Facts\<close> shows that the replay is independent of the workers.
  \<^item> \<open>Mem_Inst\<close> (\<open>memory.cpp\<close>, \<open>scalar.cpp\<close>): the lane loop of loads, stores and atomics and every
    handler over it. \<open>Mem_Inst_Facts\<close>, \<open>Mem_Atomic_Facts\<close> and \<open>Mem_Safety\<close> give the effect of
    a warp-wide load, store and atomic, store/load round trip, precise faults and the preserved types.
  \<^item> \<open>Full_Machine\<close>: one dynamic instruction and the run loop with the floating-point
    and memory instructions, the service and the records; \<open>worker_run\<close> is the same loop when other workers change the service
    between instructions. \<open>Full_Facts\<close> carries the control invariant over to both.
  \<^item> \<open>L2_Events\<close> (\<open>memory/l2_events.cpp\<close>) and \<open>Global_Model\<close> (\<open>memory/global_model.cpp\<close>): the
    event engine of the L2 model and the coalescing estimate; \<open>L2_Events_Facts\<close> shows that every
    request completes once, \<open>Global_Model_Facts\<close> that the wave loop ends and that the counters are
    those of the set of bytes touched.
  \<^item> \<open>Launch\<close> (\<open>core.cpp\<close>, \<open>exec/execution.hpp\<close>): the start state of a worker, the result of a
    single worker and the merge of several. \<open>Race_Relabel\<close> shows that the race detector commutes
    with an order-preserving renumbering of instructions; \<open>Launch_Facts\<close> derives that launches end
    with every lane retired, and what of a result does not depend on the number of workers.

  \<^bold>\<open>Conventions.\<close> A w-bit unsigned integer is a \<open>w word\<close>, so wrap-around is the word's; a signed
  comparison reads it through \<open>sint\<close>. State is passed explicitly. A C++ exception-free failure is a
  value. The decoded instruction is the input of the interpreter model: each register handler takes the
  operand values its decoded struct carries, and where the variant class selects between structs a
  datatype has one constructor per layout. A memory instruction carries the slots of its own struct; a
  handler that casts it to another struct reads the slot at the same position, and a slot past the end
  of the instruction reads as zero, the padding of the fixed-size buffer. \<open>std::mt19937_64\<close> and
  \<open>std::uniform_int_distribution\<close> are a parameter (\<open>Rng\<close>) whose only law is that a draw lies in
  its range. A rounding mode set with \<open>fesetround\<close> is an argument of the operation. What the host
  makes of the payload of a NaN is the record \<open>NanImpl\<close>, \<open>x86_nan\<close> in the machine. In the machine with memory instructions \<open>None\<close> means the dereference of a global
  backing that was never attached, or an \<open>LDGSTS\<close>.

  \<^bold>\<open>Bounds.\<close> No definition has fuel. \<open>run_owned\<close> and \<open>full_run\<close> are total functions: each
  iteration increments the instruction count, which stays at or below the limit, a 64-bit word; their
  termination measure is the remaining count. The wave loop of \<open>Global_Model\<close> is a
  \<open>while_option\<close>, and that it ends is a property; the normalising loop of \<open>f16_to_f32\<close> is a
  \<open>while\<close>, which ends by the lemma \<open>half_shift_loop\<close>. All other loops are structural or folds over the
  32 lanes.

  \<^bold>\<open>Not modelled.\<close> The fast floating-point mode (\<open>fast_fp.cpp\<close>); the tensor instructions and
  their matrix engine (\<open>tensor.cpp\<close>); LDGSTS, SYNCS, ARRIVES and
  the tensor-map copies (\<open>memory.cpp\<close>, \<open>tma.cpp\<close>), and with them the L1TEX estimate of coupled
  transfers (\<open>l1tex_model.cpp\<close>); the fast mode, text trace and hotspot counts of a launch; threads
  and mutexes (the workers of a launch are sequences of instructions over a service that may change in
  between, and an instruction is atomic); the decoder and renderer over generated tables and the tables
  themselves, the cubin loader, the host context, the debugger's command loop, the profiler and the
  command line; the Python tools of the assembler.
\<close>

end
